(* ===== verification/Snap_Prelude.thy ===== *)
theory Snap_Prelude
  imports Main "HOL-Library.Word" "HOL-Library.AList" "HOL-Library.List_Lexorder"
    "HOL-Library.Multiset"
begin

text \<open>
  Shared vocabulary of the development: the machine types of the Rust sources, the result type
  of fallible operations, hash maps as association lists, and the generic facts about lists and
  association lists that the component theories share.

  A Rust \<open>Result<T, E>\<close> is \<open>('e, 'a) result\<close> with the constructors of the source plus
  \<open>Panic\<close> for every \<open>unwrap\<close>, slice or \<open>panic!\<close> that aborts the task.  An operation on
  \<open>&mut self\<close> returns the new state next to its result, because Rust keeps the changes made
  before an early return.
\<close>

type_synonym u8 = "8 word"
type_synonym u32 = "32 word"
type_synonym u64 = "64 word"
type_synonym bytes = "u8 list"

datatype ('e, 'a) result = Ok 'a | Err 'e | Panic string

definition map_err :: "('e \<Rightarrow> 'f) \<Rightarrow> ('e, 'a) result \<Rightarrow> ('f, 'a) result" where
  "map_err f r = (case r of Ok a \<Rightarrow> Ok a | Err e \<Rightarrow> Err (f e) | Panic s \<Rightarrow> Panic s)"

definition bind_result ::
  "('e, 'a) result \<Rightarrow> ('a \<Rightarrow> ('e, 'b) result) \<Rightarrow> ('e, 'b) result" where
  "bind_result r f = (case r of Ok a \<Rightarrow> f a | Err e \<Rightarrow> Err e | Panic s \<Rightarrow> Panic s)"

lemma map_err_simps [simp]:
  "map_err f (Ok a) = Ok a"
  "map_err f (Err e) = Err (f e)"
  "map_err f (Panic s) = Panic s"
  by (simp_all add: map_err_def)

lemma bind_result_simps [simp]:
  "bind_result (Ok a) g = g a"
  "bind_result (Err e) g = Err e"
  "bind_result (Panic s) g = Panic s"
  by (simp_all add: bind_result_def)

lemma bind_result_Ok_right: "bind_result r Ok = r"
  by (cases r) simp_all

lemma bind_result_Ok_iff:
  "bind_result r g = Ok b \<longleftrightarrow> (\<exists>a. r = Ok a \<and> g a = Ok b)"
  by (cases r) auto

lemma map_err_Ok_iff [simp]: "map_err f r = Ok a \<longleftrightarrow> r = Ok a"
  by (cases r) auto

text \<open>The messages of the panics the code can raise, and \<open>unwrap\<close> on a result.\<close>

definition unwrap_none :: string where
  "unwrap_none = ''called `Option::unwrap()` on a `None` value''"

definition add_overflow :: string where
  "add_overflow = ''attempt to add with overflow''"

definition sub_overflow :: string where
  "sub_overflow = ''attempt to subtract with overflow''"

definition unwrap_err :: string where
  "unwrap_err = ''called `Result::unwrap()` on an `Err` value''"

definition unwrap :: "('e, 'a) result \<Rightarrow> ('f, 'a) result" where
  "unwrap r = (case r of Ok a \<Rightarrow> Ok a | Err _ \<Rightarrow> Panic unwrap_err | Panic m \<Rightarrow> Panic m)"

lemma unwrap_simps [simp]:
  "unwrap (Ok a) = Ok a" "unwrap (Err e) = Panic unwrap_err" "unwrap (Panic m) = Panic m"
  by (simp_all add: unwrap_def)

subsection \<open>Hash maps\<close>

text \<open>
  A \<open>HashMap\<close> is an association list with distinct keys; the list order stands for the
  unspecified iteration order.  \<open>insert\<close> and \<open>remove\<close> are the library's
  \<^const>\<open>AList.update\<close> and \<^const>\<open>AList.delete\<close>.
\<close>

abbreviation hm_wf :: "('k \<times> 'v) list \<Rightarrow> bool" where
  "hm_wf m \<equiv> distinct (map fst m)"

abbreviation hm_get :: "('k \<times> 'v) list \<Rightarrow> 'k \<Rightarrow> 'v option" where
  "hm_get m k \<equiv> map_of m k"

abbreviation hm_insert :: "'k \<Rightarrow> 'v \<Rightarrow> ('k \<times> 'v) list \<Rightarrow> ('k \<times> 'v) list" where
  "hm_insert k v m \<equiv> AList.update k v m"

abbreviation hm_remove :: "'k \<Rightarrow> ('k \<times> 'v) list \<Rightarrow> ('k \<times> 'v) list" where
  "hm_remove k m \<equiv> AList.delete k m"

abbreviation hm_contains :: "('k \<times> 'v) list \<Rightarrow> 'k \<Rightarrow> bool" where
  "hm_contains m k \<equiv> map_of m k \<noteq> None"

lemma hm_get_insert: "hm_get (hm_insert k v m) k' = (if k' = k then Some v else hm_get m k')"
  by (simp add: update_conv')

lemma hm_get_remove: "hm_get (hm_remove k m) k' = (if k' = k then None else hm_get m k')"
  by (simp add: delete_conv')

lemma hm_keys_insert: "fst ` set (hm_insert k v m) = insert k (fst ` set m)"
  by (simp add: dom_update)

lemma hm_keys_remove: "fst ` set (hm_remove k m) = fst ` set m - {k}"
  by (induction m) auto

lemma hm_wf_insert: "hm_wf m \<Longrightarrow> hm_wf (hm_insert k v m)"
  by (rule distinct_update)

lemma hm_wf_remove: "hm_wf m \<Longrightarrow> hm_wf (hm_remove k m)"
  by (rule distinct_delete)

lemma hm_insert_not_Nil [simp]: "hm_insert k v m \<noteq> []"
  by (cases m) auto

lemma hm_keys_dom: "fst ` set m = {k. hm_contains m k}"
  by (auto simp: map_of_eq_None_iff image_iff)

lemma hm_get_in: "hm_wf m \<Longrightarrow> (k, v) \<in> set m \<longleftrightarrow> hm_get m k = Some v"
  by simp

lemma map_of_map_key: "map_of (map (\<lambda>c. (c, f c)) cs) c = (if c \<in> set cs then Some (f c) else None)"
  by (induction cs) auto

text \<open>Two well-formed association lists with the same lookups sort to the same list.\<close>

lemma sorted_list_unique_by_keys:
  fixes m m' :: "('k::linorder \<times> 'v) list"
  assumes "hm_wf m" "hm_wf m'" "map_of m = map_of m'"
  shows "sort_key fst m = sort_key fst m'"
proof -
  have "set m = set m'"
    using assms by (metis map_of_inject_set)
  moreover have "distinct m" "distinct m'"
    using assms(1,2) distinct_map by blast+
  ultimately have "mset m = mset m'"
    by (metis set_eq_iff_mset_eq_distinct)
  moreover have "inj_on fst (set m)"
    using assms(1) by (simp add: distinct_map)
  ultimately show ?thesis
    by (intro sort_key_inj_key_eq) (simp_all add: sorted_sort_key)
qed

subsection \<open>Lists\<close>

lemma take_Suc_append_nth:
  "take n k = p \<Longrightarrow> n < length k \<Longrightarrow> take (Suc n) k = p @ [k ! n]"
  by (simp add: take_Suc_conv_app_nth)

lemma list_update_map_upd:
  "i < length xs \<Longrightarrow> (map f xs)[i := v] = map (\<lambda>j. if j = i then v else f (xs ! j)) [0..<length xs]"
  by (rule nth_equalityI) (auto simp: nth_list_update)

text \<open>An fid kept in 64 bits.\<close>

lemma fid_u64 [simp]: "ucast (ucast (f :: u32) :: u64) = f"
  by (rule bit_word_eqI) (auto simp: bit_simps dest: bit_imp_le_length)

lemma fid_u64_zero [simp]: "ucast (f :: u32) = (0 :: u64) \<longleftrightarrow> f = 0"
  by (metis fid_u64 unsigned_0)

end
