(* ===== verification/Byte_Keys.thy ===== *)
theory Byte_Keys
  imports Snap_Prelude
begin

text \<open>
  Byte-string utilities: \<open>src/storage/util.rs\<close> (comparison, truncated hashes, key prefixes),
  \<open>src/storage/store/utils.rs\<close> and \<open>src/storage/store/account/utils.rs\<close> (big-endian
  increment and decrement), and the big-endian integer encodings the key makers use.  The
  lemmas relate them to the lexicographic order of byte strings (the order of the database) and
  to the numeric value of a big-endian string.
\<close>

section \<open>Definitions\<close>

text \<open>The 32-byte \<open>blake3\<close> digest is a parameter; the sync trie keeps its first 20 bytes.\<close>

definition BLAKE3_HASH_LEN :: nat where
  "BLAKE3_HASH_LEN = 20"

definition blake3_20 :: "(bytes \<Rightarrow> bytes) \<Rightarrow> bytes \<Rightarrow> bytes" where
  "blake3_20 blake3 input = take BLAKE3_HASH_LEN (blake3 input)"

text \<open>The loop \<open>for i in 0..len\<close> runs over the positions both strings have.\<close>

fun bytes_compare_loop :: "(u8 \<times> u8) list \<Rightarrow> int option" where
  "bytes_compare_loop [] = None"
| "bytes_compare_loop ((x, y) # r) =
     (if x < y then Some (- 1) else if x > y then Some 1 else bytes_compare_loop r)"

definition bytes_compare :: "bytes \<Rightarrow> bytes \<Rightarrow> int" where
  "bytes_compare a b =
     (case bytes_compare_loop (zip a b) of
        Some r \<Rightarrow> r
      | None \<Rightarrow>
          if length a < length b then - 1
          else if length a > length b then 1
          else 0)"

text \<open>The increment loop runs over the reversed bytes and returns the carry left at its end.\<close>

fun increment_loop :: "bytes \<Rightarrow> bytes \<times> bool" where
  "increment_loop [] = ([], True)"
| "increment_loop (b # bs) =
     (if b = 255 then (let (r, carry) = increment_loop bs in (0 # r, carry))
      else ((b + 1) # bs, False))"

definition increment_vec_u8 :: "bytes \<Rightarrow> bytes" where
  "increment_vec_u8 vec =
     (let (r, carry) = increment_loop (rev vec) in if carry then 1 # rev r else rev r)"

fun decrement_loop :: "bytes \<Rightarrow> bytes \<times> bool" where
  "decrement_loop [] = ([], True)"
| "decrement_loop (b # bs) =
     (if b = 0 then (let (r, borrow) = decrement_loop bs in (255 # r, borrow))
      else ((b - 1) # bs, False))"

definition decrement_vec_u8 :: "bytes \<Rightarrow> bytes" where
  "decrement_vec_u8 vec =
     (let (r, borrow) = decrement_loop (rev vec) in if borrow then butlast (rev r) else rev r)"

text \<open>\<open>to_be_bytes\<close> and \<open>from_be_bytes\<close> of the standard library, for \<open>n\<close>-byte words.\<close>

fun be_bytes :: "nat \<Rightarrow> nat \<Rightarrow> bytes" where
  "be_bytes 0 v = []"
| "be_bytes (Suc n) v = be_bytes n (v div 256) @ [word_of_nat (v mod 256)]"

definition be_val :: "bytes \<Rightarrow> nat" where
  "be_val bs = foldl (\<lambda>acc b. acc * 256 + unat b) 0 bs"

definition u32_to_be_bytes :: "u32 \<Rightarrow> bytes" where
  "u32_to_be_bytes w = be_bytes 4 (unat w)"

definition u64_to_be_bytes :: "u64 \<Rightarrow> bytes" where
  "u64_to_be_bytes w = be_bytes 8 (unat w)"

definition u32_from_be_bytes :: "bytes \<Rightarrow> u32" where
  "u32_from_be_bytes bs = word_of_nat (be_val bs)"

definition u64_from_be_bytes :: "bytes \<Rightarrow> u64" where
  "u64_from_be_bytes bs = word_of_nat (be_val bs)"

text \<open>The key prefixes of \<open>util.rs\<close>.\<close>

datatype root_prefix =
    User | CastsByParent | CastsByMention | LinksByTarget | ReactionsByTarget
  | HubState | JobRevokeMessageBySigner | SyncMerkleTrieNode | HubCleanShutdown
  | HubEvents | Network | FNameUserNameProof | UserNameProofByName | OnChainEvent
  | DBSchemaVersion | VerificationByAddress | ConnectedPeers | FNameUserNameProofByFid

fun root_prefix_u8 :: "root_prefix \<Rightarrow> u8" where
  "root_prefix_u8 User = 1"
| "root_prefix_u8 CastsByParent = 2"
| "root_prefix_u8 CastsByMention = 3"
| "root_prefix_u8 LinksByTarget = 4"
| "root_prefix_u8 ReactionsByTarget = 5"
| "root_prefix_u8 HubState = 9"
| "root_prefix_u8 JobRevokeMessageBySigner = 10"
| "root_prefix_u8 SyncMerkleTrieNode = 11"
| "root_prefix_u8 HubCleanShutdown = 14"
| "root_prefix_u8 HubEvents = 15"
| "root_prefix_u8 Network = 16"
| "root_prefix_u8 FNameUserNameProof = 17"
| "root_prefix_u8 UserNameProofByName = 19"
| "root_prefix_u8 OnChainEvent = 23"
| "root_prefix_u8 DBSchemaVersion = 24"
| "root_prefix_u8 VerificationByAddress = 25"
| "root_prefix_u8 ConnectedPeers = 26"
| "root_prefix_u8 FNameUserNameProofByFid = 27"

section \<open>Comparators\<close>

text \<open>
  What the stores and the trie rely on of a comparison function that returns -1, 0 or 1: it is
  the sign of a total order whose ties are equalities.
\<close>

locale comparator =
  fixes cmp :: "'a \<Rightarrow> 'a \<Rightarrow> int" and valid :: "'a \<Rightarrow> bool"
  assumes cmp_range: "valid a \<Longrightarrow> valid b \<Longrightarrow> cmp a b \<in> {- 1, 0, 1}"
    and cmp_flip: "valid a \<Longrightarrow> valid b \<Longrightarrow> cmp b a = - cmp a b"
    and cmp_zero: "valid a \<Longrightarrow> valid b \<Longrightarrow> cmp a b = 0 \<longleftrightarrow> a = b"
    and cmp_trans: "valid a \<Longrightarrow> valid b \<Longrightarrow> valid c \<Longrightarrow>
      cmp a b < 0 \<Longrightarrow> cmp b c < 0 \<Longrightarrow> cmp a c < 0"
begin

lemma cmp_refl: "valid a \<Longrightarrow> cmp a a = 0"
  by (simp add: cmp_zero)

lemma cmp_total: "valid a \<Longrightarrow> valid b \<Longrightarrow> a \<noteq> b \<Longrightarrow> cmp a b < 0 \<or> cmp b a < 0"
  using cmp_range [of a b] cmp_flip [of a b] cmp_zero [of a b] by auto

lemma cmp_asym: "valid a \<Longrightarrow> valid b \<Longrightarrow> cmp a b < 0 \<Longrightarrow> \<not> cmp b a < 0"
  using cmp_flip [of a b] by simp

lemma cmp_gt_iff: "valid a \<Longrightarrow> valid b \<Longrightarrow> cmp a b > 0 \<longleftrightarrow> cmp b a < 0"
  using cmp_flip [of a b] by simp

text \<open>The greater of two valid elements does not depend on their order.\<close>

lemma cmp_winner_comm:
  "valid a \<Longrightarrow> valid b \<Longrightarrow> (if cmp a b > 0 then a else b) = (if cmp b a > 0 then b else a)"
  using cmp_flip [of a b] cmp_zero [of a b] cmp_range [of a b] by auto

end

section \<open>Byte comparison is the lexicographic order\<close>

lemma bytes_compare_simps [simp]:
  "bytes_compare [] [] = 0"
  "bytes_compare [] (y # ys) = - 1"
  "bytes_compare (x # xs) [] = 1"
  "bytes_compare (x # xs) (y # ys) =
     (if x < y then - 1 else if x > y then 1 else bytes_compare xs ys)"
  by (auto simp: bytes_compare_def split: option.splits)

lemma bytes_compare_lex:
  "bytes_compare a b = (if a < b then - 1 else if a = b then 0 else 1)"
proof (induction a arbitrary: b)
  case Nil
  then show ?case by (cases b) auto
next
  case (Cons x xs)
  then show ?case by (cases b) (auto simp: not_less_iff_gr_or_eq)
qed

lemma bytes_compare_eq_0 [simp]: "bytes_compare a b = 0 \<longleftrightarrow> a = b"
  by (auto simp: bytes_compare_lex)

interpretation byte_order: comparator bytes_compare "\<lambda>_. True"
  by unfold_locales (auto simp: bytes_compare_lex split: if_splits)

lemma list_less_append: "p @ xs < p @ ys \<longleftrightarrow> xs < (ys :: bytes)"
  by (induction p) auto

lemma list_less_same_length:
  "length xs = length ys \<Longrightarrow> xs @ xs' < ys @ ys' \<longleftrightarrow> xs < ys \<or> xs = ys \<and> xs' < (ys' :: bytes)"
  by (induction xs ys rule: list_induct2) auto

section \<open>Big-endian numbers\<close>

lemma be_val_Nil [simp]: "be_val [] = 0"
  by (simp add: be_val_def)

lemma be_val_snoc [simp]: "be_val (bs @ [b]) = be_val bs * 256 + unat b"
  by (simp add: be_val_def)

lemma be_val_append: "be_val (xs @ ys) = be_val xs * 256 ^ length ys + be_val ys"
  by (induction ys rule: rev_induct) (simp_all add: algebra_simps flip: append_assoc)

lemma be_val_Cons: "be_val (x # xs) = unat x * 256 ^ length xs + be_val xs"
  using be_val_append [of "[x]" xs] be_val_snoc [of "[]" x] by simp

lemma unat_u8_less: "unat (b :: u8) < 256"
  using unsigned_less [of b, where 'a = nat] by simp

lemma be_val_less: "be_val bs < 256 ^ length bs"
proof (induction bs rule: rev_induct)
  case (snoc b bs)
  then show ?case using unat_u8_less [of b] by simp
qed simp

text \<open>For strings of the same length the byte order is the numeric order.\<close>

lemma be_val_less_iff:
  assumes "length a = length b"
  shows "a < b \<longleftrightarrow> be_val a < be_val b"
  using assms
proof (induction a b rule: list_induct2)
  case (Cons x xs y ys)
  have xb: "be_val xs < 256 ^ length ys" and yb: "be_val ys < 256 ^ length ys"
    using be_val_less [of xs] be_val_less [of ys] Cons.hyps by auto
  show ?case
  proof (cases "x = y")
    case True
    then show ?thesis using Cons by (simp add: be_val_Cons)
  next
    case False
    have lt: "be_val (a # as) < be_val (b # bs)"
      if "unat a < unat b" "length as = length bs" for a b :: u8 and as bs
    proof -
      have "be_val (a # as) < unat a * 256 ^ length bs + 256 ^ length bs"
        using that be_val_less [of as] by (simp add: be_val_Cons)
      also have "\<dots> = Suc (unat a) * 256 ^ length bs" by simp
      also have "\<dots> \<le> unat b * 256 ^ length bs"
        using that by (intro mult_le_mono1) simp
      also have "\<dots> \<le> be_val (b # bs)" by (simp add: be_val_Cons)
      finally show ?thesis .
    qed
    from False consider "unat x < unat y" | "unat y < unat x"
      by (metis linorder_neqE_nat word_unat_eq_iff)
    then show ?thesis
      using lt [of x y xs ys] lt [of y x ys xs] Cons.hyps False
      by cases (auto simp: word_less_nat_alt)
  qed
qed simp

lemma be_val_inj: "length a = length b \<Longrightarrow> be_val a = be_val b \<Longrightarrow> a = b"
  using be_val_less_iff [of a b] be_val_less_iff [of b a] by (metis linorder_neqE nat_less_le)

lemma length_be_bytes [simp]: "length (be_bytes n v) = n"
  by (induction n arbitrary: v) auto

lemma be_val_be_bytes: "be_val (be_bytes n v) = v mod 256 ^ n"
proof (induction n arbitrary: v)
  case (Suc n)
  have "unat (word_of_nat (v mod 256) :: u8) = v mod 256"
    by (simp add: unat_of_nat)
  then have "be_val (be_bytes (Suc n) v) = v div 256 mod 256 ^ n * 256 + v mod 256"
    by (simp add: Suc)
  also have "\<dots> = v mod 256 ^ Suc n"
    by (metis mod_mult2_eq mult.commute power_Suc)
  finally show ?case .
qed simp

lemma length_u32_to_be_bytes [simp]: "length (u32_to_be_bytes w) = 4"
  by (simp add: u32_to_be_bytes_def)

lemma length_u64_to_be_bytes [simp]: "length (u64_to_be_bytes w) = 8"
  by (simp add: u64_to_be_bytes_def)

lemma be_val_u32_to_be_bytes [simp]: "be_val (u32_to_be_bytes w) = unat w"
  using unsigned_less [of w, where 'a = nat] by (simp add: u32_to_be_bytes_def be_val_be_bytes)

lemma be_val_u64_to_be_bytes [simp]: "be_val (u64_to_be_bytes w) = unat w"
  using unsigned_less [of w, where 'a = nat] by (simp add: u64_to_be_bytes_def be_val_be_bytes)

lemma u32_be_roundtrip [simp]: "u32_from_be_bytes (u32_to_be_bytes w) = w"
  by (simp add: u32_from_be_bytes_def)

lemma u64_be_roundtrip [simp]: "u64_from_be_bytes (u64_to_be_bytes w) = w"
  by (simp add: u64_from_be_bytes_def)

lemma u32_to_be_bytes_inject [simp]: "u32_to_be_bytes v = u32_to_be_bytes w \<longleftrightarrow> v = w"
  by (metis u32_be_roundtrip)

lemma u64_to_be_bytes_inject [simp]: "u64_to_be_bytes v = u64_to_be_bytes w \<longleftrightarrow> v = w"
  by (metis u64_be_roundtrip)

lemma u32_to_be_bytes_less_iff [simp]: "u32_to_be_bytes v < u32_to_be_bytes w \<longleftrightarrow> v < w"
  by (simp add: be_val_less_iff word_less_nat_alt)

lemma u64_to_be_bytes_less_iff [simp]: "u64_to_be_bytes v < u64_to_be_bytes w \<longleftrightarrow> v < w"
  by (simp add: be_val_less_iff word_less_nat_alt)

section \<open>Increment and decrement\<close>

lemma unat_u8_Suc: "(b :: u8) \<noteq> 255 \<Longrightarrow> unat (b + 1) = Suc (unat b)"
proof -
  assume "b \<noteq> 255"
  then have "unat b \<noteq> 255" by (simp add: word_unat_eq_iff)
  then show ?thesis
    using unat_u8_less [of b] by (simp add: unat_word_ariths)
qed

lemma unat_u8_pred:
  assumes "(b :: u8) \<noteq> 0"
  shows "Suc (unat (b - 1)) = unat b"
proof -
  from assms have "unat b \<noteq> 0" by (simp add: word_unat_eq_iff)
  then show ?thesis using unat_minus_one [OF assms] by simp
qed

lemma increment_loop_spec:
  "increment_loop bs = (r, carry) \<Longrightarrow>
     length r = length bs \<and>
     be_val (rev r) + (if carry then 256 ^ length bs else 0) = Suc (be_val (rev bs)) \<and>
     (carry \<longleftrightarrow> (\<forall>b \<in> set bs. b = 255))"
proof (induction bs arbitrary: r carry)
  case (Cons b bs)
  show ?case
  proof (cases "b = 255")
    case True
    with Cons.prems obtain r' where r': "increment_loop bs = (r', carry)" "r = 0 # r'"
      by (auto split: prod.splits)
    from Cons.IH [OF r'(1)] True r' show ?thesis by (auto split: if_splits)
  next
    case False
    with Cons.prems unat_u8_Suc [of b] show ?thesis by auto
  qed
qed auto

lemma decrement_loop_spec:
  "decrement_loop bs = (r, borrow) \<Longrightarrow>
     length r = length bs \<and>
     Suc (be_val (rev r)) = be_val (rev bs) + (if borrow then 256 ^ length bs else 0) \<and>
     (borrow \<longleftrightarrow> (\<forall>b \<in> set bs. b = 0))"
proof (induction bs arbitrary: r borrow)
  case (Cons b bs)
  show ?case
  proof (cases "b = 0")
    case True
    with Cons.prems obtain r' where r': "decrement_loop bs = (r', borrow)" "r = 255 # r'"
      by (auto split: prod.splits)
    from Cons.IH [OF r'(1)] True r' show ?thesis by (auto split: if_splits)
  next
    case False
    with Cons.prems unat_u8_pred [of b] show ?thesis by auto
  qed
qed auto

lemma be_val_increment: "be_val (increment_vec_u8 v) = Suc (be_val v)"
proof -
  obtain r carry where r: "increment_loop (rev v) = (r, carry)" by fastforce
  from increment_loop_spec [OF r] r show ?thesis
    by (cases carry) (auto simp: increment_vec_u8_def be_val_Cons)
qed

lemma length_increment:
  "length (increment_vec_u8 v) = (if \<forall>b \<in> set v. b = 255 then Suc (length v) else length v)"
proof -
  obtain r carry where r: "increment_loop (rev v) = (r, carry)" by fastforce
  from increment_loop_spec [OF r] r show ?thesis
    by (auto simp: increment_vec_u8_def)
qed

lemma decrement_spec:
  assumes "\<exists>b \<in> set v. b \<noteq> 0"
  shows "length (decrement_vec_u8 v) = length v" "Suc (be_val (decrement_vec_u8 v)) = be_val v"
proof -
  obtain r borrow where r: "decrement_loop (rev v) = (r, borrow)" by fastforce
  from decrement_loop_spec [OF r] assms have "\<not> borrow" by auto
  with decrement_loop_spec [OF r] r
  show "length (decrement_vec_u8 v) = length v" "Suc (be_val (decrement_vec_u8 v)) = be_val v"
    by (auto simp: decrement_vec_u8_def)
qed

text \<open>The increment is the next string of the same length in the database order.\<close>

lemma increment_next:
  assumes "\<exists>b \<in> set v. b \<noteq> 255"
  shows "v < increment_vec_u8 v"
    and "length k = length v \<Longrightarrow> v < k \<Longrightarrow> increment_vec_u8 v \<le> k"
proof -
  have len: "length (increment_vec_u8 v) = length v"
    using assms by (auto simp: length_increment)
  then show "v < increment_vec_u8 v"
    by (simp add: be_val_less_iff be_val_increment)
  assume "length k = length v" "v < k"
  then have "\<not> k < increment_vec_u8 v"
    using len by (auto simp: be_val_less_iff be_val_increment)
  then show "increment_vec_u8 v \<le> k" by simp
qed

lemma be_val_pos: "be_val v > 0 \<Longrightarrow> \<exists>b \<in> set v. b \<noteq> 0"
proof (rule ccontr)
  assume "be_val v > 0" "\<not> (\<exists>b \<in> set v. b \<noteq> 0)"
  moreover have "\<forall>b \<in> set v. b = 0 \<Longrightarrow> be_val v = 0"
    by (induction v) (auto simp: be_val_Cons)
  ultimately show False by auto
qed

lemma be_val_max: "Suc (be_val v) < 256 ^ length v \<Longrightarrow> \<exists>b \<in> set v. b \<noteq> 255"
  using be_val_less [of "increment_vec_u8 v"] length_increment [of v] be_val_increment [of v]
proof (rule_tac ccontr)
  assume less: "Suc (be_val v) < 256 ^ length v" and "\<not> (\<exists>b \<in> set v. b \<noteq> 255)"
  moreover have "\<forall>b \<in> set v. b = 255 \<Longrightarrow> Suc (be_val v) = 256 ^ length v"
    by (induction v) (auto simp: be_val_Cons)
  ultimately show False by auto
qed

lemma decrement_increment:
  assumes "\<exists>b \<in> set v. b \<noteq> 255"
  shows "decrement_vec_u8 (increment_vec_u8 v) = v"
proof (rule be_val_inj)
  have nz: "\<exists>b \<in> set (increment_vec_u8 v). b \<noteq> 0"
    by (rule be_val_pos) (simp add: be_val_increment)
  have "length (increment_vec_u8 v) = length v"
    using assms by (auto simp: length_increment)
  then show "length (decrement_vec_u8 (increment_vec_u8 v)) = length v"
    using decrement_spec(1) [OF nz] by simp
  show "be_val (decrement_vec_u8 (increment_vec_u8 v)) = be_val v"
    using decrement_spec(2) [OF nz] by (simp add: be_val_increment)
qed

end
