(* ===== verification/Rocks_Db.thy ===== *)
theory Rocks_Db
  imports Byte_Keys
begin

text \<open>
  The database wrapper of \<open>src/storage/db/rocksdb.rs\<close>: write batches, reads, atomic commits
  and bounded iteration.

  The \<open>rocksdb\<close> crate is not part of the repository.  What the wrapper sees of an open
  \<open>TransactionDB\<close> is its key-value entries in the order of the default bytewise comparator and,
  as parameters of the environment, the error the engine reports when a key is read, when a key is
  written, and when a transaction commits.  An error inside a transaction drops it, so the entries
  stay as they were.  The \<open>RwLock\<close> around the handle is not modelled: every operation takes the
  lock once and releases it before it returns.
\<close>

section \<open>Key-value entries\<close>

type_synonym kv = "(bytes \<times> bytes) list"

fun kv_put :: "bytes \<Rightarrow> bytes \<Rightarrow> kv \<Rightarrow> kv" where
  "kv_put k v [] = [(k, v)]"
| "kv_put k v ((k', v') # m) =
     (if k < k' then (k, v) # (k', v') # m
      else if k = k' then (k, v) # m
      else (k', v') # kv_put k v m)"

definition kv_delete :: "bytes \<Rightarrow> kv \<Rightarrow> kv" where
  "kv_delete k m = filter (\<lambda>e. fst e \<noteq> k) m"

definition kv_wf :: "kv \<Rightarrow> bool" where
  "kv_wf m \<longleftrightarrow> sorted_wrt (<) (map fst m)"

definition kv_range :: "bytes \<Rightarrow> bytes \<Rightarrow> kv \<Rightarrow> kv" where
  "kv_range lower upper m = filter (\<lambda>e. lower \<le> fst e \<and> fst e < upper) m"

section \<open>Errors, batches and the wrapper\<close>

datatype rocksdb_error = InternalError string | DecodeError string | DbNotOpen

type_synonym txn_batch = "(bytes \<times> bytes option) list"

definition txn_new :: txn_batch where
  "txn_new = []"

definition txn_put :: "txn_batch \<Rightarrow> bytes \<Rightarrow> bytes \<Rightarrow> txn_batch" where
  "txn_put batch key value = hm_insert key (Some value) batch"

definition txn_delete :: "txn_batch \<Rightarrow> bytes \<Rightarrow> txn_batch" where
  "txn_delete batch key = hm_insert key None batch"

definition txn_merge :: "txn_batch \<Rightarrow> txn_batch \<Rightarrow> txn_batch" where
  "txn_merge batch other = fold (\<lambda>(key, value) b. hm_insert key value b) other batch"

definition txn_len :: "txn_batch \<Rightarrow> nat" where
  "txn_len batch = length batch"

record transaction_db =
  tdb_entries :: kv
  tdb_read_error :: "bytes \<Rightarrow> string option"
  tdb_write_error :: "bytes \<Rightarrow> string option"
  tdb_commit_error :: "string option"

record rocksdb =
  rdb_db :: "transaction_db option"
  rdb_path :: string

record page_options =
  page_size :: "nat option"
  page_token :: "bytes option"
  page_reverse :: bool

record iterator_options =
  iter_lower_bound :: bytes
  iter_upper_bound :: bytes
  iter_reverse :: bool

definition rocksdb_new :: "string \<Rightarrow> rocksdb" where
  "rocksdb_new p = \<lparr>rdb_db = None, rdb_path = p\<rparr>"

text \<open>\<open>TransactionDB::open\<close> is the crate's: its result is an argument.\<close>

definition rocksdb_open ::
  "(string \<Rightarrow> (string, transaction_db) result) \<Rightarrow> rocksdb \<Rightarrow> rocksdb \<times> (rocksdb_error, unit) result" where
  "rocksdb_open open_fn self =
     (case open_fn (rdb_path self) of
        Ok db \<Rightarrow> (self\<lparr>rdb_db := Some db\<rparr>, Ok ())
      | Err e \<Rightarrow> (self, Err (InternalError e))
      | Panic s \<Rightarrow> (self, Panic s))"

definition rocksdb_close :: "rocksdb \<Rightarrow> rocksdb" where
  "rocksdb_close self = self\<lparr>rdb_db := None\<rparr>"

definition rocksdb_get :: "rocksdb \<Rightarrow> bytes \<Rightarrow> (rocksdb_error, bytes option) result" where
  "rocksdb_get self key =
     (case rdb_db self of
        None \<Rightarrow> Panic unwrap_none
      | Some db \<Rightarrow>
          (case tdb_read_error db key of
             Some e \<Rightarrow> Err (InternalError e)
           | None \<Rightarrow> Ok (map_of (tdb_entries db) key)))"

definition rocksdb_keys_exist :: "rocksdb \<Rightarrow> bytes list \<Rightarrow> (rocksdb_error, bool list) result" where
  "rocksdb_keys_exist self keys =
     (case rdb_db self of
        None \<Rightarrow> Panic unwrap_none
      | Some db \<Rightarrow>
          Ok (map (\<lambda>k. case tdb_read_error db k of
                         Some _ \<Rightarrow> False
                       | None \<Rightarrow> map_of (tdb_entries db) k \<noteq> None) keys))"

fun collect_results :: "('e, 'a) result list \<Rightarrow> ('e, 'a list) result" where
  "collect_results [] = Ok []"
| "collect_results (r # rs) = bind_result r (\<lambda>a. bind_result (collect_results rs) (\<lambda>as. Ok (a # as)))"

definition rocksdb_get_many :: "rocksdb \<Rightarrow> bytes list \<Rightarrow> (rocksdb_error, bytes list) result" where
  "rocksdb_get_many self keys =
     (case rdb_db self of
        None \<Rightarrow> Panic unwrap_none
      | Some db \<Rightarrow>
          bind_result (collect_results (map (rocksdb_get self) keys))
            (\<lambda>rs. Ok (map (\<lambda>r. case r of None \<Rightarrow> [] | Some v \<Rightarrow> v) rs)))"

definition rocksdb_put :: "rocksdb \<Rightarrow> bytes \<Rightarrow> bytes \<Rightarrow> rocksdb \<times> (rocksdb_error, unit) result" where
  "rocksdb_put self key value =
     (case rdb_db self of
        None \<Rightarrow> (self, Panic unwrap_none)
      | Some db \<Rightarrow>
          (case tdb_write_error db key of
             Some e \<Rightarrow> (self, Err (InternalError e))
           | None \<Rightarrow>
               (self\<lparr>rdb_db := Some (db\<lparr>tdb_entries := kv_put key value (tdb_entries db)\<rparr>)\<rparr>, Ok ())))"

definition rocksdb_del :: "rocksdb \<Rightarrow> bytes \<Rightarrow> rocksdb \<times> (rocksdb_error, unit) result" where
  "rocksdb_del self key =
     (case rdb_db self of
        None \<Rightarrow> (self, Panic unwrap_none)
      | Some db \<Rightarrow>
          (case tdb_write_error db key of
             Some e \<Rightarrow> (self, Err (InternalError e))
           | None \<Rightarrow>
               (self\<lparr>rdb_db := Some (db\<lparr>tdb_entries := kv_delete key (tdb_entries db)\<rparr>)\<rparr>, Ok ())))"

definition rocksdb_txn :: "rocksdb \<Rightarrow> txn_batch" where
  "rocksdb_txn self = txn_new"

fun commit_loop :: "transaction_db \<Rightarrow> txn_batch \<Rightarrow> kv \<Rightarrow> (rocksdb_error, kv) result" where
  "commit_loop db [] pending = Ok pending"
| "commit_loop db ((key, value) # batch) pending =
     (case tdb_write_error db key of
        Some e \<Rightarrow> Err (InternalError e)
      | None \<Rightarrow>
          commit_loop db batch
            (case value of None \<Rightarrow> kv_delete key pending | Some v \<Rightarrow> kv_put key v pending))"

definition rocksdb_commit :: "rocksdb \<Rightarrow> txn_batch \<Rightarrow> rocksdb \<times> (rocksdb_error, unit) result" where
  "rocksdb_commit self batch =
     (case rdb_db self of
        None \<Rightarrow> (self, Err DbNotOpen)
      | Some db \<Rightarrow>
          (case commit_loop db batch (tdb_entries db) of
             Err e \<Rightarrow> (self, Err e)
           | Panic s \<Rightarrow> (self, Panic s)
           | Ok pending \<Rightarrow>
               (case tdb_commit_error db of
                  Some e \<Rightarrow> (self, Err (InternalError e))
                | None \<Rightarrow> (self\<lparr>rdb_db := Some (db\<lparr>tdb_entries := pending\<rparr>)\<rparr>, Ok ()))))"

definition get_iterator_options ::
  "bytes option \<Rightarrow> bytes option \<Rightarrow> page_options \<Rightarrow> iterator_options" where
  "get_iterator_options start_prefix stop_prefix opts =
     (let start_iterator_prefix = (case start_prefix of None \<Rightarrow> [] | Some prefix \<Rightarrow> prefix);
          stop_iterator_prefix = (case stop_prefix of None \<Rightarrow> replicate 32 255 | Some prefix \<Rightarrow> prefix);
          upper_bound = (case page_token opts of None \<Rightarrow> stop_iterator_prefix | Some token \<Rightarrow> token);
          lower_bound = (case page_token opts of None \<Rightarrow> start_iterator_prefix
                                               | Some token \<Rightarrow> increment_vec_u8 token)
      in \<lparr>iter_lower_bound = lower_bound, iter_upper_bound = upper_bound,
          iter_reverse = page_reverse opts\<rparr>)"

text \<open>
  The callback \<open>FnMut(&[u8], &[u8])\<close> threads the state it captures.  The loop stops when the
  callback returns true, at the page size, or after the last item in the bounds.
\<close>

fun iterate_loop ::
  "('s \<Rightarrow> bytes \<Rightarrow> bytes \<Rightarrow> 's \<times> (rocksdb_error, bool) result) \<Rightarrow> nat option \<Rightarrow> nat \<Rightarrow>
     kv \<Rightarrow> 's \<Rightarrow> 's \<times> (rocksdb_error, bool) result" where
  "iterate_loop f psize cnt [] s = (s, Ok True)"
| "iterate_loop f psize cnt ((key, value) # rest) s =
     (case f s key value of
        (s', Err e) \<Rightarrow> (s', Err e)
      | (s', Panic m) \<Rightarrow> (s', Panic m)
      | (s', Ok stop) \<Rightarrow>
          if stop then (s', Ok False)
          else (case psize of
                  None \<Rightarrow> iterate_loop f psize cnt rest s'
                | Some n \<Rightarrow>
                    if cnt + 1 \<ge> n then (s', Ok True)
                    else iterate_loop f psize (cnt + 1) rest s'))"

definition for_each_iterator_by_prefix_paged ::
  "rocksdb \<Rightarrow> bytes option \<Rightarrow> bytes option \<Rightarrow> page_options \<Rightarrow>
     ('s \<Rightarrow> bytes \<Rightarrow> bytes \<Rightarrow> 's \<times> (rocksdb_error, bool) result) \<Rightarrow> 's \<Rightarrow>
     's \<times> (rocksdb_error, bool) result" where
  "for_each_iterator_by_prefix_paged self start_prefix stop_prefix opts f s =
     (let iter_opts = get_iterator_options start_prefix stop_prefix opts in
      case rdb_db self of
        None \<Rightarrow> (s, Panic unwrap_none)
      | Some db \<Rightarrow>
          (let range = kv_range (iter_lower_bound iter_opts) (iter_upper_bound iter_opts) (tdb_entries db);
               items = (if iter_reverse iter_opts then rev range else range)
           in iterate_loop f (page_size opts) 0 items s))"

definition for_each_iterator_by_prefix ::
  "rocksdb \<Rightarrow> bytes option \<Rightarrow> bytes option \<Rightarrow> page_options \<Rightarrow>
     ('s \<Rightarrow> bytes \<Rightarrow> bytes \<Rightarrow> 's \<times> (rocksdb_error, bool) result) \<Rightarrow> 's \<Rightarrow>
     's \<times> (rocksdb_error, bool) result" where
  "for_each_iterator_by_prefix self start_prefix stop_prefix opts f s =
     for_each_iterator_by_prefix_paged self start_prefix stop_prefix
       \<lparr>page_size = None, page_token = page_token opts, page_reverse = page_reverse opts\<rparr> f s"

text \<open>One round of \<open>clear\<close>: delete every readable key in one transaction.\<close>

definition clear_round :: "rocksdb \<Rightarrow> (rocksdb \<times> (rocksdb_error, unit) result) \<times> nat" where
  "clear_round self =
     (case rdb_db self of
        None \<Rightarrow> ((self, Panic unwrap_none), 0)
      | Some db \<Rightarrow>
          (let keys = filter (\<lambda>k. tdb_read_error db k = None) (map fst (tdb_entries db))
           in (rocksdb_commit self (fold (\<lambda>k t. txn_delete t k) keys txn_new), length keys)))"

fun clear_loop :: "nat \<Rightarrow> rocksdb \<Rightarrow> rocksdb \<times> (rocksdb_error, nat) result option" where
  "clear_loop 0 self = (self, None)"
| "clear_loop (Suc fuel) self =
     (case clear_round self of
        ((self', Err e), _) \<Rightarrow> (self', Some (Err e))
      | ((self', Panic m), _) \<Rightarrow> (self', Some (Panic m))
      | ((self', Ok _), deleted) \<Rightarrow>
          if deleted = 0 then (self', Some (Ok deleted)) else clear_loop fuel self')"

text \<open>Two rounds empty a database that commits (lemma \<open>rocksdb_clear_empties\<close>).\<close>

definition rocksdb_clear :: "rocksdb \<Rightarrow> rocksdb \<times> (rocksdb_error, nat) result option" where
  "rocksdb_clear self = clear_loop 2 self"

section \<open>The interface of the entries\<close>

text \<open>What the wrapper relies on of an ordered key-value engine.\<close>

locale ordered_kv =
  fixes get :: "'m \<Rightarrow> bytes \<Rightarrow> bytes option"
    and put :: "bytes \<Rightarrow> bytes \<Rightarrow> 'm \<Rightarrow> 'm"
    and del :: "bytes \<Rightarrow> 'm \<Rightarrow> 'm"
    and range :: "bytes \<Rightarrow> bytes \<Rightarrow> 'm \<Rightarrow> (bytes \<times> bytes) list"
    and wf :: "'m \<Rightarrow> bool"
  assumes get_put: "wf m \<Longrightarrow> get (put k v m) = (get m)(k \<mapsto> v)"
    and get_del: "wf m \<Longrightarrow> get (del k m) = (get m)(k := None)"
    and wf_put: "wf m \<Longrightarrow> wf (put k v m)"
    and wf_del: "wf m \<Longrightarrow> wf (del k m)"
    and range_sorted: "wf m \<Longrightarrow> sorted_wrt (<) (map fst (range lo hi m))"
    and range_get: "wf m \<Longrightarrow>
      (k, v) \<in> set (range lo hi m) \<longleftrightarrow> lo \<le> k \<and> k < hi \<and> get m k = Some v"
begin

definition kv_write :: "bytes \<times> bytes option \<Rightarrow> 'm \<Rightarrow> 'm" where
  "kv_write e m = (case snd e of None \<Rightarrow> del (fst e) m | Some v \<Rightarrow> put (fst e) v m)"

lemma wf_kv_write: "wf m \<Longrightarrow> wf (kv_write e m)"
  by (simp add: kv_write_def wf_put wf_del split: option.splits)

lemma wf_writes: "wf m \<Longrightarrow> wf (fold kv_write b m)"
  by (induction b arbitrary: m) (simp_all add: wf_kv_write)

lemma get_kv_write: "wf m \<Longrightarrow> get (kv_write e m) k = (if k = fst e then snd e else get m k)"
  by (simp add: kv_write_def get_put get_del split: option.splits)

text \<open>Writing a batch with distinct keys is an overlay, whatever its order.\<close>

lemma get_writes:
  assumes "wf m" "distinct (map fst b)"
  shows "get (fold kv_write b m) k = (case map_of b k of None \<Rightarrow> get m k | Some v \<Rightarrow> v)"
  using assms
proof (induction b arbitrary: m)
  case (Cons e b)
  obtain k' v' where e: "e = (k', v')" by (cases e)
  from Cons.prems e have notin: "map_of b k' = None"
    by (auto simp: map_of_eq_None_iff)
  from Cons.IH [OF wf_kv_write] Cons.prems e notin show ?case
    by (auto simp: get_kv_write split: option.splits)
qed simp

text \<open>The greatest item of a range is its last one.\<close>

lemma range_last:
  assumes "wf m" "range lo hi m \<noteq> []" "(k, v) \<in> set (range lo hi m)"
  shows "k \<le> fst (last (range lo hi m))"
proof -
  obtain xs x where r: "range lo hi m = xs @ [x]"
    using assms(2) by (metis append_butlast_last_id)
  with range_sorted [OF assms(1), of lo hi] assms(3) show ?thesis
    by (auto simp: sorted_wrt_append intro: less_imp_le)
qed

lemma range_empty: "wf m \<Longrightarrow> hi \<le> lo \<Longrightarrow> range lo hi m = []"
proof (rule ccontr)
  assume "wf m" "hi \<le> lo" "range lo hi m \<noteq> []"
  then obtain k v where "(k, v) \<in> set (range lo hi m)"
    by (metis list.set_intros(1) neq_Nil_conv surj_pair)
  with range_get [OF \<open>wf m\<close>, of k v lo hi] \<open>hi \<le> lo\<close> show False
    by (auto dest: order.strict_trans1 order.strict_trans2)
qed

end

lemma map_of_kv_put [simp]: "map_of (kv_put k v m) = (map_of m)(k \<mapsto> v)"
  by (induction m) auto

lemma map_of_kv_delete [simp]: "map_of (kv_delete k m) = (map_of m)(k := None)"
  by (induction m) (auto simp: kv_delete_def)

lemma keys_kv_put: "fst ` set (kv_put k v m) = insert k (fst ` set m)"
  by (simp flip: dom_map_of_conv_image_fst)

lemma kv_wf_Cons:
  "kv_wf (e # m) \<longleftrightarrow> kv_wf m \<and> (\<forall>k \<in> fst ` set m. fst e < k)"
  by (auto simp: kv_wf_def)

lemma kv_wf_put: "kv_wf m \<Longrightarrow> kv_wf (kv_put k v m)"
proof (induction m)
  case (Cons e m)
  then show ?case
    by (cases e) (force simp: kv_wf_Cons keys_kv_put)
qed (simp add: kv_wf_def)

lemma sorted_wrt_map_filter: "sorted_wrt (<) (map f m) \<Longrightarrow> sorted_wrt (<) (map f (filter P m))"
  by (induction m) auto

lemma kv_wf_distinct: "kv_wf m \<Longrightarrow> distinct (map fst m)"
  by (simp add: kv_wf_def strict_sorted_iff)

interpretation kv_store: ordered_kv map_of kv_put kv_delete kv_range kv_wf
proof unfold_locales
  fix m k v lo hi
  assume wf: "kv_wf m"
  show "map_of (kv_put k v m) = (map_of m)(k \<mapsto> v)" by simp
  show "map_of (kv_delete k m) = (map_of m)(k := None)" by simp
  show "kv_wf (kv_put k v m)" using wf by (rule kv_wf_put)
  show "kv_wf (kv_delete k m)" using wf
    by (simp add: kv_wf_def kv_delete_def sorted_wrt_map_filter)
  show "sorted_wrt (<) (map fst (kv_range lo hi m))" using wf
    by (simp add: kv_wf_def kv_range_def sorted_wrt_map_filter)
  show "(k, v) \<in> set (kv_range lo hi m) \<longleftrightarrow> lo \<le> k \<and> k < hi \<and> map_of m k = Some v"
    using kv_wf_distinct [OF wf] by (auto simp: kv_range_def)
qed

section \<open>Batches\<close>

text \<open>What a reader sees when a pending batch lies over the database.\<close>

definition overlay :: "(bytes \<Rightarrow> bytes option) \<Rightarrow> txn_batch \<Rightarrow> bytes \<Rightarrow> bytes option" where
  "overlay g batch k = (case hm_get batch k of None \<Rightarrow> g k | Some v \<Rightarrow> v)"

lemma overlay_new [simp]: "overlay g txn_new = g"
  by (simp add: overlay_def txn_new_def fun_eq_iff)

lemma overlay_Nil [simp]: "overlay g [] = g"
  by (simp add: overlay_def fun_eq_iff)

lemma overlay_put [simp]: "overlay g (txn_put b k v) = (overlay g b)(k \<mapsto> v)"
  by (auto simp: overlay_def txn_put_def hm_get_insert fun_eq_iff)

lemma overlay_delete [simp]: "overlay g (txn_delete b k) = (overlay g b)(k := None)"
  by (auto simp: overlay_def txn_delete_def hm_get_insert fun_eq_iff)

lemma hm_wf_txn [simp]:
  "hm_wf txn_new"
  "hm_wf b \<Longrightarrow> hm_wf (txn_put b k v)"
  "hm_wf b \<Longrightarrow> hm_wf (txn_delete b k)"
  by (simp_all add: txn_new_def txn_put_def txn_delete_def hm_wf_insert)

lemma hm_wf_merge: "hm_wf b \<Longrightarrow> hm_wf (txn_merge b c)"
  unfolding txn_merge_def
  by (induction c arbitrary: b) (auto simp: hm_wf_insert)

lemma hm_get_merge:
  assumes "hm_wf c"
  shows "hm_get (txn_merge b c) k = (case hm_get c k of None \<Rightarrow> hm_get b k | Some v \<Rightarrow> Some v)"
  using assms unfolding txn_merge_def
proof (induction c arbitrary: b)
  case (Cons e c)
  obtain k' v' where e: "e = (k', v')" by (cases e)
  from Cons.prems e have "hm_get c k' = None" by (auto simp: map_of_eq_None_iff)
  with Cons e show ?case by (auto simp: hm_get_insert split: option.splits)
qed simp

lemma overlay_merge: "hm_wf c \<Longrightarrow> overlay g (txn_merge b c) = overlay (overlay g b) c"
  by (auto simp: overlay_def hm_get_merge fun_eq_iff split: option.splits)

section \<open>Healthy databases\<close>

text \<open>An open database whose engine reports no error, and what its reads return.\<close>

definition db_healthy :: "rocksdb \<Rightarrow> bool" where
  "db_healthy self \<longleftrightarrow>
     (case rdb_db self of
        None \<Rightarrow> False
      | Some db \<Rightarrow> kv_wf (tdb_entries db) \<and> tdb_read_error db = (\<lambda>_. None) \<and>
                  tdb_write_error db = (\<lambda>_. None) \<and> tdb_commit_error db = None)"

definition db_entries :: "rocksdb \<Rightarrow> kv" where
  "db_entries self = (case rdb_db self of None \<Rightarrow> [] | Some db \<Rightarrow> tdb_entries db)"

definition db_view :: "rocksdb \<Rightarrow> bytes \<Rightarrow> bytes option" where
  "db_view self = map_of (db_entries self)"

lemma db_healthyE:
  assumes "db_healthy self"
  obtains db where "rdb_db self = Some db" "kv_wf (tdb_entries db)"
    "tdb_read_error db = (\<lambda>_. None)" "tdb_write_error db = (\<lambda>_. None)" "tdb_commit_error db = None"
  using assms by (auto simp: db_healthy_def split: option.splits)

lemma kv_wf_db_entries: "db_healthy self \<Longrightarrow> kv_wf (db_entries self)"
  by (auto simp: db_entries_def elim: db_healthyE)

lemma rocksdb_get_healthy [simp]: "db_healthy self \<Longrightarrow> rocksdb_get self k = Ok (db_view self k)"
  by (auto simp: rocksdb_get_def db_view_def db_entries_def elim!: db_healthyE)

lemma commit_loop_healthy:
  "tdb_write_error db = (\<lambda>_. None) \<Longrightarrow>
     commit_loop db batch pending = Ok (fold kv_store.kv_write batch pending)"
  by (induction db batch pending rule: commit_loop.induct)
    (auto simp: kv_store.kv_write_def split: option.splits)

lemma commit_loop_Ok:
  "commit_loop db batch pending = Ok pending' \<Longrightarrow> pending' = fold kv_store.kv_write batch pending"
  by (induction db batch pending rule: commit_loop.induct) (auto simp: kv_store.kv_write_def split: option.splits)

lemma rocksdb_commit_healthy:
  assumes "db_healthy self" "hm_wf batch"
  shows "\<exists>self'. rocksdb_commit self batch = (self', Ok ()) \<and> db_healthy self' \<and>
    db_view self' = overlay (db_view self) batch"
proof -
  from assms(1) obtain db where db: "rdb_db self = Some db" "kv_wf (tdb_entries db)"
    "tdb_read_error db = (\<lambda>_. None)" "tdb_write_error db = (\<lambda>_. None)" "tdb_commit_error db = None"
    by (rule db_healthyE)
  let ?es = "fold kv_store.kv_write batch (tdb_entries db)"
  let ?self = "self\<lparr>rdb_db := Some (db\<lparr>tdb_entries := ?es\<rparr>)\<rparr>"
  have "rocksdb_commit self batch = (?self, Ok ())"
    using db by (simp add: rocksdb_commit_def commit_loop_healthy)
  moreover have "db_healthy ?self"
    using db by (simp add: db_healthy_def kv_store.wf_writes)
  moreover have "db_view ?self = overlay (db_view self) batch"
    using db assms(2)
    by (simp add: db_view_def db_entries_def overlay_def kv_store.get_writes fun_eq_iff)
  ultimately show ?thesis by blast
qed

text \<open>A failed commit leaves the database as it was.\<close>

lemma rocksdb_commit_atomic:
  "rocksdb_commit self batch = (self', Err e) \<Longrightarrow> self' = self"
  by (auto simp: rocksdb_commit_def split: option.splits result.splits)

section \<open>Iteration\<close>

text \<open>
  With a page token the iteration runs from the token's successor up to, and excluding, the token
  itself: for a token that is not all 255 the range is empty.
\<close>

lemma page_token_range_empty:
  assumes "db_healthy self" "page_token opts = Some token" "\<exists>b \<in> set token. b \<noteq> 255"
  shows "for_each_iterator_by_prefix_paged self start stop opts f s = (s, Ok True)"
proof -
  from assms(1) obtain db where db: "rdb_db self = Some db" "kv_wf (tdb_entries db)"
    by (rule db_healthyE)
  have "kv_range (increment_vec_u8 token) token (tdb_entries db) = []"
    using db(2) increment_next(1) [OF assms(3)] by (intro kv_store.range_empty) auto
  then show ?thesis
    using db assms(2)
    by (simp add: for_each_iterator_by_prefix_paged_def get_iterator_options_def)
qed

lemma for_each_healthy:
  assumes "db_healthy self" "page_token opts = None"
  shows "for_each_iterator_by_prefix_paged self (Some lo) stop opts f s =
     (let r = kv_range lo (case stop of None \<Rightarrow> replicate 32 255 | Some hi \<Rightarrow> hi) (db_entries self)
      in iterate_loop f (page_size opts) 0 (if page_reverse opts then rev r else r) s)"
  using assms
  by (auto simp: for_each_iterator_by_prefix_paged_def get_iterator_options_def db_entries_def
      elim!: db_healthyE)

section \<open>Clearing\<close>

lemma hm_get_fold_delete:
  "hm_get (fold (\<lambda>k t. txn_delete t k) ks t) k = (if k \<in> set ks then Some None else hm_get t k)"
  by (induction ks arbitrary: t) (auto simp: txn_delete_def hm_get_insert)

lemma hm_wf_fold_delete: "hm_wf t \<Longrightarrow> hm_wf (fold (\<lambda>k t. txn_delete t k) ks t)"
  by (induction ks arbitrary: t) simp_all

lemma map_of_None_Nil: "map_of m = Map.empty \<Longrightarrow> m = []"
  by (cases m) (auto simp: fun_eq_iff split: if_splits)

lemma clear_round_healthy:
  assumes "db_healthy self"
  shows "\<exists>self'. clear_round self = ((self', Ok ()), length (db_entries self)) \<and>
    db_healthy self' \<and> db_entries self' = []"
proof -
  from assms obtain db where db: "rdb_db self = Some db" "tdb_read_error db = (\<lambda>_. None)"
    by (rule db_healthyE)
  let ?t = "fold (\<lambda>k t. txn_delete t k) (map fst (tdb_entries db)) txn_new"
  have "hm_wf ?t" by (intro hm_wf_fold_delete) simp
  from rocksdb_commit_healthy [OF assms this] obtain self' where
    self': "rocksdb_commit self ?t = (self', Ok ())" "db_healthy self'"
    "db_view self' = overlay (db_view self) ?t" by blast
  have "overlay (db_view self) ?t k = None" for k
    using db by (auto simp: overlay_def hm_get_fold_delete db_view_def db_entries_def txn_new_def
        map_of_eq_None_iff split: option.splits)
  then have "map_of (db_entries self') = Map.empty"
    using self'(3) by (simp add: db_view_def fun_eq_iff)
  then have "db_entries self' = []" by (rule map_of_None_Nil)
  moreover have "clear_round self = ((self', Ok ()), length (db_entries self))"
    using db self'(1) by (simp add: clear_round_def db_entries_def)
  ultimately show ?thesis using self'(2) by blast
qed

lemma rocksdb_clear_empties:
  assumes "db_healthy self"
  shows "\<exists>self'. rocksdb_clear self = (self', Some (Ok 0)) \<and> db_healthy self' \<and> db_entries self' = []"
proof -
  from clear_round_healthy [OF assms] obtain s1 where s1:
    "clear_round self = ((s1, Ok ()), length (db_entries self))" "db_healthy s1" "db_entries s1 = []"
    by blast
  from clear_round_healthy [OF s1(2)] s1(3) obtain s2 where s2:
    "clear_round s1 = ((s2, Ok ()), 0)" "db_healthy s2" "db_entries s2 = []" by auto
  show ?thesis
    using s1 s2 by (cases "db_entries self") (auto simp: rocksdb_clear_def numeral_2_eq_2)
qed

end
