(* ===== verification/Hub_Error.thy ===== *)
theory Hub_Error
  imports Rocks_Db
begin

text \<open>
  The error values of \<open>src/storage/hub_error.rs\<close>: a code and a message, the named constructors
  and the conversions from the database errors.  Where the source formats run-time data into a
  message, the model keeps the fixed part of the text.
\<close>

record hub_error =
  he_code :: string
  he_message :: string

definition hub_err :: "string \<Rightarrow> string \<Rightarrow> hub_error" where
  "hub_err c m = \<lparr>he_code = c, he_message = m\<rparr>"

definition validation_failure :: "string \<Rightarrow> hub_error" where
  "validation_failure error_message = hub_err ''bad_request.validation_failure'' error_message"

definition invalid_parameter :: "string \<Rightarrow> hub_error" where
  "invalid_parameter error_message = hub_err ''bad_request.invalid_param'' error_message"

definition internal_db_error :: "string \<Rightarrow> hub_error" where
  "internal_db_error error_message = hub_err ''db.internal_error'' error_message"

definition not_found :: "string \<Rightarrow> hub_error" where
  "not_found error_message = hub_err ''not_found'' error_message"

text \<open>\<open>Display\<close>: the code and the message joined by a slash.\<close>

definition hub_error_to_string :: "hub_error \<Rightarrow> string" where
  "hub_error_to_string e = he_code e @ ''/'' @ he_message e"

fun rocksdb_error_to_string :: "rocksdb_error \<Rightarrow> string" where
  "rocksdb_error_to_string (InternalError e) = e"
| "rocksdb_error_to_string (DecodeError e) = e"
| "rocksdb_error_to_string DbNotOpen = ''DB is not open''"

definition hub_error_from_rocksdb :: "rocksdb_error \<Rightarrow> hub_error" where
  "hub_error_from_rocksdb e = hub_err ''db.internal_error'' (rocksdb_error_to_string e)"

lemma he_simps [simp]:
  "he_code (hub_err c m) = c"
  "he_message (hub_err c m) = m"
  by (simp_all add: hub_err_def)

end
