(* ===== verification/Proto_Types.thy ===== *)
theory Proto_Types
  imports Byte_Keys
begin

text \<open>
  The protobuf messages of \<open>src/proto/*.proto\<close>, as the code generated by \<open>prost\<close> presents them:
  a message field is an \<open>Option\<close>, a repeated field a list, a oneof a datatype in an \<open>Option\<close>, and an
  enum an \<open>i32\<close>.  The generated codecs are parameters of the theories that encode or decode.
\<close>

type_synonym i32 = "32 word"
type_synonym i64 = "64 word"

section \<open>message.proto and username\_proof.proto\<close>

record cast_id =
  ci_fid :: u64
  ci_hash :: bytes

datatype embed = EmbedUrl string | EmbedCastId cast_id

datatype cast_parent = ParentCastId cast_id | ParentUrl string

record cast_add_body =
  ca_embeds_deprecated :: "string list"
  ca_mentions :: "u64 list"
  ca_parent :: "cast_parent option"
  ca_text :: string
  ca_mentions_positions :: "u32 list"
  ca_embeds :: "embed option list"
  ca_type :: i32

record cast_remove_body =
  cr_target_hash :: bytes

datatype reaction_target = TargetCastId cast_id | TargetUrl string

record reaction_body =
  re_type :: i32
  re_target :: "reaction_target option"

record verification_add_address_body =
  va_address :: bytes
  va_claim_signature :: bytes
  va_block_hash :: bytes
  va_verification_type :: u32
  va_chain_id :: u32
  va_protocol :: i32

record verification_remove_body =
  vr_address :: bytes
  vr_protocol :: i32

record user_data_body =
  ud_type :: i32
  ud_value :: string

datatype link_target = TargetFid u64

record link_body =
  li_type :: string
  li_display_timestamp :: "u32 option"
  li_target :: "link_target option"

record link_compact_state_body =
  lc_type :: string
  lc_target_fids :: "u64 list"

record frame_action_body =
  fa_url :: bytes
  fa_button_index :: u32
  fa_cast_id :: "cast_id option"
  fa_input_text :: bytes
  fa_state :: bytes
  fa_transaction_id :: bytes
  fa_address :: bytes

record user_name_proof =
  unp_timestamp :: u64
  unp_name :: bytes
  unp_owner :: bytes
  unp_signature :: bytes
  unp_fid :: u64
  unp_type :: i32

datatype message_body =
    CastAddBody cast_add_body
  | CastRemoveBody cast_remove_body
  | ReactionBody reaction_body
  | VerificationAddAddressBody verification_add_address_body
  | VerificationRemoveBody verification_remove_body
  | UserDataBody user_data_body
  | LinkBody link_body
  | UsernameProofBody user_name_proof
  | FrameActionBody frame_action_body
  | LinkCompactStateBody link_compact_state_body

record message_data =
  md_type :: i32
  md_fid :: u64
  md_timestamp :: u32
  md_network :: i32
  md_body :: "message_body option"

record message =
  msg_data :: "message_data option"
  msg_hash :: bytes
  msg_hash_scheme :: i32
  msg_signature :: bytes
  msg_signature_scheme :: i32
  msg_signer :: bytes
  msg_data_bytes :: "bytes option"

section \<open>blocks.proto\<close>

record proto_validator =
  pv_fid :: u64
  pv_signer :: bytes
  pv_rpc_address :: string
  pv_shard_index :: u32
  pv_current_height :: u64

record height =
  shard_index :: u32
  block_number :: u64

record shard_hash =
  sh_shard_index :: u32
  sh_hash :: bytes

record proto_vote =
  pvo_type :: i32
  pvo_height :: "height option"
  pvo_round :: i64
  pvo_value :: "shard_hash option"
  pvo_voter :: bytes

record confirmed_votes =
  cv_votes :: "proto_vote list"
  cv_signatures :: "bytes list"

record proto_proposal =
  pp_height :: "height option"
  pp_round :: i64
  pp_pol_round :: i64
  pp_proposer :: bytes
  pp_value :: "shard_hash option"

record block_header =
  bh_height :: "height option"
  bh_timestamp :: u64
  bh_version :: u32
  bh_chain_id :: u32
  bh_validators_hash :: bytes
  bh_shard_headers_hash :: bytes
  bh_parent_hash :: bytes

record shard_header =
  sh_height :: "height option"
  sh_timestamp :: u64
  sh_parent_hash :: bytes
  sh_shard_root :: bytes

text \<open>\<open>OnChainEvent\<close> and \<open>FnameTransfer\<close> have no fields.\<close>

record validator_message =
  vm_on_chain_event :: "unit option"
  vm_fname_transfer :: "unit option"

record transaction =
  tx_fid :: u64
  tx_user_messages :: "message list"
  tx_system_messages :: "validator_message list"
  tx_account_root :: bytes

record shard_chunk =
  sc_header :: "shard_header option"
  sc_hash :: bytes
  sc_transactions :: "transaction list"
  sc_votes :: "confirmed_votes option"

record block =
  b_header :: "block_header option"
  b_hash :: bytes
  b_shard_chunks :: "shard_chunk list"
  b_validators :: "proto_validator list option"
  b_votes :: "confirmed_votes option"

datatype proposed_value = Block block | Shard shard_chunk

record full_proposal =
  fp_height :: "height option"
  fp_round :: i64
  fp_proposer :: bytes
  fp_proposed_value :: "proposed_value option"

datatype consensus_message_body = CmVote proto_vote | CmProposal proto_proposal

record consensus_message =
  cm_message :: "consensus_message_body option"
  cm_signature :: bytes

record register_validator =
  rv_validator :: "proto_validator option"
  rv_nonce :: u64

datatype gossip_message_body =
    GmConsensus consensus_message
  | GmValidator register_validator
  | GmFullProposal full_proposal

record gossip_message =
  gm_message :: "gossip_message_body option"

section \<open>rpc.proto\<close>

record blocks_request =
  br_shard_id :: u32
  br_start_block_number :: u64
  br_stop_block_number :: "u64 option"

end
