(* ===== verification/Account_Message.thy ===== *)
theory Account_Message
  imports Hub_Error Proto_Types
begin

text \<open>
  The message layer of the account stores: \<open>storage/store/account/message.rs\<close> (message types,
  timestamp hashes, keys, encoding, reading and writing of single messages and pages) and the
  parts of \<open>storage/store/account/utils.rs\<close> that do not talk to JavaScript.

  The module is written against the \<open>RocksDB\<close> of another repository.  Its point reads and batches
  are those of \<open>Rocks_Db\<close>; its iteration by prefix is a parameter, the items visited in order, and
  so are the protobuf codecs.
\<close>

section \<open>The environment\<close>

text \<open>The events the stores build, with the fields the source gives them.\<close>

datatype hub_event_type = MergeMessage | PruneMessage | RevokeMessage | MergeUsernameProof

record merge_username_proof_body =
  mup_username_proof :: "user_name_proof option"
  mup_deleted_username_proof :: "user_name_proof option"
  mup_username_proof_message :: "message option"
  mup_deleted_username_proof_message :: "message option"

datatype hub_event_body =
    RevokeMessageBody "message option"
  | MergeMessageBody "message option" "message list"
  | PruneMessageBody "message option"
  | MergeUsernameProofBody merge_username_proof_body

record hub_event =
  ev_type :: hub_event_type
  ev_body :: "hub_event_body option"
  ev_id :: u64

record account_env =
  ae_encode :: "message \<Rightarrow> bytes"
  ae_decode :: "bytes \<Rightarrow> message option"
  ae_decode_data :: "bytes \<Rightarrow> message_data option"
  ae_proof_encode :: "user_name_proof \<Rightarrow> bytes"
  ae_proof_decode :: "bytes \<Rightarrow> user_name_proof option"
  ae_event_encode :: "hub_event \<Rightarrow> bytes"
  ae_items :: "rocksdb \<Rightarrow> bytes \<Rightarrow> page_options \<Rightarrow> kv"

definition db_get :: "rocksdb \<Rightarrow> bytes \<Rightarrow> (hub_error, bytes option) result" where
  "db_get db key = map_err hub_error_from_rocksdb (rocksdb_get db key)"

definition db_commit :: "rocksdb \<Rightarrow> txn_batch \<Rightarrow> rocksdb \<times> (hub_error, unit) result" where
  "db_commit db txn = (case rocksdb_commit db txn of (db', r) \<Rightarrow> (db', map_err hub_error_from_rocksdb r))"

text \<open>\<open>for_each_iterator_by_prefix\<close>: the callback returns true to stop.\<close>

fun prefix_loop ::
  "('s \<Rightarrow> bytes \<Rightarrow> bytes \<Rightarrow> 's \<times> (hub_error, bool) result) \<Rightarrow> kv \<Rightarrow> 's \<Rightarrow> 's \<times> (hub_error, bool) result" where
  "prefix_loop f [] s = (s, Ok True)"
| "prefix_loop f ((key, value) # items) s =
     (case f s key value of
        (s', Ok stop) \<Rightarrow> if stop then (s', Ok False) else prefix_loop f items s'
      | (s', Err e) \<Rightarrow> (s', Err e)
      | (s', Panic m) \<Rightarrow> (s', Panic m))"

definition default_page :: page_options where
  "default_page = \<lparr>page_size = None, page_token = None, page_reverse = False\<rparr>"

definition ACCOUNT_PAGE_SIZE_MAX :: nat where
  "ACCOUNT_PAGE_SIZE_MAX = 10000"

text \<open>\<open>String::as_bytes\<close>.\<close>

definition as_bytes :: "string \<Rightarrow> bytes" where
  "as_bytes s = map of_char s"

section \<open>Types and postfixes\<close>

definition FID_BYTES :: nat where "FID_BYTES = 4"
definition TS_HASH_LENGTH :: nat where "TS_HASH_LENGTH = 24"
definition HASH_LENGTH :: nat where "HASH_LENGTH = 20"
definition TRUE_VALUE :: u8 where "TRUE_VALUE = 1"

datatype user_postfix =
    CastMessage | LinkMessage | ReactionMessage | VerificationMessage | UserDataMessage | UsernameProofMessage
  | CastAdds | CastRemoves | LinkAdds | LinkRemoves | ReactionAdds | ReactionRemoves
  | VerificationAdds | VerificationRemoves | UserDataAdds | UserNameProofAdds | LinkCompactStateMessage

fun user_postfix_u8 :: "user_postfix \<Rightarrow> u8" where
  "user_postfix_u8 CastMessage = 1"
| "user_postfix_u8 LinkMessage = 2"
| "user_postfix_u8 ReactionMessage = 3"
| "user_postfix_u8 VerificationMessage = 4"
| "user_postfix_u8 UserDataMessage = 6"
| "user_postfix_u8 UsernameProofMessage = 7"
| "user_postfix_u8 CastAdds = 87"
| "user_postfix_u8 CastRemoves = 88"
| "user_postfix_u8 LinkAdds = 89"
| "user_postfix_u8 LinkRemoves = 90"
| "user_postfix_u8 ReactionAdds = 91"
| "user_postfix_u8 ReactionRemoves = 92"
| "user_postfix_u8 VerificationAdds = 93"
| "user_postfix_u8 VerificationRemoves = 94"
| "user_postfix_u8 UserDataAdds = 97"
| "user_postfix_u8 UserNameProofAdds = 99"
| "user_postfix_u8 LinkCompactStateMessage = 100"

text \<open>\<open>MessageType\<close> and \<open>SignatureScheme\<close> of \<open>message.proto\<close>.\<close>

datatype message_type =
    MessageTypeNone | CastAdd | CastRemove | ReactionAdd | ReactionRemove | LinkAdd | LinkRemove
  | VerificationAddEthAddress | VerificationRemove | UserDataAdd | UsernameProof | FrameAction | LinkCompactState

fun message_type_i32 :: "message_type \<Rightarrow> i32" where
  "message_type_i32 MessageTypeNone = 0"
| "message_type_i32 CastAdd = 1"
| "message_type_i32 CastRemove = 2"
| "message_type_i32 ReactionAdd = 3"
| "message_type_i32 ReactionRemove = 4"
| "message_type_i32 LinkAdd = 5"
| "message_type_i32 LinkRemove = 6"
| "message_type_i32 VerificationAddEthAddress = 7"
| "message_type_i32 VerificationRemove = 8"
| "message_type_i32 UserDataAdd = 11"
| "message_type_i32 UsernameProof = 12"
| "message_type_i32 FrameAction = 13"
| "message_type_i32 LinkCompactState = 14"

definition message_type_u8 :: "message_type \<Rightarrow> u8" where
  "message_type_u8 t = ucast (message_type_i32 t)"

definition message_type_try_from :: "i32 \<Rightarrow> message_type option" where
  "message_type_try_from i = find (\<lambda>t. message_type_i32 t = i)
     [MessageTypeNone, CastAdd, CastRemove, ReactionAdd, ReactionRemove, LinkAdd, LinkRemove,
      VerificationAddEthAddress, VerificationRemove, UserDataAdd, UsernameProof, FrameAction, LinkCompactState]"

definition Ed25519 :: i32 where
  "Ed25519 = 1"

definition type_to_set_postfix :: "message_type \<Rightarrow> ('e, user_postfix) result" where
  "type_to_set_postfix t =
     (if t = CastAdd \<or> t = CastRemove then Ok CastMessage
      else if t = ReactionAdd \<or> t = ReactionRemove then Ok ReactionMessage
      else if t = VerificationAddEthAddress \<or> t = VerificationRemove then Ok VerificationMessage
      else if t = UserDataAdd then Ok UserDataMessage
      else if t = LinkAdd \<or> t = LinkRemove then Ok LinkMessage
      else if t = UsernameProof then Ok UsernameProofMessage
      else Panic ''invalid type'')"

section \<open>Keys\<close>

definition make_ts_hash :: "u32 \<Rightarrow> bytes \<Rightarrow> (hub_error, bytes) result" where
  "make_ts_hash timestamp hash =
     (if length hash \<noteq> HASH_LENGTH then Err (hub_err ''internal_error'' ''hash length is not 20'')
      else Ok (u32_to_be_bytes timestamp @ hash))"

definition unpack_ts_hash :: "bytes \<Rightarrow> u32 \<times> bytes" where
  "unpack_ts_hash ts_hash = (u32_from_be_bytes (take 4 ts_hash), take HASH_LENGTH (drop 4 ts_hash))"

definition vec_to_u8_24 :: "bytes option \<Rightarrow> (hub_error, bytes) result" where
  "vec_to_u8_24 v =
     (case v of
        Some b \<Rightarrow>
          if length b = 24 then Ok b
          else Err (hub_err ''bad_request.internal_error'' ''message_ts_hash is not 24 bytes'')
      | None \<Rightarrow> Err (hub_err ''bad_request.internal_error'' ''message_ts_hash is not 24 bytes: None''))"

definition make_fid_key :: "u32 \<Rightarrow> bytes" where
  "make_fid_key fid = u32_to_be_bytes fid"

definition read_fid_key :: "bytes \<Rightarrow> ('e, u32) result" where
  "read_fid_key key =
     (if length key < 4 then Panic ''range end index 4 out of range for slice''
      else Ok (u32_from_be_bytes (take 4 key)))"

definition make_user_key :: "u32 \<Rightarrow> bytes" where
  "make_user_key fid = root_prefix_u8 User # make_fid_key fid"

definition make_message_primary_key :: "u32 \<Rightarrow> u8 \<Rightarrow> bytes option \<Rightarrow> bytes" where
  "make_message_primary_key fid pf ts_hash =
     make_user_key fid @ [pf] @ (case ts_hash of None \<Rightarrow> [] | Some h \<Rightarrow> h)"

definition make_cast_id_key :: "cast_id \<Rightarrow> bytes" where
  "make_cast_id_key c = make_fid_key (ucast (ci_fid c)) @ ci_hash c"

section \<open>Messages in the database\<close>

definition message_encode :: "account_env \<Rightarrow> message \<Rightarrow> bytes" where
  "message_encode A m =
     (case msg_data_bytes m of
        Some b \<Rightarrow> if length b > 0 then ae_encode A (m\<lparr>msg_data := None\<rparr>) else ae_encode A m
      | None \<Rightarrow> ae_encode A m)"

definition message_decode :: "account_env \<Rightarrow> bytes \<Rightarrow> (hub_error, message) result" where
  "message_decode A bytes =
     (case ae_decode A bytes of
        None \<Rightarrow> Err (hub_err ''db.internal_error'' ''could not decode message'')
      | Some m \<Rightarrow>
          (case (msg_data m, msg_data_bytes m) of
             (None, Some b) \<Rightarrow>
               if length b > 0
               then (case ae_decode_data A b of Some d \<Rightarrow> Ok (m\<lparr>msg_data := Some d\<rparr>) | None \<Rightarrow> Ok m)
               else Ok m
           | _ \<Rightarrow> Ok m))"

definition get_message :: "account_env \<Rightarrow> rocksdb \<Rightarrow> u32 \<Rightarrow> u8 \<Rightarrow> bytes \<Rightarrow> (hub_error, message option) result" where
  "get_message A db fid pf ts_hash =
     bind_result (db_get db (make_message_primary_key fid pf (Some ts_hash))) (\<lambda>v.
       (case v of
          Some b \<Rightarrow>
            (case message_decode A b of
               Ok m \<Rightarrow> Ok (Some m)
             | Err _ \<Rightarrow> Err (hub_err ''db.internal_error'' ''could not decode message'')
             | Panic s \<Rightarrow> Panic s)
        | None \<Rightarrow> Ok None))"

fun get_many_messages_as_bytes :: "rocksdb \<Rightarrow> bytes list \<Rightarrow> (hub_error, bytes list) result" where
  "get_many_messages_as_bytes db [] = Ok []"
| "get_many_messages_as_bytes db (key # keys) =
     (case db_get db key of
        Ok (Some v) \<Rightarrow> bind_result (get_many_messages_as_bytes db keys) (\<lambda>vs. Ok (v # vs))
      | Panic m \<Rightarrow> Panic m
      | _ \<Rightarrow> Err (not_found ''could not get message with key''))"

record messages_page =
  mp_messages_bytes :: "bytes list"
  mp_next_page_token :: "bytes option"

definition account_page_limit :: "page_options \<Rightarrow> nat" where
  "account_page_limit opts = (case page_size opts of None \<Rightarrow> ACCOUNT_PAGE_SIZE_MAX | Some n \<Rightarrow> n)"

text \<open>The filter is a closure that may panic.\<close>

definition messages_step ::
  "account_env \<Rightarrow> nat \<Rightarrow> (message \<Rightarrow> (hub_error, bool) result) \<Rightarrow> bytes list \<times> bytes \<Rightarrow> bytes \<Rightarrow> bytes \<Rightarrow>
     (bytes list \<times> bytes) \<times> (hub_error, bool) result" where
  "messages_step A limit filt s key value =
     (case s of (messages, last_key) \<Rightarrow>
        (case message_decode A value of
           Ok m \<Rightarrow>
             (case filt m of
                Ok True \<Rightarrow>
                  (let messages' = messages @ [value] in
                   if length messages' \<ge> limit then ((messages', key), Ok True)
                   else ((messages', last_key), Ok False))
              | Ok False \<Rightarrow> (s, Ok False)
              | Err e \<Rightarrow> (s, Err e)
              | Panic p \<Rightarrow> (s, Panic p))
         | Err e \<Rightarrow> (s, Err (hub_err ''db.internal_error'' ''could not decode message: ''))
         | Panic p \<Rightarrow> (s, Panic p)))"

definition page_after :: "bytes \<Rightarrow> bytes \<Rightarrow> bytes option" where
  "page_after pfx last_key = (if length last_key > 0 then Some (drop (length pfx) last_key) else None)"

definition get_messages_page_by_prefix ::
  "account_env \<Rightarrow> rocksdb \<Rightarrow> bytes \<Rightarrow> page_options \<Rightarrow> (message \<Rightarrow> (hub_error, bool) result) \<Rightarrow>
     (hub_error, messages_page) result" where
  "get_messages_page_by_prefix A db pfx opts filt =
     (case prefix_loop (messages_step A (account_page_limit opts) filt) (ae_items A db pfx opts) ([], []) of
        ((messages, last_key), r) \<Rightarrow>
          bind_result r (\<lambda>_.
            Ok \<lparr>mp_messages_bytes = messages, mp_next_page_token = page_after pfx last_key\<rparr>))"

definition message_data_of :: "message \<Rightarrow> ('e, message_data) result" where
  "message_data_of m = (case msg_data m of None \<Rightarrow> Panic unwrap_none | Some d \<Rightarrow> Ok d)"

text \<open>The key under which \<open>put_message_transaction\<close> and \<open>delete_message_transaction\<close> work.\<close>

definition message_primary_key :: "message \<Rightarrow> (hub_error, bytes) result" where
  "message_primary_key m =
     bind_result (message_data_of m) (\<lambda>d.
       bind_result (make_ts_hash (md_timestamp d) (msg_hash m)) (\<lambda>ts_hash.
         (case message_type_try_from (md_type d) of
            None \<Rightarrow> Panic unwrap_err
          | Some t \<Rightarrow>
              bind_result (type_to_set_postfix t) (\<lambda>p.
                Ok (make_message_primary_key (ucast (md_fid d)) (user_postfix_u8 p) (Some ts_hash))))))"

text \<open>A batch whose construction fails is dropped with the error, so only the batch of a success is returned.\<close>

definition put_message_transaction :: "account_env \<Rightarrow> txn_batch \<Rightarrow> message \<Rightarrow> (hub_error, txn_batch) result" where
  "put_message_transaction A txn m =
     bind_result (message_primary_key m) (\<lambda>key. Ok (txn_put txn key (message_encode A m)))"

definition delete_message_transaction :: "txn_batch \<Rightarrow> message \<Rightarrow> (hub_error, txn_batch) result" where
  "delete_message_transaction txn m = bind_result (message_primary_key m) (\<lambda>key. Ok (txn_delete txn key))"

definition is_message_in_time_range :: "u32 option \<Rightarrow> u32 option \<Rightarrow> message \<Rightarrow> bool" where
  "is_message_in_time_range start stop m =
     (let start_time = (case start of None \<Rightarrow> 0 | Some t \<Rightarrow> t);
          stop_time = (case stop of None \<Rightarrow> - 1 | Some t \<Rightarrow> t)
      in case msg_data m of
           None \<Rightarrow> False
         | Some d \<Rightarrow> md_timestamp d \<ge> start_time \<and> md_timestamp d \<le> stop_time)"

section \<open>Farcaster time\<close>

definition FARCASTER_EPOCH_MS :: u64 where
  "FARCASTER_EPOCH_MS = 1609459200000"

definition to_farcaster_time :: "u64 \<Rightarrow> (hub_error, u64) result" where
  "to_farcaster_time time_ms =
     (if time_ms < FARCASTER_EPOCH_MS
      then Err (hub_err ''bad_request.invalid_param'' ''time_ms is before the farcaster epoch'')
      else
        (let seconds_since_epoch = (time_ms - FARCASTER_EPOCH_MS) div 1000 in
         if seconds_since_epoch > 4294967295
         then Err (hub_err ''bad_request.invalid_param'' ''time too far in future'')
         else Ok seconds_since_epoch))"

definition from_farcaster_time :: "u64 \<Rightarrow> ('e, u64) result" where
  "from_farcaster_time time =
     (if unat time * 1000 \<ge> 2 ^ 64 then Panic ''attempt to multiply with overflow''
      else if unat time * 1000 + unat FARCASTER_EPOCH_MS \<ge> 2 ^ 64 then Panic add_overflow
      else Ok (time * 1000 + FARCASTER_EPOCH_MS))"

text \<open>The system clock is an argument.\<close>

definition get_farcaster_time :: "(string, u64) result \<Rightarrow> (hub_error, u64) result" where
  "get_farcaster_time now =
     bind_result (map_err (\<lambda>e. hub_err ''internal_error'' (''failed to get time: '' @ e)) now) to_farcaster_time"

section \<open>Facts\<close>

lemma make_ts_hash_Ok [simp]:
  "make_ts_hash t h = Ok b \<longleftrightarrow> length h = 20 \<and> b = u32_to_be_bytes t @ h"
  by (auto simp: make_ts_hash_def HASH_LENGTH_def)

lemma unpack_make_ts_hash: "make_ts_hash t h = Ok b \<Longrightarrow> unpack_ts_hash b = (t, h)"
  by (simp add: unpack_ts_hash_def HASH_LENGTH_def)

lemma vec_to_u8_24_Some [simp]: "length b = 24 \<Longrightarrow> vec_to_u8_24 (Some b) = Ok b"
  by (simp add: vec_to_u8_24_def)

lemma message_type_try_from_i32 [simp]: "message_type_try_from (message_type_i32 t) = Some t"
  by (cases t) (simp_all add: message_type_try_from_def)

lemma user_postfix_u8_inject [simp]: "user_postfix_u8 p = user_postfix_u8 q \<longleftrightarrow> p = q"
  by (cases p; cases q) simp_all

lemma root_prefix_u8_inject [simp]: "root_prefix_u8 p = root_prefix_u8 q \<longleftrightarrow> p = q"
  by (cases p; cases q) simp_all

text \<open>The codecs decode what they encoded, for one message.\<close>

definition message_codec_ok :: "account_env \<Rightarrow> message \<Rightarrow> bool" where
  "message_codec_ok A m \<longleftrightarrow> ae_decode A (ae_encode A m) = Some m \<and>
     ae_decode A (ae_encode A (m\<lparr>msg_data := None\<rparr>)) = Some (m\<lparr>msg_data := None\<rparr>) \<and>
     (\<forall>b. msg_data_bytes m = Some b \<longrightarrow> length b > 0 \<longrightarrow> msg_data m \<noteq> None \<and> ae_decode_data A b = msg_data m)"

lemma message_roundtrip:
  assumes "message_codec_ok A m"
  shows "message_decode A (message_encode A m) = Ok m"
proof (cases "\<exists>b. msg_data_bytes m = Some b \<and> length b > 0")
  case True
  then obtain b where b: "msg_data_bytes m = Some b" "length b > 0" by blast
  with assms obtain d where "msg_data m = Some d" "ae_decode_data A b = Some d"
    by (auto simp: message_codec_ok_def)
  with assms b show ?thesis by (simp add: message_codec_ok_def message_encode_def message_decode_def)
next
  case False
  with assms show ?thesis
    by (auto simp: message_codec_ok_def message_encode_def message_decode_def split: option.splits)
qed

lemma db_get_healthy [simp]: "db_healthy db \<Longrightarrow> db_get db k = Ok (db_view db k)"
  by (simp add: db_get_def)

lemma db_commit_healthy:
  assumes "db_healthy db" "hm_wf txn"
  shows "\<exists>db'. db_commit db txn = (db', Ok ()) \<and> db_healthy db' \<and> db_view db' = overlay (db_view db) txn"
  using rocksdb_commit_healthy [OF assms] by (auto simp: db_commit_def)

lemma db_commit_atomic: "db_commit db txn = (db', Err e) \<Longrightarrow> db' = db"
  by (auto simp: db_commit_def map_err_def split: prod.splits result.splits dest: rocksdb_commit_atomic)

lemma get_message_healthy:
  assumes "db_healthy db" "db_view db (make_message_primary_key fid pf (Some ts)) = Some (message_encode A m)"
    "message_codec_ok A m"
  shows "get_message A db fid pf ts = Ok (Some m)"
  using assms by (simp add: get_message_def message_roundtrip)

text \<open>Times of a \<open>u32\<close> number of seconds survive the round trip.\<close>

lemma farcaster_time_roundtrip:
  assumes "t \<le> 4294967295"
  shows "\<exists>ms. from_farcaster_time t = (Ok ms :: (hub_error, u64) result) \<and> to_farcaster_time ms = Ok t"
proof -
  have t: "unat t \<le> 4294967295" using assms by (simp add: word_le_nat_alt)
  define ms where "ms = t * 1000 + FARCASTER_EPOCH_MS"
  have m: "unat (t * 1000) = unat t * 1000" using t by (simp add: unat_mult_lem [THEN iffD1])
  then have u: "unat ms = unat t * 1000 + 1609459200000"
    using t by (simp add: ms_def FARCASTER_EPOCH_MS_def unat_add_lem [THEN iffD1])
  have "from_farcaster_time t = (Ok ms :: (hub_error, u64) result)"
    using t by (simp add: from_farcaster_time_def ms_def FARCASTER_EPOCH_MS_def)
  moreover have "FARCASTER_EPOCH_MS \<le> ms" using u by (simp add: word_le_nat_alt FARCASTER_EPOCH_MS_def)
  moreover have "(ms - FARCASTER_EPOCH_MS) div 1000 = t"
  proof -
    have "ms - FARCASTER_EPOCH_MS = t * 1000" by (simp add: ms_def)
    then show ?thesis using m by (simp add: word_unat_eq_iff unat_div)
  qed
  ultimately show ?thesis using assms by (auto simp: to_farcaster_time_def Let_def)
qed

end
