(* ===== verification/Event_Handler.thy ===== *)
theory Event_Handler
  imports Account_Message
begin

text \<open>
  \<open>storage/store/account/store_event_handler.rs\<close>: the generator of event ids, a millisecond clock
  with a sequence number, and the handler that stamps an event and adds it to the batch.
\<close>

unbundle bit_operations_syntax

section \<open>Definitions\<close>

definition TIMESTAMP_BITS :: nat where "TIMESTAMP_BITS = 41"
definition SEQUENCE_BITS :: nat where "SEQUENCE_BITS = 12"

definition make_event_id :: "u64 \<Rightarrow> u64 \<Rightarrow> u64" where
  "make_event_id timestamp seq =
     (let shifted_timestamp = push_bit SEQUENCE_BITS timestamp;
          padded_seq = seq AND (push_bit SEQUENCE_BITS 1 - 1)
      in shifted_timestamp OR padded_seq)"

record hub_event_id_generator =
  gen_last_timestamp :: u64
  gen_last_seq :: u64
  gen_epoch :: u64

definition generator_new :: "u64 option \<Rightarrow> u64 option \<Rightarrow> u64 option \<Rightarrow> hub_event_id_generator" where
  "generator_new ep last_timestamp last_seq =
     \<lparr>gen_last_timestamp = (case last_timestamp of None \<Rightarrow> 0 | Some t \<Rightarrow> t),
      gen_last_seq = (case last_seq of None \<Rightarrow> 0 | Some n \<Rightarrow> n),
      gen_epoch = (case ep of None \<Rightarrow> 0 | Some e \<Rightarrow> e)\<rparr>"

text \<open>\<open>now\<close> is the system clock, read when no timestamp is given.\<close>

definition generate_id ::
  "u64 \<Rightarrow> u64 option \<Rightarrow> hub_event_id_generator \<Rightarrow> hub_event_id_generator \<times> (hub_error, u64) result" where
  "generate_id now current self =
     (let given = (case current of None \<Rightarrow> now | Some t \<Rightarrow> t) in
      if given < gen_epoch self then (self, Panic sub_overflow)
      else
        (let current_timestamp = given - gen_epoch self in
         if current_timestamp = gen_last_timestamp self \<and> gen_last_seq self = - 1 then (self, Panic add_overflow)
         else
           (let self1 =
              (if current_timestamp = gen_last_timestamp self
               then self\<lparr>gen_last_seq := gen_last_seq self + 1\<rparr>
               else self\<lparr>gen_last_timestamp := current_timestamp, gen_last_seq := 0\<rparr>)
            in if gen_last_timestamp self1 \<ge> 2 ^ TIMESTAMP_BITS
               then (self1, Err (hub_err ''bad_request.invalid_param'' ''timestamp > 41 bits''))
               else if gen_last_seq self1 \<ge> 2 ^ SEQUENCE_BITS
               then (self1, Err (hub_err ''bad_request.invalid_param'' ''sequence > 12 bits''))
               else (self1, Ok (make_event_id (gen_last_timestamp self1) (gen_last_seq self1))))))"

definition event_handler_new :: "u64 option \<Rightarrow> u64 option \<Rightarrow> u64 option \<Rightarrow> hub_event_id_generator" where
  "event_handler_new ep last_timestamp last_seq =
     generator_new (Some (case ep of None \<Rightarrow> FARCASTER_EPOCH_MS | Some e \<Rightarrow> e)) last_timestamp last_seq"

definition make_event_key :: "u64 \<Rightarrow> bytes" where
  "make_event_key event_id = root_prefix_u8 HubEvents # u64_to_be_bytes event_id"

definition put_event_transaction :: "account_env \<Rightarrow> txn_batch \<Rightarrow> hub_event \<Rightarrow> txn_batch" where
  "put_event_transaction A txn event = txn_put txn (make_event_key (ev_id event)) (ae_event_encode A event)"

text \<open>The lock makes a call one step; it returns the batch and the event it changed.\<close>

definition commit_transaction ::
  "account_env \<Rightarrow> u64 \<Rightarrow> hub_event_id_generator \<Rightarrow> txn_batch \<Rightarrow> hub_event \<Rightarrow>
     (hub_event_id_generator \<times> txn_batch \<times> hub_event) \<times> (hub_error, u64) result" where
  "commit_transaction A now gen txn raw_event =
     (case generate_id now None gen of
        (gen', Ok event_id) \<Rightarrow>
          (let event = raw_event\<lparr>ev_id := event_id\<rparr>
           in ((gen', put_event_transaction A txn event, event), Ok event_id))
      | (gen', Err e) \<Rightarrow> ((gen', txn, raw_event), Err e)
      | (gen', Panic p) \<Rightarrow> ((gen', txn, raw_event), Panic p))"

section \<open>Event ids\<close>

lemmas event_bits = TIMESTAMP_BITS_def SEQUENCE_BITS_def

lemma unat_event_id:
  assumes "t < 2199023255552" "s < 4096"
  shows "unat (make_event_id t s) = unat t * 4096 + unat s"
proof -
  have t: "unat t < 2 ^ 41" and s: "unat s < 4096"
    using assms by (simp_all add: word_less_nat_alt)
  have tb: "take_bit 12 s = s" using s by (simp add: word_unat_eq_iff unsigned_take_bit_eq take_bit_nat_eq_self)
  then have m: "s AND 4095 = s" by (simp add: take_bit_eq_mask mask_eq_exp_minus_1)
  have low: "bit s n \<Longrightarrow> n < 12" for n using tb by (metis bit_take_bit_iff)
  have d: "push_bit 12 t AND s = 0"
    by (rule bit_word_eqI) (auto simp: bit_and_iff bit_push_bit_iff dest: low)
  have "make_event_id t s = push_bit 12 t + s"
    using m d by (simp add: make_event_id_def SEQUENCE_BITS_def Let_def disjunctive_add_eq_or)
  moreover have "unat (push_bit 12 t) = unat t * 4096"
    using t by (simp add: push_bit_eq_mult unat_mult_lem [THEN iffD1])
  ultimately show ?thesis using t s by (simp add: unat_add_lem [THEN iffD1])
qed

lemma generate_id_Ok:
  assumes "generate_id now current g = (g', Ok i)"
  shows "unat i = unat (gen_last_timestamp g') * 4096 + unat (gen_last_seq g') \<and> gen_epoch g' = gen_epoch g \<and>
    gen_last_timestamp g' < 2199023255552 \<and> gen_last_seq g' < 4096 \<and>
    gen_last_timestamp g' = (case current of None \<Rightarrow> now | Some t \<Rightarrow> t) - gen_epoch g \<and>
    (gen_last_timestamp g' = gen_last_timestamp g \<longrightarrow> gen_last_seq g' = gen_last_seq g + 1 \<and> gen_last_seq g \<noteq> - 1)"
  using assms
  by (auto simp: generate_id_def Let_def event_bits unat_event_id not_le split: if_splits)

text \<open>An id fits the 53 bits of a JavaScript number.\<close>

lemma generate_id_bound: "generate_id now current g = (g', Ok i) \<Longrightarrow> i < 2 ^ 53"
  by (drule generate_id_Ok) (auto simp: word_less_nat_alt)

text \<open>The ids of the calls that succeed, over a list of clock readings.\<close>

fun generated_ids :: "u64 list \<Rightarrow> hub_event_id_generator \<Rightarrow> u64 list" where
  "generated_ids [] g = []"
| "generated_ids (now # nows) g =
     (case generate_id now None g of
        (g', Ok i) \<Rightarrow> i # generated_ids nows g'
      | (g', _) \<Rightarrow> generated_ids nows g')"

definition gen_before :: "hub_event_id_generator \<Rightarrow> nat \<Rightarrow> nat \<Rightarrow> bool" where
  "gen_before g t s \<longleftrightarrow> unat (gen_last_timestamp g) < t \<or> unat (gen_last_timestamp g) = t \<and> unat (gen_last_seq g) < s"

lemma gen_before_trans:
  "gen_before g (unat (gen_last_timestamp g')) (unat (gen_last_seq g')) \<Longrightarrow> gen_before g' t s \<Longrightarrow> gen_before g t s"
  by (auto simp: gen_before_def)

lemma generate_id_step:
  assumes "generate_id now None g = (g', r)" "gen_epoch g \<le> now" "gen_last_timestamp g \<le> now - gen_epoch g"
  shows "gen_epoch g' = gen_epoch g \<and> gen_last_timestamp g' \<le> now - gen_epoch g \<and>
    (g' = g \<and> (\<exists>p. r = Panic p) \<or> gen_before g (unat (gen_last_timestamp g')) (unat (gen_last_seq g')))"
proof (cases "now - gen_epoch g = gen_last_timestamp g")
  case True
  show ?thesis
  proof (cases "gen_last_seq g = - 1")
    case False
    then have "unat (gen_last_seq g + 1) = Suc (unat (gen_last_seq g))"
      by (metis add.commute add_0 diff_add_cancel neg_eq_iff_add_eq_0 unatSuc)
    with False True assms show ?thesis by (auto simp: generate_id_def Let_def gen_before_def not_less split: if_splits)
  next
    case seq: True
    from assms(2) have "\<not> now < gen_epoch g" by simp
    with seq True have "generate_id now None g = (g, Panic add_overflow)" by (simp add: generate_id_def Let_def)
    with assms(1,3) show ?thesis by auto
  qed
next
  case False
  then have "unat (gen_last_timestamp g) < unat (now - gen_epoch g)"
    using assms(3) by (simp add: word_le_nat_alt word_unat_eq_iff)
  with False assms show ?thesis by (auto simp: generate_id_def Let_def gen_before_def not_less split: if_splits)
qed

lemma generated_ids_after:
  assumes "sorted nows" "\<forall>now \<in> set nows. gen_epoch g \<le> now \<and> gen_last_timestamp g \<le> now - gen_epoch g"
  shows "sorted_wrt (<) (generated_ids nows g) \<and>
    (\<forall>i \<in> set (generated_ids nows g). gen_before g (unat i div 4096) (unat i mod 4096))"
  using assms
proof (induction nows arbitrary: g)
  case (Cons now nows)
  obtain g' r where g': "generate_id now None g = (g', r)" by fastforce
  note step = generate_id_step [OF g'] 
  from Cons.prems step have e: "gen_epoch g' = gen_epoch g" "gen_last_timestamp g' \<le> now - gen_epoch g"
    "g' = g \<or> gen_before g (unat (gen_last_timestamp g')) (unat (gen_last_seq g'))" by auto
  have "gen_last_timestamp g' \<le> n - gen_epoch g" if "n \<in> set nows" for n
  proof -
    have "now - gen_epoch g \<le> n - gen_epoch g" using Cons.prems that by (auto intro: word_le_minus_mono_left)
    with e(2) show ?thesis by simp
  qed
  with Cons.prems e(1) have IH: "sorted_wrt (<) (generated_ids nows g')"
    "\<forall>i \<in> set (generated_ids nows g'). gen_before g' (unat i div 4096) (unat i mod 4096)"
    using Cons.IH [of g'] by auto
  have later: "\<forall>i \<in> set (generated_ids nows g'). gen_before g (unat i div 4096) (unat i mod 4096)"
    using IH(2) e(3) gen_before_trans by blast
  show ?case
  proof (cases r)
    case (Ok i)
    with generate_id_Ok [of now None g g' i] g' have i: "unat i = unat (gen_last_timestamp g') * 4096 + unat (gen_last_seq g')"
      "gen_last_seq g' < 4096" by auto
    then have q: "unat i div 4096 = unat (gen_last_timestamp g')" "unat i mod 4096 = unat (gen_last_seq g')"
      by (simp_all add: word_less_nat_alt)
    have "gen_before g (unat i div 4096) (unat i mod 4096)"
      using step Ok Cons.prems by (auto simp: q)
    moreover have "\<forall>j \<in> set (generated_ids nows g'). i < j"
    proof
      fix j assume "j \<in> set (generated_ids nows g')"
      with IH(2) have "unat i div 4096 < unat j div 4096 \<or> unat i div 4096 = unat j div 4096 \<and> unat i mod 4096 < unat j mod 4096"
        by (simp add: gen_before_def q)
      then show "i < j" unfolding word_less_nat_alt
        by (metis div_mult_mod_eq div_le_mono linorder_not_less nat_add_left_cancel_less)
    qed
    ultimately show ?thesis using g' Ok IH(1) later by simp
  qed (use g' IH(1) later in simp_all)
qed simp

lemma generated_ids_bound: "i \<in> set (generated_ids nows g) \<Longrightarrow> i < 2 ^ 53"
proof (induction nows arbitrary: g)
  case (Cons now nows)
  obtain g' r where g: "generate_id now None g = (g', r)" by fastforce
  with Cons show ?case by (cases r) (auto dest: generate_id_bound)
qed simp

lemma commit_transaction_Ok:
  assumes "generate_id now None gen = (gen', Ok i)"
  shows "commit_transaction A now gen txn ev =
    ((gen', put_event_transaction A txn (ev\<lparr>ev_id := i\<rparr>), ev\<lparr>ev_id := i\<rparr>), Ok i)"
  using assms by (simp add: commit_transaction_def Let_def)

end
