(* ===== verification/Account_Store.thy ===== *)
theory Account_Store
  imports Event_Handler
begin

text \<open>
  \<open>storage/store/account/store.rs\<close>: the trait \<open>StoreDef\<close> as a record of its methods, with the
  default methods as definitions, and the operations of \<open>Store\<close>: reading, merging, revoking,
  compacting and pruning messages.  Locks make every call one step; the bindings to JavaScript
  are left out.
\<close>

section \<open>The trait StoreDef\<close>

record store_def =
  sd_postfix :: u8
  sd_add_message_type :: u8
  sd_remove_message_type :: u8
  sd_compact_state_message_type :: u8
  sd_is_add_type :: "message \<Rightarrow> bool"
  sd_is_remove_type :: "message \<Rightarrow> bool"
  sd_is_compact_state_type :: "message \<Rightarrow> bool"
  sd_remove_type_supported :: bool
  sd_build_secondary_indices :: "txn_batch \<Rightarrow> bytes \<Rightarrow> message \<Rightarrow> (hub_error, txn_batch) result"
  sd_delete_secondary_indices :: "txn_batch \<Rightarrow> bytes \<Rightarrow> message \<Rightarrow> (hub_error, txn_batch) result"
  sd_delete_remove_secondary_indices :: "txn_batch \<Rightarrow> message \<Rightarrow> (hub_error, txn_batch) result"
  sd_find_merge_add_conflicts :: "rocksdb \<Rightarrow> message \<Rightarrow> (hub_error, unit) result"
  sd_find_merge_remove_conflicts :: "rocksdb \<Rightarrow> message \<Rightarrow> (hub_error, unit) result"
  sd_make_add_key :: "message \<Rightarrow> (hub_error, bytes) result"
  sd_make_remove_key :: "message \<Rightarrow> (hub_error, bytes) result"
  sd_make_compact_state_add_key :: "message \<Rightarrow> (hub_error, bytes) result"
  sd_make_compact_state_prefix :: "u32 \<Rightarrow> (hub_error, bytes) result"
  sd_prune_size_limit :: u32
  sd_message_compare :: "u8 \<Rightarrow> bytes \<Rightarrow> u8 \<Rightarrow> bytes \<Rightarrow> (hub_error, int) result"
  sd_merge_conflicts_override ::
    "(account_env \<Rightarrow> rocksdb \<Rightarrow> message \<Rightarrow> bytes \<Rightarrow> (hub_error, message list) result) option"
  sd_revoke_event_args :: "message \<Rightarrow> hub_event"
  sd_merge_event_args :: "message \<Rightarrow> message list \<Rightarrow> hub_event"
  sd_prune_event_args :: "message \<Rightarrow> hub_event"

text \<open>The default methods, for the stores that do not override them.\<close>

definition default_remove_type_supported :: "u8 \<Rightarrow> bool" where
  "default_remove_type_supported remove_type \<longleftrightarrow> remove_type \<noteq> message_type_u8 MessageTypeNone"

definition compact_state_type_supported :: "store_def \<Rightarrow> bool" where
  "compact_state_type_supported D \<longleftrightarrow> sd_compact_state_message_type D \<noteq> message_type_u8 MessageTypeNone"

definition default_build_secondary_indices :: "txn_batch \<Rightarrow> bytes \<Rightarrow> message \<Rightarrow> (hub_error, txn_batch) result" where
  "default_build_secondary_indices txn ts_hash m = Ok txn"

definition default_delete_secondary_indices :: "txn_batch \<Rightarrow> bytes \<Rightarrow> message \<Rightarrow> (hub_error, txn_batch) result" where
  "default_delete_secondary_indices txn ts_hash m = Ok txn"

definition default_delete_remove_secondary_indices :: "txn_batch \<Rightarrow> message \<Rightarrow> (hub_error, txn_batch) result" where
  "default_delete_remove_secondary_indices txn m = Ok txn"

definition slice :: "nat \<Rightarrow> nat \<Rightarrow> bytes \<Rightarrow> (hub_error, bytes) result" where
  "slice lo hi xs =
     (if length xs < hi then Panic ''range end index out of range for slice'' else Ok (take (hi - lo) (drop lo xs)))"

definition compare_slices :: "nat \<Rightarrow> nat \<Rightarrow> bytes \<Rightarrow> bytes \<Rightarrow> (hub_error, int) result" where
  "compare_slices lo hi a b =
     bind_result (slice lo hi a) (\<lambda>x. bind_result (slice lo hi b) (\<lambda>y. Ok (bytes_compare x y)))"

definition default_message_compare ::
  "u8 \<Rightarrow> u8 \<Rightarrow> u8 \<Rightarrow> bytes \<Rightarrow> u8 \<Rightarrow> bytes \<Rightarrow> (hub_error, int) result" where
  "default_message_compare add_type remove_type a_type a_ts_hash b_type b_ts_hash =
     bind_result (compare_slices 0 4 a_ts_hash b_ts_hash) (\<lambda>ts_compare.
       if ts_compare \<noteq> 0 then Ok ts_compare
       else if a_type = remove_type \<and> b_type = add_type then Ok 1
       else if a_type = add_type \<and> b_type = remove_type then Ok (- 1)
       else compare_slices 4 24 a_ts_hash b_ts_hash)"

definition default_revoke_event_args :: "message \<Rightarrow> hub_event" where
  "default_revoke_event_args m = \<lparr>ev_type = RevokeMessage, ev_body = Some (RevokeMessageBody (Some m)), ev_id = 0\<rparr>"

definition default_merge_event_args :: "u8 \<Rightarrow> message \<Rightarrow> message list \<Rightarrow> hub_event" where
  "default_merge_event_args compact_type m conflicts =
     \<lparr>ev_type = MergeMessage,
      ev_body = Some (MergeMessageBody (Some m)
        (case msg_data m of
           Some d \<Rightarrow> if md_type d = ucast compact_type then [] else conflicts
         | None \<Rightarrow> [])),
      ev_id = 0\<rparr>"

definition default_prune_event_args :: "message \<Rightarrow> hub_event" where
  "default_prune_event_args m = \<lparr>ev_type = PruneMessage, ev_body = Some (PruneMessageBody (Some m)), ev_id = 0\<rparr>"

text \<open>One half of the conflict search: an index entry for the other message of the slot.\<close>

definition conflict_with ::
  "account_env \<Rightarrow> store_def \<Rightarrow> rocksdb \<Rightarrow> message \<Rightarrow> bytes \<Rightarrow> u8 \<Rightarrow> string \<Rightarrow> bytes \<Rightarrow>
     (hub_error, message list) result" where
  "conflict_with A D db m ts_hash kind more_recent existing =
     bind_result (message_data_of m) (\<lambda>d.
       bind_result (sd_message_compare D kind existing (ucast (md_type d)) ts_hash) (\<lambda>c.
         if c > 0 then Err (hub_err ''bad_request.conflict'' more_recent)
         else if c = 0 then Err (hub_err ''bad_request.duplicate'' ''message has already been merged'')
         else
           bind_result (vec_to_u8_24 (Some existing)) (\<lambda>h.
             bind_result (get_message A db (ucast (md_fid d)) (sd_postfix D) h) (\<lambda>found.
               Ok (case found of Some x \<Rightarrow> [x] | None \<Rightarrow> [])))))"

definition conflict_at ::
  "account_env \<Rightarrow> store_def \<Rightarrow> rocksdb \<Rightarrow> message \<Rightarrow> bytes \<Rightarrow> u8 \<Rightarrow> string \<Rightarrow> (hub_error, bytes) result \<Rightarrow>
     (hub_error, message list) result" where
  "conflict_at A D db m ts_hash kind more_recent key =
     bind_result key (\<lambda>k.
       bind_result (db_get db k) (\<lambda>existing.
         (case existing of
            None \<Rightarrow> Ok []
          | Some h \<Rightarrow> conflict_with A D db m ts_hash kind more_recent h)))"

definition recent_remove :: string where
  "recent_remove = ''message conflicts with a more recent remove''"

definition recent_add :: string where
  "recent_add = ''message conflicts with a more recent add''"

definition get_default_merge_conflicts ::
  "account_env \<Rightarrow> store_def \<Rightarrow> rocksdb \<Rightarrow> message \<Rightarrow> bytes \<Rightarrow> (hub_error, message list) result" where
  "get_default_merge_conflicts A D db m ts_hash =
     bind_result
       (if sd_is_add_type D m then sd_find_merge_add_conflicts D db m else sd_find_merge_remove_conflicts D db m) (\<lambda>_.
     bind_result
       (if sd_remove_type_supported D
        then conflict_at A D db m ts_hash (sd_remove_message_type D) recent_remove (sd_make_remove_key D m)
        else Ok []) (\<lambda>removes.
     bind_result (conflict_at A D db m ts_hash (sd_add_message_type D) recent_add (sd_make_add_key D m)) (\<lambda>adds.
       Ok (removes @ adds))))"

definition get_merge_conflicts ::
  "account_env \<Rightarrow> store_def \<Rightarrow> rocksdb \<Rightarrow> message \<Rightarrow> bytes \<Rightarrow> (hub_error, message list) result" where
  "get_merge_conflicts A D db m ts_hash =
     (case sd_merge_conflicts_override D of
        None \<Rightarrow> get_default_merge_conflicts A D db m ts_hash
      | Some f \<Rightarrow> f A db m ts_hash)"

section \<open>Store\<close>

record account_store =
  ast_def :: store_def
  ast_gen :: hub_event_id_generator
  ast_db :: rocksdb

definition new_with_store_def :: "rocksdb \<Rightarrow> hub_event_id_generator \<Rightarrow> store_def \<Rightarrow> account_store" where
  "new_with_store_def db gen D = \<lparr>ast_def = D, ast_gen = gen, ast_db = db\<rparr>"

definition fid_required :: "message \<Rightarrow> (hub_error, message_data) result" where
  "fid_required m =
     (case msg_data m of
        None \<Rightarrow> Err (hub_err ''bad_request.invalid_param'' ''fid is required'')
      | Some d \<Rightarrow>
          if md_fid d = 0 then Err (hub_err ''bad_request.invalid_param'' ''fid is required'') else Ok d)"

definition remove_not_supported :: hub_error where
  "remove_not_supported = hub_err ''bad_request.validation_failure'' ''remove type not supported''"

definition compact_not_supported :: hub_error where
  "compact_not_supported = hub_err ''bad_request.validation_failure'' ''compact state type not supported''"

definition get_by_index_key ::
  "account_env \<Rightarrow> account_store \<Rightarrow> message_data \<Rightarrow> (hub_error, bytes) result \<Rightarrow> (hub_error, message option) result" where
  "get_by_index_key A st d key =
     bind_result key (\<lambda>k.
       bind_result (db_get (ast_db st) k) (\<lambda>message_ts_hash.
         if message_ts_hash = None then Ok None
         else
           bind_result (vec_to_u8_24 message_ts_hash) (\<lambda>h.
             get_message A (ast_db st) (ucast (md_fid d)) (sd_postfix (ast_def st)) h)))"

definition get_add :: "account_env \<Rightarrow> account_store \<Rightarrow> message \<Rightarrow> (hub_error, message option) result" where
  "get_add A st partial =
     bind_result (fid_required partial) (\<lambda>d. get_by_index_key A st d (sd_make_add_key (ast_def st) partial))"

definition get_remove :: "account_env \<Rightarrow> account_store \<Rightarrow> message \<Rightarrow> (hub_error, message option) result" where
  "get_remove A st partial =
     (if \<not> sd_remove_type_supported (ast_def st) then Err remove_not_supported
      else
        bind_result (fid_required partial) (\<lambda>d. get_by_index_key A st d (sd_make_remove_key (ast_def st) partial)))"

definition messages_by_fid ::
  "account_env \<Rightarrow> account_store \<Rightarrow> u32 \<Rightarrow> page_options \<Rightarrow> (message \<Rightarrow> (hub_error, bool) result) \<Rightarrow>
     (hub_error, messages_page) result" where
  "messages_by_fid A st fid opts filt =
     get_messages_page_by_prefix A (ast_db st) (make_message_primary_key fid (sd_postfix (ast_def st)) None) opts filt"

definition filter_of ::
  "(message \<Rightarrow> bool) \<Rightarrow> (message \<Rightarrow> (hub_error, bool) result) option \<Rightarrow> message \<Rightarrow> (hub_error, bool) result" where
  "filter_of is_type filt m =
     (if is_type m then (case filt of None \<Rightarrow> Ok True | Some f \<Rightarrow> f m) else Ok False)"

definition get_adds_by_fid ::
  "account_env \<Rightarrow> account_store \<Rightarrow> u32 \<Rightarrow> page_options \<Rightarrow> (message \<Rightarrow> (hub_error, bool) result) option \<Rightarrow>
     (hub_error, messages_page) result" where
  "get_adds_by_fid A st fid opts filt =
     messages_by_fid A st fid opts (filter_of (sd_is_add_type (ast_def st)) filt)"

definition get_removes_by_fid ::
  "account_env \<Rightarrow> account_store \<Rightarrow> u32 \<Rightarrow> page_options \<Rightarrow> (message \<Rightarrow> (hub_error, bool) result) option \<Rightarrow>
     (hub_error, messages_page) result" where
  "get_removes_by_fid A st fid opts filt =
     (if \<not> sd_remove_type_supported (ast_def st) then Err remove_not_supported
      else messages_by_fid A st fid opts (filter_of (sd_is_remove_type (ast_def st)) filt))"

definition get_all_messages_by_fid ::
  "account_env \<Rightarrow> account_store \<Rightarrow> u32 \<Rightarrow> u32 option \<Rightarrow> u32 option \<Rightarrow> page_options \<Rightarrow> (hub_error, messages_page) result" where
  "get_all_messages_by_fid A st fid start stop opts =
     messages_by_fid A st fid opts (\<lambda>m.
       Ok (is_message_in_time_range start stop m \<and>
           (sd_is_add_type (ast_def st) m \<or>
            sd_remove_type_supported (ast_def st) \<and> sd_is_remove_type (ast_def st) m)))"

definition get_compact_state_messages_by_fid ::
  "account_env \<Rightarrow> account_store \<Rightarrow> u32 \<Rightarrow> page_options \<Rightarrow> (hub_error, messages_page) result" where
  "get_compact_state_messages_by_fid A st fid opts =
     (if \<not> compact_state_type_supported (ast_def st) then Err (invalid_parameter ''compact state not supported'')
      else
        bind_result (sd_make_compact_state_prefix (ast_def st) fid) (\<lambda>pfx.
          get_messages_page_by_prefix A (ast_db st) pfx opts (\<lambda>m.
            Ok (compact_state_type_supported (ast_def st) \<and> sd_is_compact_state_type (ast_def st) m))))"

section \<open>Batches of a store\<close>

definition put_add_compact_state_transaction ::
  "account_env \<Rightarrow> store_def \<Rightarrow> txn_batch \<Rightarrow> message \<Rightarrow> (hub_error, txn_batch) result" where
  "put_add_compact_state_transaction A D txn m =
     (if \<not> compact_state_type_supported D then Err compact_not_supported
      else bind_result (sd_make_compact_state_add_key D m) (\<lambda>k. Ok (txn_put txn k (message_encode A m))))"

definition put_add_transaction ::
  "account_env \<Rightarrow> store_def \<Rightarrow> txn_batch \<Rightarrow> bytes \<Rightarrow> message \<Rightarrow> (hub_error, txn_batch) result" where
  "put_add_transaction A D txn ts_hash m =
     bind_result (put_message_transaction A txn m) (\<lambda>txn1.
       bind_result (sd_make_add_key D m) (\<lambda>adds_key.
         sd_build_secondary_indices D (txn_put txn1 adds_key ts_hash) ts_hash m))"

definition delete_compact_state_transaction ::
  "store_def \<Rightarrow> txn_batch \<Rightarrow> message \<Rightarrow> (hub_error, txn_batch) result" where
  "delete_compact_state_transaction D txn m =
     (if \<not> compact_state_type_supported D then Err compact_not_supported
      else bind_result (sd_make_compact_state_add_key D m) (\<lambda>k. Ok (txn_delete txn k)))"

definition delete_add_transaction ::
  "store_def \<Rightarrow> txn_batch \<Rightarrow> bytes \<Rightarrow> message \<Rightarrow> (hub_error, txn_batch) result" where
  "delete_add_transaction D txn ts_hash m =
     bind_result (sd_delete_secondary_indices D txn ts_hash m) (\<lambda>txn1.
       bind_result (sd_make_add_key D m) (\<lambda>add_key.
         delete_message_transaction (txn_delete txn1 add_key) m))"

definition put_remove_transaction ::
  "account_env \<Rightarrow> store_def \<Rightarrow> txn_batch \<Rightarrow> bytes \<Rightarrow> message \<Rightarrow> (hub_error, txn_batch) result" where
  "put_remove_transaction A D txn ts_hash m =
     (if \<not> sd_remove_type_supported D then Err remove_not_supported
      else
        bind_result (put_message_transaction A txn m) (\<lambda>txn1.
          bind_result (sd_make_remove_key D m) (\<lambda>removes_key. Ok (txn_put txn1 removes_key ts_hash))))"

definition delete_remove_transaction :: "store_def \<Rightarrow> txn_batch \<Rightarrow> message \<Rightarrow> (hub_error, txn_batch) result" where
  "delete_remove_transaction D txn m =
     (if \<not> sd_remove_type_supported D then Err remove_not_supported
      else
        bind_result (sd_delete_remove_secondary_indices D txn m) (\<lambda>txn1.
          bind_result (sd_make_remove_key D m) (\<lambda>remove_key.
            delete_message_transaction (txn_delete txn1 remove_key) m)))"

definition message_ts_hash :: "message \<Rightarrow> (hub_error, bytes) result" where
  "message_ts_hash m = bind_result (message_data_of m) (\<lambda>d. make_ts_hash (md_timestamp d) (msg_hash m))"

definition delete_one :: "store_def \<Rightarrow> txn_batch \<Rightarrow> message \<Rightarrow> (hub_error, txn_batch) result" where
  "delete_one D txn m =
     bind_result
       (if sd_is_compact_state_type D m then delete_compact_state_transaction D txn m
        else if sd_is_add_type D m
        then bind_result (message_ts_hash m) (\<lambda>ts_hash. delete_add_transaction D txn ts_hash m)
        else Ok txn) (\<lambda>txn1.
     if sd_remove_type_supported D \<and> sd_is_remove_type D m then delete_remove_transaction D txn1 m else Ok txn1)"

fun delete_many_transaction :: "store_def \<Rightarrow> txn_batch \<Rightarrow> message list \<Rightarrow> (hub_error, txn_batch) result" where
  "delete_many_transaction D txn [] = Ok txn"
| "delete_many_transaction D txn (m # ms) =
     bind_result (delete_one D txn m) (\<lambda>txn1. delete_many_transaction D txn1 ms)"

section \<open>Merging\<close>

text \<open>The end of every merge and of a revocation: stamp the event, commit, return the encoded event.\<close>

definition commit_event ::
  "account_env \<Rightarrow> u64 \<Rightarrow> account_store \<Rightarrow> txn_batch \<Rightarrow> hub_event \<Rightarrow> account_store \<times> (hub_error, bytes) result" where
  "commit_event A now st txn event =
     (case commit_transaction A now (ast_gen st) txn event of
        ((gen, txn1, event1), Ok i) \<Rightarrow>
          (case db_commit (ast_db st) txn1 of
             (db, Ok _) \<Rightarrow> (st\<lparr>ast_gen := gen, ast_db := db\<rparr>, Ok (ae_event_encode A (event1\<lparr>ev_id := i\<rparr>)))
           | (db, Err e) \<Rightarrow> (st\<lparr>ast_gen := gen, ast_db := db\<rparr>, Err e)
           | (db, Panic p) \<Rightarrow> (st\<lparr>ast_gen := gen, ast_db := db\<rparr>, Panic p))
      | ((gen, txn1, event1), Err e) \<Rightarrow> (st\<lparr>ast_gen := gen\<rparr>, Err e)
      | ((gen, txn1, event1), Panic p) \<Rightarrow> (st\<lparr>ast_gen := gen\<rparr>, Panic p))"

definition with_txn ::
  "account_env \<Rightarrow> u64 \<Rightarrow> account_store \<Rightarrow> (hub_error, txn_batch \<times> hub_event) result \<Rightarrow>
     account_store \<times> (hub_error, bytes) result" where
  "with_txn A now st r =
     (case r of
        Ok (txn, event) \<Rightarrow> commit_event A now st txn event
      | Err e \<Rightarrow> (st, Err e)
      | Panic p \<Rightarrow> (st, Panic p))"

definition read_compact_state_details :: "message \<Rightarrow> (hub_error, u32 \<times> u32 \<times> u64 list) result" where
  "read_compact_state_details m =
     (case msg_data m of
        Some d \<Rightarrow>
          (case md_body d of
             Some (LinkCompactStateBody b) \<Rightarrow> Ok (ucast (md_fid d), md_timestamp d, lc_target_fids b)
           | _ \<Rightarrow> Err (hub_err ''bad_request.validation_failure''
                    ''Invalid compact state message: No link compact state body''))
      | None \<Rightarrow> Err (hub_err ''bad_request.validation_failure'' ''Invalid compact state message: no data''))"

text \<open>The compact state message that covers a message, when the store has one.\<close>

definition stored_compact_state ::
  "account_env \<Rightarrow> account_store \<Rightarrow> message \<Rightarrow> (hub_error, (u32 \<times> u64 list) option) result" where
  "stored_compact_state A st m =
     bind_result (sd_make_compact_state_add_key (ast_def st) m) (\<lambda>k.
       bind_result (db_get (ast_db st) k) (\<lambda>v.
         (case v of
            None \<Rightarrow> Ok None
          | Some b \<Rightarrow>
              bind_result (message_decode A b) (\<lambda>c.
                bind_result (read_compact_state_details c) (\<lambda>(_, ts, fids). Ok (Some (ts, fids)))))))"

definition link_target_fid :: "message_data \<Rightarrow> u64 option" where
  "link_target_fid d =
     (case md_body d of
        Some (LinkBody b) \<Rightarrow> (case li_target b of Some (TargetFid f) \<Rightarrow> Some f | None \<Rightarrow> None)
      | _ \<Rightarrow> None)"

definition check_add_compact :: "account_env \<Rightarrow> account_store \<Rightarrow> message \<Rightarrow> (hub_error, unit) result" where
  "check_add_compact A st m =
     (if \<not> compact_state_type_supported (ast_def st) then Ok ()
      else
        bind_result (stored_compact_state A st m) (\<lambda>c.
          (case c of
             None \<Rightarrow> Ok ()
           | Some (ts, fids) \<Rightarrow>
               bind_result (message_data_of m) (\<lambda>d.
                 (case link_target_fid d of
                    None \<Rightarrow> Ok ()
                  | Some f \<Rightarrow>
                      if md_timestamp d < ts \<and> f \<notin> set fids
                      then Err (hub_err ''bad_request.conflict'' ''Target fid not in the compact state target fids'')
                      else Ok ())))))"

definition check_remove_compact :: "account_env \<Rightarrow> account_store \<Rightarrow> message \<Rightarrow> (hub_error, unit) result" where
  "check_remove_compact A st m =
     (if \<not> compact_state_type_supported (ast_def st) then Ok ()
      else
        bind_result (stored_compact_state A st m) (\<lambda>c.
          (case c of
             None \<Rightarrow> Ok ()
           | Some (ts, _) \<Rightarrow>
               bind_result (message_data_of m) (\<lambda>d.
                 if md_timestamp d < ts
                 then Err (hub_err ''bad_request.prunable''
                        ''Remove message earlier than the compact state message will be immediately pruned'')
                 else Ok ()))))"

definition merge_add ::
  "account_env \<Rightarrow> u64 \<Rightarrow> bytes \<Rightarrow> message \<Rightarrow> account_store \<Rightarrow> account_store \<times> (hub_error, bytes) result" where
  "merge_add A now ts_hash m st =
     with_txn A now st
       (bind_result (check_add_compact A st m) (\<lambda>_.
        bind_result (get_merge_conflicts A (ast_def st) (ast_db st) m ts_hash) (\<lambda>conflicts.
        bind_result (delete_many_transaction (ast_def st) (rocksdb_txn (ast_db st)) conflicts) (\<lambda>txn1.
        bind_result (put_add_transaction A (ast_def st) txn1 ts_hash m) (\<lambda>txn2.
          Ok (txn2, sd_merge_event_args (ast_def st) m conflicts))))))"

definition merge_remove ::
  "account_env \<Rightarrow> u64 \<Rightarrow> bytes \<Rightarrow> message \<Rightarrow> account_store \<Rightarrow> account_store \<times> (hub_error, bytes) result" where
  "merge_remove A now ts_hash m st =
     with_txn A now st
       (bind_result (check_remove_compact A st m) (\<lambda>_.
        bind_result (get_merge_conflicts A (ast_def st) (ast_db st) m ts_hash) (\<lambda>conflicts.
        bind_result (delete_many_transaction (ast_def st) (rocksdb_txn (ast_db st)) conflicts) (\<lambda>txn1.
        bind_result (put_remove_transaction A (ast_def st) txn1 ts_hash m) (\<lambda>txn2.
          Ok (txn2, sd_merge_event_args (ast_def st) m conflicts))))))"

text \<open>The messages of the fid that a compact state message replaces.\<close>

definition compact_step ::
  "account_env \<Rightarrow> store_def \<Rightarrow> u32 \<Rightarrow> u64 list \<Rightarrow> message list \<Rightarrow> bytes \<Rightarrow> bytes \<Rightarrow>
     message list \<times> (hub_error, bool) result" where
  "compact_step A D timestamp target_fids conflicts key value =
     (case bind_result (message_decode A value) (\<lambda>m. bind_result (message_data_of m) (\<lambda>d. Ok (m, d))) of
        Ok (m, d) \<Rightarrow>
          if md_timestamp d > timestamp then (conflicts, Ok True)
          else if sd_is_remove_type D m then (conflicts @ [m], Ok False)
          else if sd_is_add_type D m
          then (case link_target_fid d of
                  None \<Rightarrow> (conflicts, Ok False)
                | Some f \<Rightarrow> (if f \<notin> set target_fids then conflicts @ [m] else conflicts, Ok False))
          else (conflicts, Ok False)
      | Err e \<Rightarrow> (conflicts, Err e)
      | Panic p \<Rightarrow> (conflicts, Panic p))"

definition existing_compact_state ::
  "account_env \<Rightarrow> account_store \<Rightarrow> message \<Rightarrow> (hub_error, message list) result" where
  "existing_compact_state A st m =
     bind_result (sd_make_compact_state_add_key (ast_def st) m) (\<lambda>k.
       bind_result (db_get (ast_db st) k) (\<lambda>v.
         (case v of
            None \<Rightarrow> Ok []
          | Some b \<Rightarrow>
              (case message_decode A b of
                 Ok c \<Rightarrow>
                   bind_result (message_data_of c) (\<lambda>dc.
                     bind_result (message_data_of m) (\<lambda>d.
                       if md_timestamp dc < md_timestamp d then Ok [c]
                       else Err (hub_err ''bad_request.conflict'' ''A newer Compact State message is already merged'')))
               | Err _ \<Rightarrow> Ok []
               | Panic p \<Rightarrow> Panic p))))"

definition compact_conflicts :: "account_env \<Rightarrow> account_store \<Rightarrow> message \<Rightarrow> (hub_error, message list) result" where
  "compact_conflicts A st m =
     bind_result (existing_compact_state A st m) (\<lambda>older.
       bind_result (read_compact_state_details m) (\<lambda>(fid, timestamp, target_fids).
         (case prefix_loop (compact_step A (ast_def st) timestamp target_fids)
                 (ae_items A (ast_db st) (make_message_primary_key fid (sd_postfix (ast_def st)) None) default_page) older of
            (conflicts, r) \<Rightarrow> bind_result r (\<lambda>_. Ok conflicts))))"

definition merge_compact_state ::
  "account_env \<Rightarrow> u64 \<Rightarrow> message \<Rightarrow> account_store \<Rightarrow> account_store \<times> (hub_error, bytes) result" where
  "merge_compact_state A now m st =
     with_txn A now st
       (bind_result (compact_conflicts A st m) (\<lambda>conflicts.
        bind_result (delete_many_transaction (ast_def st) (rocksdb_txn (ast_db st)) conflicts) (\<lambda>txn1.
        bind_result (put_add_compact_state_transaction A (ast_def st) txn1 m) (\<lambda>txn2.
          Ok (txn2, sd_merge_event_args (ast_def st) m conflicts)))))"

definition merge :: "account_env \<Rightarrow> u64 \<Rightarrow> message \<Rightarrow> account_store \<Rightarrow> account_store \<times> (hub_error, bytes) result" where
  "merge A now m st =
     (let D = ast_def st in
      case message_data_of m of
        Err e \<Rightarrow> (st, Err e)
      | Panic p \<Rightarrow> (st, Panic p)
      | Ok d \<Rightarrow>
          if \<not> sd_is_add_type D m \<and> \<not> (sd_remove_type_supported D \<and> sd_is_remove_type D m) \<and>
             \<not> (compact_state_type_supported D \<and> sd_is_compact_state_type D m)
          then (st, Err (hub_err ''bad_request.validation_failure'' ''invalid message type''))
          else
            (case make_ts_hash (md_timestamp d) (msg_hash m) of
               Err e \<Rightarrow> (st, Err e)
             | Panic p \<Rightarrow> (st, Panic p)
             | Ok ts_hash \<Rightarrow>
                 if sd_is_compact_state_type D m then merge_compact_state A now m st
                 else if sd_is_add_type D m then merge_add A now ts_hash m st
                 else merge_remove A now ts_hash m st))"

definition revoke :: "account_env \<Rightarrow> u64 \<Rightarrow> message \<Rightarrow> account_store \<Rightarrow> account_store \<times> (hub_error, bytes) result" where
  "revoke A now m st =
     (let D = ast_def st; txn = rocksdb_txn (ast_db st) in
      with_txn A now st
        (bind_result (message_ts_hash m) (\<lambda>ts_hash.
         bind_result
           (if sd_is_compact_state_type D m then delete_compact_state_transaction D txn m
            else if sd_is_add_type D m then delete_add_transaction D txn ts_hash m
            else if sd_remove_type_supported D \<and> sd_is_remove_type D m then delete_remove_transaction D txn m
            else Err (hub_err ''bad_request.invalid_param'' ''invalid message type'')) (\<lambda>txn1.
           Ok (txn1, sd_revoke_event_args D m)))))"

section \<open>Pruning\<close>

text \<open>\<open>now\<close> gives the clock of each event; the state is the count, the generator, the batch and the events.\<close>

definition prune_step ::
  "account_env \<Rightarrow> (nat \<Rightarrow> u64) \<Rightarrow> store_def \<Rightarrow> u64 \<Rightarrow>
     u64 \<times> hub_event_id_generator \<times> txn_batch \<times> hub_event list \<Rightarrow> bytes \<Rightarrow> bytes \<Rightarrow>
     (u64 \<times> hub_event_id_generator \<times> txn_batch \<times> hub_event list) \<times> (hub_error, bool) result" where
  "prune_step A now D limit s key value =
     (case s of (cnt, gen, txn, events) \<Rightarrow>
        if cnt \<le> limit then (s, Ok True)
        else
          (case message_decode A value of
             Err e \<Rightarrow> (s, Err e)
           | Panic p \<Rightarrow> (s, Panic p)
           | Ok m \<Rightarrow>
               if compact_state_type_supported D \<and> sd_is_compact_state_type D m then (s, Ok False)
               else
                 (case (if sd_is_add_type D m
                        then bind_result (message_ts_hash m) (\<lambda>ts_hash. delete_add_transaction D txn ts_hash m)
                        else if sd_remove_type_supported D \<and> sd_is_remove_type D m
                        then delete_remove_transaction D txn m else Ok txn) of
                    Err e \<Rightarrow> (s, Err e)
                  | Panic p \<Rightarrow> (s, Panic p)
                  | Ok txn1 \<Rightarrow>
                      (case commit_transaction A (now (length events)) gen txn1 (sd_prune_event_args D m) of
                         ((gen', txn2, event), Ok i) \<Rightarrow>
                           ((cnt - 1, gen', txn2, events @ [event\<lparr>ev_id := i\<rparr>]), Ok False)
                       | ((gen', txn2, event), Err e) \<Rightarrow> ((cnt, gen', txn1, events), Err e)
                       | ((gen', txn2, event), Panic p) \<Rightarrow> ((cnt, gen', txn1, events), Panic p)))))"

definition prune_messages ::
  "account_env \<Rightarrow> (nat \<Rightarrow> u64) \<Rightarrow> u32 \<Rightarrow> u64 \<Rightarrow> u64 \<Rightarrow> account_store \<Rightarrow> account_store \<times> (hub_error, hub_event list) result" where
  "prune_messages A now fid cached_count max_count st =
     (let D = ast_def st;
          max_message_count = (if sd_prune_size_limit D > 0 then ucast (sd_prune_size_limit D) else max_count);
          items = ae_items A (ast_db st) (make_message_primary_key fid (sd_postfix D) None) default_page
      in case prefix_loop (prune_step A now D max_message_count) items
                (cached_count, ast_gen st, rocksdb_txn (ast_db st), []) of
           ((cnt, gen, txn, events), Ok _) \<Rightarrow>
             (case db_commit (ast_db st) txn of
                (db, Ok _) \<Rightarrow> (st\<lparr>ast_gen := gen, ast_db := db\<rparr>, Ok events)
              | (db, Err e) \<Rightarrow> (st\<lparr>ast_gen := gen, ast_db := db\<rparr>, Err e)
              | (db, Panic p) \<Rightarrow> (st\<lparr>ast_gen := gen, ast_db := db\<rparr>, Panic p))
         | ((cnt, gen, txn, events), Err e) \<Rightarrow> (st\<lparr>ast_gen := gen\<rparr>, Err e)
         | ((cnt, gen, txn, events), Panic p) \<Rightarrow> (st\<lparr>ast_gen := gen\<rparr>, Panic p))"

end
