(* ===== verification/Store_Contract.thy ===== *)
theory Store_Contract
  imports Account_Store
begin

text \<open>
  What a message store promises, whatever its kind: per slot (the messages of one add key and one
  remove key) it holds the message of the highest rank, merging is the update of a last-writer-wins
  map, and stores that merged the same messages answer alike.  The locale \<open>store_keys\<close> states what
  the store needs of a \<open>StoreDef\<close>: keys that do not collide, indices that stay out of their way, and
  a comparison that is the order of a rank.
\<close>

section \<open>The keys of a message\<close>

definition m_data :: "message \<Rightarrow> message_data" where
  "m_data m = the (msg_data m)"

definition m_fid :: "message \<Rightarrow> u32" where
  "m_fid m = ucast (md_fid (m_data m))"

definition m_tsh :: "message \<Rightarrow> bytes" where
  "m_tsh m = u32_to_be_bytes (md_timestamp (m_data m)) @ msg_hash m"

definition ok_key :: "(hub_error, bytes) result \<Rightarrow> bytes" where
  "ok_key r = (case r of Ok k \<Rightarrow> k | _ \<Rightarrow> [])"

definition m_akey :: "store_def \<Rightarrow> message \<Rightarrow> bytes" where
  "m_akey D m = ok_key (sd_make_add_key D m)"

definition m_rkey :: "store_def \<Rightarrow> message \<Rightarrow> bytes" where
  "m_rkey D m = ok_key (sd_make_remove_key D m)"

definition m_ckey :: "store_def \<Rightarrow> message \<Rightarrow> bytes" where
  "m_ckey D m = ok_key (sd_make_compact_state_add_key D m)"

definition m_pkey :: "store_def \<Rightarrow> message \<Rightarrow> bytes" where
  "m_pkey D m = make_message_primary_key (m_fid m) (sd_postfix D) (Some (m_tsh m))"

lemma ok_key_Ok [simp]: "ok_key (Ok k) = k"
  by (simp add: ok_key_def)

text \<open>The messages a store accepts: of one of its two kinds, with keys, indices and a 20-byte hash.\<close>

definition store_valid :: "account_env \<Rightarrow> store_def \<Rightarrow> message \<Rightarrow> bool" where
  "store_valid A D m \<longleftrightarrow> message_codec_ok A m \<and> length (msg_hash m) = 20 \<and> msg_data m \<noteq> None \<and>
     (sd_is_add_type D m \<or> sd_remove_type_supported D \<and> sd_is_remove_type D m) \<and>
     (\<exists>k. sd_make_add_key D m = Ok k) \<and> (sd_remove_type_supported D \<longrightarrow> (\<exists>k. sd_make_remove_key D m = Ok k)) \<and>
     (\<exists>txn. sd_build_secondary_indices D [] (m_tsh m) m = Ok txn)"

text \<open>A universe of messages without hash collisions.\<close>

definition universe :: "account_env \<Rightarrow> store_def \<Rightarrow> message set \<Rightarrow> bool" where
  "universe A D U \<longleftrightarrow> (\<forall>m \<in> U. store_valid A D m) \<and> inj_on (m_pkey D) U"

text \<open>The entries of the database that the store reads, for the live message of every slot.\<close>

definition slot_key :: "store_def \<Rightarrow> message \<Rightarrow> bytes" where
  "slot_key D m = (if sd_is_add_type D m then m_akey D m else m_rkey D m)"

definition live_add :: "store_def \<Rightarrow> message option \<Rightarrow> bytes option" where
  "live_add D w = (case w of Some x \<Rightarrow> if sd_is_add_type D x then Some (m_tsh x) else None | None \<Rightarrow> None)"

definition live_remove :: "store_def \<Rightarrow> message option \<Rightarrow> bytes option" where
  "live_remove D w = (case w of Some x \<Rightarrow> if sd_is_add_type D x then None else Some (m_tsh x) | None \<Rightarrow> None)"

text \<open>
  \<open>absent m\<close> are the keys that merging \<open>m\<close> also reads and that hold nothing: the compact state of its
  fid, and index keys of an older format.
\<close>

definition view_rep ::
  "account_env \<Rightarrow> store_def \<Rightarrow> (message \<Rightarrow> bytes set) \<Rightarrow> message set \<Rightarrow> (bytes \<Rightarrow> bytes option) \<Rightarrow>
     (bytes \<Rightarrow> message option) \<Rightarrow> bool" where
  "view_rep A D absent U g M \<longleftrightarrow>
     (\<forall>s w. M s = Some w \<longrightarrow> w \<in> U \<and> m_akey D w = s) \<and>
     (\<forall>m \<in> U. g (m_akey D m) = live_add D (M (m_akey D m)) \<and>
        (sd_remove_type_supported D \<longrightarrow> g (m_rkey D m) = live_remove D (M (m_akey D m))) \<and>
        g (m_pkey D m) = (if M (m_akey D m) = Some m then Some (message_encode A m) else None) \<and>
        (\<forall>k \<in> absent m. g k = None))"

definition store_rep ::
  "account_env \<Rightarrow> store_def \<Rightarrow> (message \<Rightarrow> bytes set) \<Rightarrow> message set \<Rightarrow> rocksdb \<Rightarrow>
     (bytes \<Rightarrow> message option) \<Rightarrow> bool" where
  "store_rep A D absent U db M \<longleftrightarrow> db_healthy db \<and> universe A D U \<and> view_rep A D absent U (db_view db) M"

text \<open>The keys that hold a message: its primary key and the two index keys of its slot.\<close>

definition tracked :: "store_def \<Rightarrow> message \<Rightarrow> bytes set" where
  "tracked D m = {m_akey D m, m_pkey D m} \<union> (if sd_remove_type_supported D then {m_rkey D m} else {})"

text \<open>The last-writer-wins update of the slot of a message.\<close>

definition lww :: "store_def \<Rightarrow> (message \<Rightarrow> bytes) \<Rightarrow> message \<Rightarrow> (bytes \<Rightarrow> message option) \<Rightarrow> (bytes \<Rightarrow> message option)" where
  "lww D rank m M =
     (case M (m_akey D m) of
        None \<Rightarrow> M(m_akey D m \<mapsto> m)
      | Some w \<Rightarrow> if rank w < rank m then M(m_akey D m \<mapsto> m) else M)"

definition already_merged :: hub_error where
  "already_merged = hub_err ''bad_request.duplicate'' ''message has already been merged''"

definition more_recent :: "store_def \<Rightarrow> message \<Rightarrow> hub_error" where
  "more_recent D w = hub_err ''bad_request.conflict'' (if sd_is_add_type D w then recent_add else recent_remove)"

section \<open>Facts of every store definition\<close>

lemma valid_data: "store_valid A D m \<Longrightarrow> msg_data m = Some (m_data m)"
  by (auto simp: store_valid_def m_data_def)

lemma valid_keys:
  assumes "store_valid A D m"
  shows "sd_make_add_key D m = Ok (m_akey D m)"
    "sd_remove_type_supported D \<Longrightarrow> sd_make_remove_key D m = Ok (m_rkey D m)"
  using assms by (auto simp: store_valid_def m_akey_def m_rkey_def)

lemma valid_tsh:
  assumes "store_valid A D m"
  shows "message_data_of m = (Ok (m_data m) :: ('e, message_data) result)"
    "make_ts_hash (md_timestamp (m_data m)) (msg_hash m) = Ok (m_tsh m)" "length (m_tsh m) = 24"
  using assms valid_data [OF assms]
  by (simp_all add: store_valid_def message_data_of_def make_ts_hash_def HASH_LENGTH_def m_tsh_def)

lemma valid_ts_hash: "store_valid A D m \<Longrightarrow> message_ts_hash m = Ok (m_tsh m)"
  by (simp add: message_ts_hash_def valid_tsh)

lemma valid_remove:
  assumes "store_valid A D m" "\<not> sd_is_add_type D m"
  shows "sd_remove_type_supported D" "sd_is_remove_type D m"
  using assms by (auto simp: store_valid_def)

lemma rep_healthy: "store_rep A D absent U db M \<Longrightarrow> db_healthy db"
  by (simp add: store_rep_def)

lemma rep_valid: "store_rep A D absent U db M \<Longrightarrow> m \<in> U \<Longrightarrow> store_valid A D m"
  by (simp add: store_rep_def universe_def)

lemma rep_live: "store_rep A D absent U db M \<Longrightarrow> M s = Some w \<Longrightarrow> w \<in> U \<and> m_akey D w = s"
  by (simp add: store_rep_def view_rep_def)

lemma view_rep_keys:
  assumes "view_rep A D absent U g M" "m \<in> U"
  shows "g (m_akey D m) = live_add D (M (m_akey D m))"
    "sd_remove_type_supported D \<Longrightarrow> g (m_rkey D m) = live_remove D (M (m_akey D m))"
    "g (m_pkey D m) = (if M (m_akey D m) = Some m then Some (message_encode A m) else None)"
    "k \<in> absent m \<Longrightarrow> g k = None"
  using assms by (simp_all add: view_rep_def)

lemma view_rep_unique:
  assumes "view_rep A D absent U g M" "view_rep A D absent U g' M" "m \<in> U" "k \<in> tracked D m"
  shows "g k = g' k"
  using assms(4) view_rep_keys [OF assms(1,3)] view_rep_keys [OF assms(2,3)]
  by (auto simp: tracked_def split: if_splits)

lemma rep_view:
  assumes "store_rep A D absent U db M" "m \<in> U"
  shows "db_view db (m_akey D m) = live_add D (M (m_akey D m))"
    "sd_remove_type_supported D \<Longrightarrow> db_view db (m_rkey D m) = live_remove D (M (m_akey D m))"
    "db_view db (m_pkey D m) = (if M (m_akey D m) = Some m then Some (message_encode A m) else None)"
    "k \<in> absent m \<Longrightarrow> db_view db k = None"
  using assms view_rep_keys [of A D absent U "db_view db" M m] by (simp_all add: store_rep_def)

lemma get_live:
  assumes "store_rep A D absent U db M" "M s = Some w"
  shows "get_message A db (m_fid w) (sd_postfix D) (m_tsh w) = Ok (Some w)"
proof -
  from rep_live [OF assms] have w: "w \<in> U" "m_akey D w = s" by auto
  with rep_view(3) [OF assms(1) w(1)] assms(2)
  have "db_view db (m_pkey D w) = Some (message_encode A w)" by simp
  with rep_healthy [OF assms(1)] rep_valid [OF assms(1) w(1)] show ?thesis
    by (intro get_message_healthy) (auto simp: m_pkey_def store_valid_def)
qed

lemma primary_inj: "universe A D U \<Longrightarrow> m \<in> U \<Longrightarrow> w \<in> U \<Longrightarrow> m_pkey D m = m_pkey D w \<longleftrightarrow> m = w"
  by (auto simp: universe_def inj_on_def)

text \<open>Writing a message of either kind, and the commit that ends a merge.\<close>

definition put_transaction :: "account_env \<Rightarrow> store_def \<Rightarrow> txn_batch \<Rightarrow> message \<Rightarrow> (hub_error, txn_batch) result" where
  "put_transaction A D txn m =
     (if sd_is_add_type D m then put_add_transaction A D txn (m_tsh m) m
      else put_remove_transaction A D txn (m_tsh m) m)"

lemma commit_event_ok:
  assumes "db_healthy (ast_db st)" "hm_wf txn" "generate_id now None (ast_gen st) = (gen, Ok i)"
  shows "\<exists>db v. commit_event A now st txn ev =
      (st\<lparr>ast_gen := gen, ast_db := db\<rparr>, Ok (ae_event_encode A (ev\<lparr>ev_id := i\<rparr>))) \<and> db_healthy db \<and>
    db_view db = (overlay (db_view (ast_db st)) txn)(make_event_key i \<mapsto> v)"
proof -
  let ?t = "put_event_transaction A txn (ev\<lparr>ev_id := i\<rparr>)"
  have "hm_wf ?t" using assms(2) by (simp add: put_event_transaction_def)
  from db_commit_healthy [OF assms(1) this] obtain db where db: "db_commit (ast_db st) ?t = (db, Ok ())"
    "db_healthy db" "db_view db = overlay (db_view (ast_db st)) ?t" by blast
  with assms(3) show ?thesis by (auto simp: commit_event_def commit_transaction_Ok put_event_transaction_def)
qed

text \<open>
  Clock readings for which the generator has an id left, in whatever order they come: they lie after
  its epoch and within the 41 bits of an id, and no millisecond is read more often than there are
  sequence numbers, counted from the next one when it is the millisecond of the last id.
\<close>

definition next_seq :: "hub_event_id_generator \<Rightarrow> u64 \<Rightarrow> nat" where
  "next_seq g now = (if now - gen_epoch g = gen_last_timestamp g then Suc (unat (gen_last_seq g)) else 0)"

definition ids_available :: "hub_event_id_generator \<Rightarrow> u64 list \<Rightarrow> bool" where
  "ids_available g nows \<longleftrightarrow>
     (\<forall>now \<in> set nows. gen_epoch g \<le> now \<and> now - gen_epoch g < 2 ^ TIMESTAMP_BITS \<and>
        next_seq g now + count_list nows now \<le> 2 ^ SEQUENCE_BITS)"

definition tick :: "hub_event_id_generator \<Rightarrow> u64 \<Rightarrow> hub_event_id_generator" where
  "tick g now = fst (generate_id now None g)"

definition tick_id :: "hub_event_id_generator \<Rightarrow> u64 \<Rightarrow> u64" where
  "tick_id g now = (case snd (generate_id now None g) of Ok i \<Rightarrow> i | _ \<Rightarrow> 0)"

lemma ids_generate:
  assumes "ids_available g (now # nows)"
  shows "generate_id now None g = (tick g now, Ok (tick_id g now))"
    "gen_epoch (tick g now) = gen_epoch g" "gen_last_timestamp (tick g now) = now - gen_epoch g"
    "unat (gen_last_seq (tick g now)) = next_seq g now"
proof -
  from assms have a: "gen_epoch g \<le> now" "now - gen_epoch g < 2 ^ TIMESTAMP_BITS" "next_seq g now < 2 ^ SEQUENCE_BITS"
    by (auto simp: ids_available_def)
  have seq: "unat (gen_last_seq g + 1) = Suc (unat (gen_last_seq g))" "gen_last_seq g \<noteq> - 1" "gen_last_seq g + 1 < 4096"
    if "now - gen_epoch g = gen_last_timestamp g"
  proof -
    from a(3) that have lt: "Suc (unat (gen_last_seq g)) < 4096" by (simp add: next_seq_def SEQUENCE_BITS_def)
    show "gen_last_seq g \<noteq> - 1" using lt by (auto simp: unsigned_minus_1_eq_mask mask_eq_exp_minus_1)
    show eq: "unat (gen_last_seq g + 1) = Suc (unat (gen_last_seq g))"
      using lt by (simp add: unat_add_lem [THEN iffD1])
    show "gen_last_seq g + 1 < 4096" using lt eq by (simp add: word_less_nat_alt)
  qed
  show "generate_id now None g = (tick g now, Ok (tick_id g now))"
    "gen_epoch (tick g now) = gen_epoch g" "gen_last_timestamp (tick g now) = now - gen_epoch g"
    "unat (gen_last_seq (tick g now)) = next_seq g now"
    using a(1,2) seq
    by (auto simp: tick_def tick_id_def generate_id_def next_seq_def Let_def event_bits not_le not_less)
qed

lemma ids_next:
  assumes "ids_available g (now # nows)"
  shows "ids_available g nows" "ids_available (tick g now) nows"
proof -
  show "ids_available g nows" using assms by (fastforce simp: ids_available_def split: if_splits)
  have "next_seq (tick g now) n + count_list nows n \<le> 2 ^ SEQUENCE_BITS" if "n \<in> set nows" for n
  proof (cases "n = now")
    case True
    from assms have "next_seq g now + count_list (now # nows) now \<le> 2 ^ SEQUENCE_BITS" by (simp add: ids_available_def)
    with True ids_generate(2-4) [OF assms] show ?thesis by (simp add: next_seq_def [of "tick g now"])
  next
    case False
    with ids_generate(2,3) [OF assms] have "next_seq (tick g now) n = 0" by (simp add: next_seq_def)
    moreover from assms that False have "next_seq g n + count_list nows n \<le> 2 ^ SEQUENCE_BITS"
      by (fastforce simp: ids_available_def)
    ultimately show ?thesis by simp
  qed
  with assms ids_generate(2) [OF assms] show "ids_available (tick g now) nows" by (simp add: ids_available_def)
qed

text \<open>A list of timed messages, merged one after the other.\<close>

fun merge_all :: "account_env \<Rightarrow> (u64 \<times> message) list \<Rightarrow> account_store \<Rightarrow> account_store" where
  "merge_all A [] st = st"
| "merge_all A ((now, m) # ms) st = merge_all A ms (fst (merge A now m st))"

section \<open>What a store definition owes\<close>

locale store_keys =
  fixes A :: account_env and D :: store_def and rank :: "message \<Rightarrow> bytes" and absent :: "message \<Rightarrow> bytes set"
  assumes not_compact: "store_valid A D m \<Longrightarrow> \<not> sd_is_compact_state_type D m"
    and one_kind: "sd_is_add_type D m \<Longrightarrow> \<not> sd_is_remove_type D m"
    and kind: "store_valid A D m \<Longrightarrow> ucast (md_type (m_data m)) =
      (if sd_is_add_type D m then sd_add_message_type D else sd_remove_message_type D)"
    and primary: "store_valid A D m \<Longrightarrow> message_primary_key m = Ok (m_pkey D m)"
    and find_ok: "store_valid A D m \<Longrightarrow> sd_is_add_type D m \<Longrightarrow> sd_find_merge_add_conflicts D db m = Ok ()"
      "store_valid A D m \<Longrightarrow> \<not> sd_is_add_type D m \<Longrightarrow> sd_find_merge_remove_conflicts D db m = Ok ()"
    and slot_fid: "store_valid A D m \<Longrightarrow> store_valid A D m' \<Longrightarrow> m_akey D m = m_akey D m' \<Longrightarrow> m_fid m = m_fid m'"
    and slot_remove: "store_valid A D m \<Longrightarrow> store_valid A D m' \<Longrightarrow> sd_remove_type_supported D \<Longrightarrow>
      m_rkey D m = m_rkey D m' \<longleftrightarrow> m_akey D m = m_akey D m'"
    and add_not_primary: "store_valid A D m \<Longrightarrow> store_valid A D m' \<Longrightarrow> m_akey D m \<noteq> m_pkey D m'"
    and remove_not_primary:
      "store_valid A D m \<Longrightarrow> store_valid A D m' \<Longrightarrow> sd_remove_type_supported D \<Longrightarrow> m_rkey D m \<noteq> m_pkey D m'"
    and add_not_remove:
      "store_valid A D m \<Longrightarrow> store_valid A D m' \<Longrightarrow> sd_remove_type_supported D \<Longrightarrow> m_akey D m \<noteq> m_rkey D m'"
    and absent_fresh: "store_valid A D m \<Longrightarrow> store_valid A D m' \<Longrightarrow> k \<in> absent m \<Longrightarrow>
      k \<noteq> m_akey D m' \<and> k \<noteq> m_pkey D m' \<and> (sd_remove_type_supported D \<longrightarrow> k \<noteq> m_rkey D m')"
    and compact_absent: "store_valid A D m \<Longrightarrow> compact_state_type_supported D \<Longrightarrow>
      \<exists>k \<in> absent m. sd_make_compact_state_add_key D m = Ok k"
    and user_keys: "store_valid A D m \<Longrightarrow> k \<in> tracked D m \<union> absent m \<Longrightarrow> \<exists>k'. k = root_prefix_u8 User # k'"
    and compare: "store_valid A D m \<Longrightarrow> store_valid A D m' \<Longrightarrow>
      sd_message_compare D (ucast (md_type (m_data m))) (m_tsh m) (ucast (md_type (m_data m'))) (m_tsh m') =
        Ok (if rank m < rank m' then - 1 else if rank m = rank m' then 0 else 1)"
    and rank_tsh: "store_valid A D m \<Longrightarrow> store_valid A D m' \<Longrightarrow> rank m = rank m' \<Longrightarrow> m_tsh m = m_tsh m'"
    and build: "store_valid A D m \<Longrightarrow> sd_is_add_type D m \<Longrightarrow> hm_wf txn \<Longrightarrow>
      \<exists>txn'. sd_build_secondary_indices D txn (m_tsh m) m = Ok txn' \<and> hm_wf txn' \<and>
        (\<forall>g m' k. store_valid A D m' \<longrightarrow> k \<in> tracked D m' \<union> absent m' \<longrightarrow> overlay g txn' k = overlay g txn k)"
    and delete_index: "store_valid A D m \<Longrightarrow> sd_is_add_type D m \<Longrightarrow> hm_wf txn \<Longrightarrow>
      \<exists>txn'. sd_delete_secondary_indices D txn (m_tsh m) m = Ok txn' \<and> hm_wf txn' \<and>
        (\<forall>g m' k. store_valid A D m' \<longrightarrow> k \<in> tracked D m' - {m_akey D m} \<longrightarrow>
           overlay g txn' k = overlay g txn k) \<and>
        (\<forall>g m' k. store_valid A D m' \<longrightarrow> k \<in> absent m' \<longrightarrow> overlay g txn k = None \<longrightarrow> overlay g txn' k = None)"
    and delete_remove_index: "store_valid A D m \<Longrightarrow> \<not> sd_is_add_type D m \<Longrightarrow> hm_wf txn \<Longrightarrow>
      \<exists>txn'. sd_delete_remove_secondary_indices D txn m = Ok txn' \<and> hm_wf txn' \<and>
        (\<forall>g m' k. store_valid A D m' \<longrightarrow> k \<in> tracked D m' - {m_rkey D m} \<longrightarrow>
           overlay g txn' k = overlay g txn k) \<and>
        (\<forall>g m' k. store_valid A D m' \<longrightarrow> k \<in> absent m' \<longrightarrow> overlay g txn k = None \<longrightarrow> overlay g txn' k = None)"
begin

lemma same_message:
  assumes "universe A D U" "m \<in> U" "w \<in> U" "m_akey D m = m_akey D w"
  shows "rank m = rank w \<longleftrightarrow> m = w"
proof
  assume r: "rank m = rank w"
  from assms have v: "store_valid A D m" "store_valid A D w" by (auto simp: universe_def)
  have "m_pkey D m = m_pkey D w"
    using slot_fid [OF v assms(4)] rank_tsh [OF v r] by (simp add: m_pkey_def)
  with assms show "m = w" by (simp add: primary_inj)
qed simp

lemma conflict_with_live:
  assumes rep: "store_rep A D absent U db M" and m: "m \<in> U" and w: "M (m_akey D m) = Some w"
    and k: "t = (if sd_is_add_type D w then sd_add_message_type D else sd_remove_message_type D)"
  shows "conflict_with A D db m (m_tsh m) t msg (m_tsh w) =
    (if rank m < rank w then Err (hub_err ''bad_request.conflict'' msg)
     else if rank w = rank m then Err already_merged else Ok [w])"
proof -
  from rep_live [OF rep w] have wU: "w \<in> U" "m_akey D w = m_akey D m" by auto
  note v = rep_valid [OF rep m] rep_valid [OF rep wU(1)]
  have "sd_message_compare D t (m_tsh w) (ucast (md_type (m_data m))) (m_tsh m) =
    Ok (if rank w < rank m then - 1 else if rank w = rank m then 0 else 1)"
    using compare [OF v(2) v(1)] kind [OF v(2)] k by simp
  moreover have "get_message A db (ucast (md_fid (m_data m))) (sd_postfix D) (m_tsh w) = Ok (Some w)"
    using get_live [OF rep w] slot_fid [OF v(2) v(1) wU(2)] by (simp add: m_fid_def)
  ultimately show ?thesis
    using v by (auto simp: conflict_with_def valid_tsh vec_to_u8_24_def already_merged_def)
qed

lemma default_conflicts:
  assumes rep: "store_rep A D absent U db M" and m: "m \<in> U"
  shows "get_default_merge_conflicts A D db m (m_tsh m) =
    (case M (m_akey D m) of
       None \<Rightarrow> Ok []
     | Some w \<Rightarrow>
         if rank m < rank w then Err (more_recent D w)
         else if rank w = rank m then Err already_merged else Ok [w])"
proof -
  note v = rep_valid [OF rep m] and h = rep_healthy [OF rep]
  have f: "(if sd_is_add_type D m then sd_find_merge_add_conflicts D db m else sd_find_merge_remove_conflicts D db m) = Ok ()"
    using find_ok [OF v] by simp
  show ?thesis
  proof (cases "M (m_akey D m)")
    case None
    then show ?thesis using v h f rep_view [OF rep m]
      by (simp add: get_default_merge_conflicts_def conflict_at_def valid_keys live_add_def live_remove_def)
  next
    case (Some w)
    from rep_live [OF rep Some] have "w \<in> U" by simp
    then have vw: "store_valid A D w" by (rule rep_valid [OF rep])
    note c = conflict_with_live [OF rep m Some]
    show ?thesis
    proof (cases "sd_is_add_type D w")
      case True
      with Some v h f rep_view [OF rep m] show ?thesis
        by (simp add: get_default_merge_conflicts_def conflict_at_def valid_keys live_add_def live_remove_def c
            more_recent_def)
    next
      case False
      with Some v h f rep_view [OF rep m] valid_remove [OF vw] show ?thesis
        by (simp add: get_default_merge_conflicts_def conflict_at_def valid_keys live_add_def live_remove_def c
            more_recent_def)
    qed
  qed
qed

text \<open>Deleting a message empties its primary key and its index key, and nothing else of the tracked keys.\<close>

lemma delete_one_ok:
  assumes w: "store_valid A D w" and wf: "hm_wf txn"
  shows "\<exists>txn'. delete_one D txn w = Ok txn' \<and> hm_wf txn' \<and>
    (\<forall>g m k. store_valid A D m \<longrightarrow> k \<in> tracked D m \<longrightarrow>
       overlay g txn' k = (if k = slot_key D w \<or> k = m_pkey D w then None else overlay g txn k)) \<and>
    (\<forall>g m k. store_valid A D m \<longrightarrow> k \<in> absent m \<longrightarrow> overlay g txn k = None \<longrightarrow> overlay g txn' k = None)"
proof (cases "sd_is_add_type D w")
  case True
  obtain txn1 where t: "sd_delete_secondary_indices D txn (m_tsh w) w = Ok txn1" "hm_wf txn1"
    "\<And>g m k. store_valid A D m \<Longrightarrow> k \<in> tracked D m - {m_akey D w} \<Longrightarrow> overlay g txn1 k = overlay g txn k"
    "\<And>g m k. store_valid A D m \<Longrightarrow> k \<in> absent m \<Longrightarrow> overlay g txn k = None \<Longrightarrow> overlay g txn1 k = None"
    using delete_index [OF w True wf] by blast
  then have "delete_one D txn w = Ok (txn_delete (txn_delete txn1 (m_akey D w)) (m_pkey D w))"
    using True one_kind [OF True] not_compact [OF w] w primary [OF w]
    by (simp add: delete_one_def delete_add_transaction_def delete_message_transaction_def valid_ts_hash valid_keys)
  with t True show ?thesis by (auto simp: slot_key_def)
next
  case False
  note r = valid_remove [OF w False]
  obtain txn1 where t: "sd_delete_remove_secondary_indices D txn w = Ok txn1" "hm_wf txn1"
    "\<And>g m k. store_valid A D m \<Longrightarrow> k \<in> tracked D m - {m_rkey D w} \<Longrightarrow> overlay g txn1 k = overlay g txn k"
    "\<And>g m k. store_valid A D m \<Longrightarrow> k \<in> absent m \<Longrightarrow> overlay g txn k = None \<Longrightarrow> overlay g txn1 k = None"
    using delete_remove_index [OF w False wf] by blast
  then have "delete_one D txn w = Ok (txn_delete (txn_delete txn1 (m_rkey D w)) (m_pkey D w))"
    using False r not_compact [OF w] w primary [OF w]
    by (simp add: delete_one_def delete_remove_transaction_def delete_message_transaction_def valid_keys)
  with t False show ?thesis by (auto simp: slot_key_def)
qed

lemma delete_many_ok:
  assumes w: "store_valid A D w" and ws: "set ws = {w}" and wf: "hm_wf txn"
  shows "\<exists>txn'. delete_many_transaction D txn ws = Ok txn' \<and> hm_wf txn' \<and>
    (\<forall>g m k. store_valid A D m \<longrightarrow> k \<in> tracked D m \<longrightarrow>
       overlay g txn' k = (if k = slot_key D w \<or> k = m_pkey D w then None else overlay g txn k)) \<and>
    (\<forall>g m k. store_valid A D m \<longrightarrow> k \<in> absent m \<longrightarrow> overlay g txn k = None \<longrightarrow> overlay g txn' k = None)"
  using ws wf
proof (induction ws arbitrary: txn)
  case (Cons x ws)
  then have x: "x = w" by auto
  obtain txn1 where t: "delete_one D txn w = Ok txn1" "hm_wf txn1"
    "\<And>g m k. store_valid A D m \<Longrightarrow> k \<in> tracked D m \<Longrightarrow>
       overlay g txn1 k = (if k = slot_key D w \<or> k = m_pkey D w then None else overlay g txn k)"
    "\<And>g m k. store_valid A D m \<Longrightarrow> k \<in> absent m \<Longrightarrow> overlay g txn k = None \<Longrightarrow> overlay g txn1 k = None"
    using delete_one_ok [OF w Cons.prems(2)] by blast
  show ?case
  proof (cases ws)
    case Nil
    with t x show ?thesis by auto
  next
    case (Cons y ys)
    with Cons.prems(1) have "set ws = {w}" by auto
    from Cons.IH [OF this t(2)] obtain txn2 where u: "delete_many_transaction D txn1 ws = Ok txn2" "hm_wf txn2"
      "\<And>g m k. store_valid A D m \<Longrightarrow> k \<in> tracked D m \<Longrightarrow>
         overlay g txn2 k = (if k = slot_key D w \<or> k = m_pkey D w then None else overlay g txn1 k)"
      "\<And>g m k. store_valid A D m \<Longrightarrow> k \<in> absent m \<Longrightarrow> overlay g txn1 k = None \<Longrightarrow> overlay g txn2 k = None"
      by blast
    with t x show ?thesis by auto
  qed
qed simp

text \<open>Putting a message fills the same two keys.\<close>

lemma put_ok:
  assumes m: "store_valid A D m" and wf: "hm_wf txn"
  shows "\<exists>txn'. put_transaction A D txn m = Ok txn' \<and> hm_wf txn' \<and>
    (\<forall>g m' k. store_valid A D m' \<longrightarrow> k \<in> tracked D m' \<union> absent m' \<longrightarrow>
       overlay g txn' k =
         (if k = slot_key D m then Some (m_tsh m)
          else if k = m_pkey D m then Some (message_encode A m) else overlay g txn k))"
proof (cases "sd_is_add_type D m")
  case True
  let ?t = "txn_put (txn_put txn (m_pkey D m) (message_encode A m)) (m_akey D m) (m_tsh m)"
  have "hm_wf ?t" using wf by simp
  from build [OF m True this] obtain txn' where t: "sd_build_secondary_indices D ?t (m_tsh m) m = Ok txn'"
    "hm_wf txn'" "\<And>g m' k. store_valid A D m' \<Longrightarrow> k \<in> tracked D m' \<union> absent m' \<Longrightarrow> overlay g txn' k = overlay g ?t k"
    by blast
  have "put_transaction A D txn m = Ok txn'"
    using True t(1) m primary [OF m]
    by (simp add: put_transaction_def put_add_transaction_def put_message_transaction_def valid_keys)
  moreover have "overlay g txn' k =
      (if k = slot_key D m then Some (m_tsh m)
       else if k = m_pkey D m then Some (message_encode A m) else overlay g txn k)"
    if "store_valid A D m'" "k \<in> tracked D m' \<union> absent m'" for g m' k
    using t(3) [OF that] True by (simp add: slot_key_def)
  ultimately show ?thesis using t(2) by blast
next
  case False
  note r = valid_remove [OF m False]
  have "put_transaction A D txn m = Ok (txn_put (txn_put txn (m_pkey D m) (message_encode A m)) (m_rkey D m) (m_tsh m))"
    using False r m primary [OF m]
    by (simp add: put_transaction_def put_remove_transaction_def put_message_transaction_def valid_keys)
  with wf False show ?thesis by (simp add: slot_key_def)
qed

lemma absent_untouched:
  assumes "store_valid A D m" "store_valid A D w" "k \<in> absent m"
  shows "k \<noteq> slot_key D w \<and> k \<noteq> m_pkey D w"
  using absent_fresh [OF assms] valid_remove [OF assms(2)] by (auto simp: slot_key_def)

lemma key_facts:
  assumes "store_valid A D x" "store_valid A D y"
  shows "slot_key D x \<noteq> m_pkey D y"
    "m_akey D x = slot_key D y \<longleftrightarrow> sd_is_add_type D y \<and> m_akey D x = m_akey D y"
    "sd_remove_type_supported D \<Longrightarrow> m_rkey D x = slot_key D y \<longleftrightarrow> \<not> sd_is_add_type D y \<and> m_akey D x = m_akey D y"
  using assms add_not_primary remove_not_primary add_not_remove slot_remove valid_remove
  by (metis slot_key_def)+

lemma tracked_mem:
  "m_akey D m \<in> tracked D m" "m_pkey D m \<in> tracked D m" "sd_remove_type_supported D \<Longrightarrow> m_rkey D m \<in> tracked D m"
  by (simp_all add: tracked_def)

text \<open>The view after the deletions and the insertion of a merge represents the updated slots.\<close>

lemma view_rep_update:
  assumes U: "universe A D U" and rep: "view_rep A D absent U g M" and m: "m \<in> U"
    and own: "\<And>m' k. m' \<in> U \<Longrightarrow> k \<in> tracked D m' \<Longrightarrow> g' k =
      (if k = slot_key D m then Some (m_tsh m) else if k = m_pkey D m then Some (message_encode A m)
       else case M (m_akey D m) of
         Some w \<Rightarrow> if k = slot_key D w \<or> k = m_pkey D w then None else g k
       | None \<Rightarrow> g k)"
    and absent: "\<And>m' k. m' \<in> U \<Longrightarrow> k \<in> absent m' \<Longrightarrow> g' k = None"
  shows "view_rep A D absent U g' (M(m_akey D m \<mapsto> m))"
proof -
  have valid: "store_valid A D x" if "x \<in> U" for x using U that by (simp add: universe_def)
  note vm = valid [OF m]
  have live: "w \<in> U \<and> m_akey D w = s" if "M s = Some w" for s w using rep that by (simp add: view_rep_def)
  have old: "g (m_akey D x) = live_add D (M (m_akey D x))"
    "sd_remove_type_supported D \<Longrightarrow> g (m_rkey D x) = live_remove D (M (m_akey D x))"
    "g (m_pkey D x) = (if M (m_akey D x) = Some x then Some (message_encode A x) else None)" if "x \<in> U" for x
    using rep that by (simp_all add: view_rep_def)
  note slot = key_facts(1) [OF valid valid] and a = key_facts(2) [OF valid valid] and r = key_facts(3) [OF valid valid]
    and p = primary_inj [OF U] and ap = add_not_primary [OF valid valid] remove_not_primary [OF valid valid]
  let ?M = "M(m_akey D m \<mapsto> m)"
  have "g' (m_akey D x) = live_add D (?M (m_akey D x))" if x: "x \<in> U" for x
    using own [OF x tracked_mem(1)] old(1) [OF x] x m live a [OF x] ap(1) [OF x]
    by (auto simp: live_add_def split: option.splits)
  moreover have "g' (m_rkey D x) = live_remove D (?M (m_akey D x))"
    if x: "x \<in> U" and s: "sd_remove_type_supported D" for x
    using own [OF x tracked_mem(3) [OF s]] old(2) [OF x s] x m live r [OF x _ s] ap(2) [OF x _ s]
    by (auto simp: live_remove_def split: option.splits)
  moreover have "g' (m_pkey D x) = (if ?M (m_akey D x) = Some x then Some (message_encode A x) else None)"
    if x: "x \<in> U" for x
  proof (cases "M (m_akey D m)")
    case None
    with own [OF x tracked_mem(2)] old(3) [OF x] p [OF x m] slot [OF m x] show ?thesis by auto
  next
    case (Some w)
    with live have w: "w \<in> U" "m_akey D w = m_akey D m" by auto
    with Some own [OF x tracked_mem(2)] old(3) [OF x] p [OF x m] p [OF x w(1)] slot [OF m x] slot [OF w(1) x]
    show ?thesis by auto
  qed
  ultimately show ?thesis using absent live m by (auto simp: view_rep_def)
qed

lemma view_rep_delete:
  assumes U: "universe A D U" and rep: "view_rep A D absent U g M" and w: "M s = Some w"
    and own: "\<And>m' k. m' \<in> U \<Longrightarrow> k \<in> tracked D m' \<Longrightarrow> g' k =
      (if k = slot_key D w \<or> k = m_pkey D w then None else g k)"
    and absent: "\<And>m' k. m' \<in> U \<Longrightarrow> k \<in> absent m' \<Longrightarrow> g' k = None"
  shows "view_rep A D absent U g' (M(s := None))"
proof -
  have valid: "store_valid A D x" if "x \<in> U" for x using U that by (simp add: universe_def)
  have live: "x \<in> U \<and> m_akey D x = t" if "M t = Some x" for t x using rep that by (simp add: view_rep_def)
  from live [OF w] have wU: "w \<in> U" "m_akey D w = s" by auto
  have keys: "g' (m_akey D x) = live_add D ((M(s := None)) (m_akey D x))"
    "sd_remove_type_supported D \<Longrightarrow> g' (m_rkey D x) = live_remove D ((M(s := None)) (m_akey D x))"
    "g' (m_pkey D x) = (if (M(s := None)) (m_akey D x) = Some x then Some (message_encode A x) else None)"
    if x: "x \<in> U" for x
  proof -
    note f = key_facts [OF valid valid, OF x wU(1)] and o = own [OF x]
    have old: "g (m_akey D x) = live_add D (M (m_akey D x))"
      "sd_remove_type_supported D \<Longrightarrow> g (m_rkey D x) = live_remove D (M (m_akey D x))"
      "g (m_pkey D x) = (if M (m_akey D x) = Some x then Some (message_encode A x) else None)"
      using rep x by (simp_all add: view_rep_def)
    show "g' (m_akey D x) = live_add D ((M(s := None)) (m_akey D x))"
      using o [OF tracked_mem(1)] old(1) f(2) add_not_primary [OF valid valid, OF x wU(1)] w wU
      by (auto simp: live_add_def)
    show "g' (m_pkey D x) = (if (M(s := None)) (m_akey D x) = Some x then Some (message_encode A x) else None)"
      using o [OF tracked_mem(2)] old(3) primary_inj [OF U x wU(1)] key_facts(1) [OF valid valid, OF wU(1) x] w wU
      by auto
    assume r: "sd_remove_type_supported D"
    show "g' (m_rkey D x) = live_remove D ((M(s := None)) (m_akey D x))"
      using o [OF tracked_mem(3) [OF r]] old(2) [OF r] f(3) [OF r] remove_not_primary [OF valid valid r, OF x wU(1)] w wU
      by (auto simp: live_remove_def)
  qed
  from keys absent live show ?thesis by (auto simp: view_rep_def)
qed

lemma event_key_free:
  assumes "store_valid A D m" "k \<in> tracked D m \<union> absent m"
  shows "k \<noteq> make_event_key i"
  using user_keys [OF assms] by (auto simp: make_event_key_def)

lemma compact_ok:
  assumes rep: "store_rep A D absent U (ast_db st) M" and m: "m \<in> U" and D: "ast_def st = D"
  shows "check_add_compact A st m = Ok ()" "check_remove_compact A st m = Ok ()"
proof -
  note v = rep_valid [OF rep m]
  have "stored_compact_state A st m = Ok None" if c: "compact_state_type_supported D"
  proof -
    from compact_absent [OF v c] obtain k where "k \<in> absent m" "sd_make_compact_state_add_key D m = Ok k" by blast
    with rep_view(4) [OF rep m] rep_healthy [OF rep] D show ?thesis by (simp add: stored_compact_state_def)
  qed
  with D show "check_add_compact A st m = Ok ()" "check_remove_compact A st m = Ok ()"
    by (simp_all add: check_add_compact_def check_remove_compact_def)
qed

lemma get_add_live:
  assumes rep: "store_rep A D absent U (ast_db st) M" and m: "m \<in> U" and D: "ast_def st = D"
    and p: "msg_data p = Some d" "md_fid d \<noteq> 0" "ucast (md_fid d) = m_fid m" "sd_make_add_key D p = Ok (m_akey D m)"
  shows "get_add A st p =
    Ok (case M (m_akey D m) of Some w \<Rightarrow> if sd_is_add_type D w then Some w else None | None \<Rightarrow> None)"
proof (cases "M (m_akey D m)")
  case (Some w)
  from rep_live [OF rep Some] have w: "w \<in> U" "m_akey D w = m_akey D m" by auto
  note v = rep_valid [OF rep w(1)] rep_valid [OF rep m]
  from Some D p get_live [OF rep Some] rep_healthy [OF rep] rep_view(1) [OF rep m] slot_fid [OF v w(2)] v show ?thesis
    by (auto simp: get_add_def fid_required_def get_by_index_key_def live_add_def vec_to_u8_24_def valid_tsh)
qed (use D p rep_healthy [OF rep] rep_view(1) [OF rep m] in
    \<open>simp add: get_add_def fid_required_def get_by_index_key_def live_add_def\<close>)

lemma get_remove_live:
  assumes rep: "store_rep A D absent U (ast_db st) M" and m: "m \<in> U" and D: "ast_def st = D"
    and r: "sd_remove_type_supported D"
    and p: "msg_data p = Some d" "md_fid d \<noteq> 0" "ucast (md_fid d) = m_fid m" "sd_make_remove_key D p = Ok (m_rkey D m)"
  shows "get_remove A st p =
    Ok (case M (m_akey D m) of Some w \<Rightarrow> if sd_is_add_type D w then None else Some w | None \<Rightarrow> None)"
proof (cases "M (m_akey D m)")
  case (Some w)
  from rep_live [OF rep Some] have w: "w \<in> U" "m_akey D w = m_akey D m" by auto
  note v = rep_valid [OF rep w(1)] rep_valid [OF rep m]
  from Some D p r get_live [OF rep Some] rep_healthy [OF rep] rep_view(2) [OF rep m r] slot_fid [OF v w(2)] v
  show ?thesis
    by (auto simp: get_remove_def fid_required_def get_by_index_key_def live_remove_def vec_to_u8_24_def valid_tsh)
qed (use D p r rep_healthy [OF rep] rep_view(2) [OF rep m r] in
    \<open>simp add: get_remove_def fid_required_def get_by_index_key_def live_remove_def\<close>)

text \<open>The last writer wins in whatever order, and once is enough.\<close>

lemma lww_commute:
  assumes "universe A D U" "m \<in> U" "w \<in> U"
  shows "lww D rank m (lww D rank w M) = lww D rank w (lww D rank m M)"
proof (cases "m_akey D m = m_akey D w")
  case True
  with same_message [OF assms True] show ?thesis by (auto simp: lww_def fun_eq_iff split: option.splits)
qed (auto simp: lww_def fun_eq_iff split: option.splits)

lemma lww_idem: "lww D rank m (lww D rank m M) = lww D rank m M"
  by (auto simp: lww_def split: option.splits)

lemma lww_fold_set:
  assumes "universe A D U" "set ms = set ms'" "set ms \<subseteq> U"
  shows "fold (lww D rank) ms M = fold (lww D rank) ms' M"
proof -
  have c: "comp_fun_idem_on U (lww D rank)"
    using lww_commute [OF assms(1)] lww_idem by unfold_locales (auto simp: fun_eq_iff)
  show ?thesis
    using comp_fun_idem_on.fold_set_fold [OF c, of ms M] comp_fun_idem_on.fold_set_fold [OF c, of ms' M] assms by simp
qed

end

section \<open>Merging is last-writer-wins\<close>

definition merge_outcome ::
  "account_env \<Rightarrow> store_def \<Rightarrow> (message \<Rightarrow> bytes) \<Rightarrow> message \<Rightarrow> u64 \<Rightarrow> message option \<Rightarrow>
     (hub_error, bytes) result \<Rightarrow> bool" where
  "merge_outcome A D rank m i live r \<longleftrightarrow>
     (case live of
        None \<Rightarrow> r = Ok (ae_event_encode A ((sd_merge_event_args D m [])\<lparr>ev_id := i\<rparr>))
      | Some w \<Rightarrow>
          if rank m < rank w then r = Err (more_recent D w)
          else if rank w = rank m then r = Err already_merged
          else \<exists>ws. set ws = {w} \<and> r = Ok (ae_event_encode A ((sd_merge_event_args D m ws)\<lparr>ev_id := i\<rparr>)))"

locale message_store = store_keys +
  assumes conflicts: "store_rep A D absent U db M \<Longrightarrow> m \<in> U \<Longrightarrow>
    (case M (m_akey D m) of
       None \<Rightarrow> get_merge_conflicts A D db m (m_tsh m) = Ok []
     | Some w \<Rightarrow>
         if rank m < rank w then get_merge_conflicts A D db m (m_tsh m) = Err (more_recent D w)
         else if rank w = rank m then get_merge_conflicts A D db m (m_tsh m) = Err already_merged
         else \<exists>ws. set ws = {w} \<and> get_merge_conflicts A D db m (m_tsh m) = Ok ws)"
begin

lemma merge_eq:
  assumes rep: "store_rep A D absent U (ast_db st) M" and m: "m \<in> U" and D: "ast_def st = D"
  shows "merge A now m st =
    with_txn A now st
      (bind_result (get_merge_conflicts A D (ast_db st) m (m_tsh m)) (\<lambda>ws.
       bind_result (delete_many_transaction D txn_new ws) (\<lambda>txn1.
       bind_result (put_transaction A D txn1 m) (\<lambda>txn2. Ok (txn2, sd_merge_event_args D m ws)))))"
proof -
  note v = rep_valid [OF rep m]
  from v have "sd_is_add_type D m \<or> sd_remove_type_supported D \<and> sd_is_remove_type D m"
    by (simp add: store_valid_def)
  with v D not_compact [OF v] compact_ok [OF rep m D] show ?thesis
    by (auto simp: merge_def Let_def valid_tsh merge_add_def merge_remove_def put_transaction_def rocksdb_txn_def)
qed

lemma delete_conflicts_ok:
  assumes rep: "store_rep A D absent U (ast_db st) M"
    and ws: "set ws = (case M (m_akey D m) of None \<Rightarrow> {} | Some w \<Rightarrow> {w})"
  shows "\<exists>txn1. delete_many_transaction D txn_new ws = Ok txn1 \<and> hm_wf txn1 \<and>
    (\<forall>x k. x \<in> U \<longrightarrow> k \<in> tracked D x \<longrightarrow> overlay (db_view (ast_db st)) txn1 k =
       (case M (m_akey D m) of
          Some w \<Rightarrow> if k = slot_key D w \<or> k = m_pkey D w then None else db_view (ast_db st) k
        | None \<Rightarrow> db_view (ast_db st) k)) \<and>
    (\<forall>x k. x \<in> U \<longrightarrow> k \<in> absent x \<longrightarrow> overlay (db_view (ast_db st)) txn1 k = None)"
proof (cases "M (m_akey D m)")
  case None
  with ws rep_view(4) [OF rep] show ?thesis by (intro exI [of _ txn_new]) simp
next
  case (Some w)
  note v = rep_valid [OF rep]
  from Some rep_live [OF rep] have "w \<in> U" by blast
  from delete_many_ok [OF v [OF this], of ws txn_new] Some ws obtain txn1 where d:
    "delete_many_transaction D txn_new ws = Ok txn1" "hm_wf txn1"
    "\<And>g x k. store_valid A D x \<Longrightarrow> k \<in> tracked D x \<Longrightarrow>
       overlay g txn1 k = (if k = slot_key D w \<or> k = m_pkey D w then None else g k)"
    "\<And>g x k. store_valid A D x \<Longrightarrow> k \<in> absent x \<Longrightarrow> g k = None \<Longrightarrow> overlay g txn1 k = None"
    by auto
  have "overlay (db_view (ast_db st)) txn1 k = None" if "x \<in> U" "k \<in> absent x" for x k
    using d(4) [OF v [OF that(1)] that(2)] rep_view(4) [OF rep that] .
  with Some d(1,2) d(3) [OF v] show ?thesis by (intro exI [of _ txn1]) simp
qed

lemma merge_write_ok:
  assumes rep: "store_rep A D absent U (ast_db st) M" and m: "m \<in> U"
    and id: "generate_id now None (ast_gen st) = (gen, Ok i)"
    and ws: "set ws = (case M (m_akey D m) of None \<Rightarrow> {} | Some w \<Rightarrow> {w})"
  shows "\<exists>st'. with_txn A now st
      (bind_result (delete_many_transaction D txn_new ws) (\<lambda>txn1.
       bind_result (put_transaction A D txn1 m) (\<lambda>txn2. Ok (txn2, ev)))) =
      (st', Ok (ae_event_encode A (ev\<lparr>ev_id := i\<rparr>))) \<and> ast_def st' = ast_def st \<and> ast_gen st' = gen \<and>
    store_rep A D absent U (ast_db st') (M(m_akey D m \<mapsto> m))"
proof -
  let ?g = "db_view (ast_db st)"
  note v = rep_valid [OF rep] and h = rep_healthy [OF rep]
  from delete_conflicts_ok [OF rep ws] obtain txn1 where t1: "delete_many_transaction D txn_new ws = Ok txn1" "hm_wf txn1"
    "\<And>x k. x \<in> U \<Longrightarrow> k \<in> tracked D x \<Longrightarrow> overlay ?g txn1 k =
       (case M (m_akey D m) of Some w \<Rightarrow> if k = slot_key D w \<or> k = m_pkey D w then None else ?g k | None \<Rightarrow> ?g k)"
    "\<And>x k. x \<in> U \<Longrightarrow> k \<in> absent x \<Longrightarrow> overlay ?g txn1 k = None" by blast
  from put_ok [OF v [OF m] t1(2)] obtain txn2 where t2: "put_transaction A D txn1 m = Ok txn2" "hm_wf txn2"
    "\<And>x k. x \<in> U \<Longrightarrow> k \<in> tracked D x \<union> absent x \<Longrightarrow> overlay ?g txn2 k =
       (if k = slot_key D m then Some (m_tsh m)
        else if k = m_pkey D m then Some (message_encode A m) else overlay ?g txn1 k)"
    using v by blast
  from commit_event_ok [OF h t2(2) id, of A ev] obtain db y where c:
    "commit_event A now st txn2 ev = (st\<lparr>ast_gen := gen, ast_db := db\<rparr>, Ok (ae_event_encode A (ev\<lparr>ev_id := i\<rparr>)))"
    "db_healthy db" "db_view db = (overlay ?g txn2)(make_event_key i \<mapsto> y)" by blast
  have "view_rep A D absent U (db_view db) (M(m_akey D m \<mapsto> m))"
  proof (rule view_rep_update)
    show "universe A D U" "view_rep A D absent U ?g M" using rep by (simp_all add: store_rep_def)
    fix x k assume x: "x \<in> U"
    show "db_view db k = None" if k: "k \<in> absent x"
      using event_key_free [OF v [OF x], of k i] k c(3) t2(3) [OF x, of k] t1(4) [OF x k]
        absent_untouched [OF v [OF x] v [OF m] k] by simp
    show "db_view db k =
      (if k = slot_key D m then Some (m_tsh m) else if k = m_pkey D m then Some (message_encode A m)
       else case M (m_akey D m) of
         Some w \<Rightarrow> if k = slot_key D w \<or> k = m_pkey D w then None else ?g k
       | None \<Rightarrow> ?g k)" if k: "k \<in> tracked D x"
      using event_key_free [OF v [OF x], of k i] k c(3) t2(3) [OF x, of k] t1(3) [OF x k] by simp
  qed (rule m)
  with rep c t1(1) t2(1) show ?thesis by (simp add: with_txn_def store_rep_def)
qed

theorem merge_refines_lww:
  assumes rep: "store_rep A D absent U (ast_db st) M" and m: "m \<in> U" and D: "ast_def st = D"
    and id: "generate_id now None (ast_gen st) = (gen, Ok i)"
  shows "\<exists>st' r. merge A now m st = (st', r) \<and> ast_def st' = D \<and> (ast_gen st' = ast_gen st \<or> ast_gen st' = gen) \<and>
    store_rep A D absent U (ast_db st') (lww D rank m M) \<and> merge_outcome A D rank m i (M (m_akey D m)) r"
proof -
  note c = conflicts [OF rep m] and e = merge_eq [OF rep m D, of now] and ok = merge_write_ok [OF rep m id]
  show ?thesis
  proof (cases "M (m_akey D m)")
    case None
    with c e D ok [of "[]" "sd_merge_event_args D m []"] show ?thesis by (auto simp: lww_def merge_outcome_def)
  next
    case (Some w)
    consider "rank m < rank w" | "rank w = rank m" | "rank w < rank m" by (rule linorder_cases)
    then show ?thesis
    proof cases
      case 3
      then have n: "\<not> rank m < rank w" "rank w \<noteq> rank m" by auto
      with c Some obtain ws where ws: "set ws = {w}" "get_merge_conflicts A D (ast_db st) m (m_tsh m) = Ok ws" by auto
      with ok [of ws "sd_merge_event_args D m ws"] Some obtain st' where "merge A now m st =
          (st', Ok (ae_event_encode A ((sd_merge_event_args D m ws)\<lparr>ev_id := i\<rparr>)))" "ast_def st' = D" "ast_gen st' = gen"
        "store_rep A D absent U (ast_db st') (M(m_akey D m \<mapsto> m))" using e D by auto
      with 3 n Some ws show ?thesis by (auto simp: lww_def merge_outcome_def)
    qed (use c e D Some rep in \<open>auto simp: lww_def merge_outcome_def with_txn_def\<close>)
  qed
qed

lemma merge_all_rep:
  assumes "store_rep A D absent U (ast_db st) M" "ast_def st = D" "set (map snd ms) \<subseteq> U"
    "ids_available (ast_gen st) (map fst ms)"
  shows "store_rep A D absent U (ast_db (merge_all A ms st)) (fold (lww D rank) (map snd ms) M) \<and>
    ast_def (merge_all A ms st) = D"
  using assms
proof (induction ms arbitrary: st M)
  case (Cons e ms)
  obtain now m where e: "e = (now, m)" by fastforce
  with Cons.prems have m: "m \<in> U" and t: "ids_available (ast_gen st) (now # map fst ms)" by auto
  from merge_refines_lww [OF Cons.prems(1) m Cons.prems(2) ids_generate(1) [OF t]] obtain st' r where
    s: "merge A now m st = (st', r)" "ast_def st' = D" "store_rep A D absent U (ast_db st') (lww D rank m M)"
      "ast_gen st' = ast_gen st \<or> ast_gen st' = tick (ast_gen st) now" by blast
  with ids_next [OF t] have "ids_available (ast_gen st') (map fst ms)" by auto
  with Cons.IH [OF s(3) s(2)] Cons.prems(3) e s(1) show ?case by simp
qed simp

lemma converge:
  assumes rep: "store_rep A D absent U (ast_db st) M" "store_rep A D absent U (ast_db st') M"
    and D: "ast_def st = D" "ast_def st' = D" and U: "set (map snd ms) \<subseteq> U"
    and same: "set (map snd ms) = set (map snd ms')"
    and t: "ids_available (ast_gen st) (map fst ms)" "ids_available (ast_gen st') (map fst ms')"
    and k: "m \<in> U" "k \<in> tracked D m"
  shows "db_view (ast_db (merge_all A ms st)) k = db_view (ast_db (merge_all A ms' st')) k"
proof -
  have "fold (lww D rank) (map snd ms) M = fold (lww D rank) (map snd ms') M"
    using rep(1) same U by (intro lww_fold_set) (simp_all add: store_rep_def)
  with merge_all_rep [OF rep(1) D(1) U t(1)] merge_all_rep [OF rep(2) D(2) _ t(2)] U same k show ?thesis
    by (auto simp: store_rep_def intro: view_rep_unique)
qed

end

end
