(* ===== verification/Store_Prune.thy ===== *)
theory Store_Prune
  imports Store_Contract
begin

text \<open>
  Revoking and pruning, on top of the contract of a store: revoking a live message empties its
  slot, and pruning walks the messages of a fid in the order of their timestamps and empties their
  slots until the count is down to the limit.
\<close>

section \<open>Specification\<close>

text \<open>The slots after a list of messages is gone.\<close>

definition drop_slots :: "store_def \<Rightarrow> message list \<Rightarrow> (bytes \<Rightarrow> message option) \<Rightarrow> (bytes \<Rightarrow> message option)" where
  "drop_slots D ws M = fold (\<lambda>w M. M(m_akey D w := None)) ws M"

text \<open>How many messages a prune removes.\<close>

definition prune_excess :: "u64 \<Rightarrow> u64 \<Rightarrow> nat" where
  "prune_excess cnt limit = unat cnt - unat limit"

definition pruned_items :: "account_env \<Rightarrow> store_def \<Rightarrow> message list \<Rightarrow> kv" where
  "pruned_items A D ws = map (\<lambda>w. (m_pkey D w, message_encode A w)) ws"

definition prune_limit :: "store_def \<Rightarrow> u64 \<Rightarrow> u64" where
  "prune_limit D max_count = (if sd_prune_size_limit D > 0 then ucast (sd_prune_size_limit D) else max_count)"

text \<open>The prune events of a list of messages, whatever their ids.\<close>

definition prune_events_of :: "store_def \<Rightarrow> message list \<Rightarrow> hub_event list \<Rightarrow> bool" where
  "prune_events_of D ws es \<longleftrightarrow> list_all2 (\<lambda>w e. \<exists>i. e = (sd_prune_event_args D w)\<lparr>ev_id := i\<rparr>) ws es"

lemma drop_slots_simps [simp]:
  "drop_slots D [] M = M"
  "drop_slots D (w # ws) M = drop_slots D ws (M(m_akey D w := None))"
  by (simp_all add: drop_slots_def)

lemma drop_slots_eq: "drop_slots D ws M s = (if s \<in> m_akey D ` set ws then None else M s)"
  by (induction ws arbitrary: M) auto

lemma prune_excess_0: "prune_excess cnt limit = 0 \<longleftrightarrow> cnt \<le> limit"
  by (simp add: prune_excess_def word_le_nat_alt)

lemma prune_excess_Suc:
  assumes "limit < cnt"
  shows "prune_excess cnt limit = Suc (prune_excess (cnt - 1) limit)"
proof -
  have "unat (cnt - 1) = unat cnt - 1"
    using assms by (metis unat_minus_one word_not_simps(1))
  with assms show ?thesis by (simp add: prune_excess_def word_less_nat_alt)
qed

section \<open>The two operations\<close>

context store_keys
begin

lemma delete_batch_eq:
  assumes w: "store_valid A D w"
  shows "(if sd_is_compact_state_type D w then delete_compact_state_transaction D txn w
      else if sd_is_add_type D w then delete_add_transaction D txn (m_tsh w) w
      else if sd_remove_type_supported D \<and> sd_is_remove_type D w then delete_remove_transaction D txn w
      else other) = delete_one D txn w"
  using w not_compact [OF w] one_kind [of w] valid_remove [OF w]
  by (cases "sd_is_add_type D w"; cases "delete_add_transaction D txn (m_tsh w) w")
    (simp_all add: delete_one_def valid_ts_hash)

text \<open>One deletion, with the event that the batch carries next.\<close>

lemma delete_view_ok:
  assumes U: "universe A D U" and rep: "view_rep A D absent U (overlay g txn) M" and wf: "hm_wf txn"
    and w: "M s = Some w"
  shows "\<exists>txn'. delete_one D txn w = Ok txn' \<and> hm_wf txn' \<and>
    view_rep A D absent U (overlay g (txn_put txn' (make_event_key i) e)) (M(s := None))"
proof -
  have valid: "store_valid A D x" if "x \<in> U" for x using U that by (simp add: universe_def)
  from rep w have wU: "w \<in> U" by (simp add: view_rep_def)
  from delete_one_ok [OF valid [OF wU] wf] obtain txn' where t: "delete_one D txn w = Ok txn'" "hm_wf txn'"
    "\<And>m k. store_valid A D m \<Longrightarrow> k \<in> tracked D m \<Longrightarrow>
       overlay g txn' k = (if k = slot_key D w \<or> k = m_pkey D w then None else overlay g txn k)"
    "\<And>m k. store_valid A D m \<Longrightarrow> k \<in> absent m \<Longrightarrow> overlay g txn k = None \<Longrightarrow> overlay g txn' k = None"
    by blast
  have "view_rep A D absent U (overlay g (txn_put txn' (make_event_key i) e)) (M(s := None))"
  proof (rule view_rep_delete [OF U rep w])
    fix x k assume x: "x \<in> U"
    show "overlay g (txn_put txn' (make_event_key i) e) k =
        (if k = slot_key D w \<or> k = m_pkey D w then None else overlay g txn k)" if "k \<in> tracked D x"
      using t(3) [OF valid [OF x] that] event_key_free [OF valid [OF x], of k i] that by simp
    show "overlay g (txn_put txn' (make_event_key i) e) k = None" if "k \<in> absent x"
      using t(4) [OF valid [OF x] that] view_rep_keys(4) [where absent = absent, OF rep x that]
        event_key_free [OF valid [OF x], of k i] that by simp
  qed
  with t show ?thesis by blast
qed

lemma revoke_live:
  assumes rep: "store_rep A D absent U (ast_db st) M" and w: "M s = Some w" and D: "ast_def st = D"
    and id: "generate_id now None (ast_gen st) = (gen, Ok i)"
  shows "\<exists>st'. revoke A now w st = (st', Ok (ae_event_encode A ((sd_revoke_event_args D w)\<lparr>ev_id := i\<rparr>))) \<and>
    ast_def st' = D \<and> ast_gen st' = gen \<and> store_rep A D absent U (ast_db st') (M(s := None))"
proof -
  let ?g = "db_view (ast_db st)" and ?e = "sd_revoke_event_args D w"
  from rep_live [OF rep w] rep_valid [OF rep] have v: "store_valid A D w" by blast
  from rep have U: "universe A D U" "view_rep A D absent U (overlay ?g txn_new) M" by (simp_all add: store_rep_def)
  have "\<exists>txn'. delete_one D txn_new w = Ok txn' \<and> hm_wf txn' \<and>
    (\<forall>e. view_rep A D absent U (overlay ?g (txn_put txn' (make_event_key i) e)) (M(s := None)))"
    using delete_view_ok [OF U hm_wf_txn(1) w] by (metis result.inject(1))
  then obtain txn' where t: "delete_one D txn_new w = Ok txn'" "hm_wf txn'"
    "\<And>e. view_rep A D absent U (overlay ?g (txn_put txn' (make_event_key i) e)) (M(s := None))" by blast
  from commit_event_ok [OF rep_healthy [OF rep] t(2) id, of A ?e] obtain db y where c:
    "commit_event A now st txn' ?e = (st\<lparr>ast_gen := gen, ast_db := db\<rparr>, Ok (ae_event_encode A (?e\<lparr>ev_id := i\<rparr>)))"
    "db_healthy db" "db_view db = (overlay ?g txn')(make_event_key i \<mapsto> y)" by blast
  have "revoke A now w st = with_txn A now st (Ok (txn', ?e))"
    using D v t(1) delete_batch_eq [OF v] by (simp add: revoke_def Let_def valid_ts_hash rocksdb_txn_def)
  with c t(3) [of y] D U(1) show ?thesis by (simp add: with_txn_def store_rep_def)
qed

lemma prune_step_ok:
  assumes U: "universe A D U" and rep: "view_rep A D absent U (overlay g txn) M" and wf: "hm_wf txn"
    and w: "M (m_akey D w) = Some w" and limit: "limit < cnt"
    and id: "generate_id (now (length evs)) None gen = (gen', Ok i)"
  shows "\<exists>txn'. prune_step A now D limit (cnt, gen, txn, evs) (m_pkey D w) (message_encode A w) =
      ((cnt - 1, gen', txn', evs @ [(sd_prune_event_args D w)\<lparr>ev_id := i\<rparr>]), Ok False) \<and> hm_wf txn' \<and>
    view_rep A D absent U (overlay g txn') (M(m_akey D w := None))"
proof -
  let ?e = "(sd_prune_event_args D w)\<lparr>ev_id := i\<rparr>"
  from rep w have wU: "w \<in> U" by (simp add: view_rep_def)
  with U have v: "store_valid A D w" by (simp add: universe_def)
  from delete_view_ok [OF U rep wf w, of i "ae_event_encode A ?e"] obtain txn' where t: "delete_one D txn w = Ok txn'"
    "hm_wf txn'" "view_rep A D absent U (overlay g (txn_put txn' (make_event_key i) (ae_event_encode A ?e)))
      (M(m_akey D w := None))" by blast
  have "(if sd_is_add_type D w then bind_result (message_ts_hash w) (\<lambda>ts_hash. delete_add_transaction D txn ts_hash w)
      else if sd_remove_type_supported D \<and> sd_is_remove_type D w then delete_remove_transaction D txn w else Ok txn) = Ok txn'"
    using delete_batch_eq [OF v, of txn "Ok txn"] t(1) v not_compact [OF v] by (auto simp: valid_ts_hash split: if_splits)
  moreover have "message_decode A (message_encode A w) = Ok w"
    using v by (simp add: store_valid_def message_roundtrip)
  ultimately have "prune_step A now D limit (cnt, gen, txn, evs) (m_pkey D w) (message_encode A w) =
      ((cnt - 1, gen', put_event_transaction A txn' ?e, evs @ [?e]), Ok False)"
    using limit not_compact [OF v] by (simp add: prune_step_def commit_transaction_Ok [OF id] leD)
  with t(2,3) show ?thesis by (simp add: put_event_transaction_def)
qed

lemma prune_loop_ok:
  assumes "universe A D U" "view_rep A D absent U (overlay g txn) M" "hm_wf txn"
    "\<forall>w \<in> set ws. M (m_akey D w) = Some w" "distinct ws"
    "ids_available gen (map now [length evs..<length evs + length (take (prune_excess cnt limit) ws)])"
  shows "\<exists>cnt' gen' txn' es b. prefix_loop (prune_step A now D limit) (pruned_items A D ws) (cnt, gen, txn, evs) =
      ((cnt', gen', txn', evs @ es), Ok b) \<and> hm_wf txn' \<and>
    prune_events_of D (take (prune_excess cnt limit) ws) es \<and>
    view_rep A D absent U (overlay g txn') (drop_slots D (take (prune_excess cnt limit) ws) M)"
  using assms
proof (induction ws arbitrary: cnt gen txn evs M)
  case Nil
  then show ?case by (auto simp: pruned_items_def prune_events_of_def)
next
  case (Cons w ws)
  show ?case
  proof (cases "cnt \<le> limit")
    case True
    then have "prune_excess cnt limit = 0" by (simp add: prune_excess_0)
    with True Cons.prems show ?thesis by (auto simp: pruned_items_def prune_events_of_def prune_step_def)
  next
    case False
    then have limit: "limit < cnt" by simp
    let ?n = "length (take (prune_excess (cnt - 1) limit) ws)"
    have t: "ids_available gen (now (length evs) # map now [Suc (length evs)..<Suc (length evs) + ?n])"
    proof -
      have "[length evs..<length evs + Suc ?n] = length evs # [Suc (length evs)..<Suc (length evs) + ?n]"
        by (simp add: upt_conv_Cons del: upt_Suc)
      with Cons.prems(6) prune_excess_Suc [OF limit] show ?thesis by (simp del: upt_Suc)
    qed
    note id = ids_generate(1) [OF t]
    let ?e = "(sd_prune_event_args D w)\<lparr>ev_id := tick_id gen (now (length evs))\<rparr>"
    from prune_step_ok [where now = now and evs = evs, OF Cons.prems(1-3) _ limit id, of w] Cons.prems(4) obtain txn1 where s:
      "prune_step A now D limit (cnt, gen, txn, evs) (m_pkey D w) (message_encode A w) =
        ((cnt - 1, tick gen (now (length evs)), txn1, evs @ [?e]), Ok False)" "hm_wf txn1"
      "view_rep A D absent U (overlay g txn1) (M(m_akey D w := None))" by auto
    have live: "\<forall>x \<in> set ws. (M(m_akey D w := None)) (m_akey D x) = Some x"
    proof
      fix x assume "x \<in> set ws"
      with Cons.prems(4,5) have "M (m_akey D x) = Some x" "M (m_akey D w) = Some w" "x \<noteq> w" by auto
      then show "(M(m_akey D w := None)) (m_akey D x) = Some x" by (metis fun_upd_other option.inject)
    qed
    have d: "distinct ws" using Cons.prems(5) by simp
    have "ids_available (tick gen (now (length evs))) (map now [length (evs @ [?e])..<length (evs @ [?e]) + ?n])"
      using ids_next(2) [OF t] by (simp del: upt_Suc)
    from Cons.IH [where cnt = "cnt - 1", OF Cons.prems(1) s(3) s(2) live d this]
    obtain cnt' gen' txn' es b where "prefix_loop (prune_step A now D limit) (pruned_items A D ws)
        (cnt - 1, tick gen (now (length evs)), txn1, evs @ [?e]) = ((cnt', gen', txn', (evs @ [?e]) @ es), Ok b)"
      "hm_wf txn'" "prune_events_of D (take (prune_excess (cnt - 1) limit) ws) es"
      "view_rep A D absent U (overlay g txn') (drop_slots D (take (prune_excess (cnt - 1) limit) ws) (M(m_akey D w := None)))"
      by blast
    with s(1) prune_excess_Suc [OF limit] show ?thesis
      by (auto simp: pruned_items_def prune_events_of_def intro!: exI [of _ "?e # es"])
  qed
qed

theorem prune_oldest:
  assumes rep: "store_rep A D absent U (ast_db st) M" and D: "ast_def st = D"
    and items: "ae_items A (ast_db st) (make_message_primary_key fid (sd_postfix D) None) default_page = pruned_items A D ws"
    and live: "\<forall>w \<in> set ws. M (m_akey D w) = Some w" "distinct ws"
    and t: "ids_available (ast_gen st) (map now [0..<length (take (prune_excess cnt (prune_limit D max_count)) ws)])"
  shows "\<exists>st' es. prune_messages A now fid cnt max_count st = (st', Ok es) \<and> ast_def st' = D \<and>
    prune_events_of D (take (prune_excess cnt (prune_limit D max_count)) ws) es \<and>
    store_rep A D absent U (ast_db st') (drop_slots D (take (prune_excess cnt (prune_limit D max_count)) ws) M)"
proof -
  from rep have U: "universe A D U" "view_rep A D absent U (overlay (db_view (ast_db st)) txn_new) M"
    by (simp_all add: store_rep_def)
  from prune_loop_ok [OF U _ live, of "ast_gen st" now "[]" cnt "prune_limit D max_count"] t
  obtain cnt' gen' txn' es b where l: "prefix_loop (prune_step A now D (prune_limit D max_count)) (pruned_items A D ws)
      (cnt, ast_gen st, txn_new, []) = ((cnt', gen', txn', es), Ok b)" "hm_wf txn'"
    "prune_events_of D (take (prune_excess cnt (prune_limit D max_count)) ws) es"
    "view_rep A D absent U (overlay (db_view (ast_db st)) txn')
      (drop_slots D (take (prune_excess cnt (prune_limit D max_count)) ws) M)" by auto
  from db_commit_healthy [OF rep_healthy [OF rep] l(2)] obtain db where "db_commit (ast_db st) txn' = (db, Ok ())"
    "db_healthy db" "db_view db = overlay (db_view (ast_db st)) txn'" by blast
  with l D U(1) items show ?thesis
    by (auto simp: prune_messages_def Let_def store_rep_def rocksdb_txn_def prune_limit_def [symmetric])
qed

end

end
