(* ===== verification/Store_Common.thy ===== *)
theory Store_Common
  imports Store_Prune
begin

text \<open>
  What the stores of \<open>storage/store/account\<close> share: the tests on the type of a message, the partial
  messages of the lookups, the pages read through a secondary index, and the facts about keys and
  ranks with which each of them discharges the contract of a store.
\<close>

section \<open>Definitions\<close>

definition is_type :: "message_type \<Rightarrow> message \<Rightarrow> bool" where
  "is_type t m \<longleftrightarrow> msg_signature_scheme m = Ed25519 \<and>
     (case msg_data m of Some d \<Rightarrow> md_type d = message_type_i32 t \<and> md_body d \<noteq> None | None \<Rightarrow> False)"

definition default_data :: message_data where
  "default_data = \<lparr>md_type = 0, md_fid = 0, md_timestamp = 0, md_network = 0, md_body = None\<rparr>"

definition default_message :: message where
  "default_message = \<lparr>msg_data = None, msg_hash = [], msg_hash_scheme = 0, msg_signature = [],
     msg_signature_scheme = 0, msg_signer = [], msg_data_bytes = None\<rparr>"

text \<open>The message that a lookup builds: a fid, a type and a body.\<close>

definition partial_message :: "u32 \<Rightarrow> message_type \<Rightarrow> message_body \<Rightarrow> message" where
  "partial_message fid t body =
     default_message\<lparr>msg_data := Some (default_data\<lparr>md_fid := ucast fid, md_type := message_type_i32 t, md_body := Some body\<rparr>)\<rparr>"

definition body_of :: "message_data \<Rightarrow> (hub_error, message_body) result" where
  "body_of d = (case md_body d of Some b \<Rightarrow> Ok b | None \<Rightarrow> Panic unwrap_none)"

text \<open>The optional tail of an index key.\<close>

definition ts_hash_bytes :: "bytes option \<Rightarrow> bytes" where
  "ts_hash_bytes ts_hash = (case ts_hash of Some h \<Rightarrow> if length h = TS_HASH_LENGTH then h else [] | None \<Rightarrow> [])"

definition fid_bytes :: "u32 \<Rightarrow> bytes" where
  "fid_bytes fid = (if fid > 0 then make_fid_key fid else [])"

text \<open>
  The callback of the index pages: the timestamp hash and the fid follow the prefix of the key.
\<close>

definition index_step ::
  "u8 \<Rightarrow> bytes \<Rightarrow> nat \<Rightarrow> (bytes \<Rightarrow> bool) \<Rightarrow> bytes list \<times> bytes \<Rightarrow> bytes \<Rightarrow> bytes \<Rightarrow>
     (bytes list \<times> bytes) \<times> (hub_error, bool) result" where
  "index_step pf pfx limit keep s key value =
     (case s of (message_keys, last_key) \<Rightarrow>
        if \<not> keep value then (s, Ok False)
        else
          (let ts_hash_offset = length pfx; fid_offset = ts_hash_offset + TS_HASH_LENGTH in
           case slice fid_offset (fid_offset + 4) key of
             Err e \<Rightarrow> (s, Err e)
           | Panic p \<Rightarrow> (s, Panic p)
           | Ok fid \<Rightarrow>
               (let message_keys' = message_keys @
                  [make_message_primary_key (u32_from_be_bytes fid) pf (Some (take TS_HASH_LENGTH (drop ts_hash_offset key)))]
                in if length message_keys' \<ge> limit then ((message_keys', key), Ok True)
                   else ((message_keys', last_key), Ok False))))"

definition get_messages_by_index ::
  "account_env \<Rightarrow> account_store \<Rightarrow> bytes \<Rightarrow> page_options \<Rightarrow> (bytes \<Rightarrow> bool) \<Rightarrow> (hub_error, messages_page) result" where
  "get_messages_by_index A st pfx opts keep =
     (case prefix_loop (index_step (sd_postfix (ast_def st)) pfx (account_page_limit opts) keep)
             (ae_items A (ast_db st) pfx opts) ([], []) of
        ((message_keys, last_key), r) \<Rightarrow>
          bind_result r (\<lambda>_.
            bind_result (get_many_messages_as_bytes (ast_db st) message_keys) (\<lambda>messages_bytes.
              Ok \<lparr>mp_messages_bytes = messages_bytes, mp_next_page_token = page_after pfx last_key\<rparr>)))"

section \<open>Keys\<close>

lemma length_make_user_key [simp]: "length (make_user_key fid) = 5"
  by (simp add: make_user_key_def make_fid_key_def)

lemma user_key_inject [simp]:
  "make_user_key f @ p # r = make_user_key f' @ p' # r' \<longleftrightarrow> f = f' \<and> p = p' \<and> r = r'"
  by (auto simp: make_user_key_def make_fid_key_def)

lemma m_pkey_eq: "m_pkey D m = make_user_key (m_fid m) @ sd_postfix D # m_tsh m"
  by (simp add: m_pkey_def make_message_primary_key_def)

lemma is_typeD:
  assumes "is_type t m"
  shows "msg_data m = Some (m_data m)" "md_type (m_data m) = message_type_i32 t" "\<exists>b. md_body (m_data m) = Some b"
  using assms by (auto simp: is_type_def m_data_def split: option.splits)

lemma is_type_unique: "is_type t m \<Longrightarrow> is_type t' m \<Longrightarrow> t = t'"
  by (cases t; cases t') (auto simp: is_type_def split: option.splits)

lemma primary_of_type:
  assumes "is_type t m" "length (msg_hash m) = 20" "type_to_set_postfix t = (Ok p :: (hub_error, user_postfix) result)"
    "sd_postfix D = user_postfix_u8 p"
  shows "message_primary_key m = Ok (m_pkey D m)"
  using assms is_typeD [OF assms(1)]
  by (simp add: message_primary_key_def message_data_of_def make_ts_hash_def HASH_LENGTH_def m_pkey_def m_fid_def
      m_tsh_def message_type_try_from_i32)

lemma valid_kind: "store_valid A D m \<Longrightarrow> sd_is_add_type D m \<or> sd_is_remove_type D m"
  by (auto simp: store_valid_def)

section \<open>Ranks\<close>

text \<open>Last write wins, a remove wins over an add of the same time, and the hash breaks the tie.\<close>

definition lww_rank :: "(message \<Rightarrow> bool) \<Rightarrow> message \<Rightarrow> bytes" where
  "lww_rank is_add m = take 4 (m_tsh m) @ (if is_add m then 0 else 1) # drop 4 (m_tsh m)"

text \<open>A remove wins over every add; then the last write wins.\<close>

definition remove_wins_rank :: "(message \<Rightarrow> bool) \<Rightarrow> message \<Rightarrow> bytes" where
  "remove_wins_rank is_add m = (if is_add m then 0 else 1) # m_tsh m"

lemma compare_slices_ok:
  assumes "length a = 24" "length b = 24"
  shows "compare_slices 0 4 a b = Ok (bytes_compare (take 4 a) (take 4 b))"
    "compare_slices 4 24 a b = Ok (bytes_compare (drop 4 a) (drop 4 b))"
  using assms by (simp_all add: compare_slices_def slice_def)

lemma bytes_compare_take:
  assumes "length a = length b"
  shows "bytes_compare a b =
    (if take n a = take n b then bytes_compare (drop n a) (drop n b) else bytes_compare (take n a) (take n b))"
  using assms
proof (induction a b arbitrary: n rule: list_induct2)
  case (Cons x xs y ys)
  show ?case using Cons.IH [of "n - 1"] by (cases n) auto
qed simp

text \<open>The type byte of a message tells an add from a remove.\<close>

lemma type_byte:
  assumes "is_type add m \<or> is_type rem m" "message_type_u8 add \<noteq> message_type_u8 rem"
  shows "ucast (md_type (m_data m)) = (if is_type add m then message_type_u8 add else message_type_u8 rem)"
    "ucast (md_type (m_data m)) = message_type_u8 add \<longleftrightarrow> is_type add m"
  using assms is_typeD(2) [of add m] is_typeD(2) [of rem m] by (auto simp: message_type_u8_def)

lemma default_compare:
  assumes "length a = 24" "length b = 24" "s \<in> {add, rem}" "t \<in> {add, rem}" "add \<noteq> rem"
  shows "default_message_compare add rem s a t b =
    Ok (bytes_compare (take 4 a @ (if s = add then 0 else 1) # drop 4 a) (take 4 b @ (if t = add then 0 else 1) # drop 4 b))"
  using assms
  by (auto simp: default_message_compare_def compare_slices_ok bytes_compare_lex list_less_same_length)

lemma lww_ranked:
  assumes "is_type add m \<or> is_type rem m" "is_type add m' \<or> is_type rem m'" "message_type_u8 add \<noteq> message_type_u8 rem"
    "length (m_tsh m) = 24" "length (m_tsh m') = 24"
  shows "default_message_compare (message_type_u8 add) (message_type_u8 rem)
      (ucast (md_type (m_data m))) (m_tsh m) (ucast (md_type (m_data m'))) (m_tsh m') =
    Ok (bytes_compare (lww_rank (is_type add) m) (lww_rank (is_type add) m'))"
  using default_compare [OF assms(4,5)] type_byte [OF assms(1,3)] type_byte [OF assms(2,3)] assms(3)
  by (simp add: lww_rank_def)

lemma lww_rank_tsh:
  assumes "length (m_tsh m) = 24" "length (m_tsh m') = 24" "lww_rank f m = lww_rank f m'"
  shows "m_tsh m = m_tsh m'"
proof -
  from assms have "take 4 (m_tsh m) = take 4 (m_tsh m')" "drop 4 (m_tsh m) = drop 4 (m_tsh m')"
    by (auto simp: lww_rank_def append_eq_append_conv split: if_splits)
  then show ?thesis by (metis append_take_drop_id)
qed

lemma remove_wins_rank_tsh: "remove_wins_rank f m = remove_wins_rank f m' \<Longrightarrow> m_tsh m = m_tsh m'"
  by (simp add: remove_wins_rank_def)

section \<open>Batches\<close>

lemma root_prefix_not_user: "p \<noteq> User \<Longrightarrow> root_prefix_u8 p \<noteq> 1"
  by (cases p) simp_all

text \<open>Index entries outside the user keys leave the keys of the messages alone.\<close>

lemma overlay_other_prefix:
  assumes "k = root_prefix_u8 User # k'" "j = root_prefix_u8 p # j'" "p \<noteq> User"
  shows "overlay g (txn_put txn j v) k = overlay g txn k" "overlay g (txn_delete txn j) k = overlay g txn k"
  using assms root_prefix_not_user by auto

section \<open>Stores with a slot per key\<close>

text \<open>
  The stores here build both index keys of a slot from the fid, a postfix and the same rest, and
  keep their secondary indices under other root prefixes.  That gives the contract of a store.
  \<open>legacy m\<close> are user keys that deleting \<open>m\<close> clears besides its own.
\<close>

locale slotted_store =
  fixes A :: account_env and D :: store_def and rank :: "message \<Rightarrow> bytes" and absent legacy :: "message \<Rightarrow> bytes set"
    and set_postfix add_postfix remove_postfix :: user_postfix and add_type remove_type :: message_type
  assumes postfixes: "sd_postfix D = user_postfix_u8 set_postfix" "distinct [set_postfix, add_postfix, remove_postfix]"
    and add_type: "sd_is_add_type D m \<Longrightarrow> is_type add_type m" "sd_add_message_type D = message_type_u8 add_type"
      "type_to_set_postfix add_type = (Ok set_postfix :: (hub_error, user_postfix) result)"
    and remove_type: "sd_is_remove_type D m \<Longrightarrow> is_type remove_type m \<and>
        type_to_set_postfix remove_type = (Ok set_postfix :: (hub_error, user_postfix) result)"
      "sd_remove_message_type D = message_type_u8 remove_type" "add_type \<noteq> remove_type"
    and no_compact: "is_type add_type m \<or> is_type remove_type m \<Longrightarrow> \<not> sd_is_compact_state_type D m"
    and no_find: "sd_find_merge_add_conflicts D db m = Ok ()"
      "sd_remove_type_supported D \<Longrightarrow> sd_find_merge_remove_conflicts D db m = Ok ()"
    and slot: "store_valid A D m \<Longrightarrow> \<exists>r. m_akey D m = make_user_key (m_fid m) @ user_postfix_u8 add_postfix # r \<and>
      (sd_remove_type_supported D \<longrightarrow> m_rkey D m = make_user_key (m_fid m) @ user_postfix_u8 remove_postfix # r)"
    and absent_keys: "store_valid A D m \<Longrightarrow> k \<in> absent m \<Longrightarrow> (\<exists>k'. k = root_prefix_u8 User # k') \<and>
      (store_valid A D m' \<longrightarrow> k \<notin> tracked D m')"
    and absent_compact: "store_valid A D m \<Longrightarrow> compact_state_type_supported D \<Longrightarrow>
      \<exists>k \<in> absent m. sd_make_compact_state_add_key D m = Ok k"
    and ranked: "store_valid A D m \<Longrightarrow> store_valid A D m' \<Longrightarrow>
      sd_message_compare D (ucast (md_type (m_data m))) (m_tsh m) (ucast (md_type (m_data m'))) (m_tsh m') =
        Ok (bytes_compare (rank m) (rank m'))"
      "store_valid A D m \<Longrightarrow> store_valid A D m' \<Longrightarrow> rank m = rank m' \<Longrightarrow> m_tsh m = m_tsh m'"
    and builds: "store_valid A D m \<Longrightarrow> sd_is_add_type D m \<Longrightarrow> hm_wf txn \<Longrightarrow>
      \<exists>txn'. sd_build_secondary_indices D txn (m_tsh m) m = Ok txn' \<and> hm_wf txn' \<and>
        (\<forall>g k. overlay g txn' (root_prefix_u8 User # k) = overlay g txn (root_prefix_u8 User # k))"
    and deletes: "store_valid A D m \<Longrightarrow> sd_is_add_type D m \<Longrightarrow> hm_wf txn \<Longrightarrow>
      \<exists>txn'. sd_delete_secondary_indices D txn (m_tsh m) m = Ok txn' \<and> hm_wf txn' \<and>
        (\<forall>g k. overlay g txn' (root_prefix_u8 User # k) =
           (if root_prefix_u8 User # k \<in> legacy m then None else overlay g txn (root_prefix_u8 User # k)))"
    and deletes_remove: "store_valid A D m \<Longrightarrow> \<not> sd_is_add_type D m \<Longrightarrow> hm_wf txn \<Longrightarrow>
      \<exists>txn'. sd_delete_remove_secondary_indices D txn m = Ok txn' \<and> hm_wf txn' \<and>
        (\<forall>g k. overlay g txn' (root_prefix_u8 User # k) =
           (if root_prefix_u8 User # k \<in> legacy m then None else overlay g txn (root_prefix_u8 User # k)))"
    and legacy: "store_valid A D m \<Longrightarrow> store_valid A D m' \<Longrightarrow> k \<in> legacy m \<Longrightarrow> k \<in> tracked D m' \<Longrightarrow> k = slot_key D m"
begin

lemma valid_type:
  assumes "store_valid A D m"
  shows "if sd_is_add_type D m then is_type add_type m
    else sd_remove_type_supported D \<and> sd_is_remove_type D m \<and> is_type remove_type m \<and>
      type_to_set_postfix remove_type = (Ok set_postfix :: (hub_error, user_postfix) result)"
  using assms valid_remove [OF assms] add_type(1) remove_type(1) by auto

lemma user_tracked:
  assumes "store_valid A D m" "k \<in> tracked D m \<union> absent m"
  shows "\<exists>k'. k = root_prefix_u8 User # k'"
  using assms(2) slot [OF assms(1)] absent_keys [OF assms(1)]
  by (auto simp: tracked_def m_pkey_eq make_user_key_def split: if_splits)

lemma legacy_effect:
  assumes v: "store_valid A D m"
    and d: "\<forall>g k. overlay g txn' (root_prefix_u8 User # k) =
      (if root_prefix_u8 User # k \<in> legacy m then None else overlay g txn (root_prefix_u8 User # k))"
  shows "(\<forall>g m' k. store_valid A D m' \<longrightarrow> k \<in> tracked D m' - {slot_key D m} \<longrightarrow> overlay g txn' k = overlay g txn k) \<and>
    (\<forall>g m' k. store_valid A D m' \<longrightarrow> k \<in> absent m' \<longrightarrow> overlay g txn k = None \<longrightarrow> overlay g txn' k = None)"
proof -
  have "overlay g txn' k = (if k \<in> legacy m then None else overlay g txn k)"
    if "store_valid A D m'" "k \<in> tracked D m' \<union> absent m'" for g m' k using user_tracked [OF that] d by auto
  with legacy [OF v] show ?thesis by auto
qed

end

sublocale slotted_store \<subseteq> store_keys
proof unfold_locales
  fix m m' :: message and k :: bytes and db :: rocksdb and txn :: txn_batch
  show "\<not> sd_is_remove_type D m" if "sd_is_add_type D m"
    using that add_type(1) remove_type(1,3) is_type_unique by blast
  assume v: "store_valid A D m"
  note t = valid_type [OF v]
  have hash: "length (msg_hash m) = 20" using v by (simp add: store_valid_def)
  show "\<not> sd_is_compact_state_type D m" using t no_compact by (auto split: if_splits)
  show "ucast (md_type (m_data m)) = (if sd_is_add_type D m then sd_add_message_type D else sd_remove_message_type D)"
    using t is_typeD(2) add_type(2) remove_type(2) by (auto simp: message_type_u8_def split: if_splits)
  show "message_primary_key m = Ok (m_pkey D m)"
    using t hash add_type(3) postfixes(1) by (auto intro: primary_of_type split: if_splits)
  show "sd_is_add_type D m \<Longrightarrow> sd_find_merge_add_conflicts D db m = Ok ()" by (rule no_find(1))
  show "\<not> sd_is_add_type D m \<Longrightarrow> sd_find_merge_remove_conflicts D db m = Ok ()" using t no_find(2) by simp
  show "compact_state_type_supported D \<Longrightarrow> \<exists>k \<in> absent m. sd_make_compact_state_add_key D m = Ok k"
    using absent_compact [OF v] .
  show "k \<in> tracked D m \<union> absent m \<Longrightarrow> \<exists>k'. k = root_prefix_u8 User # k'" by (rule user_tracked [OF v])
  show "\<exists>txn'. sd_build_secondary_indices D txn (m_tsh m) m = Ok txn' \<and> hm_wf txn' \<and>
        (\<forall>g m' k. store_valid A D m' \<longrightarrow> k \<in> tracked D m' \<union> absent m' \<longrightarrow> overlay g txn' k = overlay g txn k)"
    if "sd_is_add_type D m" "hm_wf txn"
    using builds [OF v that] user_tracked by metis
  show "\<exists>txn'. sd_delete_secondary_indices D txn (m_tsh m) m = Ok txn' \<and> hm_wf txn' \<and>
        (\<forall>g m' k. store_valid A D m' \<longrightarrow> k \<in> tracked D m' - {m_akey D m} \<longrightarrow> overlay g txn' k = overlay g txn k) \<and>
        (\<forall>g m' k. store_valid A D m' \<longrightarrow> k \<in> absent m' \<longrightarrow> overlay g txn k = None \<longrightarrow> overlay g txn' k = None)"
    if a: "sd_is_add_type D m" and wf: "hm_wf txn"
  proof -
    from deletes [OF v a wf] obtain txn' where d: "sd_delete_secondary_indices D txn (m_tsh m) m = Ok txn'" "hm_wf txn'"
      "\<forall>g k. overlay g txn' (root_prefix_u8 User # k) =
        (if root_prefix_u8 User # k \<in> legacy m then None else overlay g txn (root_prefix_u8 User # k))" by blast
    with legacy_effect [OF v d(3)] a show ?thesis by (intro exI [of _ txn']) (simp add: slot_key_def)
  qed
  show "\<exists>txn'. sd_delete_remove_secondary_indices D txn m = Ok txn' \<and> hm_wf txn' \<and>
        (\<forall>g m' k. store_valid A D m' \<longrightarrow> k \<in> tracked D m' - {m_rkey D m} \<longrightarrow> overlay g txn' k = overlay g txn k) \<and>
        (\<forall>g m' k. store_valid A D m' \<longrightarrow> k \<in> absent m' \<longrightarrow> overlay g txn k = None \<longrightarrow> overlay g txn' k = None)"
    if a: "\<not> sd_is_add_type D m" and wf: "hm_wf txn"
  proof -
    from deletes_remove [OF v a wf] obtain txn' where d: "sd_delete_remove_secondary_indices D txn m = Ok txn'" "hm_wf txn'"
      "\<forall>g k. overlay g txn' (root_prefix_u8 User # k) =
        (if root_prefix_u8 User # k \<in> legacy m then None else overlay g txn (root_prefix_u8 User # k))" by blast
    with legacy_effect [OF v d(3)] a show ?thesis by (intro exI [of _ txn']) (simp add: slot_key_def)
  qed
  assume v': "store_valid A D m'"
  note s = slot [OF v] and s' = slot [OF v']
  show "m_akey D m = m_akey D m' \<Longrightarrow> m_fid m = m_fid m'" using s s' by auto
  show "sd_remove_type_supported D \<Longrightarrow> (m_rkey D m = m_rkey D m') = (m_akey D m = m_akey D m')" using s s' by auto
  show "m_akey D m \<noteq> m_pkey D m'" using s postfixes by (auto simp: m_pkey_eq)
  show "sd_remove_type_supported D \<Longrightarrow> m_rkey D m \<noteq> m_pkey D m'" using s postfixes by (auto simp: m_pkey_eq)
  show "sd_remove_type_supported D \<Longrightarrow> m_akey D m \<noteq> m_rkey D m'" using s s' postfixes by auto
  show "k \<in> absent m \<Longrightarrow> k \<noteq> m_akey D m' \<and> k \<noteq> m_pkey D m' \<and> (sd_remove_type_supported D \<longrightarrow> k \<noteq> m_rkey D m')"
    using absent_keys [OF v, of k m'] v' by (auto simp: tracked_def)
  show "sd_message_compare D (ucast (md_type (m_data m))) (m_tsh m) (ucast (md_type (m_data m'))) (m_tsh m') =
      Ok (if rank m < rank m' then - 1 else if rank m = rank m' then 0 else 1)"
    using ranked(1) [OF v v'] by (simp add: bytes_compare_lex)
  show "rank m = rank m' \<Longrightarrow> m_tsh m = m_tsh m'" using ranked(2) [OF v v'] .
qed

section \<open>Stores with the default conflict search\<close>

context store_keys
begin

lemma default_message_store:
  assumes "sd_merge_conflicts_override D = None"
  shows "message_store A D rank absent"
proof (intro message_store.intro message_store_axioms.intro)
  show "store_keys A D rank absent" by (rule store_keys_axioms)
  fix U db M m assume "store_rep A D absent U db M" "m \<in> U"
  from default_conflicts [OF this] assms
  show "case M (m_akey D m) of
       None \<Rightarrow> get_merge_conflicts A D db m (m_tsh m) = Ok []
     | Some w \<Rightarrow>
         if rank m < rank w then get_merge_conflicts A D db m (m_tsh m) = Err (more_recent D w)
         else if rank w = rank m then get_merge_conflicts A D db m (m_tsh m) = Err already_merged
         else \<exists>ws. set ws = {w} \<and> get_merge_conflicts A D db m (m_tsh m) = Ok ws"
    by (auto simp: get_merge_conflicts_def split: option.split)
qed

end

end
