(* ===== verification/Cast_Store.thy ===== *)
theory Cast_Store
  imports Store_Common
begin

text \<open>
  \<open>storage/store/account/cast_store.rs\<close>: casts, indexed by parent and by mention.  A cast and its
  removal share the slot of the hash of the cast, and a removal wins over the cast whatever their
  times.
\<close>

section \<open>Keys\<close>

definition make_cast_adds_key :: "u32 \<Rightarrow> bytes \<Rightarrow> bytes" where
  "make_cast_adds_key fid hash =
     make_user_key fid @ user_postfix_u8 CastAdds # (if length hash = HASH_LENGTH then hash else [])"

definition make_cast_removes_key :: "u32 \<Rightarrow> bytes \<Rightarrow> bytes" where
  "make_cast_removes_key fid hash =
     make_user_key fid @ user_postfix_u8 CastRemoves # (if length hash = HASH_LENGTH then hash else [])"

definition make_parent_key :: "cast_parent \<Rightarrow> bytes" where
  "make_parent_key target =
     (case target of ParentUrl url \<Rightarrow> as_bytes url | ParentCastId c \<Rightarrow> make_cast_id_key c)"

definition make_cast_by_parent_key :: "cast_parent \<Rightarrow> u32 \<Rightarrow> bytes option \<Rightarrow> bytes" where
  "make_cast_by_parent_key parent fid ts_hash =
     root_prefix_u8 CastsByParent # make_parent_key parent @ ts_hash_bytes ts_hash @ fid_bytes fid"

definition make_cast_by_mention_key :: "u32 \<Rightarrow> u32 \<Rightarrow> bytes option \<Rightarrow> bytes" where
  "make_cast_by_mention_key mention fid ts_hash =
     root_prefix_u8 CastsByMention # make_fid_key mention @ ts_hash_bytes ts_hash @ fid_bytes fid"

definition invalid_cast_body :: hub_error where
  "invalid_cast_body = hub_err ''bad_request.validation_failure'' ''Invalid cast body''"

definition by_parent_secondary_index_key :: "bytes \<Rightarrow> message \<Rightarrow> (hub_error, bytes option) result" where
  "by_parent_secondary_index_key ts_hash m =
     bind_result (message_data_of m) (\<lambda>d. bind_result (body_of d) (\<lambda>body.
       (case body of
          CastAddBody b \<Rightarrow>
            (case ca_parent b of
               None \<Rightarrow> Err invalid_cast_body
             | Some parent \<Rightarrow> Ok (Some (make_cast_by_parent_key parent (ucast (md_fid d)) (Some ts_hash))))
        | CastRemoveBody _ \<Rightarrow> Ok None
        | _ \<Rightarrow> Err invalid_cast_body)))"

definition by_mention_secondary_index_key :: "bytes \<Rightarrow> message \<Rightarrow> (hub_error, bytes list option) result" where
  "by_mention_secondary_index_key ts_hash m =
     bind_result (message_data_of m) (\<lambda>d. bind_result (body_of d) (\<lambda>body.
       (case body of
          CastAddBody b \<Rightarrow>
            if ca_mentions b = [] then Ok None
            else Ok (Some (map (\<lambda>mention. make_cast_by_mention_key (ucast mention) (ucast (md_fid d)) (Some ts_hash))
                        (ca_mentions b)))
        | CastRemoveBody _ \<Rightarrow> Ok None
        | _ \<Rightarrow> Err invalid_cast_body)))"

section \<open>CastStoreDef\<close>

text \<open>\<open>if let Ok(Some(key))\<close>: an error is passed over, a panic is not.\<close>

definition if_let_some :: "(hub_error, 'a option) result \<Rightarrow> ('a \<Rightarrow> 'b \<Rightarrow> 'b) \<Rightarrow> 'b \<Rightarrow> (hub_error, 'b) result" where
  "if_let_some r f b =
     (case r of Ok (Some a) \<Rightarrow> Ok (f a b) | Panic p \<Rightarrow> Panic p | _ \<Rightarrow> Ok b)"

definition cast_build_secondary_indices :: "txn_batch \<Rightarrow> bytes \<Rightarrow> message \<Rightarrow> (hub_error, txn_batch) result" where
  "cast_build_secondary_indices txn ts_hash m =
     bind_result (if_let_some (by_parent_secondary_index_key ts_hash m) (\<lambda>k t. txn_put t k [TRUE_VALUE]) txn)
       (if_let_some (by_mention_secondary_index_key ts_hash m) (fold (\<lambda>k t. txn_put t k [TRUE_VALUE])))"

definition cast_delete_secondary_indices :: "txn_batch \<Rightarrow> bytes \<Rightarrow> message \<Rightarrow> (hub_error, txn_batch) result" where
  "cast_delete_secondary_indices txn ts_hash m =
     bind_result (if_let_some (by_parent_secondary_index_key ts_hash m) (\<lambda>k t. txn_delete t k) txn)
       (if_let_some (by_mention_secondary_index_key ts_hash m) (fold (\<lambda>k t. txn_delete t k)))"

definition cast_hash :: "string \<Rightarrow> message \<Rightarrow> (hub_error, u32 \<times> bytes) result" where
  "cast_hash error_message m =
     bind_result (message_data_of m) (\<lambda>d.
       (case md_body d of
          Some (CastAddBody _) \<Rightarrow> Ok (ucast (md_fid d), msg_hash m)
        | Some (CastRemoveBody b) \<Rightarrow> Ok (ucast (md_fid d), cr_target_hash b)
        | _ \<Rightarrow> Err (hub_err ''bad_request.validation_failure'' error_message)))"

definition cast_make_add_key :: "message \<Rightarrow> (hub_error, bytes) result" where
  "cast_make_add_key m =
     bind_result (cast_hash ''Invalid cast body for add key'' m) (\<lambda>(fid, hash). Ok (make_cast_adds_key fid hash))"

definition cast_make_remove_key :: "message \<Rightarrow> (hub_error, bytes) result" where
  "cast_make_remove_key m =
     bind_result (cast_hash ''Invalid cast body for remove key'' m) (\<lambda>(fid, hash). Ok (make_cast_removes_key fid hash))"

definition cast_message_compare :: "u8 \<Rightarrow> bytes \<Rightarrow> u8 \<Rightarrow> bytes \<Rightarrow> (hub_error, int) result" where
  "cast_message_compare a_type a_ts_hash b_type b_ts_hash =
     (if a_type = message_type_u8 CastRemove \<and> b_type = message_type_u8 CastAdd then Ok 1
      else if a_type = message_type_u8 CastAdd \<and> b_type = message_type_u8 CastRemove then Ok (- 1)
      else
        bind_result (compare_slices 0 4 a_ts_hash b_ts_hash) (\<lambda>ts_compare.
          if ts_compare \<noteq> 0 then Ok ts_compare else compare_slices 4 24 a_ts_hash b_ts_hash))"

definition cast_no_compact :: hub_error where
  "cast_no_compact = hub_err ''bad_request.invalid_param'' ''Cast Store doesn't support compact state''"

definition cast_store_def :: "u32 \<Rightarrow> store_def" where
  "cast_store_def prune_size_limit =
     \<lparr>sd_postfix = user_postfix_u8 CastMessage,
      sd_add_message_type = message_type_u8 CastAdd,
      sd_remove_message_type = message_type_u8 CastRemove,
      sd_compact_state_message_type = message_type_u8 MessageTypeNone,
      sd_is_add_type = is_type CastAdd,
      sd_is_remove_type = is_type CastRemove,
      sd_is_compact_state_type = (\<lambda>_. False),
      sd_remove_type_supported = default_remove_type_supported (message_type_u8 CastRemove),
      sd_build_secondary_indices = cast_build_secondary_indices,
      sd_delete_secondary_indices = cast_delete_secondary_indices,
      sd_delete_remove_secondary_indices = (\<lambda>txn _. Ok txn),
      sd_find_merge_add_conflicts = (\<lambda>_ _. Ok ()),
      sd_find_merge_remove_conflicts = (\<lambda>_ _. Ok ()),
      sd_make_add_key = cast_make_add_key,
      sd_make_remove_key = cast_make_remove_key,
      sd_make_compact_state_add_key = (\<lambda>_. Err cast_no_compact),
      sd_make_compact_state_prefix = (\<lambda>_. Err cast_no_compact),
      sd_prune_size_limit = prune_size_limit,
      sd_message_compare = cast_message_compare,
      sd_merge_conflicts_override = None,
      sd_revoke_event_args = default_revoke_event_args,
      sd_merge_event_args = default_merge_event_args (message_type_u8 MessageTypeNone),
      sd_prune_event_args = default_prune_event_args\<rparr>"

section \<open>CastStore\<close>

definition cast_store_new :: "rocksdb \<Rightarrow> hub_event_id_generator \<Rightarrow> u32 \<Rightarrow> account_store" where
  "cast_store_new db gen prune_size_limit = new_with_store_def db gen (cast_store_def prune_size_limit)"

definition default_cast_add_body :: cast_add_body where
  "default_cast_add_body = \<lparr>ca_embeds_deprecated = [], ca_mentions = [], ca_parent = None, ca_text = [],
     ca_mentions_positions = [], ca_embeds = [], ca_type = 0\<rparr>"

definition get_cast_add :: "account_env \<Rightarrow> account_store \<Rightarrow> u32 \<Rightarrow> bytes \<Rightarrow> (hub_error, message option) result" where
  "get_cast_add A st fid hash =
     get_add A st ((partial_message fid CastAdd (CastAddBody default_cast_add_body))\<lparr>msg_hash := hash\<rparr>)"

definition get_cast_remove :: "account_env \<Rightarrow> account_store \<Rightarrow> u32 \<Rightarrow> bytes \<Rightarrow> (hub_error, message option) result" where
  "get_cast_remove A st fid hash =
     get_remove A st (partial_message fid CastRemove (CastRemoveBody \<lparr>cr_target_hash = hash\<rparr>))"

definition get_cast_adds_by_fid ::
  "account_env \<Rightarrow> account_store \<Rightarrow> u32 \<Rightarrow> page_options \<Rightarrow> (hub_error, messages_page) result" where
  "get_cast_adds_by_fid A st fid opts = get_adds_by_fid A st fid opts None"

definition get_cast_removes_by_fid ::
  "account_env \<Rightarrow> account_store \<Rightarrow> u32 \<Rightarrow> page_options \<Rightarrow> (hub_error, messages_page) result" where
  "get_cast_removes_by_fid A st fid opts = get_removes_by_fid A st fid opts None"

definition get_casts_by_parent ::
  "account_env \<Rightarrow> account_store \<Rightarrow> cast_parent \<Rightarrow> page_options \<Rightarrow> (hub_error, messages_page) result" where
  "get_casts_by_parent A st parent opts =
     get_messages_by_index A st (make_cast_by_parent_key parent 0 None) opts (\<lambda>_. True)"

definition get_casts_by_mention ::
  "account_env \<Rightarrow> account_store \<Rightarrow> u32 \<Rightarrow> page_options \<Rightarrow> (hub_error, messages_page) result" where
  "get_casts_by_mention A st mention opts =
     get_messages_by_index A st (make_cast_by_mention_key mention 0 None) opts (\<lambda>_. True)"

section \<open>The contract\<close>

definition cast_rank :: "message \<Rightarrow> bytes" where
  "cast_rank = remove_wins_rank (is_type CastAdd)"

lemma cast_sel [simp]:
  "sd_postfix (cast_store_def n) = user_postfix_u8 CastMessage"
  "sd_is_add_type (cast_store_def n) = is_type CastAdd"
  "sd_is_remove_type (cast_store_def n) = is_type CastRemove"
  "sd_remove_type_supported (cast_store_def n)"
  "\<not> compact_state_type_supported (cast_store_def n)"
  by (simp_all add: cast_store_def_def default_remove_type_supported_def compact_state_type_supported_def
      message_type_u8_def)

lemma cast_valid:
  assumes "store_valid A (cast_store_def n) m"
  shows "\<exists>hash. cast_hash e m = Ok (m_fid m, hash)" "\<exists>b. md_body (m_data m) = Some b"
proof -
  from assms have "msg_data m = Some (m_data m)" by (rule valid_data)
  moreover from assms obtain k where "cast_make_add_key m = Ok k" by (auto simp: store_valid_def cast_store_def_def)
  ultimately show "\<exists>hash. cast_hash e m = Ok (m_fid m, hash)" "\<exists>b. md_body (m_data m) = Some b"
    by (auto simp: cast_make_add_key_def cast_hash_def message_data_of_def m_fid_def
        split: option.splits message_body.splits)
qed

lemma cast_hash_error: "cast_hash e m = Ok x \<Longrightarrow> cast_hash e' m = Ok x"
  by (auto simp: cast_hash_def message_data_of_def split: option.splits message_body.splits)

lemma cast_slot:
  assumes "store_valid A (cast_store_def n) m"
  shows "\<exists>r. m_akey (cast_store_def n) m = make_user_key (m_fid m) @ user_postfix_u8 CastAdds # r \<and>
    m_rkey (cast_store_def n) m = make_user_key (m_fid m) @ user_postfix_u8 CastRemoves # r"
proof -
  obtain hash where "cast_hash ''Invalid cast body for add key'' m = Ok (m_fid m, hash)"
    using cast_valid(1) [OF assms] by blast
  moreover from this have "cast_hash ''Invalid cast body for remove key'' m = Ok (m_fid m, hash)"
    by (rule cast_hash_error)
  ultimately show ?thesis
    by (simp add: m_akey_def m_rkey_def cast_store_def_def cast_make_add_key_def cast_make_remove_key_def
        make_cast_adds_key_def make_cast_removes_key_def)
qed

lemma fold_puts:
  "hm_wf txn \<Longrightarrow> hm_wf (fold (\<lambda>k t. txn_put t k v) ks txn)"
  "hm_wf txn \<Longrightarrow> hm_wf (fold (\<lambda>k t. txn_delete t k) ks txn)"
  by (induction ks arbitrary: txn) auto

lemma fold_puts_overlay:
  assumes "k \<notin> set ks"
  shows "overlay g (fold (\<lambda>k t. txn_put t k v) ks txn) k = overlay g txn k"
    "overlay g (fold (\<lambda>k t. txn_delete t k) ks txn) k = overlay g txn k"
  using assms by (induction ks arbitrary: txn) auto

text \<open>The keys of the two indices, as one list.\<close>

definition cast_index_keys :: "bytes \<Rightarrow> message \<Rightarrow> bytes list" where
  "cast_index_keys ts_hash m =
     (case by_parent_secondary_index_key ts_hash m of Ok (Some k) \<Rightarrow> [k] | _ \<Rightarrow> []) @
     (case by_mention_secondary_index_key ts_hash m of Ok (Some ks) \<Rightarrow> ks | _ \<Rightarrow> [])"

lemma cast_indices:
  assumes "msg_data m = Some d" "md_body d = Some b"
  shows "cast_build_secondary_indices txn h m = Ok (fold (\<lambda>k t. txn_put t k [TRUE_VALUE]) (cast_index_keys h m) txn)"
    "cast_delete_secondary_indices txn h m = Ok (fold (\<lambda>k t. txn_delete t k) (cast_index_keys h m) txn)"
    "root_prefix_u8 User # k \<notin> set (cast_index_keys h m)"
  using assms
  by (auto simp: cast_build_secondary_indices_def cast_delete_secondary_indices_def cast_index_keys_def if_let_some_def
      by_parent_secondary_index_key_def by_mention_secondary_index_key_def message_data_of_def body_of_def
      make_cast_by_parent_key_def make_cast_by_mention_key_def split: message_body.splits option.splits)

lemma cast_compare:
  assumes "length a = 24" "length b = 24" "s \<in> {message_type_u8 CastAdd, message_type_u8 CastRemove}"
    "t \<in> {message_type_u8 CastAdd, message_type_u8 CastRemove}"
  shows "cast_message_compare s a t b =
    Ok (bytes_compare ((if s = message_type_u8 CastAdd then 0 else 1) # a) ((if t = message_type_u8 CastAdd then 0 else 1) # b))"
proof -
  have "bytes_compare a b =
    (if take 4 a = take 4 b then bytes_compare (drop 4 a) (drop 4 b) else bytes_compare (take 4 a) (take 4 b))"
    using assms(1,2) by (intro bytes_compare_take) simp
  with assms(3,4) show ?thesis
    by (elim insertE emptyE)
      (simp_all add: cast_message_compare_def compare_slices_ok assms(1,2) message_type_u8_def)
qed

lemma cast_ranked:
  assumes "store_valid A (cast_store_def n) m" "store_valid A (cast_store_def n) m'"
  shows "cast_message_compare (ucast (md_type (m_data m))) (m_tsh m) (ucast (md_type (m_data m'))) (m_tsh m') =
    Ok (bytes_compare (cast_rank m) (cast_rank m'))"
proof -
  have n: "message_type_u8 CastAdd \<noteq> message_type_u8 CastRemove" by (simp add: message_type_u8_def)
  have t: "is_type CastAdd x \<or> is_type CastRemove x" if "store_valid A (cast_store_def n) x" for x
    using that by (auto simp: store_valid_def)
  show ?thesis
    using cast_compare [OF valid_tsh(3) [OF assms(1)] valid_tsh(3) [OF assms(2)]]
      type_byte [OF t [OF assms(1)] n] type_byte [OF t [OF assms(2)] n]
    by (simp add: cast_rank_def remove_wins_rank_def)
qed

lemma cast_index_ok:
  assumes v: "store_valid A (cast_store_def n) m" and wf: "hm_wf txn"
  shows "\<exists>txn'. cast_build_secondary_indices txn (m_tsh m) m = Ok txn' \<and> hm_wf txn' \<and>
      (\<forall>g k. overlay g txn' (root_prefix_u8 User # k) = overlay g txn (root_prefix_u8 User # k))"
    "\<exists>txn'. cast_delete_secondary_indices txn (m_tsh m) m = Ok txn' \<and> hm_wf txn' \<and>
      (\<forall>g k. overlay g txn' (root_prefix_u8 User # k) = overlay g txn (root_prefix_u8 User # k))"
proof -
  obtain b where b: "md_body (m_data m) = Some b" using cast_valid(2) [OF v] by blast
  note c = cast_indices [OF valid_data [OF v] b]
  show "\<exists>txn'. cast_build_secondary_indices txn (m_tsh m) m = Ok txn' \<and> hm_wf txn' \<and>
      (\<forall>g k. overlay g txn' (root_prefix_u8 User # k) = overlay g txn (root_prefix_u8 User # k))"
    using c(1,3) fold_puts(1) [OF wf] by (simp add: fold_puts_overlay)
  show "\<exists>txn'. cast_delete_secondary_indices txn (m_tsh m) m = Ok txn' \<and> hm_wf txn' \<and>
      (\<forall>g k. overlay g txn' (root_prefix_u8 User # k) = overlay g txn (root_prefix_u8 User # k))"
    using c(2,3) fold_puts(2) [OF wf] by (simp add: fold_puts_overlay)
qed

lemma cast_fields [simp]:
  "sd_add_message_type (cast_store_def n) = message_type_u8 CastAdd"
  "sd_remove_message_type (cast_store_def n) = message_type_u8 CastRemove"
  "sd_is_compact_state_type (cast_store_def n) m = False"
  "sd_find_merge_add_conflicts (cast_store_def n) db m = Ok ()"
  "sd_find_merge_remove_conflicts (cast_store_def n) db m = Ok ()"
  "sd_message_compare (cast_store_def n) = cast_message_compare"
  "sd_build_secondary_indices (cast_store_def n) = cast_build_secondary_indices"
  "sd_delete_secondary_indices (cast_store_def n) = cast_delete_secondary_indices"
  "sd_delete_remove_secondary_indices (cast_store_def n) txn m = Ok txn"
  "sd_merge_conflicts_override (cast_store_def n) = None"
  by (simp_all add: cast_store_def_def)

interpretation cast_slots: slotted_store A "cast_store_def n" cast_rank "\<lambda>_. {}" "\<lambda>_. {}" CastMessage CastAdds CastRemoves
  CastAdd CastRemove for A n
  using cast_slot cast_ranked cast_index_ok
  by unfold_locales (auto simp: type_to_set_postfix_def cast_rank_def dest: remove_wins_rank_tsh)

interpretation cast: message_store A "cast_store_def n" cast_rank "\<lambda>_. {}" for A n
  by (rule cast_slots.default_message_store) simp

end
