(* ===== verification/Reaction_Store.thy ===== *)
theory Reaction_Store
  imports Store_Common
begin

text \<open>
  \<open>storage/store/account/reaction_store.rs\<close>: reactions, indexed by target.  The slot of a reaction is
  its fid, type and target; the last write wins.
\<close>

section \<open>Keys\<close>

definition make_target_key :: "reaction_target \<Rightarrow> bytes" where
  "make_target_key target = (case target of TargetUrl url \<Rightarrow> as_bytes url | TargetCastId c \<Rightarrow> make_cast_id_key c)"

definition make_reactions_by_target_key :: "reaction_target \<Rightarrow> u32 \<Rightarrow> bytes option \<Rightarrow> bytes" where
  "make_reactions_by_target_key target fid ts_hash =
     root_prefix_u8 ReactionsByTarget # make_target_key target @ ts_hash_bytes ts_hash @ fid_bytes fid"

definition reaction_key :: "user_postfix \<Rightarrow> u32 \<Rightarrow> i32 \<Rightarrow> reaction_target option \<Rightarrow> (hub_error, bytes) result" where
  "reaction_key pf fid rtype target =
     (if target \<noteq> None \<and> rtype = 0
      then Err (hub_err ''bad_request.validation_failure'' ''targetId provided without type'')
      else Ok (make_user_key fid @ user_postfix_u8 pf #
             (if 0 <s rtype then [ucast rtype] else []) @
             (case target of Some t \<Rightarrow> make_target_key t | None \<Rightarrow> [])))"

definition make_reaction_adds_key :: "u32 \<Rightarrow> i32 \<Rightarrow> reaction_target option \<Rightarrow> (hub_error, bytes) result" where
  "make_reaction_adds_key fid rtype target = reaction_key ReactionAdds fid rtype target"

definition make_reaction_removes_key :: "u32 \<Rightarrow> i32 \<Rightarrow> reaction_target option \<Rightarrow> (hub_error, bytes) result" where
  "make_reaction_removes_key fid rtype target = reaction_key ReactionRemoves fid rtype target"

definition invalid_reaction_body :: hub_error where
  "invalid_reaction_body = hub_err ''bad_request.validation_failure'' ''Invalid reaction body''"

definition reaction_body_of :: "message \<Rightarrow> (hub_error, message_data \<times> reaction_body) result" where
  "reaction_body_of m =
     bind_result (message_data_of m) (\<lambda>d. bind_result (body_of d) (\<lambda>body.
       (case body of ReactionBody b \<Rightarrow> Ok (d, b) | _ \<Rightarrow> Err invalid_reaction_body)))"

definition reaction_secondary_index_key :: "bytes \<Rightarrow> message \<Rightarrow> (hub_error, bytes \<times> u8) result" where
  "reaction_secondary_index_key ts_hash m =
     bind_result (reaction_body_of m) (\<lambda>(d, b).
       (case re_target b of
          None \<Rightarrow> Err invalid_reaction_body
        | Some target \<Rightarrow>
            Ok (make_reactions_by_target_key target (ucast (md_fid d)) (Some ts_hash), ucast (re_type b))))"

section \<open>ReactionStoreDef\<close>

definition reaction_build_secondary_indices :: "txn_batch \<Rightarrow> bytes \<Rightarrow> message \<Rightarrow> (hub_error, txn_batch) result" where
  "reaction_build_secondary_indices txn ts_hash m =
     bind_result (reaction_secondary_index_key ts_hash m) (\<lambda>(by_target_key, rtype). Ok (txn_put txn by_target_key [rtype]))"

definition reaction_delete_secondary_indices :: "txn_batch \<Rightarrow> bytes \<Rightarrow> message \<Rightarrow> (hub_error, txn_batch) result" where
  "reaction_delete_secondary_indices txn ts_hash m =
     bind_result (reaction_secondary_index_key ts_hash m) (\<lambda>(by_target_key, _). Ok (txn_delete txn by_target_key))"

definition reaction_make_add_key :: "message \<Rightarrow> (hub_error, bytes) result" where
  "reaction_make_add_key m =
     bind_result (reaction_body_of m) (\<lambda>(d, b). make_reaction_adds_key (ucast (md_fid d)) (re_type b) (re_target b))"

definition reaction_make_remove_key :: "message \<Rightarrow> (hub_error, bytes) result" where
  "reaction_make_remove_key m =
     bind_result (reaction_body_of m) (\<lambda>(d, b). make_reaction_removes_key (ucast (md_fid d)) (re_type b) (re_target b))"

definition reaction_no_compact :: hub_error where
  "reaction_no_compact = hub_err ''bad_request.invalid_param'' ''Reaction Store doesn't support compact state''"

definition reaction_store_def :: "u32 \<Rightarrow> store_def" where
  "reaction_store_def prune_size_limit =
     \<lparr>sd_postfix = user_postfix_u8 ReactionMessage,
      sd_add_message_type = message_type_u8 ReactionAdd,
      sd_remove_message_type = message_type_u8 ReactionRemove,
      sd_compact_state_message_type = message_type_u8 MessageTypeNone,
      sd_is_add_type = is_type ReactionAdd,
      sd_is_remove_type = is_type ReactionRemove,
      sd_is_compact_state_type = (\<lambda>_. False),
      sd_remove_type_supported = default_remove_type_supported (message_type_u8 ReactionRemove),
      sd_build_secondary_indices = reaction_build_secondary_indices,
      sd_delete_secondary_indices = reaction_delete_secondary_indices,
      sd_delete_remove_secondary_indices = (\<lambda>txn _. Ok txn),
      sd_find_merge_add_conflicts = (\<lambda>_ _. Ok ()),
      sd_find_merge_remove_conflicts = (\<lambda>_ _. Ok ()),
      sd_make_add_key = reaction_make_add_key,
      sd_make_remove_key = reaction_make_remove_key,
      sd_make_compact_state_add_key = (\<lambda>_. Err reaction_no_compact),
      sd_make_compact_state_prefix = (\<lambda>_. Err reaction_no_compact),
      sd_prune_size_limit = prune_size_limit,
      sd_message_compare = default_message_compare (message_type_u8 ReactionAdd) (message_type_u8 ReactionRemove),
      sd_merge_conflicts_override = None,
      sd_revoke_event_args = default_revoke_event_args,
      sd_merge_event_args = default_merge_event_args (message_type_u8 MessageTypeNone),
      sd_prune_event_args = default_prune_event_args\<rparr>"

section \<open>ReactionStore\<close>

definition reaction_store_new :: "rocksdb \<Rightarrow> hub_event_id_generator \<Rightarrow> u32 \<Rightarrow> account_store" where
  "reaction_store_new db gen prune_size_limit = new_with_store_def db gen (reaction_store_def prune_size_limit)"

definition get_reaction_add ::
  "account_env \<Rightarrow> account_store \<Rightarrow> u32 \<Rightarrow> i32 \<Rightarrow> reaction_target option \<Rightarrow> (hub_error, message option) result" where
  "get_reaction_add A st fid rtype target =
     get_add A st (partial_message fid ReactionAdd (ReactionBody \<lparr>re_type = rtype, re_target = target\<rparr>))"

definition get_reaction_remove ::
  "account_env \<Rightarrow> account_store \<Rightarrow> u32 \<Rightarrow> i32 \<Rightarrow> reaction_target option \<Rightarrow> (hub_error, message option) result" where
  "get_reaction_remove A st fid rtype target =
     get_remove A st (partial_message fid ReactionRemove (ReactionBody \<lparr>re_type = rtype, re_target = target\<rparr>))"

definition reaction_filter :: "i32 \<Rightarrow> message \<Rightarrow> (hub_error, bool) result" where
  "reaction_filter reaction_type m =
     bind_result (message_data_of m) (\<lambda>d.
       Ok (case md_body d of Some (ReactionBody b) \<Rightarrow> reaction_type = 0 \<or> re_type b = reaction_type | _ \<Rightarrow> False))"

definition get_reaction_adds_by_fid ::
  "account_env \<Rightarrow> account_store \<Rightarrow> u32 \<Rightarrow> i32 \<Rightarrow> page_options \<Rightarrow> (hub_error, messages_page) result" where
  "get_reaction_adds_by_fid A st fid reaction_type opts =
     get_adds_by_fid A st fid opts (Some (reaction_filter reaction_type))"

definition get_reaction_removes_by_fid ::
  "account_env \<Rightarrow> account_store \<Rightarrow> u32 \<Rightarrow> i32 \<Rightarrow> page_options \<Rightarrow> (hub_error, messages_page) result" where
  "get_reaction_removes_by_fid A st fid reaction_type opts =
     get_removes_by_fid A st fid opts (Some (reaction_filter reaction_type))"

definition get_reactions_by_target ::
  "account_env \<Rightarrow> account_store \<Rightarrow> reaction_target \<Rightarrow> i32 \<Rightarrow> page_options \<Rightarrow> (hub_error, messages_page) result" where
  "get_reactions_by_target A st target reaction_type opts =
     get_messages_by_index A st (make_reactions_by_target_key target 0 None) opts
       (\<lambda>value. reaction_type = 0 \<or> value = [ucast reaction_type])"

section \<open>The contract\<close>

definition reaction_rank :: "message \<Rightarrow> bytes" where
  "reaction_rank = lww_rank (is_type ReactionAdd)"

lemma reaction_sel [simp]:
  "sd_postfix (reaction_store_def n) = user_postfix_u8 ReactionMessage"
  "sd_is_add_type (reaction_store_def n) = is_type ReactionAdd"
  "sd_is_remove_type (reaction_store_def n) = is_type ReactionRemove"
  "sd_add_message_type (reaction_store_def n) = message_type_u8 ReactionAdd"
  "sd_remove_message_type (reaction_store_def n) = message_type_u8 ReactionRemove"
  "sd_is_compact_state_type (reaction_store_def n) m = False"
  "sd_remove_type_supported (reaction_store_def n)"
  "\<not> compact_state_type_supported (reaction_store_def n)"
  "sd_find_merge_add_conflicts (reaction_store_def n) db m = Ok ()"
  "sd_find_merge_remove_conflicts (reaction_store_def n) db m = Ok ()"
  "sd_message_compare (reaction_store_def n) =
     default_message_compare (message_type_u8 ReactionAdd) (message_type_u8 ReactionRemove)"
  "sd_build_secondary_indices (reaction_store_def n) = reaction_build_secondary_indices"
  "sd_delete_secondary_indices (reaction_store_def n) = reaction_delete_secondary_indices"
  "sd_delete_remove_secondary_indices (reaction_store_def n) txn m = Ok txn"
  "sd_merge_conflicts_override (reaction_store_def n) = None"
  by (simp_all add: reaction_store_def_def default_remove_type_supported_def compact_state_type_supported_def
      message_type_u8_def)

lemma reaction_key_split:
  "reaction_key p fid t target = Ok k \<Longrightarrow>
     \<exists>r. k = make_user_key fid @ user_postfix_u8 p # r \<and> (\<forall>q. reaction_key q fid t target = Ok (make_user_key fid @ user_postfix_u8 q # r))"
  by (auto simp: reaction_key_def split: if_splits)

lemma reaction_slot:
  assumes "store_valid A (reaction_store_def n) m"
  shows "\<exists>r. m_akey (reaction_store_def n) m = make_user_key (m_fid m) @ user_postfix_u8 ReactionAdds # r \<and>
    m_rkey (reaction_store_def n) m = make_user_key (m_fid m) @ user_postfix_u8 ReactionRemoves # r"
proof -
  from assms obtain k where k: "reaction_make_add_key m = Ok k"
    by (auto simp: store_valid_def reaction_store_def_def)
  then obtain d b where b: "reaction_body_of m = Ok (d, b)" "make_reaction_adds_key (ucast (md_fid d)) (re_type b) (re_target b) = Ok k"
    by (auto simp: reaction_make_add_key_def bind_result_Ok_iff)
  with valid_data [OF assms] have "d = m_data m"
    by (auto simp: reaction_body_of_def message_data_of_def body_of_def split: option.splits message_body.splits)
  with b reaction_key_split [of ReactionAdds "ucast (md_fid d)" "re_type b" "re_target b" k] show ?thesis
    by (auto simp: m_akey_def m_rkey_def reaction_store_def_def reaction_make_add_key_def reaction_make_remove_key_def
        make_reaction_adds_key_def make_reaction_removes_key_def m_fid_def)
qed

lemma reaction_ranked:
  assumes "store_valid A (reaction_store_def n) m" "store_valid A (reaction_store_def n) m'"
  shows "default_message_compare (message_type_u8 ReactionAdd) (message_type_u8 ReactionRemove)
      (ucast (md_type (m_data m))) (m_tsh m) (ucast (md_type (m_data m'))) (m_tsh m') =
    Ok (bytes_compare (reaction_rank m) (reaction_rank m'))"
  using valid_kind [OF assms(1)] valid_kind [OF assms(2)] valid_tsh(3) [OF assms(1)] valid_tsh(3) [OF assms(2)]
  unfolding reaction_rank_def by (intro lww_ranked) (auto simp: message_type_u8_def)

lemma reaction_index_ok:
  assumes v: "store_valid A (reaction_store_def n) m" and wf: "hm_wf txn"
  shows "\<exists>txn'. reaction_build_secondary_indices txn (m_tsh m) m = Ok txn' \<and> hm_wf txn' \<and>
      (\<forall>g k. overlay g txn' (root_prefix_u8 User # k) = overlay g txn (root_prefix_u8 User # k))"
    "\<exists>txn'. reaction_delete_secondary_indices txn (m_tsh m) m = Ok txn' \<and> hm_wf txn' \<and>
      (\<forall>g k. overlay g txn' (root_prefix_u8 User # k) = overlay g txn (root_prefix_u8 User # k))"
proof -
  from v obtain k r where "reaction_secondary_index_key (m_tsh m) m = Ok (k, r)"
    by (auto simp: store_valid_def reaction_store_def_def reaction_build_secondary_indices_def bind_result_Ok_iff)
  moreover from this have "\<exists>k'. k = root_prefix_u8 ReactionsByTarget # k'"
    by (auto simp: reaction_secondary_index_key_def make_reactions_by_target_key_def bind_result_Ok_iff split: option.splits)
  ultimately show "\<exists>txn'. reaction_build_secondary_indices txn (m_tsh m) m = Ok txn' \<and> hm_wf txn' \<and>
      (\<forall>g k. overlay g txn' (root_prefix_u8 User # k) = overlay g txn (root_prefix_u8 User # k))"
    "\<exists>txn'. reaction_delete_secondary_indices txn (m_tsh m) m = Ok txn' \<and> hm_wf txn' \<and>
      (\<forall>g k. overlay g txn' (root_prefix_u8 User # k) = overlay g txn (root_prefix_u8 User # k))"
    using wf by (auto simp: reaction_build_secondary_indices_def reaction_delete_secondary_indices_def)
qed

interpretation reaction_slots: slotted_store A "reaction_store_def n" reaction_rank "\<lambda>_. {}" "\<lambda>_. {}"
  ReactionMessage ReactionAdds ReactionRemoves ReactionAdd ReactionRemove for A n
  using reaction_slot reaction_ranked reaction_index_ok
  by unfold_locales (auto simp: type_to_set_postfix_def reaction_rank_def dest: lww_rank_tsh [OF valid_tsh(3) valid_tsh(3)])

interpretation reaction: message_store A "reaction_store_def n" reaction_rank "\<lambda>_. {}" for A n
  by (rule reaction_slots.default_message_store) simp

end
