(* ===== verification/Name_Registry.thy ===== *)
theory Name_Registry
  imports Store_Common
begin

text \<open>
  \<open>storage/store/account/name_registry_events.rs\<close> and the name registry part of
  \<open>user_data_store.rs\<close>: the proofs that a fname belongs to a fid, stored by name and indexed by fid,
  and their merge.
\<close>

section \<open>Definitions\<close>

definition make_fname_username_proof_key :: "bytes \<Rightarrow> bytes" where
  "make_fname_username_proof_key name = root_prefix_u8 FNameUserNameProof # name"

definition make_fname_username_proof_by_fid_key :: "u32 \<Rightarrow> bytes" where
  "make_fname_username_proof_by_fid_key fid = root_prefix_u8 FNameUserNameProofByFid # make_fid_key fid"

definition proof_decode :: "account_env \<Rightarrow> bytes option \<Rightarrow> (hub_error, user_name_proof option) result" where
  "proof_decode A buf =
     (case buf of
        None \<Rightarrow> Ok None
      | Some b \<Rightarrow>
          (case ae_proof_decode A b of
             Some p \<Rightarrow> Ok (Some p)
           | None \<Rightarrow> Err (hub_err ''internal_error'' ''could not decode username proof'')))"

definition get_username_proof :: "account_env \<Rightarrow> rocksdb \<Rightarrow> bytes \<Rightarrow> (hub_error, user_name_proof option) result" where
  "get_username_proof A db name = bind_result (db_get db (make_fname_username_proof_key name)) (proof_decode A)"

definition get_fname_proof_by_fid :: "account_env \<Rightarrow> rocksdb \<Rightarrow> u32 \<Rightarrow> (hub_error, user_name_proof option) result" where
  "get_fname_proof_by_fid A db fid =
     bind_result (db_get db (make_fname_username_proof_by_fid_key fid)) (\<lambda>primary_key.
       (case primary_key of
          None \<Rightarrow> Ok None
        | Some k \<Rightarrow> bind_result (db_get db k) (proof_decode A)))"

definition put_username_proof_transaction :: "account_env \<Rightarrow> txn_batch \<Rightarrow> user_name_proof \<Rightarrow> txn_batch" where
  "put_username_proof_transaction A txn p =
     (let primary_key = make_fname_username_proof_key (unp_name p)
      in txn_put (txn_put txn primary_key (ae_proof_encode A p))
           (make_fname_username_proof_by_fid_key (ucast (unp_fid p))) primary_key)"

definition delete_username_proof_transaction ::
  "account_env \<Rightarrow> txn_batch \<Rightarrow> user_name_proof \<Rightarrow> u32 option \<Rightarrow> txn_batch" where
  "delete_username_proof_transaction A txn p existing_fid =
     (let txn1 = txn_put txn (make_fname_username_proof_key (unp_name p)) (ae_proof_encode A p)
      in case existing_fid of
           Some fid \<Rightarrow> txn_delete txn1 (make_fname_username_proof_by_fid_key fid)
         | None \<Rightarrow> txn1)"

definition username_proof_compare :: "user_name_proof \<Rightarrow> user_name_proof \<Rightarrow> int" where
  "username_proof_compare a b =
     (if unp_timestamp a < unp_timestamp b then - 1
      else if unp_timestamp a > unp_timestamp b then 1
      else bytes_compare (unp_signature a) (unp_signature b))"

text \<open>The checks of a merge, and the batch and event of the merge itself.\<close>

definition check_username_proof :: "user_name_proof option \<Rightarrow> user_name_proof \<Rightarrow> (hub_error, unit) result" where
  "check_username_proof existing p =
     (case existing of
        Some e \<Rightarrow>
          if username_proof_compare e p = 0
          then Err (hub_err ''bad_request.duplicate'' ''username proof already exists'')
          else if username_proof_compare e p > 0
          then Err (hub_err ''bad_request.conflict'' ''event conflicts with a more recent UserNameProof'')
          else Ok ()
      | None \<Rightarrow>
          if unp_fid p = 0 then Err (hub_err ''bad_request.conflict'' ''proof does not exist'') else Ok ())"

definition merge_username_proof ::
  "account_env \<Rightarrow> u64 \<Rightarrow> user_name_proof \<Rightarrow> account_store \<Rightarrow> account_store \<times> (hub_error, bytes) result" where
  "merge_username_proof A now p st =
     with_txn A now st
       (bind_result (get_username_proof A (ast_db st) (unp_name p)) (\<lambda>existing.
        bind_result (check_username_proof existing p) (\<lambda>_.
          Ok (if unp_fid p = 0
              then delete_username_proof_transaction A txn_new p (map_option (\<lambda>e. ucast (unp_fid e)) existing)
              else put_username_proof_transaction A txn_new p,
              \<lparr>ev_type = MergeUsernameProof,
               ev_body = Some (MergeUsernameProofBody
                 \<lparr>mup_username_proof = Some p, mup_deleted_username_proof = existing,
                  mup_username_proof_message = None, mup_deleted_username_proof_message = None\<rparr>),
               ev_id = 0\<rparr>))))"

section \<open>The registry\<close>

text \<open>The proof of every name; the codec returns the proofs it encoded.\<close>

definition registry_rep :: "account_env \<Rightarrow> rocksdb \<Rightarrow> (bytes \<Rightarrow> user_name_proof option) \<Rightarrow> bool" where
  "registry_rep A db R \<longleftrightarrow> db_healthy db \<and>
     (\<forall>name. db_view db (make_fname_username_proof_key name) = map_option (ae_proof_encode A) (R name)) \<and>
     (\<forall>name p. R name = Some p \<longrightarrow> unp_name p = name \<and> ae_proof_decode A (ae_proof_encode A p) = Some p)"

lemma registry_get:
  assumes "registry_rep A db R"
  shows "get_username_proof A db name = Ok (R name)"
  using assms by (cases "R name") (auto simp: registry_rep_def get_username_proof_def proof_decode_def)

lemma registry_keys [simp]:
  "make_fname_username_proof_key a = make_fname_username_proof_key b \<longleftrightarrow> a = b"
  "make_fname_username_proof_key a \<noteq> make_fname_username_proof_by_fid_key f"
  "make_fname_username_proof_by_fid_key f \<noteq> make_fname_username_proof_key a"
  "make_fname_username_proof_by_fid_key f = make_fname_username_proof_by_fid_key h \<longleftrightarrow> f = h"
  "make_event_key i \<noteq> make_fname_username_proof_key a"
  "make_event_key i \<noteq> make_fname_username_proof_by_fid_key f"
  "make_fname_username_proof_key a \<noteq> make_event_key i"
  "make_fname_username_proof_by_fid_key f \<noteq> make_event_key i"
  by (simp_all add: make_fname_username_proof_key_def make_fname_username_proof_by_fid_key_def make_event_key_def
      make_fid_key_def)

text \<open>A proof that passes the checks becomes the proof of its name, and moves the index of its fid.\<close>

lemma merge_username_proof_ok:
  assumes rep: "registry_rep A (ast_db st) R" and ok: "check_username_proof (R (unp_name p)) p = Ok ()"
    and p: "ae_proof_decode A (ae_proof_encode A p) = Some p"
    and id: "generate_id now None (ast_gen st) = (gen, Ok i)"
  shows "\<exists>st' b. merge_username_proof A now p st = (st', Ok b) \<and>
    registry_rep A (ast_db st') (R(unp_name p \<mapsto> p)) \<and>
    (\<forall>f. db_view (ast_db st') (make_fname_username_proof_by_fid_key f) =
       (if unp_fid p \<noteq> 0 \<and> f = ucast (unp_fid p) then Some (make_fname_username_proof_key (unp_name p))
        else if unp_fid p = 0 \<and> (\<exists>e. R (unp_name p) = Some e \<and> f = ucast (unp_fid e)) then None
        else db_view (ast_db st) (make_fname_username_proof_by_fid_key f)))"
proof -
  let ?t = "if unp_fid p = 0 then delete_username_proof_transaction A txn_new p (map_option (\<lambda>e. ucast (unp_fid e)) (R (unp_name p)))
    else put_username_proof_transaction A txn_new p"
  let ?e = "\<lparr>ev_type = MergeUsernameProof, ev_body = Some (MergeUsernameProofBody
      \<lparr>mup_username_proof = Some p, mup_deleted_username_proof = R (unp_name p),
       mup_username_proof_message = None, mup_deleted_username_proof_message = None\<rparr>), ev_id = 0\<rparr>"
  have wf: "hm_wf ?t"
    by (auto simp: delete_username_proof_transaction_def put_username_proof_transaction_def Let_def split: option.split)
  from rep have h: "db_healthy (ast_db st)" by (simp add: registry_rep_def)
  from commit_event_ok [OF h wf id, of A ?e] obtain db v where c:
    "commit_event A now st ?t ?e = (st\<lparr>ast_gen := gen, ast_db := db\<rparr>, Ok (ae_event_encode A (?e\<lparr>ev_id := i\<rparr>)))"
    "db_healthy db" "db_view db = (overlay (db_view (ast_db st)) ?t)(make_event_key i \<mapsto> v)" by blast
  have m: "merge_username_proof A now p st = (st\<lparr>ast_gen := gen, ast_db := db\<rparr>, Ok (ae_event_encode A (?e\<lparr>ev_id := i\<rparr>)))"
    using c(1) ok registry_get [OF rep] by (simp add: merge_username_proof_def with_txn_def)
  have "registry_rep A db (R(unp_name p \<mapsto> p))"
    using rep c(2,3) p
    by (auto simp: registry_rep_def delete_username_proof_transaction_def put_username_proof_transaction_def Let_def
        split: option.split)
  moreover have "db_view db (make_fname_username_proof_by_fid_key f) =
       (if unp_fid p \<noteq> 0 \<and> f = ucast (unp_fid p) then Some (make_fname_username_proof_key (unp_name p))
        else if unp_fid p = 0 \<and> (\<exists>e. R (unp_name p) = Some e \<and> f = ucast (unp_fid e)) then None
        else db_view (ast_db st) (make_fname_username_proof_by_fid_key f))" for f
    using c(3) by (auto simp: delete_username_proof_transaction_def put_username_proof_transaction_def Let_def split: option.split)
  ultimately show ?thesis using m by simp
qed

lemma merge_username_proof_refused:
  assumes "registry_rep A (ast_db st) R" "check_username_proof (R (unp_name p)) p = Err e"
  shows "merge_username_proof A now p st = (st, Err e)"
  using assms registry_get [OF assms(1)] by (simp add: merge_username_proof_def with_txn_def)

lemma registry_by_fid:
  assumes "registry_rep A db R" "db_view db (make_fname_username_proof_by_fid_key f) = Some (make_fname_username_proof_key name)"
  shows "get_fname_proof_by_fid A db f = Ok (R name)"
  using assms by (cases "R name") (auto simp: get_fname_proof_by_fid_def registry_rep_def proof_decode_def)

section \<open>The latest proof\<close>

text \<open>A proof that replaces the existing one: a later one, or the first of a name.\<close>

definition later_proof :: "user_name_proof \<Rightarrow> user_name_proof option \<Rightarrow> bool" where
  "later_proof p existing \<longleftrightarrow>
     (case existing of
        None \<Rightarrow> unp_fid p \<noteq> 0
      | Some e \<Rightarrow> unp_timestamp e < unp_timestamp p \<or>
          unp_timestamp e = unp_timestamp p \<and> unp_signature e < unp_signature p)"

lemma check_later:
  "check_username_proof existing p = Ok () \<longleftrightarrow> later_proof p existing"
  "\<not> later_proof p existing \<longleftrightarrow> (\<exists>e. check_username_proof existing p = Err e)"
  by (auto simp: check_username_proof_def later_proof_def username_proof_compare_def bytes_compare_lex
      split: option.split if_splits)

text \<open>
  A transfer leaves the index entry of the previous owner behind: a lookup by the old fid returns the
  new proof, which belongs to another fid.
\<close>

lemma fname_transfer_keeps_old_index:
  assumes rep: "registry_rep A (ast_db st) R" and e: "R (unp_name p) = Some e" and later: "later_proof p (Some e)"
    and p: "ae_proof_decode A (ae_proof_encode A p) = Some p" "unp_fid p \<noteq> 0"
    and old: "db_view (ast_db st) (make_fname_username_proof_by_fid_key a) = Some (make_fname_username_proof_key (unp_name p))"
      "a \<noteq> ucast (unp_fid p)"
    and id: "generate_id now None (ast_gen st) = (gen, Ok i)"
  shows "\<exists>st' b. merge_username_proof A now p st = (st', Ok b) \<and> get_fname_proof_by_fid A (ast_db st') a = Ok (Some p)"
proof -
  have "check_username_proof (R (unp_name p)) p = Ok ()" using later e by (simp add: check_later)
  from merge_username_proof_ok [OF rep this p(1) id] obtain st' b where s: "merge_username_proof A now p st = (st', Ok b)"
    "registry_rep A (ast_db st') (R(unp_name p \<mapsto> p))"
    "\<forall>f. db_view (ast_db st') (make_fname_username_proof_by_fid_key f) =
       (if unp_fid p \<noteq> 0 \<and> f = ucast (unp_fid p) then Some (make_fname_username_proof_key (unp_name p))
        else if unp_fid p = 0 \<and> (\<exists>e. R (unp_name p) = Some e \<and> f = ucast (unp_fid e)) then None
        else db_view (ast_db st) (make_fname_username_proof_by_fid_key f))" by blast
  with p(2) old registry_by_fid [OF s(2), of a "unp_name p"] show ?thesis by auto
qed

end
