(* ===== verification/User_Data_Store.thy ===== *)
theory User_Data_Store
  imports Name_Registry
begin

text \<open>
  \<open>storage/store/account/user_data_store.rs\<close>: the fields of a profile, one slot per fid and field.
  There are no removes; a newer value replaces the older one.
\<close>

section \<open>UserDataStoreDef\<close>

definition make_user_data_adds_key :: "u32 \<Rightarrow> i32 \<Rightarrow> bytes" where
  "make_user_data_adds_key fid data_type =
     make_user_key fid @ user_postfix_u8 UserDataAdds # (if 0 <s data_type then [ucast data_type] else [])"

definition user_data_make_add_key :: "message \<Rightarrow> (hub_error, bytes) result" where
  "user_data_make_add_key m =
     bind_result (message_data_of m) (\<lambda>d. bind_result (body_of d) (\<lambda>body.
       (case body of
          UserDataBody b \<Rightarrow> Ok (make_user_data_adds_key (ucast (md_fid d)) (ud_type b))
        | _ \<Rightarrow> Err (hub_err ''bad_request.invalid_param'' ''UserDataAdd message missing body''))))"

definition user_data_no_compact :: hub_error where
  "user_data_no_compact = hub_err ''bad_request.invalid_param'' ''UserDataStore doesn't support compact state''"

definition user_data_store_def :: "u32 \<Rightarrow> store_def" where
  "user_data_store_def prune_size_limit =
     \<lparr>sd_postfix = user_postfix_u8 UserDataMessage,
      sd_add_message_type = message_type_u8 UserDataAdd,
      sd_remove_message_type = message_type_u8 MessageTypeNone,
      sd_compact_state_message_type = message_type_u8 MessageTypeNone,
      sd_is_add_type = is_type UserDataAdd,
      sd_is_remove_type = (\<lambda>_. False),
      sd_is_compact_state_type = (\<lambda>_. False),
      sd_remove_type_supported = default_remove_type_supported (message_type_u8 MessageTypeNone),
      sd_build_secondary_indices = default_build_secondary_indices,
      sd_delete_secondary_indices = default_delete_secondary_indices,
      sd_delete_remove_secondary_indices = default_delete_remove_secondary_indices,
      sd_find_merge_add_conflicts = (\<lambda>_ _. Ok ()),
      sd_find_merge_remove_conflicts =
        (\<lambda>_ _. Err (hub_err ''bad_request.invalid_param'' ''UserDataStoree doesn't support merging removes'')),
      sd_make_add_key = user_data_make_add_key,
      sd_make_remove_key = (\<lambda>_. Err (hub_err ''bad_request.invalid_param'' ''removes not supported'')),
      sd_make_compact_state_add_key = (\<lambda>_. Err user_data_no_compact),
      sd_make_compact_state_prefix = (\<lambda>_. Err user_data_no_compact),
      sd_prune_size_limit = prune_size_limit,
      sd_message_compare = default_message_compare (message_type_u8 UserDataAdd) (message_type_u8 MessageTypeNone),
      sd_merge_conflicts_override = None,
      sd_revoke_event_args = default_revoke_event_args,
      sd_merge_event_args = default_merge_event_args (message_type_u8 MessageTypeNone),
      sd_prune_event_args = default_prune_event_args\<rparr>"

section \<open>UserDataStore\<close>

definition user_data_store_new :: "rocksdb \<Rightarrow> hub_event_id_generator \<Rightarrow> u32 \<Rightarrow> account_store" where
  "user_data_store_new db gen prune_size_limit = new_with_store_def db gen (user_data_store_def prune_size_limit)"

definition get_user_data_add :: "account_env \<Rightarrow> account_store \<Rightarrow> u32 \<Rightarrow> i32 \<Rightarrow> (hub_error, message option) result" where
  "get_user_data_add A st fid dtype =
     get_add A st (partial_message fid UserDataAdd (UserDataBody \<lparr>ud_type = dtype, ud_value = []\<rparr>))"

definition get_user_data_adds_by_fid ::
  "account_env \<Rightarrow> account_store \<Rightarrow> u32 \<Rightarrow> page_options \<Rightarrow> u32 option \<Rightarrow> u32 option \<Rightarrow> (hub_error, messages_page) result" where
  "get_user_data_adds_by_fid A st fid opts start_time stop_time =
     get_adds_by_fid A st fid opts (Some (\<lambda>m. Ok (is_message_in_time_range start_time stop_time m)))"

definition user_data_get_username_proof ::
  "account_env \<Rightarrow> account_store \<Rightarrow> bytes \<Rightarrow> (hub_error, user_name_proof option) result" where
  "user_data_get_username_proof A st name = get_username_proof A (ast_db st) name"

definition user_data_get_username_proof_by_fid ::
  "account_env \<Rightarrow> account_store \<Rightarrow> u32 \<Rightarrow> (hub_error, user_name_proof option) result" where
  "user_data_get_username_proof_by_fid A st fid = get_fname_proof_by_fid A (ast_db st) fid"

section \<open>The contract\<close>

definition user_data_rank :: "message \<Rightarrow> bytes" where
  "user_data_rank = lww_rank (is_type UserDataAdd)"

lemma user_data_sel [simp]:
  "sd_postfix (user_data_store_def n) = user_postfix_u8 UserDataMessage"
  "sd_is_add_type (user_data_store_def n) = is_type UserDataAdd"
  "sd_is_remove_type (user_data_store_def n) m = False"
  "sd_add_message_type (user_data_store_def n) = message_type_u8 UserDataAdd"
  "sd_remove_message_type (user_data_store_def n) = message_type_u8 MessageTypeNone"
  "sd_is_compact_state_type (user_data_store_def n) m = False"
  "\<not> sd_remove_type_supported (user_data_store_def n)"
  "\<not> compact_state_type_supported (user_data_store_def n)"
  "sd_find_merge_add_conflicts (user_data_store_def n) db m = Ok ()"
  "sd_message_compare (user_data_store_def n) =
     default_message_compare (message_type_u8 UserDataAdd) (message_type_u8 MessageTypeNone)"
  "sd_build_secondary_indices (user_data_store_def n) txn h m = Ok txn"
  "sd_delete_secondary_indices (user_data_store_def n) txn h m = Ok txn"
  "sd_delete_remove_secondary_indices (user_data_store_def n) txn m = Ok txn"
  "sd_merge_conflicts_override (user_data_store_def n) = None"
  by (simp_all add: user_data_store_def_def default_remove_type_supported_def compact_state_type_supported_def
      message_type_u8_def default_build_secondary_indices_def default_delete_secondary_indices_def
      default_delete_remove_secondary_indices_def)

lemma user_data_slot:
  assumes "store_valid A (user_data_store_def n) m"
  shows "\<exists>r. m_akey (user_data_store_def n) m = make_user_key (m_fid m) @ user_postfix_u8 UserDataAdds # r"
proof -
  from assms obtain k where "user_data_make_add_key m = Ok k"
    by (auto simp: store_valid_def user_data_store_def_def)
  with valid_data [OF assms] show ?thesis
    by (auto simp: m_akey_def user_data_store_def_def user_data_make_add_key_def message_data_of_def body_of_def
        make_user_data_adds_key_def m_fid_def split: option.splits message_body.splits)
qed

lemma user_data_ranked:
  assumes "store_valid A (user_data_store_def n) m" "store_valid A (user_data_store_def n) m'"
  shows "default_message_compare (message_type_u8 UserDataAdd) (message_type_u8 MessageTypeNone)
      (ucast (md_type (m_data m))) (m_tsh m) (ucast (md_type (m_data m'))) (m_tsh m') =
    Ok (bytes_compare (user_data_rank m) (user_data_rank m'))"
  using valid_kind [OF assms(1)] valid_kind [OF assms(2)] valid_tsh(3) [OF assms(1)] valid_tsh(3) [OF assms(2)]
  unfolding user_data_rank_def by (intro lww_ranked) (auto simp: message_type_u8_def)

interpretation user_data_slots: slotted_store A "user_data_store_def n" user_data_rank "\<lambda>_. {}" "\<lambda>_. {}"
  UserDataMessage UserDataAdds UserNameProofAdds UserDataAdd MessageTypeNone for A n
  using user_data_slot user_data_ranked
  by unfold_locales (auto simp: type_to_set_postfix_def user_data_rank_def dest: lww_rank_tsh [OF valid_tsh(3) valid_tsh(3)])

interpretation user_data: message_store A "user_data_store_def n" user_data_rank "\<lambda>_. {}" for A n
  by (rule user_data_slots.default_message_store) simp

end
