(* ===== verification/Link_Store.thy ===== *)
theory Link_Store
  imports Store_Common
begin

text \<open>
  \<open>storage/store/account/link_store.rs\<close>: links between users, indexed by target.  The slot of a link
  is its fid, its type padded to eight bytes, and its target; the last write wins.  An earlier
  version did not pad the type, so lookups, merges and deletions also visit the unpadded keys.
  Compact state messages replace many links at once.
\<close>

section \<open>Keys\<close>

definition LINK_TYPE_BYTE_SIZE :: nat where
  "LINK_TYPE_BYTE_SIZE = 8"

text \<open>\<open>Vec::resize\<close> with zero bytes: it also cuts off what is longer.\<close>

definition resize_bytes :: "nat \<Rightarrow> bytes \<Rightarrow> bytes" where
  "resize_bytes n xs = take n xs @ replicate (n - length xs) 0"

definition link_compact_state_add_key :: "u32 \<Rightarrow> string \<Rightarrow> (hub_error, bytes) result" where
  "link_compact_state_add_key fid link_type =
     Ok (make_user_key fid @ user_postfix_u8 LinkCompactStateMessage # resize_bytes LINK_TYPE_BYTE_SIZE (as_bytes link_type))"

definition link_key :: "user_postfix \<Rightarrow> string \<Rightarrow> u32 \<Rightarrow> link_body \<Rightarrow> bool \<Rightarrow> (hub_error, bytes) result" where
  "link_key pf no_type fid b padded =
     (if li_target b \<noteq> None \<and> li_type b = [] then Err (validation_failure no_type)
      else if li_type b \<noteq> [] \<and> length (li_type b) > LINK_TYPE_BYTE_SIZE
      then Err (validation_failure ''link type invalid - non-empty link type found with invalid length'')
      else Ok (make_user_key fid @ user_postfix_u8 pf #
             (if padded then resize_bytes LINK_TYPE_BYTE_SIZE (as_bytes (li_type b)) else as_bytes (li_type b)) @
             (case li_target b of None \<Rightarrow> [] | Some (TargetFid f) \<Rightarrow> make_fid_key (ucast f))))"

definition link_add_key :: "u32 \<Rightarrow> link_body \<Rightarrow> bool \<Rightarrow> (hub_error, bytes) result" where
  "link_add_key fid b padded = link_key LinkAdds ''targetId provided without type'' fid b padded"

definition link_remove_key :: "u32 \<Rightarrow> link_body \<Rightarrow> bool \<Rightarrow> (hub_error, bytes) result" where
  "link_remove_key fid b padded = link_key LinkRemoves ''targetID provided without type'' fid b padded"

definition link_body_of :: "message \<Rightarrow> (hub_error, message_data \<times> link_body) result" where
  "link_body_of m =
     (case msg_data m of
        None \<Rightarrow> Err (invalid_parameter ''invalid message data'')
      | Some d \<Rightarrow>
          (case md_body d of
             None \<Rightarrow> Err (invalid_parameter ''invalid message data body'')
           | Some (LinkBody b) \<Rightarrow> Ok (d, b)
           | Some _ \<Rightarrow> Err (invalid_parameter ''link body not specified'')))"

definition make_add_key_padded :: "message \<Rightarrow> bool \<Rightarrow> (hub_error, bytes) result" where
  "make_add_key_padded m padded = bind_result (link_body_of m) (\<lambda>(d, b). link_add_key (ucast (md_fid d)) b padded)"

definition make_remove_key_padded :: "message \<Rightarrow> bool \<Rightarrow> (hub_error, bytes) result" where
  "make_remove_key_padded m padded = bind_result (link_body_of m) (\<lambda>(d, b). link_remove_key (ucast (md_fid d)) b padded)"

definition links_by_target_key :: "link_target \<Rightarrow> u32 \<Rightarrow> bytes option \<Rightarrow> (hub_error, bytes) result" where
  "links_by_target_key target fid ts_hash =
     (if fid \<noteq> 0 \<and> (ts_hash = None \<or> ts_hash = Some [])
      then Err (validation_failure ''fid provided without timestamp hash'')
      else if ts_hash \<noteq> None \<and> fid = 0 then Err (validation_failure ''timestamp hash provided without fid'')
      else Ok (root_prefix_u8 LinksByTarget # (case target of TargetFid f \<Rightarrow> make_fid_key (ucast f)) @
             (case ts_hash of Some h \<Rightarrow> h | None \<Rightarrow> []) @ fid_bytes fid))"

definition link_secondary_index_key :: "bytes \<Rightarrow> message \<Rightarrow> (hub_error, bytes \<times> bytes) result" where
  "link_secondary_index_key ts_hash m =
     bind_result (link_body_of m) (\<lambda>(d, b).
       (case li_target b of
          None \<Rightarrow> Err (invalid_parameter ''target ID not specified'')
        | Some target \<Rightarrow>
            bind_result (links_by_target_key target (ucast (md_fid d)) (Some ts_hash)) (\<lambda>target_key.
              Ok (target_key, as_bytes (li_type b)))))"

section \<open>StoreDef for LinkStore\<close>

definition link_build_secondary_indices :: "txn_batch \<Rightarrow> bytes \<Rightarrow> message \<Rightarrow> (hub_error, txn_batch) result" where
  "link_build_secondary_indices txn ts_hash m =
     bind_result (link_secondary_index_key ts_hash m) (\<lambda>(by_target_key, rtype). Ok (txn_put txn by_target_key rtype))"

definition delete_unpadded :: "txn_batch \<Rightarrow> message \<Rightarrow> (hub_error, txn_batch) result" where
  "delete_unpadded txn m =
     (if is_type LinkAdd m then bind_result (make_add_key_padded m False) (\<lambda>k. Ok (txn_delete txn k))
      else if is_type LinkRemove m then bind_result (make_remove_key_padded m False) (\<lambda>k. Ok (txn_delete txn k))
      else Ok txn)"

definition link_delete_secondary_indices :: "txn_batch \<Rightarrow> bytes \<Rightarrow> message \<Rightarrow> (hub_error, txn_batch) result" where
  "link_delete_secondary_indices txn ts_hash m =
     bind_result (link_secondary_index_key ts_hash m) (\<lambda>(by_target_key, _).
       bind_result (delete_unpadded txn m) (\<lambda>txn1. Ok (txn_delete txn1 by_target_key)))"

definition link_delete_remove_secondary_indices :: "txn_batch \<Rightarrow> message \<Rightarrow> (hub_error, txn_batch) result" where
  "link_delete_remove_secondary_indices txn m = delete_unpadded txn m"

definition link_make_compact_state_add_key :: "message \<Rightarrow> (hub_error, bytes) result" where
  "link_make_compact_state_add_key m =
     (case msg_data m of
        None \<Rightarrow> Err (invalid_parameter ''invalid message data'')
      | Some d \<Rightarrow>
          (case md_body d of
             None \<Rightarrow> Err (invalid_parameter ''invalid message data body'')
           | Some (LinkCompactStateBody b) \<Rightarrow> link_compact_state_add_key (ucast (md_fid d)) (lc_type b)
           | Some (LinkBody b) \<Rightarrow> link_compact_state_add_key (ucast (md_fid d)) (li_type b)
           | Some _ \<Rightarrow> Err (invalid_parameter ''link_compact_body not specified'')))"

definition link_make_compact_state_prefix :: "u32 \<Rightarrow> (hub_error, bytes) result" where
  "link_make_compact_state_prefix fid = Ok (make_user_key fid @ [user_postfix_u8 LinkCompactStateMessage])"

text \<open>The definition whose conflict search is the default one, and the override that calls it.\<close>

definition link_base_def :: "u32 \<Rightarrow> store_def" where
  "link_base_def prune_size_limit =
     \<lparr>sd_postfix = user_postfix_u8 LinkMessage,
      sd_add_message_type = message_type_u8 LinkAdd,
      sd_remove_message_type = message_type_u8 LinkRemove,
      sd_compact_state_message_type = message_type_u8 LinkCompactState,
      sd_is_add_type = is_type LinkAdd,
      sd_is_remove_type = is_type LinkRemove,
      sd_is_compact_state_type = is_type LinkCompactState,
      sd_remove_type_supported = default_remove_type_supported (message_type_u8 LinkRemove),
      sd_build_secondary_indices = link_build_secondary_indices,
      sd_delete_secondary_indices = link_delete_secondary_indices,
      sd_delete_remove_secondary_indices = link_delete_remove_secondary_indices,
      sd_find_merge_add_conflicts = (\<lambda>_ _. Ok ()),
      sd_find_merge_remove_conflicts = (\<lambda>_ _. Ok ()),
      sd_make_add_key = (\<lambda>m. make_add_key_padded m True),
      sd_make_remove_key = (\<lambda>m. make_remove_key_padded m True),
      sd_make_compact_state_add_key = link_make_compact_state_add_key,
      sd_make_compact_state_prefix = link_make_compact_state_prefix,
      sd_prune_size_limit = prune_size_limit,
      sd_message_compare = default_message_compare (message_type_u8 LinkAdd) (message_type_u8 LinkRemove),
      sd_merge_conflicts_override = None,
      sd_revoke_event_args = default_revoke_event_args,
      sd_merge_event_args = default_merge_event_args (message_type_u8 LinkCompactState),
      sd_prune_event_args = default_prune_event_args\<rparr>"

definition link_get_merge_conflicts ::
  "store_def \<Rightarrow> account_env \<Rightarrow> rocksdb \<Rightarrow> message \<Rightarrow> bytes \<Rightarrow> (hub_error, message list) result" where
  "link_get_merge_conflicts D A db m ts_hash =
     bind_result (get_default_merge_conflicts A D db m ts_hash) (\<lambda>conflicts.
     bind_result (conflict_at A D db m ts_hash (sd_remove_message_type D) recent_remove (make_remove_key_padded m False)) (\<lambda>removes.
     bind_result (conflict_at A D db m ts_hash (sd_add_message_type D) recent_add (make_add_key_padded m False)) (\<lambda>adds.
       Ok (conflicts @ removes @ adds))))"

definition link_store_def :: "u32 \<Rightarrow> store_def" where
  "link_store_def prune_size_limit =
     (link_base_def prune_size_limit)
       \<lparr>sd_merge_conflicts_override := Some (link_get_merge_conflicts (link_base_def prune_size_limit))\<rparr>"

section \<open>LinkStore\<close>

definition link_store_new :: "rocksdb \<Rightarrow> hub_event_id_generator \<Rightarrow> u32 \<Rightarrow> account_store" where
  "link_store_new db gen prune_size_limit = new_with_store_def db gen (link_store_def prune_size_limit)"

definition link_partial :: "message_type \<Rightarrow> u32 \<Rightarrow> string \<Rightarrow> link_target option \<Rightarrow> message" where
  "link_partial t fid ltype target =
     partial_message fid t (LinkBody \<lparr>li_type = ltype, li_display_timestamp = None, li_target = target\<rparr>)"

text \<open>A lookup that finds nothing is tried again under the unpadded key.\<close>

definition unpadded_lookup ::
  "account_env \<Rightarrow> account_store \<Rightarrow> u32 \<Rightarrow> (hub_error, message option) result \<Rightarrow> (hub_error, bytes) result \<Rightarrow>
     (hub_error, message option) result" where
  "unpadded_lookup A st fid result key =
     (if result \<noteq> Ok None then result
      else
        bind_result key (\<lambda>unpadded_key. bind_result (db_get (ast_db st) unpadded_key) (\<lambda>message_ts_hash.
          if message_ts_hash = None then Ok None
          else
            bind_result (vec_to_u8_24 message_ts_hash) (\<lambda>h.
              get_message A (ast_db st) fid (sd_postfix (ast_def st)) h))))"

definition get_link_add ::
  "account_env \<Rightarrow> account_store \<Rightarrow> u32 \<Rightarrow> string \<Rightarrow> link_target option \<Rightarrow> (hub_error, message option) result" where
  "get_link_add A st fid ltype target =
     (let p = link_partial LinkAdd fid ltype target
      in unpadded_lookup A st fid (get_add A st p) (make_add_key_padded p False))"

definition get_link_remove ::
  "account_env \<Rightarrow> account_store \<Rightarrow> u32 \<Rightarrow> string \<Rightarrow> link_target option \<Rightarrow> (hub_error, message option) result" where
  "get_link_remove A st fid ltype target =
     (let p = link_partial LinkRemove fid ltype target
      in unpadded_lookup A st fid (get_remove A st p) (make_remove_key_padded p False))"

definition link_filter :: "string \<Rightarrow> message \<Rightarrow> (hub_error, bool) result" where
  "link_filter ltype m =
     Ok (case msg_data m of
           Some d \<Rightarrow> (case md_body d of Some (LinkBody b) \<Rightarrow> ltype = [] \<or> li_type b = ltype | _ \<Rightarrow> False)
         | None \<Rightarrow> False)"

definition get_link_adds_by_fid ::
  "account_env \<Rightarrow> account_store \<Rightarrow> u32 \<Rightarrow> string \<Rightarrow> page_options \<Rightarrow> (hub_error, messages_page) result" where
  "get_link_adds_by_fid A st fid ltype opts = get_adds_by_fid A st fid opts (Some (link_filter ltype))"

definition get_link_removes_by_fid ::
  "account_env \<Rightarrow> account_store \<Rightarrow> u32 \<Rightarrow> string \<Rightarrow> page_options \<Rightarrow> (hub_error, messages_page) result" where
  "get_link_removes_by_fid A st fid ltype opts = get_removes_by_fid A st fid opts (Some (link_filter ltype))"

definition get_link_compact_state_message_by_fid ::
  "account_env \<Rightarrow> account_store \<Rightarrow> u32 \<Rightarrow> page_options \<Rightarrow> (hub_error, messages_page) result" where
  "get_link_compact_state_message_by_fid A st fid opts = get_compact_state_messages_by_fid A st fid opts"

definition get_links_by_target ::
  "account_env \<Rightarrow> account_store \<Rightarrow> link_target \<Rightarrow> string \<Rightarrow> page_options \<Rightarrow> (hub_error, messages_page) result" where
  "get_links_by_target A st target ltype opts =
     bind_result (links_by_target_key target 0 None) (\<lambda>pfx.
       get_messages_by_index A st pfx opts (\<lambda>value. ltype = [] \<or> value = as_bytes ltype))"

section \<open>The contract\<close>

definition link_rank :: "message \<Rightarrow> bytes" where
  "link_rank = lww_rank (is_type LinkAdd)"

definition unpadded_keys :: "message \<Rightarrow> bytes set" where
  "unpadded_keys m = {ok_key (make_add_key_padded m False), ok_key (make_remove_key_padded m False)}"

text \<open>No compact state, and no unpadded keys but those that need no padding.\<close>

definition link_absent :: "message \<Rightarrow> bytes set" where
  "link_absent m =
     insert (ok_key (link_make_compact_state_add_key m))
       (unpadded_keys m - {ok_key (make_add_key_padded m True), ok_key (make_remove_key_padded m True)})"

definition link_legacy :: "message \<Rightarrow> bytes set" where
  "link_legacy m =
     {ok_key (if is_type LinkAdd m then make_add_key_padded m False else make_remove_key_padded m False)}"

text \<open>
  The same store without its compact states: what concerns the slots alone is shown for it, so that it
  also holds beside compact states (theory \<open>Link_Compact\<close>).
\<close>

definition link_plain :: "u32 \<Rightarrow> store_def" where
  "link_plain n = (link_store_def n)\<lparr>sd_compact_state_message_type := message_type_u8 MessageTypeNone\<rparr>"

definition link_padded_only :: "message \<Rightarrow> bytes set" where
  "link_padded_only m = unpadded_keys m - {ok_key (make_add_key_padded m True), ok_key (make_remove_key_padded m True)}"

lemma link_sel [simp]:
  "sd_postfix (link_store_def n) = user_postfix_u8 LinkMessage"
  "sd_is_add_type (link_store_def n) = is_type LinkAdd"
  "sd_is_remove_type (link_store_def n) = is_type LinkRemove"
  "sd_add_message_type (link_store_def n) = message_type_u8 LinkAdd"
  "sd_remove_message_type (link_store_def n) = message_type_u8 LinkRemove"
  "sd_is_compact_state_type (link_store_def n) = is_type LinkCompactState"
  "sd_remove_type_supported (link_store_def n)"
  "sd_find_merge_add_conflicts (link_store_def n) db m = Ok ()"
  "sd_find_merge_remove_conflicts (link_store_def n) db m = Ok ()"
  "sd_message_compare (link_store_def n) = default_message_compare (message_type_u8 LinkAdd) (message_type_u8 LinkRemove)"
  "sd_build_secondary_indices (link_store_def n) = link_build_secondary_indices"
  "sd_delete_secondary_indices (link_store_def n) = link_delete_secondary_indices"
  "sd_delete_remove_secondary_indices (link_store_def n) = link_delete_remove_secondary_indices"
  "sd_make_add_key (link_store_def n) m = make_add_key_padded m True"
  "sd_make_remove_key (link_store_def n) m = make_remove_key_padded m True"
  "sd_make_compact_state_add_key (link_store_def n) = link_make_compact_state_add_key"
  by (simp_all add: link_store_def_def link_base_def_def default_remove_type_supported_def message_type_u8_def)

lemma link_plain_sel [simp]:
  "sd_postfix (link_plain n) = user_postfix_u8 LinkMessage"
  "sd_is_add_type (link_plain n) = is_type LinkAdd"
  "sd_is_remove_type (link_plain n) = is_type LinkRemove"
  "sd_add_message_type (link_plain n) = message_type_u8 LinkAdd"
  "sd_remove_message_type (link_plain n) = message_type_u8 LinkRemove"
  "sd_is_compact_state_type (link_plain n) = is_type LinkCompactState"
  "sd_remove_type_supported (link_plain n)"
  "\<not> compact_state_type_supported (link_plain n)"
  "sd_find_merge_add_conflicts (link_plain n) db m = Ok ()"
  "sd_find_merge_remove_conflicts (link_plain n) db m = Ok ()"
  "sd_message_compare (link_plain n) = default_message_compare (message_type_u8 LinkAdd) (message_type_u8 LinkRemove)"
  "sd_build_secondary_indices (link_plain n) = link_build_secondary_indices"
  "sd_delete_secondary_indices (link_plain n) = link_delete_secondary_indices"
  "sd_delete_remove_secondary_indices (link_plain n) = link_delete_remove_secondary_indices"
  "sd_make_add_key (link_plain n) m = make_add_key_padded m True"
  "sd_make_remove_key (link_plain n) m = make_remove_key_padded m True"
  by (simp_all add: link_plain_def compact_state_type_supported_def)

lemma link_plain_same [simp]:
  "store_valid A (link_plain n) = store_valid A (link_store_def n)"
  "m_akey (link_plain n) = m_akey (link_store_def n)" "m_rkey (link_plain n) = m_rkey (link_store_def n)"
  "m_pkey (link_plain n) = m_pkey (link_store_def n)" "slot_key (link_plain n) = slot_key (link_store_def n)"
  "tracked (link_plain n) = tracked (link_store_def n)" "more_recent (link_plain n) = more_recent (link_store_def n)"
  "live_add (link_plain n) = live_add (link_store_def n)" "live_remove (link_plain n) = live_remove (link_store_def n)"
  by (intro ext, simp add: store_valid_def m_akey_def m_rkey_def m_pkey_def slot_key_def tracked_def more_recent_def
      live_add_def live_remove_def split: option.split)+

lemma link_plain_rep:
  assumes "store_rep A (link_store_def n) link_absent U db M"
  shows "store_rep A (link_plain n) link_padded_only U db M"
  using assms by (simp add: store_rep_def universe_def view_rep_def link_absent_def link_padded_only_def)

lemma length_resize [simp]: "length (resize_bytes n xs) = n"
  by (simp add: resize_bytes_def)

text \<open>The keys of a valid link, padded and unpadded.\<close>

lemma link_valid:
  assumes "store_valid A (link_store_def n) m"
  obtains b f where "link_body_of m = Ok (m_data m, b)" "li_target b = Some (TargetFid f)"
    "li_type b \<noteq> []" "length (li_type b) \<le> 8" "m_fid m \<noteq> 0"
proof -
  from assms obtain k txn where "make_add_key_padded m True = Ok k" "link_build_secondary_indices [] (m_tsh m) m = Ok txn"
    by (auto simp: store_valid_def)
  then obtain d b y r where b: "link_body_of m = Ok (d, b)" "link_add_key (ucast (md_fid d)) b True = Ok k"
    "link_secondary_index_key (m_tsh m) m = Ok (y, r)"
    by (auto simp: make_add_key_padded_def link_build_secondary_indices_def bind_result_Ok_iff)
  moreover have "d = m_data m" using b(1)
    by (auto simp: link_body_of_def m_data_def split: option.splits message_body.splits)
  ultimately show thesis using that
    by (auto simp: link_secondary_index_key_def link_add_key_def link_key_def links_by_target_key_def bind_result_Ok_iff
        LINK_TYPE_BYTE_SIZE_def m_fid_def split: option.splits if_splits link_target.splits)
qed

definition link_rest :: "link_body \<Rightarrow> bool \<Rightarrow> bytes" where
  "link_rest b padded =
     (if padded then resize_bytes LINK_TYPE_BYTE_SIZE (as_bytes (li_type b)) else as_bytes (li_type b)) @
     (case li_target b of None \<Rightarrow> [] | Some (TargetFid f) \<Rightarrow> make_fid_key (ucast f))"

lemma link_keys:
  assumes "link_body_of m = Ok (m_data m, b)" "li_type b \<noteq> []" "length (li_type b) \<le> 8"
  shows "make_add_key_padded m p = Ok (make_user_key (m_fid m) @ user_postfix_u8 LinkAdds # link_rest b p)"
    "make_remove_key_padded m p = Ok (make_user_key (m_fid m) @ user_postfix_u8 LinkRemoves # link_rest b p)"
    "link_make_compact_state_add_key m =
       Ok (make_user_key (m_fid m) @ user_postfix_u8 LinkCompactStateMessage # resize_bytes 8 (as_bytes (li_type b)))"
proof -
  have "msg_data m = Some (m_data m)" "md_body (m_data m) = Some (LinkBody b)"
    using assms(1) by (auto simp: link_body_of_def m_data_def split: option.splits message_body.splits)
  then show "link_make_compact_state_add_key m =
       Ok (make_user_key (m_fid m) @ user_postfix_u8 LinkCompactStateMessage # resize_bytes 8 (as_bytes (li_type b)))"
    by (simp add: link_make_compact_state_add_key_def link_compact_state_add_key_def LINK_TYPE_BYTE_SIZE_def m_fid_def)
qed (use assms in \<open>simp_all add: make_add_key_padded_def make_remove_key_padded_def link_add_key_def link_remove_key_def
      link_key_def link_rest_def LINK_TYPE_BYTE_SIZE_def m_fid_def\<close>)

lemma link_rest_length:
  assumes "li_target b = Some (TargetFid f)" "length (li_type b) \<le> 8"
  shows "length (link_rest b True) = 12"
    "length (link_rest b False) = 12 \<longleftrightarrow> link_rest b False = link_rest b True"
  using assms by (auto simp: link_rest_def LINK_TYPE_BYTE_SIZE_def as_bytes_def make_fid_key_def resize_bytes_def)

lemma link_slot:
  assumes "store_valid A (link_store_def n) m"
  shows "\<exists>r. m_akey (link_store_def n) m = make_user_key (m_fid m) @ user_postfix_u8 LinkAdds # r \<and>
    m_rkey (link_store_def n) m = make_user_key (m_fid m) @ user_postfix_u8 LinkRemoves # r \<and> length r = 12"
  using assms by (rule link_valid) (auto simp: m_akey_def m_rkey_def link_keys link_rest_length)

lemma link_unpadded:
  assumes v: "store_valid A (link_store_def n) m" and v': "store_valid A (link_store_def n) m'"
    and k: "k \<in> unpadded_keys m" "k \<in> tracked (link_store_def n) m'"
  shows "k \<in> {m_akey (link_store_def n) m, m_rkey (link_store_def n) m}"
  using v
proof (rule link_valid)
  fix b f assume b: "link_body_of m = Ok (m_data m, b)" "li_target b = Some (TargetFid f)"
    "li_type b \<noteq> []" "length (li_type b) \<le> 8" "m_fid m \<noteq> 0"
  note keys = link_keys [OF b(1,3,4)]
  from k(1) have "k = make_user_key (m_fid m) @ user_postfix_u8 LinkAdds # link_rest b False \<or>
      k = make_user_key (m_fid m) @ user_postfix_u8 LinkRemoves # link_rest b False"
    by (simp add: unpadded_keys_def keys)
  moreover from this k(2) link_slot [OF v'] have "length (link_rest b False) = 12"
    by (auto simp: tracked_def m_pkey_eq)
  ultimately show ?thesis using link_rest_length [OF b(2,4)] by (simp add: m_akey_def m_rkey_def keys)
qed

lemma link_ranked:
  assumes "store_valid A (link_store_def n) m" "store_valid A (link_store_def n) m'"
  shows "default_message_compare (message_type_u8 LinkAdd) (message_type_u8 LinkRemove)
      (ucast (md_type (m_data m))) (m_tsh m) (ucast (md_type (m_data m'))) (m_tsh m') =
    Ok (bytes_compare (link_rank m) (link_rank m'))"
  using valid_kind [OF assms(1)] valid_kind [OF assms(2)] valid_tsh(3) [OF assms(1)] valid_tsh(3) [OF assms(2)]
  unfolding link_rank_def by (intro lww_ranked) (auto simp: message_type_u8_def)

lemma link_absent_ok:
  assumes v: "store_valid A (link_store_def n) m" and k: "k \<in> link_absent m"
  shows "\<exists>k'. k = root_prefix_u8 User # k'" "store_valid A (link_store_def n) m' \<Longrightarrow> k \<notin> tracked (link_store_def n) m'"
proof -
  obtain b f where b: "link_body_of m = Ok (m_data m, b)" "li_type b \<noteq> []" "length (li_type b) \<le> 8"
    using v by (rule link_valid)
  note keys = link_keys [OF b]
  show "\<exists>k'. k = root_prefix_u8 User # k'"
    using k by (auto simp: link_absent_def unpadded_keys_def keys make_user_key_def)
  assume v': "store_valid A (link_store_def n) m'"
  show "k \<notin> tracked (link_store_def n) m'"
  proof
    assume t: "k \<in> tracked (link_store_def n) m'"
    from k have "k = ok_key (link_make_compact_state_add_key m) \<or> k \<in> unpadded_keys m"
      by (auto simp: link_absent_def)
    then show False
    proof
      assume "k = ok_key (link_make_compact_state_add_key m)"
      with t link_slot [OF v'] show False by (auto simp: keys tracked_def m_pkey_eq)
    next
      assume u: "k \<in> unpadded_keys m"
      from link_unpadded [OF v v' u t] u k keys show False
        by (auto simp: link_absent_def m_akey_def m_rkey_def)
    qed
  qed
qed

lemma link_index_key:
  assumes v: "store_valid A (link_store_def n) m"
  shows "\<exists>k r. link_secondary_index_key (m_tsh m) m = Ok (root_prefix_u8 LinksByTarget # k, r)"
proof -
  obtain b f where "link_body_of m = Ok (m_data m, b)" "li_target b = Some (TargetFid f)" "m_fid m \<noteq> 0"
    using v by (rule link_valid)
  moreover have "m_tsh m \<noteq> []" using valid_tsh(3) [OF v] by auto
  ultimately show ?thesis by (simp add: link_secondary_index_key_def links_by_target_key_def m_fid_def)
qed

lemma link_delete_unpadded:
  assumes v: "store_valid A (link_store_def n) m"
  shows "\<exists>k. link_legacy m = {k} \<and> delete_unpadded txn m = Ok (txn_delete txn k)"
proof -
  obtain b where b: "link_body_of m = Ok (m_data m, b)" "li_type b \<noteq> []" "length (li_type b) \<le> 8"
    using v by (rule link_valid)
  from valid_kind [OF v] show ?thesis by (auto simp: delete_unpadded_def link_legacy_def link_keys [OF b])
qed

lemma link_index_ok:
  assumes v: "store_valid A (link_store_def n) m" and wf: "hm_wf txn"
  shows "\<exists>txn'. link_build_secondary_indices txn (m_tsh m) m = Ok txn' \<and> hm_wf txn' \<and>
      (\<forall>g k. overlay g txn' (root_prefix_u8 User # k) = overlay g txn (root_prefix_u8 User # k))"
    "\<exists>txn'. link_delete_secondary_indices txn (m_tsh m) m = Ok txn' \<and> hm_wf txn' \<and>
      (\<forall>g k. overlay g txn' (root_prefix_u8 User # k) =
         (if root_prefix_u8 User # k \<in> link_legacy m then None else overlay g txn (root_prefix_u8 User # k)))"
    "\<exists>txn'. link_delete_remove_secondary_indices txn m = Ok txn' \<and> hm_wf txn' \<and>
      (\<forall>g k. overlay g txn' (root_prefix_u8 User # k) =
         (if root_prefix_u8 User # k \<in> link_legacy m then None else overlay g txn (root_prefix_u8 User # k)))"
proof -
  obtain j r where j: "link_secondary_index_key (m_tsh m) m = Ok (root_prefix_u8 LinksByTarget # j, r)"
    using link_index_key [OF v] by blast
  obtain u where u: "link_legacy m = {u}" "delete_unpadded txn m = Ok (txn_delete txn u)"
    using link_delete_unpadded [OF v] by blast
  show "\<exists>txn'. link_build_secondary_indices txn (m_tsh m) m = Ok txn' \<and> hm_wf txn' \<and>
      (\<forall>g k. overlay g txn' (root_prefix_u8 User # k) = overlay g txn (root_prefix_u8 User # k))"
    using j wf by (simp add: link_build_secondary_indices_def)
  show "\<exists>txn'. link_delete_secondary_indices txn (m_tsh m) m = Ok txn' \<and> hm_wf txn' \<and>
      (\<forall>g k. overlay g txn' (root_prefix_u8 User # k) =
         (if root_prefix_u8 User # k \<in> link_legacy m then None else overlay g txn (root_prefix_u8 User # k)))"
    using j u wf by (simp add: link_delete_secondary_indices_def)
  show "\<exists>txn'. link_delete_remove_secondary_indices txn m = Ok txn' \<and> hm_wf txn' \<and>
      (\<forall>g k. overlay g txn' (root_prefix_u8 User # k) =
         (if root_prefix_u8 User # k \<in> link_legacy m then None else overlay g txn (root_prefix_u8 User # k)))"
    using u wf by (simp add: link_delete_remove_secondary_indices_def)
qed

lemma link_legacy_ok:
  assumes v: "store_valid A (link_store_def n) m" and v': "store_valid A (link_store_def n) m'"
    and k: "k \<in> link_legacy m" "k \<in> tracked (link_store_def n) m'"
  shows "k = slot_key (link_store_def n) m"
proof -
  obtain b where b: "link_body_of m = Ok (m_data m, b)" "li_type b \<noteq> []" "length (li_type b) \<le> 8"
    using v by (rule link_valid)
  note keys = link_keys [OF b]
  from k(1) have "k \<in> unpadded_keys m" by (auto simp: link_legacy_def unpadded_keys_def)
  from link_unpadded [OF v v' this k(2)] k(1) show ?thesis
    by (auto simp: link_legacy_def slot_key_def m_akey_def m_rkey_def keys split: if_splits)
qed

interpretation link_slots: slotted_store A "link_store_def n" link_rank link_absent link_legacy
  LinkMessage LinkAdds LinkRemoves LinkAdd LinkRemove for A n
proof unfold_locales
  let ?D = "link_store_def n"
  fix m m' :: message and k :: bytes and txn :: txn_batch
  show "is_type LinkAdd m \<or> is_type LinkRemove m \<Longrightarrow> \<not> sd_is_compact_state_type ?D m"
    using is_type_unique by auto
  assume v: "store_valid A ?D m"
  show "k \<in> link_absent m \<Longrightarrow> (\<exists>k'. k = root_prefix_u8 User # k') \<and> (store_valid A ?D m' \<longrightarrow> k \<notin> tracked ?D m')"
    using link_absent_ok [OF v] by blast
  show "compact_state_type_supported ?D \<Longrightarrow> \<exists>k \<in> link_absent m. sd_make_compact_state_add_key ?D m = Ok k"
  proof -
    obtain b where b: "link_body_of m = Ok (m_data m, b)" "li_type b \<noteq> []" "length (li_type b) \<le> 8"
      using v by (rule link_valid)
    show "\<exists>k \<in> link_absent m. sd_make_compact_state_add_key ?D m = Ok k"
      by (simp add: link_absent_def link_keys(3) [OF b])
  qed
  show "\<exists>r. m_akey ?D m = make_user_key (m_fid m) @ user_postfix_u8 LinkAdds # r \<and>
      (sd_remove_type_supported ?D \<longrightarrow> m_rkey ?D m = make_user_key (m_fid m) @ user_postfix_u8 LinkRemoves # r)"
    using link_slot [OF v] by blast
  assume v': "store_valid A ?D m'"
  show "link_rank m = link_rank m' \<Longrightarrow> m_tsh m = m_tsh m'"
    unfolding link_rank_def by (rule lww_rank_tsh [OF valid_tsh(3) [OF v] valid_tsh(3) [OF v']])
  show "k \<in> link_legacy m \<Longrightarrow> k \<in> tracked ?D m' \<Longrightarrow> k = slot_key ?D m"
    by (rule link_legacy_ok [OF v v'])
qed (use link_index_ok link_ranked in \<open>auto simp: type_to_set_postfix_def\<close>)

interpretation plain_slots: slotted_store A "link_plain n" link_rank link_padded_only link_legacy
  LinkMessage LinkAdds LinkRemoves LinkAdd LinkRemove for A n
proof unfold_locales
  fix m m' :: message and k :: bytes
  show "is_type LinkAdd m \<or> is_type LinkRemove m \<Longrightarrow> \<not> sd_is_compact_state_type (link_plain n) m"
    using is_type_unique by auto
  assume v: "store_valid A (link_plain n) m"
  show "k \<in> link_padded_only m \<Longrightarrow> (\<exists>k'. k = root_prefix_u8 User # k') \<and>
      (store_valid A (link_plain n) m' \<longrightarrow> k \<notin> tracked (link_plain n) m')"
    using link_absent_ok [of A n m k] v by (auto simp: link_absent_def link_padded_only_def)
  show "\<exists>r. m_akey (link_plain n) m = make_user_key (m_fid m) @ user_postfix_u8 LinkAdds # r \<and>
      (sd_remove_type_supported (link_plain n) \<longrightarrow> m_rkey (link_plain n) m = make_user_key (m_fid m) @ user_postfix_u8 LinkRemoves # r)"
    using link_slot [of A n m] v by auto
  assume v': "store_valid A (link_plain n) m'"
  show "link_rank m = link_rank m' \<Longrightarrow> m_tsh m = m_tsh m'"
    unfolding link_rank_def by (rule lww_rank_tsh [OF valid_tsh(3) [OF v] valid_tsh(3) [OF v']])
  show "k \<in> link_legacy m \<Longrightarrow> k \<in> tracked (link_plain n) m' \<Longrightarrow> k = slot_key (link_plain n) m"
    using link_legacy_ok [of A n m m' k] v v' by simp
qed (use link_index_ok link_ranked in \<open>auto simp: type_to_set_postfix_def\<close>)

text \<open>The extra search finds nothing, or the same message once more.\<close>

lemma link_conflict_at:
  assumes rep: "store_rep A (link_plain n) link_padded_only U db M" and m: "m \<in> U"
    and k: "k \<in> unpadded_keys m" "key = Ok k"
    and t: "k = m_akey (link_plain n) m \<Longrightarrow> t = message_type_u8 LinkAdd"
      "k = m_rkey (link_plain n) m \<Longrightarrow> t = message_type_u8 LinkRemove"
    and older: "case M (m_akey (link_plain n) m) of None \<Rightarrow> True | Some w \<Rightarrow> link_rank w < link_rank m"
  shows "\<exists>ws. conflict_at A (link_plain n) db m (m_tsh m) t msg key = Ok ws \<and>
    set ws \<subseteq> set_option (M (m_akey (link_plain n) m))"
proof -
  let ?D = "link_plain n"
  note v = rep_valid [OF rep m]
  have "k \<in> link_padded_only m \<or> k = m_akey ?D m \<or> k = m_rkey ?D m"
    unfolding link_padded_only_def m_akey_def m_rkey_def link_plain_sel using k(1) by blast
  moreover have ?thesis if "db_view db k = None"
    using that k rep_healthy [OF rep] by (simp add: conflict_at_def)
  moreover have ?thesis if k': "k = m_akey ?D m \<or> k = m_rkey ?D m" and e: "db_view db k \<noteq> None"
  proof -
    from k' e rep_view(1,2) [OF rep m] obtain w where w: "M (m_akey ?D m) = Some w" "db_view db k = Some (m_tsh w)"
      "k = (if is_type LinkAdd w then m_akey ?D m else m_rkey ?D m)"
      using plain_slots.add_not_remove [OF v v]
      by (auto simp: live_add_def live_remove_def split: option.splits if_splits)
    with t have "t = (if sd_is_add_type ?D w then sd_add_message_type ?D else sd_remove_message_type ?D)" by simp
    from plain_slots.conflict_with_live [OF rep m w(1) this, of msg] older w k rep_healthy [OF rep]
    show ?thesis by (auto simp: conflict_at_def)
  qed
  ultimately show ?thesis using rep_view(4) [OF rep m, of k] by (cases "db_view db k = None") blast+
qed

lemma compact_type_conflicts:
  "conflict_with A (D\<lparr>sd_compact_state_message_type := t\<rparr>) = conflict_with A D"
  "conflict_at A (D\<lparr>sd_compact_state_message_type := t\<rparr>) = conflict_at A D"
  "get_default_merge_conflicts A (D\<lparr>sd_compact_state_message_type := t\<rparr>) = get_default_merge_conflicts A D"
  "get_merge_conflicts A (D\<lparr>sd_compact_state_message_type := t\<rparr>) = get_merge_conflicts A D"
proof -
  show w: "conflict_with A (D\<lparr>sd_compact_state_message_type := t\<rparr>) = conflict_with A D"
    by (intro ext) (simp add: conflict_with_def cong: if_cong)
  show c: "conflict_at A (D\<lparr>sd_compact_state_message_type := t\<rparr>) = conflict_at A D"
    by (intro ext) (simp add: conflict_at_def w cong: option.case_cong)
  show d: "get_default_merge_conflicts A (D\<lparr>sd_compact_state_message_type := t\<rparr>) = get_default_merge_conflicts A D"
    by (intro ext) (simp add: get_default_merge_conflicts_def c cong: if_cong)
  show "get_merge_conflicts A (D\<lparr>sd_compact_state_message_type := t\<rparr>) = get_merge_conflicts A D"
    by (intro ext) (simp add: get_merge_conflicts_def d cong: option.case_cong)
qed

lemma override_conflicts:
  "conflict_with A (D\<lparr>sd_merge_conflicts_override := f\<rparr>) = conflict_with A D"
  "conflict_at A (D\<lparr>sd_merge_conflicts_override := f\<rparr>) = conflict_at A D"
  "get_default_merge_conflicts A (D\<lparr>sd_merge_conflicts_override := f\<rparr>) = get_default_merge_conflicts A D"
proof -
  show w: "conflict_with A (D\<lparr>sd_merge_conflicts_override := f\<rparr>) = conflict_with A D"
    by (intro ext) (simp add: conflict_with_def cong: if_cong)
  show c: "conflict_at A (D\<lparr>sd_merge_conflicts_override := f\<rparr>) = conflict_at A D"
    by (intro ext) (simp add: conflict_at_def w cong: option.case_cong)
  show "get_default_merge_conflicts A (D\<lparr>sd_merge_conflicts_override := f\<rparr>) = get_default_merge_conflicts A D"
    by (intro ext) (simp add: get_default_merge_conflicts_def c cong: if_cong)
qed

lemma link_plain_conflicts:
  assumes rep: "store_rep A (link_plain n) link_padded_only U db M" and m: "m \<in> U"
  shows "case M (m_akey (link_plain n) m) of
       None \<Rightarrow> get_merge_conflicts A (link_plain n) db m (m_tsh m) = Ok []
     | Some w \<Rightarrow>
         if link_rank m < link_rank w
         then get_merge_conflicts A (link_plain n) db m (m_tsh m) = Err (more_recent (link_plain n) w)
         else if link_rank w = link_rank m
         then get_merge_conflicts A (link_plain n) db m (m_tsh m) = Err already_merged
         else \<exists>ws. set ws = {w} \<and> get_merge_conflicts A (link_plain n) db m (m_tsh m) = Ok ws"
proof -
  let ?D = "link_plain n"
  let ?live = "M (m_akey ?D m)"
  note v = rep_valid [OF rep m]
  have eq: "get_merge_conflicts A ?D db m (m_tsh m) =
    bind_result (get_default_merge_conflicts A ?D db m (m_tsh m)) (\<lambda>conflicts.
    bind_result (conflict_at A ?D db m (m_tsh m) (message_type_u8 LinkRemove) recent_remove (make_remove_key_padded m False)) (\<lambda>removes.
    bind_result (conflict_at A ?D db m (m_tsh m) (message_type_u8 LinkAdd) recent_add (make_add_key_padded m False)) (\<lambda>adds.
      Ok (conflicts @ removes @ adds))))"
    by (simp add: get_merge_conflicts_def link_plain_def link_store_def_def link_get_merge_conflicts_def override_conflicts
        compact_type_conflicts)
      (simp add: link_base_def_def)
  obtain b where b: "link_body_of m = Ok (m_data m, b)" "li_type b \<noteq> []" "length (li_type b) \<le> 8"
    using v by (auto elim: link_valid)
  note keys = link_keys [OF b]
  have extra: "\<exists>rs as. conflict_at A ?D db m (m_tsh m) (message_type_u8 LinkRemove) recent_remove (make_remove_key_padded m False) = Ok rs \<and>
      conflict_at A ?D db m (m_tsh m) (message_type_u8 LinkAdd) recent_add (make_add_key_padded m False) = Ok as \<and>
      set rs \<subseteq> set_option ?live \<and> set as \<subseteq> set_option ?live"
    if older: "case ?live of None \<Rightarrow> True | Some w \<Rightarrow> link_rank w < link_rank m"
    using link_conflict_at [where t = "message_type_u8 LinkRemove" and msg = recent_remove, OF rep m _ keys(2) [of False] _ _ older]
      link_conflict_at [where t = "message_type_u8 LinkAdd" and msg = recent_add, OF rep m _ keys(1) [of False] _ _ older]
    by (auto simp: unpadded_keys_def keys m_akey_def m_rkey_def)
  show ?thesis
  proof (cases ?live)
    case None
    with extra plain_slots.default_conflicts [OF rep m] show ?thesis by (auto simp: eq)
  next
    case (Some w)
    with extra plain_slots.default_conflicts [OF rep m] show ?thesis
      by (cases "link_rank m < link_rank w"; cases "link_rank w = link_rank m") (fastforce simp: eq)+
  qed
qed

interpretation plain: message_store A "link_plain n" link_rank link_padded_only for A n
  by unfold_locales (rule link_plain_conflicts)

lemma link_plain_get_conflicts: "get_merge_conflicts A (link_plain n) = get_merge_conflicts A (link_store_def n)"
  by (simp add: link_plain_def compact_type_conflicts)

interpretation link: message_store A "link_store_def n" link_rank link_absent for A n
  by unfold_locales (rule plain.conflicts [OF link_plain_rep, unfolded link_plain_get_conflicts link_plain_same])

end
