(* ===== verification/Link_Compact.thy ===== *)
theory Link_Compact
  imports Link_Store
begin

text \<open>
  Compact states of links.  A compact state message of a fid names, for one type of link, the targets
  that remain: merging it removes the older links of the fid with other targets, and later merges
  refuse links that it excludes.  The slots are those of \<open>Link_Store\<close>; beside them \<open>K\<close> holds the compact
  state under each compact key.
\<close>

section \<open>Specification\<close>

definition link_ckey :: "message \<Rightarrow> bytes" where
  "link_ckey m = ok_key (link_make_compact_state_add_key m)"

definition m_time :: "message \<Rightarrow> u32" where
  "m_time m = md_timestamp (m_data m)"

definition compact_targets :: "message \<Rightarrow> u64 list" where
  "compact_targets c = (case md_body (m_data c) of Some (LinkCompactStateBody b) \<Rightarrow> lc_target_fids b | _ \<Rightarrow> [])"

text \<open>The links that a compact state leaves out: every remove, and the adds with another target.\<close>

definition left_out :: "message \<Rightarrow> message \<Rightarrow> bool" where
  "left_out c w \<longleftrightarrow> is_type LinkRemove w \<or>
     (case link_target_fid (m_data w) of Some f \<Rightarrow> f \<notin> set (compact_targets c) | None \<Rightarrow> False)"

definition compact_valid :: "account_env \<Rightarrow> message \<Rightarrow> bool" where
  "compact_valid A c \<longleftrightarrow> message_codec_ok A c \<and> length (msg_hash c) = 20 \<and> is_type LinkCompactState c \<and>
     (\<exists>b. md_body (m_data c) = Some (LinkCompactStateBody b))"

text \<open>What the two kinds of merge do to the slots and to the compact states.\<close>

definition compact_refuses :: "(bytes \<Rightarrow> message option) \<Rightarrow> message \<Rightarrow> bool" where
  "compact_refuses K m \<longleftrightarrow> (\<exists>c. K (link_ckey m) = Some c \<and> m_time m < m_time c \<and> left_out c m)"

definition compact_outdated :: "(bytes \<Rightarrow> message option) \<Rightarrow> message \<Rightarrow> bool" where
  "compact_outdated K c \<longleftrightarrow> (\<exists>c'. K (link_ckey c) = Some c' \<and> m_time c \<le> m_time c')"

definition compacted :: "message \<Rightarrow> message \<Rightarrow> bool" where
  "compacted c w \<longleftrightarrow> m_time w \<le> m_time c \<and> left_out c w"

definition compact_slots :: "message \<Rightarrow> (bytes \<Rightarrow> message option) \<Rightarrow> (bytes \<Rightarrow> message option)" where
  "compact_slots c M s =
     (case M s of Some w \<Rightarrow> if m_fid w = m_fid c \<and> compacted c w then None else Some w | None \<Rightarrow> None)"

definition compact_accepts :: "u32 \<Rightarrow> message \<Rightarrow> (bytes \<Rightarrow> message option) \<Rightarrow> (bytes \<Rightarrow> message option) \<Rightarrow> bool" where
  "compact_accepts n m M K \<longleftrightarrow>
     (if is_type LinkCompactState m then \<not> compact_outdated K m
      else \<not> compact_refuses K m \<and> (\<forall>w. M (m_akey (link_store_def n) m) = Some w \<longrightarrow> link_rank w < link_rank m))"

definition compact_merge ::
  "u32 \<Rightarrow> message \<Rightarrow> (bytes \<Rightarrow> message option) \<Rightarrow> (bytes \<Rightarrow> message option) \<Rightarrow>
     (bytes \<Rightarrow> message option) \<times> (bytes \<Rightarrow> message option)" where
  "compact_merge n m M K =
     (if \<not> compact_accepts n m M K then (M, K)
      else if is_type LinkCompactState m then (compact_slots m M, K(link_ckey m \<mapsto> m))
      else (M(m_akey (link_store_def n) m \<mapsto> m), K))"

text \<open>No live link is one that the compact state of its fid and type refuses.\<close>

definition compact_closed :: "(bytes \<Rightarrow> message option) \<Rightarrow> (bytes \<Rightarrow> message option) \<Rightarrow> bool" where
  "compact_closed M K \<longleftrightarrow> (\<forall>s w. M s = Some w \<longrightarrow> \<not> compact_refuses K w)"

text \<open>How the database represents both.\<close>

definition compact_rep ::
  "account_env \<Rightarrow> u32 \<Rightarrow> message set \<Rightarrow> message set \<Rightarrow> rocksdb \<Rightarrow> (bytes \<Rightarrow> message option) \<Rightarrow>
     (bytes \<Rightarrow> message option) \<Rightarrow> bool" where
  "compact_rep A n U C db M K \<longleftrightarrow> store_rep A (link_plain n) link_padded_only U db M \<and> (\<forall>c \<in> C. compact_valid A c) \<and>
     (\<forall>k c. K k = Some c \<longrightarrow> c \<in> C \<and> link_ckey c = k) \<and>
     (\<forall>m \<in> U \<union> C. db_view db (link_ckey m) = map_option (message_encode A) (K (link_ckey m)))"

text \<open>The links of a fid as an iteration in the order of the keys yields them.\<close>

definition lists_links ::
  "account_env \<Rightarrow> u32 \<Rightarrow> rocksdb \<Rightarrow> u32 \<Rightarrow> (bytes \<Rightarrow> message option) \<Rightarrow> message list \<Rightarrow> bool" where
  "lists_links A n db fid M ws \<longleftrightarrow>
     ae_items A db (make_message_primary_key fid (user_postfix_u8 LinkMessage) None) default_page =
       pruned_items A (link_store_def n) ws \<and>
     set ws = {w \<in> ran M. m_fid w = fid} \<and> sorted_wrt (\<lambda>v w. m_tsh v < m_tsh w) ws"

section \<open>Compact keys are apart\<close>

definition is_ckey :: "bytes \<Rightarrow> bool" where
  "is_ckey k \<longleftrightarrow> (\<exists>fid r. k = make_user_key fid @ user_postfix_u8 LinkCompactStateMessage # r)"

lemma compact_validD:
  assumes "compact_valid A c"
  obtains b where "msg_data c = Some (m_data c)" "md_body (m_data c) = Some (LinkCompactStateBody b)"
    "link_make_compact_state_add_key c = Ok (link_ckey c)" "is_ckey (link_ckey c)"
    "message_decode A (message_encode A c) = Ok c"
    "read_compact_state_details c = Ok (m_fid c, m_time c, compact_targets c)"
    "link_ckey c = make_user_key (m_fid c) @ user_postfix_u8 LinkCompactStateMessage # resize_bytes 8 (as_bytes (lc_type b))"
proof -
  from assms obtain b where b: "md_body (m_data c) = Some (LinkCompactStateBody b)" "msg_data c = Some (m_data c)"
    using is_typeD(1) [of LinkCompactState c] by (auto simp: compact_valid_def)
  then have k: "link_make_compact_state_add_key c = Ok (make_user_key (m_fid c) @
      user_postfix_u8 LinkCompactStateMessage # resize_bytes 8 (as_bytes (lc_type b)))"
    by (simp add: link_make_compact_state_add_key_def link_compact_state_add_key_def LINK_TYPE_BYTE_SIZE_def m_fid_def)
  with assms b show thesis
    by (intro that [of b]) (auto simp: link_ckey_def is_ckey_def message_roundtrip compact_valid_def compact_targets_def
        read_compact_state_details_def m_fid_def m_time_def)
qed

lemma link_ckey_valid:
  assumes "store_valid A (link_store_def n) m"
  obtains b where "link_body_of m = Ok (m_data m, b)" "link_make_compact_state_add_key m = Ok (link_ckey m)"
    "is_ckey (link_ckey m)"
    "link_ckey m = make_user_key (m_fid m) @ user_postfix_u8 LinkCompactStateMessage # resize_bytes 8 (as_bytes (li_type b))"
proof -
  obtain b where b: "link_body_of m = Ok (m_data m, b)" "li_type b \<noteq> []" "length (li_type b) \<le> 8"
    using assms by (rule link_valid)
  with link_keys(3) [OF b] show thesis by (intro that [of b]) (auto simp: link_ckey_def is_ckey_def)
qed

lemma ckey_free:
  assumes v: "store_valid A (link_store_def n) m" and k: "is_ckey k"
  shows "k \<notin> tracked (link_store_def n) m" "k \<notin> link_padded_only m" "k \<notin> link_legacy m" "k \<noteq> make_event_key i"
    "k \<noteq> slot_key (link_store_def n) m" "k \<noteq> m_pkey (link_store_def n) m"
proof -
  obtain b where b: "link_body_of m = Ok (m_data m, b)" "li_type b \<noteq> []" "length (li_type b) \<le> 8"
    using v by (rule link_valid)
  show "k \<notin> tracked (link_store_def n) m" "k \<noteq> slot_key (link_store_def n) m" "k \<noteq> m_pkey (link_store_def n) m"
    using k link_slot [OF v] by (auto simp: is_ckey_def tracked_def slot_key_def m_pkey_eq)
  show "k \<noteq> make_event_key i" using k by (auto simp: is_ckey_def make_event_key_def make_user_key_def)
  show "k \<notin> link_padded_only m" "k \<notin> link_legacy m"
    using k by (auto simp: is_ckey_def link_padded_only_def unpadded_keys_def link_legacy_def link_keys [OF b] split: if_splits)
qed

lemma ckey_user: "is_ckey k \<Longrightarrow> \<exists>k'. k = root_prefix_u8 User # k'"
  by (auto simp: is_ckey_def make_user_key_def)

section \<open>Batches leave the compact keys alone\<close>

context slotted_store
begin

lemma delete_one_frame:
  assumes w: "store_valid A D w" and wf: "hm_wf txn" and t: "delete_one D txn w = Ok t"
    and k: "k = root_prefix_u8 User # k'" "k \<notin> legacy w" "k \<noteq> slot_key D w" "k \<noteq> m_pkey D w"
  shows "overlay g t k = overlay g txn k"
proof (cases "sd_is_add_type D w")
  case True
  obtain t1 where "sd_delete_secondary_indices D txn (m_tsh w) w = Ok t1"
    "\<And>g k. overlay g t1 (root_prefix_u8 User # k) =
       (if root_prefix_u8 User # k \<in> legacy w then None else overlay g txn (root_prefix_u8 User # k))"
    using deletes [OF w True wf] by blast
  with True one_kind [OF True] not_compact [OF w] w primary [OF w] t k show ?thesis
    by (auto simp: delete_one_def delete_add_transaction_def delete_message_transaction_def valid_ts_hash valid_keys slot_key_def)
next
  case False
  note r = valid_remove [OF w False]
  obtain t1 where "sd_delete_remove_secondary_indices D txn w = Ok t1"
    "\<And>g k. overlay g t1 (root_prefix_u8 User # k) =
       (if root_prefix_u8 User # k \<in> legacy w then None else overlay g txn (root_prefix_u8 User # k))"
    using deletes_remove [OF w False wf] by blast
  with False r not_compact [OF w] w primary [OF w] t k show ?thesis
    by (auto simp: delete_one_def delete_remove_transaction_def delete_message_transaction_def valid_keys slot_key_def)
qed

lemma put_frame:
  assumes m: "store_valid A D m" and wf: "hm_wf txn" and t: "put_transaction A D txn m = Ok t"
    and k: "k = root_prefix_u8 User # k'" "k \<noteq> slot_key D m" "k \<noteq> m_pkey D m"
  shows "overlay g t k = overlay g txn k"
proof (cases "sd_is_add_type D m")
  case True
  let ?t = "txn_put (txn_put txn (m_pkey D m) (message_encode A m)) (m_akey D m) (m_tsh m)"
  have "hm_wf ?t" using wf by simp
  from builds [OF m True this] obtain t1 where "sd_build_secondary_indices D ?t (m_tsh m) m = Ok t1"
    "\<And>g k. overlay g t1 (root_prefix_u8 User # k) = overlay g ?t (root_prefix_u8 User # k)" by blast
  with True primary [OF m] m t k show ?thesis
    by (simp add: put_transaction_def put_add_transaction_def put_message_transaction_def valid_keys slot_key_def)
next
  case False
  with valid_remove [OF m False] primary [OF m] m t k show ?thesis
    by (auto simp: put_transaction_def put_remove_transaction_def put_message_transaction_def valid_keys slot_key_def)
qed

end

lemma delete_many_frame:
  assumes "\<forall>w \<in> set ws. store_valid A (link_store_def n) w" "hm_wf txn" "delete_many_transaction (link_plain n) txn ws = Ok t"
    "is_ckey k"
  shows "overlay g t k = overlay g txn k"
  using assms(1-3)
proof (induction ws arbitrary: txn)
  case (Cons w ws)
  from Cons.prems have w: "store_valid A (link_plain n) w" by simp
  from plain_slots.delete_one_ok [OF w Cons.prems(2)] obtain t1 where t1: "delete_one (link_plain n) txn w = Ok t1" "hm_wf t1"
    by blast
  obtain k' where "k = root_prefix_u8 User # k'" using ckey_user [OF assms(4)] by blast
  from plain_slots.delete_one_frame [OF w Cons.prems(2) t1(1) this] ckey_free [of A n w k] w assms(4)
  have "overlay g t1 k = overlay g txn k" by simp
  moreover have "overlay g t k = overlay g t1 k" using Cons t1 by simp
  ultimately show ?case by simp
qed simp

text \<open>The end of a merge writes the batch and the event.\<close>

lemma with_txn_view:
  assumes "db_healthy (ast_db st)" "hm_wf txn" "generate_id now None (ast_gen st) = (gen, Ok i)"
  shows "\<exists>db y. with_txn A now st (Ok (txn, ev)) =
      (st\<lparr>ast_gen := gen, ast_db := db\<rparr>, Ok (ae_event_encode A (ev\<lparr>ev_id := i\<rparr>))) \<and> db_healthy db \<and>
    db_view db = (overlay (db_view (ast_db st)) txn)(make_event_key i \<mapsto> y)"
  using commit_event_ok [OF assms] by (simp add: with_txn_def)

lemma with_txn_def_update: "with_txn A now (st\<lparr>ast_def := D\<rparr>) r = apfst (ast_def_update (\<lambda>_. D)) (with_txn A now st r)"
  by (auto simp: with_txn_def commit_event_def split: result.split prod.split)

lemma view_rep_cong:
  assumes "view_rep A D absent U g M" "sd_remove_type_supported D"
    and "\<And>m k. m \<in> U \<Longrightarrow> k \<in> tracked D m \<union> absent m \<Longrightarrow> g' k = g k"
  shows "view_rep A D absent U g' M"
  using assms by (simp add: view_rep_def tracked_def)

section \<open>Merging a link\<close>

lemma compact_repD:
  assumes "compact_rep A n U C db M K"
  shows "store_rep A (link_plain n) link_padded_only U db M" "db_healthy db"
    "m \<in> U \<Longrightarrow> store_valid A (link_store_def n) m" "c \<in> C \<Longrightarrow> compact_valid A c"
    "K k = Some c \<Longrightarrow> c \<in> C \<and> link_ckey c = k"
    "m \<in> U \<union> C \<Longrightarrow> db_view db (link_ckey m) = map_option (message_encode A) (K (link_ckey m))"
  using assms rep_valid [of A "link_plain n" link_padded_only U db M m] rep_healthy [of A "link_plain n" link_padded_only U db M]
  by (auto simp: compact_rep_def)

lemma link_ckeys:
  assumes "compact_rep A n U C db M K" "m \<in> U \<union> C"
  shows "link_make_compact_state_add_key m = Ok (link_ckey m)" "is_ckey (link_ckey m)"
proof -
  have "link_make_compact_state_add_key m = Ok (link_ckey m) \<and> is_ckey (link_ckey m)"
  proof (cases "m \<in> U")
    case True
    from link_ckey_valid [OF compact_repD(3) [OF assms(1) True]] show ?thesis by metis
  next
    case False
    with assms(2) have "m \<in> C" by simp
    from compact_validD [OF compact_repD(4) [OF assms(1) this]] show ?thesis by metis
  qed
  then show "link_make_compact_state_add_key m = Ok (link_ckey m)" "is_ckey (link_ckey m)" by simp_all
qed

lemma link_compact_sel [simp]:
  "compact_state_type_supported (link_store_def n)"
  by (simp add: compact_state_type_supported_def link_store_def_def link_base_def_def message_type_u8_def)

lemma link_stored_state:
  assumes rep: "compact_rep A n U C (ast_db st) M K" and m: "m \<in> U" and D: "ast_def st = link_store_def n"
  shows "stored_compact_state A st m = Ok (map_option (\<lambda>c. (m_time c, compact_targets c)) (K (link_ckey m)))"
proof (cases "K (link_ckey m)")
  case None
  with compact_repD(2,6) [OF rep] link_ckeys [OF rep, of m] m D show ?thesis by (simp add: stored_compact_state_def)
next
  case (Some c)
  with compact_repD(4,5) [OF rep] have "compact_valid A c" by blast
  then obtain b where "message_decode A (message_encode A c) = Ok c"
    "read_compact_state_details c = Ok (m_fid c, m_time c, compact_targets c)" by (rule compact_validD)
  with Some compact_repD(2,6) [OF rep] link_ckeys [OF rep, of m] m D show ?thesis by (simp add: stored_compact_state_def)
qed

definition link_check :: "account_env \<Rightarrow> account_store \<Rightarrow> message \<Rightarrow> (hub_error, unit) result" where
  "link_check A st m = (if is_type LinkAdd m then check_add_compact A st m else check_remove_compact A st m)"

lemma link_check_cases:
  assumes rep: "compact_rep A n U C (ast_db st) M K" and m: "m \<in> U" and D: "ast_def st = link_store_def n"
  shows "if compact_refuses K m then \<exists>e. link_check A st m = Err e else link_check A st m = Ok ()"
proof -
  note v = compact_repD(3) [OF rep m] and s = link_stored_state [OF rep m D]
  obtain b f where b: "link_body_of m = Ok (m_data m, b)" "li_target b = Some (TargetFid f)" using v by (rule link_valid)
  then have d: "msg_data m = Some (m_data m)" "link_target_fid (m_data m) = Some f"
    by (auto simp: link_body_of_def m_data_def link_target_fid_def split: option.splits message_body.splits)
  have "is_type LinkAdd m \<longleftrightarrow> \<not> is_type LinkRemove m" using valid_kind [OF v] is_type_unique by auto
  with s d D show ?thesis
    by (cases "K (link_ckey m)") (auto simp: link_check_def check_add_compact_def check_remove_compact_def compact_refuses_def
        left_out_def message_data_of_def m_time_def)
qed

text \<open>A merge of a link is the check and the merge of the plain store.\<close>

lemma merge_link_eq:
  assumes v: "store_valid A (link_store_def n) m" and D: "ast_def st = link_store_def n"
  shows "merge A now m st = with_txn A now st (bind_result (link_check A st m) (\<lambda>_.
      bind_result (get_merge_conflicts A (link_plain n) (ast_db st) m (m_tsh m)) (\<lambda>ws.
      bind_result (delete_many_transaction (link_store_def n) txn_new ws) (\<lambda>txn1.
      bind_result (put_transaction A (link_plain n) txn1 m) (\<lambda>txn2. Ok (txn2, sd_merge_event_args (link_plain n) m ws))))))"
proof -
  have k: "is_type LinkAdd m \<or> is_type LinkRemove m \<and> \<not> is_type LinkAdd m" "\<not> is_type LinkCompactState m"
    using valid_kind [OF v] is_type_unique by auto
  have put: "put_add_transaction A (link_plain n) = put_add_transaction A (link_store_def n)"
    "put_remove_transaction A (link_plain n) = put_remove_transaction A (link_store_def n)"
    by (intro ext, simp add: put_add_transaction_def put_remove_transaction_def)+
  have ev: "sd_merge_event_args (link_plain n) = sd_merge_event_args (link_store_def n)" by (simp add: link_plain_def)
  from k v D show ?thesis
    by (auto simp: merge_def Let_def valid_tsh merge_add_def merge_remove_def put put_transaction_def
        rocksdb_txn_def link_check_def ev link_plain_get_conflicts)
qed

lemma delete_one_plain:
  assumes "store_valid A (link_store_def n) w"
  shows "delete_one (link_store_def n) txn w = delete_one (link_plain n) txn w"
proof -
  have "\<not> is_type LinkCompactState w" using valid_kind [OF assms] is_type_unique by auto
  then show ?thesis by (simp add: delete_one_def delete_add_transaction_def delete_remove_transaction_def cong: if_cong)
qed

lemma delete_many_plain:
  assumes "\<forall>w \<in> set ws. store_valid A (link_store_def n) w"
  shows "delete_many_transaction (link_store_def n) txn ws = delete_many_transaction (link_plain n) txn ws"
  using assms
proof (induction ws arbitrary: txn)
  case (Cons w ws)
  with delete_one_plain [of A n w] show ?case by simp
qed simp

lemma link_write:
  assumes sr: "store_rep A (link_plain n) link_padded_only U (ast_db st) M" and m: "m \<in> U"
    and id: "generate_id now None (ast_gen st) = (gen, Ok i)"
    and ws: "set ws = (case M (m_akey (link_store_def n) m) of None \<Rightarrow> {} | Some w \<Rightarrow> {w})"
  shows "\<exists>db. with_txn A now st
      (bind_result (delete_many_transaction (link_store_def n) txn_new ws) (\<lambda>txn1.
       bind_result (put_transaction A (link_plain n) txn1 m) (\<lambda>txn2. Ok (txn2, ev)))) =
      (st\<lparr>ast_gen := gen, ast_db := db\<rparr>, Ok (ae_event_encode A (ev\<lparr>ev_id := i\<rparr>))) \<and>
    store_rep A (link_plain n) link_padded_only U db (M(m_akey (link_store_def n) m \<mapsto> m)) \<and>
    (\<forall>k. is_ckey k \<longrightarrow> db_view db k = db_view (ast_db st) k)"
proof -
  let ?P = "link_plain n" and ?g = "db_view (ast_db st)"
  have v: "store_valid A ?P x" if "x \<in> U" for x using rep_valid [OF sr that] .
  have vws: "\<forall>w \<in> set ws. store_valid A (link_store_def n) w"
    using ws rep_live [OF sr] v by (auto split: option.splits)
  note many = delete_many_plain [OF vws]
  from plain.delete_conflicts_ok [OF sr, of ws m] ws obtain t1 where t1: "delete_many_transaction ?P txn_new ws = Ok t1" "hm_wf t1"
    by auto
  from plain_slots.put_ok [OF v [OF m] t1(2)] obtain t2 where t2: "put_transaction A ?P t1 m = Ok t2" "hm_wf t2" by blast
  from with_txn_view [OF rep_healthy [OF sr] t2(2) id, of A ev] obtain db y where c: "with_txn A now st (Ok (t2, ev)) =
      (st\<lparr>ast_gen := gen, ast_db := db\<rparr>, Ok (ae_event_encode A (ev\<lparr>ev_id := i\<rparr>)))" "db_healthy db"
    "db_view db = (overlay ?g t2)(make_event_key i \<mapsto> y)" by blast
  have "store_rep A ?P link_padded_only U db (M(m_akey (link_store_def n) m \<mapsto> m))"
    using plain.merge_write_ok [OF sr m id, of ws ev] ws c(1) t1(1) t2(1) by auto
  moreover have "db_view db k = ?g k" if k: "is_ckey k" for k
  proof -
    obtain k' where "k = root_prefix_u8 User # k'" using ckey_user [OF k] by blast
    note put = plain_slots.put_frame [OF v [OF m] t1(2) t2(1) this]
    have "store_valid A (link_store_def n) m" using v [OF m] by simp
    from ckey_free [OF this k] put delete_many_frame [OF vws _ t1(1) k] c(3) show ?thesis by simp
  qed
  ultimately show ?thesis using c(1) t1(1) t2(1) many by auto
qed

text \<open>What a refused and an accepted link leave behind.\<close>

lemma compact_merge_link:
  assumes rep: "compact_rep A n U C (ast_db st) M K" and m: "m \<in> U" and D: "ast_def st = link_store_def n"
    and id: "generate_id now None (ast_gen st) = (gen, Ok i)"
  shows "\<exists>st' r. merge A now m st = (st', r) \<and> ast_def st' = link_store_def n \<and>
    compact_rep A n U C (ast_db st') (if compact_refuses K m then M else lww (link_store_def n) link_rank m M) K \<and>
    ((\<exists>b. r = Ok b) \<longleftrightarrow> \<not> compact_refuses K m \<and>
       (\<forall>w. M (m_akey (link_store_def n) m) = Some w \<longrightarrow> link_rank w < link_rank m))"
proof (cases "compact_refuses K m")
  case True
  with link_check_cases [OF rep m D] obtain e where "link_check A st m = Err e" by auto
  with True rep D show ?thesis by (simp add: merge_link_eq [OF compact_repD(3) [OF rep m] D] with_txn_def)
next
  case False
  let ?live = "M (m_akey (link_store_def n) m)"
  note sr = compact_repD(1) [OF rep] and eq = merge_link_eq [OF compact_repD(3) [OF rep m] D]
  have check: "link_check A st m = Ok ()" using link_check_cases [OF rep m D] False by simp
  note c = plain.conflicts [OF sr m, unfolded link_plain_same]
  show ?thesis
  proof (cases "\<forall>w. ?live = Some w \<longrightarrow> link_rank w < link_rank m")
    case True
    then have up: "lww (link_store_def n) link_rank m M = M(m_akey (link_store_def n) m \<mapsto> m)"
      by (cases ?live) (simp_all add: lww_def)
    from True c obtain ws where ws: "get_merge_conflicts A (link_plain n) (ast_db st) m (m_tsh m) = Ok ws"
      "set ws = (case ?live of None \<Rightarrow> {} | Some w \<Rightarrow> {w})"
      by (cases ?live) (auto simp: less_not_sym [THEN eq_False [THEN iffD2]] split: if_splits)
    from link_write [OF sr m id ws(2), of "sd_merge_event_args (link_plain n) m ws"] obtain db where w:
      "merge A now m st = (st\<lparr>ast_gen := gen, ast_db := db\<rparr>,
         Ok (ae_event_encode A ((sd_merge_event_args (link_plain n) m ws)\<lparr>ev_id := i\<rparr>)))"
      "store_rep A (link_plain n) link_padded_only U db (M(m_akey (link_store_def n) m \<mapsto> m))"
      "\<And>k. is_ckey k \<Longrightarrow> db_view db k = db_view (ast_db st) k" by (auto simp: eq check ws(1))
    have "compact_rep A n U C db (M(m_akey (link_store_def n) m \<mapsto> m)) K"
      using rep w(2,3) link_ckeys(2) [OF rep] by (simp add: compact_rep_def)
    with w(1) D False True up show ?thesis by simp
  next
    case refused: False
    then obtain w where w: "?live = Some w" "\<not> link_rank w < link_rank m" by blast
    with c obtain e where "get_merge_conflicts A (link_plain n) (ast_db st) m (m_tsh m) = Err e"
      by (cases "link_rank m < link_rank w") auto
    with w rep D False show ?thesis by (simp add: eq check with_txn_def lww_def)
  qed
qed

section \<open>Merging a compact state\<close>

context store_keys
begin

lemma delete_many_view:
  assumes U: "universe A D U" and "view_rep A D absent U (overlay g txn) M" "hm_wf txn"
    "\<forall>w \<in> set ws. M (m_akey D w) = Some w" "distinct ws"
  shows "\<exists>txn'. delete_many_transaction D txn ws = Ok txn' \<and> hm_wf txn' \<and> view_rep A D absent U (overlay g txn') (drop_slots D ws M)"
  using assms(2-)
proof (induction ws arbitrary: txn M)
  case (Cons w ws)
  have valid: "store_valid A D x" if "x \<in> U" for x using U that by (simp add: universe_def)
  have w: "M (m_akey D w) = Some w" using Cons.prems(3) by simp
  with Cons.prems(1) have wU: "w \<in> U" by (simp add: view_rep_def)
  from delete_one_ok [OF valid [OF wU] Cons.prems(2)] obtain t where t: "delete_one D txn w = Ok t" "hm_wf t"
    "\<And>m k. store_valid A D m \<Longrightarrow> k \<in> tracked D m \<Longrightarrow>
       overlay g t k = (if k = slot_key D w \<or> k = m_pkey D w then None else overlay g txn k)"
    "\<And>m k. store_valid A D m \<Longrightarrow> k \<in> absent m \<Longrightarrow> overlay g txn k = None \<Longrightarrow> overlay g t k = None"
    by blast
  have view: "view_rep A D absent U (overlay g t) (M(m_akey D w := None))"
  proof (rule view_rep_delete [OF U Cons.prems(1) w])
    fix x k assume x: "x \<in> U"
    show "overlay g t k = (if k = slot_key D w \<or> k = m_pkey D w then None else overlay g txn k)" if "k \<in> tracked D x"
      using t(3) [OF valid [OF x] that] .
    show "overlay g t k = None" if "k \<in> absent x"
      using t(4) [OF valid [OF x] that] view_rep_keys(4) [where absent = absent, OF Cons.prems(1) x that] by simp
  qed
  have live: "\<forall>x \<in> set ws. (M(m_akey D w := None)) (m_akey D x) = Some x"
  proof
    fix x assume "x \<in> set ws"
    with Cons.prems(3,4) have "M (m_akey D x) = Some x" "x \<noteq> w" by auto
    with w show "(M(m_akey D w := None)) (m_akey D x) = Some x" by (metis fun_upd_other option.inject)
  qed
  from Cons.prems(4) have "distinct ws" by simp
  from Cons.IH [OF view t(2) live this] t(1) show ?case
    by (simp only: delete_many_transaction.simps bind_result_simps drop_slots_simps)
qed simp

end

lemma delete_many_append:
  "delete_many_transaction D txn (xs @ ys) = bind_result (delete_many_transaction D txn xs) (\<lambda>t. delete_many_transaction D t ys)"
proof (induction xs arbitrary: txn)
  case (Cons x xs)
  then show ?case by (cases "delete_one D txn x") simp_all
qed simp

lemma tsh_time: "m_tsh v < m_tsh w \<Longrightarrow> m_time v \<le> m_time w"
  by (auto simp: m_tsh_def m_time_def list_less_same_length)

text \<open>The walk over the links of the fid stops at the first later one.\<close>

lemma compact_loop:
  assumes "\<forall>w \<in> set ws. store_valid A (link_store_def n) w" "sorted_wrt (\<lambda>v w. m_tsh v < m_tsh w) ws"
  shows "\<exists>b. prefix_loop (compact_step A (link_store_def n) (m_time c) (compact_targets c)) (pruned_items A (link_store_def n) ws) acc =
    (acc @ filter (compacted c) ws, Ok b)"
  using assms
proof (induction ws arbitrary: acc)
  case (Cons w ws)
  have v: "store_valid A (link_store_def n) w" using Cons.prems by simp
  then have d: "message_decode A (message_encode A w) = Ok w" "msg_data w = Some (m_data w)"
    by (simp_all add: store_valid_def message_roundtrip valid_data [OF v])
  have k: "is_type LinkAdd w \<longleftrightarrow> \<not> is_type LinkRemove w" using valid_kind [OF v] is_type_unique by auto
  show ?case
  proof (cases "m_time w \<le> m_time c")
    case True
    with d k have "compact_step A (link_store_def n) (m_time c) (compact_targets c) acc (m_pkey (link_store_def n) w) (message_encode A w) =
        (acc @ filter (compacted c) [w], Ok False)"
      by (auto simp: compact_step_def compacted_def left_out_def message_data_of_def m_time_def split: option.split)
    with Cons.IH [of "acc @ filter (compacted c) [w]"] Cons.prems show ?thesis
      by (cases "compacted c w") (simp_all add: pruned_items_def)
  next
    case False
    then have late: "\<not> compacted c x" if "x \<in> set (w # ws)" for x
      using that Cons.prems(2) tsh_time [of w x] by (auto simp: compacted_def)
    then have "filter (compacted c) (w # ws) = []" by (simp add: filter_empty_conv)
    moreover have "compact_step A (link_store_def n) (m_time c) (compact_targets c) acc (m_pkey (link_store_def n) w) (message_encode A w) =
        (acc, Ok True)"
      using False d by (auto simp: compact_step_def message_data_of_def m_time_def)
    ultimately show ?thesis by (auto simp: pruned_items_def simp del: filter.simps)
  qed
qed (auto simp: pruned_items_def)

lemma compact_conflicts_eq:
  assumes rep: "compact_rep A n U C (ast_db st) M K" and c: "c \<in> C" and D: "ast_def st = link_store_def n"
    and ws: "lists_links A n (ast_db st) (m_fid c) M ws"
  shows "if compact_outdated K c then \<exists>e. compact_conflicts A st c = Err e
    else compact_conflicts A st c =
      Ok ((case K (link_ckey c) of None \<Rightarrow> [] | Some c' \<Rightarrow> [c']) @ filter (compacted c) ws)"
proof -
  note key = link_ckeys [OF rep, of c] and view = compact_repD(6) [OF rep, of c] and h = compact_repD(2) [OF rep]
  obtain b where b: "msg_data c = Some (m_data c)" "read_compact_state_details c = Ok (m_fid c, m_time c, compact_targets c)"
    using compact_repD(4) [OF rep c] by (rule compact_validD)
  have live: "\<forall>w \<in> set ws. store_valid A (link_store_def n) w"
    using ws rep_live [OF compact_repD(1) [OF rep]] compact_repD(3) [OF rep] by (auto simp: lists_links_def ran_def)
  have ex: "existing_compact_state A st c =
      (if compact_outdated K c then Err (hub_err ''bad_request.conflict'' ''A newer Compact State message is already merged'')
       else Ok (case K (link_ckey c) of None \<Rightarrow> [] | Some c' \<Rightarrow> [c']))"
  proof (cases "K (link_ckey c)")
    case None
    with key view h c D show ?thesis by (simp add: existing_compact_state_def compact_outdated_def)
  next
    case (Some c')
    with compact_repD(4,5) [OF rep] have "compact_valid A c'" by blast
    then obtain b' where "message_decode A (message_encode A c') = Ok c'" "msg_data c' = Some (m_data c')"
      by (rule compact_validD)
    with Some key view h c D b show ?thesis
      by (auto simp: existing_compact_state_def compact_outdated_def message_data_of_def m_time_def not_less)
  qed
  show ?thesis
  proof (cases "compact_outdated K c")
    case True
    with ex show ?thesis by (simp add: compact_conflicts_def)
  next
    case False
    from compact_loop [OF live, of c] ws obtain y where
      "prefix_loop (compact_step A (link_store_def n) (m_time c) (compact_targets c))
         (ae_items A (ast_db st) (make_message_primary_key (m_fid c) (user_postfix_u8 LinkMessage) None) default_page)
         (case K (link_ckey c) of None \<Rightarrow> [] | Some c' \<Rightarrow> [c']) =
       ((case K (link_ckey c) of None \<Rightarrow> [] | Some c' \<Rightarrow> [c']) @ filter (compacted c) ws, Ok y)"
      by (auto simp: lists_links_def)
    with False ex b(2) D show ?thesis by (simp add: compact_conflicts_def)
  qed
qed

text \<open>The links that go are those of the fid that the compact state leaves out.\<close>

lemma compact_slots_eq:
  assumes live: "\<And>s w. M s = Some w \<Longrightarrow> m_akey (link_store_def n) w = s"
    and ws: "set ws = {w \<in> ran M. m_fid w = m_fid c}"
  shows "drop_slots (link_plain n) (filter (compacted c) ws) M = compact_slots c M"
proof
  fix s
  have "s \<in> m_akey (link_store_def n) ` set (filter (compacted c) ws) \<longleftrightarrow>
      (\<exists>w. M s = Some w \<and> m_fid w = m_fid c \<and> compacted c w)"
    using live ws by (auto simp: ran_def image_iff)
  then show "drop_slots (link_plain n) (filter (compacted c) ws) M s = compact_slots c M s"
    by (auto simp: drop_slots_eq compact_slots_def split: option.split)
qed

lemma sorted_tsh_distinct: "sorted_wrt (\<lambda>v w. m_tsh v < m_tsh w) ws \<Longrightarrow> distinct ws"
  by (induction ws) auto

lemma compact_write:
  assumes rep: "compact_rep A n U C (ast_db st) M K" and c: "c \<in> C"
    and id: "generate_id now None (ast_gen st) = (gen, Ok i)"
    and ws: "lists_links A n (ast_db st) (m_fid c) M ws"
    and cs: "cs = (case K (link_ckey c) of None \<Rightarrow> [] | Some c' \<Rightarrow> [c']) @ filter (compacted c) ws"
  shows "\<exists>db. with_txn A now st
      (bind_result (delete_many_transaction (link_store_def n) txn_new cs) (\<lambda>txn1.
       bind_result (put_add_compact_state_transaction A (link_store_def n) txn1 c) (\<lambda>txn2. Ok (txn2, ev)))) =
      (st\<lparr>ast_gen := gen, ast_db := db\<rparr>, Ok (ae_event_encode A (ev\<lparr>ev_id := i\<rparr>))) \<and>
    compact_rep A n U C db (compact_slots c M) (K(link_ckey c \<mapsto> c))"
proof -
  let ?P = "link_plain n" and ?g = "db_view (ast_db st)" and ?older = "case K (link_ckey c) of None \<Rightarrow> [] | Some c' \<Rightarrow> [c']"
  note sr = compact_repD(1) [OF rep] and key = link_ckeys [OF rep, of c] and v = compact_repD(3) [OF rep]
  have U: "universe A ?P U" "view_rep A ?P link_padded_only U ?g M" using sr by (simp_all add: store_rep_def)
  have free: "k \<noteq> link_ckey c \<and> k \<noteq> make_event_key i" if "x \<in> U" "k \<in> tracked ?P x \<union> link_padded_only x" for x k
    using ckey_free [OF v [OF that(1)] key(2)] c that plain_slots.event_key_free [of A n x k i] v [OF that(1)] by auto
  have "\<exists>t0. delete_many_transaction (link_store_def n) txn_new ?older = Ok t0 \<and> hm_wf t0 \<and>
      (\<forall>g k. k \<noteq> link_ckey c \<longrightarrow> overlay g t0 k = g k)"
  proof (cases "K (link_ckey c)")
    case (Some c')
    from compact_repD(5) [OF rep Some] have c': "c' \<in> C" "link_ckey c' = link_ckey c" by auto
    then have "is_type LinkCompactState c'" using compact_repD(4) [OF rep] by (simp add: compact_valid_def)
    then have "\<not> is_type LinkRemove c'" using is_type_unique by blast
    with Some c' \<open>is_type LinkCompactState c'\<close> link_ckeys(1) [OF rep, of c'] show ?thesis
      by (simp add: delete_one_def delete_compact_state_transaction_def)
  qed simp
  then obtain t0 where t0: "delete_many_transaction (link_store_def n) txn_new ?older = Ok t0" "hm_wf t0"
    "\<And>g k. k \<noteq> link_ckey c \<Longrightarrow> overlay g t0 k = g k" by blast
  have live: "\<forall>w \<in> set ws. M (m_akey (link_store_def n) w) = Some w" "\<forall>w \<in> set ws. store_valid A (link_store_def n) w"
    using ws rep_live [OF sr] v by (auto simp: lists_links_def ran_def)
  have v0: "view_rep A ?P link_padded_only U (overlay ?g t0) M"
    using t0(3) free by (intro view_rep_cong [OF U(2)]) auto
  from plain_slots.delete_many_view [OF U(1) v0 t0(2), of "filter (compacted c) ws"] live ws obtain t1 where t1:
    "delete_many_transaction ?P t0 (filter (compacted c) ws) = Ok t1" "hm_wf t1"
    "view_rep A ?P link_padded_only U (overlay ?g t1) (drop_slots ?P (filter (compacted c) ws) M)"
    using sorted_tsh_distinct by (auto simp: lists_links_def)
  have fws: "\<forall>w \<in> set (filter (compacted c) ws). store_valid A (link_store_def n) w" using live(2) by simp
  have del: "delete_many_transaction (link_store_def n) txn_new cs = Ok t1"
    using t0(1) t1(1) delete_many_plain [OF fws] by (simp add: cs delete_many_append)
  let ?t2 = "txn_put t1 (link_ckey c) (message_encode A c)"
  have put: "put_add_compact_state_transaction A (link_store_def n) t1 c = Ok ?t2" "hm_wf ?t2"
    using key(1) c t1(2) by (simp_all add: put_add_compact_state_transaction_def)
  from with_txn_view [OF compact_repD(2) [OF rep] put(2) id, of A ev] obtain db y where w:
    "with_txn A now st (Ok (?t2, ev)) = (st\<lparr>ast_gen := gen, ast_db := db\<rparr>, Ok (ae_event_encode A (ev\<lparr>ev_id := i\<rparr>)))"
    "db_healthy db" "db_view db = (overlay ?g ?t2)(make_event_key i \<mapsto> y)" by blast
  have "view_rep A ?P link_padded_only U (db_view db) (compact_slots c M)"
  proof -
    have "drop_slots ?P (filter (compacted c) ws) M = compact_slots c M"
      using rep_live [OF sr] ws by (intro compact_slots_eq) (auto simp: lists_links_def)
    with t1(3) w(3) free show ?thesis by (auto intro!: view_rep_cong [where g = "overlay ?g t1"])
  qed
  moreover have "db_view db (link_ckey x) = map_option (message_encode A) ((K(link_ckey c \<mapsto> c)) (link_ckey x))"
    if x: "x \<in> U \<union> C" for x
  proof -
    note kx = link_ckeys(2) [OF rep x]
    have "link_ckey x \<noteq> make_event_key i" using kx by (auto simp: is_ckey_def make_event_key_def make_user_key_def)
    then show ?thesis
      using w(3) delete_many_frame [OF fws t0(2) t1(1) kx] t0(3) compact_repD(6) [OF rep x] by simp
  qed
  ultimately have "compact_rep A n U C db (compact_slots c M) (K(link_ckey c \<mapsto> c))"
    using rep U(1) w(2) c by (auto simp: compact_rep_def store_rep_def)
  with w(1) del put(1) show ?thesis by auto
qed

lemma compact_merge_state:
  assumes rep: "compact_rep A n U C (ast_db st) M K" and c: "c \<in> C" and D: "ast_def st = link_store_def n"
    and id: "generate_id now None (ast_gen st) = (gen, Ok i)" and ws: "lists_links A n (ast_db st) (m_fid c) M ws"
  shows "\<exists>st' r. merge A now c st = (st', r) \<and> ast_def st' = link_store_def n \<and>
    ((\<exists>b. r = Ok b) \<longleftrightarrow> \<not> compact_outdated K c) \<and>
    (if compact_outdated K c then st' = st else compact_rep A n U C (ast_db st') (compact_slots c M) (K(link_ckey c \<mapsto> c)))"
proof -
  have cv: "compact_valid A c" using compact_repD(4) [OF rep c] .
  then have d: "msg_data c = Some (m_data c)" by (rule compact_validD)
  with cv D have eq: "merge A now c st = merge_compact_state A now c st"
    by (simp add: merge_def Let_def message_data_of_def make_ts_hash_def HASH_LENGTH_def compact_valid_def)
  show ?thesis
  proof (cases "compact_outdated K c")
    case True
    with compact_conflicts_eq [OF rep c D ws] obtain e where "compact_conflicts A st c = Err e" by auto
    with True D show ?thesis by (simp add: eq merge_compact_state_def with_txn_def)
  next
    case False
    let ?cs = "(case K (link_ckey c) of None \<Rightarrow> [] | Some c' \<Rightarrow> [c']) @ filter (compacted c) ws"
    from compact_conflicts_eq [OF rep c D ws] False have "compact_conflicts A st c = Ok ?cs" by simp
    with compact_write [OF rep c id ws refl, of "sd_merge_event_args (link_store_def n) c ?cs"] False D show ?thesis
      by (auto simp: eq merge_compact_state_def rocksdb_txn_def)
  qed
qed

section \<open>Compact states are respected\<close>

lemma compact_closed_lww:
  assumes "compact_closed M K" "\<not> compact_refuses K m"
  shows "compact_closed (lww (link_store_def n) link_rank m M) K"
  using assms by (auto simp: compact_closed_def lww_def split: option.splits if_splits)

lemma same_ckey_fid:
  assumes "compact_rep A n U C db M K" "w \<in> U" "c \<in> C" "link_ckey w = link_ckey c"
  shows "m_fid w = m_fid c"
proof (rule link_ckey_valid [OF compact_repD(3) [OF assms(1,2)]])
  fix b assume "link_ckey w = make_user_key (m_fid w) @ user_postfix_u8 LinkCompactStateMessage # resize_bytes 8 (as_bytes (li_type b))"
  with assms(4) have w: "link_ckey c =
      make_user_key (m_fid w) @ user_postfix_u8 LinkCompactStateMessage # resize_bytes 8 (as_bytes (li_type b))" by simp
  show ?thesis by (rule compact_validD [OF compact_repD(4) [OF assms(1,3)]]) (use w in simp)
qed

lemma compact_closed_state:
  assumes rep: "compact_rep A n U C db M K" and c: "c \<in> C" and closed: "compact_closed M K"
  shows "compact_closed (compact_slots c M) (K(link_ckey c \<mapsto> c))"
  unfolding compact_closed_def
proof (intro allI impI)
  fix s w assume "compact_slots c M s = Some w"
  then have w: "M s = Some w" "\<not> (m_fid w = m_fid c \<and> compacted c w)"
    by (auto simp: compact_slots_def split: option.splits if_splits)
  have "w \<in> U" using rep_live [OF compact_repD(1) [OF rep] w(1)] by simp
  with same_ckey_fid [OF rep this c] w closed show "\<not> compact_refuses (K(link_ckey c \<mapsto> c)) w"
    by (auto simp: compact_refuses_def compact_closed_def compacted_def)
qed

lemma merge_compact_link:
  assumes rep: "compact_rep A n U C (ast_db st) M K" and closed: "compact_closed M K" and m: "m \<in> U"
    and D: "ast_def st = link_store_def n" and id: "generate_id now None (ast_gen st) = (gen, Ok i)"
  shows "\<exists>st' r. merge A now m st = (st', r) \<and> ast_def st' = link_store_def n \<and>
    ((\<exists>b. r = Ok b) \<longleftrightarrow> compact_accepts n m M K) \<and>
    (case compact_merge n m M K of (M', K') \<Rightarrow> compact_rep A n U C (ast_db st') M' K' \<and> compact_closed M' K')"
proof -
  let ?M = "if compact_refuses K m then M else lww (link_store_def n) link_rank m M"
  have t: "\<not> is_type LinkCompactState m" using valid_kind [OF compact_repD(3) [OF rep m]] is_type_unique by auto
  from compact_merge_link [OF rep m D id] obtain st' r where s: "merge A now m st = (st', r)" "ast_def st' = link_store_def n"
    "compact_rep A n U C (ast_db st') ?M K" "(\<exists>b. r = Ok b) \<longleftrightarrow> compact_accepts n m M K"
    using t by (auto simp: compact_accepts_def)
  have "compact_merge n m M K = (?M, K)"
    using t by (cases "M (m_akey (link_store_def n) m)") (auto simp: compact_merge_def compact_accepts_def lww_def)
  moreover have "compact_closed ?M K" using closed compact_closed_lww by simp
  ultimately show ?thesis using s by simp
qed

lemma merge_compact_message:
  assumes rep: "compact_rep A n U C (ast_db st) M K" and closed: "compact_closed M K" and m: "m \<in> U \<union> C"
    and D: "ast_def st = link_store_def n" and id: "generate_id now None (ast_gen st) = (gen, Ok i)"
    and ws: "lists_links A n (ast_db st) (m_fid m) M ws"
  shows "\<exists>st' r. merge A now m st = (st', r) \<and> ast_def st' = link_store_def n \<and>
    ((\<exists>b. r = Ok b) \<longleftrightarrow> compact_accepts n m M K) \<and>
    (case compact_merge n m M K of (M', K') \<Rightarrow> compact_rep A n U C (ast_db st') M' K' \<and> compact_closed M' K')"
proof (cases "m \<in> U")
  case False
  with m have c: "m \<in> C" by simp
  then have t: "is_type LinkCompactState m" using compact_repD(4) [OF rep] by (simp add: compact_valid_def)
  from compact_merge_state [OF rep c D id ws] t rep closed compact_closed_state [OF rep c closed] show ?thesis
    by (auto simp: compact_accepts_def compact_merge_def split: if_splits)
qed (rule merge_compact_link [OF rep closed _ D id])

text \<open>
  The links that go when only older ones do: every remove, and the adds whose target is not listed.
  The walk over the links also takes those with the timestamp of the compact state; without such a tie
  both are the same.
\<close>

definition compact_older :: "message \<Rightarrow> (bytes \<Rightarrow> message option) \<Rightarrow> (bytes \<Rightarrow> message option)" where
  "compact_older c M s =
     (case M s of
        Some w \<Rightarrow> if m_fid w = m_fid c \<and> m_time w < m_time c \<and> left_out c w then None else Some w
      | None \<Rightarrow> None)"

definition compact_tie :: "message \<Rightarrow> (bytes \<Rightarrow> message option) \<Rightarrow> bool" where
  "compact_tie c M \<longleftrightarrow> (\<exists>w \<in> ran M. m_fid w = m_fid c \<and> m_time w = m_time c)"

lemma compact_slots_older: "\<not> compact_tie c M \<Longrightarrow> compact_slots c M = compact_older c M"
  by (fastforce simp: compact_slots_def compact_older_def compacted_def compact_tie_def ran_def fun_eq_iff
      split: option.splits)

end
