(* ===== verification/Verification_Store.thy ===== *)
theory Verification_Store
  imports Store_Common
begin

text \<open>
  \<open>storage/store/account/verification_store.rs\<close>: verified addresses.  The slot is the fid and the
  address; an address is indexed by the one fid that verified it last, across all fids.
\<close>

section \<open>VerificationStoreDef\<close>

definition Ethereum :: i32 where "Ethereum = 0"
definition Solana :: i32 where "Solana = 1"

definition verification_is_add_type :: "message \<Rightarrow> bool" where
  "verification_is_add_type m \<longleftrightarrow> is_type VerificationAddEthAddress m \<and>
     (case md_body (m_data m) of
        Some (VerificationAddAddressBody b) \<Rightarrow> va_protocol b = Ethereum \<or> va_protocol b = Solana
      | _ \<Rightarrow> False)"

definition verification_is_remove_type :: "message \<Rightarrow> bool" where
  "verification_is_remove_type m \<longleftrightarrow> is_type VerificationRemove m \<and>
     (case md_body (m_data m) of
        Some (VerificationRemoveBody b) \<Rightarrow> vr_protocol b = Ethereum \<or> vr_protocol b = Solana
      | _ \<Rightarrow> False)"

definition make_verification_by_address_key :: "bytes \<Rightarrow> bytes" where
  "make_verification_by_address_key address = root_prefix_u8 VerificationByAddress # address"

definition make_verification_adds_key :: "u32 \<Rightarrow> bytes \<Rightarrow> bytes" where
  "make_verification_adds_key fid address = make_user_key fid @ user_postfix_u8 VerificationAdds # address"

definition make_verification_removes_key :: "u32 \<Rightarrow> bytes \<Rightarrow> bytes" where
  "make_verification_removes_key fid address = make_user_key fid @ user_postfix_u8 VerificationRemoves # address"

definition address_empty :: hub_error where
  "address_empty = hub_err ''bad_request.invalid_param'' ''address empty''"

definition invalid_verification_body :: hub_error where
  "invalid_verification_body = hub_err ''bad_request.validation_failure'' ''Invalid verification body''"

text \<open>The address of an add; the error differs between the callers.\<close>

definition add_address :: "hub_error \<Rightarrow> message \<Rightarrow> (hub_error, message_data \<times> bytes) result" where
  "add_address e m =
     bind_result (message_data_of m) (\<lambda>d. bind_result (body_of d) (\<lambda>body.
       (case body of VerificationAddAddressBody b \<Rightarrow> Ok (d, va_address b) | _ \<Rightarrow> Err e)))"

definition verification_address :: "message \<Rightarrow> (hub_error, message_data \<times> bytes) result" where
  "verification_address m =
     bind_result (message_data_of m) (\<lambda>d. bind_result (body_of d) (\<lambda>body.
       (case body of
          VerificationAddAddressBody b \<Rightarrow> Ok (d, va_address b)
        | VerificationRemoveBody b \<Rightarrow> Ok (d, vr_address b)
        | _ \<Rightarrow> Err invalid_verification_body)))"

definition verification_build_secondary_indices :: "txn_batch \<Rightarrow> bytes \<Rightarrow> message \<Rightarrow> (hub_error, txn_batch) result" where
  "verification_build_secondary_indices txn ts_hash m =
     bind_result (add_address address_empty m) (\<lambda>(d, address).
       if address = [] then Err address_empty
       else Ok (txn_put txn (make_verification_by_address_key address) (make_fid_key (ucast (md_fid d)))))"

definition verification_delete_secondary_indices :: "txn_batch \<Rightarrow> bytes \<Rightarrow> message \<Rightarrow> (hub_error, txn_batch) result" where
  "verification_delete_secondary_indices txn ts_hash m =
     bind_result (add_address address_empty m) (\<lambda>(d, address).
       if address = [] then Err address_empty else Ok (txn_delete txn (make_verification_by_address_key address)))"

definition verification_make_add_key :: "message \<Rightarrow> (hub_error, bytes) result" where
  "verification_make_add_key m =
     bind_result (verification_address m) (\<lambda>(d, address). Ok (make_verification_adds_key (ucast (md_fid d)) address))"

definition verification_make_remove_key :: "message \<Rightarrow> (hub_error, bytes) result" where
  "verification_make_remove_key m =
     bind_result (verification_address m) (\<lambda>(d, address). Ok (make_verification_removes_key (ucast (md_fid d)) address))"

definition verification_no_compact :: hub_error where
  "verification_no_compact = hub_err ''bad_request.invalid_param'' ''Verification Store doesn't support compact state''"

definition verification_base_def :: "u32 \<Rightarrow> store_def" where
  "verification_base_def prune_size_limit =
     \<lparr>sd_postfix = user_postfix_u8 VerificationMessage,
      sd_add_message_type = message_type_u8 VerificationAddEthAddress,
      sd_remove_message_type = message_type_u8 VerificationRemove,
      sd_compact_state_message_type = message_type_u8 MessageTypeNone,
      sd_is_add_type = verification_is_add_type,
      sd_is_remove_type = verification_is_remove_type,
      sd_is_compact_state_type = (\<lambda>_. False),
      sd_remove_type_supported = default_remove_type_supported (message_type_u8 VerificationRemove),
      sd_build_secondary_indices = verification_build_secondary_indices,
      sd_delete_secondary_indices = verification_delete_secondary_indices,
      sd_delete_remove_secondary_indices = (\<lambda>txn _. Ok txn),
      sd_find_merge_add_conflicts = (\<lambda>_ _. Ok ()),
      sd_find_merge_remove_conflicts = (\<lambda>_ _. Ok ()),
      sd_make_add_key = verification_make_add_key,
      sd_make_remove_key = verification_make_remove_key,
      sd_make_compact_state_add_key = (\<lambda>_. Err verification_no_compact),
      sd_make_compact_state_prefix = (\<lambda>_. Err verification_no_compact),
      sd_prune_size_limit = prune_size_limit,
      sd_message_compare =
        default_message_compare (message_type_u8 VerificationAddEthAddress) (message_type_u8 VerificationRemove),
      sd_merge_conflicts_override = None,
      sd_revoke_event_args = default_revoke_event_args,
      sd_merge_event_args = default_merge_event_args (message_type_u8 MessageTypeNone),
      sd_prune_event_args = default_prune_event_args\<rparr>"

text \<open>The add of another fid for the same address, as an additional conflict.\<close>

definition other_fid_conflict ::
  "store_def \<Rightarrow> account_env \<Rightarrow> rocksdb \<Rightarrow> message \<Rightarrow> message_data \<Rightarrow> bytes \<Rightarrow> u32 \<Rightarrow> (hub_error, message list) result" where
  "other_fid_conflict D A db m d address fid =
     (case db_get db (make_verification_adds_key fid address) of
        Ok (Some existing_ts_hash) \<Rightarrow>
          bind_result (make_ts_hash (md_timestamp d) (msg_hash m)) (\<lambda>ts_hash.
          bind_result (sd_message_compare D (sd_add_message_type D) existing_ts_hash (sd_add_message_type D) ts_hash) (\<lambda>c.
            if c > 0 then Err (hub_err ''bad_request.conflict'' ''message conflicts with a more recent add'')
            else if c = 0 then Err (hub_err ''bad_request.conflict'' ''message has already been merged'')
            else
              bind_result (vec_to_u8_24 (Some existing_ts_hash)) (\<lambda>h.
              bind_result (get_message A db fid (sd_postfix D) h) (\<lambda>found.
                Ok (case found of Some x \<Rightarrow> [x] | None \<Rightarrow> [])))))
      | Panic p \<Rightarrow> Panic p
      | _ \<Rightarrow> Ok [])"

definition verification_get_merge_conflicts ::
  "store_def \<Rightarrow> account_env \<Rightarrow> rocksdb \<Rightarrow> message \<Rightarrow> bytes \<Rightarrow> (hub_error, message list) result" where
  "verification_get_merge_conflicts D A db m ts_hash =
     bind_result (get_default_merge_conflicts A D db m ts_hash) (\<lambda>conflicts.
       if sd_is_remove_type D m then Ok conflicts
       else
         bind_result (add_address invalid_verification_body m) (\<lambda>(d, address).
           (case db_get db (make_verification_by_address_key address) of
              Ok (Some b) \<Rightarrow>
                bind_result (read_fid_key b) (\<lambda>fid.
                  if fid > 0 \<and> fid \<noteq> ucast (md_fid d)
                  then bind_result (other_fid_conflict D A db m d address fid) (\<lambda>others. Ok (conflicts @ others))
                  else Ok conflicts)
            | Panic p \<Rightarrow> Panic p
            | _ \<Rightarrow> Ok conflicts)))"

definition verification_store_def :: "u32 \<Rightarrow> store_def" where
  "verification_store_def prune_size_limit =
     (verification_base_def prune_size_limit)
       \<lparr>sd_merge_conflicts_override := Some (verification_get_merge_conflicts (verification_base_def prune_size_limit))\<rparr>"

section \<open>VerificationStore\<close>

definition verification_store_new :: "rocksdb \<Rightarrow> hub_event_id_generator \<Rightarrow> u32 \<Rightarrow> account_store" where
  "verification_store_new db gen prune_size_limit = new_with_store_def db gen (verification_store_def prune_size_limit)"

definition get_verification_add :: "account_env \<Rightarrow> account_store \<Rightarrow> u32 \<Rightarrow> bytes \<Rightarrow> (hub_error, message option) result" where
  "get_verification_add A st fid address =
     get_add A st (partial_message fid VerificationAddEthAddress
       (VerificationAddAddressBody \<lparr>va_address = address, va_claim_signature = [], va_block_hash = [],
          va_verification_type = 0, va_chain_id = 0, va_protocol = 0\<rparr>))"

definition get_verification_remove :: "account_env \<Rightarrow> account_store \<Rightarrow> u32 \<Rightarrow> bytes \<Rightarrow> (hub_error, message option) result" where
  "get_verification_remove A st fid address =
     get_remove A st (partial_message fid VerificationRemove
       (VerificationRemoveBody \<lparr>vr_address = address, vr_protocol = 0\<rparr>))"

definition get_verification_adds_by_fid ::
  "account_env \<Rightarrow> account_store \<Rightarrow> u32 \<Rightarrow> page_options \<Rightarrow> (hub_error, messages_page) result" where
  "get_verification_adds_by_fid A st fid opts = get_adds_by_fid A st fid opts None"

definition get_verification_removes_by_fid ::
  "account_env \<Rightarrow> account_store \<Rightarrow> u32 \<Rightarrow> page_options \<Rightarrow> (hub_error, messages_page) result" where
  "get_verification_removes_by_fid A st fid opts = get_removes_by_fid A st fid opts None"

subsection \<open>migrate\_verifications\<close>

text \<open>
  The batch of one migrated message, and whether a duplicate was dropped; the iteration reads a
  snapshot, the callback reads and commits to the database itself.
\<close>

definition migrate_batch ::
  "account_env \<Rightarrow> account_store \<Rightarrow> message \<Rightarrow> message_data \<Rightarrow> bytes \<Rightarrow> (hub_error, txn_batch \<times> bool) result" where
  "migrate_batch A st m d address =
     (let D = ast_def st; txn = rocksdb_txn (ast_db st); fid = ucast (md_fid d);
          by_address_key = make_verification_by_address_key address
      in case db_get (ast_db st) by_address_key of
           Ok (Some b) \<Rightarrow>
             bind_result (read_fid_key b) (\<lambda>existing_fid.
               (case get_verification_add A st existing_fid address of
                  Ok (Some existing) \<Rightarrow>
                    bind_result (message_data_of existing) (\<lambda>de.
                      (case (make_ts_hash (md_timestamp d) (msg_hash m), make_ts_hash (md_timestamp de) (msg_hash existing)) of
                         (Ok ts_hash, Ok existing_ts_hash) \<Rightarrow>
                           bind_result (sd_message_compare D (sd_add_message_type D) existing_ts_hash
                                (sd_add_message_type D) ts_hash) (\<lambda>c.
                             if c = 0 then Ok (txn, False)
                             else if c > 0
                             then bind_result (delete_message_transaction txn m) (\<lambda>t.
                                    Ok (txn_put t by_address_key (make_fid_key existing_fid), True))
                             else bind_result (delete_message_transaction txn existing) (\<lambda>t.
                                    Ok (txn_put t by_address_key (make_fid_key fid), True)))
                       | _ \<Rightarrow> Err (hub_err ''bad_request'' ''failed to make tsHash'')))
                | Panic p \<Rightarrow> Panic p
                | _ \<Rightarrow> Err (not_found ''verification not found'')))
         | Panic p \<Rightarrow> Panic p
         | _ \<Rightarrow> Ok (txn_put txn by_address_key (make_fid_key fid), False))"

definition migrate_commit ::
  "account_store \<times> u32 \<times> u32 \<Rightarrow> (hub_error, txn_batch \<times> bool) result \<Rightarrow>
     (account_store \<times> u32 \<times> u32) \<times> (hub_error, bool) result" where
  "migrate_commit s r =
     (case s of (st, verifications, duplicates) \<Rightarrow>
        (case r of
           Ok (txn, dup) \<Rightarrow>
             if dup \<and> duplicates = - 1 \<or> verifications = - 1 then (s, Panic add_overflow)
             else
               (let duplicates' = (if dup then duplicates + 1 else duplicates) in
                case db_commit (ast_db st) txn of
                  (db, Ok _) \<Rightarrow> ((st\<lparr>ast_db := db\<rparr>, verifications + 1, duplicates'), Ok False)
                | (db, Err e) \<Rightarrow> ((st\<lparr>ast_db := db\<rparr>, verifications + 1, duplicates'), Err e)
                | (db, Panic p) \<Rightarrow> ((st\<lparr>ast_db := db\<rparr>, verifications + 1, duplicates'), Panic p))
         | Err e \<Rightarrow> (s, Err e)
         | Panic p \<Rightarrow> (s, Panic p)))"

definition migrate_step ::
  "account_env \<Rightarrow> account_store \<times> u32 \<times> u32 \<Rightarrow> bytes \<Rightarrow> bytes \<Rightarrow>
     (account_store \<times> u32 \<times> u32) \<times> (hub_error, bool) result" where
  "migrate_step A s key value =
     (if length key \<le> 1 + FID_BYTES then (s, Panic ''index out of bounds'')
      else if key ! (1 + FID_BYTES) \<noteq> sd_postfix (ast_def (fst s)) then (s, Ok False)
      else
        (case message_decode A value of
           Panic p \<Rightarrow> (s, Panic p)
         | Err _ \<Rightarrow> (s, Ok False)
         | Ok m \<Rightarrow>
             if \<not> sd_is_add_type (ast_def (fst s)) m then (s, Ok False)
             else
               (case add_address invalid_verification_body m of
                  Ok (d, address) \<Rightarrow> migrate_commit s (migrate_batch A (fst s) m d address)
                | Err _ \<Rightarrow> (s, Ok False)
                | Panic p \<Rightarrow> (s, Panic p))))"

definition migrate_verifications ::
  "account_env \<Rightarrow> account_store \<Rightarrow> account_store \<times> (hub_error, u32 \<times> u32) result" where
  "migrate_verifications A st =
     (case prefix_loop (migrate_step A) (ae_items A (ast_db st) [root_prefix_u8 User] default_page) (st, 0, 0) of
        ((st', verifications, duplicates), Ok _) \<Rightarrow> (st', Ok (verifications, duplicates))
      | ((st', _, _), Err _) \<Rightarrow> (st', Panic unwrap_err)
      | ((st', _, _), Panic p) \<Rightarrow> (st', Panic p))"

section \<open>One fid per address\<close>

text \<open>An add that another fid holds is refused by a newer add and replaces an older one.\<close>

lemma other_fid_newer:
  assumes "db_healthy db" "db_view db (make_verification_adds_key fid address) = Some h" "length h = 24"
    "length (msg_hash m) = 20" "u32_to_be_bytes (md_timestamp d) @ msg_hash m < h"
  shows "other_fid_conflict (verification_base_def n) A db m d address fid =
    Err (hub_err ''bad_request.conflict'' ''message conflicts with a more recent add'')"
proof -
  let ?h = "u32_to_be_bytes (md_timestamp d) @ msg_hash m"
  have "bytes_compare h ?h = 1" using assms(5) by (auto simp: bytes_compare_lex)
  moreover have "default_message_compare add rem add h add ?h = Ok (bytes_compare h ?h)" if "add \<noteq> rem" for add rem
    using assms(3,4) that bytes_compare_take [of h ?h 4]
    by (simp add: default_message_compare_def compare_slices_ok)
  ultimately show ?thesis
    using assms by (simp add: other_fid_conflict_def verification_base_def_def make_ts_hash_def HASH_LENGTH_def
        message_type_u8_def)
qed

lemma other_fid_older:
  assumes "db_healthy db" "db_view db (make_verification_adds_key fid address) = Some h" "length h = 24"
    "length (msg_hash m) = 20" "h < u32_to_be_bytes (md_timestamp d) @ msg_hash m"
    "db_view db (make_message_primary_key fid (user_postfix_u8 VerificationMessage) (Some h)) = Some (message_encode A w)"
    "message_codec_ok A w"
  shows "other_fid_conflict (verification_base_def n) A db m d address fid = Ok [w]"
proof -
  let ?h = "u32_to_be_bytes (md_timestamp d) @ msg_hash m"
  have "bytes_compare h ?h = - 1" using assms(5) by (auto simp: bytes_compare_lex)
  moreover have "default_message_compare add rem add h add ?h = Ok (bytes_compare h ?h)" if "add \<noteq> rem" for add rem
    using assms(3,4) that bytes_compare_take [of h ?h 4]
    by (simp add: default_message_compare_def compare_slices_ok)
  moreover have "get_message A db fid (user_postfix_u8 VerificationMessage) h = Ok (Some w)"
    using assms(1,6,7) by (rule get_message_healthy)
  ultimately show ?thesis
    using assms by (simp add: other_fid_conflict_def verification_base_def_def make_ts_hash_def HASH_LENGTH_def
        message_type_u8_def vec_to_u8_24_def)
qed

end
