(* ===== verification/Verification_Owner.thy ===== *)
theory Verification_Owner
  imports Verification_Store
begin

text \<open>
  One owner per verified address.  Per slot (fid and address) the store is last-writer-wins like the
  others; in addition an accepted add takes the address away from every other fid, and the index by
  address names the one fid whose add is live.
\<close>

section \<open>The contract of the slots\<close>

text \<open>
  The indices are only built for adds; \<open>verification_slots\<close> is the store with that made explicit, so
  that removes satisfy the contract of a store too.
\<close>

definition verification_slots :: "u32 \<Rightarrow> store_def" where
  "verification_slots n = (verification_store_def n)\<lparr>sd_build_secondary_indices :=
     (\<lambda>txn ts_hash m. if verification_is_add_type m then verification_build_secondary_indices txn ts_hash m else Ok txn)\<rparr>"

definition m_address :: "message \<Rightarrow> bytes" where
  "m_address m =
     (case md_body (m_data m) of
        Some (VerificationAddAddressBody b) \<Rightarrow> va_address b
      | Some (VerificationRemoveBody b) \<Rightarrow> vr_address b
      | _ \<Rightarrow> [])"

abbreviation verification_rank :: "message \<Rightarrow> bytes" where
  "verification_rank \<equiv> lww_rank (is_type VerificationAddEthAddress)"

lemma verification_sel [simp]:
  "sd_postfix (verification_slots n) = user_postfix_u8 VerificationMessage"
  "sd_is_add_type (verification_slots n) = verification_is_add_type"
  "sd_is_remove_type (verification_slots n) = verification_is_remove_type"
  "sd_add_message_type (verification_slots n) = message_type_u8 VerificationAddEthAddress"
  "sd_remove_message_type (verification_slots n) = message_type_u8 VerificationRemove"
  "sd_is_compact_state_type (verification_slots n) m = False"
  "sd_remove_type_supported (verification_slots n)"
  "\<not> compact_state_type_supported (verification_slots n)"
  "sd_find_merge_add_conflicts (verification_slots n) db m = Ok ()"
  "sd_find_merge_remove_conflicts (verification_slots n) db m = Ok ()"
  "sd_message_compare (verification_slots n) =
     default_message_compare (message_type_u8 VerificationAddEthAddress) (message_type_u8 VerificationRemove)"
  "sd_delete_secondary_indices (verification_slots n) = verification_delete_secondary_indices"
  "sd_delete_remove_secondary_indices (verification_slots n) txn m = Ok txn"
  "sd_make_add_key (verification_slots n) = verification_make_add_key"
  "sd_make_remove_key (verification_slots n) = verification_make_remove_key"
  "sd_build_secondary_indices (verification_slots n) txn h m =
     (if verification_is_add_type m then verification_build_secondary_indices txn h m else Ok txn)"
  by (simp_all add: verification_slots_def verification_store_def_def verification_base_def_def
      default_remove_type_supported_def compact_state_type_supported_def message_type_u8_def)

lemma verification_kinds:
  "verification_is_add_type m \<Longrightarrow> is_type VerificationAddEthAddress m \<and> \<not> verification_is_remove_type m"
  "verification_is_remove_type m \<Longrightarrow> is_type VerificationRemove m"
  using is_type_unique [of VerificationAddEthAddress m VerificationRemove]
  by (auto simp: verification_is_add_type_def verification_is_remove_type_def)

lemma verification_valid:
  assumes "store_valid A (verification_slots n) m"
  shows "verification_address m = Ok (m_data m, m_address m)"
    "verification_is_add_type m \<Longrightarrow> add_address e m = Ok (m_data m, m_address m)"
    "verification_is_add_type m \<Longrightarrow> m_address m \<noteq> []"
    "\<not> verification_is_add_type m \<Longrightarrow> verification_is_remove_type m"
proof -
  note d = valid_data [OF assms]
  show r: "\<not> verification_is_add_type m \<Longrightarrow> verification_is_remove_type m"
    using valid_remove [OF assms] by simp
  show a: "verification_is_add_type m \<Longrightarrow> add_address e m = Ok (m_data m, m_address m)" for e
    using d by (auto simp: verification_is_add_type_def add_address_def message_data_of_def body_of_def m_address_def
        split: option.splits message_body.splits)
  show "verification_address m = Ok (m_data m, m_address m)"
    using d r by (cases "verification_is_add_type m")
      (auto simp: verification_is_add_type_def verification_is_remove_type_def verification_address_def message_data_of_def
        body_of_def m_address_def split: option.splits message_body.splits)
  show "m_address m \<noteq> []" if "verification_is_add_type m"
    using assms that a [OF that]
    by (auto simp: store_valid_def verification_build_secondary_indices_def split: if_splits)
qed

lemma verification_keys:
  assumes "store_valid A (verification_slots n) m"
  shows "m_akey (verification_slots n) m = make_verification_adds_key (m_fid m) (m_address m)"
    "m_rkey (verification_slots n) m = make_verification_removes_key (m_fid m) (m_address m)"
    "slot_key (verification_slots n) m =
       (if verification_is_add_type m then make_verification_adds_key (m_fid m) (m_address m)
        else make_verification_removes_key (m_fid m) (m_address m))"
  using verification_valid(1) [OF assms]
  by (simp_all add: m_akey_def m_rkey_def slot_key_def verification_make_add_key_def verification_make_remove_key_def m_fid_def)

lemma verification_ranked:
  assumes "store_valid A (verification_slots n) m" "store_valid A (verification_slots n) m'"
  shows "default_message_compare (message_type_u8 VerificationAddEthAddress) (message_type_u8 VerificationRemove)
      (ucast (md_type (m_data m))) (m_tsh m) (ucast (md_type (m_data m'))) (m_tsh m') =
    Ok (bytes_compare (verification_rank m) (verification_rank m'))"
proof (rule lww_ranked)
  show "is_type VerificationAddEthAddress m \<or> is_type VerificationRemove m"
    "is_type VerificationAddEthAddress m' \<or> is_type VerificationRemove m'"
    using verification_valid(4) [OF assms(1)] verification_valid(4) [OF assms(2)] verification_kinds by blast+
qed (use valid_tsh(3) [OF assms(1)] valid_tsh(3) [OF assms(2)] in \<open>simp_all add: message_type_u8_def\<close>)

lemma verification_index:
  assumes "store_valid A (verification_slots n) m" "verification_is_add_type m"
  shows "verification_build_secondary_indices txn (m_tsh m) m =
      Ok (txn_put txn (make_verification_by_address_key (m_address m)) (make_fid_key (m_fid m)))"
    "verification_delete_secondary_indices txn (m_tsh m) m =
      Ok (txn_delete txn (make_verification_by_address_key (m_address m)))"
  using verification_valid(2,3) [OF assms]
  by (simp_all add: verification_build_secondary_indices_def verification_delete_secondary_indices_def m_fid_def)

interpretation vslots: slotted_store A "verification_slots n" verification_rank "\<lambda>_. {}" "\<lambda>_. {}"
  VerificationMessage VerificationAdds VerificationRemoves VerificationAddEthAddress VerificationRemove for A n
proof unfold_locales
  fix m m' :: message and txn :: txn_batch and k :: bytes
  show "sd_is_add_type (verification_slots n) m \<Longrightarrow> is_type VerificationAddEthAddress m"
    using verification_kinds by simp
  show "sd_is_remove_type (verification_slots n) m \<Longrightarrow> is_type VerificationRemove m \<and>
      type_to_set_postfix VerificationRemove = (Ok VerificationMessage :: (hub_error, user_postfix) result)"
    using verification_kinds by (simp add: type_to_set_postfix_def)
  assume v: "store_valid A (verification_slots n) m"
  show "\<exists>r. m_akey (verification_slots n) m = make_user_key (m_fid m) @ user_postfix_u8 VerificationAdds # r \<and>
      (sd_remove_type_supported (verification_slots n) \<longrightarrow>
        m_rkey (verification_slots n) m = make_user_key (m_fid m) @ user_postfix_u8 VerificationRemoves # r)"
    using verification_keys [OF v] by (simp add: make_verification_adds_key_def make_verification_removes_key_def)
  show "sd_is_add_type (verification_slots n) m \<Longrightarrow> hm_wf txn \<Longrightarrow>
      \<exists>txn'. sd_build_secondary_indices (verification_slots n) txn (m_tsh m) m = Ok txn' \<and> hm_wf txn' \<and>
        (\<forall>g k. overlay g txn' (root_prefix_u8 User # k) = overlay g txn (root_prefix_u8 User # k))"
    using verification_index [OF v] by (simp add: make_verification_by_address_key_def)
  show "sd_is_add_type (verification_slots n) m \<Longrightarrow> hm_wf txn \<Longrightarrow>
      \<exists>txn'. sd_delete_secondary_indices (verification_slots n) txn (m_tsh m) m = Ok txn' \<and> hm_wf txn' \<and>
        (\<forall>g k. overlay g txn' (root_prefix_u8 User # k) =
           (if root_prefix_u8 User # k \<in> {} then None else overlay g txn (root_prefix_u8 User # k)))"
    using verification_index [OF v] by (simp add: make_verification_by_address_key_def)
  assume v': "store_valid A (verification_slots n) m'"
  show "sd_message_compare (verification_slots n) (ucast (md_type (m_data m))) (m_tsh m) (ucast (md_type (m_data m'))) (m_tsh m') =
      Ok (bytes_compare (verification_rank m) (verification_rank m'))"
    using verification_ranked [OF v v'] by simp
  show "verification_rank m = verification_rank m' \<Longrightarrow> m_tsh m = m_tsh m'"
    using lww_rank_tsh [OF valid_tsh(3) [OF v] valid_tsh(3) [OF v']] .
qed (simp_all add: type_to_set_postfix_def)

section \<open>Addresses and their owners\<close>

text \<open>The live add of a fid for an address.\<close>

definition add_at :: "(bytes \<Rightarrow> message option) \<Rightarrow> u32 \<Rightarrow> bytes \<Rightarrow> message option" where
  "add_at M f a =
     (case M (make_verification_adds_key f a) of
        Some w \<Rightarrow> if verification_is_add_type w then Some w else None
      | None \<Rightarrow> None)"

text \<open>The index by address names the only fid with a live add, if there is one.\<close>

definition owner_indexed :: "(bytes \<Rightarrow> bytes option) \<Rightarrow> (bytes \<Rightarrow> message option) \<Rightarrow> bytes \<Rightarrow> bool" where
  "owner_indexed g M a \<longleftrightarrow>
     (case g (make_verification_by_address_key a) of
        None \<Rightarrow> (\<forall>f. add_at M f a = None)
      | Some b \<Rightarrow> (\<exists>f. b = make_fid_key f \<and> (\<forall>f'. add_at M f' a \<noteq> None \<longleftrightarrow> f' = f)))"

definition verified_view ::
  "account_env \<Rightarrow> u32 \<Rightarrow> message set \<Rightarrow> (bytes \<Rightarrow> bytes option) \<Rightarrow> (bytes \<Rightarrow> message option) \<Rightarrow> bool" where
  "verified_view A n U g M \<longleftrightarrow> view_rep A (verification_slots n) (\<lambda>_. {}) U g M \<and> (\<forall>m \<in> U. owner_indexed g M (m_address m))"

definition verified_rep :: "account_env \<Rightarrow> u32 \<Rightarrow> message set \<Rightarrow> rocksdb \<Rightarrow> (bytes \<Rightarrow> message option) \<Rightarrow> bool" where
  "verified_rep A n U db M \<longleftrightarrow> db_healthy db \<and> universe A (verification_slots n) U \<and> (\<forall>m \<in> U. m_fid m \<noteq> 0) \<and>
     verified_view A n U (db_view db) M"

lemma verified_store_rep: "verified_rep A n U db M \<Longrightarrow> store_rep A (verification_slots n) (\<lambda>_. {}) U db M"
  by (simp add: verified_rep_def verified_view_def store_rep_def)

lemma address_keys [simp]:
  "make_verification_adds_key f a = make_verification_adds_key f' a' \<longleftrightarrow> f = f' \<and> a = a'"
  "make_verification_removes_key f a = make_verification_removes_key f' a' \<longleftrightarrow> f = f' \<and> a = a'"
  by (simp_all add: make_verification_adds_key_def make_verification_removes_key_def)

lemma index_keys [simp]:
  "make_verification_by_address_key a = make_verification_by_address_key a' \<longleftrightarrow> a = a'"
  "make_verification_adds_key f a \<noteq> make_verification_by_address_key a'"
  "make_verification_removes_key f a \<noteq> make_verification_by_address_key a'"
  "m_pkey (verification_slots n) m \<noteq> make_verification_by_address_key a'"
  "make_verification_by_address_key a' \<noteq> make_verification_adds_key f a"
  "make_verification_by_address_key a' \<noteq> make_verification_removes_key f a"
  "make_verification_by_address_key a' \<noteq> m_pkey (verification_slots n) m"
  "make_verification_by_address_key a \<noteq> make_event_key i"
  by (auto simp: make_verification_adds_key_def make_verification_removes_key_def make_verification_by_address_key_def
      m_pkey_eq make_user_key_def make_event_key_def)

text \<open>The index entries are not among the keys of the messages.\<close>

lemma tracked_not_index:
  assumes "store_valid A (verification_slots n) m" "k \<in> tracked (verification_slots n) m"
  shows "k \<noteq> make_verification_by_address_key a"
  using assms(2) verification_keys [OF assms(1)] by (auto simp: tracked_def)

lemma add_at_upd:
  "add_at (M(make_verification_adds_key f a := x)) f' a' =
     (if f' = f \<and> a' = a then (case x of Some w \<Rightarrow> if verification_is_add_type w then Some w else None | None \<Rightarrow> None)
      else add_at M f' a')"
  by (simp add: add_at_def)

lemma owner_indexed_cong:
  assumes "g (make_verification_by_address_key a) = g' (make_verification_by_address_key a)" "\<And>f. add_at M f a = add_at M' f a"
  shows "owner_indexed g M a \<longleftrightarrow> owner_indexed g' M' a"
  using assms by (simp add: owner_indexed_def split: option.split)

lemma owner_indexed_owner:
  assumes "owner_indexed g M a" "add_at M f a \<noteq> None"
  shows "g (make_verification_by_address_key a) = Some (make_fid_key f)" "f' \<noteq> f \<Longrightarrow> add_at M f' a = None"
proof -
  from assms obtain f0 where f0: "g (make_verification_by_address_key a) = Some (make_fid_key f0)"
    "\<And>f'. add_at M f' a \<noteq> None \<longleftrightarrow> f' = f0"
    by (cases "g (make_verification_by_address_key a)") (auto simp: owner_indexed_def)
  from assms(2) f0(2) [of f] have "f = f0" by blast
  with f0(1) show "g (make_verification_by_address_key a) = Some (make_fid_key f)" by simp
  assume "f' \<noteq> f"
  with \<open>f = f0\<close> f0(2) [of f'] show "add_at M f' a = None" by blast
qed

lemma owner_indexed_free:
  assumes "owner_indexed g M a" "\<And>f'. f' \<noteq> f \<Longrightarrow> add_at M f' a = None"
  shows "g (make_verification_by_address_key a) \<in> {None, Some (make_fid_key f)}"
proof (cases "add_at M f a = None")
  case True
  with assms(2) have none: "add_at M f' a = None" for f' by (cases "f' = f") auto
  show ?thesis
  proof (rule ccontr)
    assume "\<not> ?thesis"
    with assms(1) obtain f0 where "add_at M f0 a \<noteq> None"
      by (cases "g (make_verification_by_address_key a)") (auto simp: owner_indexed_def)
    with none show False by simp
  qed
qed (use owner_indexed_owner(1) [OF assms(1)] in simp)

text \<open>The effect of one deletion and of one insertion, keys of messages and index together.\<close>

definition unindexed :: "message \<Rightarrow> (bytes \<Rightarrow> bytes option) \<Rightarrow> (bytes \<Rightarrow> bytes option)" where
  "unindexed w g = (if verification_is_add_type w then g(make_verification_by_address_key (m_address w) := None) else g)"

definition indexed :: "message \<Rightarrow> (bytes \<Rightarrow> bytes option) \<Rightarrow> (bytes \<Rightarrow> bytes option)" where
  "indexed m g =
     (if verification_is_add_type m then g(make_verification_by_address_key (m_address m) \<mapsto> make_fid_key (m_fid m)) else g)"

lemma delete_one_view:
  assumes "store_valid A (verification_slots n) w" "hm_wf txn"
  shows "\<exists>txn'. delete_one (verification_slots n) txn w = Ok txn' \<and> hm_wf txn' \<and>
    (\<forall>g. overlay g txn' = (unindexed w (overlay g txn))(slot_key (verification_slots n) w := None, m_pkey (verification_slots n) w := None))"
proof (cases "verification_is_add_type w")
  case True
  with assms verification_kinds(1) [OF True] verification_index [OF assms(1) True] vslots.primary [OF assms(1)] show ?thesis
    by (auto simp: delete_one_def delete_add_transaction_def delete_message_transaction_def valid_ts_hash
        valid_keys(1) [OF assms(1), simplified] slot_key_def unindexed_def)
next
  case False
  with assms verification_valid(4) [OF assms(1)] vslots.primary [OF assms(1)] show ?thesis
    by (auto simp: delete_one_def delete_remove_transaction_def delete_message_transaction_def
        valid_keys(2) [OF assms(1), simplified] slot_key_def unindexed_def)
qed

lemma put_view:
  assumes "store_valid A (verification_slots n) m" "hm_wf txn"
  shows "\<exists>txn'. put_transaction A (verification_slots n) txn m = Ok txn' \<and> hm_wf txn' \<and>
    (\<forall>g. overlay g txn' = indexed m ((overlay g txn)
       (m_pkey (verification_slots n) m \<mapsto> message_encode A m, slot_key (verification_slots n) m \<mapsto> m_tsh m)))"
proof (cases "verification_is_add_type m")
  case True
  with assms verification_index [OF assms(1) True] vslots.primary [OF assms(1)] show ?thesis
    by (auto simp: put_transaction_def put_add_transaction_def put_message_transaction_def
        valid_keys(1) [OF assms(1), simplified] slot_key_def indexed_def)
next
  case False
  with assms verification_valid(4) [OF assms(1)] vslots.primary [OF assms(1)] show ?thesis
    by (auto simp: put_transaction_def put_remove_transaction_def put_message_transaction_def
        valid_keys(2) [OF assms(1), simplified] slot_key_def indexed_def)
qed

text \<open>Deleting a live message empties its slot and frees its address.\<close>

lemma verified_delete:
  assumes U: "universe A (verification_slots n) U" and rep: "verified_view A n U g M" and w: "M s = Some w"
  shows "verified_view A n U
    ((unindexed w g)(slot_key (verification_slots n) w := None, m_pkey (verification_slots n) w := None)) (M(s := None))"
proof -
  let ?D = "verification_slots n" and ?M = "M(s := None)"
  let ?g = "(unindexed w g)(slot_key ?D w := None, m_pkey ?D w := None)"
  have vr: "view_rep A ?D (\<lambda>_. {}) U g M" using rep by (simp add: verified_view_def)
  have wU: "w \<in> U" "m_akey ?D w = s" using vr w by (auto simp: view_rep_def)
  have valid: "store_valid A ?D x" if "x \<in> U" for x using U that by (simp add: universe_def)
  have s: "s = make_verification_adds_key (m_fid w) (m_address w)" using wU verification_keys(1) [OF valid [OF wU(1)]] by simp
  have slot: "slot_key ?D w \<noteq> make_verification_by_address_key a" for a
    using verification_keys(3) [OF valid [OF wU(1)]] by simp
  have "view_rep A ?D (\<lambda>_. {}) U ?g ?M"
  proof (rule vslots.view_rep_delete [OF U vr w])
    fix x k assume "x \<in> U" "k \<in> tracked ?D x"
    from tracked_not_index [OF valid [OF this(1)] this(2)]
    show "?g k = (if k = slot_key ?D w \<or> k = m_pkey ?D w then None else g k)" by (simp add: unindexed_def)
  qed simp
  moreover have "owner_indexed ?g ?M (m_address x)" if x: "x \<in> U" for x
  proof -
    have old: "owner_indexed g M (m_address x)" using rep x by (simp add: verified_view_def)
    have at: "add_at M (m_fid w) (m_address w) = (if verification_is_add_type w then Some w else None)"
      using w s by (simp add: add_at_def)
    show ?thesis
    proof (cases "verification_is_add_type w \<and> m_address x = m_address w")
      case True
      then have "add_at M f (m_address w) = None" if "f \<noteq> m_fid w" for f
        using owner_indexed_owner(2) [of g M "m_address w" "m_fid w" f] old at that by simp
      with True slot s show ?thesis by (auto simp: owner_indexed_def unindexed_def add_at_upd)
    next
      case False
      then have "add_at ?M f (m_address x) = add_at M f (m_address x)" for f using at s by (auto simp: add_at_upd)
      moreover have "?g (make_verification_by_address_key (m_address x)) = g (make_verification_by_address_key (m_address x))"
        using False slot [symmetric] by (auto simp: unindexed_def)
      ultimately show ?thesis using old owner_indexed_cong [of ?g "m_address x" g ?M M] by simp
    qed
  qed
  ultimately show ?thesis by (simp add: verified_view_def)
qed

text \<open>Inserting a message into a free slot; an add needs a free address too.\<close>

lemma verified_put:
  assumes U: "universe A (verification_slots n) U" and rep: "verified_view A n U g M" and m: "m \<in> U"
    and free: "M (m_akey (verification_slots n) m) = None"
      "verification_is_add_type m \<Longrightarrow> \<forall>f. add_at M f (m_address m) = None"
  shows "verified_view A n U
    (indexed m (g(m_pkey (verification_slots n) m \<mapsto> message_encode A m, slot_key (verification_slots n) m \<mapsto> m_tsh m)))
    (M(m_akey (verification_slots n) m \<mapsto> m))"
proof -
  let ?D = "verification_slots n" and ?M = "M(m_akey (verification_slots n) m \<mapsto> m)"
  let ?g = "indexed m (g(m_pkey ?D m \<mapsto> message_encode A m, slot_key ?D m \<mapsto> m_tsh m))"
  have vr: "view_rep A ?D (\<lambda>_. {}) U g M" using rep by (simp add: verified_view_def)
  have valid: "store_valid A ?D x" if "x \<in> U" for x using U that by (simp add: universe_def)
  note keys = verification_keys [OF valid [OF m]]
  have slot: "slot_key ?D m \<noteq> make_verification_by_address_key a" for a using keys(3) by simp
  have "view_rep A ?D (\<lambda>_. {}) U ?g ?M"
  proof (rule vslots.view_rep_update [OF U vr m])
    fix x k assume "x \<in> U" "k \<in> tracked ?D x"
    from tracked_not_index [OF valid [OF this(1)] this(2)] free(1)
    show "?g k = (if k = slot_key ?D m then Some (m_tsh m) else if k = m_pkey ?D m then Some (message_encode A m)
       else case M (m_akey ?D m) of
         Some w \<Rightarrow> if k = slot_key ?D w \<or> k = m_pkey ?D w then None else g k | None \<Rightarrow> g k)" by (simp add: indexed_def)
  qed simp
  moreover have "owner_indexed ?g ?M (m_address x)" if x: "x \<in> U" for x
  proof (cases "verification_is_add_type m \<and> m_address x = m_address m")
    case True
    with free(2) slot keys(1) show ?thesis by (auto simp: owner_indexed_def indexed_def add_at_upd)
  next
    case False
    have old: "owner_indexed g M (m_address x)" using rep x by (simp add: verified_view_def)
    have "add_at M (m_fid m) (m_address m) = None" using free(1) keys(1) by (simp add: add_at_def)
    with False keys(1) have "add_at ?M f (m_address x) = add_at M f (m_address x)" for f by (auto simp: add_at_upd)
    moreover have "?g (make_verification_by_address_key (m_address x)) = g (make_verification_by_address_key (m_address x))"
      using False slot [symmetric] by (auto simp: indexed_def)
    ultimately show ?thesis using old owner_indexed_cong [of ?g "m_address x" g ?M M] by simp
  qed
  ultimately show ?thesis by (simp add: verified_view_def)
qed

section \<open>Merging\<close>

text \<open>The live adds of other fids for the address of an add.\<close>

definition rivals :: "(bytes \<Rightarrow> message option) \<Rightarrow> message \<Rightarrow> message set" where
  "rivals M m =
     (if verification_is_add_type m then {x. \<exists>f. f \<noteq> m_fid m \<and> add_at M f (m_address m) = Some x} else {})"

text \<open>A message is accepted when it outranks its slot and is younger than the add of another fid.\<close>

definition verification_accepts :: "u32 \<Rightarrow> (bytes \<Rightarrow> message option) \<Rightarrow> message \<Rightarrow> bool" where
  "verification_accepts n M m \<longleftrightarrow>
     (\<forall>w. M (m_akey (verification_slots n) m) = Some w \<longrightarrow> verification_rank w < verification_rank m) \<and>
     (\<forall>x \<in> rivals M m. m_tsh x < m_tsh m)"

definition take_over :: "u32 \<Rightarrow> message \<Rightarrow> (bytes \<Rightarrow> message option) \<Rightarrow> (bytes \<Rightarrow> message option)" where
  "take_over n m M =
     (if verification_accepts n M m
      then (\<lambda>s. if s \<in> m_akey (verification_slots n) ` rivals M m then None else M s)(m_akey (verification_slots n) m \<mapsto> m)
      else M)"

lemma verification_base_sel [simp]:
  "sd_postfix (verification_base_def n) = user_postfix_u8 VerificationMessage"
  "sd_add_message_type (verification_base_def n) = message_type_u8 VerificationAddEthAddress"
  "sd_remove_message_type (verification_base_def n) = message_type_u8 VerificationRemove"
  "sd_is_add_type (verification_base_def n) = verification_is_add_type"
  "sd_is_remove_type (verification_base_def n) = verification_is_remove_type"
  "sd_remove_type_supported (verification_base_def n)"
  "sd_find_merge_add_conflicts (verification_base_def n) db m = Ok ()"
  "sd_find_merge_remove_conflicts (verification_base_def n) db m = Ok ()"
  "sd_make_add_key (verification_base_def n) = verification_make_add_key"
  "sd_make_remove_key (verification_base_def n) = verification_make_remove_key"
  "sd_message_compare (verification_base_def n) =
     default_message_compare (message_type_u8 VerificationAddEthAddress) (message_type_u8 VerificationRemove)"
  by (simp_all add: verification_base_def_def default_remove_type_supported_def message_type_u8_def)

lemma verification_def_sel [simp]:
  "sd_postfix (verification_store_def n) = user_postfix_u8 VerificationMessage"
  "sd_is_add_type (verification_store_def n) = verification_is_add_type"
  "sd_is_remove_type (verification_store_def n) = verification_is_remove_type"
  "sd_remove_type_supported (verification_store_def n)"
  "\<not> sd_is_compact_state_type (verification_store_def n) m"
  "\<not> compact_state_type_supported (verification_store_def n)"
  "sd_build_secondary_indices (verification_store_def n) = verification_build_secondary_indices"
  "sd_make_add_key (verification_store_def n) = verification_make_add_key"
  "sd_make_remove_key (verification_store_def n) = verification_make_remove_key"
  by (simp_all add: verification_store_def_def) (simp_all add: verification_base_def_def compact_state_type_supported_def)

lemma conflict_with_slots: "conflict_with A (verification_base_def n) = conflict_with A (verification_slots n)"
  by (intro ext) (simp add: conflict_with_def cong: if_cong)

lemma default_conflicts_slots:
  "get_default_merge_conflicts A (verification_base_def n) db m h = get_default_merge_conflicts A (verification_slots n) db m h"
  by (simp add: get_default_merge_conflicts_def conflict_at_def conflict_with_slots cong: if_cong)

lemma delete_one_slots: "delete_one (verification_store_def n) txn w = delete_one (verification_slots n) txn w"
  by (simp add: delete_one_def delete_compact_state_transaction_def delete_add_transaction_def
      delete_remove_transaction_def compact_state_type_supported_def verification_slots_def cong: if_cong)

lemma delete_many_slots: "delete_many_transaction (verification_store_def n) txn ws = delete_many_transaction (verification_slots n) txn ws"
  by (induction ws arbitrary: txn) (simp_all add: delete_one_slots)

lemma add_at_live:
  assumes rep: "verified_rep A n U db M" and x: "add_at M f a = Some x"
  shows "x \<in> U" "m_fid x = f" "m_address x = a" "verification_is_add_type x" "M (m_akey (verification_slots n) x) = Some x"
    "m_akey (verification_slots n) x = make_verification_adds_key f a"
proof -
  note sr = verified_store_rep [OF rep]
  from x have s: "M (make_verification_adds_key f a) = Some x" "verification_is_add_type x"
    by (auto simp: add_at_def split: option.splits if_splits)
  from rep_live [OF sr s(1)] have u: "x \<in> U" "m_akey (verification_slots n) x = make_verification_adds_key f a" by auto
  with verification_keys(1) [OF rep_valid [OF sr u(1)]] have "m_fid x = f" "m_address x = a" by simp_all
  with s u show "x \<in> U" "m_fid x = f" "m_address x = a" "verification_is_add_type x"
    "M (m_akey (verification_slots n) x) = Some x"
    "m_akey (verification_slots n) x = make_verification_adds_key f a" by simp_all
qed

text \<open>The search for the add of another fid, through the index.\<close>

lemma other_fid_conflict_live:
  assumes rep: "verified_rep A n U db M" and m: "m \<in> U" and x: "add_at M f (m_address m) = Some x"
  shows "other_fid_conflict (verification_base_def n) A db m (m_data m) (m_address m) f =
    (if m_tsh m < m_tsh x then Err (hub_err ''bad_request.conflict'' ''message conflicts with a more recent add'')
     else if m_tsh x = m_tsh m then Err (hub_err ''bad_request.conflict'' ''message has already been merged'')
     else Ok [x])"
proof -
  note sr = verified_store_rep [OF rep] and l = add_at_live [OF rep x]
  note vm = rep_valid [OF sr m] and vx = rep_valid [OF sr l(1)]
  have "db_view db (make_verification_adds_key f (m_address m)) = Some (m_tsh x)"
    using rep_view(1) [OF sr l(1)] l by (simp add: live_add_def)
  moreover have "get_message A db f (user_postfix_u8 VerificationMessage) (m_tsh x) = Ok (Some x)"
    using get_live [OF sr l(5)] l(2) by simp
  moreover have "default_message_compare t u t (m_tsh x) t (m_tsh m) = Ok (bytes_compare (m_tsh x) (m_tsh m))" if "t \<noteq> u" for t u
    using that valid_tsh(3) [OF vx] valid_tsh(3) [OF vm] bytes_compare_take [of "m_tsh x" "m_tsh m" 4]
    by (simp add: default_message_compare_def compare_slices_ok)
  ultimately show ?thesis
    using rep_healthy [OF sr] valid_tsh [OF vm] valid_tsh(3) [OF vx]
    by (auto simp: other_fid_conflict_def vec_to_u8_24_def message_type_u8_def bytes_compare_lex
        simp del: make_ts_hash_Ok)
qed

text \<open>What the slot itself says, and the message it holds.\<close>

definition own_verdict :: "u32 \<Rightarrow> (bytes \<Rightarrow> message option) \<Rightarrow> message \<Rightarrow> (hub_error, message list) result" where
  "own_verdict n M m =
     (case M (m_akey (verification_slots n) m) of
        None \<Rightarrow> Ok []
      | Some w \<Rightarrow>
          if verification_rank m < verification_rank w then Err (more_recent (verification_slots n) w)
          else if verification_rank w = verification_rank m then Err already_merged else Ok [w])"

definition outranks :: "u32 \<Rightarrow> (bytes \<Rightarrow> message option) \<Rightarrow> message \<Rightarrow> bool" where
  "outranks n M m \<longleftrightarrow> (\<forall>w. M (m_akey (verification_slots n) m) = Some w \<longrightarrow> verification_rank w < verification_rank m)"

lemma own_verdict_cases:
  "outranks n M m \<Longrightarrow> own_verdict n M m = Ok (case M (m_akey (verification_slots n) m) of None \<Rightarrow> [] | Some w \<Rightarrow> [w])"
  "\<not> outranks n M m \<Longrightarrow> \<exists>e. own_verdict n M m = Err e"
  by (auto simp: own_verdict_def outranks_def split: option.splits)

lemma accepts_outranks: "verification_accepts n M m \<longleftrightarrow> outranks n M m \<and> (\<forall>x \<in> rivals M m. m_tsh x < m_tsh m)"
  by (simp add: verification_accepts_def outranks_def)

lemma verified_conflicts_eq:
  assumes rep: "verified_rep A n U db M" and m: "m \<in> U"
  shows "get_merge_conflicts A (verification_store_def n) db m (m_tsh m) =
    bind_result (own_verdict n M m) (\<lambda>conflicts.
      if verification_is_remove_type m then Ok conflicts
      else
        (case db_view db (make_verification_by_address_key (m_address m)) of
           Some b \<Rightarrow>
             bind_result (read_fid_key b) (\<lambda>fid.
               if fid > 0 \<and> fid \<noteq> m_fid m
               then bind_result (other_fid_conflict (verification_base_def n) A db m (m_data m) (m_address m) fid)
                      (\<lambda>others. Ok (conflicts @ others))
               else Ok conflicts)
         | None \<Rightarrow> Ok conflicts))"
proof -
  note sr = verified_store_rep [OF rep] and vm = rep_valid [OF verified_store_rep [OF rep] m]
  have own: "get_default_merge_conflicts A (verification_base_def n) db m (m_tsh m) = own_verdict n M m"
    using vslots.default_conflicts [OF sr m] by (simp add: default_conflicts_slots own_verdict_def)
  have "add_address invalid_verification_body m = Ok (m_data m, m_address m)" if "\<not> verification_is_remove_type m"
    using verification_valid(2,4) [OF vm] that by blast
  with own rep_healthy [OF sr] show ?thesis
    by (auto simp: get_merge_conflicts_def verification_store_def_def verification_get_merge_conflicts_def m_fid_def
        split: option.split intro!: arg_cong2 [where f = bind_result])
qed

text \<open>An address that no other fid holds, and one that another fid holds.\<close>

lemma address_free:
  assumes rep: "verified_rep A n U db M" and m: "m \<in> U" and none: "rivals M m = {}"
  shows "get_merge_conflicts A (verification_store_def n) db m (m_tsh m) = own_verdict n M m"
proof (cases "verification_is_add_type m")
  case True
  have "add_at M f (m_address m) = None" if "f \<noteq> m_fid m" for f
    using none that True by (cases "add_at M f (m_address m)") (auto simp: rivals_def)
  moreover have "owner_indexed (db_view db) M (m_address m)" using rep m by (simp add: verified_rep_def verified_view_def)
  ultimately consider "db_view db (make_verification_by_address_key (m_address m)) = None" |
    "db_view db (make_verification_by_address_key (m_address m)) = Some (make_fid_key (m_fid m))"
    using owner_indexed_free [of "db_view db" M "m_address m" "m_fid m"] by auto
  then show ?thesis
    by cases (simp_all add: verified_conflicts_eq [OF rep m] read_fid_key_def make_fid_key_def bind_result_Ok_right cong: if_cong)
next
  case False
  then have "verification_is_remove_type m"
    using verification_valid(4) [OF rep_valid [OF verified_store_rep [OF rep] m]] by simp
  then show ?thesis by (simp add: verified_conflicts_eq [OF rep m] bind_result_Ok_right)
qed

lemma address_taken:
  assumes rep: "verified_rep A n U db M" and m: "m \<in> U" and x: "x \<in> rivals M m"
  shows "rivals M m = {x}" "M (m_akey (verification_slots n) m) \<noteq> Some x"
    "get_merge_conflicts A (verification_store_def n) db m (m_tsh m) =
      bind_result (own_verdict n M m) (\<lambda>conflicts.
        if m_tsh m < m_tsh x then Err (hub_err ''bad_request.conflict'' ''message conflicts with a more recent add'')
        else if m_tsh x = m_tsh m then Err (hub_err ''bad_request.conflict'' ''message has already been merged'')
        else Ok (conflicts @ [x]))"
proof -
  let ?a = "m_address m"
  have vm: "store_valid A (verification_slots n) m" using rep_valid [OF verified_store_rep [OF rep] m] .
  from x obtain f where add: "verification_is_add_type m" and f: "f \<noteq> m_fid m" "add_at M f ?a = Some x"
    by (auto simp: rivals_def split: if_splits)
  note live = add_at_live [OF rep f(2)]
  have "owner_indexed (db_view db) M ?a" using rep m by (simp add: verified_rep_def verified_view_def)
  from owner_indexed_owner [OF this, of f] f(2)
  have g: "db_view db (make_verification_by_address_key ?a) = Some (make_fid_key f)" "\<And>f'. f' \<noteq> f \<Longrightarrow> add_at M f' ?a = None"
    by auto
  have uniq: "y = x" if "add_at M f' ?a = Some y" for f' y using f(2) g(2) [of f'] that by (cases "f' = f") auto
  have "rivals M m = {y. \<exists>f'. f' \<noteq> m_fid m \<and> add_at M f' ?a = Some y}" using add by (simp add: rivals_def)
  also have "\<dots> = {x}" using f uniq by blast
  finally show "rivals M m = {x}" .
  show "M (m_akey (verification_slots n) m) \<noteq> Some x"
    using live(6) f(1) verification_keys(1) [OF vm] rep_live [OF verified_store_rep [OF rep], of "m_akey (verification_slots n) m" x]
    by auto
  have "f > 0" using rep live(1,2) by (auto simp: verified_rep_def word_neq_0_conv)
  moreover have "read_fid_key (make_fid_key f) = (Ok f :: (hub_error, u32) result)"
    by (simp add: read_fid_key_def make_fid_key_def)
  ultimately show "get_merge_conflicts A (verification_store_def n) db m (m_tsh m) =
      bind_result (own_verdict n M m) (\<lambda>conflicts.
        if m_tsh m < m_tsh x then Err (hub_err ''bad_request.conflict'' ''message conflicts with a more recent add'')
        else if m_tsh x = m_tsh m then Err (hub_err ''bad_request.conflict'' ''message has already been merged'')
        else Ok (conflicts @ [x]))"
    using g(1) f(1) verification_kinds(1) [OF add]
    by (auto simp: verified_conflicts_eq [OF rep m] other_fid_conflict_live [OF rep m f(2)]
        intro!: arg_cong2 [where f = bind_result])
qed

lemma verified_conflicts:
  assumes rep: "verified_rep A n U db M" and m: "m \<in> U"
  shows "if verification_accepts n M m
    then \<exists>ws. get_merge_conflicts A (verification_store_def n) db m (m_tsh m) = Ok ws \<and> distinct ws \<and>
      set ws = set_option (M (m_akey (verification_slots n) m)) \<union> rivals M m
    else \<exists>e. get_merge_conflicts A (verification_store_def n) db m (m_tsh m) = Err e"
proof (cases "rivals M m = {}")
  case True
  with address_free [OF rep m True] own_verdict_cases [of n M m] show ?thesis
    by (cases "M (m_akey (verification_slots n) m)") (auto simp: accepts_outranks)
next
  case False
  then obtain x where "x \<in> rivals M m" by blast
  note t = address_taken [OF rep m this]
  show ?thesis
  proof (cases "outranks n M m \<and> m_tsh x < m_tsh m")
    case True
    then have "\<not> m_tsh m < m_tsh x" "m_tsh x \<noteq> m_tsh m" by auto
    with True t own_verdict_cases(1) [of n M m] show ?thesis
      by (cases "M (m_akey (verification_slots n) m)") (auto simp: accepts_outranks)
  next
    case False
    then have "\<not> verification_accepts n M m" using t(1) by (simp add: accepts_outranks)
    moreover have "\<exists>e. get_merge_conflicts A (verification_store_def n) db m (m_tsh m) = Err e"
      using False t(3) own_verdict_cases [of n M m] by (cases "outranks n M m") auto
    ultimately show ?thesis by simp
  qed
qed

text \<open>The messages in conflict leave together, and the message goes in.\<close>

lemma verified_delete_many:
  assumes U: "universe A (verification_slots n) U" and "hm_wf txn" "verified_view A n U (overlay g txn) M" "distinct ws"
    "\<forall>w \<in> set ws. M (m_akey (verification_slots n) w) = Some w"
  shows "\<exists>txn'. delete_many_transaction (verification_store_def n) txn ws = Ok txn' \<and> hm_wf txn' \<and>
    verified_view A n U (overlay g txn') (drop_slots (verification_slots n) ws M)"
  using assms(2-)
proof (induction ws arbitrary: txn M)
  case (Cons w ws)
  let ?D = "verification_slots n" and ?M = "M(m_akey (verification_slots n) w := None)"
  have w: "M (m_akey ?D w) = Some w" using Cons.prems(4) by simp
  then have "w \<in> U" using Cons.prems(2) by (auto simp: verified_view_def view_rep_def)
  with U have "store_valid A ?D w" by (simp add: universe_def)
  from delete_one_view [OF this Cons.prems(1)] obtain t where t: "delete_one ?D txn w = Ok t" "hm_wf t"
    "\<And>g. overlay g t = (unindexed w (overlay g txn))(slot_key ?D w := None, m_pkey ?D w := None)" by blast
  have view: "verified_view A n U (overlay g t) ?M" using verified_delete [OF U Cons.prems(2) w] by (simp add: t(3))
  have "\<forall>v \<in> set ws. ?M (m_akey ?D v) = Some v"
  proof
    fix v assume v: "v \<in> set ws"
    with Cons.prems(3,4) have "v \<noteq> w" "M (m_akey ?D v) = Some v" by auto
    with w show "?M (m_akey ?D v) = Some v" by auto
  qed
  from Cons.IH [OF t(2) view _ this] Cons.prems(3) obtain t' where t':
    "delete_many_transaction (verification_store_def n) t ws = Ok t'" "hm_wf t'"
    "verified_view A n U (overlay g t') (drop_slots (verification_slots n) ws ?M)" unfolding distinct.simps by blast
  then show ?case using t(1) by (simp add: delete_one_slots)
qed simp

lemma put_slots: "put_transaction A (verification_store_def n) txn m = put_transaction A (verification_slots n) txn m"
  by (simp add: put_transaction_def put_add_transaction_def put_remove_transaction_def)

lemma verified_event:
  assumes U: "universe A (verification_slots n) U" and rep: "verified_view A n U g M"
  shows "verified_view A n U (g(make_event_key i \<mapsto> y)) M"
proof -
  let ?D = "verification_slots n"
  have k: "m_akey ?D x \<noteq> make_event_key i \<and> m_rkey ?D x \<noteq> make_event_key i \<and> m_pkey ?D x \<noteq> make_event_key i"
    if "x \<in> U" for x
    using vslots.event_key_free [of A n x] U that by (simp add: universe_def tracked_def)
  have "view_rep A ?D (\<lambda>_. {}) U (g(make_event_key i \<mapsto> y)) M"
    using rep k by (simp add: verified_view_def view_rep_def)
  moreover have "owner_indexed (g(make_event_key i \<mapsto> y)) M a = owner_indexed g M a" for a
    by (rule owner_indexed_cong) simp_all
  ultimately show ?thesis using rep by (simp add: verified_view_def)
qed

lemma verified_merge_eq:
  assumes rep: "verified_rep A n U (ast_db st) M" and m: "m \<in> U" and D: "ast_def st = verification_store_def n"
  shows "merge A now m st =
    with_txn A now st
      (bind_result (get_merge_conflicts A (verification_store_def n) (ast_db st) m (m_tsh m)) (\<lambda>ws.
       bind_result (delete_many_transaction (verification_store_def n) txn_new ws) (\<lambda>txn1.
       bind_result (put_transaction A (verification_store_def n) txn1 m) (\<lambda>txn2.
         Ok (txn2, sd_merge_event_args (verification_store_def n) m ws)))))"
proof -
  note v = rep_valid [OF verified_store_rep [OF rep] m]
  have "verification_is_add_type m \<or> verification_is_remove_type m" using verification_valid(4) [OF v] by blast
  with v D show ?thesis
    by (auto simp: merge_def Let_def valid_tsh merge_add_def merge_remove_def put_transaction_def rocksdb_txn_def
        check_add_compact_def check_remove_compact_def)
qed

text \<open>An accepted message: the conflicting messages go, the message comes, one fid owns its address.\<close>

lemma verified_write:
  assumes rep: "verified_rep A n U (ast_db st) M" and m: "m \<in> U" and acc: "verification_accepts n M m"
    and id: "generate_id now None (ast_gen st) = (gen, Ok i)"
    and ws: "distinct ws" "set ws = set_option (M (m_akey (verification_slots n) m)) \<union> rivals M m"
  shows "\<exists>st'. with_txn A now st
      (bind_result (delete_many_transaction (verification_store_def n) txn_new ws) (\<lambda>txn1.
       bind_result (put_transaction A (verification_store_def n) txn1 m) (\<lambda>txn2. Ok (txn2, ev)))) =
      (st', Ok (ae_event_encode A (ev\<lparr>ev_id := i\<rparr>))) \<and> ast_def st' = ast_def st \<and> ast_gen st' = gen \<and>
    verified_rep A n U (ast_db st') (take_over n m M)"
proof -
  let ?D = "verification_slots n" and ?g = "db_view (ast_db st)" and ?M = "drop_slots (verification_slots n) ws M"
  note sr = verified_store_rep [OF rep] and vm = rep_valid [OF verified_store_rep [OF rep] m]
  have r: "db_healthy (ast_db st)" "universe A ?D U" "\<forall>m \<in> U. m_fid m \<noteq> 0" "verified_view A n U ?g M"
    using rep by (simp_all add: verified_rep_def)
  have live: "\<forall>w \<in> set ws. M (m_akey ?D w) = Some w"
    using ws(2) rep_live [OF sr, of "m_akey ?D m"] add_at_live(5) [OF rep]
    by (auto simp: rivals_def split: if_splits)
  from verified_delete_many [OF r(2) _ _ ws(1) live, of txn_new ?g] r(4) obtain t where t:
    "delete_many_transaction (verification_store_def n) txn_new ws = Ok t" "hm_wf t"
    "verified_view A n U (overlay ?g t) ?M" by auto
  have slot: "?M (m_akey ?D m) = None"
    using ws(2) rep_live [OF sr, of "m_akey ?D m"]
    by (cases "M (m_akey ?D m)") (auto simp: drop_slots_eq)
  have addr: "add_at ?M f (m_address m) = None" if "verification_is_add_type m" for f
  proof (cases "f = m_fid m")
    case True
    then show ?thesis using slot verification_keys(1) [OF vm] by (simp add: add_at_def)
  next
    case False
    show ?thesis
    proof (cases "add_at M f (m_address m)")
      case None
      then show ?thesis by (auto simp: add_at_def drop_slots_eq split: option.splits if_splits)
    next
      case (Some x)
      then have "x \<in> set ws" using False that ws(2) by (auto simp: rivals_def)
      moreover have "make_verification_adds_key f (m_address m) = m_akey ?D x" using add_at_live(6) [OF rep Some] by simp
      ultimately show ?thesis by (simp add: add_at_def drop_slots_eq)
    qed
  qed
  from put_view [OF vm t(2)] obtain t2 where t2: "put_transaction A ?D t m = Ok t2" "hm_wf t2"
    "\<And>g. overlay g t2 = indexed m ((overlay g t)(m_pkey ?D m \<mapsto> message_encode A m, slot_key ?D m \<mapsto> m_tsh m))" by blast
  have v2: "verified_view A n U (overlay ?g t2) (?M(m_akey ?D m \<mapsto> m))"
    using verified_put [OF r(2) t(3) m slot] addr by (simp add: t2(3))
  from commit_event_ok [OF r(1) t2(2) id, of A ev] obtain db y where c:
    "commit_event A now st t2 ev = (st\<lparr>ast_gen := gen, ast_db := db\<rparr>, Ok (ae_event_encode A (ev\<lparr>ev_id := i\<rparr>)))"
    "db_healthy db" "db_view db = (overlay ?g t2)(make_event_key i \<mapsto> y)" by blast
  have "?M(m_akey ?D m \<mapsto> m) = take_over n m M"
    using acc ws(2) rep_live [OF sr, of "m_akey ?D m"]
    by (cases "M (m_akey ?D m)") (auto simp: take_over_def drop_slots_eq fun_eq_iff)
  with verified_event [OF r(2) v2, of i y] c(3) have "verified_view A n U (db_view db) (take_over n m M)" by simp
  with r c t(1) t2(1) show ?thesis by (simp add: with_txn_def put_slots verified_rep_def)
qed

lemma verified_merge:
  assumes rep: "verified_rep A n U (ast_db st) M" and m: "m \<in> U" and D: "ast_def st = verification_store_def n"
    and id: "generate_id now None (ast_gen st) = (gen, Ok i)"
  shows "\<exists>st' r. merge A now m st = (st', r) \<and> ast_def st' = ast_def st \<and>
    verified_rep A n U (ast_db st') (take_over n m M) \<and>
    (if verification_accepts n M m then ast_gen st' = gen \<and> (\<exists>b. r = Ok b) else st' = st \<and> (\<exists>e. r = Err e))"
proof (cases "verification_accepts n M m")
  case True
  with verified_conflicts [OF rep m] obtain ws where
    ws: "get_merge_conflicts A (verification_store_def n) (ast_db st) m (m_tsh m) = Ok ws" "distinct ws"
      "set ws = set_option (M (m_akey (verification_slots n) m)) \<union> rivals M m" by auto
  from verified_write [OF rep m True id ws(2,3), of "sd_merge_event_args (verification_store_def n) m ws"] True
  show ?thesis by (auto simp: verified_merge_eq [OF rep m D] ws(1))
next
  case False
  with verified_conflicts [OF rep m] obtain e where
    "get_merge_conflicts A (verification_store_def n) (ast_db st) m (m_tsh m) = Err e" by auto
  with False rep show ?thesis by (simp add: verified_merge_eq [OF rep m D] with_txn_def take_over_def)
qed

section \<open>Reading\<close>

lemma verified_get_add:
  assumes rep: "verified_rep A n U (ast_db st) M" and x: "x \<in> U" and D: "ast_def st = verification_store_def n"
  shows "get_verification_add A st (m_fid x) (m_address x) = Ok (add_at M (m_fid x) (m_address x))"
proof -
  let ?D = "verification_slots n" and ?st = "st\<lparr>ast_def := verification_slots n\<rparr>"
  let ?p = "partial_message (m_fid x) VerificationAddEthAddress
       (VerificationAddAddressBody \<lparr>va_address = m_address x, va_claim_signature = [], va_block_hash = [],
          va_verification_type = 0, va_chain_id = 0, va_protocol = 0\<rparr>)"
  note sr = verified_store_rep [OF rep] and k = verification_keys(1) [OF rep_valid [OF verified_store_rep [OF rep] x]]
  have nz: "m_fid x \<noteq> 0" using rep x by (simp add: verified_rep_def)
  have "get_add A st ?p = get_add A ?st ?p"
    using D by (simp add: get_add_def get_by_index_key_def cong: if_cong)
  also have "\<dots> = Ok (case M (m_akey ?D x) of Some w \<Rightarrow> if sd_is_add_type ?D w then Some w else None | None \<Rightarrow> None)"
  proof (rule vslots.get_add_live [where d = "the (msg_data ?p)"])
    show "store_rep A ?D (\<lambda>_. {}) U (ast_db ?st) M" using sr by simp
  qed (use x nz k in \<open>simp_all add: default_data_def partial_message_def verification_make_add_key_def verification_address_def
      message_data_of_def body_of_def\<close>)
  finally show ?thesis using k by (simp add: get_verification_add_def add_at_def split: option.split)
qed

text \<open>After an accepted add its fid is the only owner of the address.\<close>

lemma taken_over:
  assumes rep: "verified_rep A n U db (take_over n m M)" and m: "m \<in> U"
    and add: "verification_is_add_type m" "verification_accepts n M m"
  shows "add_at (take_over n m M) f (m_address m) = (if f = m_fid m then Some m else None)"
proof -
  have "add_at (take_over n m M) (m_fid m) (m_address m) = Some m"
    using add verification_keys(1) [OF rep_valid [OF verified_store_rep [OF rep] m]] by (simp add: add_at_def take_over_def)
  moreover have "owner_indexed (db_view db) (take_over n m M) (m_address m)"
    using rep m by (simp add: verified_rep_def verified_view_def)
  ultimately show ?thesis using owner_indexed_owner(2) [of "db_view db" "take_over n m M" "m_address m" "m_fid m" f] by auto
qed

end
