(* ===== verification/Username_Proof_Store.thy ===== *)
theory Username_Proof_Store
  imports Store_Common
begin

text \<open>
  \<open>storage/store/account/username_proof_store.rs\<close>: the proofs that an ENS name belongs to a fid.  A
  name has one owner among all fids, the fid of the latest proof; its index entry says which.
\<close>

section \<open>UsernameProofStoreDef\<close>

definition make_username_proof_by_name_key :: "bytes \<Rightarrow> bytes" where
  "make_username_proof_by_name_key name = root_prefix_u8 UserNameProofByName # name"

definition make_username_proof_by_fid_key :: "u32 \<Rightarrow> bytes \<Rightarrow> bytes" where
  "make_username_proof_by_fid_key fid name = make_user_key fid @ user_postfix_u8 UserNameProofAdds # name"

definition proof_failure :: "string \<Rightarrow> hub_error" where
  "proof_failure s = hub_err ''bad_request.validation_failure'' s"

text \<open>The proof in a message; the error of a wrong body differs between the callers.\<close>

definition proof_body_of :: "string \<Rightarrow> message \<Rightarrow> (hub_error, message_data \<times> user_name_proof) result" where
  "proof_body_of error_message m =
     (case msg_data m of
        None \<Rightarrow> Err (proof_failure ''Message data is missing'')
      | Some d \<Rightarrow>
          (case md_body d of
             Some (UsernameProofBody b) \<Rightarrow> Ok (d, b)
           | _ \<Rightarrow> Err (proof_failure error_message)))"

definition username_proof_make_add_key :: "message \<Rightarrow> (hub_error, bytes) result" where
  "username_proof_make_add_key m =
     bind_result (proof_body_of ''Message body is missing'' m) (\<lambda>(d, b).
       Ok (make_username_proof_by_fid_key (ucast (md_fid d)) (unp_name b)))"

definition name_empty :: hub_error where
  "name_empty = hub_err ''bad_request.invalid_param'' ''name empty''"

definition username_proof_build_secondary_indices :: "txn_batch \<Rightarrow> bytes \<Rightarrow> message \<Rightarrow> (hub_error, txn_batch) result" where
  "username_proof_build_secondary_indices txn ts_hash m =
     bind_result (proof_body_of ''Message body is missing or incorrect'' m) (\<lambda>(d, b).
       if length (unp_name b) = 0 then Err name_empty
       else Ok (txn_put txn (make_username_proof_by_name_key (unp_name b)) (make_fid_key (ucast (md_fid d)))))"

definition username_proof_delete_secondary_indices :: "txn_batch \<Rightarrow> bytes \<Rightarrow> message \<Rightarrow> (hub_error, txn_batch) result" where
  "username_proof_delete_secondary_indices txn ts_hash m =
     bind_result (proof_body_of ''Message data body is missing or incorrect'' m) (\<lambda>(d, b).
       if length (unp_name b) = 0 then Err name_empty
       else Ok (txn_delete txn (make_username_proof_by_name_key (unp_name b))))"

text \<open>The proof that the owner of the name holds.\<close>

definition name_conflict ::
  "store_def \<Rightarrow> account_env \<Rightarrow> rocksdb \<Rightarrow> bytes \<Rightarrow> bytes \<Rightarrow> u32 \<Rightarrow> (hub_error, message list) result" where
  "name_conflict D A db name ts_hash fid =
     (case db_get db (make_username_proof_by_fid_key fid name) of
        Ok existing_ts_hash \<Rightarrow>
          bind_result (vec_to_u8_24 existing_ts_hash) (\<lambda>h.
            (case get_message A db fid (sd_postfix D) h of
               Ok (Some existing) \<Rightarrow>
                 bind_result (sd_message_compare D (sd_add_message_type D) h (sd_add_message_type D) ts_hash) (\<lambda>c.
                   if c > 0 then Err (hub_err ''bad_request.conflict'' ''message conflicts with a more recent add'')
                   else if c = 0 then Err (hub_err ''bad_request.duplicate'' ''message has already been merged'')
                   else Ok [existing])
             | Panic p \<Rightarrow> Panic p
             | _ \<Rightarrow> Ok []))
      | Panic p \<Rightarrow> Panic p
      | Err _ \<Rightarrow> Ok [])"

definition username_proof_get_merge_conflicts ::
  "store_def \<Rightarrow> account_env \<Rightarrow> rocksdb \<Rightarrow> message \<Rightarrow> bytes \<Rightarrow> (hub_error, message list) result" where
  "username_proof_get_merge_conflicts D A db m ts_hash =
     bind_result (proof_body_of ''Message data body is missing'' m) (\<lambda>(_, b).
       (case db_get db (make_username_proof_by_name_key (unp_name b)) of
          Ok (Some k) \<Rightarrow>
            bind_result (read_fid_key k) (\<lambda>fid.
              if fid > 0 then name_conflict D A db (unp_name b) ts_hash fid else Ok [])
        | Panic p \<Rightarrow> Panic p
        | _ \<Rightarrow> Ok []))"

definition proof_of :: "message \<Rightarrow> user_name_proof option" where
  "proof_of m =
     (case msg_data m of
        Some d \<Rightarrow> (case md_body d of Some (UsernameProofBody b) \<Rightarrow> Some b | _ \<Rightarrow> None)
      | None \<Rightarrow> None)"

definition proof_event :: "merge_username_proof_body \<Rightarrow> hub_event" where
  "proof_event b = \<lparr>ev_type = MergeUsernameProof, ev_body = Some (MergeUsernameProofBody b), ev_id = 0\<rparr>"

definition username_proof_revoke_event_args :: "message \<Rightarrow> hub_event" where
  "username_proof_revoke_event_args m =
     proof_event \<lparr>mup_username_proof = None, mup_deleted_username_proof = proof_of m,
       mup_username_proof_message = None, mup_deleted_username_proof_message = Some m\<rparr>"

definition username_proof_merge_event_args :: "message \<Rightarrow> message list \<Rightarrow> hub_event" where
  "username_proof_merge_event_args m conflicts =
     (let deleted = (case conflicts of c # _ \<Rightarrow> proof_of c | [] \<Rightarrow> None) in
      proof_event \<lparr>mup_username_proof = proof_of m, mup_deleted_username_proof = deleted,
        mup_username_proof_message = Some m,
        mup_deleted_username_proof_message = (if deleted = None then None else Some (hd conflicts))\<rparr>)"

definition username_proof_no_compact :: hub_error where
  "username_proof_no_compact =
     hub_err ''bad_request.invalid_param'' ''Username Proof Store doesn't support compact state''"

definition username_proof_base_def :: "u32 \<Rightarrow> store_def" where
  "username_proof_base_def prune_size_limit =
     \<lparr>sd_postfix = user_postfix_u8 UsernameProofMessage,
      sd_add_message_type = message_type_u8 UsernameProof,
      sd_remove_message_type = message_type_u8 MessageTypeNone,
      sd_compact_state_message_type = message_type_u8 MessageTypeNone,
      sd_is_add_type = is_type UsernameProof,
      sd_is_remove_type = (\<lambda>_. False),
      sd_is_compact_state_type = (\<lambda>_. False),
      sd_remove_type_supported = False,
      sd_build_secondary_indices = username_proof_build_secondary_indices,
      sd_delete_secondary_indices = username_proof_delete_secondary_indices,
      sd_delete_remove_secondary_indices = (\<lambda>txn _. Ok txn),
      sd_find_merge_add_conflicts = (\<lambda>_ _. Ok ()),
      sd_find_merge_remove_conflicts =
        (\<lambda>_ _. Err (proof_failure ''Username Proof store does not support removes'')),
      sd_make_add_key = username_proof_make_add_key,
      sd_make_remove_key = (\<lambda>_. Err (proof_failure ''Remove not supported'')),
      sd_make_compact_state_add_key = (\<lambda>_. Err username_proof_no_compact),
      sd_make_compact_state_prefix = (\<lambda>_. Err username_proof_no_compact),
      sd_prune_size_limit = prune_size_limit,
      sd_message_compare = default_message_compare (message_type_u8 UsernameProof) (message_type_u8 MessageTypeNone),
      sd_merge_conflicts_override = None,
      sd_revoke_event_args = username_proof_revoke_event_args,
      sd_merge_event_args = username_proof_merge_event_args,
      sd_prune_event_args = username_proof_revoke_event_args\<rparr>"

definition username_proof_store_def :: "u32 \<Rightarrow> store_def" where
  "username_proof_store_def prune_size_limit =
     (username_proof_base_def prune_size_limit)
       \<lparr>sd_merge_conflicts_override := Some (username_proof_get_merge_conflicts (username_proof_base_def prune_size_limit))\<rparr>"

section \<open>UsernameProofStore\<close>

definition username_proof_store_new :: "rocksdb \<Rightarrow> hub_event_id_generator \<Rightarrow> u32 \<Rightarrow> account_store" where
  "username_proof_store_new db gen prune_size_limit =
     new_with_store_def db gen (username_proof_store_def prune_size_limit)"

definition UsernameTypeEnsL1 :: u8 where
  "UsernameTypeEnsL1 = 2"

definition proof_partial :: "u32 \<Rightarrow> bytes \<Rightarrow> message" where
  "proof_partial fid name =
     partial_message fid MessageTypeNone
       (UsernameProofBody \<lparr>unp_timestamp = 0, unp_name = name, unp_owner = [], unp_signature = [], unp_fid = 0, unp_type = 0\<rparr>)"

definition get_proof_by_name ::
  "account_env \<Rightarrow> account_store \<Rightarrow> bytes \<Rightarrow> u8 \<Rightarrow> (hub_error, message option) result" where
  "get_proof_by_name A st name name_type =
     (if name_type \<noteq> UsernameTypeEnsL1
      then Err (hub_err ''bad_request'' ''Unsupported username type. Only ENS L1 is supported'')
      else
        bind_result (db_get (ast_db st) (make_username_proof_by_name_key name)) (\<lambda>fid_result.
          (case fid_result of
             None \<Rightarrow> Err (not_found ''NotFound: Username proof not found for name'')
           | Some k \<Rightarrow> bind_result (read_fid_key k) (\<lambda>fid. get_add A st (proof_partial fid name)))))"

definition get_username_proofs_by_fid ::
  "account_env \<Rightarrow> account_store \<Rightarrow> u32 \<Rightarrow> page_options \<Rightarrow> (hub_error, messages_page) result" where
  "get_username_proofs_by_fid A st fid opts = get_adds_by_fid A st fid opts None"

definition get_username_proof_by_fid_and_name ::
  "account_env \<Rightarrow> account_store \<Rightarrow> bytes \<Rightarrow> u32 \<Rightarrow> (hub_error, message option) result" where
  "get_username_proof_by_fid_and_name A st name fid = get_add A st (proof_partial fid name)"

section \<open>One owner per name\<close>

definition m_name :: "message \<Rightarrow> bytes" where
  "m_name m = (case proof_of m of Some b \<Rightarrow> unp_name b | None \<Rightarrow> [])"

definition proof_akey :: "message \<Rightarrow> bytes" where
  "proof_akey m = make_username_proof_by_fid_key (m_fid m) (m_name m)"

definition proof_valid :: "account_env \<Rightarrow> message \<Rightarrow> bool" where
  "proof_valid A m \<longleftrightarrow> message_codec_ok A m \<and> length (msg_hash m) = 20 \<and> is_type UsernameProof m \<and>
     proof_of m \<noteq> None \<and> m_name m \<noteq> [] \<and> md_fid (m_data m) \<noteq> 0 \<and> m_fid m \<noteq> 0"

text \<open>The index by name, the adds and the messages, for the latest proof of every name.\<close>

definition names_rep ::
  "account_env \<Rightarrow> u32 \<Rightarrow> message set \<Rightarrow> rocksdb \<Rightarrow> (bytes \<Rightarrow> message option) \<Rightarrow> bool" where
  "names_rep A n U db M \<longleftrightarrow> db_healthy db \<and> (\<forall>m \<in> U. proof_valid A m) \<and> inj_on (m_pkey (username_proof_store_def n)) U \<and>
     (\<forall>name w. M name = Some w \<longrightarrow> w \<in> U \<and> m_name w = name) \<and>
     (\<forall>m \<in> U.
        db_view db (make_username_proof_by_name_key (m_name m)) = map_option (\<lambda>w. make_fid_key (m_fid w)) (M (m_name m)) \<and>
        db_view db (proof_akey m) =
          (case M (m_name m) of Some w \<Rightarrow> if m_fid w = m_fid m then Some (m_tsh w) else None | None \<Rightarrow> None) \<and>
        db_view db (m_pkey (username_proof_store_def n) m) =
          (if M (m_name m) = Some m then Some (message_encode A m) else None))"

definition latest_proof :: "message \<Rightarrow> (bytes \<Rightarrow> message option) \<Rightarrow> (bytes \<Rightarrow> message option)" where
  "latest_proof m M =
     (case M (m_name m) of
        None \<Rightarrow> M(m_name m \<mapsto> m)
      | Some w \<Rightarrow> if m_tsh w < m_tsh m then M(m_name m \<mapsto> m) else M)"

lemma username_proof_sel [simp]:
  "sd_postfix (username_proof_store_def n) = user_postfix_u8 UsernameProofMessage"
  "sd_is_add_type (username_proof_store_def n) = is_type UsernameProof"
  "sd_is_remove_type (username_proof_store_def n) m = False"
  "sd_is_compact_state_type (username_proof_store_def n) m = False"
  "sd_remove_type_supported (username_proof_store_def n) = False"
  "\<not> compact_state_type_supported (username_proof_store_def n)"
  "sd_build_secondary_indices (username_proof_store_def n) = username_proof_build_secondary_indices"
  "sd_delete_secondary_indices (username_proof_store_def n) = username_proof_delete_secondary_indices"
  "sd_make_add_key (username_proof_store_def n) = username_proof_make_add_key"
  "sd_merge_event_args (username_proof_store_def n) = username_proof_merge_event_args"
  by (simp_all add: username_proof_store_def_def username_proof_base_def_def compact_state_type_supported_def)

lemma proof_valid_data:
  assumes "proof_valid A m"
  shows "msg_data m = Some (m_data m)" "\<exists>b. proof_body_of e m = Ok (m_data m, b) \<and> unp_name b = m_name m"
    "length (m_tsh m) = 24" "message_ts_hash m = Ok (m_tsh m)"
    "message_primary_key m = Ok (m_pkey (username_proof_store_def n) m)"
proof -
  from assms show d: "msg_data m = Some (m_data m)" by (auto simp: proof_valid_def dest: is_typeD)
  from assms d show "\<exists>b. proof_body_of e m = Ok (m_data m, b) \<and> unp_name b = m_name m"
    by (auto simp: proof_valid_def proof_body_of_def m_name_def proof_of_def split: option.splits message_body.splits)
  from assms show "length (m_tsh m) = 24" by (simp add: proof_valid_def m_tsh_def)
  from assms d show "message_ts_hash m = Ok (m_tsh m)"
    by (simp add: proof_valid_def message_ts_hash_def message_data_of_def make_ts_hash_def HASH_LENGTH_def m_tsh_def)
  from assms show "message_primary_key m = Ok (m_pkey (username_proof_store_def n) m)"
    by (auto simp: proof_valid_def type_to_set_postfix_def intro: primary_of_type)
qed

lemma proof_batches:
  assumes "proof_valid A m"
  shows "put_add_transaction A (username_proof_store_def n) txn (m_tsh m) m =
      Ok (txn_put (txn_put (txn_put txn (m_pkey (username_proof_store_def n) m) (message_encode A m)) (proof_akey m) (m_tsh m))
        (make_username_proof_by_name_key (m_name m)) (make_fid_key (m_fid m)))"
    "delete_one (username_proof_store_def n) txn m =
      Ok (txn_delete (txn_delete (txn_delete txn (make_username_proof_by_name_key (m_name m))) (proof_akey m))
        (m_pkey (username_proof_store_def n) m))"
proof -
  have t: "is_type UsernameProof m" "m_name m \<noteq> []" using assms by (auto simp: proof_valid_def)
  obtain b c d where p: "proof_body_of ''Message body is missing'' m = Ok (m_data m, b)" "unp_name b = m_name m"
    "proof_body_of ''Message body is missing or incorrect'' m = Ok (m_data m, c)" "unp_name c = m_name m"
    "proof_body_of ''Message data body is missing or incorrect'' m = Ok (m_data m, d)" "unp_name d = m_name m"
    using proof_valid_data(2) [OF assms] by metis
  note k = proof_valid_data(5) [OF assms, of n]
  from p t k show "put_add_transaction A (username_proof_store_def n) txn (m_tsh m) m =
      Ok (txn_put (txn_put (txn_put txn (m_pkey (username_proof_store_def n) m) (message_encode A m)) (proof_akey m) (m_tsh m))
        (make_username_proof_by_name_key (m_name m)) (make_fid_key (m_fid m)))"
    by (simp add: put_add_transaction_def put_message_transaction_def username_proof_make_add_key_def
        username_proof_build_secondary_indices_def proof_akey_def m_fid_def)
  from p t k show "delete_one (username_proof_store_def n) txn m =
      Ok (txn_delete (txn_delete (txn_delete txn (make_username_proof_by_name_key (m_name m))) (proof_akey m))
        (m_pkey (username_proof_store_def n) m))"
    by (simp add: delete_one_def proof_valid_data(4) [OF assms] delete_add_transaction_def delete_message_transaction_def
        username_proof_make_add_key_def username_proof_delete_secondary_indices_def proof_akey_def m_fid_def)
qed

lemma names_view:
  assumes "names_rep A n U db M" "m \<in> U"
  shows "db_view db (make_username_proof_by_name_key (m_name m)) = map_option (\<lambda>w. make_fid_key (m_fid w)) (M (m_name m))"
    "db_view db (proof_akey m) =
       (case M (m_name m) of Some w \<Rightarrow> if m_fid w = m_fid m then Some (m_tsh w) else None | None \<Rightarrow> None)"
    "db_view db (m_pkey (username_proof_store_def n) m) = (if M (m_name m) = Some m then Some (message_encode A m) else None)"
    "proof_valid A m" "db_healthy db"
  using assms by (simp_all add: names_rep_def)

lemma names_live: "names_rep A n U db M \<Longrightarrow> M name = Some w \<Longrightarrow> w \<in> U \<and> m_name w = name"
  by (simp add: names_rep_def)

lemma proof_conflicts:
  assumes rep: "names_rep A n U db M" and m: "m \<in> U"
  shows "get_merge_conflicts A (username_proof_store_def n) db m (m_tsh m) =
    (case M (m_name m) of
       None \<Rightarrow> Ok []
     | Some w \<Rightarrow>
         if m_tsh m < m_tsh w then Err (hub_err ''bad_request.conflict'' ''message conflicts with a more recent add'')
         else if m_tsh w = m_tsh m then Err already_merged
         else Ok [w])"
proof -
  let ?D = "username_proof_store_def n"
  have h: "db_healthy db" and v: "proof_valid A m" using names_view [OF rep m] by simp_all
  obtain b where b: "proof_body_of ''Message data body is missing'' m = Ok (m_data m, b)" "unp_name b = m_name m"
    using proof_valid_data(2) [OF v] by blast
  have i: "db_view db (make_username_proof_by_name_key (m_name m)) = map_option (\<lambda>w. make_fid_key (m_fid w)) (M (m_name m))"
    by (rule names_view(1) [OF rep m])
  show ?thesis
  proof (cases "M (m_name m)")
    case None
    with h b i show ?thesis
      by (simp add: get_merge_conflicts_def username_proof_store_def_def username_proof_get_merge_conflicts_def)
  next
    case (Some w)
    then have w: "w \<in> U" "m_name w = m_name m" "proof_valid A w"
      using names_live [OF rep Some] names_view(4) [OF rep] by auto
    from names_view [OF rep w(1)] w Some have a: "db_view db (make_username_proof_by_fid_key (m_fid w) (m_name m)) = Some (m_tsh w)"
      "db_view db (m_pkey ?D w) = Some (message_encode A w)"
      by (simp_all add: proof_akey_def)
    have g: "get_message A db (m_fid w) (user_postfix_u8 UsernameProofMessage) (m_tsh w) = Ok (Some w)"
      using a(2) w(3) h by (intro get_message_healthy) (simp_all add: m_pkey_def proof_valid_def)
    have "m_fid w > 0" using w(3) by (simp add: proof_valid_def word_neq_0_conv)
    moreover have "read_fid_key (make_fid_key (m_fid w)) = (Ok (m_fid w) :: (hub_error, u32) result)"
      by (simp add: read_fid_key_def make_fid_key_def)
    moreover have "default_message_compare add rem add (m_tsh w) add (m_tsh m) = Ok (bytes_compare (m_tsh w) (m_tsh m))"
      if "add \<noteq> rem" for add rem
      using proof_valid_data(3) [OF v] proof_valid_data(3) [OF w(3)] that bytes_compare_take [of "m_tsh w" "m_tsh m" 4]
      by (simp add: default_message_compare_def compare_slices_ok)
    ultimately show ?thesis
      using Some h b i a(1) g proof_valid_data(3) [OF w(3)]
      by (auto simp: get_merge_conflicts_def username_proof_store_def_def username_proof_get_merge_conflicts_def
          name_conflict_def username_proof_base_def_def vec_to_u8_24_def message_type_u8_def bytes_compare_lex
          already_merged_def)
  qed
qed

text \<open>A merge that passes hands the name over: index, adds and message change together.\<close>

lemma names_update:
  assumes rep: "names_rep A n U db M" and m: "m \<in> U" and h: "db_healthy db'"
    and view: "\<And>k. k \<noteq> make_event_key i \<Longrightarrow> db_view db' k =
      (if k = make_username_proof_by_name_key (m_name m) then Some (make_fid_key (m_fid m))
       else if k = proof_akey m then Some (m_tsh m)
       else if k = m_pkey (username_proof_store_def n) m then Some (message_encode A m)
       else case M (m_name m) of
         Some w \<Rightarrow> if k = proof_akey w \<or> k = m_pkey (username_proof_store_def n) w then None else db_view db k
       | None \<Rightarrow> db_view db k)"
  shows "names_rep A n U db' (M(m_name m \<mapsto> m))"
proof -
  let ?D = "username_proof_store_def n" and ?M = "M(m_name m \<mapsto> m)"
  note keys = make_username_proof_by_name_key_def proof_akey_def make_username_proof_by_fid_key_def m_pkey_eq
    make_event_key_def
  have inj: "m_pkey ?D x = m_pkey ?D y \<longleftrightarrow> x = y" if "x \<in> U" "y \<in> U" for x y
    using rep that by (auto simp: names_rep_def inj_on_def)
  have free: "make_username_proof_by_name_key a \<noteq> make_event_key i" "proof_akey x \<noteq> make_event_key i"
    "m_pkey ?D x \<noteq> make_event_key i" "make_username_proof_by_name_key a \<noteq> proof_akey x"
    "make_username_proof_by_name_key a \<noteq> m_pkey ?D x" "proof_akey x \<noteq> m_pkey ?D y"
    "proof_akey x = proof_akey y \<longleftrightarrow> m_fid x = m_fid y \<and> m_name x = m_name y"
    "make_username_proof_by_name_key a = make_username_proof_by_name_key b \<longleftrightarrow> a = b" for a b x y
    by (auto simp: keys make_user_key_def make_fid_key_def)
  have "db_view db' (make_username_proof_by_name_key (m_name x)) = map_option (\<lambda>w. make_fid_key (m_fid w)) (?M (m_name x))"
    "db_view db' (proof_akey x) =
       (case ?M (m_name x) of Some w \<Rightarrow> if m_fid w = m_fid x then Some (m_tsh w) else None | None \<Rightarrow> None)"
    "db_view db' (m_pkey ?D x) = (if ?M (m_name x) = Some x then Some (message_encode A x) else None)" if x: "x \<in> U" for x
  proof -
    note old = names_view [OF rep x]
    show "db_view db' (make_username_proof_by_name_key (m_name x)) = map_option (\<lambda>w. make_fid_key (m_fid w)) (?M (m_name x))"
      using view [OF free(1)] old(1) by (simp add: free split: option.split)
    show "db_view db' (proof_akey x) =
        (case ?M (m_name x) of Some w \<Rightarrow> if m_fid w = m_fid x then Some (m_tsh w) else None | None \<Rightarrow> None)"
      using view [OF free(2)] old(2) names_live [OF rep] by (auto simp: free free(4) [symmetric] split: option.split)
    show "db_view db' (m_pkey ?D x) = (if ?M (m_name x) = Some x then Some (message_encode A x) else None)"
      using view [OF free(3)] old(3) names_live [OF rep, of "m_name m"] inj [OF x m] inj [OF x] x m
      by (cases "M (m_name m)") (auto simp: free free(5,6) [symmetric])
  qed
  with rep h m show ?thesis by (simp add: names_rep_def)
qed

lemma proof_merge_eq:
  assumes rep: "names_rep A n U (ast_db st) M" and m: "m \<in> U" and D: "ast_def st = username_proof_store_def n"
  shows "merge A now m st =
    with_txn A now st
      (bind_result (get_merge_conflicts A (username_proof_store_def n) (ast_db st) m (m_tsh m)) (\<lambda>ws.
       bind_result (delete_many_transaction (username_proof_store_def n) txn_new ws) (\<lambda>txn1.
       bind_result (put_add_transaction A (username_proof_store_def n) txn1 (m_tsh m) m) (\<lambda>txn2.
         Ok (txn2, username_proof_merge_event_args m ws)))))"
proof -
  note v = names_view(4) [OF rep m]
  have t: "make_ts_hash (md_timestamp (m_data m)) (msg_hash m) = Ok (m_tsh m)" "is_type UsernameProof m"
    using v by (auto simp: proof_valid_def make_ts_hash_def HASH_LENGTH_def m_tsh_def)
  from proof_valid_data(1) [OF v] D show ?thesis
    by (simp add: t merge_def Let_def message_data_of_def merge_add_def check_add_compact_def rocksdb_txn_def)
qed

lemma proof_write_ok:
  assumes rep: "names_rep A n U (ast_db st) M" and m: "m \<in> U" and D: "ast_def st = username_proof_store_def n"
    and id: "generate_id now None (ast_gen st) = (gen, Ok i)" and ws: "ws = (case M (m_name m) of None \<Rightarrow> [] | Some w \<Rightarrow> [w])"
  shows "\<exists>st' b. with_txn A now st
      (bind_result (delete_many_transaction (username_proof_store_def n) txn_new ws) (\<lambda>txn1.
       bind_result (put_add_transaction A (username_proof_store_def n) txn1 (m_tsh m) m) (\<lambda>txn2. Ok (txn2, ev)))) =
      (st', Ok b) \<and> ast_def st' = username_proof_store_def n \<and>
    names_rep A n U (ast_db st') (M(m_name m \<mapsto> m))"
proof -
  let ?D = "username_proof_store_def n" and ?g = "db_view (ast_db st)"
  note vm = names_view(4) [OF rep m] and h = names_view(5) [OF rep m]
  obtain txn1 where t1: "delete_many_transaction ?D txn_new ws = Ok txn1" "hm_wf txn1"
    "\<And>k. k \<noteq> make_username_proof_by_name_key (m_name m) \<Longrightarrow> overlay ?g txn1 k =
       (case M (m_name m) of Some w \<Rightarrow> if k = proof_akey w \<or> k = m_pkey ?D w then None else ?g k | None \<Rightarrow> ?g k)"
  proof (cases "M (m_name m)")
    case None
    with ws that [of txn_new] show ?thesis by simp
  next
    case (Some w)
    from names_live [OF rep Some] have w: "w \<in> U" "m_name w = m_name m" by auto
    note d = proof_batches(2) [OF names_view(4) [OF rep w(1)], of n txn_new]
    let ?t = "txn_delete (txn_delete (txn_delete txn_new (make_username_proof_by_name_key (m_name w))) (proof_akey w)) (m_pkey ?D w)"
    from d ws Some that [of ?t] w(2) show ?thesis by simp
  qed
  note p = proof_batches(1) [OF vm, of n txn1]
  let ?t = "txn_put (txn_put (txn_put txn1 (m_pkey ?D m) (message_encode A m)) (proof_akey m) (m_tsh m))
    (make_username_proof_by_name_key (m_name m)) (make_fid_key (m_fid m))"
  have "hm_wf ?t" using t1(2) by simp
  from commit_event_ok [OF h this id, of A ev] obtain db y where c:
    "commit_event A now st ?t ev = (st\<lparr>ast_gen := gen, ast_db := db\<rparr>, Ok (ae_event_encode A (ev\<lparr>ev_id := i\<rparr>)))"
    "db_healthy db" "db_view db = (overlay ?g ?t)(make_event_key i \<mapsto> y)" by blast
  have "names_rep A n U db (M(m_name m \<mapsto> m))"
    by (rule names_update [OF rep m c(2), of i]) (simp add: c(3) t1(3))
  with c(1) t1(1) p D show ?thesis by (simp add: with_txn_def)
qed

theorem proof_merge_latest:
  assumes rep: "names_rep A n U (ast_db st) M" and m: "m \<in> U" and D: "ast_def st = username_proof_store_def n"
    and id: "generate_id now None (ast_gen st) = (gen, Ok i)"
  shows "\<exists>st' r. merge A now m st = (st', r) \<and> ast_def st' = username_proof_store_def n \<and>
    names_rep A n U (ast_db st') (latest_proof m M) \<and>
    ((\<exists>b. r = Ok b) \<longleftrightarrow> (\<forall>w. M (m_name m) = Some w \<longrightarrow> m_tsh w < m_tsh m))"
proof -
  note e = proof_merge_eq [OF rep m D, of now] and c = proof_conflicts [OF rep m] and ok = proof_write_ok [OF rep m D id]
  show ?thesis
  proof (cases "M (m_name m)")
    case None
    with e c ok [of "[]" "username_proof_merge_event_args m []"] show ?thesis by (auto simp: latest_proof_def)
  next
    case (Some w)
    consider "m_tsh m < m_tsh w" | "m_tsh w = m_tsh m" | "m_tsh w < m_tsh m" by (rule linorder_cases)
    then show ?thesis
    proof cases
      case 3
      then have "\<not> m_tsh m < m_tsh w" "m_tsh w \<noteq> m_tsh m" by auto
      with 3 Some e c ok [of "[w]" "username_proof_merge_event_args m [w]"] show ?thesis by (auto simp: latest_proof_def)
    qed (use e c D Some rep in \<open>auto simp: latest_proof_def with_txn_def\<close>)
  qed
qed

lemma get_proof_by_name_ok:
  assumes rep: "names_rep A n U (ast_db st) M" and m: "m \<in> U" and D: "ast_def st = username_proof_store_def n"
    and w: "M (m_name m) = Some w"
  shows "get_proof_by_name A st (m_name m) UsernameTypeEnsL1 = Ok (Some w)"
proof -
  from names_live [OF rep w] have u: "w \<in> U" "m_name w = m_name m" by auto
  note o = names_view [OF rep u(1)] and i = names_view(1) [OF rep m]
  have "get_message A (ast_db st) (m_fid w) (user_postfix_u8 UsernameProofMessage) (m_tsh w) = Ok (Some w)"
    using o(3,4,5) w u(2) by (intro get_message_healthy) (simp_all add: m_pkey_def proof_valid_def)
  moreover have "read_fid_key (make_fid_key (m_fid w)) = (Ok (m_fid w) :: (hub_error, u32) result)"
    by (simp add: read_fid_key_def make_fid_key_def)
  moreover have "m_fid w \<noteq> 0" using o(4) by (simp add: proof_valid_def)
  ultimately show ?thesis
    using o(2,5) i w u(2) D proof_valid_data(3) [OF o(4)]
    by (simp add: get_proof_by_name_def get_add_def fid_required_def get_by_index_key_def proof_partial_def
        partial_message_def default_data_def username_proof_make_add_key_def proof_body_of_def proof_akey_def
        vec_to_u8_24_def)
qed

end
