(* ===== verification/Account_Stores.thy ===== *)
theory Account_Stores
  imports Cast_Store Reaction_Store User_Data_Store Link_Compact Verification_Owner Username_Proof_Store
begin

text \<open>
  The stores that keep one message per slot, together: casts, reactions, user data and links, each
  with its rank and the keys it expects empty.  What the contract of a store gives holds for all of
  them.
\<close>

definition account_stores :: "u32 \<Rightarrow> (store_def \<times> (message \<Rightarrow> bytes) \<times> (message \<Rightarrow> bytes set)) set" where
  "account_stores n =
     {(cast_store_def n, cast_rank, \<lambda>_. {}),
      (reaction_store_def n, reaction_rank, \<lambda>_. {}),
      (user_data_store_def n, user_data_rank, \<lambda>_. {}),
      (link_store_def n, link_rank, link_absent)}"

lemma account_store_contract:
  assumes "(D, rank, absent) \<in> account_stores n"
  shows "message_store A D rank absent"
  using assms unfolding account_stores_def
  by (auto intro: cast.message_store_axioms reaction.message_store_axioms user_data.message_store_axioms
      link.message_store_axioms)

lemma account_store_keys: "(D, rank, absent) \<in> account_stores n \<Longrightarrow> store_keys A D rank absent"
  using account_store_contract message_store.axioms(1) by blast

text \<open>The add of the slot of a message, as a lookup returns it.\<close>

definition live_add_of :: "store_def \<Rightarrow> message option \<Rightarrow> message option" where
  "live_add_of D live = (case live of Some w \<Rightarrow> if sd_is_add_type D w then Some w else None | None \<Rightarrow> None)"

lemma get_add_slot:
  assumes "(D, rank, absent) \<in> account_stores n" "store_rep A D absent U (ast_db st) M" "m \<in> U" "ast_def st = D"
    "md_fid (m_data m) \<noteq> 0"
  shows "get_add A st m = Ok (live_add_of D (M (m_akey D m)))"
proof -
  note v = rep_valid [OF assms(2,3)]
  show ?thesis
    using store_keys.get_add_live [OF account_store_keys [OF assms(1)] assms(2-4) valid_data [OF v] assms(5) _ valid_keys(1) [OF v]]
    by (simp add: live_add_of_def m_fid_def)
qed

text \<open>The same for a link store with compact states.\<close>

lemma link_get_add:
  assumes rep: "compact_rep A n U C (ast_db st) M K" and m: "m \<in> U" and D: "ast_def st = link_store_def n"
  shows "get_add A st m = Ok (live_add_of (link_store_def n) (M (m_akey (link_store_def n) m)))"
proof -
  let ?st = "st\<lparr>ast_def := link_plain n\<rparr>"
  note v = compact_repD(3) [OF rep m]
  obtain b f where "link_body_of m = Ok (m_data m, b)" "m_fid m \<noteq> 0" using v by (rule link_valid)
  then have fid: "md_fid (m_data m) \<noteq> 0" by (auto simp: m_fid_def)
  have r: "store_rep A (link_plain n) link_padded_only U (ast_db ?st) M" using compact_repD(1) [OF rep] by simp
  have k: "sd_make_add_key (link_plain n) m = Ok (m_akey (link_plain n) m)" using valid_keys(1) [OF v] by simp
  have "get_add A st m = get_add A ?st m" using D by (simp add: get_add_def get_by_index_key_def cong: if_cong)
  also have "\<dots> = Ok (live_add_of (link_store_def n) (M (m_akey (link_store_def n) m)))"
    using plain_slots.get_add_live [OF r m _ valid_data [OF v] fid _ k] by (simp add: live_add_of_def m_fid_def cong: option.case_cong)
  finally show ?thesis .
qed

text \<open>The messages of a fid that are live.\<close>

definition live_of :: "u32 \<Rightarrow> (bytes \<Rightarrow> message option) \<Rightarrow> message set" where
  "live_of fid M = {w. w \<in> ran M \<and> m_fid w = fid}"

lemma live_of_drop:
  assumes M: "\<And>s w. M s = Some w \<Longrightarrow> m_akey D w = s" and ws: "set ws = live_of fid M" "distinct ws"
  shows "live_of fid (drop_slots D (take k ws) M) = set (drop k ws)"
proof -
  have live: "M (m_akey D w) = Some w" if "w \<in> set ws" for w
    using that ws(1) M by (auto simp: live_of_def ran_def)
  have "w \<in> live_of fid (drop_slots D (take k ws) M) \<longleftrightarrow> w \<in> set ws \<and> w \<notin> set (take k ws)" for w
  proof
    assume "w \<in> live_of fid (drop_slots D (take k ws) M)"
    then obtain s where "s \<notin> m_akey D ` set (take k ws)" "M s = Some w" "m_fid w = fid"
      by (auto simp: live_of_def ran_def drop_slots_eq split: if_splits)
    with M ws(1) show "w \<in> set ws \<and> w \<notin> set (take k ws)" by (auto simp: live_of_def ran_def)
  next
    assume w: "w \<in> set ws \<and> w \<notin> set (take k ws)"
    have "m_akey D w \<notin> m_akey D ` set (take k ws)"
      using w live by (auto dest: in_set_takeD) (metis in_set_takeD option.inject)
    with w live ws(1) show "w \<in> live_of fid (drop_slots D (take k ws) M)"
      by (auto simp: live_of_def ran_def drop_slots_eq)
  qed
  moreover have "set ws - set (take k ws) = set (drop k ws)"
    using ws(2) set_take_disj_set_drop_if_distinct [of ws k k] append_take_drop_id [of k ws]
    by (metis Diff_triv Int_commute Un_Diff_cancel Diff_cancel Un_Diff Un_empty_left order_refl set_append)
  ultimately show ?thesis by blast
qed

end
