(* ===== verification/Trie_Node.thy ===== *)
theory Trie_Node
  imports Hub_Error
begin

text \<open>
  The nodes of the Merkle trie, \<open>src/storage/trie/trie_node.rs\<close>: lazily loaded children,
  incremental hashes and item counts, bulk insertion with leaf splitting, bulk deletion with path
  compaction, membership and snapshots.

  Every operation on \<open>&mut self\<close> returns the new node (and the new write batch) next to its
  result, also when the result is an error: the source keeps what it changed before the early
  return.  A child reached through \<open>get_or_load_child\<close> is changed in place; the model writes the
  changed child back under its character.

  The environment holds what is not in the repository: the \<open>blake3\<close> digest, the generated
  protobuf codec of \<open>DbTrieNode\<close>, the \<open>hex\<close> encoder, and the order in which a \<open>HashMap\<close>
  yields its keys.
\<close>

section \<open>Data\<close>

text \<open>\<open>DbTrieNode\<close> of \<open>src/proto/sync_trie.proto\<close>.\<close>

record db_trie_node =
  dtn_key :: bytes
  dtn_child_chars :: "u32 list"
  dtn_items :: u32
  dtn_hash :: bytes

record trie_env =
  env_blake3 :: "bytes \<Rightarrow> bytes"
  env_encode :: "db_trie_node \<Rightarrow> bytes"
  env_decode :: "bytes \<Rightarrow> (string, db_trie_node) result"
  env_hex :: "bytes \<Rightarrow> string"
  env_order :: "u8 list \<Rightarrow> u8 list"

definition TIMESTAMP_LENGTH :: nat where
  "TIMESTAMP_LENGTH = 10"

definition MAX_VALUES_RETURNED_PER_CALL :: nat where
  "MAX_VALUES_RETURNED_PER_CALL = 1024"

datatype serialized_trie_node = SerializedTrieNode (stn_hash: "bytes option")

datatype trie_node =
    TrieNode (tn_hash: bytes) (tn_items: nat)
      (tn_children: "(u8 \<times> trie_node_type) list") (tn_key: "bytes option")
and trie_node_type = Node trie_node | Serialized serialized_trie_node

definition trie_node_new :: trie_node where
  "trie_node_new = TrieNode [] 0 [] None"

text \<open>Field updates of a node.\<close>

definition set_hash :: "bytes \<Rightarrow> trie_node \<Rightarrow> trie_node" where
  "set_hash h n = TrieNode h (tn_items n) (tn_children n) (tn_key n)"

definition set_items :: "nat \<Rightarrow> trie_node \<Rightarrow> trie_node" where
  "set_items i n = TrieNode (tn_hash n) i (tn_children n) (tn_key n)"

definition set_children :: "(u8 \<times> trie_node_type) list \<Rightarrow> trie_node \<Rightarrow> trie_node" where
  "set_children cs n = TrieNode (tn_hash n) (tn_items n) cs (tn_key n)"

definition set_key :: "bytes option \<Rightarrow> trie_node \<Rightarrow> trie_node" where
  "set_key k n = TrieNode (tn_hash n) (tn_items n) (tn_children n) k"

definition put_child :: "u8 \<Rightarrow> trie_node \<Rightarrow> trie_node \<Rightarrow> trie_node" where
  "put_child c child n = set_children (hm_insert c (Node child) (tn_children n)) n"

definition key_or_empty :: "trie_node \<Rightarrow> bytes" where
  "key_or_empty n = (case tn_key n of None \<Rightarrow> [] | Some k \<Rightarrow> k)"

section \<open>Keys and serialization\<close>

definition make_primary_key :: "bytes \<Rightarrow> u8 option \<Rightarrow> bytes" where
  "make_primary_key prefix child_char =
     root_prefix_u8 SyncMerkleTrieNode # prefix @
       (case child_char of None \<Rightarrow> [] | Some c \<Rightarrow> [c])"

definition trie_node_serialize :: "trie_env \<Rightarrow> trie_node \<Rightarrow> bytes" where
  "trie_node_serialize E node =
     env_encode E \<lparr>dtn_key = key_or_empty node,
       dtn_child_chars = map (\<lambda>c. ucast (fst c)) (tn_children node),
       dtn_items = word_of_nat (tn_items node),
       dtn_hash = tn_hash node\<rparr>"

definition trie_node_deserialize :: "trie_env \<Rightarrow> bytes \<Rightarrow> (hub_error, trie_node) result" where
  "trie_node_deserialize E serialized =
     (case env_decode E serialized of
        Ok d \<Rightarrow>
          Ok (TrieNode (dtn_hash d) (unat (dtn_items d))
                (fold (\<lambda>c m. hm_insert (ucast c) (Serialized (SerializedTrieNode None)) m)
                   (dtn_child_chars d) [])
                (Some (dtn_key d)))
      | Err _ \<Rightarrow> Err (hub_err ''bad_request.invalid_param'' ''Failed to decode trie node'')
      | Panic s \<Rightarrow> Panic s)"

definition is_leaf :: "trie_node \<Rightarrow> bool" where
  "is_leaf n \<longleftrightarrow> tn_children n = []"

definition put_to_txn :: "trie_env \<Rightarrow> trie_node \<Rightarrow> txn_batch \<Rightarrow> bytes \<Rightarrow> txn_batch" where
  "put_to_txn E n txn prefix = txn_put txn (make_primary_key prefix None) (trie_node_serialize E n)"

definition delete_to_txn :: "txn_batch \<Rightarrow> bytes \<Rightarrow> txn_batch" where
  "delete_to_txn txn prefix = txn_delete txn (make_primary_key prefix None)"

section \<open>Loading children and hashing\<close>

definition get_or_load_child ::
  "trie_env \<Rightarrow> rocksdb \<Rightarrow> trie_node \<Rightarrow> bytes \<Rightarrow> u8 \<Rightarrow> trie_node \<times> (hub_error, trie_node) result" where
  "get_or_load_child E db self prefix c =
     (case hm_get (tn_children self) c of
        None \<Rightarrow> (self, Err (hub_err ''bad_request.invalid_param'' ''Child not found''))
      | Some (Node node) \<Rightarrow> (self, Ok node)
      | Some (Serialized _) \<Rightarrow>
          (case rocksdb_get db (make_primary_key prefix (Some c)) of
             Err e \<Rightarrow> (self, Err (hub_error_from_rocksdb e))
           | Panic m \<Rightarrow> (self, Panic m)
           | Ok None \<Rightarrow> (put_child c trie_node_new self, Ok trie_node_new)
           | Ok (Some b) \<Rightarrow>
               (case trie_node_deserialize E b of
                  Ok child \<Rightarrow> (put_child c child self, Ok child)
                | Err e \<Rightarrow> (self, Panic ''called `Result::unwrap()` on an `Err` value'')
                | Panic m \<Rightarrow> (self, Panic m))))"

fun child_hash :: "trie_node_type \<Rightarrow> bytes" where
  "child_hash (Node node) = tn_hash node"
| "child_hash (Serialized s) = (case stn_hash s of Some h \<Rightarrow> h | None \<Rightarrow> [])"

fun concat_hashes_loop ::
  "trie_env \<Rightarrow> rocksdb \<Rightarrow> bytes \<Rightarrow> (u8 \<times> bytes) list \<Rightarrow> bytes \<Rightarrow> trie_node \<Rightarrow>
     trie_node \<times> (hub_error, bytes) result" where
  "concat_hashes_loop E db prefix [] acc self = (self, Ok acc)"
| "concat_hashes_loop E db prefix ((c, h) # rest) acc self =
     (if h = [] then
        (case get_or_load_child E db self prefix c of
           (self', Ok child) \<Rightarrow> concat_hashes_loop E db prefix rest (acc @ tn_hash child) self'
         | (self', Err e) \<Rightarrow> (self', Err e)
         | (self', Panic m) \<Rightarrow> (self', Panic m))
      else concat_hashes_loop E db prefix rest (acc @ h) self)"

definition update_hash ::
  "trie_env \<Rightarrow> rocksdb \<Rightarrow> bytes \<Rightarrow> trie_node \<Rightarrow> trie_node \<times> (hub_error, unit) result" where
  "update_hash E db prefix self =
     (if is_leaf self then
        (set_hash (blake3_20 (env_blake3 E) (key_or_empty self)) self, Ok ())
      else
        (let child_hashes = map (\<lambda>(c, t). (c, child_hash t)) (sort_key fst (tn_children self)) in
         case concat_hashes_loop E db prefix child_hashes [] self of
           (self', Ok concat_hashes) \<Rightarrow>
             (set_hash (blake3_20 (env_blake3 E) concat_hashes) self', Ok ())
         | (self', Err e) \<Rightarrow> (self', Err e)
         | (self', Panic m) \<Rightarrow> (self', Panic m)))"

text \<open>The iteration order of a \<open>HashMap\<close> with byte keys.\<close>

definition hash_map_iter :: "trie_env \<Rightarrow> (u8 \<times> 'v) list \<Rightarrow> (u8 \<times> 'v) list" where
  "hash_map_iter E m =
     List.map_filter (\<lambda>c. map_option (Pair c) (hm_get m c)) (env_order E (map fst m))"

section \<open>Insertion\<close>

type_synonym insert_fn =
  "bytes list \<Rightarrow> nat \<Rightarrow> trie_node \<Rightarrow> txn_batch \<Rightarrow> (trie_node \<times> txn_batch) \<times> (hub_error, bool list) result"

definition key_length_exceeded :: hub_error where
  "key_length_exceeded = hub_err ''bad_request.invalid_param'' ''Key length exceeded''"

text \<open>
  The parts of \<open>insert\<close>, in the order of the source.  A leaf without a value takes the last key
  of the batch (\<open>keys.pop()\<close>) and marks the first result.
\<close>

definition insert_leaf_value ::
  "trie_env \<Rightarrow> rocksdb \<Rightarrow> bytes list \<Rightarrow> bytes \<Rightarrow> bool list \<Rightarrow> trie_node \<Rightarrow> txn_batch \<Rightarrow>
     (trie_node \<times> txn_batch) \<times> (hub_error, bytes list \<times> bool list \<times> bool) result" where
  "insert_leaf_value E db keys prefix results self txn =
     (if tn_key self = None then
        (let self1 = set_items (tn_items self + 1) (set_key (Some (last keys)) self) in
         case update_hash E db prefix self1 of
           (self2, Ok _) \<Rightarrow>
             ((self2, put_to_txn E self2 txn prefix), Ok (butlast keys, results[0 := True], True))
         | (self2, Err e) \<Rightarrow> ((self2, txn), Err e)
         | (self2, Panic m) \<Rightarrow> ((self2, txn), Panic m))
      else ((self, txn), Ok (keys, results, False)))"

text \<open>The \<open>filter_map\<close> that drops the keys equal to the value of the leaf.\<close>

definition clear_existing :: "bytes \<Rightarrow> bytes list \<Rightarrow> bool list \<Rightarrow> bool list" where
  "clear_existing value keys results =
     fold (\<lambda>(i, key) r. if bytes_compare value key = 0 then r[i := False] else r)
       (enumerate 0 keys) results"

definition keep_missing :: "bytes \<Rightarrow> bool \<Rightarrow> bytes list \<Rightarrow> (nat \<times> bytes) list" where
  "keep_missing value inserted keys =
     map (\<lambda>(i, key). (i + (if inserted then 1 else 0), key))
       (filter (\<lambda>(i, key). bytes_compare value key \<noteq> 0) (enumerate 0 keys))"

definition group_keys :: "nat \<Rightarrow> (nat \<times> bytes) list \<Rightarrow> (u8 \<times> nat list \<times> bytes list) list" where
  "group_keys idx remaining =
     fold (\<lambda>(i, key) m.
             case hm_get m (key ! idx) of
               None \<Rightarrow> hm_insert (key ! idx) ([i], [key]) m
             | Some (is, ks) \<Rightarrow> hm_insert (key ! idx) (is @ [i], ks @ [key]) m)
       remaining []"

definition record_results :: "nat list \<Rightarrow> bool list \<Rightarrow> bool list \<Rightarrow> bool list" where
  "record_results is child_results results =
     fold (\<lambda>(i, r) rs. rs[i := r]) (zip is child_results) results"

definition count_successes :: "nat list \<Rightarrow> bool list \<Rightarrow> nat" where
  "count_successes is child_results = length (filter snd (zip is child_results))"

text \<open>One iteration of the loop over the groups; \<open>ins\<close> is the recursive call.\<close>

definition insert_group ::
  "insert_fn \<Rightarrow> trie_env \<Rightarrow> rocksdb \<Rightarrow> bytes \<Rightarrow> nat \<Rightarrow> u8 \<times> nat list \<times> bytes list \<Rightarrow>
     trie_node \<Rightarrow> txn_batch \<Rightarrow> (trie_node \<times> txn_batch) \<times> (hub_error, bool list) result" where
  "insert_group ins E db prefix idx g self txn =
     (let c = fst g;
          self1 = (if hm_contains (tn_children self) c then self else put_child c trie_node_new self)
      in case get_or_load_child E db self1 prefix c of
           (self2, Ok child) \<Rightarrow>
             (case ins (snd (snd g)) (Suc idx) child txn of
                ((child', txn'), r) \<Rightarrow> ((put_child c child' self2, txn'), r))
         | (self2, Err e) \<Rightarrow> ((self2, txn), Err e)
         | (self2, Panic m) \<Rightarrow> ((self2, txn), Panic m))"

fun insert_groups ::
  "insert_fn \<Rightarrow> trie_env \<Rightarrow> rocksdb \<Rightarrow> bytes \<Rightarrow> nat \<Rightarrow> (u8 \<times> nat list \<times> bytes list) list \<Rightarrow>
     bool list \<Rightarrow> nat \<Rightarrow> trie_node \<Rightarrow> txn_batch \<Rightarrow>
     (trie_node \<times> txn_batch) \<times> (hub_error, bool list \<times> nat) result" where
  "insert_groups ins E db prefix idx [] results successes self txn =
     ((self, txn), Ok (results, successes))"
| "insert_groups ins E db prefix idx (g # gs) results successes self txn =
     (case insert_group ins E db prefix idx g self txn of
        ((self', txn'), Ok child_results) \<Rightarrow>
          insert_groups ins E db prefix idx gs
            (record_results (fst (snd g)) child_results results)
            (successes + count_successes (fst (snd g)) child_results) self' txn'
      | (st, Err e) \<Rightarrow> (st, Err e)
      | (st, Panic m) \<Rightarrow> (st, Panic m))"

definition insert_remaining ::
  "insert_fn \<Rightarrow> trie_env \<Rightarrow> rocksdb \<Rightarrow> bytes \<Rightarrow> nat \<Rightarrow> (nat \<times> bytes) list \<Rightarrow> bool list \<Rightarrow>
     trie_node \<Rightarrow> txn_batch \<Rightarrow> (trie_node \<times> txn_batch) \<times> (hub_error, bool list) result" where
  "insert_remaining ins E db prefix idx remaining results self txn =
     (if \<exists>k \<in> snd ` set remaining. length k \<le> idx then ((self, txn), Err key_length_exceeded)
      else
        (case insert_groups ins E db prefix idx (hash_map_iter E (group_keys idx remaining))
                results 0 self txn of
           ((self1, txn1), Ok (results1, successes)) \<Rightarrow>
             if successes > 0 then
               (case update_hash E db prefix (set_items (tn_items self1 + successes) self1) of
                  (self2, Ok _) \<Rightarrow> ((self2, put_to_txn E self2 txn1 prefix), Ok results1)
                | (self2, Err e) \<Rightarrow> ((self2, txn1), Err e)
                | (self2, Panic m) \<Rightarrow> ((self2, txn1), Panic m))
             else ((self1, txn1), Ok results1)
         | (st, Err e) \<Rightarrow> (st, Err e)
         | (st, Panic m) \<Rightarrow> (st, Panic m)))"

definition split_leaf_node_with ::
  "insert_fn \<Rightarrow> trie_env \<Rightarrow> rocksdb \<Rightarrow> nat \<Rightarrow> trie_node \<Rightarrow> txn_batch \<Rightarrow>
     (trie_node \<times> txn_batch) \<times> (hub_error, unit) result" where
  "split_leaf_node_with ins E db idx self txn =
     (case tn_key self of
        None \<Rightarrow> ((self, txn), Panic unwrap_none)
      | Some key \<Rightarrow>
          (let self0 = set_key None self in
           if length key \<le> idx then ((self0, txn), Panic ''index out of bounds'')
           else
             (let prefix = take idx key; c = key ! idx in
              case ins [key] (Suc idx) trie_node_new txn of
                ((child, txn1), Ok _) \<Rightarrow>
                  (case update_hash E db prefix (put_child c child self0) of
                     (self2, Ok _) \<Rightarrow> ((self2, put_to_txn E self2 txn1 prefix), Ok ())
                   | (self2, Err e) \<Rightarrow> ((self2, txn1), Err e)
                   | (self2, Panic m) \<Rightarrow> ((self2, txn1), Panic m))
              | ((child, txn1), Err e) \<Rightarrow> ((put_child c child self0, txn1), Err e)
              | ((child, txn1), Panic m) \<Rightarrow> ((put_child c child self0, txn1), Panic m))))"

definition insert_body ::
  "insert_fn \<Rightarrow> trie_env \<Rightarrow> rocksdb \<Rightarrow> bytes list \<Rightarrow> nat \<Rightarrow> trie_node \<Rightarrow> txn_batch \<Rightarrow>
     (trie_node \<times> txn_batch) \<times> (hub_error, bool list) result" where
  "insert_body ins E db keys idx self txn =
     (if keys = [] then
        ((self, txn), Err (hub_err ''bad_request.invalid_param'' ''No keys to insert''))
      else if length (hd keys) < idx then ((self, txn), Panic ''range end index out of range'')
      else
        (let prefix = take idx (hd keys); results = map (\<lambda>_. False) keys in
         if idx \<ge> TIMESTAMP_LENGTH \<and> is_leaf self then
           (case insert_leaf_value E db keys prefix results self txn of
              ((self1, txn1), Ok (keys1, results1, inserted)) \<Rightarrow>
                if keys1 = [] then ((self1, txn1), Ok results1)
                else
                  (let results2 = clear_existing (key_or_empty self1) keys1 results1;
                       remaining = keep_missing (key_or_empty self1) inserted keys1
                   in if remaining = [] then ((self1, txn1), Ok results2)
                      else
                        (case split_leaf_node_with ins E db idx self1 txn1 of
                           ((self2, txn2), Ok _) \<Rightarrow>
                             insert_remaining ins E db prefix idx remaining results2 self2 txn2
                         | (st, Err e) \<Rightarrow> (st, Err e)
                         | (st, Panic m) \<Rightarrow> (st, Panic m)))
            | (st, Err e) \<Rightarrow> (st, Err e)
            | (st, Panic m) \<Rightarrow> (st, Panic m))
         else insert_remaining ins E db prefix idx (enumerate 0 keys) results self txn))"

text \<open>
  The recursion: a group keeps only keys longer than the current index, and a split inserts one
  key into a fresh node, which stores it without recursing.
\<close>

definition max_len :: "bytes list \<Rightarrow> nat" where
  "max_len keys = foldr max (map length keys) 0"

definition insert_measure :: "bytes list \<Rightarrow> nat \<Rightarrow> trie_node \<Rightarrow> nat" where
  "insert_measure keys idx self =
     (if idx \<ge> TIMESTAMP_LENGTH \<and> length keys = 1 \<and> is_leaf self \<and> tn_key self = None then 0
      else Suc (max_len keys - idx))"

lemma max_len_mem: "k \<in> set keys \<Longrightarrow> length k \<le> max_len keys"
  unfolding max_len_def by (induction keys) auto

lemma max_len_le: "(\<And>k. k \<in> set keys \<Longrightarrow> length k \<le> n) \<Longrightarrow> max_len keys \<le> n"
  unfolding max_len_def by (induction keys) auto

lemma max_len_subset: "set ks \<subseteq> set keys \<Longrightarrow> max_len ks \<le> max_len keys"
  by (rule max_len_le) (auto intro: max_len_mem)

lemma hash_map_iter_mem: "(c, v) \<in> set (hash_map_iter E m) \<Longrightarrow> hm_get m c = Some v"
  by (auto simp: hash_map_iter_def List.map_filter_def)

text \<open>Every key of a group is one of the grouped keys, and no group is empty.\<close>

definition groups_ok :: "(u8 \<times> nat list \<times> bytes list) list \<Rightarrow> bytes set \<Rightarrow> bool" where
  "groups_ok m K \<longleftrightarrow> (\<forall>c is ks. hm_get m c = Some (is, ks) \<longrightarrow> ks \<noteq> [] \<and> set ks \<subseteq> K)"

lemma groups_ok_fold:
  assumes "groups_ok m K" "snd ` set remaining \<subseteq> K"
  shows "groups_ok (fold (\<lambda>(i, key) m.
             case hm_get m (key ! idx) of
               None \<Rightarrow> hm_insert (key ! idx) ([i], [key]) m
             | Some (is, ks) \<Rightarrow> hm_insert (key ! idx) (is @ [i], ks @ [key]) m)
       remaining m) K"
  using assms
proof (induction remaining arbitrary: m)
  case (Cons x remaining)
  obtain i key where x: "x = (i, key)" by (cases x)
  let ?m = "case hm_get m (key ! idx) of
               None \<Rightarrow> hm_insert (key ! idx) ([i], [key]) m
             | Some (is, ks) \<Rightarrow> hm_insert (key ! idx) (is @ [i], ks @ [key]) m"
  have "groups_ok ?m K"
    using Cons.prems x
    by (auto simp: groups_ok_def hm_get_insert split: option.splits if_splits prod.splits)
  from Cons.IH [OF this] Cons.prems x show ?case by simp
qed simp

lemma group_keys_ok: "groups_ok (group_keys idx remaining) (snd ` set remaining)"
  unfolding group_keys_def by (rule groups_ok_fold) (simp_all add: groups_ok_def)

lemma hash_map_iter_group:
  assumes "g \<in> set (hash_map_iter E (group_keys idx remaining))"
  shows "snd (snd g) \<noteq> []" "set (snd (snd g)) \<subseteq> snd ` set remaining"
proof -
  obtain c ixs ks where g: "g = (c, ixs, ks)" by (metis surj_pair)
  with assms have "hm_get (group_keys idx remaining) c = Some (ixs, ks)"
    by (auto dest: hash_map_iter_mem)
  with group_keys_ok [of idx remaining] g
  show "snd (snd g) \<noteq> []" "set (snd (snd g)) \<subseteq> snd ` set remaining"
    unfolding groups_ok_def by auto
qed

lemma insert_groups_cong:
  assumes "\<And>g n t. g \<in> set gs \<Longrightarrow> ins (snd (snd g)) (Suc idx) n t = ins' (snd (snd g)) (Suc idx) n t"
  shows "insert_groups ins E db prefix idx gs results successes self txn =
    insert_groups ins' E db prefix idx gs results successes self txn"
  using assms
proof (induction gs arbitrary: results successes self txn)
  case (Cons g gs)
  have "insert_group ins E db prefix idx g self txn = insert_group ins' E db prefix idx g self txn"
    using Cons.prems by (auto simp: insert_group_def Let_def split: prod.splits result.splits)
  with Cons show ?case
    by (auto split: prod.splits result.splits)
qed simp

lemma insert_remaining_cong:
  assumes "\<And>ks n t. ks \<noteq> [] \<Longrightarrow> set ks \<subseteq> snd ` set remaining \<Longrightarrow>
      (\<forall>k \<in> snd ` set remaining. idx < length k) \<Longrightarrow> ins ks (Suc idx) n t = ins' ks (Suc idx) n t"
  shows "insert_remaining ins E db prefix idx remaining results self txn =
    insert_remaining ins' E db prefix idx remaining results self txn"
proof (cases "\<exists>k \<in> snd ` set remaining. length k \<le> idx")
  case False
  then have "insert_groups ins E db prefix idx (hash_map_iter E (group_keys idx remaining)) results 0 self txn
    = insert_groups ins' E db prefix idx (hash_map_iter E (group_keys idx remaining)) results 0 self txn"
    by (intro insert_groups_cong assms) (auto simp: not_le dest: hash_map_iter_group)
  then show ?thesis by (simp add: insert_remaining_def)
qed (simp add: insert_remaining_def)

lemma keep_missing_keys: "snd ` set (keep_missing v b keys) \<subseteq> set keys"
  by (auto simp: keep_missing_def set_zip enumerate_eq_zip)

lemma insert_body_cong [fundef_cong]:
  assumes eq: "E = E'" "db = db'" "keys = keys'" "idx = idx'" "self = self'" "txn = txn'"
    and ins: "\<And>ks n t. insert_measure ks (Suc idx') n < insert_measure keys' idx' self' \<Longrightarrow>
      ins ks (Suc idx') n t = ins' ks (Suc idx') n t"
  shows "insert_body ins E db keys idx self txn = insert_body ins' E' db' keys' idx' self' txn'"
proof -
  have group: "ins ks (Suc idx) n t = ins' ks (Suc idx) n t"
    if ne: "ks \<noteq> []" and sub: "set ks \<subseteq> set keys" and len: "\<forall>k \<in> set ks. idx < length k"
      and nz: "\<not> (idx \<ge> TIMESTAMP_LENGTH \<and> length keys = 1 \<and> is_leaf self \<and> tn_key self = None)" for ks n t
  proof -
    obtain k where k: "k \<in> set ks" using ne by (meson hd_in_set)
    have "idx < max_len keys"
      using sub len k max_len_mem [of k keys] by fastforce
    then have "insert_measure ks (Suc idx) n < insert_measure keys idx self"
      using nz max_len_subset [OF sub] unfolding insert_measure_def by auto
    with ins eq show ?thesis by simp
  qed
  have remaining: "insert_remaining ins E db prefix idx rem results n t =
      insert_remaining ins' E db prefix idx rem results n t"
    if "snd ` set rem \<subseteq> set keys"
      "\<not> (idx \<ge> TIMESTAMP_LENGTH \<and> length keys = 1 \<and> is_leaf self \<and> tn_key self = None)"
    for prefix rem results n t
    by (rule insert_remaining_cong) (rule group; use that in blast)
  have split: "split_leaf_node_with ins E db idx n t = split_leaf_node_with ins' E db idx n t"
    if "idx \<ge> TIMESTAMP_LENGTH"
      "\<not> (idx \<ge> TIMESTAMP_LENGTH \<and> length keys = 1 \<and> is_leaf self \<and> tn_key self = None)" for n t
  proof -
    have "ins [k] (Suc idx) trie_node_new t = ins' [k] (Suc idx) trie_node_new t" for k
      using that ins eq by (simp add: insert_measure_def is_leaf_def trie_node_new_def)
    then show ?thesis by (cases "tn_key n") (simp_all add: split_leaf_node_with_def Let_def)
  qed
  have leaf: "\<not> (idx \<ge> TIMESTAMP_LENGTH \<and> length keys = 1 \<and> is_leaf self \<and> tn_key self = None)
      \<and> set keys1 \<subseteq> set keys"
    if "insert_leaf_value E db keys prefix results self txn = (st, Ok (keys1, results1, inserted))"
      "keys1 \<noteq> []" for prefix results st keys1 results1 inserted
    using that
    by (auto simp: insert_leaf_value_def Let_def length_Suc_conv
        split: if_splits prod.splits result.splits dest: in_set_butlastD)
  have enum: "snd ` set (enumerate 0 keys) \<subseteq> set keys"
    by (auto simp: enumerate_eq_zip set_zip)
  show ?thesis
  proof (cases "idx \<ge> TIMESTAMP_LENGTH \<and> is_leaf self")
    case False
    then have "\<not> (idx \<ge> TIMESTAMP_LENGTH \<and> length keys = 1 \<and> is_leaf self \<and> tn_key self = None)"
      by blast
    note rem = remaining [OF enum this]
    show ?thesis
      unfolding insert_body_def eq [symmetric] Let_def if_not_P [OF False] rem ..
  next
    case True
    let ?p = "take idx (hd keys)" and ?r = "map (\<lambda>_. False) keys"
    obtain st r where lv: "insert_leaf_value E db keys ?p ?r self txn = (st, r)" by fastforce
    show ?thesis
    proof (cases r)
      case (Ok x)
      obtain keys1 results1 inserted where x: "x = (keys1, results1, inserted)" by (cases x)
      obtain self1 txn1 where st: "st = (self1, txn1)" by fastforce
      show ?thesis
      proof (cases "keys1 = []")
        case True
        then show ?thesis
          using lv Ok x st \<open>idx \<ge> TIMESTAMP_LENGTH \<and> is_leaf self\<close>
          unfolding insert_body_def eq [symmetric] by (simp add: Let_def)
      next
        case False
        note lf = leaf [OF lv [unfolded Ok x] False]
        have "snd ` set (keep_missing (key_or_empty self1) inserted keys1) \<subseteq> set keys"
          using keep_missing_keys lf by blast
        note rem = remaining [OF this conjunct1 [OF lf]]
        note sp = split [OF conjunct1 [OF True] conjunct1 [OF lf]]
        show ?thesis
          using lv Ok x st True False
          unfolding insert_body_def eq [symmetric] by (simp add: Let_def rem sp split: prod.splits result.splits)
      qed
    qed (use True lv in \<open>simp_all add: insert_body_def eq [symmetric] Let_def\<close>)
  qed
qed

function insert_node ::
  "trie_env \<Rightarrow> rocksdb \<Rightarrow> bytes list \<Rightarrow> nat \<Rightarrow> trie_node \<Rightarrow> txn_batch \<Rightarrow>
     (trie_node \<times> txn_batch) \<times> (hub_error, bool list) result" where
  "insert_node E db keys idx self txn =
     insert_body (\<lambda>ks i n t. insert_node E db ks i n t) E db keys idx self txn"
  by pat_completeness auto
termination
  by (relation "measure (\<lambda>(E, db, keys, idx, self, txn). insert_measure keys idx self)") auto

declare insert_node.simps [simp del]

definition split_leaf_node ::
  "trie_env \<Rightarrow> rocksdb \<Rightarrow> nat \<Rightarrow> trie_node \<Rightarrow> txn_batch \<Rightarrow>
     (trie_node \<times> txn_batch) \<times> (hub_error, unit) result" where
  "split_leaf_node E db idx self txn = split_leaf_node_with (insert_node E db) E db idx self txn"

section \<open>Deletion\<close>

definition delete_leaf ::
  "trie_env \<Rightarrow> rocksdb \<Rightarrow> bytes list \<Rightarrow> bytes \<Rightarrow> bool list \<Rightarrow> trie_node \<Rightarrow> txn_batch \<Rightarrow>
     (trie_node \<times> txn_batch) \<times> (hub_error, bool list) result" where
  "delete_leaf E db keys prefix results self txn =
     (case List.find (\<lambda>(i, key). bytes_compare (key_or_empty self) key = 0) (enumerate 0 keys) of
        None \<Rightarrow> ((self, txn), Ok results)
      | Some (i, _) \<Rightarrow>
          (let self1 = set_key None self in
           if tn_items self1 = 0 then ((self1, txn), Panic sub_overflow)
           else
             (let txn1 = delete_to_txn txn prefix in
              case update_hash E db prefix (set_items (tn_items self1 - 1) self1) of
                (self2, Ok _) \<Rightarrow> ((self2, txn1), Ok (results[i := True]))
              | (self2, Err e) \<Rightarrow> ((self2, txn1), Err e)
              | (self2, Panic m) \<Rightarrow> ((self2, txn1), Panic m))))"

fun delete_groups ::
  "insert_fn \<Rightarrow> trie_env \<Rightarrow> rocksdb \<Rightarrow> bytes \<Rightarrow> nat \<Rightarrow> (u8 \<times> nat list \<times> bytes list) list \<Rightarrow>
     bool list \<Rightarrow> nat \<Rightarrow> trie_node \<Rightarrow> txn_batch \<Rightarrow>
     (trie_node \<times> txn_batch) \<times> (hub_error, bool list \<times> nat) result" where
  "delete_groups del E db prefix idx [] results successes self txn =
     ((self, txn), Ok (results, successes))"
| "delete_groups del E db prefix idx (g # gs) results successes self txn =
     (if \<not> hm_contains (tn_children self) (fst g) then
        delete_groups del E db prefix idx gs
          (record_results (fst (snd g)) (map (\<lambda>_. False) (snd (snd g))) results) successes self txn
      else
        (case get_or_load_child E db self prefix (fst g) of
           (self1, Ok child) \<Rightarrow>
             (case del (snd (snd g)) (Suc idx) child txn of
                ((child', txn1), Ok child_results) \<Rightarrow>
                  (let self2 = put_child (fst g) child' self1;
                       self3 = (if tn_items child' = 0
                                then set_children (hm_remove (fst g) (tn_children self2)) self2
                                else self2)
                   in delete_groups del E db prefix idx gs
                        (record_results (fst (snd g)) child_results results)
                        (successes + count_successes (fst (snd g)) child_results) self3 txn1)
              | ((child', txn1), Err e) \<Rightarrow> ((put_child (fst g) child' self1, txn1), Err e)
              | ((child', txn1), Panic m) \<Rightarrow> ((put_child (fst g) child' self1, txn1), Panic m))
         | (self1, Err e) \<Rightarrow> ((self1, txn), Err e)
         | (self1, Panic m) \<Rightarrow> ((self1, txn), Panic m)))"

text \<open>
  Compaction: a node left with one item and one child takes the child's key.  The source passes an
  already prefixed key to \<open>delete_to_txn\<close>, which prefixes it again.
\<close>

definition compact_node ::
  "trie_env \<Rightarrow> rocksdb \<Rightarrow> bytes \<Rightarrow> nat \<Rightarrow> trie_node \<Rightarrow> txn_batch \<Rightarrow>
     (trie_node \<times> txn_batch) \<times> (hub_error, unit) result" where
  "compact_node E db prefix idx self txn =
     (if tn_items self = 1 \<and> length (tn_children self) = 1 \<and> idx \<ge> TIMESTAMP_LENGTH then
        (let c = fst (hd (tn_children self)) in
         case get_or_load_child E db self prefix c of
           (self1, Ok child) \<Rightarrow>
             if tn_key child \<noteq> None then
               ((set_children (hm_remove c (tn_children self1)) (set_key (tn_key child) self1),
                 delete_to_txn txn (make_primary_key prefix (Some c))), Ok ())
             else ((self1, txn), Ok ())
         | (self1, Err e) \<Rightarrow> ((self1, txn), Err e)
         | (self1, Panic m) \<Rightarrow> ((self1, txn), Panic m))
      else ((self, txn), Ok ()))"

definition delete_finish ::
  "trie_env \<Rightarrow> rocksdb \<Rightarrow> bytes \<Rightarrow> nat \<Rightarrow> bool list \<Rightarrow> nat \<Rightarrow> trie_node \<Rightarrow> txn_batch \<Rightarrow>
     (trie_node \<times> txn_batch) \<times> (hub_error, bool list) result" where
  "delete_finish E db prefix idx results successes self txn =
     (if successes = 0 then ((self, txn), Ok results)
      else if tn_items self < successes then ((self, txn), Panic sub_overflow)
      else
        (let self1 = set_items (tn_items self - successes) self in
         if tn_items self1 = 0 then
           (case update_hash E db prefix self1 of
              (self2, Ok _) \<Rightarrow> ((self2, delete_to_txn txn prefix), Ok results)
            | (self2, Err e) \<Rightarrow> ((self2, delete_to_txn txn prefix), Err e)
            | (self2, Panic m) \<Rightarrow> ((self2, delete_to_txn txn prefix), Panic m))
         else
           (case compact_node E db prefix idx self1 txn of
              ((self2, txn2), Ok _) \<Rightarrow>
                (case update_hash E db prefix self2 of
                   (self3, Ok _) \<Rightarrow> ((self3, put_to_txn E self3 txn2 prefix), Ok results)
                 | (self3, Err e) \<Rightarrow> ((self3, txn2), Err e)
                 | (self3, Panic m) \<Rightarrow> ((self3, txn2), Panic m))
            | (st, Err e) \<Rightarrow> (st, Err e)
            | (st, Panic m) \<Rightarrow> (st, Panic m))))"

definition delete_body ::
  "insert_fn \<Rightarrow> trie_env \<Rightarrow> rocksdb \<Rightarrow> bytes list \<Rightarrow> nat \<Rightarrow> trie_node \<Rightarrow> txn_batch \<Rightarrow>
     (trie_node \<times> txn_batch) \<times> (hub_error, bool list) result" where
  "delete_body del E db keys idx self txn =
     (if keys = [] then ((self, txn), Panic ''index out of bounds'')
      else if length (hd keys) < idx then ((self, txn), Panic ''range end index out of range'')
      else
        (let prefix = take idx (hd keys); results = map (\<lambda>_. False) keys in
         if is_leaf self then delete_leaf E db keys prefix results self txn
         else if \<exists>k \<in> set keys. length k \<le> idx then ((self, txn), Err key_length_exceeded)
         else
           (case delete_groups del E db prefix idx
                   (hash_map_iter E (group_keys idx (enumerate 0 keys))) results 0 self txn of
              ((self1, txn1), Ok (results1, successes)) \<Rightarrow>
                delete_finish E db prefix idx results1 successes self1 txn1
            | (st, Err e) \<Rightarrow> (st, Err e)
            | (st, Panic m) \<Rightarrow> (st, Panic m))))"

lemma delete_groups_cong:
  assumes "\<And>g n t. g \<in> set gs \<Longrightarrow> del (snd (snd g)) (Suc idx) n t = del' (snd (snd g)) (Suc idx) n t"
  shows "delete_groups del E db prefix idx gs results successes self txn =
    delete_groups del' E db prefix idx gs results successes self txn"
  using assms
proof (induction gs arbitrary: results successes self txn)
  case (Cons g gs)
  then have "del (snd (snd g)) (Suc idx) n t = del' (snd (snd g)) (Suc idx) n t" for n t by simp
  with Cons show ?case
    by (simp add: Let_def split: prod.splits result.splits)
qed simp

lemma enumerate_keys: "snd ` set (enumerate 0 keys) = set keys"
proof -
  have "set keys = snd ` set (zip [0..<length keys] keys)"
    by (metis length_upt list.set_map map_snd_zip minus_nat.diff_0)
  then show ?thesis by (simp add: enumerate_eq_zip)
qed

lemma delete_body_cong [fundef_cong]:
  assumes eq: "E = E'" "db = db'" "keys = keys'" "idx = idx'" "self = self'" "txn = txn'"
    and del: "\<And>ks n t. max_len ks - Suc idx' < max_len keys' - idx' \<Longrightarrow>
      del ks (Suc idx') n t = del' ks (Suc idx') n t"
  shows "delete_body del E db keys idx self txn = delete_body del' E' db' keys' idx' self' txn'"
proof (cases "keys = [] \<or> (\<exists>k \<in> set keys. length k \<le> idx)")
  case False
  then have long: "\<forall>k \<in> set keys. idx < length k" and ne: "keys \<noteq> []" by (auto simp: not_le)
  have lt: "idx < max_len keys"
    using long ne max_len_mem [of "hd keys" keys] by (metis hd_in_set less_le_trans)
  have "delete_groups del E db p idx (hash_map_iter E (group_keys idx (enumerate 0 keys))) r 0 self txn =
      delete_groups del' E db p idx (hash_map_iter E (group_keys idx (enumerate 0 keys))) r 0 self txn" for p r
  proof (rule delete_groups_cong)
    fix g n t
    assume "g \<in> set (hash_map_iter E (group_keys idx (enumerate 0 keys)))"
    then have "max_len (snd (snd g)) \<le> max_len keys"
      using hash_map_iter_group(2) [of g E idx "enumerate 0 keys"]
      by (intro max_len_subset) (simp add: enumerate_keys)
    with lt del eq show "del (snd (snd g)) (Suc idx) n t = del' (snd (snd g)) (Suc idx) n t"
      by simp
  qed
  then show ?thesis using eq by (simp add: delete_body_def Let_def)
qed (auto simp: delete_body_def eq Let_def)

function delete_node ::
  "trie_env \<Rightarrow> rocksdb \<Rightarrow> bytes list \<Rightarrow> nat \<Rightarrow> trie_node \<Rightarrow> txn_batch \<Rightarrow>
     (trie_node \<times> txn_batch) \<times> (hub_error, bool list) result" where
  "delete_node E db keys idx self txn =
     delete_body (\<lambda>ks i n t. delete_node E db ks i n t) E db keys idx self txn"
  by pat_completeness auto
termination
  by (relation "measure (\<lambda>(E, db, keys, idx, self, txn). max_len keys - idx)") auto

declare delete_node.simps [simp del]

section \<open>Membership\<close>

function exists_node ::
  "trie_env \<Rightarrow> rocksdb \<Rightarrow> bytes \<Rightarrow> nat \<Rightarrow> trie_node \<Rightarrow> trie_node \<times> (hub_error, bool) result" where
  "exists_node E db key idx self =
     (if is_leaf self then (self, Ok (bytes_compare (key_or_empty self) key = 0))
      else if length key \<le> idx then (self, Ok False)
      else if \<not> hm_contains (tn_children self) (key ! idx) then (self, Ok False)
      else
        (case get_or_load_child E db self (take idx key) (key ! idx) of
           (self1, Ok child) \<Rightarrow>
             (case exists_node E db key (Suc idx) child of
                (child', r) \<Rightarrow> (put_child (key ! idx) child' self1, r))
         | (self1, Err e) \<Rightarrow> (self1, Err e)
         | (self1, Panic m) \<Rightarrow> (self1, Panic m)))"
  by pat_completeness auto
termination
  by (relation "measure (\<lambda>(E, db, key, idx, self). length key - idx)") auto

declare exists_node.simps [simp del]

section \<open>Traversal and snapshots\<close>

text \<open>
  \<open>get_node_from_trie\<close> returns a reference into the trie; the continuation \<open>k\<close> is what the
  caller does with it.  An error of a load on the way is dropped, as in the source.
\<close>

function with_node_from_trie ::
  "trie_env \<Rightarrow> rocksdb \<Rightarrow> bytes \<Rightarrow> nat \<Rightarrow> (trie_node \<Rightarrow> trie_node \<times> 'a) \<Rightarrow> trie_node \<Rightarrow>
     trie_node \<times> (hub_error, 'a option) result" where
  "with_node_from_trie E db prefix idx k self =
     (if idx = length prefix then (case k self of (self1, a) \<Rightarrow> (self1, Ok (Some a)))
      else if idx > length prefix then (self, Panic ''index out of bounds'')
      else if \<not> hm_contains (tn_children self) (prefix ! idx) then (self, Ok None)
      else
        (case get_or_load_child E db self (take idx prefix) (prefix ! idx) of
           (self1, Ok child) \<Rightarrow>
             (case with_node_from_trie E db prefix (Suc idx) k child of
                (child', r) \<Rightarrow> (put_child (prefix ! idx) child' self1, r))
         | (self1, Err e) \<Rightarrow> (self1, Ok None)
         | (self1, Panic m) \<Rightarrow> (self1, Panic m)))"
  by pat_completeness auto
termination
  by (relation "measure (\<lambda>(E, db, prefix, idx, k, self). length prefix - idx)") auto

declare with_node_from_trie.simps [simp del]

fun excluded_loop ::
  "trie_env \<Rightarrow> rocksdb \<Rightarrow> bytes \<Rightarrow> u8 \<Rightarrow> u8 list \<Rightarrow> nat \<Rightarrow> bytes \<Rightarrow> trie_node \<Rightarrow>
     trie_node \<times> (hub_error, nat \<times> bytes) result" where
  "excluded_loop E db prefix pc [] items hashes self = (self, Ok (items, hashes))"
| "excluded_loop E db prefix pc (c # cs) items hashes self =
     (if c \<noteq> pc then
        (case get_or_load_child E db self prefix c of
           (self1, Ok child) \<Rightarrow>
             excluded_loop E db prefix pc cs (items + tn_items child) (hashes @ tn_hash child) self1
         | (self1, Err e) \<Rightarrow> (self1, Err e)
         | (self1, Panic m) \<Rightarrow> (self1, Panic m))
      else excluded_loop E db prefix pc cs items hashes self)"

definition excluded_hash ::
  "trie_env \<Rightarrow> rocksdb \<Rightarrow> bytes \<Rightarrow> u8 \<Rightarrow> trie_node \<Rightarrow> trie_node \<times> (hub_error, nat \<times> string) result" where
  "excluded_hash E db prefix prefix_char self =
     (case excluded_loop E db prefix prefix_char (sort (map fst (tn_children self))) 0 [] self of
        (self1, Ok (items, hashes)) \<Rightarrow>
          (self1, Ok (items, env_hex E (blake3_20 (env_blake3 E) hashes)))
      | (self1, Err e) \<Rightarrow> (self1, Err e)
      | (self1, Panic m) \<Rightarrow> (self1, Panic m))"

record trie_snapshot =
  ts_prefix :: bytes
  ts_excluded_hashes :: "string list"
  ts_num_messages :: nat

function get_snapshot_loop ::
  "trie_env \<Rightarrow> rocksdb \<Rightarrow> bytes \<Rightarrow> nat \<Rightarrow> string list \<Rightarrow> nat \<Rightarrow> trie_node \<Rightarrow>
     trie_node \<times> (hub_error, trie_snapshot) result" where
  "get_snapshot_loop E db prefix i hashes num self =
     (if i \<ge> length prefix then
        (self, Ok \<lparr>ts_prefix = prefix, ts_excluded_hashes = hashes @ [env_hex E (tn_hash self)],
                   ts_num_messages = num\<rparr>)
      else
        (case excluded_hash E db (take i prefix) (prefix ! i) self of
           (self1, Ok (n, h)) \<Rightarrow>
             if \<not> hm_contains (tn_children self1) (prefix ! i) then
               (self1, Ok \<lparr>ts_prefix = take i prefix, ts_excluded_hashes = hashes @ [h],
                           ts_num_messages = num + n\<rparr>)
             else
               (case get_or_load_child E db self1 (take i prefix) (prefix ! i) of
                  (self2, Ok child) \<Rightarrow>
                    (case get_snapshot_loop E db prefix (Suc i) (hashes @ [h]) (num + n) child of
                       (child', r) \<Rightarrow> (put_child (prefix ! i) child' self2, r))
                | (self2, Err e) \<Rightarrow> (self2, Err e)
                | (self2, Panic m) \<Rightarrow> (self2, Panic m))
         | (self1, Err e) \<Rightarrow> (self1, Err e)
         | (self1, Panic m) \<Rightarrow> (self1, Panic m)))"
  by pat_completeness auto
termination
  by (relation "measure (\<lambda>(E, db, prefix, i, hashes, num, self). length prefix - i)") auto

declare get_snapshot_loop.simps [simp del]

definition get_snapshot_node ::
  "trie_env \<Rightarrow> rocksdb \<Rightarrow> bytes \<Rightarrow> nat \<Rightarrow> trie_node \<Rightarrow> trie_node \<times> (hub_error, trie_snapshot) result" where
  "get_snapshot_node E db prefix current_index self =
     get_snapshot_loop E db prefix current_index [] 0 self"

text \<open>Only children held as nodes survive an unload.\<close>

definition unload_children :: "trie_node \<Rightarrow> trie_node" where
  "unload_children self =
     set_children
       (List.map_filter
          (\<lambda>(c, t). case t of
             Node child \<Rightarrow> Some (c, Serialized (SerializedTrieNode (Some (tn_hash child))))
           | Serialized _ \<Rightarrow> None)
          (tn_children self)) self"

text \<open>
  \<open>get_all_values\<close> descends as deep as the stored trie; the fuel bounds the depth, and
  \<^const>\<open>None\<close> says it ran out.
\<close>

fun values_loop ::
  "(bytes \<Rightarrow> trie_node \<Rightarrow> trie_node \<times> (hub_error, bytes list) result option) \<Rightarrow>
     trie_env \<Rightarrow> rocksdb \<Rightarrow> bytes \<Rightarrow> u8 list \<Rightarrow> bytes list \<Rightarrow> trie_node \<Rightarrow>
     trie_node \<times> (hub_error, bytes list) result option" where
  "values_loop rec E db prefix [] values self = (self, Some (Ok values))"
| "values_loop rec E db prefix (c # cs) values self =
     (case get_or_load_child E db self prefix c of
        (self1, Ok child) \<Rightarrow>
          (case rec (prefix @ [c]) child of
             (child', Some (Ok vs)) \<Rightarrow>
               (let self2 = put_child c child' self1; values1 = values @ vs in
                if length values1 > MAX_VALUES_RETURNED_PER_CALL then (self2, Some (Ok values1))
                else values_loop rec E db prefix cs values1 self2)
           | (child', r) \<Rightarrow> (put_child c child' self1, r))
      | (self1, Err e) \<Rightarrow> (self1, Some (Err e))
      | (self1, Panic m) \<Rightarrow> (self1, Some (Panic m)))"

primrec get_all_values ::
  "nat \<Rightarrow> trie_env \<Rightarrow> rocksdb \<Rightarrow> bytes \<Rightarrow> trie_node \<Rightarrow>
     trie_node \<times> (hub_error, bytes list) result option" where
  "get_all_values 0 E db prefix self = (self, None)"
| "get_all_values (Suc fuel) E db prefix self =
     (if is_leaf self then (self, Some (Ok [key_or_empty self]))
      else values_loop (get_all_values fuel E db) E db prefix
             (sort (map fst (tn_children self))) [] self)"

end
