(* ===== verification/Trie_Rep.thy ===== *)
theory Trie_Rep
  imports Trie_Node "HOL-Library.Sublist"
begin

text \<open>
  What a trie means.  \<open>merkle\<close> is a reference definition of the hash of a set of keys, free of
  nodes, databases and iteration orders.  \<open>stored E g p S\<close> says that the records which the reader
  \<open>g\<close> returns below the prefix \<open>p\<close> describe the key set \<open>S\<close>; \<open>trie_rep E g p n S\<close> says the
  same of a node \<open>n\<close> in memory, whose children may still be unloaded.  The theory proves what
  loading a child, recomputing a hash and writing a node do to them.
\<close>

section \<open>What the trie assumes of its environment\<close>

definition env_ok :: "trie_env \<Rightarrow> bool" where
  "env_ok E \<longleftrightarrow> (\<forall>d. env_decode E (env_encode E d) = Ok d) \<and>
     (\<forall>xs. distinct xs \<longrightarrow> distinct (env_order E xs) \<and> set (env_order E xs) = set xs)"

lemma env_okD:
  assumes "env_ok E"
  shows "env_decode E (env_encode E d) = Ok d"
    "distinct xs \<Longrightarrow> distinct (env_order E xs)"
    "distinct xs \<Longrightarrow> set (env_order E xs) = set xs"
  using assms by (auto simp: env_ok_def)

section \<open>The reference hash of a key set\<close>

definition sub_keys :: "nat \<Rightarrow> u8 \<Rightarrow> bytes set \<Rightarrow> bytes set" where
  "sub_keys idx c S = {k \<in> S. idx < length k \<and> k ! idx = c}"

definition next_chars :: "nat \<Rightarrow> bytes set \<Rightarrow> u8 set" where
  "next_chars idx S = (\<lambda>k. k ! idx) ` {k \<in> S. idx < length k}"

lemma next_chars_finite [simp]: "finite (next_chars idx S)"
  by simp

lemma sub_keys_subset: "sub_keys idx c S \<subseteq> S"
  by (auto simp: sub_keys_def)

lemma finite_sub_keys [simp]: "finite S \<Longrightarrow> finite (sub_keys idx c S)"
  by (rule finite_subset [OF sub_keys_subset])

lemma sub_keys_Max_less:
  assumes "finite S" "c \<in> next_chars idx S"
  shows "Max (length ` sub_keys idx c S) - Suc idx < Max (length ` S) - idx"
proof -
  from assms(2) obtain k where k: "k \<in> sub_keys idx c S"
    by (auto simp: next_chars_def sub_keys_def)
  then have "Max (length ` sub_keys idx c S) \<le> Max (length ` S)"
    using assms(1) by (intro Max_mono) (auto simp: sub_keys_def)
  moreover have "idx < Max (length ` sub_keys idx c S)"
    using k assms(1) by (subst Max_gr_iff) (auto simp: sub_keys_def)
  ultimately show ?thesis by simp
qed

function merkle :: "trie_env \<Rightarrow> nat \<Rightarrow> bytes set \<Rightarrow> bytes" where
  "merkle E idx S =
     (if infinite S then []
      else if TIMESTAMP_LENGTH \<le> idx \<and> card S = 1
      then blake3_20 (env_blake3 E) (the_elem S)
      else blake3_20 (env_blake3 E)
             (concat (map (\<lambda>c. merkle E (Suc idx) (sub_keys idx c S))
                (sorted_list_of_set (next_chars idx S)))))"
  by pat_completeness auto
termination
  by (relation "measure (\<lambda>(E, idx, S). Max (length ` S) - idx)")
    (simp_all add: sub_keys_Max_less)

declare merkle.simps [simp del]

definition node_hash :: "trie_env \<Rightarrow> nat \<Rightarrow> bytes set \<Rightarrow> bytes" where
  "node_hash E idx S = blake3_20 (env_blake3 E)
     (concat (map (\<lambda>c. merkle E (Suc idx) (sub_keys idx c S)) (sorted_list_of_set (next_chars idx S))))"

lemma merkle_leaf: "TIMESTAMP_LENGTH \<le> idx \<Longrightarrow> merkle E idx {k} = blake3_20 (env_blake3 E) k"
  by (simp add: merkle.simps)

lemma merkle_node:
  "finite S \<Longrightarrow> TIMESTAMP_LENGTH \<le> idx \<longrightarrow> card S \<noteq> 1 \<Longrightarrow> merkle E idx S = node_hash E idx S"
  by (auto simp: merkle.simps [of E idx S] node_hash_def)

section \<open>Stored and loaded tries\<close>

text \<open>The keys below the prefix \<open>p\<close>.\<close>

definition under :: "bytes \<Rightarrow> bytes set \<Rightarrow> bool" where
  "under p S \<longleftrightarrow> finite S \<and> (\<forall>k \<in> S. length p \<le> length k \<and> take (length p) k = p)"

definition inner :: "bytes \<Rightarrow> bytes set \<Rightarrow> bool" where
  "inner p S \<longleftrightarrow> under p S \<and> S \<noteq> {} \<and> (\<forall>k \<in> S. length p < length k)"

definition branching :: "bytes \<Rightarrow> bytes set \<Rightarrow> bool" where
  "branching p S \<longleftrightarrow> inner p S \<and> (TIMESTAMP_LENGTH \<le> length p \<longrightarrow> 2 \<le> card S)"

definition single :: "bytes \<Rightarrow> bytes \<Rightarrow> bool" where
  "single p k \<longleftrightarrow> TIMESTAMP_LENGTH \<le> length p \<and> under p {k}"

inductive stored :: "trie_env \<Rightarrow> (bytes \<Rightarrow> bytes option) \<Rightarrow> bytes \<Rightarrow> bytes set \<Rightarrow> bool"
  for E :: trie_env and g :: "bytes \<Rightarrow> bytes option" where
  stored_leaf: "single p k \<Longrightarrow> g (make_primary_key p None) = Some b \<Longrightarrow>
     env_decode E b = Ok \<lparr>dtn_key = k, dtn_child_chars = [], dtn_items = 1,
       dtn_hash = merkle E (length p) {k}\<rparr> \<Longrightarrow> stored E g p {k}"
| stored_node: "branching p S \<Longrightarrow> card S < 2 ^ 32 \<Longrightarrow>
     g (make_primary_key p None) = Some b \<Longrightarrow>
     env_decode E b = Ok \<lparr>dtn_key = [], dtn_child_chars = cs, dtn_items = word_of_nat (card S),
       dtn_hash = merkle E (length p) S\<rparr> \<Longrightarrow>
     ucast ` set cs = next_chars (length p) S \<Longrightarrow>
     (\<And>c. c \<in> next_chars (length p) S \<Longrightarrow> stored E g (p @ [c]) (sub_keys (length p) c S)) \<Longrightarrow>
     stored E g p S"

inductive trie_rep :: "trie_env \<Rightarrow> (bytes \<Rightarrow> bytes option) \<Rightarrow> bytes \<Rightarrow> trie_node \<Rightarrow> bytes set \<Rightarrow> bool"
  for E :: trie_env and g :: "bytes \<Rightarrow> bytes option" where
  rep_leaf: "single p k \<Longrightarrow> trie_rep E g p (TrieNode (merkle E (length p) {k}) 1 [] (Some k)) {k}"
| rep_node: "branching p S \<Longrightarrow> hm_wf cs \<Longrightarrow> fst ` set cs = next_chars (length p) S \<Longrightarrow>
     key = None \<or> key = Some [] \<Longrightarrow>
     (\<And>c m. hm_get cs c = Some (Node m) \<Longrightarrow> trie_rep E g (p @ [c]) m (sub_keys (length p) c S)) \<Longrightarrow>
     (\<And>c h. hm_get cs c = Some (Serialized (SerializedTrieNode h)) \<Longrightarrow>
        stored E g (p @ [c]) (sub_keys (length p) c S) \<and>
        (h = None \<or> h = Some (merkle E (Suc (length p)) (sub_keys (length p) c S)))) \<Longrightarrow>
     trie_rep E g p (TrieNode (merkle E (length p) S) (card S) cs key) S"

text \<open>The children of a node whose own hash and item count are not up to date yet.\<close>

definition kids ::
  "trie_env \<Rightarrow> (bytes \<Rightarrow> bytes option) \<Rightarrow> bytes \<Rightarrow> (u8 \<times> trie_node_type) list \<Rightarrow> bytes set \<Rightarrow> bool" where
  "kids E g p cs S \<longleftrightarrow> under p S \<and> (\<forall>k \<in> S. length p < length k) \<and> hm_wf cs \<and>
     fst ` set cs = next_chars (length p) S \<and>
     (\<forall>c m. hm_get cs c = Some (Node m) \<longrightarrow> trie_rep E g (p @ [c]) m (sub_keys (length p) c S)) \<and>
     (\<forall>c h. hm_get cs c = Some (Serialized (SerializedTrieNode h)) \<longrightarrow>
        stored E g (p @ [c]) (sub_keys (length p) c S) \<and>
        (h = None \<or> h = Some (merkle E (Suc (length p)) (sub_keys (length p) c S))))"

lemma rep_node_kids:
  "kids E g p cs S \<Longrightarrow> branching p S \<Longrightarrow> key = None \<or> key = Some [] \<Longrightarrow>
     h = merkle E (length p) S \<Longrightarrow> i = card S \<Longrightarrow> trie_rep E g p (TrieNode h i cs key) S"
  unfolding kids_def using rep_node [of p S cs key E g] by blast

lemma trie_rep_cases [consumes 1, case_names leaf node]:
  assumes "trie_rep E g p n S"
  obtains k where "single p k" "S = {k}" "n = TrieNode (merkle E (length p) {k}) 1 [] (Some k)"
  | "branching p S" "kids E g p (tn_children n) S" "tn_children n \<noteq> []"
    "tn_key n = None \<or> tn_key n = Some []" "tn_hash n = merkle E (length p) S" "tn_items n = card S"
  using assms
proof (cases rule: trie_rep.cases)
  case (rep_leaf k)
  then show thesis using that by blast
next
  case (rep_node cs key)
  then have "kids E g p cs S" by (auto simp: kids_def branching_def inner_def)
  moreover from rep_node have "cs \<noteq> []"
    by (auto simp: branching_def inner_def next_chars_def)
  ultimately show thesis using rep_node that by simp
qed

lemma trie_rep_hash: "trie_rep E g p n S \<Longrightarrow> tn_hash n = merkle E (length p) S"
  by (cases rule: trie_rep_cases) auto

lemma trie_rep_items: "trie_rep E g p n S \<Longrightarrow> tn_items n = card S"
  by (cases rule: trie_rep_cases) auto

lemma trie_rep_under: "trie_rep E g p n S \<Longrightarrow> under p S \<and> S \<noteq> {}"
  by (cases rule: trie_rep_cases) (auto simp: single_def branching_def inner_def)

lemma stored_under: "stored E g p S \<Longrightarrow> under p S \<and> S \<noteq> {}"
  by (cases rule: stored.cases) (auto simp: single_def branching_def inner_def)

section \<open>Key sets below a prefix\<close>

lemma under_snoc:
  assumes "under (p @ [c]) T" "k \<in> T"
  shows "length p < length k" "k ! length p = c" "take (length p) k = p"
proof -
  from assms have len: "Suc (length p) \<le> length k" and eq: "take (Suc (length p)) k = p @ [c]"
    by (auto simp: under_def)
  then show "length p < length k" by simp
  from eq have "take (Suc (length p)) k ! length p = (p @ [c]) ! length p" by simp
  with len show "k ! length p = c" by simp
  from eq have "take (length p) (take (Suc (length p)) k) = take (length p) (p @ [c])" by simp
  with len show "take (length p) k = p" by (simp add: min_def)
qed

lemma under_sub_keys:
  assumes "under p S"
  shows "under (p @ [c]) (sub_keys (length p) c S)"
  using assms by (auto simp: under_def sub_keys_def take_Suc_conv_app_nth Suc_le_eq)

lemma under_subset: "under p S \<Longrightarrow> T \<subseteq> S \<Longrightarrow> under p T"
  by (auto simp: under_def finite_subset)

lemma under_Un [simp]: "under p (S \<union> T) \<longleftrightarrow> under p S \<and> under p T"
  by (auto simp: under_def)

lemma under_empty [simp]: "under p {}"
  by (simp add: under_def)

lemma sub_keys_empty_iff: "sub_keys idx c S = {} \<longleftrightarrow> c \<notin> next_chars idx S"
  by (auto simp: sub_keys_def next_chars_def)

text \<open>Replacing the keys below one character.\<close>

definition replace_keys :: "nat \<Rightarrow> u8 \<Rightarrow> bytes set \<Rightarrow> bytes set \<Rightarrow> bytes set" where
  "replace_keys idx c T S = {k \<in> S. k ! idx \<noteq> c} \<union> T"

lemma sub_keys_replace:
  assumes "under (p @ [c]) T"
  shows "sub_keys (length p) c' (replace_keys (length p) c T S) =
    (if c' = c then T else sub_keys (length p) c' S)"
  using under_snoc [OF assms] by (auto simp: sub_keys_def replace_keys_def)

lemma next_chars_replace:
  assumes "under (p @ [c]) T"
  shows "next_chars (length p) (replace_keys (length p) c T S) =
    (if T = {} then next_chars (length p) S - {c} else insert c (next_chars (length p) S))"
proof -
  have "c' \<in> next_chars (length p) (replace_keys (length p) c T S) \<longleftrightarrow>
      (if c' = c then T \<noteq> {} else c' \<in> next_chars (length p) S)" for c'
  proof -
    have "c' \<in> next_chars (length p) (replace_keys (length p) c T S) \<longleftrightarrow>
        sub_keys (length p) c' (replace_keys (length p) c T S) \<noteq> {}"
      by (simp add: sub_keys_empty_iff)
    then show ?thesis by (simp add: sub_keys_replace [OF assms] sub_keys_empty_iff)
  qed
  then show ?thesis by (intro set_eqI) simp
qed

lemma replace_keys_self:
  "(\<forall>k \<in> S. idx < length k) \<Longrightarrow> replace_keys idx c (sub_keys idx c S) S = S"
  by (auto simp: replace_keys_def sub_keys_def)

lemma replace_keys_Un:
  "(\<forall>k \<in> S. idx < length k) \<Longrightarrow> replace_keys idx c (sub_keys idx c S \<union> T) S = S \<union> T"
  by (auto simp: replace_keys_def sub_keys_def)

lemma replace_keys_under:
  "under p S \<Longrightarrow> (\<forall>k \<in> S. length p < length k) \<Longrightarrow> under (p @ [c]) T \<Longrightarrow>
     under p (replace_keys (length p) c T S) \<and> (\<forall>k \<in> replace_keys (length p) c T S. length p < length k)"
  using under_snoc [of p c T] unfolding under_def replace_keys_def by (auto simp: less_imp_le)

section \<open>Children\<close>

lemma kidsD:
  assumes "kids E g p cs S"
  shows "under p S" "\<forall>k \<in> S. length p < length k" "hm_wf cs" "fst ` set cs = next_chars (length p) S"
    "hm_get cs c = Some (Node m) \<Longrightarrow> trie_rep E g (p @ [c]) m (sub_keys (length p) c S)"
    "hm_get cs c = Some (Serialized (SerializedTrieNode h)) \<Longrightarrow>
       stored E g (p @ [c]) (sub_keys (length p) c S) \<and>
       (h = None \<or> h = Some (merkle E (Suc (length p)) (sub_keys (length p) c S)))"
  using assms by (auto simp: kids_def)

lemma kids_contains: "kids E g p cs S \<Longrightarrow> hm_contains cs c \<longleftrightarrow> c \<in> next_chars (length p) S"
  using hm_keys_dom [of cs] by (auto dest!: kidsD(4))

lemma kids_empty: "kids E g p [] {}"
  by (simp add: kids_def next_chars_def)

lemma kids_insert:
  assumes kids: "kids E g p cs S" and rep: "trie_rep E g (p @ [c]) m T"
  shows "kids E g p (hm_insert c (Node m) cs) (replace_keys (length p) c T S)"
proof -
  from trie_rep_under [OF rep] have T: "under (p @ [c]) T" "T \<noteq> {}" by auto
  note u = replace_keys_under [OF kidsD(1,2) [OF kids] T(1)]
  have get: "hm_get (hm_insert c (Node m) cs) c' = (if c' = c then Some (Node m) else hm_get cs c')" for c'
    by (rule hm_get_insert)
  show ?thesis
    unfolding kids_def
  proof (intro conjI allI impI)
    show "fst ` set (hm_insert c (Node m) cs) = next_chars (length p) (replace_keys (length p) c T S)"
      using T kidsD(4) [OF kids] by (simp add: hm_keys_insert next_chars_replace)
  next
    fix c' m'
    assume "hm_get (hm_insert c (Node m) cs) c' = Some (Node m')"
    then show "trie_rep E g (p @ [c']) m' (sub_keys (length p) c' (replace_keys (length p) c T S))"
      using rep kidsD(5) [OF kids] by (simp add: get sub_keys_replace [OF T(1)] split: if_splits)
  next
    fix c' h
    assume "hm_get (hm_insert c (Node m) cs) c' = Some (Serialized (SerializedTrieNode h))"
    then have "c' \<noteq> c" "hm_get cs c' = Some (Serialized (SerializedTrieNode h))"
      by (simp_all add: get split: if_splits)
    with kidsD(6) [OF kids, of c' h]
    show "stored E g (p @ [c']) (sub_keys (length p) c' (replace_keys (length p) c T S))"
      "h = None \<or> h = Some (merkle E (Suc (length p)) (sub_keys (length p) c' (replace_keys (length p) c T S)))"
      by (simp_all add: sub_keys_replace [OF T(1)])
  qed (use u kidsD(3) [OF kids] in \<open>simp_all add: hm_wf_insert\<close>)
qed

lemma kids_remove:
  assumes kids: "kids E g p cs S"
  shows "kids E g p (hm_remove c cs) (replace_keys (length p) c {} S)"
proof -
  note T = under_empty [of "p @ [c]"]
  note u = replace_keys_under [OF kidsD(1,2) [OF kids] T]
  have get: "hm_get (hm_remove c cs) c' = (if c' = c then None else hm_get cs c')" for c'
    by (rule hm_get_remove)
  show ?thesis
    unfolding kids_def
    using u kidsD(3-6) [OF kids]
    by (simp add: hm_wf_remove hm_keys_remove next_chars_replace [OF T] get sub_keys_replace [OF T])
qed

section \<open>Loading\<close>

lemma make_primary_key_child: "make_primary_key p (Some c) = make_primary_key (p @ [c]) None"
  by (simp add: make_primary_key_def)

lemma hm_get_chars:
  "hm_get (fold (\<lambda>c m. hm_insert (f c) v m) cs m0) c =
     (if c \<in> f ` set cs then Some v else hm_get m0 c)"
  by (induction cs arbitrary: m0) (auto simp: hm_get_insert)

lemma hm_wf_chars: "hm_wf m0 \<Longrightarrow> hm_wf (fold (\<lambda>c m. hm_insert (f c) v m) cs m0)"
  by (induction cs arbitrary: m0) (simp_all add: hm_wf_insert)

lemma stored_load:
  assumes "stored E g p S"
  shows "\<exists>b n. g (make_primary_key p None) = Some b \<and> trie_node_deserialize E b = Ok n \<and>
    trie_rep E g p n S"
  using assms
proof (cases rule: stored.cases)
  case (stored_leaf k b)
  then show ?thesis using rep_leaf by (simp add: trie_node_deserialize_def)
next
  case (stored_node b cs)
  let ?cs = "fold (\<lambda>c m. hm_insert (ucast c) (Serialized (SerializedTrieNode None)) m) cs []"
  have get: "hm_get ?cs c = (if c \<in> next_chars (length p) S
      then Some (Serialized (SerializedTrieNode None)) else None)" for c
    using stored_node by (simp add: hm_get_chars)
  then have keys: "fst ` set ?cs = next_chars (length p) S"
    by (auto simp: hm_keys_dom)
  have wf: "hm_wf ?cs" by (rule hm_wf_chars) simp
  have "unat (word_of_nat (card S) :: u32) = card S"
    using stored_node(2) by (simp add: unsigned_of_nat take_bit_nat_eq_self)
  moreover have "trie_rep E g p (TrieNode (merkle E (length p) S) (card S) ?cs (Some [])) S"
    by (rule rep_node) (use stored_node keys wf get in \<open>auto split: if_splits\<close>)
  ultimately show ?thesis using stored_node by (simp add: trie_node_deserialize_def)
qed

lemma set_children_self [simp]: "set_children (tn_children n) n = n"
  by (cases n) (simp add: set_children_def)

lemma node_sel_simps [simp]:
  "tn_hash (set_hash h n) = h" "tn_items (set_hash h n) = tn_items n"
  "tn_children (set_hash h n) = tn_children n" "tn_key (set_hash h n) = tn_key n"
  "tn_hash (set_items i n) = tn_hash n" "tn_items (set_items i n) = i"
  "tn_children (set_items i n) = tn_children n" "tn_key (set_items i n) = tn_key n"
  "tn_hash (set_children cs n) = tn_hash n" "tn_items (set_children cs n) = tn_items n"
  "tn_children (set_children cs n) = cs" "tn_key (set_children cs n) = tn_key n"
  "tn_hash (set_key k n) = tn_hash n" "tn_items (set_key k n) = tn_items n"
  "tn_children (set_key k n) = tn_children n" "tn_key (set_key k n) = k"
  by (simp_all add: set_hash_def set_items_def set_children_def set_key_def)

lemma put_child_children [simp]:
  "put_child c m (set_children cs n) = set_children (hm_insert c (Node m) cs) n"
  "set_children cs' (set_children cs n) = set_children cs' n"
  by (simp_all add: put_child_def set_children_def)

lemma get_or_load_ok:
  assumes kids: "kids E (db_view db) p (tn_children self) S" and "db_healthy db"
    and c: "c \<in> next_chars (length p) S"
  shows "\<exists>cs m. get_or_load_child E db self p c = (set_children cs self, Ok m) \<and>
    kids E (db_view db) p cs S \<and> hm_get cs c = Some (Node m) \<and>
    trie_rep E (db_view db) (p @ [c]) m (sub_keys (length p) c S)"
proof -
  from c kids_contains [OF kids] obtain t where t: "hm_get (tn_children self) c = Some t" by blast
  show ?thesis
  proof (cases t)
    case (Node m)
    then show ?thesis using t kids kidsD(5) [OF kids]
      by (intro exI [of _ "tn_children self"]) (simp add: get_or_load_child_def)
  next
    case (Serialized s)
    obtain h where s: "s = SerializedTrieNode h" by (cases s)
    with t Serialized kidsD(6) [OF kids] have "stored E (db_view db) (p @ [c]) (sub_keys (length p) c S)"
      by simp
    from stored_load [OF this] obtain b m where b: "db_view db (make_primary_key (p @ [c]) None) = Some b"
      "trie_node_deserialize E b = Ok m" "trie_rep E (db_view db) (p @ [c]) m (sub_keys (length p) c S)"
      by blast
    have "kids E (db_view db) p (hm_insert c (Node m) (tn_children self)) S"
      using kids_insert [OF kids b(3)] replace_keys_self [OF kidsD(2) [OF kids]] by simp
    with t Serialized b assms(2) show ?thesis
      by (intro exI [of _ "hm_insert c (Node m) (tn_children self)"])
        (simp add: get_or_load_child_def make_primary_key_child put_child_def hm_get_insert)
  qed
qed

section \<open>Hashes\<close>

lemma map_fst_sort_key:
  assumes "hm_wf cs" "fst ` set cs = A"
  shows "map fst (sort_key fst cs) = sorted_list_of_set A"
proof -
  have "set (map fst cs) = A" using assms(2) by simp
  then have "sorted_list_of_set A = sort (map fst cs)"
    using assms(1) sorted_list_of_set_sort_remdups [of "map fst cs"] by (simp add: distinct_remdups_id)
  also have "\<dots> = map fst (sort_key fst cs)"
    by (rule properties_for_sort) simp_all
  finally show ?thesis ..
qed

lemma concat_hashes_ok:
  assumes "db_healthy db"
  shows "kids E (db_view db) p (tn_children self) S \<Longrightarrow>
    (\<forall>(c, h) \<in> set hs. c \<in> next_chars (length p) S \<and>
       (h = [] \<or> h = merkle E (Suc (length p)) (sub_keys (length p) c S))) \<Longrightarrow>
    \<exists>cs. concat_hashes_loop E db p hs acc self =
        (set_children cs self, Ok (acc @ concat (map (\<lambda>(c, _). merkle E (Suc (length p)) (sub_keys (length p) c S)) hs)))
      \<and> kids E (db_view db) p cs S"
proof (induction hs arbitrary: acc self)
  case Nil
  then show ?case by (intro exI [of _ "tn_children self"]) simp
next
  case (Cons x hs)
  obtain c h where x: "x = (c, h)" by (cases x)
  show ?case
  proof (cases "h = []")
    case True
    from get_or_load_ok [OF Cons.prems(1) assms, of c] Cons.prems(2) x
    obtain cs m where m: "get_or_load_child E db self p c = (set_children cs self, Ok m)"
      "kids E (db_view db) p cs S" "trie_rep E (db_view db) (p @ [c]) m (sub_keys (length p) c S)"
      by auto
    with Cons.IH [of "set_children cs self" "acc @ tn_hash m"] Cons.prems(2) True x
      trie_rep_hash [OF m(3)]
    show ?thesis by simp
  next
    case False
    with Cons.IH [OF Cons.prems(1), of "acc @ h"] Cons.prems(2) x show ?thesis by auto
  qed
qed

lemma child_hash_ok:
  assumes "kids E g p cs S" "(c, t) \<in> set cs"
  shows "c \<in> next_chars (length p) S \<and>
    (child_hash t = [] \<or> child_hash t = merkle E (Suc (length p)) (sub_keys (length p) c S))"
proof
  show "c \<in> next_chars (length p) S" using assms kidsD(4) by force
  have get: "hm_get cs c = Some t" using assms kidsD(3) by fastforce
  show "child_hash t = [] \<or> child_hash t = merkle E (Suc (length p)) (sub_keys (length p) c S)"
  proof (cases t)
    case (Node m)
    with get have "trie_rep E g (p @ [c]) m (sub_keys (length p) c S)"
      by (simp add: kidsD(5) [OF assms(1)])
    from trie_rep_hash [OF this] Node show ?thesis by simp
  next
    case (Serialized s)
    with get kidsD(6) [OF assms(1), of c "stn_hash s"] show ?thesis by (cases s) auto
  qed
qed

lemma update_hash_ok:
  assumes kids: "kids E (db_view db) p (tn_children self) S" and "db_healthy db" and ne: "S \<noteq> {}"
  shows "\<exists>cs. update_hash E db p self =
      (set_hash (node_hash E (length p) S) (set_children cs self), Ok ()) \<and> kids E (db_view db) p cs S"
proof -
  let ?hs = "map (\<lambda>(c, t). (c, child_hash t)) (sort_key fst (tn_children self))"
  from ne kidsD(2,4) [OF kids] have nl: "\<not> is_leaf self"
    by (auto simp: is_leaf_def next_chars_def)
  have "\<forall>(c, h) \<in> set ?hs. c \<in> next_chars (length p) S \<and>
       (h = [] \<or> h = merkle E (Suc (length p)) (sub_keys (length p) c S))"
    using child_hash_ok [OF kids] by auto
  from concat_hashes_ok [OF assms(2) kids this, of "[]"] obtain cs where
    cs: "concat_hashes_loop E db p ?hs [] self = (set_children cs self,
        Ok (concat (map (\<lambda>(c, _). merkle E (Suc (length p)) (sub_keys (length p) c S)) ?hs)))"
      "kids E (db_view db) p cs S" by auto
  have "map (\<lambda>(c, _). merkle E (Suc (length p)) (sub_keys (length p) c S)) ?hs =
      map (\<lambda>c. merkle E (Suc (length p)) (sub_keys (length p) c S))
        (map fst (sort_key fst (tn_children self)))"
    by (simp add: case_prod_unfold)
  also have "map fst (sort_key fst (tn_children self)) = sorted_list_of_set (next_chars (length p) S)"
    by (rule map_fst_sort_key) (use kidsD [OF kids] in auto)
  finally show ?thesis
    using cs nl by (intro exI [of _ cs]) (simp add: update_hash_def Let_def node_hash_def)
qed

section \<open>The store below a prefix\<close>

lemma make_primary_key_inj [simp]: "make_primary_key p None = make_primary_key q None \<longleftrightarrow> p = q"
  by (simp add: make_primary_key_def)

definition changed_under :: "bytes \<Rightarrow> (bytes \<Rightarrow> bytes option) \<Rightarrow> (bytes \<Rightarrow> bytes option) \<Rightarrow> bool" where
  "changed_under p g g' \<longleftrightarrow> (\<forall>k. g' k \<noteq> g k \<longrightarrow> (\<exists>q. prefix p q \<and> k = make_primary_key q None))"

definition stored_kids :: "trie_env \<Rightarrow> (bytes \<Rightarrow> bytes option) \<Rightarrow> bytes \<Rightarrow> bytes set \<Rightarrow> bool" where
  "stored_kids E g p S \<longleftrightarrow>
     (\<forall>c \<in> next_chars (length p) S. stored E g (p @ [c]) (sub_keys (length p) c S))"

lemma changed_under_refl [simp]: "changed_under p g g"
  by (simp add: changed_under_def)

lemma changed_under_trans:
  "changed_under p g g1 \<Longrightarrow> changed_under p g1 g2 \<Longrightarrow> changed_under p g g2"
  unfolding changed_under_def by metis

lemma changed_under_snoc: "changed_under (p @ [c]) g g' \<Longrightarrow> changed_under p g g'"
  unfolding changed_under_def by (blast dest: append_prefixD)

lemma changed_under_upd: "changed_under p g (g(make_primary_key p None := v))"
  by (auto simp: changed_under_def)

lemma changed_under_same:
  "changed_under p g g' \<Longrightarrow> \<not> prefix p q \<Longrightarrow> g' (make_primary_key q None) = g (make_primary_key q None)"
  by (auto simp: changed_under_def)

lemma stored_cong:
  assumes "stored E g p S"
  shows "(\<And>q. prefix p q \<Longrightarrow> g' (make_primary_key q None) = g (make_primary_key q None)) \<Longrightarrow>
    stored E g' p S"
  using assms
proof (induction rule: stored.induct)
  case (stored_leaf p k b)
  then show ?case by (intro stored.stored_leaf [where b = b]) simp_all
next
  case (stored_node p S b cs)
  have "stored E g' (p @ [c]) (sub_keys (length p) c S)" if "c \<in> next_chars (length p) S" for c
    using stored_node.IH [OF that] stored_node.prems by (auto dest: append_prefixD)
  with stored_node show ?case by - (rule stored.stored_node [where b = b and cs = cs], simp_all)
qed

lemma prefix_snoc_disjoint: "prefix (p @ [c]) q \<Longrightarrow> prefix (p @ [c']) q \<Longrightarrow> c = c'"
  by (auto simp: prefix_def)

lemma stored_kids_cong:
  assumes "stored_kids E g p S"
    "\<And>c q. prefix (p @ [c]) q \<Longrightarrow> g' (make_primary_key q None) = g (make_primary_key q None)"
  shows "stored_kids E g' p S"
  using assms stored_cong unfolding stored_kids_def by meson

lemma stored_kids_upd:
  "stored_kids E g p S \<Longrightarrow> stored_kids E (g(make_primary_key p None := v)) p S"
  by (rule stored_kids_cong) (auto simp: prefix_def)

lemma stored_kids_replace:
  assumes "stored_kids E g p S" "changed_under (p @ [c]) g g'"
    "under (p @ [c]) T" "T \<noteq> {} \<Longrightarrow> stored E g' (p @ [c]) T"
  shows "stored_kids E g' p (replace_keys (length p) c T S)"
  unfolding stored_kids_def
proof
  fix c'
  assume c': "c' \<in> next_chars (length p) (replace_keys (length p) c T S)"
  show "stored E g' (p @ [c']) (sub_keys (length p) c' (replace_keys (length p) c T S))"
  proof (cases "c' = c")
    case True
    with c' assms(3,4) show ?thesis
      by (simp add: sub_keys_replace next_chars_replace split: if_splits)
  next
    case False
    then have "stored E g (p @ [c']) (sub_keys (length p) c' S)"
      using c' assms(1,3) by (auto simp: stored_kids_def next_chars_replace split: if_splits)
    moreover have "g' (make_primary_key q None) = g (make_primary_key q None)" if "prefix (p @ [c']) q" for q
      using assms(2) that False by (intro changed_under_same) (auto dest: prefix_snoc_disjoint)
    ultimately show ?thesis
      using False assms(3) by (simp add: sub_keys_replace stored_cong)
  qed
qed

lemma single_not_branching: "single p k \<Longrightarrow> \<not> branching p {k}"
  by (auto simp: single_def branching_def)

lemma stored_node_kids: "stored E g p S \<Longrightarrow> branching p S \<Longrightarrow> stored_kids E g p S"
  by (cases rule: stored.cases) (auto simp: stored_kids_def single_not_branching)

lemma stored_rekids:
  assumes "stored E g p S" "branching p S" "stored_kids E g' p S"
    "g' (make_primary_key p None) = g (make_primary_key p None)"
  shows "stored E g' p S"
  using assms(1)
proof (cases rule: stored.cases)
  case (stored_leaf k b)
  then show ?thesis using assms(2) single_not_branching by blast
next
  case (stored_node b cs)
  then show ?thesis using assms(3,4)
    by - (rule stored.stored_node [where b = b and cs = cs], simp_all add: stored_kids_def)
qed

lemma ucast_u8_u32 [simp]: "(ucast (ucast (c::u8) :: u32) :: u8) = c"
  by transfer simp

text \<open>A node written over its stored children is stored.\<close>

lemma stored_put:
  assumes "env_ok E" "trie_rep E g p n S" "card S < 2 ^ 32"
    "branching p S \<Longrightarrow> stored_kids E g' p S"
  shows "stored E (g'(make_primary_key p None \<mapsto> trie_node_serialize E n)) p S"
  using assms(2)
proof (cases rule: trie_rep_cases)
  case (leaf k)
  then show ?thesis
    by (auto intro!: stored_leaf [where b = "trie_node_serialize E n"]
        simp: trie_node_serialize_def key_or_empty_def env_okD(1) [OF assms(1)])
next
  case node
  from stored_kids_upd [OF assms(4) [OF node(1)]] have
    kids: "stored_kids E (g'(make_primary_key p None \<mapsto> trie_node_serialize E n)) p S" .
  have "key_or_empty n = []" using node(4) by (auto simp: key_or_empty_def)
  moreover have "ucast ` set (map (\<lambda>c. ucast (fst c) :: u32) (tn_children n)) = next_chars (length p) S"
    using kidsD(4) [OF node(2)] by (simp add: image_image)
  ultimately show ?thesis
    using node kids assms(3)
    by - (rule stored_node [where b = "trie_node_serialize E n"
          and cs = "map (\<lambda>c. ucast (fst c)) (tn_children n)"],
        simp_all add: trie_node_serialize_def env_okD(1) [OF assms(1)] stored_kids_def)
qed

end
