(* ===== verification/Trie_Insert.thy ===== *)
theory Trie_Insert
  imports Trie_Rep
begin

text \<open>
  Correctness of \<open>TrieNode::insert\<close>: the grouping of the keys by their next character, the loop
  over the groups, the split of a leaf, and the recursion, whose statement covers the results, the
  node in memory and the records in the write batch.
\<close>

section \<open>Grouping\<close>

definition char_group :: "nat \<Rightarrow> u8 \<Rightarrow> (nat \<times> bytes) list \<Rightarrow> (nat \<times> bytes) list" where
  "char_group idx c remaining = filter (\<lambda>(i, k). k ! idx = c) remaining"

lemma group_keys_get:
  "hm_get (group_keys idx remaining) c =
     (let r = char_group idx c remaining in if r = [] then None else Some (map fst r, map snd r))"
proof (induction remaining rule: rev_induct)
  case (snoc x xs)
  obtain i k where x: "x = (i, k)" by (cases x)
  have step: "group_keys idx (xs @ [x]) =
      (case hm_get (group_keys idx xs) (k ! idx) of
         None \<Rightarrow> hm_insert (k ! idx) ([i], [k]) (group_keys idx xs)
       | Some (ixs, ks) \<Rightarrow> hm_insert (k ! idx) (ixs @ [i], ks @ [k]) (group_keys idx xs))"
    unfolding group_keys_def x by simp
  show ?case
    unfolding step using snoc.IH
    by (cases "c = k ! idx") (auto simp: hm_get_insert char_group_def x Let_def split: option.splits)
qed (simp add: group_keys_def char_group_def)

lemma group_keys_wf: "hm_wf (group_keys idx remaining)"
proof -
  have "hm_wf m \<Longrightarrow> hm_wf (fold (\<lambda>(i, key) m.
             case hm_get m (key ! idx) of
               None \<Rightarrow> hm_insert (key ! idx) ([i], [key]) m
             | Some (ixs, ks) \<Rightarrow> hm_insert (key ! idx) (ixs @ [i], ks @ [key]) m) remaining m)" for m
    by (induction remaining arbitrary: m) (auto simp: hm_wf_insert split: option.splits)
  from this [of "[]"] show ?thesis by (simp add: group_keys_def)
qed

lemma hash_map_iter_keys:
  assumes "env_ok E" "hm_wf m"
  shows "map fst (hash_map_iter E m) = env_order E (map fst m)"
proof -
  have "set (env_order E (map fst m)) = fst ` set m"
    using assms by (simp add: env_okD(3))
  then have "\<forall>c \<in> set (env_order E (map fst m)). hm_contains m c"
    by (simp add: hm_keys_dom)
  moreover have "\<forall>c \<in> set cs. hm_contains m c \<Longrightarrow>
      map fst (List.map_filter (\<lambda>c. map_option (Pair c) (hm_get m c)) cs) = cs" for cs
    by (induction cs) (auto simp: List.map_filter_simps)
  ultimately show ?thesis by (simp add: hash_map_iter_def)
qed

text \<open>What the loop over the groups visits: every character once, with its indices and keys.\<close>

definition groups_of ::
  "nat \<Rightarrow> (nat \<times> bytes) list \<Rightarrow> (u8 \<times> nat list \<times> bytes list) list \<Rightarrow> bool" where
  "groups_of idx remaining gs \<longleftrightarrow> distinct (map fst gs) \<and>
     fst ` set gs = (\<lambda>(i, k). k ! idx) ` set remaining \<and>
     (\<forall>(c, ixs, ks) \<in> set gs. ixs = map fst (char_group idx c remaining) \<and>
        ks = map snd (char_group idx c remaining))"

lemma groups_of_iter:
  assumes "env_ok E"
  shows "groups_of idx remaining (hash_map_iter E (group_keys idx remaining))"
proof -
  let ?m = "group_keys idx remaining"
  note keys = hash_map_iter_keys [OF assms group_keys_wf [of idx remaining]]
  have "distinct (map fst (hash_map_iter E ?m))"
    using keys env_okD(2) [OF assms group_keys_wf] by simp
  moreover have "fst ` set (hash_map_iter E ?m) = fst ` set ?m"
    using arg_cong [OF keys, of set] env_okD(3) [OF assms group_keys_wf [of idx remaining]] by simp
  moreover have "fst ` set ?m = (\<lambda>(i, k). k ! idx) ` set remaining"
    unfolding hm_keys_dom by (auto simp: group_keys_get Let_def char_group_def filter_empty_conv)
  moreover have "ixs = map fst (char_group idx c remaining) \<and> ks = map snd (char_group idx c remaining)"
    if "(c, ixs, ks) \<in> set (hash_map_iter E ?m)" for c ixs ks
    using hash_map_iter_mem [OF that] by (auto simp: group_keys_get Let_def split: if_splits)
  ultimately show ?thesis by (auto simp: groups_of_def)
qed

section \<open>Results\<close>

lemma record_results_length [simp]: "length (record_results ixs rs results) = length results"
proof -
  have "length (fold (\<lambda>(i, r) rs. rs[i := r]) xs results) = length results" for xs :: "(nat \<times> bool) list"
    by (induction xs arbitrary: results) auto
  then show ?thesis by (simp add: record_results_def)
qed

lemma fold_upd_nth:
  "distinct (map fst r) \<Longrightarrow> j < length results \<Longrightarrow>
     fold (\<lambda>(i, v) rs. rs[i := v]) r results ! j = (case map_of r j of None \<Rightarrow> results ! j | Some v \<Rightarrow> v)"
proof (induction r arbitrary: results)
  case (Cons x r)
  obtain i v where x: "x = (i, v)" by (cases x)
  with Cons.prems have "map_of r i = None" by (auto simp: map_of_eq_None_iff)
  with Cons x show ?case by (auto split: option.splits)
qed simp

lemma record_results_nth:
  assumes "distinct (map fst r)" "j < length results"
  shows "record_results (map fst r) (map P (map snd r)) results ! j =
    (case map_of r j of None \<Rightarrow> results ! j | Some k \<Rightarrow> P k)"
proof -
  have "zip (map fst r) (map P (map snd r)) = map (\<lambda>(i, k). (i, P k)) r"
    by (induction r) auto
  moreover have "map_of (map (\<lambda>(i, k). (i, P k)) r) j = map_option P (map_of r j)"
    by (induction r) auto
  moreover have "distinct (map fst (map (\<lambda>(i, k). (i, P k)) r))"
    using assms(1) by (simp add: case_prod_unfold comp_def)
  ultimately show ?thesis
    using fold_upd_nth [of "map (\<lambda>(i, k). (i, P k)) r" j results] assms(2)
    by (cases "map_of r j") (simp_all add: record_results_def)
qed

lemma count_successes_eq:
  "length ixs = length ks \<Longrightarrow> count_successes ixs (map P ks) = length (filter P ks)"
  unfolding count_successes_def by (induction ixs ks rule: list_induct2) auto

text \<open>All groups together write the result of every remaining key once.\<close>

lemma fold_record_length [simp]:
  "length (fold (\<lambda>(c, ixs, ks) rs. record_results ixs (f ks) rs) gs results) = length results"
  by (induction gs arbitrary: results) (auto split: prod.splits)

lemma map_of_char_group:
  "distinct (map fst remaining) \<Longrightarrow>
    map_of (char_group idx c remaining) j =
      (case map_of remaining j of None \<Rightarrow> None | Some k \<Rightarrow> if k ! idx = c then Some k else None)"
proof (induction remaining)
  case (Cons x xs)
  obtain i k where x: "x = (i, k)" by (cases x)
  with Cons.prems have "map_of xs i = None" by (auto simp: map_of_eq_None_iff)
  with Cons x show ?case by (auto simp: char_group_def split: option.splits)
qed (simp add: char_group_def)

lemma distinct_char_group: "distinct (map fst remaining) \<Longrightarrow> distinct (map fst (char_group idx c remaining))"
  unfolding char_group_def by (rule distinct_map_filter)

lemma fold_record_nth:
  assumes rem: "distinct (map fst remaining)"
  shows "j < length results \<Longrightarrow> distinct (map fst gs) \<Longrightarrow>
    (\<forall>(c, ixs, ks) \<in> set gs. ixs = map fst (char_group idx c remaining) \<and>
        ks = map snd (char_group idx c remaining)) \<Longrightarrow>
    fold (\<lambda>(c, ixs, ks) rs. record_results ixs (map P ks) rs) gs results ! j =
      (case map_of remaining j of None \<Rightarrow> results ! j
       | Some k \<Rightarrow> if k ! idx \<in> fst ` set gs then P k else results ! j)"
proof (induction gs arbitrary: results)
  case Nil
  then show ?case by (simp split: option.splits)
next
  case (Cons g gs)
  obtain c ixs ks where g: "g = (c, ixs, ks)" by (metis surj_pair)
  with Cons.prems have eq: "ixs = map fst (char_group idx c remaining)" "ks = map snd (char_group idx c remaining)"
    and notin: "c \<notin> fst ` set gs" by auto
  let ?r = "record_results ixs (map P ks) results"
  have nth: "?r ! j = (case map_of (char_group idx c remaining) j of None \<Rightarrow> results ! j | Some k \<Rightarrow> P k)"
    unfolding eq using Cons.prems(1) rem by (intro record_results_nth distinct_char_group)
  have "fold (\<lambda>(c, ixs, ks) rs. record_results ixs (map P ks) rs) gs ?r ! j =
      (case map_of remaining j of None \<Rightarrow> ?r ! j | Some k \<Rightarrow> if k ! idx \<in> fst ` set gs then P k else ?r ! j)"
    using Cons.prems by (intro Cons.IH) auto
  with nth notin g map_of_char_group [OF rem, of idx c j] show ?case
    by (auto split: option.splits)
qed

section \<open>Inserting below a node\<close>

definition prefix_free :: "bytes set \<Rightarrow> bool" where
  "prefix_free U \<longleftrightarrow> (\<forall>k \<in> U. \<forall>k' \<in> U. prefix k k' \<longrightarrow> k = k')"

text \<open>Keys the trie can hold: as long as a timestamp, and none a proper prefix of another.\<close>

definition keys_ok :: "bytes set \<Rightarrow> bool" where
  "keys_ok U \<longleftrightarrow> (\<forall>k \<in> U. TIMESTAMP_LENGTH \<le> length k) \<and> prefix_free U"

lemma keys_ok_subset: "keys_ok U \<Longrightarrow> T \<subseteq> U \<Longrightarrow> keys_ok T"
  unfolding keys_ok_def prefix_free_def by blast

text \<open>The same with a bound on the lengths, for the recursion.\<close>

definition keys_le :: "nat \<Rightarrow> bytes set \<Rightarrow> bool" where
  "keys_le M U \<longleftrightarrow> keys_ok U \<and> (\<forall>k \<in> U. length k \<le> M)"

lemma keys_le_subset: "keys_le M U \<Longrightarrow> T \<subseteq> U \<Longrightarrow> keys_le M T"
  unfolding keys_le_def using keys_ok_subset by blast

definition rep0 :: "trie_env \<Rightarrow> (bytes \<Rightarrow> bytes option) \<Rightarrow> bytes \<Rightarrow> trie_node \<Rightarrow> bytes set \<Rightarrow> bool" where
  "rep0 E g p n S \<longleftrightarrow> trie_rep E g p n S \<or>
     (S = {} \<and> tn_children n = [] \<and> tn_items n = 0 \<and>
      (tn_key n = None \<or> tn_key n = Some [] \<and> length p < TIMESTAMP_LENGTH))"

lemma rep0_new [simp]: "rep0 E g p trie_node_new {}"
  by (simp add: rep0_def trie_node_new_def)

text \<open>
  Nodes are loaded from the database, whose reader is \<open>g\<close>; the records of the node are what a reader
  \<open>B\<close> shows through the batch, where \<open>B\<close> may already lie over the database.
\<close>

definition insert_post ::
  "trie_env \<Rightarrow> (bytes \<Rightarrow> bytes option) \<Rightarrow> (bytes \<Rightarrow> bytes option) \<Rightarrow> bytes \<Rightarrow> txn_batch \<Rightarrow> bytes set \<Rightarrow> bytes set \<Rightarrow>
     trie_node \<Rightarrow> txn_batch \<Rightarrow> bool" where
  "insert_post E g B p txn S K n txn' \<longleftrightarrow> trie_rep E g p n (S \<union> K) \<and> hm_wf txn' \<and>
     changed_under p (overlay B txn) (overlay B txn') \<and>
     (card (S \<union> K) < 2 ^ 32 \<longrightarrow> S = {} \<or> stored E (overlay B txn) p S \<longrightarrow>
        stored E (overlay B txn') p (S \<union> K))"

definition kids_post ::
  "trie_env \<Rightarrow> (bytes \<Rightarrow> bytes option) \<Rightarrow> (bytes \<Rightarrow> bytes option) \<Rightarrow> bytes \<Rightarrow> txn_batch \<Rightarrow> bytes set \<Rightarrow> bytes set \<Rightarrow>
     (u8 \<times> trie_node_type) list \<Rightarrow> txn_batch \<Rightarrow> bool" where
  "kids_post E g B p txn S K cs txn' \<longleftrightarrow> kids E g p cs (S \<union> K) \<and> hm_wf txn' \<and>
     changed_under p (overlay B txn) (overlay B txn') \<and>
     overlay B txn' (make_primary_key p None) = overlay B txn (make_primary_key p None) \<and>
     (card (S \<union> K) < 2 ^ 32 \<longrightarrow> stored_kids E (overlay B txn) p S \<longrightarrow>
        stored_kids E (overlay B txn') p (S \<union> K))"

text \<open>The recursive call, at the children of the prefix \<open>p\<close>.\<close>

definition ins_ok :: "nat \<Rightarrow> trie_env \<Rightarrow> rocksdb \<Rightarrow> (bytes \<Rightarrow> bytes option) \<Rightarrow> bytes \<Rightarrow> insert_fn \<Rightarrow> bool" where
  "ins_ok M E db B p ins \<longleftrightarrow> (\<forall>c ks child txn T.
     ks \<noteq> [] \<longrightarrow> distinct ks \<longrightarrow> under (p @ [c]) (set ks) \<longrightarrow> keys_le M (T \<union> set ks) \<longrightarrow>
     rep0 E (db_view db) (p @ [c]) child T \<longrightarrow> hm_wf txn \<longrightarrow>
     (\<exists>child' txn'. ins ks (Suc (length p)) child txn = ((child', txn'), Ok (map (\<lambda>k. k \<notin> T) ks)) \<and>
        insert_post E (db_view db) B (p @ [c]) txn T (set ks) child' txn'))"

lemma ins_okD:
  assumes "ins_ok M E db B p ins" "ks \<noteq> []" "distinct ks" "under (p @ [c]) (set ks)" "keys_le M (T \<union> set ks)"
    "rep0 E (db_view db) (p @ [c]) child T" "hm_wf txn"
  shows "\<exists>child' txn'. ins ks (Suc (length p)) child txn = ((child', txn'), Ok (map (\<lambda>k. k \<notin> T) ks)) \<and>
        insert_post E (db_view db) B (p @ [c]) txn T (set ks) child' txn'"
  using assms unfolding ins_ok_def by blast

lemma kids_post_replace:
  assumes kids: "kids E g p cs S" and post: "insert_post E g B (p @ [c]) txn (sub_keys (length p) c S) K m txn'"
    and K: "under (p @ [c]) K"
  shows "kids_post E g B p txn S K (hm_insert c (Node m) cs) txn'"
proof -
  let ?T = "sub_keys (length p) c S \<union> K"
  from post have rep: "trie_rep E g (p @ [c]) m ?T" and wf: "hm_wf txn'"
    and ch: "changed_under (p @ [c]) (overlay B txn) (overlay B txn')"
    and st: "card ?T < 2 ^ 32 \<longrightarrow> sub_keys (length p) c S = {} \<or> stored E (overlay B txn) (p @ [c]) (sub_keys (length p) c S) \<longrightarrow>
        stored E (overlay B txn') (p @ [c]) ?T"
    unfolding insert_post_def by blast+
  have S: "replace_keys (length p) c ?T S = S \<union> K"
    by (rule replace_keys_Un) (rule kidsD(2) [OF kids])
  have T: "under (p @ [c]) ?T" using trie_rep_under [OF rep] by simp
  have "stored_kids E (overlay B txn') p (S \<union> K)"
    if "card (S \<union> K) < 2 ^ 32" "stored_kids E (overlay B txn) p S"
  proof -
    have "finite (S \<union> K)" using kidsD(1) [OF kids] K by (simp add: under_def)
    then have "card ?T \<le> card (S \<union> K)"
      by (rule card_mono) (auto simp: sub_keys_def)
    moreover have "sub_keys (length p) c S = {} \<or> stored E (overlay B txn) (p @ [c]) (sub_keys (length p) c S)"
      using that(2) by (auto simp: stored_kids_def sub_keys_empty_iff)
    ultimately have "stored E (overlay B txn') (p @ [c]) ?T"
      using st that(1) by simp
    from stored_kids_replace [OF that(2) ch T this] S show ?thesis by simp
  qed
  moreover have "overlay B txn' (make_primary_key p None) = overlay B txn (make_primary_key p None)"
    by (rule changed_under_same [OF ch]) (simp add: prefix_def)
  ultimately show ?thesis
    using kids_insert [OF kids rep] wf changed_under_snoc [OF ch] S by (simp add: kids_post_def)
qed

lemma insert_group_ok:
  assumes ins: "ins_ok M E db B p ins" and "db_healthy db"
    and kids: "kids E (db_view db) p (tn_children self) S"
    and ks: "ks \<noteq> []" "distinct ks" "under (p @ [c]) (set ks)" "keys_le M (S \<union> set ks)" and wf: "hm_wf txn"
  shows "\<exists>cs txn'. insert_group ins E db p (length p) (c, ixs, ks) self txn =
      ((set_children cs self, txn'), Ok (map (\<lambda>k. k \<notin> S) ks)) \<and>
    kids_post E (db_view db) B p txn S (set ks) cs txn'"
proof -
  let ?g = "db_view db" and ?T = "sub_keys (length p) c S"
  have call: "\<exists>child' txn'. ins ks (Suc (length p)) child txn = ((child', txn'), Ok (map (\<lambda>k. k \<notin> S) ks)) \<and>
        insert_post E ?g B (p @ [c]) txn ?T (set ks) child' txn'"
    if "rep0 E ?g (p @ [c]) child ?T" for child
  proof -
    have "keys_le M (?T \<union> set ks)"
      using ks(4) by (rule keys_le_subset) (auto simp: sub_keys_def)
    moreover have "map (\<lambda>k. k \<notin> ?T) ks = map (\<lambda>k. k \<notin> S) ks"
      using under_snoc [OF ks(3)] by (auto simp: sub_keys_def)
    ultimately show ?thesis
      using ins ks(1-3) wf that unfolding ins_ok_def by metis
  qed
  show ?thesis
  proof (cases "c \<in> next_chars (length p) S")
    case True
    from get_or_load_ok [OF kids assms(2) True] obtain cs m where
      m: "get_or_load_child E db self p c = (set_children cs self, Ok m)" "kids E ?g p cs S"
        "trie_rep E ?g (p @ [c]) m ?T" by blast
    from call [of m] m(3) obtain child' txn' where
      c: "ins ks (Suc (length p)) m txn = ((child', txn'), Ok (map (\<lambda>k. k \<notin> S) ks))"
        "insert_post E ?g B (p @ [c]) txn ?T (set ks) child' txn'" by (auto simp: rep0_def)
    from True kids_contains [OF kids] m(1) c(1)
    have "insert_group ins E db p (length p) (c, ixs, ks) self txn =
        ((set_children (hm_insert c (Node child') cs) self, txn'), Ok (map (\<lambda>k. k \<notin> S) ks))"
      by (auto simp: insert_group_def)
    with kids_post_replace [OF m(2) c(2) ks(3)] show ?thesis by blast
  next
    case False
    then have T: "?T = {}" by (simp add: sub_keys_empty_iff)
    from call [of trie_node_new] T obtain child' txn' where
      c: "ins ks (Suc (length p)) trie_node_new txn = ((child', txn'), Ok (map (\<lambda>k. k \<notin> S) ks))"
        "insert_post E ?g B (p @ [c]) txn ?T (set ks) child' txn'" by auto
    from False kids_contains [OF kids] c(1)
    have "insert_group ins E db p (length p) (c, ixs, ks) self txn =
        ((set_children (hm_insert c (Node child') (tn_children self)) self, txn'), Ok (map (\<lambda>k. k \<notin> S) ks))"
      by (simp add: insert_group_def get_or_load_child_def put_child_def hm_get_insert Let_def)
    with kids_post_replace [OF kids c(2) ks(3)] show ?thesis by blast
  qed
qed

definition groups_keys :: "(u8 \<times> nat list \<times> bytes list) list \<Rightarrow> bytes set" where
  "groups_keys gs = (\<Union>(c, ixs, ks) \<in> set gs. set ks)"

lemma groups_keys_simps [simp]:
  "groups_keys [] = {}"
  "groups_keys ((c, ixs, ks) # gs) = set ks \<union> groups_keys gs"
  by (auto simp: groups_keys_def)

lemma kids_post_trans:
  assumes "kids_post E g B p txn S K cs txn1" "kids_post E g B p txn1 (S \<union> K) K' cs' txn2"
  shows "kids_post E g B p txn S (K \<union> K') cs' txn2"
proof -
  have "card (S \<union> K) < 2 ^ 32" if "card (S \<union> K \<union> K') < 2 ^ 32"
  proof -
    have "finite (S \<union> K \<union> K')" using assms(2) unfolding kids_post_def by (meson kidsD(1) under_def)
    then have "card (S \<union> K) \<le> card (S \<union> K \<union> K')" by (rule card_mono) simp
    with that show ?thesis by simp
  qed
  with assms show ?thesis
    unfolding kids_post_def by (auto simp: Un_assoc intro: changed_under_trans)
qed

lemma card_Un_filter:
  assumes "finite S" "distinct ks"
  shows "card (S \<union> set ks) = card S + length (filter (\<lambda>k. k \<notin> S) ks)"
proof -
  have "card (S \<union> (set ks - S)) = card S + card (set ks - S)"
    using assms(1) by (intro card_Un_disjoint) auto
  moreover have "card (set ks - S) = length (filter (\<lambda>k. k \<notin> S) ks)"
    using assms(2) distinct_card [of "filter (\<lambda>k. k \<notin> S) ks"] by (simp add: set_diff_eq)
  ultimately show ?thesis by simp
qed

lemma fold_record_cong:
  assumes "\<And>c ixs ks k. (c, ixs, ks) \<in> set gs \<Longrightarrow> k \<in> set ks \<Longrightarrow> P k = Q k"
  shows "fold (\<lambda>(c, ixs, ks) rs. record_results ixs (map P ks) rs) gs results =
    fold (\<lambda>(c, ixs, ks) rs. record_results ixs (map Q ks) rs) gs results"
proof (rule fold_cong)
  fix x
  assume x: "x \<in> set gs"
  obtain c ixs ks where eq: "x = (c, ixs, ks)" by (metis surj_pair)
  then have "map P ks = map Q ks" using assms x by auto
  with eq show "(\<lambda>(c, ixs, ks) rs. record_results ixs (map P ks) rs) x =
      (\<lambda>(c, ixs, ks) rs. record_results ixs (map Q ks) rs) x"
    by (simp only: prod.case)
qed simp_all

lemma insert_groups_ok:
  assumes ins: "ins_ok M E db B p ins" and "db_healthy db"
  shows "kids E (db_view db) p (tn_children self) S \<Longrightarrow> hm_wf txn \<Longrightarrow> distinct (map fst gs) \<Longrightarrow>
    (\<forall>(c, ixs, ks) \<in> set gs. ks \<noteq> [] \<and> distinct ks \<and> under (p @ [c]) (set ks) \<and> length ixs = length ks) \<Longrightarrow>
    keys_le M (S \<union> groups_keys gs) \<Longrightarrow>
    \<exists>cs txn' n. insert_groups ins E db p (length p) gs results s self txn =
        ((set_children cs self, txn'),
         Ok (fold (\<lambda>(c, ixs, ks) rs. record_results ixs (map (\<lambda>k. k \<notin> S) ks) rs) gs results, s + n)) \<and>
      card (S \<union> groups_keys gs) = card S + n \<and>
      kids_post E (db_view db) B p txn S (groups_keys gs) cs txn'"
proof (induction gs arbitrary: results s self txn S)
  case Nil
  then show ?case by (intro exI [of _ "tn_children self"]) (simp add: kids_post_def)
next
  case (Cons g gs)
  obtain c ixs ks where g: "g = (c, ixs, ks)" by (metis surj_pair)
  from Cons.prems(4) g have ks: "ks \<noteq> []" "distinct ks" "under (p @ [c]) (set ks)" "length ixs = length ks"
    by auto
  have "keys_le M (S \<union> set ks)" using Cons.prems(5) by (rule keys_le_subset) (auto simp: g)
  from insert_group_ok [OF assms Cons.prems(1) ks(1-3) this Cons.prems(2), of ixs] obtain cs txn1 where
    grp: "insert_group ins E db p (length p) (c, ixs, ks) self txn =
      ((set_children cs self, txn1), Ok (map (\<lambda>k. k \<notin> S) ks))"
      "kids_post E (db_view db) B p txn S (set ks) cs txn1" by blast
  let ?results = "record_results ixs (map (\<lambda>k. k \<notin> S) ks) results"
  let ?n = "length (filter (\<lambda>k. k \<notin> S) ks)"
  define K where "K = set ks"
  have eq: "fold (\<lambda>(c, ixs, ks) rs. record_results ixs (map (\<lambda>k. k \<notin> S \<union> K) ks) rs) gs ?results =
      fold (\<lambda>(c, ixs, ks) rs. record_results ixs (map (\<lambda>k. k \<notin> S) ks) rs) gs ?results"
  proof (rule fold_record_cong)
    fix c' ixs' ks' k
    assume "(c', ixs', ks') \<in> set gs" "k \<in> set ks'"
    with Cons.prems(3,4) g under_snoc(2) [of p c' "set ks'" k] have "c' \<noteq> c" "k ! length p = c'" by force+
    with under_snoc(2) [OF ks(3)] show "(k \<notin> S \<union> K) = (k \<notin> S)" by (auto simp: K_def)
  qed
  have "kids E (db_view db) p cs (S \<union> K)" "hm_wf txn1"
    using grp(2) by (simp_all add: kids_post_def K_def)
  then have "\<exists>cs' txn' n. insert_groups ins E db p (length p) gs ?results (s + ?n) (set_children cs self) txn1 =
        ((set_children cs' (set_children cs self), txn'),
         Ok (fold (\<lambda>(c, ixs, ks) rs. record_results ixs (map (\<lambda>k. k \<notin> S \<union> K) ks) rs) gs ?results, s + ?n + n)) \<and>
      card (S \<union> K \<union> groups_keys gs) = card (S \<union> K) + n \<and>
      kids_post E (db_view db) B p txn1 (S \<union> K) (groups_keys gs) cs' txn'"
    using Cons.prems(3-5) g by (intro Cons.IH) (auto simp: K_def Un_assoc)
  then obtain cs' txn' n where IH:
    "insert_groups ins E db p (length p) gs ?results (s + ?n) (set_children cs self) txn1 =
        ((set_children cs' self, txn'),
         Ok (fold (\<lambda>(c, ixs, ks) rs. record_results ixs (map (\<lambda>k. k \<notin> S) ks) rs) gs ?results, s + ?n + n))"
      "card (S \<union> K \<union> groups_keys gs) = card (S \<union> K) + n"
      "kids_post E (db_view db) B p txn1 (S \<union> K) (groups_keys gs) cs' txn'"
    unfolding eq by auto
  have "card (S \<union> K) = card S + ?n"
    unfolding K_def using kidsD(1) [OF Cons.prems(1)] ks(2) by (intro card_Un_filter) (auto simp: under_def)
  with IH kids_post_trans [OF grp(2) IH(3) [unfolded K_def]] show ?case
    by (intro exI [of _ cs'] exI [of _ txn'] exI [of _ "?n + n"])
      (simp add: g grp(1) count_successes_eq [OF ks(4)] K_def Un_assoc)
qed


text \<open>The loop over the groups and the update of the node after it.\<close>

definition results_ok :: "bool list \<Rightarrow> (nat \<times> bytes) list \<Rightarrow> bytes set \<Rightarrow> bool list \<Rightarrow> bool" where
  "results_ok results remaining S results' \<longleftrightarrow> length results' = length results \<and>
     (\<forall>j < length results. results' ! j =
        (case map_of remaining j of None \<Rightarrow> results ! j | Some k \<Rightarrow> k \<notin> S))"

lemma groups_of_keys:
  assumes "groups_of idx remaining gs"
  shows "groups_keys gs = snd ` set remaining"
proof
  show "groups_keys gs \<subseteq> snd ` set remaining"
    using assms by (fastforce simp: groups_of_def groups_keys_def char_group_def)
  show "snd ` set remaining \<subseteq> groups_keys gs"
  proof
    fix k
    assume "k \<in> snd ` set remaining"
    then obtain i where ik: "(i, k) \<in> set remaining" by auto
    have "fst ` set gs = (\<lambda>(i, k). k ! idx) ` set remaining" using assms by (simp add: groups_of_def)
    moreover have "k ! idx \<in> (\<lambda>(i, k). k ! idx) ` set remaining" using ik by (rule rev_image_eqI) simp
    ultimately have "k ! idx \<in> fst ` set gs" by (simp only:)
    then obtain ixs ks where g: "(k ! idx, ixs, ks) \<in> set gs" by force
    then have "ks = map snd (char_group idx (k ! idx) remaining)"
      using assms by (auto simp: groups_of_def)
    with ik have "k \<in> set ks" by (force simp: char_group_def)
    with g show "k \<in> groups_keys gs" by (auto simp: groups_keys_def)
  qed
qed

lemma groups_of_ok:
  assumes gs: "groups_of (length p) remaining gs" and rem: "distinct (map snd remaining)"
    and K: "under p (snd ` set remaining)" "\<forall>k \<in> snd ` set remaining. length p < length k"
  shows "\<forall>(c, ixs, ks) \<in> set gs. ks \<noteq> [] \<and> distinct ks \<and> under (p @ [c]) (set ks) \<and> length ixs = length ks"
proof (clarify)
  fix c ixs ks
  assume mem: "(c, ixs, ks) \<in> set gs"
  then have eq: "ixs = map fst (char_group (length p) c remaining)"
    "ks = map snd (char_group (length p) c remaining)"
    using gs by (auto simp: groups_of_def)
  have "fst ` set gs = (\<lambda>(i, k). k ! length p) ` set remaining" using gs by (simp add: groups_of_def)
  moreover have "c \<in> fst ` set gs" using mem by (rule rev_image_eqI) simp
  ultimately have "c \<in> (\<lambda>(i, k). k ! length p) ` set remaining" by simp
  then have "ks \<noteq> []" by (auto simp: eq char_group_def filter_empty_conv)
  moreover have "distinct ks" unfolding eq char_group_def using rem by (rule distinct_map_filter)
  moreover have "set ks = sub_keys (length p) c (snd ` set remaining)"
    using K(2) by (force simp: eq char_group_def sub_keys_def)
  ultimately show "ks \<noteq> [] \<and> distinct ks \<and> under (p @ [c]) (set ks) \<and> length ixs = length ks"
    using under_sub_keys [OF K(1)] by (simp add: eq)
qed

lemma fold_record_ok:
  assumes rem: "distinct (map fst remaining)" and gs: "groups_of idx remaining gs"
  shows "results_ok results remaining S
    (fold (\<lambda>(c, ixs, ks) rs. record_results ixs (map (\<lambda>k. k \<notin> S) ks) rs) gs results)"
    (is "results_ok _ _ _ ?results")
  unfolding results_ok_def
proof (intro conjI allI impI)
  fix j
  assume "j < length results"
  with fold_record_nth [OF rem, of j results gs idx "\<lambda>k. k \<notin> S"] gs
  have "?results ! j = (case map_of remaining j of None \<Rightarrow> results ! j
     | Some k \<Rightarrow> if k ! idx \<in> fst ` set gs then k \<notin> S else results ! j)"
    by (simp add: groups_of_def)
  moreover have "k ! idx \<in> fst ` set gs" if "map_of remaining j = Some k" for k
    using gs map_of_SomeD [OF that] unfolding groups_of_def
    by (metis (mono_tags, lifting) case_prod_conv image_eqI)
  ultimately show "?results ! j = (case map_of remaining j of None \<Rightarrow> results ! j | Some k \<Rightarrow> k \<notin> S)"
    by (simp split: option.splits)
qed simp

lemma insert_remaining_ok:
  assumes ins: "ins_ok M E db B p ins" and healthy: "db_healthy db" and env: "env_ok E"
    and kids: "kids E (db_view db) p (tn_children self) S" and items: "tn_items self = card S"
    and key: "tn_key self = None \<or> tn_key self = Some []"
    and rem: "distinct (map fst remaining)" "distinct (map snd remaining)" and K: "snd ` set remaining = K"
    and under: "under p K" "\<forall>k \<in> K. length p < length k" and branch: "branching p (S \<union> K)"
    and ok: "keys_le M (S \<union> K)" and wf: "hm_wf txn"
    and hash: "K \<subseteq> S \<Longrightarrow> tn_hash self = merkle E (length p) S"
  shows "\<exists>self' txn' results'.
    insert_remaining ins E db p (length p) remaining results self txn = ((self', txn'), Ok results') \<and>
    results_ok results remaining S results' \<and> trie_rep E (db_view db) p self' (S \<union> K) \<and> hm_wf txn' \<and>
    changed_under p (overlay B txn) (overlay B txn') \<and>
    (card (S \<union> K) < 2 ^ 32 \<longrightarrow> stored_kids E (overlay B txn) p S \<longrightarrow>
      (K \<subseteq> S \<longrightarrow> stored E (overlay B txn) p S) \<longrightarrow> stored E (overlay B txn') p (S \<union> K))"
proof -
  let ?g = "db_view db" and ?gs = "hash_map_iter E (group_keys (length p) remaining)"
  have gs: "groups_of (length p) remaining ?gs" by (rule groups_of_iter [OF env])
  have keys: "groups_keys ?gs = K" using groups_of_keys [OF gs] K by simp
  from insert_groups_ok [OF ins healthy kids wf, of ?gs results 0] gs groups_of_ok [OF gs rem(2)] K under keys ok
  obtain cs txn1 n where loop: "insert_groups ins E db p (length p) ?gs results 0 self txn =
        ((set_children cs self, txn1),
         Ok (fold (\<lambda>(c, ixs, ks) rs. record_results ixs (map (\<lambda>k. k \<notin> S) ks) rs) ?gs results, n))"
      "card (S \<union> K) = card S + n" "kids_post E ?g B p txn S K cs txn1"
    by (auto simp: groups_of_def)
  let ?results = "fold (\<lambda>(c, ixs, ks) rs. record_results ixs (map (\<lambda>k. k \<notin> S) ks) rs) ?gs results"
  note res = fold_record_ok [OF rem(1) gs, of results S]
  have long: "\<not> (\<exists>k \<in> snd ` set remaining. length k \<le> length p)"
    using under(2) K by (auto simp: not_le)
  have kids1: "kids E ?g p cs (S \<union> K)" "hm_wf txn1" using loop(3) by (simp_all add: kids_post_def)
  have fin: "finite S" "finite K" using kidsD(1) [OF kids] under(1) by (simp_all add: under_def)
  have zero: "n = 0 \<longleftrightarrow> K \<subseteq> S"
    using loop(2) fin by (metis Un_absorb2 add.right_neutral add_cancel_right_right card_subset_eq finite_UnI sup.cobounded1 sup.cobounded2)
  have mk: "merkle E (length p) (S \<union> K) = node_hash E (length p) (S \<union> K)"
    using fin branch by (intro merkle_node) (auto simp: branching_def)
  show ?thesis
  proof (cases "n = 0")
    case True
    then have sub: "K \<subseteq> S" "S \<union> K = S" using zero by auto
    have "trie_rep E ?g p (set_children cs self) S"
      unfolding set_children_def
      using kids1 sub branch key hash items by (intro rep_node_kids) auto
    moreover have "stored E (overlay B txn1) p S"
      if "card S < 2 ^ 32" "stored_kids E (overlay B txn) p S" "stored E (overlay B txn) p S"
      using that loop(3) sub branch by (intro stored_rekids [OF that(3)]) (auto simp: kids_post_def)
    ultimately show ?thesis
      using loop sub True res long
      by (intro exI [of _ "set_children cs self"] exI [of _ txn1] exI [of _ ?results])
        (auto simp: insert_remaining_def kids_post_def)
  next
    case False
    then have notsub: "\<not> K \<subseteq> S" using zero by simp
    let ?self = "set_items (card (S \<union> K)) (set_children cs self)"
    have ne: "S \<union> K \<noteq> {}" using branch by (simp add: branching_def inner_def)
    from update_hash_ok [OF _ healthy ne, of E p ?self] kids1 obtain cs' where
      uh: "update_hash E db p ?self =
        (set_hash (node_hash E (length p) (S \<union> K)) (set_children cs' ?self), Ok ())"
        "kids E ?g p cs' (S \<union> K)" by auto
    let ?self' = "set_hash (node_hash E (length p) (S \<union> K)) (set_children cs' ?self)"
    have rep: "trie_rep E ?g p ?self' (S \<union> K)"
      using rep_node_kids [OF uh(2) branch key mk [symmetric] refl]
      by (simp add: set_hash_def set_children_def set_items_def)
    have st: "stored E (overlay B (put_to_txn E ?self' txn1 p)) p (S \<union> K)"
      if "card (S \<union> K) < 2 ^ 32" "stored_kids E (overlay B txn) p S"
      using stored_put [OF env rep that(1)] that loop(3) by (simp add: kids_post_def put_to_txn_def)
    have ch: "changed_under p (overlay B txn) (overlay B (put_to_txn E ?self' txn1 p))"
      using loop(3) changed_under_upd changed_under_trans unfolding kids_post_def put_to_txn_def overlay_put
      by blast
    have "insert_remaining ins E db p (length p) remaining results self txn =
        ((?self', put_to_txn E ?self' txn1 p), Ok ?results)"
      using loop(1,2) long False uh(1) items by (simp add: insert_remaining_def)
    with rep st ch res kids1(2) notsub show ?thesis
      by (intro exI [of _ ?self'] exI [of _ "put_to_txn E ?self' txn1 p"] exI [of _ ?results])
        (simp add: put_to_txn_def)
  qed
qed

section \<open>Splitting a leaf\<close>

lemma under_key: "under p {k} \<longleftrightarrow> prefix p k"
  by (auto simp: under_def prefix_def) (metis append_take_drop_id)

lemma split_leaf_ok:
  assumes ins: "ins_ok M E db B p ins" and healthy: "db_healthy db"
    and k: "single p k" "length p < length k" and ok: "keys_le M {k}" and wf: "hm_wf txn"
    and self: "tn_key self = Some k" "tn_children self = []" "tn_items self = 1"
  shows "\<exists>self' txn'. split_leaf_node_with ins E db (length p) self txn = ((self', txn'), Ok ()) \<and>
    tn_key self' = None \<and> tn_items self' = 1 \<and> kids E (db_view db) p (tn_children self') {k} \<and>
    hm_wf txn' \<and> changed_under p (overlay B txn) (overlay B txn') \<and>
    stored_kids E (overlay B txn') p {k}"
proof -
  let ?g = "db_view db" and ?c = "k ! length p"
  have p: "take (length p) k = p" using k by (auto simp: single_def under_def)
  then have u: "under (p @ [?c]) {k}"
    using k(2) by (simp add: under_def take_Suc_conv_app_nth)
  from ins_okD [OF ins, of "[k]" ?c "{}" trie_node_new txn] u ok wf obtain child txn1 where
    c: "ins [k] (Suc (length p)) trie_node_new txn = ((child, txn1), Ok [True])"
      "insert_post E ?g B (p @ [?c]) txn {} {k} child txn1" by auto
  then have "insert_post E ?g B (p @ [?c]) txn (sub_keys (length p) ?c {}) {k} child txn1"
    by (simp add: sub_keys_def)
  from kids_post_replace [OF kids_empty this u]
  have post: "kids_post E ?g B p txn {} {k} [(?c, Node child)] txn1" by simp
  let ?self = "put_child ?c child (set_key None self)"
  have "kids E ?g p (tn_children ?self) {k}"
    using post self by (simp add: kids_post_def put_child_def)
  from update_hash_ok [OF this healthy] obtain cs where
    uh: "update_hash E db p ?self = (set_hash (node_hash E (length p) {k}) (set_children cs ?self), Ok ())"
      "kids E ?g p cs {k}" by auto
  let ?self' = "set_hash (node_hash E (length p) {k}) (set_children cs ?self)"
  have "stored_kids E (overlay B txn) p {}" by (simp add: stored_kids_def next_chars_def)
  then have "stored_kids E (overlay B txn1) p {k}" using post by (simp add: kids_post_def)
  then have "stored_kids E (overlay B (put_to_txn E ?self' txn1 p)) p {k}"
    by (simp add: put_to_txn_def stored_kids_upd)
  moreover have "changed_under p (overlay B txn) (overlay B (put_to_txn E ?self' txn1 p))"
    using post changed_under_upd changed_under_trans unfolding kids_post_def put_to_txn_def overlay_put
    by blast
  moreover have "split_leaf_node_with ins E db (length p) self txn = ((?self', put_to_txn E ?self' txn1 p), Ok ())"
    using self k(2) p c(1) uh(1) by (simp add: split_leaf_node_with_def Let_def)
  ultimately show ?thesis
    using uh(2) post self
    by (intro exI [of _ ?self'] exI [of _ "put_to_txn E ?self' txn1 p"])
      (simp add: put_to_txn_def kids_post_def put_child_def)
qed

section \<open>The whole insertion\<close>

lemma keys_le_prefix:
  "keys_le M U \<Longrightarrow> k \<in> U \<Longrightarrow> k' \<in> U \<Longrightarrow> prefix k k' \<Longrightarrow> k = k'"
  by (auto simp: keys_le_def keys_ok_def prefix_free_def)

lemma keys_le_longer:
  assumes "keys_le M U" "k \<in> U" "k' \<in> U" "k \<noteq> k'" "under p {k}" "under p {k'}"
  shows "length p < length k"
proof (rule ccontr)
  assume "\<not> length p < length k"
  moreover have "length p \<le> length k" "take (length p) k = p" using assms(5) by (auto simp: under_def)
  ultimately have "k = p" by (simp add: not_less)
  with assms(6) have "prefix k k'" by (simp add: under_key)
  with keys_le_prefix [OF assms(1-3)] assms(4) show False by simp
qed

lemma rep0_cases [consumes 1, case_names empty leaf node]:
  assumes "rep0 E g p n S"
  obtains "S = {}" "tn_children n = []" "tn_items n = 0" "TIMESTAMP_LENGTH \<le> length p \<Longrightarrow> tn_key n = None"
    "tn_key n = None \<or> tn_key n = Some []"
  | k where "single p k" "S = {k}" "n = TrieNode (merkle E (length p) {k}) 1 [] (Some k)"
  | "branching p S" "kids E g p (tn_children n) S" "tn_children n \<noteq> []"
    "tn_key n = None \<or> tn_key n = Some []" "tn_hash n = merkle E (length p) S" "tn_items n = card S"
  using assms unfolding rep0_def
proof (elim disjE)
  assume "trie_rep E g p n S"
  then show thesis by (cases rule: trie_rep_cases) (use that in blast)+
qed (use that in auto)

lemma results_ok_eq:
  assumes "results_ok results remaining S results'" "length results = length keys"
    "\<And>j. j < length keys \<Longrightarrow> (case map_of remaining j of None \<Rightarrow> results ! j | Some k \<Rightarrow> k \<notin> S) = P (keys ! j)"
  shows "results' = map P keys"
  using assms by (intro nth_equalityI) (auto simp: results_ok_def)

lemma map_of_enumerate: "map_of (enumerate n xs) j = (if n \<le> j \<and> j < n + length xs then Some (xs ! (j - n)) else None)"
  by (induction xs arbitrary: n) (auto simp: nth_Cons' Suc_diff_le)

text \<open>A node with children, or above the timestamp depth.\<close>

lemma inner_rep:
  assumes rep: "rep0 E g p self S" and inner: "\<not> (TIMESTAMP_LENGTH \<le> length p \<and> is_leaf self)"
  shows "kids E g p (tn_children self) S" "tn_items self = card S"
    "tn_key self = None \<or> tn_key self = Some []" "S \<noteq> {} \<Longrightarrow> branching p S"
    "S \<noteq> {} \<Longrightarrow> tn_hash self = merkle E (length p) S" "TIMESTAMP_LENGTH \<le> length p \<Longrightarrow> S \<noteq> {}"
proof -
  have "kids E g p (tn_children self) S \<and> tn_items self = card S \<and>
    (tn_key self = None \<or> tn_key self = Some []) \<and>
    (S \<noteq> {} \<longrightarrow> branching p S \<and> tn_hash self = merkle E (length p) S) \<and>
    (TIMESTAMP_LENGTH \<le> length p \<longrightarrow> S \<noteq> {})"
    using rep
  proof (cases rule: rep0_cases)
    case empty
    then show ?thesis using inner by (simp add: kids_empty is_leaf_def)
  next
    case (leaf k)
    then show ?thesis using inner by (simp add: single_def is_leaf_def)
  next
    case node
    then show ?thesis by (simp add: branching_def inner_def)
  qed
  then show "kids E g p (tn_children self) S" "tn_items self = card S"
    "tn_key self = None \<or> tn_key self = Some []" "S \<noteq> {} \<Longrightarrow> branching p S"
    "S \<noteq> {} \<Longrightarrow> tn_hash self = merkle E (length p) S" "TIMESTAMP_LENGTH \<le> length p \<Longrightarrow> S \<noteq> {}"
    by blast+
qed

lemma inner_longer:
  assumes br: "S \<noteq> {} \<Longrightarrow> branching p S" "TIMESTAMP_LENGTH \<le> length p \<Longrightarrow> S \<noteq> {}"
    and K: "under p K" "keys_le M (S \<union> K)" and k: "k \<in> S \<union> K"
  shows "length p < length k"
proof (cases "TIMESTAMP_LENGTH \<le> length p")
  case True
  with br have branch: "branching p S" by blast
  then obtain k' where k': "k' \<in> S" "length p < length k'" by (auto simp: branching_def inner_def)
  have "under p {k'}" "under p {k}"
    using k K(1) branch k' by (auto simp: branching_def inner_def under_def)
  with keys_le_longer [OF K(2) k, of k' p] k' show ?thesis by (cases "k = k'") auto
next
  case False
  moreover have "TIMESTAMP_LENGTH \<le> length k" using K(2) k unfolding keys_le_def keys_ok_def by blast
  ultimately show ?thesis by simp
qed

lemma inner_branching:
  assumes br: "S \<noteq> {} \<Longrightarrow> branching p S" "TIMESTAMP_LENGTH \<le> length p \<Longrightarrow> S \<noteq> {}"
    and K: "under p K" "keys_le M (S \<union> K)" "K \<noteq> {}" and S: "under p S"
  shows "branching p (S \<union> K)"
proof -
  have "inner p (S \<union> K)"
    using K S inner_longer [OF br K(1,2)] by (auto simp: inner_def)
  moreover have "2 \<le> card (S \<union> K)" if "TIMESTAMP_LENGTH \<le> length p"
  proof -
    have "2 \<le> card S" using br that by (auto simp: branching_def)
    also have "\<dots> \<le> card (S \<union> K)" using S K(1) by (intro card_mono) (auto simp: under_def)
    finally show ?thesis .
  qed
  ultimately show ?thesis by (simp add: branching_def)
qed

lemma insert_inner_ok:
  assumes ins: "ins_ok M E db B p ins" and healthy: "db_healthy db" and env: "env_ok E"
    and rep: "rep0 E (db_view db) p self S"
    and keys: "keys \<noteq> []" "distinct keys" "under p (set keys)" "keys_le M (S \<union> set keys)" and wf: "hm_wf txn"
    and inner: "\<not> (TIMESTAMP_LENGTH \<le> length p \<and> is_leaf self)"
  shows "\<exists>self' txn'. insert_remaining ins E db p (length p) (enumerate 0 keys) (map (\<lambda>_. False) keys) self txn =
      ((self', txn'), Ok (map (\<lambda>k. k \<notin> S) keys)) \<and>
    insert_post E (db_view db) B p txn S (set keys) self' txn'"
proof -
  let ?g = "db_view db"
  note pre = inner_rep [OF rep inner]
  have long: "\<forall>k \<in> set keys. length p < length k"
    using inner_longer [OF pre(4,6) keys(3,4)] by blast
  have branch: "branching p (S \<union> set keys)"
    using keys(1) by (intro inner_branching [OF pre(4,6) keys(3,4)] kidsD(1) [OF pre(1)]) simp_all
  have rem: "distinct (map fst (enumerate 0 keys))" "distinct (map snd (enumerate 0 keys))"
    "snd ` set (enumerate 0 keys) = set keys"
    using keys(2) by (simp_all add: enumerate_keys)
  have "tn_hash self = merkle E (length p) S" if "set keys \<subseteq> S"
    using that keys(1) by (intro pre(5)) auto
  from insert_remaining_ok [OF ins healthy env pre(1-3) rem keys(3) long branch keys(4) wf this, of "map (\<lambda>_. False) keys"]
  obtain self' txn' results' where r:
    "insert_remaining ins E db p (length p) (enumerate 0 keys) (map (\<lambda>_. False) keys) self txn = ((self', txn'), Ok results')"
    "results_ok (map (\<lambda>_. False) keys) (enumerate 0 keys) S results'"
    "trie_rep E ?g p self' (S \<union> set keys)" "hm_wf txn'" "changed_under p (overlay B txn) (overlay B txn')"
    "card (S \<union> set keys) < 2 ^ 32 \<longrightarrow> stored_kids E (overlay B txn) p S \<longrightarrow>
      (set keys \<subseteq> S \<longrightarrow> stored E (overlay B txn) p S) \<longrightarrow> stored E (overlay B txn') p (S \<union> set keys)"
    by blast
  have res: "results' = map (\<lambda>k. k \<notin> S) keys"
    by (rule results_ok_eq [OF r(2)]) (simp_all add: map_of_enumerate)
  have "stored_kids E (overlay B txn) p S \<and> (set keys \<subseteq> S \<longrightarrow> stored E (overlay B txn) p S)"
    if "S = {} \<or> stored E (overlay B txn) p S"
    using that
  proof
    assume "S = {}"
    then show ?thesis using keys(1) by (simp add: stored_kids_def next_chars_def)
  next
    assume st: "stored E (overlay B txn) p S"
    with pre(4) stored_under have "branching p S" by blast
    with st show ?thesis by (simp add: stored_node_kids)
  qed
  with r res show ?thesis unfolding insert_post_def by blast
qed

text \<open>A leaf that is split because other keys arrive.\<close>

lemma split_insert_ok:
  assumes ins: "ins_ok M E db B p ins" and healthy: "db_healthy db" and env: "env_ok E"
    and k: "single p k" and self: "tn_key self = Some k" "tn_children self = []" "tn_items self = 1"
    and rem: "distinct (map fst remaining)" "distinct (map snd remaining)" "snd ` set remaining = K"
    and K: "under p K" "keys_le M ({k} \<union> K)" "K \<noteq> {}" "k \<notin> K" and wf: "hm_wf txn"
  shows "\<exists>self1 txn1 self' txn' results'.
    split_leaf_node_with ins E db (length p) self txn = ((self1, txn1), Ok ()) \<and>
    insert_remaining ins E db p (length p) remaining results self1 txn1 = ((self', txn'), Ok results') \<and>
    results_ok results remaining {k} results' \<and> trie_rep E (db_view db) p self' ({k} \<union> K) \<and> hm_wf txn' \<and>
    changed_under p (overlay B txn) (overlay B txn') \<and>
    (card ({k} \<union> K) < 2 ^ 32 \<longrightarrow> stored E (overlay B txn') p ({k} \<union> K))"
proof -
  let ?g = "db_view db"
  have uk: "under p {k}" using k by (simp add: single_def)
  have long: "\<forall>x \<in> {k} \<union> K. length p < length x"
  proof
    fix x
    assume x: "x \<in> {k} \<union> K"
    from K(3) obtain y where y: "y \<in> K" by auto
    obtain z where "z \<in> {k} \<union> K" "z \<noteq> x" "under p {z}"
      using x y K(1,4) uk by (cases "x = k") (auto simp: under_def)
    moreover have "under p {x}" using x K(1) uk by (auto simp: under_def)
    ultimately show "length p < length x" using keys_le_longer [OF K(2) x] by blast
  qed
  have "2 \<le> card ({k} \<union> K)"
    using K(1,3,4) by (cases "card K") (auto simp: under_def)
  then have branch: "branching p ({k} \<union> K)"
    using K(1) uk long by (auto simp: branching_def inner_def under_def)
  have kl: "length p < length k" "keys_le M {k}"
    using long keys_le_subset [OF K(2), of "{k}"] by auto
  from split_leaf_ok [OF ins healthy k kl wf self] obtain self1 txn1 where
    s: "split_leaf_node_with ins E db (length p) self txn = ((self1, txn1), Ok ())"
      "tn_key self1 = None" "tn_items self1 = 1" "kids E ?g p (tn_children self1) {k}" "hm_wf txn1"
      "changed_under p (overlay B txn) (overlay B txn1)" "stored_kids E (overlay B txn1) p {k}" by blast
  have items: "tn_items self1 = card {k}" and key: "tn_key self1 = None \<or> tn_key self1 = Some []"
    using s by simp_all
  have nsub: "\<not> K \<subseteq> {k}" using K(3,4) by auto
  then have hash: "K \<subseteq> {k} \<Longrightarrow> tn_hash self1 = merkle E (length p) {k}" by blast
  have longK: "\<forall>x \<in> K. length p < length x" using long by blast
  from insert_remaining_ok [OF ins healthy env s(4) items key rem K(1) longK branch K(2) s(5) hash, of results]
  show ?thesis using s nsub changed_under_trans by blast
qed

lemma clear_existing_none: "v \<notin> set keys \<Longrightarrow> clear_existing v keys results = results"
proof -
  have "v \<notin> snd ` set xs \<Longrightarrow>
      fold (\<lambda>(i, key) r. if bytes_compare v key = 0 then r[i := False] else r) xs results = results" for xs
    by (induction xs) auto
  then show "v \<notin> set keys \<Longrightarrow> clear_existing v keys results = results"
    by (simp add: clear_existing_def enumerate_keys)
qed

lemma replicate_update_same [simp]: "(replicate n x)[i := x] = replicate n x"
  by (metis list_update_beyond list_update_id nth_replicate length_replicate not_less)

lemma clear_existing_False: "clear_existing v keys (replicate n False) = replicate n False"
proof -
  have "fold (\<lambda>(i, key) r. if bytes_compare v key = 0 then r[i := False] else r) xs (replicate n False)
      = replicate n False" for xs :: "(nat \<times> bytes) list"
    by (induction xs) auto
  then show ?thesis by (simp add: clear_existing_def)
qed

lemma keep_missing_all: "v \<notin> set keys \<Longrightarrow> keep_missing v True keys = enumerate 1 keys"
proof -
  have "v \<notin> set keys \<Longrightarrow> map (\<lambda>(i, key). (i + 1, key))
      (filter (\<lambda>(i, key). bytes_compare v key \<noteq> 0) (enumerate n keys)) = enumerate (Suc n) keys" for n
    by (induction keys arbitrary: n) auto
  from this [of 0] show "v \<notin> set keys \<Longrightarrow> keep_missing v True keys = enumerate 1 keys"
    by (simp add: keep_missing_def)
qed

lemma keep_missing_filter: "keep_missing v False keys = filter (\<lambda>(i, key). key \<noteq> v) (enumerate 0 keys)"
  by (auto simp: keep_missing_def intro!: filter_cong)

lemma map_of_filter_snd:
  "distinct (map fst xs) \<Longrightarrow> map_of (filter (\<lambda>(i, k). k \<noteq> v) xs) j =
     (case map_of xs j of None \<Rightarrow> None | Some k \<Rightarrow> if k = v then None else Some k)"
proof (induction xs)
  case (Cons x xs)
  obtain i k where x: "x = (i, k)" by (cases x)
  with Cons.prems have "map_of xs i = None" by (auto simp: map_of_eq_None_iff)
  with Cons x show ?case by (auto split: option.splits)
qed simp


lemma enumerate_Nil_iff: "enumerate n xs = [] \<longleftrightarrow> xs = []"
  by (cases xs) simp_all

lemma hd_take_under: "keys \<noteq> [] \<Longrightarrow> under p (set keys) \<Longrightarrow>
    length p \<le> length (hd keys) \<and> take (length p) (hd keys) = p"
  unfolding under_def by (metis hd_in_set)

text \<open>A leaf that already holds a key.\<close>

lemma insert_full_leaf_ok:
  assumes ins: "ins_ok M E db B p ins" and healthy: "db_healthy db" and env: "env_ok E"
    and k: "single p k" and self: "self = TrieNode (merkle E (length p) {k}) 1 [] (Some k)"
    and keys: "keys \<noteq> []" "distinct keys" "under p (set keys)" "keys_le M ({k} \<union> set keys)" and wf: "hm_wf txn"
  shows "\<exists>self' txn'. insert_body ins E db keys (length p) self txn =
      ((self', txn'), Ok (map (\<lambda>x. x \<notin> {k}) keys)) \<and>
    insert_post E (db_view db) B p txn {k} (set keys) self' txn'"
proof -
  let ?g = "db_view db" and ?rem = "filter (\<lambda>(i, key). key \<noteq> k) (enumerate 0 keys)"
  let ?res = "map (\<lambda>_. False) keys"
  have deep: "TIMESTAMP_LENGTH \<le> length p" using k by (simp add: single_def)
  have K: "snd ` set ?rem = set keys - {k}"
    using enumerate_keys [of keys] by (force simp: image_iff)
  have dist: "distinct (map fst ?rem)" "distinct (map snd ?rem)"
    using keys(2) by (auto intro!: distinct_map_filter)
  have body: "insert_body ins E db keys (length p) self txn =
      (if ?rem = [] then ((self, txn), Ok ?res)
       else (case split_leaf_node_with ins E db (length p) self txn of
               ((self2, txn2), Ok _) \<Rightarrow> insert_remaining ins E db p (length p) ?rem ?res self2 txn2
             | (st, Err e) \<Rightarrow> (st, Err e) | (st, Panic m) \<Rightarrow> (st, Panic m)))"
    using keys(1) deep hd_take_under [OF keys(1,3)]
    by (simp add: insert_body_def self is_leaf_def insert_leaf_value_def Let_def key_or_empty_def
        keep_missing_filter clear_existing_False map_replicate_const split: prod.splits result.splits)
  show ?thesis
  proof (cases "?rem = []")
    case True
    then have "set keys \<subseteq> {k}" using K by auto
    then have "set keys = {k}" using keys(1) by (simp add: subset_singleton_iff)
    with True body rep_leaf [OF k, of E ?g] wf self show ?thesis
      by (intro exI [of _ self] exI [of _ txn]) (simp add: insert_post_def)
  next
    case False
    have un: "{k} \<union> (set keys - {k}) = {k} \<union> set keys" by blast
    have "under p (set keys - {k})" using keys(3) by (rule under_subset) blast
    moreover have "set keys - {k} \<noteq> {}" using False K by (metis image_is_empty set_empty)
    moreover have "keys_le M ({k} \<union> (set keys - {k}))" using keys(4) un by simp
    moreover have "tn_key self = Some k" "tn_children self = []" "tn_items self = 1" by (simp_all add: self)
    ultimately obtain self1 txn1 self' txn' results' where r:
      "split_leaf_node_with ins E db (length p) self txn = ((self1, txn1), Ok ())"
      "insert_remaining ins E db p (length p) ?rem ?res self1 txn1 = ((self', txn'), Ok results')"
      "results_ok ?res ?rem {k} results'" "trie_rep E ?g p self' ({k} \<union> (set keys - {k}))" "hm_wf txn'"
      "changed_under p (overlay B txn) (overlay B txn')"
      "card ({k} \<union> (set keys - {k})) < 2 ^ 32 \<longrightarrow> stored E (overlay B txn') p ({k} \<union> (set keys - {k}))"
      using split_insert_ok [OF ins healthy env k _ _ _ dist K _ _ _ _ wf, of self ?res] by blast
    have "results' = map (\<lambda>x. x \<notin> {k}) keys"
      by (rule results_ok_eq [OF r(3)]) (simp_all add: map_of_filter_snd map_of_enumerate)
    with body False r un show ?thesis
      by (intro exI [of _ self'] exI [of _ txn']) (simp add: insert_post_def)
  qed
qed

text \<open>An empty leaf takes the last key, and is split when there are more.\<close>

lemma insert_empty_leaf_ok:
  assumes ins: "ins_ok M E db B p ins" and healthy: "db_healthy db" and env: "env_ok E"
    and deep: "TIMESTAMP_LENGTH \<le> length p"
    and self: "tn_children self = []" "tn_items self = 0" "tn_key self = None"
    and keys: "keys \<noteq> []" "distinct keys" "under p (set keys)" "keys_le M (set keys)" and wf: "hm_wf txn"
  shows "\<exists>self' txn'. insert_body ins E db keys (length p) self txn =
      ((self', txn'), Ok (map (\<lambda>x. x \<notin> {}) keys)) \<and>
    insert_post E (db_view db) B p txn {} (set keys) self' txn'"
proof -
  let ?g = "db_view db" and ?k = "last keys" and ?rest = "butlast keys"
  let ?res = "(map (\<lambda>_. False) keys)[0 := True]"
  define self1 where "self1 = TrieNode (merkle E (length p) {?k}) 1 [] (Some ?k)"
  define txn1 where "txn1 = put_to_txn E self1 txn p"
  have ks: "keys = ?rest @ [?k]" using keys(1) by simp
  then have notin: "?k \<notin> set ?rest" and drest: "distinct ?rest" and set: "set keys = {?k} \<union> set ?rest"
    using keys(2) by (metis distinct_append not_distinct_conv_prefix, metis distinct_append,
        metis Un_commute list.set(1,2) set_append)
  have k: "single p ?k" using deep keys(3) set by (auto simp: single_def under_def)
  have urest: "under p (set ?rest)" using keys(3) by (rule under_subset) (use set in blast)
  note rep = rep_leaf [OF k, of E ?g, folded self1_def]
  have st: "stored E (overlay B txn1) p {?k}"
    unfolding txn1_def put_to_txn_def overlay_put
    using stored_put [OF env rep] single_not_branching [OF k] by simp
  have wf1: "hm_wf txn1" and ch1: "changed_under p (overlay B txn) (overlay B txn1)"
    using wf by (simp_all add: txn1_def put_to_txn_def changed_under_upd)
  have lv: "insert_leaf_value E db keys p (map (\<lambda>_. False) keys) self txn = ((self1, txn1), Ok (?rest, ?res, True))"
    using self deep by (simp add: insert_leaf_value_def update_hash_def is_leaf_def key_or_empty_def
        self1_def txn1_def merkle_leaf set_hash_def set_items_def set_key_def)
  have key1: "key_or_empty self1 = ?k" by (simp add: self1_def key_or_empty_def)
  have body: "insert_body ins E db keys (length p) self txn =
      (if ?rest = [] then ((self1, txn1), Ok ?res)
       else (case split_leaf_node_with ins E db (length p) self1 txn1 of
               ((self2, txn2), Ok _) \<Rightarrow> insert_remaining ins E db p (length p) (enumerate 1 ?rest) ?res self2 txn2
             | (st, Err e) \<Rightarrow> (st, Err e) | (st, Panic m) \<Rightarrow> (st, Panic m)))"
    using keys(1) deep hd_take_under [OF keys(1,3)] lv self notin key1
    by (simp add: insert_body_def is_leaf_def Let_def keep_missing_all clear_existing_none
        enumerate_Nil_iff split: prod.splits result.splits)
  show ?thesis
  proof (cases "?rest = []")
    case True
    then have "set keys = {?k}" "?res = map (\<lambda>x. x \<notin> {}) keys"
      using keys(1) by (cases keys; simp split: if_splits)+
    with body True rep st wf1 ch1 show ?thesis
      by (intro exI [of _ self1] exI [of _ txn1]) (simp add: insert_post_def)
  next
    case False
    have rem: "distinct (map fst (enumerate 1 ?rest))" "distinct (map snd (enumerate 1 ?rest))"
      "snd ` set (enumerate 1 ?rest) = set ?rest"
      using drest by (simp_all add: image_set del: set_map)
    have self1: "tn_key self1 = Some ?k" "tn_children self1 = []" "tn_items self1 = 1"
      by (simp_all add: self1_def)
    have kl: "keys_le M ({?k} \<union> set ?rest)" using keys(4) set by simp
    from split_insert_ok [OF ins healthy env k self1 rem urest kl _ notin wf1, of ?res] False
    obtain self2 txn2 self' txn' results' where r:
      "split_leaf_node_with ins E db (length p) self1 txn1 = ((self2, txn2), Ok ())"
      "insert_remaining ins E db p (length p) (enumerate 1 ?rest) ?res self2 txn2 = ((self', txn'), Ok results')"
      "results_ok ?res (enumerate 1 ?rest) {?k} results'" "trie_rep E ?g p self' (set keys)" "hm_wf txn'"
      "changed_under p (overlay B txn1) (overlay B txn')"
      "card (set keys) < 2 ^ 32 \<longrightarrow> stored E (overlay B txn') p (set keys)"
      unfolding set by auto
    have "results' = map (\<lambda>x. x \<notin> {}) keys"
    proof (rule results_ok_eq [OF r(3)])
      fix j
      assume "j < length keys"
      moreover have "?rest ! (j - 1) \<noteq> ?k" if "1 \<le> j" "j < length keys"
        using notin that by (metis One_nat_def Suc_pred diff_less_mono length_butlast nth_mem zero_less_one)
      ultimately show "(case map_of (enumerate 1 ?rest) j of None \<Rightarrow> ?res ! j | Some x \<Rightarrow> x \<notin> {?k}) = (keys ! j \<notin> {})"
        by (cases j) (auto simp: map_of_enumerate nth_list_update)
    qed simp
    with body False r changed_under_trans [OF ch1 r(6)] show ?thesis
      by (intro exI [of _ self'] exI [of _ txn']) (simp add: insert_post_def)
  qed
qed

lemma insert_body_ok:
  assumes ins: "ins_ok M E db B p ins" and healthy: "db_healthy db" and env: "env_ok E"
    and rep: "rep0 E (db_view db) p self S"
    and keys: "keys \<noteq> []" "distinct keys" "under p (set keys)" "keys_le M (S \<union> set keys)" and wf: "hm_wf txn"
  shows "\<exists>self' txn'. insert_body ins E db keys (length p) self txn =
      ((self', txn'), Ok (map (\<lambda>k. k \<notin> S) keys)) \<and>
    insert_post E (db_view db) B p txn S (set keys) self' txn'"
proof (cases "TIMESTAMP_LENGTH \<le> length p \<and> is_leaf self")
  case False
  have "insert_body ins E db keys (length p) self txn =
      insert_remaining ins E db p (length p) (enumerate 0 keys) (map (\<lambda>_. False) keys) self txn"
    unfolding insert_body_def Let_def if_not_P [OF False] using hd_take_under [OF keys(1,3)] keys(1) by simp
  with insert_inner_ok [OF ins healthy env rep keys wf False] show ?thesis by (simp only:)
next
  case True
  from rep show ?thesis
  proof (cases rule: rep0_cases)
    case empty
    with insert_empty_leaf_ok [OF ins healthy env, of self keys txn] True keys wf show ?thesis by simp
  next
    case (leaf k)
    with insert_full_leaf_ok [OF ins healthy env leaf(1,3), of keys txn] keys wf show ?thesis by simp
  next
    case node
    with True show ?thesis by (simp add: is_leaf_def)
  qed
qed

lemma insert_node_le:
  fixes txn :: txn_batch
  assumes healthy: "db_healthy db" and env: "env_ok E"
  shows "M - length p = n \<Longrightarrow> rep0 E (db_view db) p self S \<Longrightarrow> keys \<noteq> [] \<Longrightarrow> distinct keys \<Longrightarrow>
    under p (set keys) \<Longrightarrow> keys_le M (S \<union> set keys) \<Longrightarrow> hm_wf txn \<Longrightarrow>
    \<exists>self' txn'. insert_node E db keys (length p) self txn =
        ((self', txn'), Ok (map (\<lambda>k. k \<notin> S) keys)) \<and>
      insert_post E (db_view db) B p txn S (set keys) self' txn'"
proof (induction n arbitrary: p self S keys txn)
  case 0
  have "ins_ok M E db B p (insert_node E db)"
    unfolding ins_ok_def
  proof (intro allI impI)
    fix c ks child T and txn :: txn_batch
    assume "ks \<noteq> []" "under (p @ [c]) (set ks)" "keys_le M (T \<union> set ks)"
    moreover from this obtain k where "k \<in> set ks" by (meson hd_in_set)
    ultimately have "Suc (length p) \<le> length k" "length k \<le> M" by (auto simp: under_def keys_le_def)
    with 0(1) show "\<exists>child' txn'. insert_node E db ks (Suc (length p)) child txn =
        ((child', txn'), Ok (map (\<lambda>k. k \<notin> T) ks)) \<and> insert_post E (db_view db) B (p @ [c]) txn T (set ks) child' txn'"
      by simp
  qed
  from insert_body_ok [OF this healthy env 0(2-7)] show ?case by (subst insert_node.simps)
next
  case (Suc n)
  have "ins_ok M E db B p (insert_node E db)"
    unfolding ins_ok_def
  proof (intro allI impI)
    fix c ks child T and txn :: txn_batch
    assume "ks \<noteq> []" "distinct ks" "under (p @ [c]) (set ks)" "keys_le M (T \<union> set ks)"
      "rep0 E (db_view db) (p @ [c]) child T" "hm_wf txn"
    with Suc.IH [of "p @ [c]" child T ks txn] Suc.prems(1)
    show "\<exists>child' txn'. insert_node E db ks (Suc (length p)) child txn =
        ((child', txn'), Ok (map (\<lambda>k. k \<notin> T) ks)) \<and> insert_post E (db_view db) B (p @ [c]) txn T (set ks) child' txn'"
      by simp
  qed
  from insert_body_ok [OF this healthy env Suc.prems(2-7)] show ?case by (subst insert_node.simps)
qed

text \<open>
  Insertion at any node: every key that is new is reported as such, the node represents the union
  afterwards, and the batch holds its records.
\<close>

lemma insert_node_ok:
  assumes "db_healthy db" "env_ok E" "rep0 E (db_view db) p self S" "keys \<noteq> []" "distinct keys"
    "under p (set keys)" "keys_ok (S \<union> set keys)" "hm_wf txn"
  shows "\<exists>self' txn'. insert_node E db keys (length p) self txn =
        ((self', txn'), Ok (map (\<lambda>k. k \<notin> S) keys)) \<and>
      insert_post E (db_view db) B p txn S (set keys) self' txn'"
proof -
  have "finite S"
    using assms(3) by (cases rule: rep0_cases) (auto simp: branching_def inner_def under_def)
  then have fin: "finite (S \<union> set keys)" by simp
  define M where "M = Max (length ` (S \<union> set keys))"
  have "keys_le M (S \<union> set keys)"
    using assms(7) fin unfolding keys_le_def M_def by (metis Max_ge finite_imageI imageI)
  from insert_node_le [OF assms(1,2) refl assms(3-6) this assms(8)] show ?thesis .
qed

end
