(* ===== verification/Trie_Delete.thy ===== *)
theory Trie_Delete
  imports Trie_Insert
begin

text \<open>
  Correctness of the other operations of a trie node: membership, bulk deletion with its compaction
  step, and the ordered enumeration of the keys.
\<close>

section \<open>Membership\<close>

lemma exists_node_ok:
  assumes healthy: "db_healthy db"
  shows "trie_rep E (db_view db) p self S \<Longrightarrow> prefix p key \<Longrightarrow>
    \<exists>self'. exists_node E db key (length p) self = (self', Ok (key \<in> S)) \<and>
      trie_rep E (db_view db) p self' S"
proof (induction "length key - length p" arbitrary: p self S rule: less_induct)
  case less
  let ?g = "db_view db"
  from less.prems(1) show ?case
  proof (cases rule: trie_rep_cases)
    case (leaf k)
    with less.prems(1) show ?thesis
      by (intro exI [of _ self]) (auto simp: exists_node.simps is_leaf_def key_or_empty_def)
  next
    case node
    note kids = node(2)
    have nl: "\<not> is_leaf self" using node(3) by (simp add: is_leaf_def)
    have notin: "key \<notin> S" if "length key \<le> length p \<or> key ! length p \<notin> next_chars (length p) S"
      using that kidsD(2) [OF kids] by (auto simp: next_chars_def)
    show ?thesis
    proof (cases "length key \<le> length p \<or> key ! length p \<notin> next_chars (length p) S")
      case True
      with notin nl kids_contains [OF kids, of "key ! length p"] less.prems(1) show ?thesis
        by (intro exI [of _ self]) (auto simp: exists_node.simps)
    next
      case False
      let ?c = "key ! length p"
      from less.prems(2) have tk: "take (length p) key = p" by (auto simp: prefix_def)
      from get_or_load_ok [OF kids healthy, of ?c] False obtain cs m where
        m: "get_or_load_child E db self p ?c = (set_children cs self, Ok m)" "kids E ?g p cs S"
          "trie_rep E ?g (p @ [?c]) m (sub_keys (length p) ?c S)" by blast
      have pre: "prefix (p @ [?c]) key"
        using False tk by (metis not_le take_Suc_conv_app_nth take_is_prefix)
      have "length key - length (p @ [?c]) < length key - length p" using False by auto
      from less.hyps [OF this m(3) pre] obtain m' where
        m': "exists_node E db key (Suc (length p)) m = (m', Ok (key \<in> sub_keys (length p) ?c S))"
          "trie_rep E ?g (p @ [?c]) m' (sub_keys (length p) ?c S)" by auto
      have "kids E ?g p (hm_insert ?c (Node m') cs) S"
        using kids_insert [OF m(2) m'(2)] replace_keys_self [OF kidsD(2) [OF kids]] by simp
      from rep_node_kids [OF this node(1,4,5,6)]
      have rep: "trie_rep E ?g p (set_children (hm_insert ?c (Node m') cs) self) S"
        by (simp add: set_children_def)
      have "exists_node E db key (length p) self =
          (set_children (hm_insert ?c (Node m') cs) self, Ok (key \<in> S))"
        using nl False kids_contains [OF kids, of ?c] m(1) m'(1) tk
        by (subst exists_node.simps) (auto simp: sub_keys_def)
      with rep show ?thesis by blast
    qed
  qed
qed

section \<open>Deletion\<close>

definition del_post ::
  "trie_env \<Rightarrow> (bytes \<Rightarrow> bytes option) \<Rightarrow> bytes \<Rightarrow> bytes set \<Rightarrow> trie_node \<Rightarrow> bool" where
  "del_post E g p S n \<longleftrightarrow>
     (if S = {} then tn_children n = [] \<and> tn_items n = 0 \<and> (tn_key n = None \<or> tn_key n = Some [])
        \<and> tn_hash n = merkle E (length p) {}
      else trie_rep E g p n S)"

lemma merkle_empty: "merkle E idx {} = blake3_20 (env_blake3 E) []"
  by (simp add: merkle.simps next_chars_def)

lemma del_post_items: "del_post E g p S n \<Longrightarrow> tn_items n = card S"
  by (auto simp: del_post_def trie_rep_items split: if_splits)

definition del_ok :: "nat \<Rightarrow> trie_env \<Rightarrow> rocksdb \<Rightarrow> bytes \<Rightarrow> insert_fn \<Rightarrow> bool" where
  "del_ok M E db p del \<longleftrightarrow> (\<forall>c ks child txn T.
     ks \<noteq> [] \<longrightarrow> distinct ks \<longrightarrow> under (p @ [c]) (set ks) \<longrightarrow> keys_le M (T \<union> set ks) \<longrightarrow>
     trie_rep E (db_view db) (p @ [c]) child T \<longrightarrow>
     (\<exists>child' txn'. del ks (Suc (length p)) child txn = ((child', txn'), Ok (map (\<lambda>k. k \<in> T) ks)) \<and>
        del_post E (db_view db) (p @ [c]) (T - set ks) child'))"

lemma del_okD:
  assumes "del_ok M E db p del" "ks \<noteq> []" "distinct ks" "under (p @ [c]) (set ks)" "keys_le M (T \<union> set ks)"
    "trie_rep E (db_view db) (p @ [c]) child T"
  shows "\<exists>child' txn'. del ks (Suc (length p)) child txn = ((child', txn'), Ok (map (\<lambda>k. k \<in> T) ks)) \<and>
        del_post E (db_view db) (p @ [c]) (T - set ks) child'"
  using assms unfolding del_ok_def by blast

lemma hm_remove_insert: "hm_remove c (hm_insert c v m) = hm_remove c m"
  by (induction m) auto

lemma replace_keys_Diff:
  assumes "\<forall>k \<in> S. length p < length k" "under (p @ [c]) K"
  shows "replace_keys (length p) c (sub_keys (length p) c S - K) S = S - K"
  using assms(1) under_snoc(2) [OF assms(2)] by (auto simp: replace_keys_def sub_keys_def)

lemma card_Diff_filter:
  assumes "finite S" "distinct ks"
  shows "card S = card (S - set ks) + length (filter (\<lambda>k. k \<in> S) ks)"
proof -
  have "card (S \<inter> set ks) = length (filter (\<lambda>k. k \<in> S) ks)"
    using assms(2) distinct_card [of "filter (\<lambda>k. k \<in> S) ks"] by (simp add: Int_def conj_commute)
  with card_Diff_subset_Int [of S "set ks"] card_mono [OF assms(1), of "S \<inter> set ks"] show ?thesis
    by simp
qed

text \<open>One group: the child's keys shrink, and an empty child is dropped.\<close>

lemma del_child_ok:
  assumes del: "del_ok M E db p del" and kids: "kids E (db_view db) p cs S"
    and m: "trie_rep E (db_view db) (p @ [c]) m (sub_keys (length p) c S)"
    and ks: "ks \<noteq> []" "distinct ks" "under (p @ [c]) (set ks)" "keys_le M (S \<union> set ks)"
  shows "\<exists>child' txn'. del ks (Suc (length p)) m txn = ((child', txn'), Ok (map (\<lambda>k. k \<in> S) ks)) \<and>
    kids E (db_view db) p
      (if tn_items child' = 0 then hm_remove c cs else hm_insert c (Node child') cs) (S - set ks)"
proof -
  let ?T = "sub_keys (length p) c S"
  have "keys_le M (?T \<union> set ks)"
    using ks(4) by (rule keys_le_subset) (auto simp: sub_keys_def)
  from del_okD [OF del ks(1-3) this m, of txn] obtain child' txn' where
    d: "del ks (Suc (length p)) m txn = ((child', txn'), Ok (map (\<lambda>k. k \<in> ?T) ks))"
      "del_post E (db_view db) (p @ [c]) (?T - set ks) child'" by blast
  have res: "map (\<lambda>k. k \<in> ?T) ks = map (\<lambda>k. k \<in> S) ks"
    using under_snoc [OF ks(3)] by (auto simp: sub_keys_def)
  note diff = replace_keys_Diff [OF kidsD(2) [OF kids] ks(3)]
  have "finite ?T" using kidsD(1) [OF kids] by (simp add: under_def)
  then have zero: "tn_items child' = 0 \<longleftrightarrow> ?T - set ks = {}"
    using del_post_items [OF d(2)] by simp
  show ?thesis
  proof (cases "tn_items child' = 0")
    case True
    then have "?T - set ks = {}" using zero by simp
    with diff have "replace_keys (length p) c {} S = S - set ks" by (simp only:)
    with kids_remove [OF kids, of c] have "kids E (db_view db) p (hm_remove c cs) (S - set ks)" by simp
    with True d(1) res show ?thesis by auto
  next
    case False
    with zero d(2) have "trie_rep E (db_view db) (p @ [c]) child' (?T - set ks)"
      by (simp add: del_post_def split: if_splits)
    from kids_insert [OF kids this] False diff d(1) res show ?thesis by (auto simp: fun_eq_iff)
  qed
qed

lemma Diff_Un': "S - (K \<union> K') = S - K - K'"
  by blast

lemma delete_groups_ok:
  assumes del: "del_ok M E db p del" and healthy: "db_healthy db"
  shows "kids E (db_view db) p (tn_children self) S \<Longrightarrow> distinct (map fst gs) \<Longrightarrow>
    (\<forall>(c, ixs, ks) \<in> set gs. ks \<noteq> [] \<and> distinct ks \<and> under (p @ [c]) (set ks) \<and> length ixs = length ks) \<Longrightarrow>
    keys_le M (S \<union> groups_keys gs) \<Longrightarrow>
    \<exists>cs txn' n. delete_groups del E db p (length p) gs results s self txn =
        ((set_children cs self, txn'),
         Ok (fold (\<lambda>(c, ixs, ks) rs. record_results ixs (map (\<lambda>k. k \<in> S) ks) rs) gs results, s + n)) \<and>
      card S = card (S - groups_keys gs) + n \<and> kids E (db_view db) p cs (S - groups_keys gs)"
proof (induction gs arbitrary: results s self txn S)
  case Nil
  then show ?case by (intro exI [of _ "tn_children self"]) simp
next
  case (Cons g gs)
  let ?g = "db_view db"
  obtain c ixs ks where g: "g = (c, ixs, ks)" by (metis surj_pair)
  from Cons.prems(3) g have ks: "ks \<noteq> []" "distinct ks" "under (p @ [c]) (set ks)" "length ixs = length ks"
    by auto
  have fin: "finite S" using kidsD(1) [OF Cons.prems(1)] by (simp add: under_def)
  let ?results = "record_results ixs (map (\<lambda>k. k \<in> S) ks) results"
  let ?n = "length (filter (\<lambda>k. k \<in> S) ks)"
  have step: "\<exists>cs txn1. delete_groups del E db p (length p) (g # gs) results s self txn =
      delete_groups del E db p (length p) gs ?results (s + ?n) (set_children cs self) txn1 \<and>
      kids E ?g p cs (S - set ks)"
  proof (cases "c \<in> next_chars (length p) S")
    case True
    from get_or_load_ok [OF Cons.prems(1) healthy True] obtain cs m where
      m: "get_or_load_child E db self p c = (set_children cs self, Ok m)" "kids E ?g p cs S"
        "trie_rep E ?g (p @ [c]) m (sub_keys (length p) c S)" by blast
    have "keys_le M (S \<union> set ks)" using Cons.prems(4) by (rule keys_le_subset) (auto simp: g)
    from del_child_ok [OF del m(2,3) ks(1-3) this, of txn] obtain child' txn1 where
      d: "del ks (Suc (length p)) m txn = ((child', txn1), Ok (map (\<lambda>k. k \<in> S) ks))"
        "kids E ?g p (if tn_items child' = 0 then hm_remove c cs else hm_insert c (Node child') cs) (S - set ks)"
      by blast
    with True kids_contains [OF Cons.prems(1), of c] m(1) show ?thesis
      by (intro exI [of _ "if tn_items child' = 0 then hm_remove c cs else hm_insert c (Node child') cs"]
          exI [of _ txn1])
        (simp add: g Let_def count_successes_eq [OF ks(4)] hm_remove_insert)
  next
    case False
    then have "\<forall>k \<in> set ks. k \<notin> S"
      using under_snoc(1,2) [OF ks(3)] by (auto simp: next_chars_def)
    then have none: "map (\<lambda>_. False) ks = map (\<lambda>k. k \<in> S) ks" "?n = 0" "S - set ks = S"
      by (auto simp: filter_empty_conv)
    with False kids_contains [OF Cons.prems(1), of c] Cons.prems(1) show ?thesis
      by (intro exI [of _ "tn_children self"] exI [of _ txn]) (simp add: g none(1) del: map_eq_conv)
  qed
  then obtain cs txn1 where st: "delete_groups del E db p (length p) (g # gs) results s self txn =
      delete_groups del E db p (length p) gs ?results (s + ?n) (set_children cs self) txn1"
      "kids E ?g p cs (S - set ks)" by blast
  have eq: "fold (\<lambda>(c, ixs, ks') rs. record_results ixs (map (\<lambda>k. k \<in> S - set ks) ks') rs) gs ?results =
      fold (\<lambda>(c, ixs, ks') rs. record_results ixs (map (\<lambda>k. k \<in> S) ks') rs) gs ?results"
  proof (rule fold_record_cong)
    fix c' ixs' ks' k
    assume "(c', ixs', ks') \<in> set gs" "k \<in> set ks'"
    with Cons.prems(2,3) g under_snoc(2) [of p c' "set ks'" k] have "c' \<noteq> c" "k ! length p = c'" by force+
    with under_snoc(2) [OF ks(3)] show "(k \<in> S - set ks) = (k \<in> S)" by auto
  qed
  have "keys_le M (S - set ks \<union> groups_keys gs)"
    using Cons.prems(4) by (rule keys_le_subset) (auto simp: g)
  then have "\<exists>cs' txn' n. delete_groups del E db p (length p) gs ?results (s + ?n) (set_children cs self) txn1 =
        ((set_children cs' (set_children cs self), txn'),
         Ok (fold (\<lambda>(c, ixs, ks') rs. record_results ixs (map (\<lambda>k. k \<in> S - set ks) ks') rs) gs ?results, s + ?n + n)) \<and>
      card (S - set ks) = card (S - set ks - groups_keys gs) + n \<and> kids E ?g p cs' (S - set ks - groups_keys gs)"
    using Cons.prems(2,3) g st(2) by (intro Cons.IH) auto
  then obtain cs' txn' n where IH:
    "delete_groups del E db p (length p) gs ?results (s + ?n) (set_children cs self) txn1 =
        ((set_children cs' self, txn'),
         Ok (fold (\<lambda>(c, ixs, ks') rs. record_results ixs (map (\<lambda>k. k \<in> S) ks') rs) gs ?results, s + ?n + n))"
      "card (S - set ks) = card (S - set ks - groups_keys gs) + n" "kids E ?g p cs' (S - set ks - groups_keys gs)"
    unfolding eq by auto
  with st(1) card_Diff_filter [OF fin ks(2)] show ?case
    by (intro exI [of _ cs'] exI [of _ txn'] exI [of _ "?n + n"]) (simp add: g Diff_Un')
qed

text \<open>After the loop: an empty node, a node that takes the key of its last leaf, or a smaller node.\<close>

lemma kids_Nil: "kids E g p cs {} \<Longrightarrow> cs = []"
  by (auto dest: kidsD(4) simp: next_chars_def)

lemma update_hash_leaf:
  "is_leaf n \<Longrightarrow> update_hash E db p n = (set_hash (blake3_20 (env_blake3 E) (key_or_empty n)) n, Ok ())"
  by (simp add: update_hash_def)

lemma kids_single:
  assumes kids: "kids E g p cs {k}"
  shows "\<exists>t. cs = [(k ! length p, t)]"
proof -
  have "length p < length k" using kidsD(2) [OF kids] by simp
  then have "fst ` set cs = {k ! length p}" using kidsD(4) [OF kids] by (auto simp: next_chars_def)
  then have "set (map fst cs) = {k ! length p}" by simp
  moreover have "distinct (map fst cs)" by (rule kidsD(3) [OF kids])
  ultimately have "map fst cs = [k ! length p]"
    by (metis distinct_card card.empty card_insert_disjoint empty_iff finite.emptyI length_0_conv
        length_Suc_conv list.set_intros(1) singletonD)
  then show ?thesis by (cases cs) auto
qed

lemma compact_node_ok:
  assumes kids: "kids E (db_view db) p (tn_children self) {k}" and healthy: "db_healthy db"
    and deep: "TIMESTAMP_LENGTH \<le> length p" and items: "tn_items self = 1"
  shows "compact_node E db p (length p) self txn =
    ((set_children [] (set_key (Some k) self),
      delete_to_txn txn (make_primary_key p (Some (k ! length p)))), Ok ())"
proof -
  let ?c = "k ! length p"
  have long: "length p < length k" using kidsD(2) [OF kids] by simp
  then have c: "?c \<in> next_chars (length p) {k}" and sub: "sub_keys (length p) ?c {k} = {k}"
    by (auto simp: next_chars_def sub_keys_def)
  from kids_single [OF kids] obtain t where t: "tn_children self = [(?c, t)]" by blast
  from get_or_load_ok [OF kids healthy c] sub obtain cs m where
    m: "get_or_load_child E db self p ?c = (set_children cs self, Ok m)" "kids E (db_view db) p cs {k}"
      "trie_rep E (db_view db) (p @ [?c]) m {k}" by auto
  have key: "tn_key m = Some k"
    using m(3) by (cases rule: trie_rep_cases) (use deep in \<open>auto simp: branching_def\<close>)
  from kids_single [OF m(2)] obtain t' where t': "cs = [(?c, t')]" by blast
  have "set_children (hm_remove ?c cs) (set_key (tn_key m) (set_children cs self)) = set_children [] (set_key (Some k) self)"
    by (simp add: key t' set_children_def set_key_def)
  then show ?thesis
    using items deep m(1) key t by (simp add: compact_node_def)
qed

lemma delete_finish_ok:
  assumes healthy: "db_healthy db" and kids: "kids E (db_view db) p (tn_children self) S"
    and items: "tn_items self = card S + n" and key: "tn_key self = None \<or> tn_key self = Some []"
    and n: "0 < n" and p: "under p S"
  shows "\<exists>self' txn'. delete_finish E db p (length p) results n self txn = ((self', txn'), Ok results) \<and>
    del_post E (db_view db) p S self'"
proof -
  let ?g = "db_view db" and ?self = "set_items (card S) self"
  have fin: "finite S" using p by (simp add: under_def)
  consider "S = {}" | "S \<noteq> {}" "TIMESTAMP_LENGTH \<le> length p" "card S = 1"
    | "S \<noteq> {}" "\<not> (TIMESTAMP_LENGTH \<le> length p \<and> card S = 1)" by blast
  then show ?thesis
  proof cases
    case 1
    with kids kids_Nil have "tn_children self = []" by blast
    with 1 items n key show ?thesis
      by (auto simp: delete_finish_def Let_def update_hash_leaf is_leaf_def del_post_def merkle_empty key_or_empty_def)
  next
    case 2
    then obtain k where k: "S = {k}" by (meson card_1_singletonE)
    with kids compact_node_ok [of E db p ?self k txn] healthy 2
    have co: "compact_node E db p (length p) ?self txn =
      ((set_children [] (set_key (Some k) ?self),
        delete_to_txn txn (make_primary_key p (Some (k ! length p)))), Ok ())" by simp
    have "single p k" using 2 p k by (simp add: single_def)
    from rep_leaf [OF this, of E ?g] have "del_post E ?g p S (set_hash (blake3_20 (env_blake3 E) k) (set_children [] (set_key (Some k) ?self)))"
      using k 2 by (simp add: del_post_def set_hash_def set_children_def set_key_def set_items_def merkle_leaf)
    with co items n k show ?thesis
      by (auto simp: delete_finish_def Let_def update_hash_leaf is_leaf_def key_or_empty_def)
  next
    case 3
    have "inner p S" using 3 kidsD(1,2) [OF kids] by (simp add: inner_def)
    moreover have "2 \<le> card S" if "TIMESTAMP_LENGTH \<le> length p"
      using that 3 fin by (cases "card S") auto
    ultimately have branch: "branching p S" by (simp add: branching_def)
    have co: "compact_node E db p (length p) ?self txn = ((?self, txn), Ok ())"
      using 3 by (auto simp: compact_node_def)
    from update_hash_ok [OF _ healthy 3(1), of E p ?self] kids obtain cs where
      uh: "update_hash E db p ?self = (set_hash (node_hash E (length p) S) (set_children cs ?self), Ok ())"
        "kids E ?g p cs S" by auto
    have mk: "node_hash E (length p) S = merkle E (length p) S"
      using fin 3 by (subst merkle_node) auto
    have "trie_rep E ?g p (set_hash (node_hash E (length p) S) (set_children cs ?self)) S"
      using rep_node_kids [OF uh(2) branch key mk refl] by (simp add: set_hash_def set_children_def set_items_def)
    with 3 co uh(1) items n fin show ?thesis
      by (simp add: delete_finish_def Let_def del_post_def)
  qed
qed

lemma delete_leaf_ok:
  assumes k: "single p k" and self: "self = TrieNode (merkle E (length p) {k}) 1 [] (Some k)"
    and keys: "distinct keys"
  shows "\<exists>self' txn'. delete_leaf E db keys p (map (\<lambda>_. False) keys) self txn =
      ((self', txn'), Ok (map (\<lambda>x. x \<in> {k}) keys)) \<and> del_post E g p ({k} - set keys) self'"
proof (cases "List.find (\<lambda>(i, key). bytes_compare (key_or_empty self) key = 0) (enumerate 0 keys)")
  case None
  then have "\<forall>x \<in> set (enumerate 0 keys). snd x \<noteq> k"
    unfolding find_None_iff self key_or_empty_def by auto
  then have "k \<notin> set keys" using enumerate_keys [of keys] by (metis imageE)
  moreover from this have "{k} - set keys = {k}" by blast
  ultimately show ?thesis using None rep_leaf [OF k, of E g] self
    by (auto simp: delete_leaf_def del_post_def)
next
  case (Some x)
  obtain i key where x: "x = (i, key)" by (cases x)
  from Some obtain j where "j < length keys" "keys ! j = k" "x = (j, keys ! j)"
    unfolding find_Some_iff by (auto simp: nth_enumerate_eq self key_or_empty_def)
  with x have i: "i < length keys" "keys ! i = k" by simp_all
  have "(map (\<lambda>_. False) keys)[i := True] = map (\<lambda>x. x \<in> {k}) keys"
    by (rule nth_equalityI) (use i keys in \<open>auto simp: nth_list_update nth_eq_iff_index_eq\<close>)
  moreover have "k \<in> set keys" using i by auto
  ultimately show ?thesis
    using Some x self
    by (auto simp: delete_leaf_def Let_def update_hash_leaf is_leaf_def del_post_def merkle_empty key_or_empty_def)
qed

lemma delete_inner_ok:
  assumes del: "del_ok M E db p del" and healthy: "db_healthy db" and env: "env_ok E"
    and rep: "trie_rep E (db_view db) p self S" and nl: "\<not> is_leaf self"
    and keys: "keys \<noteq> []" "distinct keys" "under p (set keys)" "keys_le M (S \<union> set keys)"
  shows "\<exists>self' txn'. delete_body del E db keys (length p) self txn =
      ((self', txn'), Ok (map (\<lambda>k. k \<in> S) keys)) \<and> del_post E (db_view db) p (S - set keys) self'"
proof -
  let ?g = "db_view db" and ?rem = "enumerate 0 keys" and ?res = "map (\<lambda>_. False) keys"
  let ?gs = "hash_map_iter E (group_keys (length p) ?rem)"
  from rep nl have node: "branching p S" "kids E ?g p (tn_children self) S"
    "tn_key self = None \<or> tn_key self = Some []" "tn_items self = card S"
    by (cases rule: trie_rep_cases; simp add: is_leaf_def)+
  have ne: "S \<noteq> {}" using node(1) by (simp add: branching_def inner_def)
  have long: "\<forall>k \<in> set keys. length p < length k"
    using inner_longer [OF node(1) ne keys(3,4)] by blast
  have gs: "groups_of (length p) ?rem ?gs" by (rule groups_of_iter [OF env])
  have gk: "groups_keys ?gs = set keys" using groups_of_keys [OF gs] by (simp add: enumerate_keys)
  have dist: "distinct (map fst ?rem)" "distinct (map snd ?rem)" using keys(2) by simp_all
  have "under p (snd ` set ?rem)" "\<forall>k \<in> snd ` set ?rem. length p < length k"
    using keys(3) long by (simp_all add: enumerate_keys)
  note ok = groups_of_ok [OF gs dist(2) this]
  from delete_groups_ok [OF del healthy node(2) _ ok, of ?res 0 txn] gs gk keys(4)
  obtain cs txn1 n where loop: "delete_groups del E db p (length p) ?gs ?res 0 self txn =
        ((set_children cs self, txn1),
         Ok (fold (\<lambda>(c, ixs, ks) rs. record_results ixs (map (\<lambda>k. k \<in> S) ks) rs) ?gs ?res, n))"
      "card S = card (S - set keys) + n" "kids E ?g p cs (S - set keys)"
    by (auto simp: groups_of_def)
  have "results_ok ?res ?rem (- S)
      (fold (\<lambda>(c, ixs, ks) rs. record_results ixs (map (\<lambda>k. k \<notin> - S) ks) rs) ?gs ?res)"
    by (rule fold_record_ok [OF dist(1) gs])
  from results_ok_eq [OF this, of keys "\<lambda>k. k \<in> S"]
  have res: "fold (\<lambda>(c, ixs, ks) rs. record_results ixs (map (\<lambda>k. k \<in> S) ks) rs) ?gs ?res = map (\<lambda>k. k \<in> S) keys"
    by (simp add: map_of_enumerate)
  have body: "delete_body del E db keys (length p) self txn =
      delete_finish E db p (length p) (map (\<lambda>k. k \<in> S) keys) n (set_children cs self) txn1"
    using keys(1) hd_take_under [OF keys(1,3)] nl long loop(1) res by (auto simp: delete_body_def Let_def)
  show ?thesis
  proof (cases "n = 0")
    case True
    then have "S - set keys = S"
      using loop(2) node(2) kidsD(1) by (metis Diff_subset add.right_neutral card_subset_eq under_def)
    moreover have "trie_rep E ?g p (set_children cs self) S"
      using rep_node_kids [OF loop(3) [unfolded calculation] node(1,3) trie_rep_hash [OF rep] node(4)]
      by (simp add: set_children_def)
    ultimately show ?thesis using True body ne by (simp add: delete_finish_def del_post_def)
  next
    case False
    have "under p (S - set keys)" using kidsD(1) [OF loop(3)] .
    with delete_finish_ok [OF healthy, of E p "set_children cs self" "S - set keys" n] False loop(2,3) node(3,4) body
    show ?thesis by simp
  qed
qed

lemma delete_node_le:
  fixes txn :: txn_batch
  assumes healthy: "db_healthy db" and env: "env_ok E"
  shows "M - length p = n \<Longrightarrow> trie_rep E (db_view db) p self S \<Longrightarrow> keys \<noteq> [] \<Longrightarrow> distinct keys \<Longrightarrow>
    under p (set keys) \<Longrightarrow> keys_le M (S \<union> set keys) \<Longrightarrow>
    \<exists>self' txn'. delete_node E db keys (length p) self txn =
        ((self', txn'), Ok (map (\<lambda>k. k \<in> S) keys)) \<and> del_post E (db_view db) p (S - set keys) self'"
proof (induction n arbitrary: p self S keys txn rule: less_induct)
  case (less n)
  show ?case
  proof (cases "is_leaf self")
    case True
    from less.prems(2) True obtain k where k: "single p k" "S = {k}" "self = TrieNode (merkle E (length p) {k}) 1 [] (Some k)"
      by (cases rule: trie_rep_cases) (auto simp: is_leaf_def)
    from delete_leaf_ok [OF k(1,3) less.prems(4), of db txn "db_view db"] True k(2) less.prems(3)
      hd_take_under [OF less.prems(3,5)]
    show ?thesis by (subst delete_node.simps) (auto simp: delete_body_def Let_def)
  next
    case False
    have "del_ok M E db p (delete_node E db)"
      unfolding del_ok_def
    proof (intro allI impI)
      fix c ks child T and txn :: txn_batch
      assume a: "ks \<noteq> []" "distinct ks" "under (p @ [c]) (set ks)" "keys_le M (T \<union> set ks)"
        "trie_rep E (db_view db) (p @ [c]) child T"
      from a(1) obtain k where "k \<in> set ks" by (meson hd_in_set)
      with a(3,4) have "Suc (length p) \<le> length k" "length k \<le> M" by (auto simp: under_def keys_le_def)
      with less.IH [of "M - length (p @ [c])" "p @ [c]" child T ks txn] less.prems(1) a
      show "\<exists>child' txn'. delete_node E db ks (Suc (length p)) child txn =
          ((child', txn'), Ok (map (\<lambda>k. k \<in> T) ks)) \<and> del_post E (db_view db) (p @ [c]) (T - set ks) child'"
        by simp
    qed
    from delete_inner_ok [OF this healthy env less.prems(2) False less.prems(3-6)]
    show ?thesis by (subst delete_node.simps)
  qed
qed

text \<open>Deletion reports exactly the keys that were there, and leaves the others.\<close>

lemma delete_node_ok:
  assumes "db_healthy db" "env_ok E" "trie_rep E (db_view db) p self S" "keys \<noteq> []" "distinct keys"
    "under p (set keys)" "keys_ok (S \<union> set keys)"
  shows "\<exists>self' txn'. delete_node E db keys (length p) self txn =
        ((self', txn'), Ok (map (\<lambda>k. k \<in> S) keys)) \<and> del_post E (db_view db) p (S - set keys) self'"
proof -
  have "finite S" using trie_rep_under [OF assms(3)] by (simp add: under_def)
  then have fin: "finite (S \<union> set keys)" by simp
  define M where "M = Max (length ` (S \<union> set keys))"
  have "keys_le M (S \<union> set keys)"
    using assms(7) fin unfolding keys_le_def M_def by (metis Max_ge finite_imageI imageI)
  from delete_node_le [OF assms(1,2) refl assms(3-6) this] show ?thesis .
qed

section \<open>Enumeration\<close>

lemma sub_keys_less:
  assumes "under p S" "k \<in> sub_keys (length p) c S" "k' \<in> sub_keys (length p) c' S" "c < c'"
  shows "k < k'"
proof -
  have split: "x = p @ (x ! length p) # drop (Suc (length p)) x"
    if "x \<in> S" "length p < length x" for x
    using assms(1) that by (metis append_take_drop_id Cons_nth_drop_Suc under_def)
  have k: "k = p @ c # drop (Suc (length p)) k" "k' = p @ c' # drop (Suc (length p)) k'"
    using split [of k] split [of k'] assms(2,3) by (auto simp: sub_keys_def)
  show ?thesis
    by (subst k(1), subst k(2)) (simp add: list_less_append assms(4))
qed

lemma concat_sub_keys_sorted:
  assumes "under p S"
  shows "sorted_wrt (<) cs \<Longrightarrow>
    sorted_wrt (<) (concat (map (\<lambda>c. sorted_list_of_set (sub_keys (length p) c S)) cs))"
proof (induction cs)
  case (Cons c cs)
  have fin: "finite (sub_keys (length p) x S)" for x using assms by (simp add: under_def)
  have "k < k'" if "k \<in> sub_keys (length p) c S" "c' \<in> set cs" "k' \<in> sub_keys (length p) c' S" for k k' c'
    using sub_keys_less [OF assms that(1,3)] Cons.prems that(2) by simp
  with Cons fin show ?case by (auto simp: sorted_wrt_append)
qed simp

lemma concat_sub_keys:
  assumes "under p S" "\<forall>k \<in> S. length p < length k"
  shows "concat (map (\<lambda>c. sorted_list_of_set (sub_keys (length p) c S))
      (sorted_list_of_set (next_chars (length p) S))) = sorted_list_of_set S" (is "?xs = _")
proof -
  have "sorted_wrt (<) ?xs" by (rule concat_sub_keys_sorted [OF assms(1)]) simp
  then have "sorted_list_of_set (set ?xs) = ?xs"
    unfolding strict_sorted_iff by (intro sorted_list_of_set.idem_if_sorted_distinct) blast+
  moreover have "set ?xs = S"
  proof -
    have "finite (sub_keys (length p) x S)" for x using assms by (simp add: under_def)
    then show ?thesis using assms(2) by (auto simp: sub_keys_def next_chars_def)
  qed
  ultimately show ?thesis by simp
qed

lemma values_loop_ok:
  assumes healthy: "db_healthy db"
    and rec: "\<And>c m. c \<in> next_chars (length p) S \<Longrightarrow>
      trie_rep E (db_view db) (p @ [c]) m (sub_keys (length p) c S) \<Longrightarrow>
      \<exists>m'. rec (p @ [c]) m = (m', Some (Ok (sorted_list_of_set (sub_keys (length p) c S)))) \<and>
        trie_rep E (db_view db) (p @ [c]) m' (sub_keys (length p) c S)"
  shows "kids E (db_view db) p (tn_children self) S \<Longrightarrow> set cs \<subseteq> next_chars (length p) S \<Longrightarrow>
    length values + length (concat (map (\<lambda>c. sorted_list_of_set (sub_keys (length p) c S)) cs))
      \<le> MAX_VALUES_RETURNED_PER_CALL \<Longrightarrow>
    \<exists>cs'. values_loop rec E db p cs values self =
        (set_children cs' self,
         Some (Ok (values @ concat (map (\<lambda>c. sorted_list_of_set (sub_keys (length p) c S)) cs)))) \<and>
      kids E (db_view db) p cs' S"
proof (induction cs arbitrary: "values" self)
  case Nil
  then show ?case by (intro exI [of _ "tn_children self"]) simp
next
  case (Cons c cs)
  let ?g = "db_view db" and ?vs = "sorted_list_of_set (sub_keys (length p) c S)"
  have c: "c \<in> next_chars (length p) S" using Cons.prems(2) by simp
  from get_or_load_ok [OF Cons.prems(1) healthy c] obtain cs0 m where
    m: "get_or_load_child E db self p c = (set_children cs0 self, Ok m)" "kids E ?g p cs0 S"
      "trie_rep E ?g (p @ [c]) m (sub_keys (length p) c S)" by blast
  from rec [OF c m(3)] obtain m' where m': "rec (p @ [c]) m = (m', Some (Ok ?vs))"
    "trie_rep E ?g (p @ [c]) m' (sub_keys (length p) c S)" by blast
  have kids: "kids E ?g p (hm_insert c (Node m') cs0) S"
    using kids_insert [OF m(2) m'(2)] replace_keys_self [OF kidsD(2) [OF m(2)]] by simp
  have "\<exists>cs'. values_loop rec E db p cs (values @ ?vs) (set_children (hm_insert c (Node m') cs0) self) =
        (set_children cs' (set_children (hm_insert c (Node m') cs0) self),
         Some (Ok ((values @ ?vs) @ concat (map (\<lambda>c. sorted_list_of_set (sub_keys (length p) c S)) cs)))) \<and>
      kids E ?g p cs' S"
    using kids Cons.prems(2,3) by (intro Cons.IH) auto
  moreover have "length (values @ ?vs) \<le> MAX_VALUES_RETURNED_PER_CALL" using Cons.prems(3) by simp
  ultimately show ?case using m(1) m'(1) by (simp add: not_less)
qed

text \<open>
  As long as the set fits into one answer, \<open>get_all_values\<close> lists it in order; the fuel that is
  enough is the depth of the longest key.
\<close>

lemma get_all_values_ok:
  assumes healthy: "db_healthy db"
  shows "trie_rep E (db_view db) p self S \<Longrightarrow> card S \<le> MAX_VALUES_RETURNED_PER_CALL \<Longrightarrow>
    (\<forall>k \<in> S. length k < length p + fuel) \<Longrightarrow>
    \<exists>self'. get_all_values fuel E db p self = (self', Some (Ok (sorted_list_of_set S))) \<and>
      trie_rep E (db_view db) p self' S"
proof (induction fuel arbitrary: p self S)
  case 0
  then show ?case using trie_rep_under [OF 0(1)] by (force simp: under_def)
next
  case (Suc fuel)
  let ?g = "db_view db" and ?chars = "sorted_list_of_set (next_chars (length p) S)"
  from Suc.prems(1) show ?case
  proof (cases rule: trie_rep_cases)
    case (leaf k)
    with Suc.prems(1) show ?thesis
      by (intro exI [of _ self]) (simp add: is_leaf_def key_or_empty_def)
  next
    case node
    note kids = node(2)
    have fin: "finite S" using kidsD(1) [OF kids] by (simp add: under_def)
    have sub: "card (sub_keys (length p) c S) \<le> MAX_VALUES_RETURNED_PER_CALL" for c
      using card_mono [OF fin sub_keys_subset, of "length p" c] Suc.prems(2) by simp
    have rec: "\<exists>m'. get_all_values fuel E db (p @ [c]) m =
        (m', Some (Ok (sorted_list_of_set (sub_keys (length p) c S)))) \<and>
        trie_rep E ?g (p @ [c]) m' (sub_keys (length p) c S)"
      if "trie_rep E ?g (p @ [c]) m (sub_keys (length p) c S)" for c m
      using that Suc.prems(3) sub by (intro Suc.IH) (auto simp: sub_keys_def)
    note all = concat_sub_keys [OF kidsD(1,2) [OF kids]]
    have "\<exists>cs'. values_loop (get_all_values fuel E db) E db p ?chars [] self =
        (set_children cs' self, Some (Ok (sorted_list_of_set S))) \<and> kids E ?g p cs' S"
      using values_loop_ok [OF healthy, of p S E "get_all_values fuel E db" self ?chars "[]", unfolded all]
        rec kids Suc.prems(2) fin by simp
    then obtain cs' where v: "values_loop (get_all_values fuel E db) E db p ?chars [] self =
        (set_children cs' self, Some (Ok (sorted_list_of_set S)))" "kids E ?g p cs' S" by blast
    have "sort (map fst (tn_children self)) = ?chars"
      using kidsD(3,4) [OF kids] sorted_list_of_set_sort_remdups [of "map fst (tn_children self)"]
      by (simp add: distinct_remdups_id)
    moreover have "trie_rep E ?g p (set_children cs' self) S"
      using rep_node_kids [OF v(2) node(1,4,5,6)] by (simp add: set_children_def)
    ultimately show ?thesis using v(1) node(3) by (simp add: is_leaf_def)
  qed
qed

end
