(* ===== verification/Merkle_Trie.thy ===== *)
theory Merkle_Trie
  imports Trie_Delete
begin

text \<open>
  The Merkle trie of \<open>src/storage/trie/merkle_trie.rs\<close>: a root node, a pending write batch, and
  the operations the shard engine calls.  The database is an \<open>Arc\<close> shared with the engine and the
  stores, so it is an argument of every operation, and a result where the operation writes it; the
  locks around the root and the batch are taken and released within one operation.

  The theory ends with the contract of an authenticated set and its interpretation on the trie.
\<close>

section \<open>State\<close>

record merkle_trie =
  mt_root :: "trie_node option"
  mt_db_owned :: bool
  mt_txn_batch :: txn_batch

definition TRIE_DBPATH_PREFIX :: string where
  "TRIE_DBPATH_PREFIX = ''trieDb''"

definition TRIE_UNLOAD_THRESHOLD :: nat where
  "TRIE_UNLOAD_THRESHOLD = 10000"

datatype node_metadata =
  NodeMetadata (nm_prefix: bytes) (nm_num_messages: nat) (nm_hash: string)
    (nm_children: "(u8 \<times> node_metadata) list")

section \<open>Operations\<close>

text \<open>\<open>Path::join\<close>: an absolute second part would replace the first; the constant is relative.\<close>

definition merkle_trie_new :: "string \<Rightarrow> rocksdb \<times> merkle_trie" where
  "merkle_trie_new main_db_path =
     (rocksdb_new (main_db_path @ ''/'' @ TRIE_DBPATH_PREFIX),
      \<lparr>mt_root = None, mt_db_owned = True, mt_txn_batch = txn_new\<rparr>)"

definition merkle_trie_new_with_db :: merkle_trie where
  "merkle_trie_new_with_db = \<lparr>mt_root = None, mt_db_owned = False, mt_txn_batch = txn_new\<rparr>"

definition create_empty_root :: "trie_env \<Rightarrow> merkle_trie \<Rightarrow> merkle_trie" where
  "create_empty_root E self =
     self\<lparr>mt_txn_batch := txn_put (mt_txn_batch self) (make_primary_key [] None)
                           (trie_node_serialize E trie_node_new),
          mt_root := Some trie_node_new\<rparr>"

definition load_root :: "trie_env \<Rightarrow> rocksdb \<Rightarrow> (hub_error, trie_node option) result" where
  "load_root E db =
     (case rocksdb_get db (make_primary_key [] None) of
        Err e \<Rightarrow> Err (hub_error_from_rocksdb e)
      | Panic m \<Rightarrow> Panic m
      | Ok None \<Rightarrow> Ok None
      | Ok (Some root_bytes) \<Rightarrow>
          bind_result (trie_node_deserialize E root_bytes) (\<lambda>n. Ok (Some n)))"

definition merkle_trie_initialize ::
  "trie_env \<Rightarrow> (string \<Rightarrow> (string, transaction_db) result) \<Rightarrow> rocksdb \<Rightarrow> merkle_trie \<Rightarrow>
     (rocksdb \<times> merkle_trie) \<times> (hub_error, unit) result" where
  "merkle_trie_initialize E open_fn db self =
     (case (if mt_db_owned self then rocksdb_open open_fn db else (db, Ok ())) of
        (db', Err e) \<Rightarrow> ((db', self), Err (hub_error_from_rocksdb e))
      | (db', Panic m) \<Rightarrow> ((db', self), Panic m)
      | (db', Ok _) \<Rightarrow>
          (case load_root E db' of
             Err e \<Rightarrow> ((db', self), Err e)
           | Panic m \<Rightarrow> ((db', self), Panic m)
           | Ok (Some root_node) \<Rightarrow> ((db', self\<lparr>mt_root := Some root_node\<rparr>), Ok ())
           | Ok None \<Rightarrow> ((db', create_empty_root E self), Ok ())))"

definition merkle_trie_clear ::
  "trie_env \<Rightarrow> rocksdb \<Rightarrow> merkle_trie \<Rightarrow> (rocksdb \<times> merkle_trie) \<times> (hub_error, unit) result option" where
  "merkle_trie_clear E db self =
     (let self1 = self\<lparr>mt_txn_batch := []\<rparr> in
      case rocksdb_clear db of
        (db', None) \<Rightarrow> ((db', self1), None)
      | (db', Some (Err e)) \<Rightarrow> ((db', self1), Some (Err (hub_error_from_rocksdb e)))
      | (db', Some (Panic m)) \<Rightarrow> ((db', self1), Some (Panic m))
      | (db', Some (Ok _)) \<Rightarrow> ((db', create_empty_root E self1), Some (Ok ())))"

definition merkle_trie_stop :: "rocksdb \<Rightarrow> merkle_trie \<Rightarrow> rocksdb" where
  "merkle_trie_stop db self = (if mt_db_owned self then rocksdb_close db else db)"

definition unload_from_memory ::
  "rocksdb \<Rightarrow> trie_node \<Rightarrow> bool \<Rightarrow> merkle_trie \<Rightarrow> (rocksdb \<times> merkle_trie) \<times> (hub_error, unit) result" where
  "unload_from_memory db root force self =
     (if force \<or> txn_len (mt_txn_batch self) > TRIE_UNLOAD_THRESHOLD then
        (let self1 = self\<lparr>mt_txn_batch := txn_new\<rparr> in
         case rocksdb_commit db (mt_txn_batch self) of
           (db', Err e) \<Rightarrow> ((db', self1), Err (hub_error_from_rocksdb e))
         | (db', Panic m) \<Rightarrow> ((db', self1), Panic m)
         | (db', Ok _) \<Rightarrow> ((db', self1\<lparr>mt_root := Some (unload_children root)\<rparr>), Ok ()))
      else ((db, self), Ok ()))"

definition merkle_trie_commit ::
  "rocksdb \<Rightarrow> merkle_trie \<Rightarrow> (rocksdb \<times> merkle_trie) \<times> (hub_error, unit) result" where
  "merkle_trie_commit db self =
     (case mt_root self of
        Some root \<Rightarrow> unload_from_memory db root True self
      | None \<Rightarrow> ((db, self), Panic ''commit''))"

definition merkle_trie_reload ::
  "trie_env \<Rightarrow> rocksdb \<Rightarrow> merkle_trie \<Rightarrow> merkle_trie \<times> (hub_error, unit) result" where
  "merkle_trie_reload E db self =
     (case load_root E db of
        Err e \<Rightarrow> (self, Err e)
      | Panic m \<Rightarrow> (self, Panic m)
      | Ok (Some replacement_root) \<Rightarrow>
          (self\<lparr>mt_root := Some replacement_root, mt_txn_batch := txn_new\<rparr>, Ok ())
      | Ok None \<Rightarrow> (self, Err (hub_err ''bad_request.internal_error'' ''unable to reload root'')))"

definition not_initialized :: "string \<Rightarrow> hub_error" where
  "not_initialized op =
     hub_err ''bad_request.internal_error'' (''Merkle Trie not initialized for '' @ op)"

definition key_too_short :: hub_error where
  "key_too_short = hub_err ''bad_request.invalid_param'' ''Key length is too short''"

definition merkle_trie_insert ::
  "trie_env \<Rightarrow> rocksdb \<Rightarrow> bytes list \<Rightarrow> merkle_trie \<Rightarrow> merkle_trie \<times> (hub_error, bool list) result" where
  "merkle_trie_insert E db keys self =
     (if keys = [] then (self, Ok [])
      else if \<exists>k \<in> set keys. length k < TIMESTAMP_LENGTH then (self, Err key_too_short)
      else
        (case mt_root self of
           None \<Rightarrow> (self, Err (not_initialized ''insert''))
         | Some root \<Rightarrow>
             (case insert_node E db keys 0 root txn_new of
                ((root', txn), Ok results) \<Rightarrow>
                  (self\<lparr>mt_root := Some root', mt_txn_batch := txn_merge (mt_txn_batch self) txn\<rparr>, Ok results)
              | ((root', txn), Err e) \<Rightarrow> (self\<lparr>mt_root := Some root'\<rparr>, Err e)
              | ((root', txn), Panic m) \<Rightarrow> (self\<lparr>mt_root := Some root'\<rparr>, Panic m))))"

definition merkle_trie_delete ::
  "trie_env \<Rightarrow> rocksdb \<Rightarrow> bytes list \<Rightarrow> merkle_trie \<Rightarrow> merkle_trie \<times> (hub_error, bool list) result" where
  "merkle_trie_delete E db keys self =
     (if keys = [] then (self, Ok [])
      else if \<exists>k \<in> set keys. length k < TIMESTAMP_LENGTH then (self, Err key_too_short)
      else
        (case mt_root self of
           None \<Rightarrow> (self, Err (not_initialized ''delete''))
         | Some root \<Rightarrow>
             (case delete_node E db keys 0 root txn_new of
                ((root', txn), Ok results) \<Rightarrow>
                  (self\<lparr>mt_root := Some root', mt_txn_batch := txn_merge (mt_txn_batch self) txn\<rparr>, Ok results)
              | ((root', txn), Err e) \<Rightarrow> (self\<lparr>mt_root := Some root'\<rparr>, Err e)
              | ((root', txn), Panic m) \<Rightarrow> (self\<lparr>mt_root := Some root'\<rparr>, Panic m))))"

definition merkle_trie_exists ::
  "trie_env \<Rightarrow> rocksdb \<Rightarrow> bytes \<Rightarrow> merkle_trie \<Rightarrow> merkle_trie \<times> (hub_error, bool) result" where
  "merkle_trie_exists E db key self =
     (case mt_root self of
        None \<Rightarrow> (self, Err (not_initialized ''exists''))
      | Some root \<Rightarrow>
          (case exists_node E db key 0 root of (root', r) \<Rightarrow> (self\<lparr>mt_root := Some root'\<rparr>, r)))"

definition merkle_trie_items :: "merkle_trie \<Rightarrow> (hub_error, nat) result" where
  "merkle_trie_items self =
     (case mt_root self of
        None \<Rightarrow> Err (not_initialized ''items'')
      | Some root \<Rightarrow> Ok (tn_items root))"

definition merkle_trie_root_hash :: "merkle_trie \<Rightarrow> (hub_error, bytes) result" where
  "merkle_trie_root_hash self =
     (case mt_root self of
        None \<Rightarrow> Err (not_initialized ''root_hash'')
      | Some root \<Rightarrow> Ok (tn_hash root))"

text \<open>\<open>get_node\<close> looks into the pending batch first; a panic of a closed database passes through.\<close>

definition merkle_trie_get_node ::
  "trie_env \<Rightarrow> rocksdb \<Rightarrow> bytes \<Rightarrow> merkle_trie \<Rightarrow> (hub_error, trie_node option) result" where
  "merkle_trie_get_node E db pfx self =
     (let node_key = make_primary_key pfx None;
          from_db = (case rocksdb_get db node_key of
                       Ok (Some b) \<Rightarrow>
                         (case trie_node_deserialize E b of
                            Ok node \<Rightarrow> Ok (Some node) | Err _ \<Rightarrow> Ok None | Panic m \<Rightarrow> Panic m)
                     | Ok None \<Rightarrow> Ok None
                     | Err _ \<Rightarrow> Ok None
                     | Panic m \<Rightarrow> Panic m)
      in case hm_get (mt_txn_batch self) node_key of
           Some (Some b) \<Rightarrow>
             (case trie_node_deserialize E b of
                Ok node \<Rightarrow> Ok (Some node) | Err _ \<Rightarrow> from_db | Panic m \<Rightarrow> Panic m)
         | _ \<Rightarrow> from_db)"

definition merkle_trie_get_all_values ::
  "nat \<Rightarrow> trie_env \<Rightarrow> rocksdb \<Rightarrow> bytes \<Rightarrow> merkle_trie \<Rightarrow>
     merkle_trie \<times> (hub_error, bytes list) result option" where
  "merkle_trie_get_all_values fuel E db pfx self =
     (case mt_root self of
        None \<Rightarrow> (self, Some (Err (not_initialized ''get_all_values'')))
      | Some root \<Rightarrow>
          (case with_node_from_trie E db pfx 0 (get_all_values fuel E db pfx) root of
             (root', r) \<Rightarrow>
               (self\<lparr>mt_root := Some root'\<rparr>,
                case r of Ok (Some v) \<Rightarrow> v | Ok None \<Rightarrow> Some (Ok []) | Err e \<Rightarrow> Some (Err e)
                        | Panic m \<Rightarrow> Some (Panic m))))"

definition merkle_trie_get_snapshot ::
  "trie_env \<Rightarrow> rocksdb \<Rightarrow> bytes \<Rightarrow> merkle_trie \<Rightarrow> merkle_trie \<times> (hub_error, trie_snapshot) result" where
  "merkle_trie_get_snapshot E db pfx self =
     (case mt_root self of
        None \<Rightarrow> (self, Err (not_initialized ''get_snapshot''))
      | Some root \<Rightarrow>
          (case get_snapshot_node E db pfx 0 root of (root', r) \<Rightarrow> (self\<lparr>mt_root := Some root'\<rparr>, r)))"

fun metadata_children ::
  "trie_env \<Rightarrow> rocksdb \<Rightarrow> bytes \<Rightarrow> u8 list \<Rightarrow> merkle_trie \<Rightarrow>
     (hub_error, (u8 \<times> node_metadata) list) result" where
  "metadata_children E db pfx [] self = Ok []"
| "metadata_children E db pfx (c # cs) self =
     bind_result (merkle_trie_get_node E db (pfx @ [c]) self)
       (\<lambda>child. case child of
          None \<Rightarrow> Err (hub_err ''bad_request.internal_error'' ''Child Node not found'')
        | Some n \<Rightarrow>
            bind_result (metadata_children E db pfx cs self)
              (\<lambda>rest. Ok ((c, NodeMetadata (pfx @ [c]) (tn_items n) (env_hex E (tn_hash n)) []) # rest)))"

definition get_trie_node_metadata ::
  "trie_env \<Rightarrow> rocksdb \<Rightarrow> bytes \<Rightarrow> merkle_trie \<Rightarrow> (hub_error, node_metadata) result" where
  "get_trie_node_metadata E db pfx self =
     bind_result (merkle_trie_get_node E db pfx self)
       (\<lambda>node. case node of
          None \<Rightarrow> Err (hub_err ''bad_request.invalid_param'' ''Node not found'')
        | Some n \<Rightarrow>
            bind_result (metadata_children E db pfx (map fst (tn_children n)) self)
              (\<lambda>children. Ok (NodeMetadata pfx (tn_items n) (env_hex E (tn_hash n)) children)))"

section \<open>What the trie holds\<close>

definition stored_root :: "trie_env \<Rightarrow> (bytes \<Rightarrow> bytes option) \<Rightarrow> bytes set \<Rightarrow> bool" where
  "stored_root E g S \<longleftrightarrow> stored E g [] S \<or>
     (S = {} \<and> (\<exists>b h. g (make_primary_key [] None) = Some b \<and>
        env_decode E b = Ok \<lparr>dtn_key = [], dtn_child_chars = [], dtn_items = 0, dtn_hash = h\<rparr>))"

text \<open>The trie in memory holds \<open>S\<close>, and so will the database once the pending batch is written.\<close>

definition mt_holds :: "trie_env \<Rightarrow> rocksdb \<Rightarrow> merkle_trie \<Rightarrow> bytes set \<Rightarrow> bool" where
  "mt_holds E db self S \<longleftrightarrow>
     (\<exists>root. mt_root self = Some root \<and> rep0 E (db_view db) [] root S) \<and>
     hm_wf (mt_txn_batch self) \<and> stored_root E (overlay (db_view db) (mt_txn_batch self)) S"

lemma stored_root_load:
  assumes "db_healthy db" "stored_root E (db_view db) S"
  shows "\<exists>n. load_root E db = Ok (Some n) \<and> rep0 E (db_view db) [] n S"
  using assms(2) unfolding stored_root_def
proof
  assume "stored E (db_view db) [] S"
  from stored_load [OF this] assms(1) show ?thesis by (auto simp: load_root_def rep0_def)
next
  assume "S = {} \<and> (\<exists>b h. db_view db (make_primary_key [] None) = Some b \<and>
        env_decode E b = Ok \<lparr>dtn_key = [], dtn_child_chars = [], dtn_items = 0, dtn_hash = h\<rparr>)"
  with assms(1) show ?thesis
    by (auto simp: load_root_def trie_node_deserialize_def rep0_def TIMESTAMP_LENGTH_def)
qed

lemma under_Nil [simp]: "under [] S \<longleftrightarrow> finite S"
  by (simp add: under_def)

lemma reload_ok:
  assumes "db_healthy db" "stored_root E (db_view db) S"
  shows "\<exists>self'. merkle_trie_reload E db self = (self', Ok ()) \<and> mt_holds E db self' S \<and>
    mt_db_owned self' = mt_db_owned self"
  using stored_root_load [OF assms] assms(2)
  by (auto simp: merkle_trie_reload_def mt_holds_def txn_new_def)

lemma keys_ok_long: "keys_ok (S \<union> K) \<Longrightarrow> \<not> (\<exists>k \<in> K. length k < TIMESTAMP_LENGTH)"
  unfolding keys_ok_def by (meson UnI2 not_less)

lemma insert_ok:
  assumes db: "db_healthy db" and env: "env_ok E" and holds: "mt_holds E db self S"
    and keys: "distinct keys" "keys_ok (S \<union> set keys)" "card (S \<union> set keys) < 2 ^ 32"
  shows "\<exists>self'. merkle_trie_insert E db keys self = (self', Ok (map (\<lambda>k. k \<notin> S) keys)) \<and>
    mt_holds E db self' (S \<union> set keys)"
proof (cases "keys = []")
  case False
  from holds obtain root where root: "mt_root self = Some root" "rep0 E (db_view db) [] root S"
    and wf: "hm_wf (mt_txn_batch self)" and st: "stored_root E (overlay (db_view db) (mt_txn_batch self)) S"
    by (auto simp: mt_holds_def)
  let ?B = "overlay (db_view db) (mt_txn_batch self)"
  from insert_node_ok [OF db env root(2) False keys(1) _ keys(2), of txn_new ?B] obtain root' txn where
    i: "insert_node E db keys 0 root txn_new = ((root', txn), Ok (map (\<lambda>k. k \<notin> S) keys))"
      "insert_post E (db_view db) ?B [] txn_new S (set keys) root' txn" by auto
  let ?self = "self\<lparr>mt_root := Some root', mt_txn_batch := txn_merge (mt_txn_batch self) txn\<rparr>"
  have "\<not> (\<exists>k \<in> set keys. length k < TIMESTAMP_LENGTH)" by (rule keys_ok_long [OF keys(2)])
  with i(1) root(1) False have
    ins: "merkle_trie_insert E db keys self = (?self, Ok (map (\<lambda>k. k \<notin> S) keys))"
    by (simp add: merkle_trie_insert_def)
  have "S = {} \<or> stored E (overlay ?B txn_new) [] S" using st by (auto simp: stored_root_def)
  with i(2) keys(3) have "trie_rep E (db_view db) [] root' (S \<union> set keys)" "hm_wf txn"
    "stored E (overlay ?B txn) [] (S \<union> set keys)"
    unfolding insert_post_def by blast+
  then have "mt_holds E db ?self (S \<union> set keys)"
    using wf by (simp add: mt_holds_def rep0_def hm_wf_merge overlay_merge stored_root_def)
  with ins show ?thesis by blast
qed (use holds in \<open>simp add: merkle_trie_insert_def\<close>)

lemma commit_ok:
  assumes db: "db_healthy db" and holds: "mt_holds E db self S"
  shows "\<exists>db' self'. merkle_trie_commit db self = ((db', self'), Ok ()) \<and> db_healthy db' \<and>
    stored_root E (db_view db') S \<and> db_view db' = overlay (db_view db) (mt_txn_batch self) \<and>
    mt_db_owned self' = mt_db_owned self"
proof -
  from holds obtain root where "mt_root self = Some root" "hm_wf (mt_txn_batch self)"
    "stored_root E (overlay (db_view db) (mt_txn_batch self)) S" by (auto simp: mt_holds_def)
  with rocksdb_commit_healthy [OF db, of "mt_txn_batch self"] show ?thesis
    by (auto simp: merkle_trie_commit_def unload_from_memory_def Let_def)
qed

lemma root_hash_ok: "mt_holds E db self S \<Longrightarrow> S \<noteq> {} \<Longrightarrow> merkle_trie_root_hash self = Ok (merkle E 0 S)"
  by (auto simp: mt_holds_def merkle_trie_root_hash_def rep0_def dest: trie_rep_hash)

lemma items_ok: "mt_holds E db self S \<Longrightarrow> merkle_trie_items self = Ok (card S)"
  by (auto simp: mt_holds_def merkle_trie_items_def rep0_def dest: trie_rep_items)

lemma exists_ok:
  assumes "db_healthy db" "mt_holds E db self S" "key \<noteq> []"
  shows "\<exists>self'. merkle_trie_exists E db key self = (self', Ok (key \<in> S)) \<and> mt_holds E db self' S"
proof -
  from assms(2) obtain root where root: "mt_root self = Some root" "rep0 E (db_view db) [] root S"
    by (auto simp: mt_holds_def)
  have "\<exists>root'. exists_node E db key 0 root = (root', Ok (key \<in> S)) \<and> rep0 E (db_view db) [] root' S"
  proof (cases "trie_rep E (db_view db) [] root S")
    case True
    from exists_node_ok [OF assms(1) this, of key] show ?thesis by (auto simp: rep0_def)
  next
    case False
    with root(2) assms(3) show ?thesis
      by (intro exI [of _ root]) (auto simp: rep0_def exists_node.simps is_leaf_def key_or_empty_def)
  qed
  with root(1) assms(2) show ?thesis by (auto simp: merkle_trie_exists_def mt_holds_def)
qed

lemma del_post_rep0: "del_post E g [] D n \<Longrightarrow> rep0 E g [] n D \<and> tn_hash n = merkle E 0 D"
  by (auto simp: del_post_def rep0_def TIMESTAMP_LENGTH_def split: if_splits dest: trie_rep_hash)

lemma delete_ok:
  assumes db: "db_healthy db" and env: "env_ok E" and root: "mt_root self = Some root"
    and rep: "rep0 E (db_view db) [] root S" and keys: "distinct keys" "keys_ok (S \<union> set keys)" "keys \<noteq> []"
  shows "\<exists>self' root'. merkle_trie_delete E db keys self = (self', Ok (map (\<lambda>k. k \<in> S) keys)) \<and>
    mt_root self' = Some root' \<and> rep0 E (db_view db) [] root' (S - set keys) \<and>
    (S \<noteq> {} \<longrightarrow> tn_hash root' = merkle E 0 (S - set keys))"
proof -
  have long: "\<not> (\<exists>k \<in> set keys. length k < TIMESTAMP_LENGTH)" by (rule keys_ok_long [OF keys(2)])
  have "\<exists>root' txn. delete_node E db keys 0 root txn_new = ((root', txn), Ok (map (\<lambda>k. k \<in> S) keys)) \<and>
      rep0 E (db_view db) [] root' (S - set keys) \<and> (S \<noteq> {} \<longrightarrow> tn_hash root' = merkle E 0 (S - set keys))"
  proof (cases "trie_rep E (db_view db) [] root S")
    case True
    from delete_node_ok [OF db env this keys(3,1) _ keys(2), of txn_new] obtain root' txn where
      d: "delete_node E db keys 0 root txn_new = ((root', txn), Ok (map (\<lambda>k. k \<in> S) keys))"
        "del_post E (db_view db) [] (S - set keys) root'" by auto
    with del_post_rep0 show ?thesis by blast
  next
    case False
    with rep have r: "S = {}" "tn_children root = []" "key_or_empty root = []"
      by (auto simp: rep0_def key_or_empty_def)
    have "[] \<notin> set keys" using long by (auto simp: TIMESTAMP_LENGTH_def)
    then have "List.find (\<lambda>(i, key). bytes_compare [] key = 0) (enumerate 0 keys) = None"
      using enumerate_keys [of keys] unfolding find_None_iff by force
    with r keys(3) rep show ?thesis
      by (subst delete_node.simps) (auto simp: delete_body_def is_leaf_def delete_leaf_def)
  qed
  with root long keys(3) show ?thesis by (auto simp: merkle_trie_delete_def)
qed

lemma initialize_ok:
  assumes "db_healthy db" "env_ok E" "\<not> mt_db_owned self" "mt_txn_batch self = txn_new"
    and db: "stored_root E (db_view db) S \<or> S = {} \<and> db_view db (make_primary_key [] None) = None"
  shows "\<exists>self'. merkle_trie_initialize E open_fn db self = ((db, self'), Ok ()) \<and> mt_holds E db self' S"
proof (cases "stored_root E (db_view db) S")
  case True
  with stored_root_load [OF assms(1) True] assms(3,4) show ?thesis
    by (auto simp: merkle_trie_initialize_def mt_holds_def txn_new_def)
next
  case False
  with db have n: "S = {}" "db_view db (make_primary_key [] None) = None" by auto
  then have "merkle_trie_initialize E open_fn db self = ((db, create_empty_root E self), Ok ())"
    using assms(1,3) by (simp add: merkle_trie_initialize_def load_root_def)
  moreover have "mt_holds E db (create_empty_root E self) {}"
    using assms(2,4) by (simp add: mt_holds_def create_empty_root_def stored_root_def trie_node_serialize_def
        env_okD(1) key_or_empty_def trie_node_new_def rep0_def)
  ultimately show ?thesis using n by blast
qed

section \<open>The contract of an authenticated set\<close>

text \<open>
  What the shard engine relies on: a set of keys with a hash, changed in memory, written by a
  commit and put back to the last written set by a reload.
\<close>

locale authenticated_set =
  fixes holds :: "'d \<Rightarrow> 't \<Rightarrow> bytes set \<Rightarrow> bool"
    and saved :: "'d \<Rightarrow> bytes set \<Rightarrow> bool"
    and allowed :: "bytes set \<Rightarrow> bool"
    and add :: "'d \<Rightarrow> bytes list \<Rightarrow> 't \<Rightarrow> 't \<times> ('e, bool list) result"
    and revert :: "'d \<Rightarrow> 't \<Rightarrow> 't \<times> ('e, unit) result"
    and flush :: "'d \<Rightarrow> 't \<Rightarrow> ('d \<times> 't) \<times> ('e, unit) result"
    and root :: "'t \<Rightarrow> ('e, bytes) result"
    and hash :: "bytes set \<Rightarrow> bytes"
  assumes add_ok: "holds d t S \<Longrightarrow> distinct ks \<Longrightarrow> allowed (S \<union> set ks) \<Longrightarrow>
      \<exists>t'. add d ks t = (t', Ok (map (\<lambda>k. k \<notin> S) ks)) \<and> holds d t' (S \<union> set ks)"
    and revert_ok: "saved d S \<Longrightarrow> \<exists>t'. revert d t = (t', Ok ()) \<and> holds d t' S"
    and flush_ok: "holds d t S \<Longrightarrow> \<exists>d' t'. flush d t = ((d', t'), Ok ()) \<and> saved d' S"
    and root_ok: "holds d t S \<Longrightarrow> S \<noteq> {} \<Longrightarrow> root t = Ok (hash S)"
begin

text \<open>A reload forgets what was added since the last commit.\<close>

lemma add_revert:
  assumes "holds d t S" "saved d P" "distinct ks" "allowed (S \<union> set ks)"
  shows "\<exists>t1 t2. add d ks t = (t1, Ok (map (\<lambda>k. k \<notin> S) ks)) \<and> revert d t1 = (t2, Ok ()) \<and> holds d t2 P"
  using add_ok [OF assms(1,3,4)] revert_ok [OF assms(2)] by blast

text \<open>A commit keeps the set across a reload.\<close>

lemma flush_revert:
  assumes "holds d t S"
  shows "\<exists>d' t1 t2. flush d t = ((d', t1), Ok ()) \<and> revert d' t1 = (t2, Ok ()) \<and> holds d' t2 S \<and> saved d' S"
  using flush_ok [OF assms] revert_ok by blast

text \<open>Two replicas with the same set agree on the root after the same keys, whatever their order.\<close>

lemma add_agree:
  assumes "holds d t S" "holds d' t' S" "distinct ks" "distinct ks'" "set ks = set ks'" "ks \<noteq> []"
    "allowed (S \<union> set ks)"
  shows "\<exists>t1 t1' h. add d ks t = (t1, Ok (map (\<lambda>k. k \<notin> S) ks)) \<and>
    add d' ks' t' = (t1', Ok (map (\<lambda>k. k \<notin> S) ks')) \<and> root t1 = Ok h \<and> root t1' = Ok h"
proof -
  have ne: "S \<union> set ks \<noteq> {}" using assms(6) by simp
  from add_ok [OF assms(1,3,7)] obtain t1 where
    t1: "add d ks t = (t1, Ok (map (\<lambda>k. k \<notin> S) ks))" "holds d t1 (S \<union> set ks)" by blast
  from add_ok [OF assms(2,4)] assms(5,7) obtain t1' where
    t1': "add d' ks' t' = (t1', Ok (map (\<lambda>k. k \<notin> S) ks'))" "holds d' t1' (S \<union> set ks)" by fastforce
  from t1 t1' root_ok [OF t1(2) ne] root_ok [OF t1'(2) ne] show ?thesis by blast
qed

end

definition trie_holds :: "trie_env \<Rightarrow> rocksdb \<Rightarrow> merkle_trie \<Rightarrow> bytes set \<Rightarrow> bool" where
  "trie_holds E db self S \<longleftrightarrow> env_ok E \<and> db_healthy db \<and> mt_holds E db self S"

definition trie_saved :: "trie_env \<Rightarrow> rocksdb \<Rightarrow> bytes set \<Rightarrow> bool" where
  "trie_saved E db S \<longleftrightarrow> env_ok E \<and> db_healthy db \<and> stored_root E (db_view db) S"

definition trie_allowed :: "bytes set \<Rightarrow> bool" where
  "trie_allowed U \<longleftrightarrow> keys_ok U \<and> card U < 2 ^ 32"

interpretation trie_set: authenticated_set "trie_holds E" "trie_saved E" trie_allowed
  "merkle_trie_insert E" "merkle_trie_reload E" merkle_trie_commit merkle_trie_root_hash "merkle E 0" for E
proof unfold_locales
  fix d t S ks
  assume "trie_holds E d t S" "distinct ks" "trie_allowed (S \<union> set ks)"
  then show "\<exists>t'. merkle_trie_insert E d ks t = (t', Ok (map (\<lambda>k. k \<notin> S) ks)) \<and> trie_holds E d t' (S \<union> set ks)"
    using insert_ok [of d E t S ks] by (auto simp: trie_holds_def trie_allowed_def)
next
  fix d t S
  assume "trie_saved E d S"
  then show "\<exists>t'. merkle_trie_reload E d t = (t', Ok ()) \<and> trie_holds E d t' S"
    using reload_ok [of d E S t] by (auto simp: trie_holds_def trie_saved_def)
next
  fix d t S
  assume "trie_holds E d t S"
  then show "\<exists>d' t'. merkle_trie_commit d t = ((d', t'), Ok ()) \<and> trie_saved E d' S"
    using commit_ok [of d E t S] by (auto simp: trie_holds_def trie_saved_def)
next
  fix d t S
  assume "trie_holds E d t S" "S \<noteq> {}"
  then show "merkle_trie_root_hash t = Ok (merkle E 0 S)"
    using root_hash_ok [of E d t S] by (auto simp: trie_holds_def)
qed

end
