(* ===== verification/Chain_Types.thy ===== *)
theory Chain_Types
  imports Proto_Types Rocks_Db "HOL-Library.Product_Lexorder" "HOL-Library.Option_ord"
    "HOL-Library.Char_ord"
begin

text \<open>
  The consensus types of \<open>src/core/types.rs\<close>: addresses, heights, votes, proposals and their
  protobuf forms, the sorted validator set, and the validator context that selects proposers and
  signs.  Additions and subtractions on machine integers panic on overflow, as in a build with
  overflow checks.  Signing, verification and the protobuf encoders are parameters.
\<close>

section \<open>Addresses and heights\<close>

text \<open>\<open>Address([u8; 32])\<close>, ordered as its bytes.\<close>

datatype address = Address (addr_bytes: bytes)

instantiation address :: linorder
begin

definition less_eq_address :: "address \<Rightarrow> address \<Rightarrow> bool" where
  "less_eq_address a b \<longleftrightarrow> addr_bytes a \<le> addr_bytes b"

definition less_address :: "address \<Rightarrow> address \<Rightarrow> bool" where
  "less_address a b \<longleftrightarrow> addr_bytes a < addr_bytes b"

instance
  by standard (auto simp: less_eq_address_def less_address_def less_le_not_le address.expand)

end

definition address_wf :: "address \<Rightarrow> bool" where
  "address_wf a \<longleftrightarrow> length (addr_bytes a) = 32"

definition address_to_hex :: "(bytes \<Rightarrow> string) \<Rightarrow> address \<Rightarrow> string" where
  "address_to_hex hex_encode a = hex_encode (addr_bytes a)"

definition address_to_vec :: "address \<Rightarrow> bytes" where
  "address_to_vec a = addr_bytes a"

definition address_from_vec :: "bytes \<Rightarrow> ('e, address) result" where
  "address_from_vec vec =
     (if length vec = 32 then Ok (Address vec)
      else Panic ''source slice length does not match destination slice length'')"

definition address_prefix :: "(bytes \<Rightarrow> string) \<Rightarrow> address \<Rightarrow> ('e, string) result" where
  "address_prefix hex_encode a =
     (let h = address_to_hex hex_encode a in
      if length h < 4 then Panic ''byte index 4 is out of bounds'' else Ok (''0x'' @ take 4 h))"

definition height_new :: "u32 \<Rightarrow> u64 \<Rightarrow> height" where
  "height_new s n = \<lparr>shard_index = s, block_number = n\<rparr>"

definition height_as_u64 :: "height \<Rightarrow> u64" where
  "height_as_u64 h = block_number h"

definition height_increment_by :: "u64 \<Rightarrow> height \<Rightarrow> ('e, height) result" where
  "height_increment_by n h =
     (if unat (block_number h) + unat n < 2 ^ 64
      then Ok \<lparr>shard_index = shard_index h, block_number = block_number h + n\<rparr>
      else Panic add_overflow)"

definition height_increment :: "height \<Rightarrow> ('e, height) result" where
  "height_increment h = height_increment_by 1 h"

definition height_decrement :: "height \<Rightarrow> height option" where
  "height_decrement h =
     (if block_number h = 0 then None
      else Some \<lparr>shard_index = shard_index h, block_number = block_number h - 1\<rparr>)"

text \<open>The derived order: shard first, then block number.\<close>

definition height_ge :: "height \<Rightarrow> height \<Rightarrow> bool" where
  "height_ge a b \<longleftrightarrow> (shard_index b, block_number b) \<le> (shard_index a, block_number a)"

section \<open>Rounds, votes and proposals\<close>

text \<open>
  \<open>Round\<close> belongs to \<open>malachite\<close>; the code uses its constructor from an \<open>i64\<close>, its conversion
  back, and \<open>Round::Nil\<close>.  The other \<open>malachite\<close> enums appear with all their variants in the
  matches of the source.
\<close>

record 'r round_ops =
  rnd_new :: "i64 \<Rightarrow> 'r"
  rnd_as_i64 :: "'r \<Rightarrow> i64"
  rnd_nil :: 'r

definition round_ok :: "'r round_ops \<Rightarrow> bool" where
  "round_ok R \<longleftrightarrow> (\<forall>r. rnd_new R (rnd_as_i64 R r) = r)"

datatype vote_type = Prevote | Precommit

datatype 'v nil_or_val = Nil_Val | Val 'v

datatype validity = Valid | Invalid

record 'r vote =
  vo_type :: vote_type
  vo_height :: height
  vo_round :: 'r
  vo_shard_hash :: "shard_hash nil_or_val"
  vo_voter :: address
  vo_extension :: "bytes option"

definition vote_new_prevote ::
  "height \<Rightarrow> 'r \<Rightarrow> shard_hash nil_or_val \<Rightarrow> address \<Rightarrow> 'r vote" where
  "vote_new_prevote h r block_hash voter =
     \<lparr>vo_type = Prevote, vo_height = h, vo_round = r, vo_shard_hash = block_hash,
      vo_voter = voter, vo_extension = None\<rparr>"

definition vote_new_precommit ::
  "height \<Rightarrow> 'r \<Rightarrow> shard_hash nil_or_val \<Rightarrow> address \<Rightarrow> 'r vote" where
  "vote_new_precommit h r v a =
     \<lparr>vo_type = Precommit, vo_height = h, vo_round = r, vo_shard_hash = v,
      vo_voter = a, vo_extension = None\<rparr>"

definition vote_new_precommit_with_extension ::
  "height \<Rightarrow> 'r \<Rightarrow> shard_hash nil_or_val \<Rightarrow> address \<Rightarrow> bytes \<Rightarrow> 'r vote" where
  "vote_new_precommit_with_extension h r v a ext =
     \<lparr>vo_type = Precommit, vo_height = h, vo_round = r, vo_shard_hash = v,
      vo_voter = a, vo_extension = Some ext\<rparr>"

definition vote_to_proto :: "'r round_ops \<Rightarrow> 'r vote \<Rightarrow> proto_vote" where
  "vote_to_proto R v =
     \<lparr>pvo_type = (case vo_type v of Prevote \<Rightarrow> 0 | Precommit \<Rightarrow> 1),
      pvo_height = Some (vo_height v),
      pvo_round = rnd_as_i64 R (vo_round v),
      pvo_value = (case vo_shard_hash v of Nil_Val \<Rightarrow> None | Val h \<Rightarrow> Some h),
      pvo_voter = address_to_vec (vo_voter v)\<rparr>"

definition vote_from_proto :: "'r round_ops \<Rightarrow> proto_vote \<Rightarrow> ('e, 'r vote) result" where
  "vote_from_proto R p =
     bind_result (if pvo_type p = 0 then Ok Prevote
                  else if pvo_type p = 1 then Ok Precommit
                  else Panic ''Invalid vote type'')
       (\<lambda>ty. case pvo_height p of
          None \<Rightarrow> Panic unwrap_none
        | Some h \<Rightarrow>
            bind_result (address_from_vec (pvo_voter p))
              (\<lambda>voter. Ok \<lparr>vo_type = ty, vo_height = h, vo_round = rnd_new R (pvo_round p),
                 vo_shard_hash = (case pvo_value p of None \<Rightarrow> Nil_Val | Some x \<Rightarrow> Val x),
                 vo_voter = voter, vo_extension = None\<rparr>))"

definition vote_to_sign_bytes :: "'r round_ops \<Rightarrow> (proto_vote \<Rightarrow> bytes) \<Rightarrow> 'r vote \<Rightarrow> bytes" where
  "vote_to_sign_bytes R encode v = encode (vote_to_proto R v)"

definition vote_extend :: "bytes \<Rightarrow> 'r vote \<Rightarrow> 'r vote" where
  "vote_extend ext v = v\<lparr>vo_extension := Some ext\<rparr>"

record 'r proposal =
  pr_height :: height
  pr_round :: 'r
  pr_shard_hash :: shard_hash
  pr_pol_round :: 'r
  pr_proposer :: address

definition proposal_to_proto :: "'r round_ops \<Rightarrow> 'r proposal \<Rightarrow> proto_proposal" where
  "proposal_to_proto R p =
     \<lparr>pp_height = Some (pr_height p), pp_round = rnd_as_i64 R (pr_round p),
      pp_pol_round = rnd_as_i64 R (pr_pol_round p), pp_proposer = address_to_vec (pr_proposer p),
      pp_value = Some (pr_shard_hash p)\<rparr>"

definition proposal_from_proto :: "'r round_ops \<Rightarrow> proto_proposal \<Rightarrow> ('e, 'r proposal) result" where
  "proposal_from_proto R p =
     (case pp_height p of
        None \<Rightarrow> Panic unwrap_none
      | Some h \<Rightarrow>
          (case pp_value p of
             None \<Rightarrow> Panic unwrap_none
           | Some v \<Rightarrow>
               bind_result (address_from_vec (pp_proposer p))
                 (\<lambda>a. Ok \<lparr>pr_height = h, pr_round = rnd_new R (pp_round p), pr_shard_hash = v,
                          pr_pol_round = rnd_new R (pp_pol_round p), pr_proposer = a\<rparr>)))"

definition proposal_to_sign_bytes ::
  "'r round_ops \<Rightarrow> (proto_proposal \<Rightarrow> bytes) \<Rightarrow> 'r proposal \<Rightarrow> bytes" where
  "proposal_to_sign_bytes R encode p = encode (proposal_to_proto R p)"

text \<open>\<open>FullProposal\<close> accessors.\<close>

definition full_proposal_height :: "full_proposal \<Rightarrow> ('e, height) result" where
  "full_proposal_height p = (case fp_height p of None \<Rightarrow> Panic unwrap_none | Some h \<Rightarrow> Ok h)"

definition full_proposal_shard_hash :: "full_proposal \<Rightarrow> ('e, shard_hash) result" where
  "full_proposal_shard_hash p =
     (case fp_proposed_value p of
        Some (Block b) \<Rightarrow>
          bind_result (full_proposal_height p)
            (\<lambda>h. Ok \<lparr>sh_shard_index = shard_index h, sh_hash = b_hash b\<rparr>)
      | Some (Shard c) \<Rightarrow>
          bind_result (full_proposal_height p)
            (\<lambda>h. Ok \<lparr>sh_shard_index = shard_index h, sh_hash = sc_hash c\<rparr>)
      | None \<Rightarrow> Panic ''Invalid proposal type'')"

definition full_proposal_block :: "full_proposal \<Rightarrow> block option" where
  "full_proposal_block p = (case fp_proposed_value p of Some (Block b) \<Rightarrow> Some b | _ \<Rightarrow> None)"

definition full_proposal_shard_chunk :: "full_proposal \<Rightarrow> shard_chunk option" where
  "full_proposal_shard_chunk p = (case fp_proposed_value p of Some (Shard c) \<Rightarrow> Some c | _ \<Rightarrow> None)"

definition full_proposal_proposer_address :: "full_proposal \<Rightarrow> ('e, address) result" where
  "full_proposal_proposer_address p = address_from_vec (fp_proposer p)"

definition full_proposal_round :: "'r round_ops \<Rightarrow> full_proposal \<Rightarrow> 'r" where
  "full_proposal_round R p = rnd_new R (fp_round p)"

section \<open>Validators\<close>

text \<open>A public key is its 32 bytes, so \<open>Address(public_key.to_bytes())\<close> wraps it.\<close>

record snapchain_validator =
  sv_shard_index :: u32
  sv_address :: address
  sv_public_key :: bytes
  sv_rpc_address :: "string option"
  sv_current_height :: u64

definition snapchain_validator_new ::
  "u32 \<Rightarrow> bytes \<Rightarrow> string option \<Rightarrow> u64 \<Rightarrow> snapchain_validator" where
  "snapchain_validator_new shard public_key rpc current =
     \<lparr>sv_shard_index = shard, sv_address = Address public_key, sv_public_key = public_key,
      sv_rpc_address = rpc, sv_current_height = current\<rparr>"

text \<open>The derived order compares the fields in their order.\<close>

definition sv_key :: "snapchain_validator \<Rightarrow> u32 \<times> address \<times> bytes \<times> string option \<times> u64" where
  "sv_key v = (sv_shard_index v, sv_address v, sv_public_key v, sv_rpc_address v, sv_current_height v)"

type_synonym validator_set = "snapchain_validator list"

definition validator_set_exists :: "validator_set \<Rightarrow> address \<Rightarrow> bool" where
  "validator_set_exists vs a \<longleftrightarrow> (\<exists>v \<in> set vs. sv_address v = a)"

definition validator_set_add :: "validator_set \<Rightarrow> snapchain_validator \<Rightarrow> validator_set \<times> bool" where
  "validator_set_add vs v =
     (if validator_set_exists vs (sv_address v) then (vs, False)
      else if vs = [] \<or> sv_shard_index (hd vs) = sv_shard_index v
      then (sort_key sv_key (vs @ [v]), True)
      else (vs, False))"

definition validator_set_new :: "snapchain_validator list \<Rightarrow> validator_set" where
  "validator_set_new vs = fold (\<lambda>v s. fst (validator_set_add s v)) vs []"

definition validator_set_shard_id :: "validator_set \<Rightarrow> u32" where
  "validator_set_shard_id vs = (if vs = [] then 0 else sv_shard_index (hd vs))"

definition validator_voting_power :: "snapchain_validator \<Rightarrow> u64" where
  "validator_voting_power v = 1"

definition validator_set_count :: "validator_set \<Rightarrow> nat" where
  "validator_set_count vs = length vs"

definition total_voting_power :: "validator_set \<Rightarrow> u64" where
  "total_voting_power vs = sum_list (map validator_voting_power vs)"

definition get_by_address :: "validator_set \<Rightarrow> address \<Rightarrow> snapchain_validator option" where
  "get_by_address vs a = List.find (\<lambda>v. sv_address v = a) vs"

definition get_by_index :: "validator_set \<Rightarrow> nat \<Rightarrow> snapchain_validator option" where
  "get_by_index vs i = (if i < length vs then Some (vs ! i) else None)"

section \<open>The validator context\<close>

definition select_proposer ::
  "'r round_ops \<Rightarrow> validator_set \<Rightarrow> height \<Rightarrow> 'r \<Rightarrow> ('e, snapchain_validator) result" where
  "select_proposer R vs h r =
     (if vs = [] then Panic ''assertion failed: validator_set.validators.len() > 0''
      else if r = rnd_nil R \<or> sint (rnd_as_i64 R r) < 0
      then Panic ''assertion failed: round != Round::Nil && round.as_i64() >= 0''
      else if height_as_u64 h = 0 then Panic ''attempt to subtract with overflow''
      else if unat (height_as_u64 h) - 1 + unat (rnd_as_i64 R r) \<ge> 2 ^ 64 then Panic add_overflow
      else
        (let i = (unat (height_as_u64 h) - 1 + unat (rnd_as_i64 R r)) mod length vs in
         case get_by_index vs i of
           Some v \<Rightarrow> Ok v
         | None \<Rightarrow> Panic ''proposer_index is valid''))"

definition sign_vote ::
  "'r round_ops \<Rightarrow> (proto_vote \<Rightarrow> bytes) \<Rightarrow> (bytes \<Rightarrow> bytes) \<Rightarrow> 'r vote \<Rightarrow> 'r vote \<times> bytes" where
  "sign_vote R encode sign v = (v, sign (vote_to_sign_bytes R encode v))"

definition invalid_signature :: string where
  "invalid_signature = ''Invalid signature''"

definition verify_signed_vote ::
  "'r round_ops \<Rightarrow> (proto_vote \<Rightarrow> bytes) \<Rightarrow> (bytes \<Rightarrow> bytes \<Rightarrow> bytes \<Rightarrow> bool) \<Rightarrow>
     'r vote \<Rightarrow> bytes \<Rightarrow> bytes \<Rightarrow> ('e, bool) result" where
  "verify_signed_vote R encode verify v signature pk =
     (if verify pk (vote_to_sign_bytes R encode v) signature then Ok True else Panic invalid_signature)"

definition sign_proposal ::
  "'r round_ops \<Rightarrow> (proto_proposal \<Rightarrow> bytes) \<Rightarrow> (bytes \<Rightarrow> bytes) \<Rightarrow> 'r proposal \<Rightarrow> 'r proposal \<times> bytes" where
  "sign_proposal R encode sign p = (p, sign (proposal_to_sign_bytes R encode p))"

definition verify_signed_proposal ::
  "'r round_ops \<Rightarrow> (proto_proposal \<Rightarrow> bytes) \<Rightarrow> (bytes \<Rightarrow> bytes \<Rightarrow> bytes \<Rightarrow> bool) \<Rightarrow>
     'r proposal \<Rightarrow> bytes \<Rightarrow> bytes \<Rightarrow> ('e, bool) result" where
  "verify_signed_proposal R encode verify p signature pk =
     (if verify pk (proposal_to_sign_bytes R encode p) signature then Ok True else Panic invalid_signature)"

definition context_new_proposal ::
  "height \<Rightarrow> 'r \<Rightarrow> shard_hash \<Rightarrow> 'r \<Rightarrow> address \<Rightarrow> 'r proposal" where
  "context_new_proposal h r v pol a =
     \<lparr>pr_height = h, pr_round = r, pr_shard_hash = v, pr_pol_round = pol, pr_proposer = a\<rparr>"

section \<open>Conversions\<close>

lemma address_roundtrip [simp]:
  "address_wf a \<Longrightarrow> address_from_vec (address_to_vec a) = Ok a"
  by (simp add: address_wf_def address_from_vec_def address_to_vec_def)

lemma address_from_vec_Ok:
  "address_from_vec v = Ok a \<longleftrightarrow> length v = 32 \<and> a = Address v"
  by (auto simp: address_from_vec_def)

lemma vote_proto_roundtrip:
  assumes "round_ok R" "address_wf (vo_voter v)"
  shows "vote_from_proto R (vote_to_proto R v) = Ok (v\<lparr>vo_extension := None\<rparr>)"
  using assms
  by (cases v) (auto simp: vote_from_proto_def vote_to_proto_def round_ok_def
      split: vote_type.splits nil_or_val.splits)

lemma proposal_proto_roundtrip:
  assumes "round_ok R" "address_wf (pr_proposer p)"
  shows "proposal_from_proto R (proposal_to_proto R p) = Ok p"
  using assms by (cases p) (simp add: proposal_from_proto_def proposal_to_proto_def round_ok_def)

text \<open>A protobuf vote is accepted exactly when it has a known type, a height and a 32-byte voter.\<close>

lemma vote_from_proto_Ok:
  "(\<exists>v. vote_from_proto R p = Ok v) \<longleftrightarrow>
     (pvo_type p = 0 \<or> pvo_type p = 1) \<and> pvo_height p \<noteq> None \<and> length (pvo_voter p) = 32"
  by (auto simp: vote_from_proto_def bind_result_Ok_iff address_from_vec_Ok split: option.splits)

lemma u64_add_1_nonzero:
  assumes "unat b + 1 < 2 ^ 64"
  shows "b + 1 \<noteq> (0 :: u64)"
proof
  assume "b + 1 = 0"
  then have "(word_of_nat (Suc (unat b)) :: u64) = 0" by (simp add: add.commute)
  then have "2 ^ 64 dvd Suc (unat b)" unfolding word_of_nat_eq_0_iff by simp
  with assms show False by (auto dest: dvd_imp_le)
qed

lemma height_increment_decrement:
  "height_increment h = Ok h' \<Longrightarrow> height_decrement h' = Some h"
  by (cases h) (auto simp: height_increment_def height_increment_by_def height_decrement_def
      u64_add_1_nonzero split: if_splits)

section \<open>The validator set\<close>

text \<open>One shard, every address once, sorted.\<close>

definition validator_set_wf :: "validator_set \<Rightarrow> bool" where
  "validator_set_wf vs \<longleftrightarrow> distinct (map sv_address vs) \<and>
     (\<forall>v \<in> set vs. sv_shard_index v = validator_set_shard_id vs) \<and> sorted (map sv_key vs)"

lemma validator_set_wf_Nil [simp]: "validator_set_wf []"
  by (simp add: validator_set_wf_def)

lemma distinct_map_sort_key [simp]: "distinct (map f (sort_key k xs)) \<longleftrightarrow> distinct (map f xs)"
  by (rule mset_eq_imp_distinct_iff) simp

lemma validator_set_add_wf:
  assumes "validator_set_wf vs"
  shows "validator_set_wf (fst (validator_set_add vs v))"
proof -
  let ?vs = "sort_key sv_key (vs @ [v])"
  show ?thesis
  proof (cases "\<not> validator_set_exists vs (sv_address v) \<and> (vs = [] \<or> sv_shard_index (hd vs) = sv_shard_index v)")
    case True
    have ne: "?vs \<noteq> []" by (metis append_is_Nil_conv list.distinct(1) mset.simps(1) mset_sort mset_zero_iff)
    have "sv_shard_index x = sv_shard_index v" if "x \<in> set (vs @ [v])" for x
      using that assms True by (auto simp: validator_set_wf_def validator_set_shard_id_def)
    then have "\<forall>x \<in> set ?vs. sv_shard_index x = sv_shard_index (hd ?vs)"
      using ne by (metis hd_in_set set_sort)
    moreover have "distinct (map sv_address (vs @ [v]))"
      using assms True by (auto simp: validator_set_wf_def validator_set_exists_def)
    ultimately have "validator_set_wf ?vs"
      using ne by (simp add: validator_set_wf_def validator_set_shard_id_def)
    with True show ?thesis by (simp add: validator_set_add_def)
  next
    case False
    with assms show ?thesis by (auto simp: validator_set_add_def)
  qed
qed

lemma validator_set_new_wf: "validator_set_wf (validator_set_new vs)"
proof -
  have "validator_set_wf s \<Longrightarrow> validator_set_wf (fold (\<lambda>v s. fst (validator_set_add s v)) vs s)" for s
    by (induction vs arbitrary: s) (simp_all add: validator_set_add_wf)
  then show ?thesis by (simp add: validator_set_new_def)
qed

lemma validator_set_add_True:
  assumes "validator_set_wf vs"
  shows "snd (validator_set_add vs v) \<longleftrightarrow>
    (\<forall>x \<in> set vs. sv_address x \<noteq> sv_address v \<and> sv_shard_index x = sv_shard_index v)"
  using assms
  by (cases vs) (auto simp: validator_set_add_def validator_set_exists_def validator_set_wf_def
      validator_set_shard_id_def)

lemma validator_set_add_set:
  "set (fst (validator_set_add vs v)) = (if snd (validator_set_add vs v) then insert v (set vs) else set vs)"
  by (auto simp: validator_set_add_def)

text \<open>A well-formed set is determined by its members.\<close>

lemma sv_key_inj: "inj sv_key"
  by (rule injI) (auto simp: sv_key_def intro: snapchain_validator.equality)

lemma validator_set_wf_unique:
  assumes "validator_set_wf vs" "validator_set_wf ws" "set vs = set ws"
  shows "vs = ws"
proof -
  have "distinct vs" "distinct ws" using assms(1,2) by (auto simp: validator_set_wf_def distinct_map)
  with assms(3) have "mset vs = mset ws" by (simp add: set_eq_iff_mset_eq_distinct)
  then have "sort_key sv_key vs = sort_key sv_key ws"
    by (intro sort_key_inj_key_eq) (auto intro: inj_on_subset [OF sv_key_inj])
  with assms(1,2) show ?thesis
    by (simp add: validator_set_wf_def sort_key_id_if_sorted)
qed

lemma validator_set_new_set:
  assumes "distinct (map sv_address vs)" "\<forall>v \<in> set vs. sv_shard_index v = s"
  shows "set (validator_set_new vs) = set vs"
proof -
  have "set (fold (\<lambda>v s. fst (validator_set_add s v)) vs ws) = set ws \<union> set vs"
    if "validator_set_wf ws" "distinct (map sv_address (ws @ vs))" "\<forall>v \<in> set (ws @ vs). sv_shard_index v = s"
    for ws
    using that
  proof (induction vs arbitrary: ws)
    case (Cons v vs)
    have add: "snd (validator_set_add ws v)"
      using Cons.prems by (subst validator_set_add_True) (auto simp: rev_image_eqI)
    then have eq: "fst (validator_set_add ws v) = sort_key sv_key (ws @ [v])"
      by (auto simp: validator_set_add_def split: if_splits)
    let ?ws = "fst (validator_set_add ws v)"
    have ws: "set ?ws = insert v (set ws)" "distinct (map sv_address ?ws) = distinct (map sv_address (ws @ [v]))"
      unfolding eq by auto
    then have "distinct (map sv_address (?ws @ vs))" using Cons.prems(2) by auto
    moreover have "\<forall>x \<in> set (?ws @ vs). sv_shard_index x = s" using ws(1) Cons.prems(3) by auto
    ultimately have "set (fold (\<lambda>v s. fst (validator_set_add s v)) vs ?ws) = set ?ws \<union> set vs"
      using Cons.IH [OF validator_set_add_wf [OF Cons.prems(1)]] by blast
    with ws(1) show ?case by simp
  qed simp
  from this [of "[]"] assms show ?thesis by (simp add: validator_set_new_def)
qed

text \<open>Every node that knows the same validators of a shard has them in the same order.\<close>

lemma validator_set_new_order:
  assumes "distinct (map sv_address vs)" "\<forall>v \<in> set vs. sv_shard_index v = s" "mset ws = mset vs"
  shows "validator_set_new ws = validator_set_new vs"
proof (rule validator_set_wf_unique)
  have "distinct (map sv_address ws)" "set ws = set vs"
    using assms(1,3) by (metis distinct_count_atmost_1 mset_map set_mset_mset, metis set_mset_mset)
  with assms show "set (validator_set_new ws) = set (validator_set_new vs)"
    using validator_set_new_set [of ws s] validator_set_new_set [of vs s] by simp
qed (rule validator_set_new_wf)+

lemma total_voting_power_count: "total_voting_power vs = word_of_nat (validator_set_count vs)"
  by (induction vs) (auto simp: total_voting_power_def validator_voting_power_def validator_set_count_def)

lemma get_by_address_ok:
  assumes "validator_set_wf vs"
  shows "get_by_address vs a = Some v \<longleftrightarrow> v \<in> set vs \<and> sv_address v = a"
proof -
  have "distinct (map sv_address vs)" using assms by (simp add: validator_set_wf_def)
  then show ?thesis
    unfolding get_by_address_def
    by (induction vs) (auto simp: rev_image_eqI)
qed

section \<open>The proposer\<close>

text \<open>The hypotheses under which a proposer is selected.\<close>

definition proposer_input_ok :: "'r round_ops \<Rightarrow> validator_set \<Rightarrow> height \<Rightarrow> 'r \<Rightarrow> bool" where
  "proposer_input_ok R vs h r \<longleftrightarrow> vs \<noteq> [] \<and> r \<noteq> rnd_nil R \<and> 0 \<le> sint (rnd_as_i64 R r) \<and>
     0 < block_number h \<and> unat (block_number h) - 1 + unat (rnd_as_i64 R r) < 2 ^ 64"

lemma select_proposer_ok:
  assumes "proposer_input_ok R vs h r"
  shows "select_proposer R vs h r =
    Ok (vs ! ((unat (block_number h) - 1 + unat (rnd_as_i64 R r)) mod length vs))"
  using assms
  by (auto simp: select_proposer_def proposer_input_ok_def height_as_u64_def get_by_index_def Let_def
      word_neq_0_conv)

lemma select_proposer_mem:
  assumes "proposer_input_ok R vs h r"
  shows "\<exists>v \<in> set vs. select_proposer R vs h r = Ok v"
  unfolding select_proposer_ok [OF assms] using assms by (simp add: proposer_input_ok_def)

lemma mod_shift_onto:
  assumes "j < (n :: nat)"
  shows "\<exists>i < n. (c + i) mod n = j"
proof (intro exI conjI)
  let ?i = "(j + (n - c mod n)) mod n"
  show "?i < n" using assms by simp
  have "c + (j + (n - c mod n)) = j + n + n * (c div n)"
    using assms mod_less_divisor [of n c] mult_div_mod_eq [of n c] by linarith
  then have "(c + (j + (n - c mod n))) mod n = j" using assms by simp
  then show "(c + ?i) mod n = j" by (simp add: mod_add_right_eq)
qed

text \<open>
  Non-negative rounds convert to \<open>i64\<close> and back, and are not \<open>Nil\<close>.
\<close>

definition round_nonneg :: "'r round_ops \<Rightarrow> bool" where
  "round_nonneg R \<longleftrightarrow> (\<forall>i. 0 \<le> sint i \<longrightarrow> rnd_as_i64 R (rnd_new R i) = i \<and> rnd_new R i \<noteq> rnd_nil R)"

lemma small_i64:
  assumes "n < 2 ^ 63"
  shows "unat (word_of_nat n :: i64) = n" "0 \<le> sint (word_of_nat n :: i64)"
proof -
  show u: "unat (word_of_nat n :: i64) = n"
    using assms by (simp add: unsigned_of_nat take_bit_nat_eq_self)
  have "signed_take_bit 63 (int n) = int n"
    using assms by (simp add: signed_take_bit_int_eq_self)
  then show "0 \<le> sint (word_of_nat n :: i64)"
    by (simp add: signed_of_nat)
qed

text \<open>Within as many rounds as there are validators every one of them is the proposer once.\<close>

lemma select_proposer_fair:
  assumes R: "round_nonneg R" and vs: "length vs < 2 ^ 63" "v \<in> set vs"
    and h: "0 < block_number h" "unat (block_number h) - 1 + length vs < 2 ^ 64"
  shows "\<exists>i < length vs. select_proposer R vs h (rnd_new R (word_of_nat i)) = Ok v"
proof -
  from vs(2) obtain j where j: "j < length vs" "vs ! j = v" by (auto simp: in_set_conv_nth)
  from mod_shift_onto [OF j(1), of "unat (block_number h) - 1"] obtain i where
    i: "i < length vs" "(unat (block_number h) - 1 + i) mod length vs = j" by blast
  with vs(1) have small: "unat (word_of_nat i :: i64) = i" "0 \<le> sint (word_of_nat i :: i64)"
    by (simp_all add: small_i64)
  with R have r: "rnd_as_i64 R (rnd_new R (word_of_nat i)) = word_of_nat i"
    "rnd_new R (word_of_nat i) \<noteq> rnd_nil R" by (simp_all add: round_nonneg_def)
  have "proposer_input_ok R vs h (rnd_new R (word_of_nat i))"
    using vs h i(1) small r by (auto simp: proposer_input_ok_def)
  from select_proposer_ok [OF this] i j small(1) r(1) show ?thesis by auto
qed

lemma select_proposer_height_0:
  "vs \<noteq> [] \<Longrightarrow> r \<noteq> rnd_nil R \<Longrightarrow> 0 \<le> sint (rnd_as_i64 R r) \<Longrightarrow>
     select_proposer R vs (height_new s 0) r = Panic ''attempt to subtract with overflow''"
  by (simp add: select_proposer_def height_as_u64_def height_new_def)

end
