(* ===== verification/Chain_Store.thy ===== *)
theory Chain_Store
  imports Chain_Types
begin

text \<open>
  The block store and the shard store, \<open>src/storage/store/block.rs\<close> and
  \<open>src/storage/store/shard.rs\<close>: keys with big-endian heights, paged reads, the height of the last
  entry, and writes.  The protobuf codecs of \<open>Block\<close> and \<open>ShardChunk\<close> are parameters.
\<close>

definition PAGE_SIZE :: nat where "PAGE_SIZE = 100"

definition PAGE_SIZE_MAX :: nat where "PAGE_SIZE_MAX = 1000"

record chain_codec =
  cc_block_encode :: "block \<Rightarrow> bytes"
  cc_block_decode :: "bytes \<Rightarrow> (string, block) result"
  cc_chunk_encode :: "shard_chunk \<Rightarrow> bytes"
  cc_chunk_decode :: "bytes \<Rightarrow> (string, shard_chunk) result"

text \<open>The callback of both page readers: decode, append, stop at the page size.\<close>

definition page_step ::
  "(bytes \<Rightarrow> (string, 'a) result) \<Rightarrow> nat \<Rightarrow> 'a list \<times> bytes \<Rightarrow> bytes \<Rightarrow> bytes \<Rightarrow>
     ('a list \<times> bytes) \<times> (rocksdb_error, bool) result" where
  "page_step decode limit s key value =
     (case decode value of
        Err e \<Rightarrow> (s, Err (DecodeError e))
      | Panic m \<Rightarrow> (s, Panic m)
      | Ok item \<Rightarrow>
          (let items = fst s @ [item] in
           if length items \<ge> limit then ((items, key), Ok True)
           else ((items, snd s), Ok False)))"

definition page_limit :: "page_options \<Rightarrow> nat" where
  "page_limit opts = (case page_size opts of None \<Rightarrow> PAGE_SIZE_MAX | Some n \<Rightarrow> n)"

definition next_token :: "bytes \<Rightarrow> bytes option" where
  "next_token last_key = (if length last_key > 0 then Some last_key else None)"

section \<open>The block store\<close>

datatype block_storage_error =
    BlockRocksdbError rocksdb_error | BlockMissingHeader | BlockMissingHeight | TooManyBlocksInResult

record block_page =
  bp_blocks :: "block list"
  bp_next_page_token :: "bytes option"

definition make_block_key :: "u32 \<Rightarrow> u64 \<Rightarrow> bytes" where
  "make_block_key shard n = 1 # u32_to_be_bytes shard @ u64_to_be_bytes n"

definition get_block_page_by_prefix ::
  "chain_codec \<Rightarrow> rocksdb \<Rightarrow> page_options \<Rightarrow> bytes option \<Rightarrow> bytes option \<Rightarrow>
     (block_storage_error, block_page) result" where
  "get_block_page_by_prefix C db opts start_prefix stop_prefix =
     (case for_each_iterator_by_prefix_paged db start_prefix stop_prefix opts
             (page_step (cc_block_decode C) (page_limit opts)) ([], []) of
        (_, Err e) \<Rightarrow> Err (BlockRocksdbError e)
      | (_, Panic m) \<Rightarrow> Panic m
      | ((blocks, last_key), Ok _) \<Rightarrow>
          Ok \<lparr>bp_blocks = blocks, bp_next_page_token = next_token last_key\<rparr>)"

definition block_number_of :: "block \<Rightarrow> u64 option" where
  "block_number_of b =
     (case b_header b of None \<Rightarrow> None
      | Some header \<Rightarrow> (case bh_height header of None \<Rightarrow> None | Some h \<Rightarrow> Some (block_number h)))"

definition block_get_current_height ::
  "chain_codec \<Rightarrow> rocksdb \<Rightarrow> u32 \<Rightarrow> (block_storage_error, u64 option) result" where
  "block_get_current_height C db shard =
     bind_result
       (get_block_page_by_prefix C db \<lparr>page_size = Some 1, page_token = None, page_reverse = True\<rparr>
          (Some (make_block_key shard 0)) None)
       (\<lambda>page. if length (bp_blocks page) > 1 then Err TooManyBlocksInResult
               else (case bp_blocks page of [] \<Rightarrow> Ok None | b # _ \<Rightarrow> Ok (block_number_of b)))"

definition get_blocks_in_range ::
  "chain_codec \<Rightarrow> rocksdb \<Rightarrow> page_options \<Rightarrow> u32 \<Rightarrow> u64 \<Rightarrow> u64 option \<Rightarrow>
     (block_storage_error, block_page) result" where
  "get_blocks_in_range C db opts shard start_block stop_block =
     get_block_page_by_prefix C db opts (Some (make_block_key shard start_block))
       (map_option (make_block_key shard) stop_block)"

definition put_block ::
  "chain_codec \<Rightarrow> rocksdb \<Rightarrow> block \<Rightarrow> rocksdb \<times> (block_storage_error, unit) result" where
  "put_block C db b =
     (case b_header b of
        None \<Rightarrow> (db, Err BlockMissingHeader)
      | Some header \<Rightarrow>
          (case bh_height header of
             None \<Rightarrow> (db, Err BlockMissingHeight)
           | Some h \<Rightarrow>
               (case rocksdb_commit db
                       (txn_put (rocksdb_txn db) (make_block_key (shard_index h) (block_number h))
                          (cc_block_encode C b)) of
                  (db', Ok _) \<Rightarrow> (db', Ok ())
                | (db', Err e) \<Rightarrow> (db', Err (BlockRocksdbError e))
                | (db', Panic m) \<Rightarrow> (db', Panic m))))"

definition block_max_block_number ::
  "chain_codec \<Rightarrow> rocksdb \<Rightarrow> u32 \<Rightarrow> (block_storage_error, u64) result" where
  "block_max_block_number C db shard =
     bind_result (block_get_current_height C db shard)
       (\<lambda>h. case h of None \<Rightarrow> Ok 0 | Some n \<Rightarrow> Ok n)"

text \<open>The paging loop; \<^const>\<open>None\<close> says the fuel ran out.\<close>

primrec get_blocks_loop ::
  "nat \<Rightarrow> chain_codec \<Rightarrow> rocksdb \<Rightarrow> u64 \<Rightarrow> u64 option \<Rightarrow> u32 \<Rightarrow> block list \<Rightarrow> bytes option \<Rightarrow>
     (block_storage_error, block list) result option" where
  "get_blocks_loop 0 C db start_block stop_block shard blocks token = None"
| "get_blocks_loop (Suc fuel) C db start_block stop_block shard blocks token =
     (case get_blocks_in_range C db
             \<lparr>page_size = Some PAGE_SIZE, page_token = token, page_reverse = False\<rparr>
             shard start_block stop_block of
        Err e \<Rightarrow> Some (Err e)
      | Panic m \<Rightarrow> Some (Panic m)
      | Ok page \<Rightarrow>
          (let blocks' = blocks @ bp_blocks page in
           case bp_next_page_token page of
             None \<Rightarrow> Some (Ok blocks')
           | Some t \<Rightarrow> get_blocks_loop fuel C db start_block stop_block shard blocks' (Some t)))"

definition get_blocks ::
  "nat \<Rightarrow> chain_codec \<Rightarrow> rocksdb \<Rightarrow> u64 \<Rightarrow> u64 option \<Rightarrow> u32 \<Rightarrow>
     (block_storage_error, block list) result option" where
  "get_blocks fuel C db start_block stop_block shard =
     get_blocks_loop fuel C db start_block stop_block shard [] None"

section \<open>The shard store\<close>

datatype shard_storage_error =
    ShardRocksdbError rocksdb_error | ShardMissingHeader | ShardMissingHeight | TooManyShardsInResult

record shard_page =
  sp_shard_chunks :: "shard_chunk list"
  sp_next_page_token :: "bytes option"

definition make_shard_key :: "u64 \<Rightarrow> bytes" where
  "make_shard_key n = 2 # u64_to_be_bytes n"

definition get_shard_page_by_prefix ::
  "chain_codec \<Rightarrow> rocksdb \<Rightarrow> page_options \<Rightarrow> bytes option \<Rightarrow> bytes option \<Rightarrow>
     (shard_storage_error, shard_page) result" where
  "get_shard_page_by_prefix C db opts start_prefix stop_prefix =
     (case for_each_iterator_by_prefix_paged db start_prefix stop_prefix opts
             (page_step (cc_chunk_decode C) (page_limit opts)) ([], []) of
        (_, Err e) \<Rightarrow> Err (ShardRocksdbError e)
      | (_, Panic m) \<Rightarrow> Panic m
      | ((chunks, last_key), Ok _) \<Rightarrow>
          Ok \<lparr>sp_shard_chunks = chunks, sp_next_page_token = next_token last_key\<rparr>)"

definition chunk_number_of :: "shard_chunk \<Rightarrow> u64 option" where
  "chunk_number_of c =
     (case sc_header c of None \<Rightarrow> None
      | Some header \<Rightarrow> (case sh_height header of None \<Rightarrow> None | Some h \<Rightarrow> Some (block_number h)))"

definition shard_get_current_height ::
  "chain_codec \<Rightarrow> rocksdb \<Rightarrow> (shard_storage_error, u64 option) result" where
  "shard_get_current_height C db =
     bind_result
       (get_shard_page_by_prefix C db \<lparr>page_size = Some 1, page_token = None, page_reverse = True\<rparr>
          (Some (make_shard_key 0)) None)
       (\<lambda>page. if length (sp_shard_chunks page) > 1 then Err TooManyShardsInResult
               else (case sp_shard_chunks page of [] \<Rightarrow> Ok None | c # _ \<Rightarrow> Ok (chunk_number_of c)))"

definition put_shard_chunk ::
  "chain_codec \<Rightarrow> rocksdb \<Rightarrow> shard_chunk \<Rightarrow> rocksdb \<times> (shard_storage_error, unit) result" where
  "put_shard_chunk C db c =
     (case sc_header c of
        None \<Rightarrow> (db, Err ShardMissingHeader)
      | Some header \<Rightarrow>
          (case sh_height header of
             None \<Rightarrow> (db, Err ShardMissingHeight)
           | Some h \<Rightarrow>
               (case rocksdb_commit db
                       (txn_put (rocksdb_txn db) (make_shard_key (block_number h)) (cc_chunk_encode C c)) of
                  (db', Ok _) \<Rightarrow> (db', Ok ())
                | (db', Err e) \<Rightarrow> (db', Err (ShardRocksdbError e))
                | (db', Panic m) \<Rightarrow> (db', Panic m))))"

definition shard_max_block_number ::
  "chain_codec \<Rightarrow> rocksdb \<Rightarrow> (shard_storage_error, u64) result" where
  "shard_max_block_number C db =
     bind_result (shard_get_current_height C db)
       (\<lambda>h. case h of None \<Rightarrow> Ok 0 | Some n \<Rightarrow> Ok n)"

section \<open>Pages\<close>

definition ok_opt :: "('e, 'a) result \<Rightarrow> 'a option" where
  "ok_opt r = (case r of Ok a \<Rightarrow> Some a | _ \<Rightarrow> None)"

definition decoded :: "(bytes \<Rightarrow> (string, 'a) result) \<Rightarrow> kv \<Rightarrow> 'a list" where
  "decoded decode es = List.map_filter (\<lambda>e. ok_opt (decode (snd e))) es"

definition decodes :: "(bytes \<Rightarrow> (string, 'a) result) \<Rightarrow> kv \<Rightarrow> bool" where
  "decodes decode es \<longleftrightarrow> (\<forall>e \<in> set es. \<exists>a. decode (snd e) = Ok a)"

lemma decoded_Cons:
  "decode (snd e) = Ok a \<Longrightarrow> decoded decode (e # es) = a # decoded decode es"
  by (simp add: decoded_def List.map_filter_simps ok_opt_def)

lemma decoded_Nil [simp]: "decoded decode [] = []"
  by (simp add: decoded_def List.map_filter_simps)

text \<open>A page holds the first items, and the key of its last one when it is full.\<close>

lemma page_step_Ok:
  "decode v = Ok a \<Longrightarrow> page_step decode n (items, last_key) k v =
     (if Suc (length items) \<ge> n then ((items @ [a], k), Ok True) else ((items @ [a], last_key), Ok False))"
  by (simp add: page_step_def)

lemma page_loop_ok:
  assumes "decodes decode es" "length items = c" "c < n"
  shows "iterate_loop (page_step decode n) (Some n) c es (items, last_key) =
    ((items @ decoded decode (take (n - c) es),
      if n - c \<le> length es then fst (es ! (n - c - 1)) else last_key), Ok (length es < n - c))"
  using assms
proof (induction es arbitrary: items c)
  case (Cons e es)
  obtain k v where e: "e = (k, v)" by (cases e)
  from Cons.prems(1) e obtain a where a: "decode v = Ok a" by (auto simp: decodes_def)
  have take: "decoded decode (take (Suc m) (e # es)) = a # decoded decode (take m es)" for m
    using a e by (simp add: decoded_Cons)
  have n: "n - c = Suc (n - Suc c)" using Cons.prems(3) by simp
  show ?case
  proof (cases "Suc c = n")
    case True
    with a n Cons.prems(2) e show ?thesis
      by (auto simp: page_step_Ok take decoded_Cons)
  next
    case False
    with Cons.prems(3) have sc: "Suc c < n" by simp
    have "decodes decode es" using Cons.prems(1) by (simp add: decodes_def)
    from Cons.IH [OF this, of "items @ [a]" "Suc c"] sc Cons.prems(2)
    have IH: "iterate_loop (page_step decode n) (Some n) (Suc c) es (items @ [a], last_key) =
      ((items @ a # decoded decode (take (n - Suc c) es),
        if n - Suc c \<le> length es then fst (es ! (n - Suc c - 1)) else last_key),
       Ok (length es < n - Suc c))" by simp
    have "(e # es) ! (n - c - 1) = es ! (n - Suc c - 1)" using sc by (simp add: nth_Cons')
    with a e sc Cons.prems(2) n IH show ?thesis
      by (simp add: page_step_Ok decoded_Cons)
  qed
qed simp

lemma get_block_page_ok:
  assumes "db_healthy db" "page_token opts = None" "page_size opts = Some n" "0 < n"
    and es: "es = kv_range lo (case stop of None \<Rightarrow> replicate 32 255 | Some hi \<Rightarrow> hi) (db_entries db)"
    "decodes (cc_block_decode C) es"
  shows "get_block_page_by_prefix C db opts (Some lo) stop =
    (let items = (if page_reverse opts then rev es else es) in
     Ok \<lparr>bp_blocks = decoded (cc_block_decode C) (take n items),
         bp_next_page_token = (if n \<le> length es then next_token (fst (items ! (n - 1))) else None)\<rparr>)"
proof -
  have "decodes (cc_block_decode C) (if page_reverse opts then rev es else es)"
    using es(2) by (auto simp: decodes_def)
  from page_loop_ok [OF this, of "[]" 0 n "[]"] assms show ?thesis
    by (auto simp: get_block_page_by_prefix_def for_each_healthy page_limit_def Let_def next_token_def)
qed

lemma get_shard_page_ok:
  assumes "db_healthy db" "page_token opts = None" "page_size opts = Some n" "0 < n"
    and es: "es = kv_range lo (case stop of None \<Rightarrow> replicate 32 255 | Some hi \<Rightarrow> hi) (db_entries db)"
    "decodes (cc_chunk_decode C) es"
  shows "get_shard_page_by_prefix C db opts (Some lo) stop =
    (let items = (if page_reverse opts then rev es else es) in
     Ok \<lparr>sp_shard_chunks = decoded (cc_chunk_decode C) (take n items),
         sp_next_page_token = (if n \<le> length es then next_token (fst (items ! (n - 1))) else None)\<rparr>)"
proof -
  have "decodes (cc_chunk_decode C) (if page_reverse opts then rev es else es)"
    using es(2) by (auto simp: decodes_def)
  from page_loop_ok [OF this, of "[]" 0 n "[]"] assms show ?thesis
    by (auto simp: get_shard_page_by_prefix_def for_each_healthy page_limit_def Let_def next_token_def)
qed

section \<open>Height indices\<close>

text \<open>What the height lookups rely on: keys that sort like the heights and lie below the end of the scan.\<close>

locale height_index =
  fixes key :: "'i::linorder \<Rightarrow> bytes"
  assumes key_less: "key i < key j \<longleftrightarrow> i < j"
    and key_top: "key i < replicate 32 255"
begin

lemma key_le: "key i \<le> key j \<longleftrightarrow> i \<le> j"
  using key_less [of j i] by (simp add: not_less [symmetric])

lemma key_inj: "inj key"
  by (rule injI) (metis key_le order_antisym order_refl)

definition present :: "kv \<Rightarrow> 'i \<Rightarrow> 'i set" where
  "present es lo = {i. lo \<le> i \<and> key i \<in> fst ` set es}"

lemma finite_present: "finite (present es lo)"
proof (rule finite_imageD)
  show "finite (key ` present es lo)"
    by (rule finite_subset [of _ "fst ` set es"]) (auto simp: present_def)
  show "inj_on key (present es lo)" using key_inj by (rule inj_on_subset) simp
qed

lemma range_Nil_iff:
  assumes "\<forall>k \<in> fst ` set es. \<exists>i. k = key i"
  shows "kv_range (key lo) (replicate 32 255) es = [] \<longleftrightarrow> present es lo = {}"
proof
  assume "kv_range (key lo) (replicate 32 255) es = []"
  then have "\<forall>e \<in> set es. \<not> (key lo \<le> fst e \<and> fst e < replicate 32 255)"
    by (simp add: kv_range_def filter_empty_conv)
  then show "present es lo = {}" using key_top by (force simp: present_def key_le)
next
  assume none: "present es lo = {}"
  have "\<not> key lo \<le> fst e" if "e \<in> set es" for e
  proof -
    from assms that obtain i where "fst e = key i" by force
    with none that show ?thesis by (auto simp: present_def key_le rev_image_eqI)
  qed
  then show "kv_range (key lo) (replicate 32 255) es = []"
    by (simp add: kv_range_def filter_empty_conv)
qed

text \<open>The last item of the scan belongs to the greatest height.\<close>

lemma last_is_Max:
  assumes wf: "kv_wf es" and keys: "\<forall>k \<in> fst ` set es. \<exists>i. k = key i" and ne: "present es lo \<noteq> {}"
  shows "\<exists>v. last (kv_range (key lo) (replicate 32 255) es) = (key (Max (present es lo)), v) \<and>
    (key (Max (present es lo)), v) \<in> set es"
proof -
  let ?r = "kv_range (key lo) (replicate 32 255) es" and ?m = "Max (present es lo)"
  have nr: "?r \<noteq> []" using range_Nil_iff [OF keys] ne by simp
  obtain k v where kv: "last ?r = (k, v)" by (cases "last ?r")
  have mem: "(k, v) \<in> set ?r" using last_in_set [OF nr] kv by simp
  then have es: "(k, v) \<in> set es" and lo: "key lo \<le> k" by (auto simp: kv_range_def)
  from keys es obtain i where i: "k = key i" by force
  with es lo have "i \<in> present es lo" by (force simp: present_def key_le)
  then have "i \<le> ?m" using finite_present by simp
  moreover have "?m \<le> i"
  proof -
    have "?m \<in> present es lo" using Max_in [OF finite_present ne] .
    then obtain w where "(key ?m, w) \<in> set es" "key lo \<le> key ?m" by (auto simp: present_def key_le)
    then have "(key ?m, w) \<in> set ?r" using key_top by (simp add: kv_range_def)
    from kv_store.range_last [OF wf nr this] kv i show ?thesis by (simp add: key_le)
  qed
  ultimately show ?thesis using kv i es by auto
qed

end

lemma replicate_32: "replicate 32 (255 :: u8) = 255 # replicate 31 255"
  by (simp add: numeral_eq_Suc)

interpretation shard_index: height_index make_shard_key
  by unfold_locales (simp_all add: make_shard_key_def replicate_32)

interpretation block_index: height_index "\<lambda>(s, n). make_block_key s n"
proof unfold_locales
  fix i j :: "u32 \<times> u64"
  show "((case i of (s, n) \<Rightarrow> make_block_key s n) < (case j of (s, n) \<Rightarrow> make_block_key s n)) = (i < j)"
    by (cases i; cases j) (auto simp: make_block_key_def list_less_same_length less_prod_simp)
  show "(case i of (s, n) \<Rightarrow> make_block_key s n) < replicate 32 255"
    by (cases i) (simp add: make_block_key_def replicate_32)
qed

section \<open>The shard store\<close>

text \<open>
  A database of chunks only, every one under the key of its own height: there the lookup finds the
  greatest number.  The database of a shard engine also holds the nodes of its trie, whose keys are
  greater than those of the chunks, so the lookup of a shard engine ends at a node instead.
\<close>

definition chunks_indexed :: "chain_codec \<Rightarrow> rocksdb \<Rightarrow> bool" where
  "chunks_indexed C db \<longleftrightarrow> (\<forall>(k, v) \<in> set (db_entries db). \<exists>n c.
     k = make_shard_key n \<and> cc_chunk_decode C v = Ok c \<and> chunk_number_of c = Some n)"

lemma chunks_indexedD:
  "chunks_indexed C db \<Longrightarrow> (k, v) \<in> set (db_entries db) \<Longrightarrow>
     \<exists>n c. k = make_shard_key n \<and> cc_chunk_decode C v = Ok c \<and> chunk_number_of c = Some n"
  unfolding chunks_indexed_def by blast

definition chunk_numbers :: "rocksdb \<Rightarrow> u64 set" where
  "chunk_numbers db = {n. db_view db (make_shard_key n) \<noteq> None}"

lemma chunk_numbers_present: "chunk_numbers db = shard_index.present (db_entries db) 0"
  by (auto simp: chunk_numbers_def shard_index.present_def db_view_def map_of_eq_None_iff)

lemma shard_max_block_number_ok:
  assumes db: "db_healthy db" and ix: "chunks_indexed C db"
  shows "shard_max_block_number C db =
    Ok (if chunk_numbers db = {} then 0 else Max (chunk_numbers db))"
proof -
  let ?es = "db_entries db" and ?opts = "\<lparr>page_size = Some 1, page_token = None, page_reverse = True\<rparr>"
  let ?r = "kv_range (make_shard_key 0) (replicate 32 255) ?es"
  have keys: "\<forall>k \<in> fst ` set ?es. \<exists>i. k = make_shard_key i" using ix by (force simp: chunks_indexed_def)
  have dec: "decodes (cc_chunk_decode C) ?r"
    using ix by (force simp: decodes_def chunks_indexed_def kv_range_def)
  have page: "get_shard_page_by_prefix C db ?opts (Some (make_shard_key 0)) None =
      Ok \<lparr>sp_shard_chunks = decoded (cc_chunk_decode C) (take 1 (rev ?r)),
         sp_next_page_token = (if 1 \<le> length ?r then next_token (fst (rev ?r ! 0)) else None)\<rparr>"
    using get_shard_page_ok [OF db, of ?opts 1 ?r "make_shard_key 0" None C] dec by (simp add: Let_def)
  show ?thesis
  proof (cases "chunk_numbers db = {}")
    case True
    then have "?r = []" by (simp add: shard_index.range_Nil_iff [OF keys] chunk_numbers_present)
    with page True show ?thesis by (simp add: shard_max_block_number_def shard_get_current_height_def)
  next
    case False
    let ?m = "Max (chunk_numbers db)"
    from False shard_index.last_is_Max [OF kv_wf_db_entries [OF db] keys, of 0] obtain v where
      v: "last ?r = (make_shard_key ?m, v)" "(make_shard_key ?m, v) \<in> set ?es"
      by (auto simp: chunk_numbers_present)
    have "?r \<noteq> []" using False by (simp add: shard_index.range_Nil_iff [OF keys] chunk_numbers_present)
    then have "take 1 (rev ?r) = [last ?r]"
      by (cases ?r rule: rev_cases) simp_all
    then have take: "take 1 (rev ?r) = [(make_shard_key ?m, v)]" by (simp only: v(1))
    from chunks_indexedD [OF ix v(2)] obtain n c where n: "make_shard_key ?m = make_shard_key n"
      and c: "cc_chunk_decode C v = Ok c" "chunk_number_of c = Some n" by blast
    have "n = ?m" using injD [OF shard_index.key_inj n] by simp
    moreover have "decoded (cc_chunk_decode C) (take 1 (rev ?r)) = [c]"
      unfolding take using c(1) by (simp add: decoded_Cons)
    ultimately show ?thesis
      using page False c(2) by (simp add: shard_max_block_number_def shard_get_current_height_def)
  qed
qed

text \<open>Writing a chunk indexes it and changes nothing else.\<close>

lemma put_shard_chunk_ok:
  assumes "db_healthy db" "chunk_number_of c = Some n"
  shows "\<exists>db'. put_shard_chunk C db c = (db', Ok ()) \<and> db_healthy db' \<and>
    db_view db' = (db_view db)(make_shard_key n \<mapsto> cc_chunk_encode C c)"
proof -
  from assms(2) obtain header h where h: "sc_header c = Some header" "sh_height header = Some h"
    "block_number h = n" by (auto simp: chunk_number_of_def split: option.splits)
  have "hm_wf (txn_put (rocksdb_txn db) (make_shard_key n) (cc_chunk_encode C c))"
    by (simp add: rocksdb_txn_def)
  from rocksdb_commit_healthy [OF assms(1) this] h show ?thesis
    by (auto simp: put_shard_chunk_def rocksdb_txn_def)
qed

lemma db_view_entries: "db_healthy db \<Longrightarrow> (k, v) \<in> set (db_entries db) \<longleftrightarrow> db_view db k = Some v"
  using kv_wf_distinct [OF kv_wf_db_entries] by (auto simp: db_view_def)

lemma put_shard_chunk_indexed:
  assumes db: "db_healthy db" and ix: "chunks_indexed C db" and C: "cc_chunk_decode C (cc_chunk_encode C c) = Ok c"
    and n: "chunk_number_of c = Some n" and put: "put_shard_chunk C db c = (db', Ok ())"
  shows "db_healthy db'" "chunks_indexed C db'" "chunk_numbers db' = insert n (chunk_numbers db)"
proof -
  from put_shard_chunk_ok [OF db n, of C] put have
    h: "db_healthy db'" and v: "db_view db' = (db_view db)(make_shard_key n \<mapsto> cc_chunk_encode C c)" by auto
  show "db_healthy db'" by (rule h)
  have eq: "make_shard_key m = make_shard_key n \<longleftrightarrow> m = n" for m
    using shard_index.key_inj by (auto dest: injD)
  show "chunk_numbers db' = insert n (chunk_numbers db)"
    by (auto simp: chunk_numbers_def v eq)
  show "chunks_indexed C db'"
    unfolding chunks_indexed_def
  proof clarify
    fix k w
    assume "(k, w) \<in> set (db_entries db')"
    then have kw: "db_view db' k = Some w" by (simp add: db_view_entries [OF h])
    show "\<exists>n c. k = make_shard_key n \<and> cc_chunk_decode C w = Ok c \<and> chunk_number_of c = Some n"
    proof (cases "k = make_shard_key n")
      case True
      with kw v C n show ?thesis by auto
    next
      case False
      with kw v have "(k, w) \<in> set (db_entries db)" by (simp add: db_view_entries [OF db])
      with ix show ?thesis by (auto simp: chunks_indexed_def)
    qed
  qed
qed

section \<open>The block store\<close>

definition block_height_of :: "block \<Rightarrow> (u32 \<times> u64) option" where
  "block_height_of b =
     (case b_header b of None \<Rightarrow> None
      | Some header \<Rightarrow> (case bh_height header of None \<Rightarrow> None
                       | Some h \<Rightarrow> Some (shard_index h, block_number h)))"

lemma block_number_of_height: "block_height_of b = Some (s, n) \<Longrightarrow> block_number_of b = Some n"
  by (auto simp: block_height_of_def block_number_of_def split: option.splits)

definition blocks_indexed :: "chain_codec \<Rightarrow> rocksdb \<Rightarrow> bool" where
  "blocks_indexed C db \<longleftrightarrow> (\<forall>(k, v) \<in> set (db_entries db). \<exists>s n b.
     k = make_block_key s n \<and> cc_block_decode C v = Ok b \<and> block_height_of b = Some (s, n))"

lemma blocks_indexedD:
  "blocks_indexed C db \<Longrightarrow> (k, v) \<in> set (db_entries db) \<Longrightarrow>
     \<exists>s n b. k = make_block_key s n \<and> cc_block_decode C v = Ok b \<and> block_height_of b = Some (s, n)"
  unfolding blocks_indexed_def by blast

lemma blocks_decode: "blocks_indexed C db \<Longrightarrow> decodes (cc_block_decode C) (kv_range lo hi (db_entries db))"
  unfolding decodes_def kv_range_def by (auto dest: blocks_indexedD)

definition block_heights :: "rocksdb \<Rightarrow> (u32 \<times> u64) set" where
  "block_heights db = {(s, n). db_view db (make_block_key s n) \<noteq> None}"

lemma block_heights_present:
  "{i \<in> block_heights db. (s, 0) \<le> i} = block_index.present (db_entries db) (s, 0)"
  by (auto simp: block_heights_def block_index.present_def db_view_def map_of_eq_None_iff)

text \<open>The lookup has no upper bound: it answers for the greatest stored height of this or a later shard.\<close>

lemma block_max_block_number_ok:
  assumes db: "db_healthy db" and ix: "blocks_indexed C db"
  shows "block_max_block_number C db s =
    (let I = {i \<in> block_heights db. (s, 0) \<le> i} in Ok (if I = {} then 0 else snd (Max I)))"
proof -
  let ?es = "db_entries db" and ?opts = "\<lparr>page_size = Some 1, page_token = None, page_reverse = True\<rparr>"
  let ?r = "kv_range (make_block_key s 0) (replicate 32 255) ?es"
  let ?I = "{i \<in> block_heights db. (s, 0) \<le> i}"
  have keys: "\<forall>k \<in> fst ` set ?es. \<exists>i. k = (case i of (s, n) \<Rightarrow> make_block_key s n)"
    using blocks_indexedD [OF ix] by fastforce
  have page: "get_block_page_by_prefix C db ?opts (Some (make_block_key s 0)) None =
      Ok \<lparr>bp_blocks = decoded (cc_block_decode C) (take 1 (rev ?r)),
         bp_next_page_token = (if 1 \<le> length ?r then next_token (fst (rev ?r ! 0)) else None)\<rparr>"
    using get_block_page_ok [OF db, of ?opts 1 ?r "make_block_key s 0" None C] blocks_decode [OF ix]
    by (simp add: Let_def)
  note nil = block_index.range_Nil_iff [OF keys, of "(s, 0)", folded block_heights_present, simplified prod.case]
  show ?thesis
  proof (cases "?I = {}")
    case True
    with nil page show ?thesis by (simp add: block_max_block_number_def block_get_current_height_def Let_def)
  next
    case False
    obtain s' n' where m: "Max ?I = (s', n')" by fastforce
    from block_index.last_is_Max [OF kv_wf_db_entries [OF db] keys, of "(s, 0)", folded block_heights_present] False m
    obtain v where v: "last ?r = (make_block_key s' n', v)" "(make_block_key s' n', v) \<in> set ?es" by auto
    have "?r \<noteq> []" using False nil by simp
    then have "take 1 (rev ?r) = [last ?r]"
      by (cases ?r rule: rev_cases) simp_all
    then have take: "take 1 (rev ?r) = [(make_block_key s' n', v)]" by (simp only: v(1))
    from blocks_indexedD [OF ix v(2)] obtain s1 n1 b where k: "make_block_key s' n' = make_block_key s1 n1"
      and b: "cc_block_decode C v = Ok b" "block_height_of b = Some (s1, n1)" by blast
    have "(s', n') = (s1, n1)" using injD [OF block_index.key_inj, of "(s', n')" "(s1, n1)"] k by simp
    moreover have "decoded (cc_block_decode C) (take 1 (rev ?r)) = [b]"
      unfolding take using b(1) by (simp add: decoded_Cons)
    ultimately have "block_max_block_number C db s = Ok n'"
      using page block_number_of_height [OF b(2)]
      by (simp add: block_max_block_number_def block_get_current_height_def)
    then show ?thesis unfolding Let_def if_not_P [OF False] m by simp
  qed
qed

lemma block_max_last_shard:
  assumes "db_healthy db" "blocks_indexed C db" "\<forall>(s', n) \<in> block_heights db. s' \<le> s"
  shows "block_max_block_number C db s =
    Ok (if {n. (s, n) \<in> block_heights db} = {} then 0 else Max {n. (s, n) \<in> block_heights db})"
proof -
  let ?N = "{n. (s, n) \<in> block_heights db}"
  have I: "{i \<in> block_heights db. (s, 0) \<le> i} = Pair s ` ?N"
    using assms(3) by (force simp: image_iff)
  have "snd (Max (Pair s ` ?N)) = Max ?N" if "?N \<noteq> {}"
  proof -
    have "mono (Pair s :: u64 \<Rightarrow> u32 \<times> u64)" by (auto intro: monoI)
    then have "Max (Pair s ` ?N) = (s, Max ?N)"
      using that by (simp add: mono_Max_commute)
    then show ?thesis by simp
  qed
  then show ?thesis
    unfolding block_max_block_number_ok [OF assms(1,2)] I Let_def by simp
qed

lemma put_block_ok:
  assumes "db_healthy db" "block_height_of b = Some (s, n)"
  shows "\<exists>db'. put_block C db b = (db', Ok ()) \<and> db_healthy db' \<and>
    db_view db' = (db_view db)(make_block_key s n \<mapsto> cc_block_encode C b)"
proof -
  from assms(2) obtain header h where h: "b_header b = Some header" "bh_height header = Some h"
    "shard_index h = s" "block_number h = n" by (auto simp: block_height_of_def split: option.splits)
  have "hm_wf (txn_put (rocksdb_txn db) (make_block_key s n) (cc_block_encode C b))"
    by (simp add: rocksdb_txn_def)
  from rocksdb_commit_healthy [OF assms(1) this] h show ?thesis
    by (auto simp: put_block_def rocksdb_txn_def)
qed

lemma make_block_key_inject [simp]: "make_block_key s n = make_block_key s' n' \<longleftrightarrow> s = s' \<and> n = n'"
  using injD [OF block_index.key_inj, of "(s, n)" "(s', n')"] by auto

lemma put_block_indexed:
  assumes db: "db_healthy db" and ix: "blocks_indexed C db" and C: "cc_block_decode C (cc_block_encode C b) = Ok b"
    and h: "block_height_of b = Some (s, n)" and put: "put_block C db b = (db', Ok ())"
  shows "db_healthy db'" "blocks_indexed C db'" "block_heights db' = insert (s, n) (block_heights db)"
proof -
  from put_block_ok [OF db h, of C] put have
    healthy: "db_healthy db'" and v: "db_view db' = (db_view db)(make_block_key s n \<mapsto> cc_block_encode C b)" by auto
  show "db_healthy db'" by (rule healthy)
  show "block_heights db' = insert (s, n) (block_heights db)"
    by (auto simp: block_heights_def v split: if_splits)
  show "blocks_indexed C db'"
    unfolding blocks_indexed_def
  proof clarify
    fix k w
    assume "(k, w) \<in> set (db_entries db')"
    then have kw: "db_view db' k = Some w" by (simp add: db_view_entries [OF healthy])
    show "\<exists>s n b. k = make_block_key s n \<and> cc_block_decode C w = Ok b \<and> block_height_of b = Some (s, n)"
    proof (cases "k = make_block_key s n")
      case True
      with kw v C h show ?thesis by auto
    next
      case False
      with kw v have "(k, w) \<in> set (db_entries db)" by (simp add: db_view_entries [OF db])
      with ix show ?thesis by (auto dest: blocks_indexedD)
    qed
  qed
qed

text \<open>
  The second page of \<open>get_blocks\<close> is empty whatever the store holds, so two rounds of the loop are
  enough and a caller gets the first page only.
\<close>

lemma get_blocks_second_page:
  assumes "db_healthy db" "page_token opts = Some token" "\<exists>b \<in> set token. b \<noteq> 255"
  shows "get_blocks_in_range C db opts s a stop = Ok \<lparr>bp_blocks = [], bp_next_page_token = None\<rparr>"
  unfolding get_blocks_in_range_def get_block_page_by_prefix_def page_token_range_empty [OF assms]
  by (simp add: next_token_def)

lemma get_blocks_ok:
  assumes db: "db_healthy db" and ix: "blocks_indexed C db"
    and es: "es = kv_range (make_block_key s a)
      (case stop of None \<Rightarrow> replicate 32 255 | Some z \<Rightarrow> make_block_key s z) (db_entries db)"
  shows "get_blocks (Suc (Suc fuel)) C db a stop s = Some (Ok (decoded (cc_block_decode C) (take PAGE_SIZE es)))"
proof -
  let ?opts = "\<lparr>page_size = Some PAGE_SIZE, page_token = None, page_reverse = False\<rparr>"
  let ?token = "if PAGE_SIZE \<le> length es then next_token (fst (es ! (PAGE_SIZE - 1))) else None"
  have page: "get_blocks_in_range C db ?opts s a stop =
      Ok \<lparr>bp_blocks = decoded (cc_block_decode C) (take PAGE_SIZE es), bp_next_page_token = ?token\<rparr>"
    using get_block_page_ok [OF db, of ?opts PAGE_SIZE es "make_block_key s a" "map_option (make_block_key s) stop" C]
      blocks_decode [OF ix] es
    by (auto simp: get_blocks_in_range_def Let_def PAGE_SIZE_def option.case_eq_if option.map_sel)
  show ?thesis
  proof (cases "PAGE_SIZE \<le> length es")
    case True
    let ?e = "es ! (PAGE_SIZE - 1)"
    have "?e \<in> set es" using True by (intro nth_mem) (simp add: PAGE_SIZE_def)
    then have "?e \<in> set (db_entries db)" using es by (simp add: kv_range_def)
    then obtain s' n where "fst ?e = make_block_key s' n"
      using blocks_indexedD [OF ix, of "fst ?e" "snd ?e"] by auto
    then have tok: "?token = Some (fst ?e)" "\<exists>b \<in> set (fst ?e). b \<noteq> 255"
      using True by (simp_all add: next_token_def make_block_key_def)
    have "get_blocks_in_range C db \<lparr>page_size = Some PAGE_SIZE, page_token = Some (fst ?e), page_reverse = False\<rparr>
        s a stop = Ok \<lparr>bp_blocks = [], bp_next_page_token = None\<rparr>"
      using tok(2) by (intro get_blocks_second_page [OF db]) auto
    with page tok(1) show ?thesis by (simp add: get_blocks_def Let_def)
  next
    case False
    with page show ?thesis by (simp add: get_blocks_def Let_def)
  qed
qed

end
