(* ===== verification/Shard_Engine.thy ===== *)
theory Shard_Engine
  imports Merkle_Trie Chain_Store
begin

text \<open>
  The engines of \<open>src/storage/store/engine.rs\<close>: the shard engine drains its message channel into
  a proposal, commits decided chunks to the trie and to the shard store, and reports its confirmed
  height; the block engine stores blocks.  The shard store and the trie share one database.

  The theory proves the two operations against the contract of the trie, and the invariant of every
  state an engine reaches.
\<close>

section \<open>State\<close>

record shard_state_change =
  ssc_shard_id :: u32
  ssc_new_state_root :: bytes
  ssc_transactions :: "transaction list"

record shard_engine =
  se_shard_id :: u32
  se_db :: rocksdb
  se_messages :: "message list"
  se_trie :: merkle_trie

section \<open>Operations\<close>

definition MESSAGE_CHANNEL_SIZE :: nat where
  "MESSAGE_CHANNEL_SIZE = 10000"

definition initial_key :: bytes where
  "initial_key = [0, 1, 2, 3, 4, 5, 6, 7, 8, 9]"

definition shard_engine_new ::
  "trie_env \<Rightarrow> (string \<Rightarrow> (string, transaction_db) result) \<Rightarrow> u32 \<Rightarrow> rocksdb \<Rightarrow>
     (hub_error, shard_engine) result" where
  "shard_engine_new E open_fn shard db =
     (case merkle_trie_initialize E open_fn db merkle_trie_new_with_db of
        ((db1, trie1), r1) \<Rightarrow>
          bind_result (unwrap r1) (\<lambda>_.
            (case merkle_trie_insert E db1 [initial_key] trie1 of
               (trie2, r2) \<Rightarrow>
                 bind_result (unwrap r2) (\<lambda>_.
                   (case merkle_trie_commit db1 trie2 of
                      ((db3, trie3), r3) \<Rightarrow>
                        bind_result (unwrap r3) (\<lambda>_.
                          (case merkle_trie_reload E db3 trie3 of
                             (trie4, r4) \<Rightarrow>
                               bind_result (unwrap r4) (\<lambda>_.
                                 Ok \<lparr>se_shard_id = shard, se_db = db3, se_messages = [],
                                     se_trie = trie4\<rparr>))))))))"

text \<open>The sending side of the channel: a full channel makes the sender wait.\<close>

definition shard_engine_submit :: "message \<Rightarrow> shard_engine \<Rightarrow> shard_engine option" where
  "shard_engine_submit msg self =
     (if length (se_messages self) < MESSAGE_CHANNEL_SIZE
      then Some (self\<lparr>se_messages := se_messages self @ [msg]\<rparr>) else None)"

definition propose_state_change ::
  "trie_env \<Rightarrow> u32 \<Rightarrow> shard_engine \<Rightarrow> shard_engine \<times> (hub_error, shard_state_change) result" where
  "propose_state_change E shard self =
     (let user_messages = se_messages self;
          self1 = self\<lparr>se_messages := []\<rparr>;
          hashes = map msg_hash user_messages;
          transactions = [\<lparr>tx_fid = 1234, tx_user_messages = user_messages, tx_system_messages = [],
                           tx_account_root = [5, 5, 6, 6]\<rparr>]
      in case unwrap (merkle_trie_root_hash (se_trie self1)) of
           Err e \<Rightarrow> (self1, Err e)
         | Panic m \<Rightarrow> (self1, Panic m)
         | Ok old_root \<Rightarrow>
             (case merkle_trie_insert E (se_db self1) hashes (se_trie self1) of
                (trie1, Panic m) \<Rightarrow> (self1\<lparr>se_trie := trie1\<rparr>, Panic m)
              | (trie1, _) \<Rightarrow>
                  (case bind_result (unwrap (merkle_trie_root_hash trie1))
                          (\<lambda>root. bind_result (unwrap (merkle_trie_items trie1)) (\<lambda>_. Ok root)) of
                     Err e \<Rightarrow> (self1\<lparr>se_trie := trie1\<rparr>, Err e)
                   | Panic m \<Rightarrow> (self1\<lparr>se_trie := trie1\<rparr>, Panic m)
                   | Ok new_root_hash \<Rightarrow>
                       (case merkle_trie_reload E (se_db self1) trie1 of
                          (trie2, r) \<Rightarrow>
                            (self1\<lparr>se_trie := trie2\<rparr>,
                             bind_result (unwrap r) (\<lambda>_.
                               bind_result (unwrap (merkle_trie_root_hash trie2)) (\<lambda>_.
                                 Ok \<lparr>ssc_shard_id = shard, ssc_new_state_root = new_root_hash,
                                     ssc_transactions = transactions\<rparr>)))))))"

definition validate_state_change :: "shard_state_change \<Rightarrow> shard_engine \<Rightarrow> bool" where
  "validate_state_change change self = True"

definition hashes_mismatch :: string where
  "hashes_mismatch = ''hashes don't match''"

text \<open>
  The steps of \<open>commit_shard_chunk\<close>: read the root and the hashes of the first transaction, insert
  them, compare the roots, commit and reload the trie, and write the chunk.  A failed write of the
  chunk is logged and dropped.
\<close>

definition commit_trie ::
  "trie_env \<Rightarrow> shard_engine \<Rightarrow> shard_engine \<times> (hub_error, unit) result" where
  "commit_trie E self =
     (case merkle_trie_commit (se_db self) (se_trie self) of
        ((db1, trie1), r1) \<Rightarrow>
          (case bind_result (unwrap r1) (\<lambda>_. unwrap (merkle_trie_root_hash trie1)) of
             Err e \<Rightarrow> (self\<lparr>se_db := db1, se_trie := trie1\<rparr>, Err e)
           | Panic m \<Rightarrow> (self\<lparr>se_db := db1, se_trie := trie1\<rparr>, Panic m)
           | Ok _ \<Rightarrow>
               (case merkle_trie_reload E db1 trie1 of
                  (trie2, r2) \<Rightarrow>
                    (self\<lparr>se_db := db1, se_trie := trie2\<rparr>,
                     bind_result (unwrap r2) (\<lambda>_.
                       bind_result (unwrap (merkle_trie_root_hash trie2)) (\<lambda>_. Ok ()))))))"

definition commit_shard_chunk ::
  "trie_env \<Rightarrow> chain_codec \<Rightarrow> shard_chunk \<Rightarrow> shard_engine \<Rightarrow> shard_engine \<times> (hub_error, unit) result" where
  "commit_shard_chunk E C chunk self =
     (case sc_header chunk of
        None \<Rightarrow> (self, Panic unwrap_none)
      | Some header \<Rightarrow>
          (case sc_transactions chunk of
             [] \<Rightarrow> (self, Panic ''index out of bounds'')
           | tx # _ \<Rightarrow>
               (case unwrap (merkle_trie_root_hash (se_trie self)) of
                  Err e \<Rightarrow> (self, Err e)
                | Panic m \<Rightarrow> (self, Panic m)
                | Ok root0 \<Rightarrow>
                    (case merkle_trie_insert E (se_db self) (map msg_hash (tx_user_messages tx)) (se_trie self) of
                       (trie1, r1) \<Rightarrow>
                         (let self1 = self\<lparr>se_trie := trie1\<rparr> in
                          case bind_result (unwrap r1) (\<lambda>_. unwrap (merkle_trie_root_hash trie1)) of
                            Err e \<Rightarrow> (self1, Err e)
                          | Panic m \<Rightarrow> (self1, Panic m)
                          | Ok root1 \<Rightarrow>
                              if root1 \<noteq> sh_shard_root header then (self1, Panic hashes_mismatch)
                              else
                                (case commit_trie E self1 of
                                   (self2, Ok _) \<Rightarrow>
                                     (case put_shard_chunk C (se_db self2) chunk of
                                        (db3, Panic m) \<Rightarrow> (self2\<lparr>se_db := db3\<rparr>, Panic m)
                                      | (db3, _) \<Rightarrow> (self2\<lparr>se_db := db3\<rparr>, Ok ()))
                                 | (self2, Err e) \<Rightarrow> (self2, Err e)
                                 | (self2, Panic m) \<Rightarrow> (self2, Panic m)))))))"

definition shard_engine_confirmed_height ::
  "chain_codec \<Rightarrow> shard_engine \<Rightarrow> ('e, height) result" where
  "shard_engine_confirmed_height C self =
     (case shard_max_block_number C (se_db self) of
        Ok n \<Rightarrow> Ok (height_new (se_shard_id self) n)
      | Err _ \<Rightarrow> Ok (height_new (se_shard_id self) 0)
      | Panic m \<Rightarrow> Panic m)"

section \<open>The block engine\<close>

record block_engine =
  be_db :: rocksdb

definition commit_block :: "chain_codec \<Rightarrow> block \<Rightarrow> block_engine \<Rightarrow> block_engine \<times> (hub_error, unit) result" where
  "commit_block C b self =
     (case put_block C (be_db self) b of
        (db', Panic m) \<Rightarrow> (self\<lparr>be_db := db'\<rparr>, Panic m)
      | (db', _) \<Rightarrow> (self\<lparr>be_db := db'\<rparr>, Ok ()))"

definition block_engine_confirmed_height ::
  "chain_codec \<Rightarrow> block_engine \<Rightarrow> ('e, height) result" where
  "block_engine_confirmed_height C self =
     (case block_max_block_number C (be_db self) 0 of
        Ok n \<Rightarrow> Ok (height_new 0 n)
      | Err _ \<Rightarrow> Ok (height_new 0 0)
      | Panic m \<Rightarrow> Panic m)"

section \<open>The invariant of an engine\<close>

text \<open>The trie holds \<open>S\<close> in memory and on disk, and nothing else is pending.\<close>

definition engine_inv :: "trie_env \<Rightarrow> shard_engine \<Rightarrow> bytes set \<Rightarrow> bool" where
  "engine_inv E e S \<longleftrightarrow> trie_holds E (se_db e) (se_trie e) S \<and> trie_saved E (se_db e) S \<and> S \<noteq> {}"

lemma engine_inv_root: "engine_inv E e S \<Longrightarrow> merkle_trie_root_hash (se_trie e) = Ok (merkle E 0 S)"
  unfolding engine_inv_def by (blast intro: trie_set.root_ok)

lemma trie_holds_items: "trie_holds E db t S \<Longrightarrow> merkle_trie_items t = Ok (card S)"
  unfolding trie_holds_def by (blast intro: items_ok)

lemma propose_ok:
  assumes inv: "engine_inv E e S" and msgs: "se_messages e = msgs" "distinct (map msg_hash msgs)"
    "trie_allowed (S \<union> msg_hash ` set msgs)"
  shows "\<exists>e'. propose_state_change E shard e = (e', Ok \<lparr>ssc_shard_id = shard,
        ssc_new_state_root = merkle E 0 (S \<union> msg_hash ` set msgs),
        ssc_transactions = [\<lparr>tx_fid = 1234, tx_user_messages = msgs, tx_system_messages = [],
                             tx_account_root = [5, 5, 6, 6]\<rparr>]\<rparr>) \<and>
    engine_inv E e' S \<and> se_messages e' = [] \<and> se_db e' = se_db e \<and> se_shard_id e' = se_shard_id e"
proof -
  let ?ks = "map msg_hash msgs"
  from inv have h: "trie_holds E (se_db e) (se_trie e) S" and s: "trie_saved E (se_db e) S" and ne: "S \<noteq> {}"
    by (simp_all add: engine_inv_def)
  from msgs(3) have al: "trie_allowed (S \<union> set ?ks)" by simp
  from trie_set.add_ok [OF h msgs(2) al] obtain t1 where
    t1: "merkle_trie_insert E (se_db e) ?ks (se_trie e) = (t1, Ok (map (\<lambda>k. k \<notin> S) ?ks))"
      "trie_holds E (se_db e) t1 (S \<union> set ?ks)" by blast
  from trie_set.revert_ok [OF s] obtain t2 where
    t2: "merkle_trie_reload E (se_db e) t1 = (t2, Ok ())" "trie_holds E (se_db e) t2 S" by blast
  have roots: "merkle_trie_root_hash t1 = Ok (merkle E 0 (S \<union> set ?ks))" "merkle_trie_root_hash t2 = Ok (merkle E 0 S)"
    using trie_set.root_ok [OF t1(2)] trie_set.root_ok [OF t2(2)] ne by simp_all
  show ?thesis
    using engine_inv_root [OF inv] t1 t2 roots trie_holds_items [OF t1(2)] s ne msgs(1)
    by (simp add: propose_state_change_def Let_def engine_inv_def)
qed


text \<open>The records of the trie do not depend on the other entries of the shard's database.\<close>

definition same_nodes :: "(bytes \<Rightarrow> bytes option) \<Rightarrow> (bytes \<Rightarrow> bytes option) \<Rightarrow> bool" where
  "same_nodes g g' \<longleftrightarrow> (\<forall>q. g' (make_primary_key q None) = g (make_primary_key q None))"

lemma trie_rep_cong:
  assumes "trie_rep E g p n S" "same_nodes g g'"
  shows "trie_rep E g' p n S"
  using assms
proof (induction rule: trie_rep.induct)
  case (rep_leaf p k)
  then show ?case by (intro trie_rep.rep_leaf)
next
  case (rep_node p S cs key)
  have "stored E g' (p @ [c]) (sub_keys (length p) c S)"
    if "stored E g (p @ [c]) (sub_keys (length p) c S)" for c
    using stored_cong [OF that] rep_node.prems by (simp add: same_nodes_def)
  with rep_node show ?case by - (rule trie_rep.rep_node, auto)
qed

lemma mt_holds_cong:
  assumes "mt_holds E db t S" "same_nodes (db_view db) (db_view db')"
  shows "mt_holds E db' t S"
proof -
  from assms(1) obtain root where r: "mt_root t = Some root" "rep0 E (db_view db) [] root S"
    "hm_wf (mt_txn_batch t)" "stored_root E (overlay (db_view db) (mt_txn_batch t)) S"
    by (auto simp: mt_holds_def)
  have ov: "overlay (db_view db') (mt_txn_batch t) (make_primary_key q None) =
      overlay (db_view db) (mt_txn_batch t) (make_primary_key q None)" for q
    using assms(2) by (simp add: overlay_def same_nodes_def split: option.splits)
  have "stored_root E (overlay (db_view db') (mt_txn_batch t)) S"
    using r(4) stored_cong [of E _ "[]" S] ov by (auto simp: stored_root_def)
  moreover have "rep0 E (db_view db') [] root S"
    using r(2) trie_rep_cong [OF _ assms(2)] by (auto simp: rep0_def)
  ultimately show ?thesis using r by (simp add: mt_holds_def)
qed

lemma trie_saved_cong:
  assumes "trie_saved E db S" "same_nodes (db_view db) (db_view db')" "db_healthy db'"
  shows "trie_saved E db' S"
  using assms stored_cong [of E "db_view db" "[]" S "db_view db'"]
  by (auto simp: trie_saved_def stored_root_def same_nodes_def)

lemma make_shard_key_not_node: "make_shard_key n \<noteq> make_primary_key q None"
  by (simp add: make_shard_key_def make_primary_key_def)

lemma commit_root_hash:
  "merkle_trie_commit db t = ((db', t'), Ok ()) \<Longrightarrow> merkle_trie_root_hash t' = merkle_trie_root_hash t"
  by (auto simp: merkle_trie_commit_def unload_from_memory_def merkle_trie_root_hash_def Let_def
      unload_children_def split: option.splits prod.splits result.splits)

lemma commit_trie_ok:
  assumes "trie_holds E (se_db e) (se_trie e) S" "S \<noteq> {}"
  shows "\<exists>e'. commit_trie E e = (e', Ok ()) \<and> engine_inv E e' S \<and> se_messages e' = se_messages e \<and>
    se_shard_id e' = se_shard_id e"
proof -
  from trie_set.flush_revert [OF assms(1)] obtain d t1 t2 where
    f: "merkle_trie_commit (se_db e) (se_trie e) = ((d, t1), Ok ())" "merkle_trie_reload E d t1 = (t2, Ok ())"
      "trie_holds E d t2 S" "trie_saved E d S" by blast
  have "merkle_trie_root_hash t1 = Ok (merkle E 0 S)"
    using commit_root_hash [OF f(1)] trie_set.root_ok [OF assms] by simp
  with f trie_set.root_ok [OF f(3) assms(2)] assms(2) show ?thesis
    by (simp add: commit_trie_def engine_inv_def)
qed

text \<open>
  A chunk whose header carries the root of the set after its messages is applied; then the engine
  tries to store it.
\<close>

lemma commit_chunk_applied:
  assumes inv: "engine_inv E e S"
    and chunk: "sc_header chunk = Some header" "sc_transactions chunk = tx # txs"
    and msgs: "distinct (map msg_hash (tx_user_messages tx))"
    "trie_allowed (S \<union> msg_hash ` set (tx_user_messages tx))"
    and root: "sh_shard_root header = merkle E 0 (S \<union> msg_hash ` set (tx_user_messages tx))"
  shows "\<exists>e2. engine_inv E e2 (S \<union> msg_hash ` set (tx_user_messages tx)) \<and>
    se_messages e2 = se_messages e \<and> se_shard_id e2 = se_shard_id e \<and>
    commit_shard_chunk E C chunk e = (case put_shard_chunk C (se_db e2) chunk of
       (db3, Panic m) \<Rightarrow> (e2\<lparr>se_db := db3\<rparr>, Panic m)
     | (db3, _) \<Rightarrow> (e2\<lparr>se_db := db3\<rparr>, Ok ()))"
proof -
  let ?ks = "map msg_hash (tx_user_messages tx)" and ?S = "S \<union> msg_hash ` set (tx_user_messages tx)"
  from inv have h: "trie_holds E (se_db e) (se_trie e) S" and ne: "S \<noteq> {}"
    by (simp_all add: engine_inv_def)
  from msgs(2) have al: "trie_allowed (S \<union> set ?ks)" by simp
  from trie_set.add_ok [OF h msgs(1) al] obtain t1 where
    t1: "merkle_trie_insert E (se_db e) ?ks (se_trie e) = (t1, Ok (map (\<lambda>k. k \<notin> S) ?ks))"
      "trie_holds E (se_db e) t1 ?S" by auto
  have r1: "merkle_trie_root_hash t1 = Ok (sh_shard_root header)"
    using trie_set.root_ok [OF t1(2)] ne root by simp
  let ?e1 = "e\<lparr>se_trie := t1\<rparr>"
  from commit_trie_ok [of E ?e1 ?S] t1(2) ne obtain e2 where
    e2: "commit_trie E ?e1 = (e2, Ok ())" "engine_inv E e2 ?S" "se_messages e2 = se_messages e"
      "se_shard_id e2 = se_shard_id e" by auto
  moreover have "commit_shard_chunk E C chunk e = (case put_shard_chunk C (se_db e2) chunk of
       (db3, Panic m) \<Rightarrow> (e2\<lparr>se_db := db3\<rparr>, Panic m)
     | (db3, _) \<Rightarrow> (e2\<lparr>se_db := db3\<rparr>, Ok ()))"
    using chunk engine_inv_root [OF inv] t1(1) r1 e2(1) by (simp add: commit_shard_chunk_def Let_def)
  ultimately show ?thesis by blast
qed

lemma engine_inv_store:
  assumes inv: "engine_inv E e S" and n: "chunk_number_of chunk = Some n"
  shows "\<exists>db'. put_shard_chunk C (se_db e) chunk = (db', Ok ()) \<and> engine_inv E (e\<lparr>se_db := db'\<rparr>) S \<and>
    db_view db' (make_shard_key n) = Some (cc_chunk_encode C chunk)"
proof -
  have healthy: "db_healthy (se_db e)" using inv by (simp add: engine_inv_def trie_saved_def)
  from put_shard_chunk_ok [OF healthy n, of C] obtain db3 where
    db3: "put_shard_chunk C (se_db e) chunk = (db3, Ok ())" "db_healthy db3"
      "db_view db3 = (db_view (se_db e))(make_shard_key n \<mapsto> cc_chunk_encode C chunk)" by blast
  have same: "same_nodes (db_view (se_db e)) (db_view db3)"
    unfolding same_nodes_def db3(3) using make_shard_key_not_node by (metis fun_upd_other)
  have "engine_inv E (e\<lparr>se_db := db3\<rparr>) S"
    using inv mt_holds_cong [OF _ same] trie_saved_cong [OF _ same db3(2)] db3(2)
    by (auto simp: engine_inv_def trie_holds_def)
  with db3 show ?thesis by auto
qed

lemma commit_chunk_ok:
  assumes inv: "engine_inv E e S"
    and chunk: "sc_header chunk = Some header" "sc_transactions chunk = tx # txs"
    "chunk_number_of chunk = Some n"
    and msgs: "distinct (map msg_hash (tx_user_messages tx))"
    "trie_allowed (S \<union> msg_hash ` set (tx_user_messages tx))"
    and root: "sh_shard_root header = merkle E 0 (S \<union> msg_hash ` set (tx_user_messages tx))"
  shows "\<exists>e'. commit_shard_chunk E C chunk e = (e', Ok ()) \<and>
    engine_inv E e' (S \<union> msg_hash ` set (tx_user_messages tx)) \<and>
    db_view (se_db e') (make_shard_key n) = Some (cc_chunk_encode C chunk) \<and>
    se_messages e' = se_messages e \<and> se_shard_id e' = se_shard_id e"
proof -
  from commit_chunk_applied [OF inv chunk(1,2) msgs root, of C] obtain e2 where
    e2: "engine_inv E e2 (S \<union> msg_hash ` set (tx_user_messages tx))" "se_messages e2 = se_messages e"
      "se_shard_id e2 = se_shard_id e"
      "commit_shard_chunk E C chunk e = (case put_shard_chunk C (se_db e2) chunk of
         (db3, Panic m) \<Rightarrow> (e2\<lparr>se_db := db3\<rparr>, Panic m)
       | (db3, _) \<Rightarrow> (e2\<lparr>se_db := db3\<rparr>, Ok ()))" by blast
  from engine_inv_store [OF e2(1) chunk(3), of C] e2(2-4) show ?thesis by auto
qed

text \<open>A header without a height: the store refuses the chunk and the engine goes on without it.\<close>

lemma commit_chunk_no_height:
  assumes "engine_inv E e S" "sc_header chunk = Some header" "sc_transactions chunk = tx # txs"
    "chunk_number_of chunk = None" "distinct (map msg_hash (tx_user_messages tx))"
    "trie_allowed (S \<union> msg_hash ` set (tx_user_messages tx))"
    "sh_shard_root header = merkle E 0 (S \<union> msg_hash ` set (tx_user_messages tx))"
  shows "\<exists>e'. commit_shard_chunk E C chunk e = (e', Ok ()) \<and>
    engine_inv E e' (S \<union> msg_hash ` set (tx_user_messages tx))"
proof -
  from commit_chunk_applied [OF assms(1-3,5-7), of C] obtain e2 where
    e2: "engine_inv E e2 (S \<union> msg_hash ` set (tx_user_messages tx))"
      "commit_shard_chunk E C chunk e = (case put_shard_chunk C (se_db e2) chunk of
         (db3, Panic m) \<Rightarrow> (e2\<lparr>se_db := db3\<rparr>, Panic m)
       | (db3, _) \<Rightarrow> (e2\<lparr>se_db := db3\<rparr>, Ok ()))" by blast
  from assms(2,4) have "put_shard_chunk C (se_db e2) chunk = (se_db e2, Err ShardMissingHeight)"
    by (simp add: chunk_number_of_def put_shard_chunk_def split: option.splits)
  with e2 show ?thesis by simp
qed

text \<open>Any other root aborts, and the database keeps its contents.\<close>

lemma commit_chunk_mismatch:
  assumes inv: "engine_inv E e S"
    and chunk: "sc_header chunk = Some header" "sc_transactions chunk = tx # txs"
    and msgs: "distinct (map msg_hash (tx_user_messages tx))"
    "trie_allowed (S \<union> msg_hash ` set (tx_user_messages tx))"
    and root: "sh_shard_root header \<noteq> merkle E 0 (S \<union> msg_hash ` set (tx_user_messages tx))"
  shows "\<exists>e'. commit_shard_chunk E C chunk e = (e', Panic hashes_mismatch) \<and> se_db e' = se_db e"
proof -
  let ?ks = "map msg_hash (tx_user_messages tx)"
  from inv have h: "trie_holds E (se_db e) (se_trie e) S" and ne: "S \<noteq> {}"
    by (simp_all add: engine_inv_def)
  from msgs(2) have al: "trie_allowed (S \<union> set ?ks)" by simp
  from trie_set.add_ok [OF h msgs(1) al] obtain t1 where
    t1: "merkle_trie_insert E (se_db e) ?ks (se_trie e) = (t1, Ok (map (\<lambda>k. k \<notin> S) ?ks))"
      "trie_holds E (se_db e) t1 (S \<union> set ?ks)" by blast
  have "merkle_trie_root_hash t1 = Ok (merkle E 0 (S \<union> set ?ks))"
    using trie_set.root_ok [OF t1(2)] ne by simp
  with chunk engine_inv_root [OF inv] t1(1) root [symmetric] show ?thesis
    by (simp add: commit_shard_chunk_def Let_def)
qed


section \<open>Start\<close>

lemma keys_ok_singleton: "keys_ok {k} \<longleftrightarrow> TIMESTAMP_LENGTH \<le> length k"
  by (simp add: keys_ok_def prefix_free_def)

lemma initial_key_allowed: "trie_allowed ({} \<union> set [initial_key])"
  by (simp add: trie_allowed_def keys_ok_singleton initial_key_def TIMESTAMP_LENGTH_def)

lemma engine_new_ok:
  assumes db: "db_healthy db" "env_ok E" and S: "trie_allowed (S \<union> set [initial_key])"
    and root: "stored_root E (db_view db) S \<or> S = {} \<and> db_view db (make_primary_key [] None) = None"
  shows "\<exists>e. shard_engine_new E open_fn shard db = Ok e \<and> engine_inv E e (insert initial_key S) \<and>
    se_messages e = [] \<and> se_shard_id e = shard"
proof -
  have "\<not> mt_db_owned merkle_trie_new_with_db" "mt_txn_batch merkle_trie_new_with_db = txn_new"
    by (simp_all add: merkle_trie_new_with_db_def)
  from initialize_ok [OF db this root, of open_fn] obtain t1 where
    t1: "merkle_trie_initialize E open_fn db merkle_trie_new_with_db = ((db, t1), Ok ())"
      "trie_holds E db t1 S" using db by (auto simp: trie_holds_def)
  from trie_set.add_ok [OF t1(2) _ S] obtain t2 where
    t2: "merkle_trie_insert E db [initial_key] t1 = (t2, Ok [initial_key \<notin> S])"
      "trie_holds E db t2 (insert initial_key S)" by auto
  from trie_set.flush_revert [OF t2(2)] obtain d t3 t4 where
    f: "merkle_trie_commit db t2 = ((d, t3), Ok ())" "merkle_trie_reload E d t3 = (t4, Ok ())"
      "trie_holds E d t4 (insert initial_key S)" "trie_saved E d (insert initial_key S)" by blast
  show ?thesis
    using t1(1) t2(1) f by (simp add: shard_engine_new_def engine_inv_def)
qed

section \<open>Replicas\<close>

text \<open>
  Message hashes of the expected length, none below the initial key of the trie, keep the key set
  prefix free.
\<close>

definition valid_hash :: "bytes \<Rightarrow> bool" where
  "valid_hash h \<longleftrightarrow> length h = BLAKE3_HASH_LEN \<and> take (length initial_key) h \<noteq> initial_key"

lemma valid_hashes_keys_ok:
  assumes "\<forall>k \<in> S. k = initial_key \<or> valid_hash k"
  shows "keys_ok S"
proof -
  have "k = k'" if "k \<in> S" "k' \<in> S" "prefix k k'" for k k'
  proof -
    from assms that(1,2) have "k = initial_key \<or> valid_hash k" "k' = initial_key \<or> valid_hash k'" by auto
    moreover have "take (length k) k' = k" "length k \<le> length k'"
      using that(3) by (auto simp: prefix_def)
    ultimately show ?thesis
      by (auto simp: valid_hash_def initial_key_def BLAKE3_HASH_LEN_def)
  qed
  moreover have "TIMESTAMP_LENGTH \<le> length k" if "k \<in> S" for k
    using assms that by (auto simp: valid_hash_def initial_key_def BLAKE3_HASH_LEN_def TIMESTAMP_LENGTH_def)
  ultimately show ?thesis by (simp add: keys_ok_def prefix_free_def)
qed

definition committed_ok :: "bytes set \<Rightarrow> bool" where
  "committed_ok S \<longleftrightarrow> (\<forall>k \<in> S. k = initial_key \<or> valid_hash k) \<and> card S < 2 ^ 32"

lemma committed_ok_allowed: "committed_ok S \<Longrightarrow> trie_allowed S"
  by (simp add: committed_ok_def trie_allowed_def valid_hashes_keys_ok)

lemma committed_ok_mono: "committed_ok T \<Longrightarrow> S \<subseteq> T \<Longrightarrow> finite T \<Longrightarrow> committed_ok S"
  using card_mono [of T S] by (fastforce simp: committed_ok_def)

text \<open>
  The runs of an engine: any sequence of calls of its three operations that return.  The relation
  asks nothing of the messages and of the chunks.
\<close>

datatype engine_action = Submit message | Propose u32 | Commit shard_chunk

inductive engine_step :: "trie_env \<Rightarrow> chain_codec \<Rightarrow> engine_action \<Rightarrow> shard_engine \<Rightarrow> shard_engine \<Rightarrow> bool"
  for E :: trie_env and C :: chain_codec where
  submit: "shard_engine_submit m e = Some e' \<Longrightarrow> engine_step E C (Submit m) e e'"
| propose: "propose_state_change E shard e = (e', Ok change) \<Longrightarrow> engine_step E C (Propose shard) e e'"
| commit: "commit_shard_chunk E C chunk e = (e', Ok ()) \<Longrightarrow> engine_step E C (Commit chunk) e e'"

inductive_cases engine_step_elim: "engine_step E C a e e'"

inductive engine_run :: "trie_env \<Rightarrow> chain_codec \<Rightarrow> shard_engine \<Rightarrow> engine_action list \<Rightarrow> shard_engine \<Rightarrow> bool"
  for E :: trie_env and C :: chain_codec and e0 :: shard_engine where
  start: "engine_run E C e0 [] e0"
| step: "engine_run E C e0 acts e \<Longrightarrow> engine_step E C a e e' \<Longrightarrow> engine_run E C e0 (acts @ [a]) e'"

text \<open>The hashes a chunk brings into the trie, and those of the chunks committed along a run.\<close>

definition chunk_hashes :: "shard_chunk \<Rightarrow> bytes list" where
  "chunk_hashes chunk = map msg_hash (tx_user_messages (hd (sc_transactions chunk)))"

fun action_hashes :: "engine_action \<Rightarrow> bytes list" where
  "action_hashes (Commit chunk) = chunk_hashes chunk"
| "action_hashes _ = []"

definition committed_keys :: "engine_action list \<Rightarrow> bytes set" where
  "committed_keys acts = insert initial_key (\<Union>a \<in> set acts. set (action_hashes a))"

lemma committed_keys_snoc: "committed_keys (acts @ [a]) = committed_keys acts \<union> set (action_hashes a)"
  by (auto simp: committed_keys_def)

lemma finite_committed_keys: "finite (committed_keys acts)"
  by (simp add: committed_keys_def)

lemma submit_inv: "engine_inv E e S \<Longrightarrow> shard_engine_submit m e = Some e' \<Longrightarrow> engine_inv E e' S"
  by (auto simp: shard_engine_submit_def engine_inv_def split: if_splits)

text \<open>A proposal leaves the trie as it was, whatever the messages are.\<close>

lemma propose_inv:
  assumes inv: "engine_inv E e S" and p: "propose_state_change E shard e = (e', Ok change)"
  shows "engine_inv E e' S"
proof -
  from inv have s: "trie_saved E (se_db e) S" by (simp add: engine_inv_def)
  obtain t1 r where ins: "merkle_trie_insert E (se_db e) (map msg_hash (se_messages e)) (se_trie e) = (t1, r)"
    by fastforce
  from trie_set.revert_ok [OF s, of t1] obtain t2 where
    "merkle_trie_reload E (se_db e) t1 = (t2, Ok ())" "trie_holds E (se_db e) t2 S" by blast
  with p ins engine_inv_root [OF inv] inv show ?thesis
    by (auto simp: propose_state_change_def Let_def engine_inv_def split: result.splits)
qed

lemma commit_inv:
  assumes inv: "engine_inv E e S" and c: "commit_shard_chunk E C chunk e = (e', Ok ())"
    and hs: "distinct (chunk_hashes chunk)" "committed_ok (S \<union> set (chunk_hashes chunk))"
  shows "engine_inv E e' (S \<union> set (chunk_hashes chunk))"
proof -
  from c obtain header tx txs where ch: "sc_header chunk = Some header" "sc_transactions chunk = tx # txs"
    by (auto simp: commit_shard_chunk_def split: option.splits list.splits)
  have set: "set (chunk_hashes chunk) = msg_hash ` set (tx_user_messages tx)" by (simp add: chunk_hashes_def ch)
  have msgs: "distinct (map msg_hash (tx_user_messages tx))"
    "trie_allowed (S \<union> msg_hash ` set (tx_user_messages tx))"
    using hs(1) ch committed_ok_allowed [OF hs(2)] set by (simp_all add: chunk_hashes_def)
  show ?thesis
  proof (cases "sh_shard_root header = merkle E 0 (S \<union> msg_hash ` set (tx_user_messages tx))")
    case True
    show ?thesis
      using commit_chunk_ok [OF inv ch _ msgs True, of _ C] commit_chunk_no_height [OF inv ch _ msgs True, of C] c
      by (cases "chunk_number_of chunk") (auto simp: set)
  next
    case False
    from commit_chunk_mismatch [OF inv ch msgs False, of C] c show ?thesis by simp
  qed
qed

lemma engine_step_inv:
  assumes "engine_step E C a e e'" "engine_inv E e S" "distinct (action_hashes a)"
    "committed_ok (S \<union> set (action_hashes a))"
  shows "engine_inv E e' (S \<union> set (action_hashes a))"
  using assms
  by (cases rule: engine_step.cases) (auto intro: submit_inv propose_inv simp: commit_inv)

lemma engine_run_inv:
  assumes "engine_run E C e0 acts e" "engine_inv E e0 {initial_key}"
    "\<forall>a \<in> set acts. distinct (action_hashes a)" "committed_ok (committed_keys acts)"
  shows "engine_inv E e (committed_keys acts)"
  using assms
proof (induction rule: engine_run.induct)
  case start
  then show ?case by (simp add: committed_keys_def)
next
  case (step acts e a e')
  have "committed_ok (committed_keys acts)"
    using committed_ok_mono [OF step.prems(3)] by (simp add: committed_keys_snoc finite_committed_keys)
  with step have "engine_inv E e (committed_keys acts)" by simp
  from engine_step_inv [OF step.hyps(2) this] step.prems show ?case by (simp add: committed_keys_snoc)
qed

lemma engine_new_fresh:
  assumes "db_healthy db" "env_ok E" "db_view db (make_primary_key [] None) = None"
    "shard_engine_new E open_fn shard db = Ok e0"
  shows "engine_inv E e0 {initial_key}"
  using engine_new_ok [OF assms(1,2) initial_key_allowed, of open_fn shard] assms(3,4) by auto

end
