(* ===== verification/Proposers.thy ===== *)
theory Proposers
  imports Shard_Engine
begin

text \<open>
  \<open>consensus/proposer.rs\<close>: the shard proposer, which turns the engine's buffered messages into a
  proposed chunk, and the block proposer, which collects one decided chunk per shard into a block.
  The locale \<open>proposer\<close> is the trait's contract and is interpreted for both.  The clock, the header
  encoders and the RPC client are parameters; the \<open>select!\<close> loop of
  \<open>collect_confirmed_shard_chunks\<close> runs over an explicit schedule of ticks and the deadline.
\<close>

section \<open>Environment\<close>

definition FARCASTER_EPOCH :: nat where
  "FARCASTER_EPOCH = 1609459200"

text \<open>\<open>now\<close> is the number of seconds since the Unix epoch.\<close>

definition current_time :: "u64 \<Rightarrow> ('e, u64) result" where
  "current_time now =
     (if unat now < FARCASTER_EPOCH then Panic sub_overflow
      else Ok (now - word_of_nat FARCASTER_EPOCH))"

text \<open>The sending half of a channel: what was sent, and whether the receiver still exists.\<close>

record 'a sender =
  snd_open :: bool
  snd_sent :: "'a list"

definition sender_send :: "'a \<Rightarrow> 'a sender \<Rightarrow> 'a sender" where
  "sender_send x s = (if snd_open s then s\<lparr>snd_sent := snd_sent s @ [x]\<rparr> else s)"

text \<open>The generated encoders of the two headers; the 32-byte digest comes from the trie's environment.\<close>

record header_codec =
  hc_shard_header :: "shard_header \<Rightarrow> bytes"
  hc_block_header :: "block_header \<Rightarrow> bytes"

definition genesis_parent :: bytes where
  "genesis_parent = [0, 32]"

section \<open>The shard proposer\<close>

record shard_proposer =
  spr_shard_id :: u32
  spr_address :: address
  spr_chunks :: "shard_chunk list"
  spr_proposed_chunks :: "(shard_hash \<times> full_proposal) list"
  spr_tx_decision :: "full_proposal sender option"
  spr_engine :: shard_engine

definition shard_proposer_new ::
  "address \<Rightarrow> u32 \<Rightarrow> shard_engine \<Rightarrow> full_proposal sender option \<Rightarrow> shard_proposer" where
  "shard_proposer_new a shard engine tx =
     \<lparr>spr_shard_id = shard, spr_address = a, spr_chunks = [], spr_proposed_chunks = [],
      spr_tx_decision = tx, spr_engine = engine\<rparr>"

definition shard_parent_hash :: "shard_proposer \<Rightarrow> bytes" where
  "shard_parent_hash self = (if spr_chunks self = [] then genesis_parent else sc_hash (last (spr_chunks self)))"

definition shard_propose_value ::
  "trie_env \<Rightarrow> header_codec \<Rightarrow> 'r round_ops \<Rightarrow> u64 \<Rightarrow> height \<Rightarrow> 'r \<Rightarrow> shard_proposer \<Rightarrow>
     shard_proposer \<times> (hub_error, full_proposal) result" where
  "shard_propose_value E H R now h r self =
     (let parent_hash = shard_parent_hash self in
      case propose_state_change E (spr_shard_id self) (spr_engine self) of
        (engine, Err e) \<Rightarrow> (self\<lparr>spr_engine := engine\<rparr>, Err e)
      | (engine, Panic m) \<Rightarrow> (self\<lparr>spr_engine := engine\<rparr>, Panic m)
      | (engine, Ok change) \<Rightarrow>
          (let self1 = self\<lparr>spr_engine := engine\<rparr> in
           case current_time now of
             Err e \<Rightarrow> (self1, Err e)
           | Panic m \<Rightarrow> (self1, Panic m)
           | Ok timestamp \<Rightarrow>
               (let header = \<lparr>sh_height = Some h, sh_timestamp = timestamp, sh_parent_hash = parent_hash,
                              sh_shard_root = ssc_new_state_root change\<rparr>;
                    hash = env_blake3 E (hc_shard_header H header);
                    chunk = \<lparr>sc_header = Some header, sc_hash = hash,
                             sc_transactions = ssc_transactions change, sc_votes = None\<rparr>;
                    shard_hash = \<lparr>sh_shard_index = shard_index h, sh_hash = hash\<rparr>;
                    proposal = \<lparr>fp_height = Some h, fp_round = rnd_as_i64 R r,
                                fp_proposer = address_to_vec (spr_address self1),
                                fp_proposed_value = Some (Shard chunk)\<rparr>
                in (self1\<lparr>spr_proposed_chunks := hm_insert shard_hash proposal (spr_proposed_chunks self1)\<rparr>,
                    Ok proposal))))"

definition chunk_state_change :: "shard_chunk \<Rightarrow> (hub_error, shard_state_change) result" where
  "chunk_state_change chunk =
     (case sc_header chunk of
        None \<Rightarrow> Panic unwrap_none
      | Some header \<Rightarrow>
          (case sh_height header of
             None \<Rightarrow> Panic unwrap_none
           | Some h \<Rightarrow> Ok \<lparr>ssc_shard_id = shard_index h, ssc_new_state_root = sh_shard_root header,
                            ssc_transactions = sc_transactions chunk\<rparr>))"

definition shard_add_proposed_value ::
  "full_proposal \<Rightarrow> shard_proposer \<Rightarrow> shard_proposer \<times> (hub_error, validity) result" where
  "shard_add_proposed_value fp self =
     (case fp_proposed_value fp of
        Some (Shard chunk) \<Rightarrow>
          (case full_proposal_shard_hash fp of
             Err e \<Rightarrow> (self, Err e)
           | Panic m \<Rightarrow> (self, Panic m)
           | Ok v \<Rightarrow>
               (let self1 = self\<lparr>spr_proposed_chunks := hm_insert v fp (spr_proposed_chunks self)\<rparr> in
                (self1,
                 bind_result (chunk_state_change chunk)
                   (\<lambda>state. Ok (if validate_state_change state (spr_engine self1) then Valid else Invalid)))))
      | _ \<Rightarrow> (self, Ok Invalid))"

definition shard_decide ::
  "trie_env \<Rightarrow> chain_codec \<Rightarrow> height \<Rightarrow> shard_hash \<Rightarrow> shard_proposer \<Rightarrow>
     shard_proposer \<times> (hub_error, unit) result" where
  "shard_decide E C h v self =
     (case hm_get (spr_proposed_chunks self) v of
        None \<Rightarrow> (self, Ok ())
      | Some proposal \<Rightarrow>
          (let self1 = self\<lparr>spr_tx_decision := map_option (sender_send proposal) (spr_tx_decision self)\<rparr> in
           case full_proposal_shard_chunk proposal of
             None \<Rightarrow> (self1, Panic unwrap_none)
           | Some chunk \<Rightarrow>
               (let self2 = self1\<lparr>spr_chunks := spr_chunks self1 @ [chunk]\<rparr> in
                case commit_shard_chunk E C chunk (spr_engine self2) of
                  (engine, Ok _) \<Rightarrow>
                    (self2\<lparr>spr_engine := engine,
                           spr_proposed_chunks := hm_remove v (spr_proposed_chunks self2)\<rparr>, Ok ())
                | (engine, Err e) \<Rightarrow> (self2\<lparr>spr_engine := engine\<rparr>, Err e)
                | (engine, Panic m) \<Rightarrow> (self2\<lparr>spr_engine := engine\<rparr>, Panic m))))"

definition shard_proposer_confirmed_height :: "chain_codec \<Rightarrow> shard_proposer \<Rightarrow> ('e, height) result" where
  "shard_proposer_confirmed_height C self = shard_engine_confirmed_height C (spr_engine self)"

section \<open>The block proposer\<close>

datatype block_proposer_error =
    BpBlockMissingHeader | BpBlockMissingHeight | BpNoPeers | RpcTransportError string
  | RpcResponseError string | BpBlockStorageError block_storage_error

record block_proposer =
  bpr_shard_id :: u32
  bpr_address :: address
  bpr_blocks :: "block list"
  bpr_proposed_blocks :: "(shard_hash \<times> full_proposal) list"
  bpr_pending_chunks :: "(u64 \<times> shard_chunk list) list"
  bpr_shard_decision_rx :: "full_proposal list"
  bpr_num_shards :: u32
  bpr_block_tx :: "block sender"
  bpr_engine :: block_engine

definition block_proposer_new ::
  "address \<Rightarrow> u32 \<Rightarrow> full_proposal list \<Rightarrow> u32 \<Rightarrow> block sender \<Rightarrow> block_engine \<Rightarrow> block_proposer" where
  "block_proposer_new a shard rx n tx engine =
     \<lparr>bpr_shard_id = shard, bpr_address = a, bpr_blocks = [], bpr_proposed_blocks = [],
      bpr_pending_chunks = [], bpr_shard_decision_rx = rx, bpr_num_shards = n, bpr_block_tx = tx,
      bpr_engine = engine\<rparr>"

text \<open>
  \<open>collect_confirmed_shard_chunks\<close> waits on a poll interval and a deadline.  The schedule lists
  what happens: a tick, with the decisions that arrived since the last one, or the deadline.
\<close>

datatype collect_event = Tick "full_proposal list" | Deadline

definition receive_decision :: "full_proposal \<Rightarrow> block_proposer \<Rightarrow> (hub_error, block_proposer) result" where
  "receive_decision decision self =
     (case fp_proposed_value decision of
        Some (Shard chunk) \<Rightarrow>
          (case sc_header chunk of
             None \<Rightarrow> Panic unwrap_none
           | Some header \<Rightarrow>
               (case sh_height header of
                  None \<Rightarrow> Panic unwrap_none
                | Some h \<Rightarrow>
                    Ok (self\<lparr>bpr_pending_chunks :=
                      (case hm_get (bpr_pending_chunks self) (block_number h) of
                         Some chunks \<Rightarrow> hm_insert (block_number h) (chunks @ [chunk]) (bpr_pending_chunks self)
                       | None \<Rightarrow> hm_insert (block_number h) [chunk] (bpr_pending_chunks self))\<rparr>)))
      | _ \<Rightarrow> Ok self)"

definition poll_decision :: "full_proposal list \<Rightarrow> block_proposer \<Rightarrow> (hub_error, block_proposer) result" where
  "poll_decision arrived self =
     (case bpr_shard_decision_rx self @ arrived of
        [] \<Rightarrow> Ok self
      | decision # rest \<Rightarrow> receive_decision decision (self\<lparr>bpr_shard_decision_rx := rest\<rparr>))"

definition all_chunks_received :: "u64 \<Rightarrow> block_proposer \<Rightarrow> bool" where
  "all_chunks_received requested self =
     (case hm_get (bpr_pending_chunks self) requested of
        None \<Rightarrow> False
      | Some chunks \<Rightarrow> length chunks = unat (bpr_num_shards self))"

text \<open>\<^const>\<open>None\<close>: the schedule ended while the loop was still waiting.\<close>

fun collect_loop ::
  "u64 \<Rightarrow> collect_event list \<Rightarrow> block_proposer \<Rightarrow> block_proposer \<times> (hub_error, unit) result option" where
  "collect_loop requested [] self = (self, None)"
| "collect_loop requested (Deadline # events) self = (self, Some (Ok ()))"
| "collect_loop requested (Tick arrived # events) self =
     (case poll_decision arrived self of
        Err e \<Rightarrow> (self, Some (Err e))
      | Panic m \<Rightarrow> (self, Some (Panic m))
      | Ok self1 \<Rightarrow>
          if all_chunks_received requested self1 then (self1, Some (Ok ()))
          else collect_loop requested events self1)"

definition pending_chunks_at :: "u64 \<Rightarrow> block_proposer \<Rightarrow> shard_chunk list" where
  "pending_chunks_at requested self =
     (case hm_get (bpr_pending_chunks self) requested of None \<Rightarrow> [] | Some chunks \<Rightarrow> chunks)"

definition collect_confirmed_shard_chunks ::
  "height \<Rightarrow> collect_event list \<Rightarrow> block_proposer \<Rightarrow>
     block_proposer \<times> (hub_error, shard_chunk list) result option" where
  "collect_confirmed_shard_chunks h events self =
     (case collect_loop (block_number h) events self of
        (self1, None) \<Rightarrow> (self1, None)
      | (self1, Some r) \<Rightarrow>
          (self1, Some (bind_result r (\<lambda>_. Ok (pending_chunks_at (block_number h) self1)))))"

definition publish_new_block :: "block \<Rightarrow> block_proposer \<Rightarrow> block_proposer" where
  "publish_new_block b self = self\<lparr>bpr_block_tx := sender_send b (bpr_block_tx self)\<rparr>"

definition previous_block_number :: "block_proposer \<Rightarrow> (block_proposer_error, u64) result" where
  "previous_block_number self =
     (if bpr_blocks self = [] then Ok 0
      else (case b_header (last (bpr_blocks self)) of
              None \<Rightarrow> Err BpBlockMissingHeader
            | Some header \<Rightarrow>
                (case bh_height header of None \<Rightarrow> Err BpBlockMissingHeight | Some h \<Rightarrow> Ok (block_number h))))"

text \<open>\<open>connect\<close> and \<open>rpc_blocks\<close> are the RPC client's answers for the peer.\<close>

definition proposer_register_validator ::
  "(string \<Rightarrow> (string, unit) result) \<Rightarrow> (string \<Rightarrow> blocks_request \<Rightarrow> (string, block list) result) \<Rightarrow>
     snapchain_validator \<Rightarrow> block_proposer \<Rightarrow> block_proposer \<times> (block_proposer_error, unit) result" where
  "proposer_register_validator connect rpc_blocks validator self =
     (case previous_block_number self of
        Err e \<Rightarrow> (self, Err e)
      | Panic m \<Rightarrow> (self, Panic m)
      | Ok prev \<Rightarrow>
          if \<not> sv_current_height validator > prev then (self, Ok ())
          else
            (case sv_rpc_address validator of
               None \<Rightarrow> (self, Ok ())
             | Some rpc_address \<Rightarrow>
                 (let destination = ''http://'' @ rpc_address in
                  case connect destination of
                    Err e \<Rightarrow> (self, Err (RpcTransportError e))
                  | Panic m \<Rightarrow> (self, Panic m)
                  | Ok _ \<Rightarrow>
                      (case rpc_blocks destination
                              \<lparr>br_shard_id = bpr_shard_id self, br_start_block_number = prev + 1,
                               br_stop_block_number = None\<rparr> of
                         Err e \<Rightarrow> (self, Err (RpcResponseError e))
                       | Panic m \<Rightarrow> (self, Panic m)
                       | Ok missing \<Rightarrow>
                           (fold (\<lambda>b s. publish_new_block b (s\<lparr>bpr_blocks := bpr_blocks s @ [b]\<rparr>)) missing self,
                            Ok ())))))"

definition block_parent_hash :: "block_proposer \<Rightarrow> bytes" where
  "block_parent_hash self = (if bpr_blocks self = [] then genesis_parent else b_hash (last (bpr_blocks self)))"

definition block_propose_value ::
  "trie_env \<Rightarrow> header_codec \<Rightarrow> 'r round_ops \<Rightarrow> u64 \<Rightarrow> collect_event list \<Rightarrow> height \<Rightarrow> 'r \<Rightarrow>
     block_proposer \<Rightarrow> block_proposer \<times> (hub_error, full_proposal) result option" where
  "block_propose_value E H R now events h r self =
     (case collect_confirmed_shard_chunks h events self of
        (self1, None) \<Rightarrow> (self1, None)
      | (self1, Some (Err e)) \<Rightarrow> (self1, Some (Err e))
      | (self1, Some (Panic m)) \<Rightarrow> (self1, Some (Panic m))
      | (self1, Some (Ok shard_chunks)) \<Rightarrow>
          (case current_time now of
             Err e \<Rightarrow> (self1, Some (Err e))
           | Panic m \<Rightarrow> (self1, Some (Panic m))
           | Ok timestamp \<Rightarrow>
               (let header = \<lparr>bh_height = Some h, bh_timestamp = timestamp, bh_version = 0, bh_chain_id = 0,
                              bh_validators_hash = [], bh_shard_headers_hash = [],
                              bh_parent_hash = block_parent_hash self1\<rparr>;
                    hash = env_blake3 E (hc_block_header H header);
                    b = \<lparr>b_header = Some header, b_hash = hash, b_shard_chunks = shard_chunks,
                         b_validators = None, b_votes = None\<rparr>;
                    shard_hash = \<lparr>sh_shard_index = shard_index h, sh_hash = hash\<rparr>;
                    proposal = \<lparr>fp_height = Some h, fp_round = rnd_as_i64 R r,
                                fp_proposer = address_to_vec (bpr_address self1),
                                fp_proposed_value = Some (Block b)\<rparr>
                in (self1\<lparr>bpr_proposed_blocks := hm_insert shard_hash proposal (bpr_proposed_blocks self1)\<rparr>,
                    Some (Ok proposal)))))"

definition block_add_proposed_value ::
  "full_proposal \<Rightarrow> block_proposer \<Rightarrow> block_proposer \<times> (hub_error, validity) result" where
  "block_add_proposed_value fp self =
     (case fp_proposed_value fp of
        Some (Block b) \<Rightarrow>
          (case full_proposal_shard_hash fp of
             Err e \<Rightarrow> (self, Err e)
           | Panic m \<Rightarrow> (self, Panic m)
           | Ok v \<Rightarrow> (self\<lparr>bpr_proposed_blocks := hm_insert v fp (bpr_proposed_blocks self)\<rparr>, Ok Valid))
      | _ \<Rightarrow> (self, Ok Valid))"

definition block_decide ::
  "chain_codec \<Rightarrow> height \<Rightarrow> shard_hash \<Rightarrow> block_proposer \<Rightarrow> block_proposer \<times> (hub_error, unit) result" where
  "block_decide C h v self =
     (case hm_get (bpr_proposed_blocks self) v of
        None \<Rightarrow> (self, Ok ())
      | Some proposal \<Rightarrow>
          (case full_proposal_block proposal of
             None \<Rightarrow> (self, Panic unwrap_none)
           | Some b \<Rightarrow>
               (case commit_block C b (bpr_engine self) of
                  (engine, Err e) \<Rightarrow> (self\<lparr>bpr_engine := engine\<rparr>, Err e)
                | (engine, Panic m) \<Rightarrow> (self\<lparr>bpr_engine := engine\<rparr>, Panic m)
                | (engine, Ok _) \<Rightarrow>
                    (let self1 = publish_new_block b (self\<lparr>bpr_engine := engine\<rparr>) in
                     (self1\<lparr>bpr_blocks := bpr_blocks self1 @ [b],
                            bpr_proposed_blocks := hm_remove v (bpr_proposed_blocks self1),
                            bpr_pending_chunks := hm_remove (block_number h) (bpr_pending_chunks self1)\<rparr>,
                      Ok ())))))"

definition block_proposer_confirmed_height :: "chain_codec \<Rightarrow> block_proposer \<Rightarrow> ('e, height) result" where
  "block_proposer_confirmed_height C self = block_engine_confirmed_height C (bpr_engine self)"

section \<open>The contract of a proposer\<close>

text \<open>
  The trait \<open>Proposer\<close>: a proposed value is remembered under its hash until it is decided, and a
  decision on a known hash appends its value to the history.
\<close>

locale proposer =
  fixes proposed :: "'p \<Rightarrow> shard_hash \<Rightarrow> full_proposal option"
    and history :: "'p \<Rightarrow> proposed_value list"
    and own :: "proposed_value \<Rightarrow> bool"
    and propose :: "height \<Rightarrow> 'p \<Rightarrow> 'p \<times> (hub_error, full_proposal) result option"
    and add_value :: "full_proposal \<Rightarrow> 'p \<Rightarrow> 'p \<times> (hub_error, validity) result"
    and decide :: "height \<Rightarrow> shard_hash \<Rightarrow> 'p \<Rightarrow> 'p \<times> (hub_error, unit) result"
  assumes propose_known: "propose h p = (p', Some (Ok fp)) \<Longrightarrow>
      \<exists>v x. full_proposal_shard_hash fp = (Ok v :: (hub_error, shard_hash) result) \<and> fp_height fp = Some h \<and>
        fp_proposed_value fp = Some x \<and> own x \<and> proposed p' = (proposed p)(v \<mapsto> fp) \<and> history p' = history p"
    and add_known: "add_value fp p = (p', Ok Valid) \<Longrightarrow> fp_proposed_value fp = Some x \<Longrightarrow> own x \<Longrightarrow>
      \<exists>v. full_proposal_shard_hash fp = (Ok v :: (hub_error, shard_hash) result) \<and>
        proposed p' = (proposed p)(v \<mapsto> fp) \<and> history p' = history p"
    and decide_known: "decide h v p = (p', Ok ()) \<Longrightarrow> proposed p v = Some fp \<Longrightarrow>
      \<exists>x. fp_proposed_value fp = Some x \<and> own x \<and> history p' = history p @ [x] \<and>
        proposed p' = (proposed p)(v := None)"
    and decide_unknown: "proposed p v = None \<Longrightarrow> decide h v p = (p, Ok ())"
begin

text \<open>A proposer that decides its own proposal appends exactly that value.\<close>

lemma propose_decide:
  assumes "propose h p = (p1, Some (Ok fp))" "full_proposal_shard_hash fp = (Ok v :: (hub_error, shard_hash) result)"
    "decide h v p1 = (p2, Ok ())"
  shows "\<exists>x. fp_proposed_value fp = Some x \<and> history p2 = history p @ [x]"
proof -
  from propose_known [OF assms(1)] assms(2) have "proposed p1 v = Some fp" "history p1 = history p" by auto
  with decide_known [OF assms(3)] show ?thesis by auto
qed

text \<open>So does a validator that received the proposal.\<close>

lemma add_decide:
  assumes "add_value fp p = (p1, Ok Valid)" "fp_proposed_value fp = Some x" "own x"
    "full_proposal_shard_hash fp = (Ok v :: (hub_error, shard_hash) result)" "decide h v p1 = (p2, Ok ())"
  shows "history p2 = history p @ [x]"
proof -
  from add_known [OF assms(1-3)] assms(4) have "proposed p1 v = Some fp" "history p1 = history p" by auto
  with decide_known [OF assms(5)] assms(2) show ?thesis by auto
qed

text \<open>A decision is applied once.\<close>

lemma decide_idem:
  assumes "decide h v p = (p1, Ok ())"
  shows "decide h' v p1 = (p1, Ok ())"
proof (cases "proposed p v")
  case None
  with decide_unknown [of p v h] assms have "p1 = p" by simp
  with None decide_unknown show ?thesis by simp
next
  case (Some fp)
  with decide_known [OF assms] decide_unknown show ?thesis by auto
qed

end

lemma hm_insert_map: "hm_get (hm_insert k v m) = (hm_get m)(k \<mapsto> v)"
  by (simp add: update_conv fun_upd_def)

lemma hm_remove_map: "hm_get (hm_remove k m) = (hm_get m)(k := None)"
  by (auto simp: delete_conv' fun_eq_iff)

interpretation shard: proposer "\<lambda>p. hm_get (spr_proposed_chunks p)" "\<lambda>p. map Shard (spr_chunks p)"
  "\<lambda>x. \<exists>c. x = Shard c"
  "\<lambda>h p. case shard_propose_value E H R now h r p of (p', res) \<Rightarrow> (p', Some res)"
  shard_add_proposed_value "shard_decide E C" for E H R now r C
proof unfold_locales
  fix h p p' fp
  assume "(case shard_propose_value E H R now h r p of (p', res) \<Rightarrow> (p', Some res)) = (p', Some (Ok fp))"
  then show "\<exists>v x. full_proposal_shard_hash fp = (Ok v :: (hub_error, shard_hash) result) \<and> fp_height fp = Some h \<and>
      fp_proposed_value fp = Some x \<and> (\<exists>c. x = Shard c) \<and>
      hm_get (spr_proposed_chunks p') = (hm_get (spr_proposed_chunks p))(v \<mapsto> fp) \<and>
      map Shard (spr_chunks p') = map Shard (spr_chunks p)"
    by (auto simp: shard_propose_value_def Let_def full_proposal_shard_hash_def full_proposal_height_def
        hm_insert_map split: prod.splits result.splits)
next
  fix fp p p' x
  assume "shard_add_proposed_value fp p = (p', Ok Valid)" "fp_proposed_value fp = Some x" "\<exists>c. x = Shard c"
  then show "\<exists>v. full_proposal_shard_hash fp = (Ok v :: (hub_error, shard_hash) result) \<and>
      hm_get (spr_proposed_chunks p') = (hm_get (spr_proposed_chunks p))(v \<mapsto> fp) \<and>
      map Shard (spr_chunks p') = map Shard (spr_chunks p)"
    by (auto simp: shard_add_proposed_value_def Let_def hm_insert_map split: result.splits)
next
  fix h v p p' fp
  assume "shard_decide E C h v p = (p', Ok ())" "hm_get (spr_proposed_chunks p) v = Some fp"
  then show "\<exists>x. fp_proposed_value fp = Some x \<and> (\<exists>c. x = Shard c) \<and>
      map Shard (spr_chunks p') = map Shard (spr_chunks p) @ [x] \<and>
      hm_get (spr_proposed_chunks p') = (hm_get (spr_proposed_chunks p))(v := None)"
    by (auto simp: shard_decide_def Let_def hm_remove_map full_proposal_shard_chunk_def
        split: option.splits proposed_value.splits prod.splits result.splits)
next
  fix p :: shard_proposer and v h
  assume "hm_get (spr_proposed_chunks p) v = None"
  then show "shard_decide E C h v p = (p, Ok ())" by (simp add: shard_decide_def)
qed

lemma collect_loop_keeps:
  "collect_loop n events p = (p', r) \<Longrightarrow>
     bpr_proposed_blocks p' = bpr_proposed_blocks p \<and> bpr_blocks p' = bpr_blocks p \<and>
     bpr_num_shards p' = bpr_num_shards p \<and> bpr_engine p' = bpr_engine p \<and> bpr_block_tx p' = bpr_block_tx p"
proof (induction n events p arbitrary: p' r rule: collect_loop.induct)
  case (3 n arrived events p)
  have keep: "bpr_proposed_blocks p1 = bpr_proposed_blocks p \<and> bpr_blocks p1 = bpr_blocks p \<and>
     bpr_num_shards p1 = bpr_num_shards p \<and> bpr_engine p1 = bpr_engine p \<and> bpr_block_tx p1 = bpr_block_tx p"
    if "poll_decision arrived p = Ok p1" for p1
    using that by (auto simp: poll_decision_def receive_decision_def
        split: list.splits option.splits proposed_value.splits)
  show ?case
  proof (cases "poll_decision arrived p")
    case (Ok p1)
    show ?thesis
    proof (cases "all_chunks_received n p1")
      case True
      with Ok 3(2) keep [OF Ok] show ?thesis by simp
    next
      case False
      with Ok 3(2) have "collect_loop n events p1 = (p', r)" by simp
      from 3(1) [OF Ok False this] keep [OF Ok] show ?thesis by simp
    qed
  qed (use 3(2) in simp_all)
qed auto

interpretation blocks: proposer "\<lambda>p. hm_get (bpr_proposed_blocks p)" "\<lambda>p. map Block (bpr_blocks p)"
  "\<lambda>x. \<exists>b. x = Block b" "\<lambda>h p. block_propose_value E H R now events h r p"
  block_add_proposed_value "block_decide C" for E H R now events r C
proof unfold_locales
  fix h p p' fp
  assume "block_propose_value E H R now events h r p = (p', Some (Ok fp))"
  then show "\<exists>v x. full_proposal_shard_hash fp = (Ok v :: (hub_error, shard_hash) result) \<and> fp_height fp = Some h \<and>
      fp_proposed_value fp = Some x \<and> (\<exists>b. x = Block b) \<and>
      hm_get (bpr_proposed_blocks p') = (hm_get (bpr_proposed_blocks p))(v \<mapsto> fp) \<and>
      map Block (bpr_blocks p') = map Block (bpr_blocks p)"
    by (auto simp: block_propose_value_def collect_confirmed_shard_chunks_def Let_def
        full_proposal_shard_hash_def full_proposal_height_def hm_insert_map
        split: prod.splits result.splits option.splits dest!: collect_loop_keeps)
next
  fix fp p p' x
  assume "block_add_proposed_value fp p = (p', Ok Valid)" "fp_proposed_value fp = Some x" "\<exists>b. x = Block b"
  then show "\<exists>v. full_proposal_shard_hash fp = (Ok v :: (hub_error, shard_hash) result) \<and>
      hm_get (bpr_proposed_blocks p') = (hm_get (bpr_proposed_blocks p))(v \<mapsto> fp) \<and>
      map Block (bpr_blocks p') = map Block (bpr_blocks p)"
    by (auto simp: block_add_proposed_value_def hm_insert_map split: result.splits)
next
  fix h v p p' fp
  assume "block_decide C h v p = (p', Ok ())" "hm_get (bpr_proposed_blocks p) v = Some fp"
  then show "\<exists>x. fp_proposed_value fp = Some x \<and> (\<exists>b. x = Block b) \<and>
      map Block (bpr_blocks p') = map Block (bpr_blocks p) @ [x] \<and>
      hm_get (bpr_proposed_blocks p') = (hm_get (bpr_proposed_blocks p))(v := None)"
    by (auto simp: block_decide_def Let_def hm_remove_map full_proposal_block_def publish_new_block_def
        split: option.splits proposed_value.splits prod.splits result.splits)
next
  fix p :: block_proposer and v h
  assume "hm_get (bpr_proposed_blocks p) v = None"
  then show "block_decide C h v p = (p, Ok ())" by (simp add: block_decide_def)
qed

section \<open>Shard proposals\<close>

text \<open>What a proposal of an engine with the key set \<open>S\<close> looks like.\<close>

definition proposal_for ::
  "trie_env \<Rightarrow> header_codec \<Rightarrow> shard_proposer \<Rightarrow> bytes set \<Rightarrow> message list \<Rightarrow> height \<Rightarrow> full_proposal \<Rightarrow>
     shard_chunk \<Rightarrow> bool" where
  "proposal_for E H p S msgs h fp chunk \<longleftrightarrow>
     fp_height fp = Some h \<and> fp_proposed_value fp = Some (Shard chunk) \<and>
     (\<exists>header. sc_header chunk = Some header \<and> sh_height header = Some h \<and>
        sh_parent_hash header = shard_parent_hash p \<and>
        sh_shard_root header = merkle E 0 (S \<union> msg_hash ` set msgs) \<and>
        sc_hash chunk = env_blake3 E (hc_shard_header H header)) \<and>
     (\<exists>tx. sc_transactions chunk = [tx] \<and> tx_user_messages tx = msgs)"

lemma shard_propose_ok:
  assumes inv: "engine_inv E (spr_engine p) S" and msgs: "se_messages (spr_engine p) = msgs"
    "distinct (map msg_hash msgs)" "committed_ok (S \<union> msg_hash ` set msgs)"
    and time: "FARCASTER_EPOCH \<le> unat now"
  shows "\<exists>p' fp chunk. shard_propose_value E H R now h r p = (p', Ok fp) \<and>
    proposal_for E H p S msgs h fp chunk \<and> engine_inv E (spr_engine p') S \<and>
    se_messages (spr_engine p') = [] \<and> spr_chunks p' = spr_chunks p \<and>
    hm_get (spr_proposed_chunks p') \<lparr>sh_shard_index = shard_index h, sh_hash = sc_hash chunk\<rparr> = Some fp"
proof -
  from propose_ok [OF inv msgs(1,2) committed_ok_allowed [OF msgs(3)], of "spr_shard_id p"] obtain e' where
    e': "propose_state_change E (spr_shard_id p) (spr_engine p) = (e', Ok \<lparr>ssc_shard_id = spr_shard_id p,
        ssc_new_state_root = merkle E 0 (S \<union> msg_hash ` set msgs),
        ssc_transactions = [\<lparr>tx_fid = 1234, tx_user_messages = msgs, tx_system_messages = [],
                             tx_account_root = [5, 5, 6, 6]\<rparr>]\<rparr>)"
      "engine_inv E e' S" "se_messages e' = []" by blast
  from time have "current_time now = (Ok (now - word_of_nat FARCASTER_EPOCH) :: (hub_error, u64) result)"
    by (simp add: current_time_def)
  with e' show ?thesis
    by (simp add: shard_propose_value_def Let_def proposal_for_def hm_get_insert)
qed

lemma proposal_hash:
  "proposal_for E H p S msgs h fp chunk \<Longrightarrow>
     full_proposal_shard_hash fp = Ok \<lparr>sh_shard_index = shard_index h, sh_hash = sc_hash chunk\<rparr>"
  by (simp add: proposal_for_def full_proposal_shard_hash_def full_proposal_height_def)

lemma add_proposal_ok:
  assumes "proposal_for E H p S msgs h fp chunk"
  shows "\<exists>q'. shard_add_proposed_value fp q = (q', Ok Valid) \<and> spr_engine q' = spr_engine q \<and>
    spr_chunks q' = spr_chunks q \<and>
    hm_get (spr_proposed_chunks q') \<lparr>sh_shard_index = shard_index h, sh_hash = sc_hash chunk\<rparr> = Some fp"
  using assms proposal_hash [OF assms, where ?'a = hub_error]
  by (auto simp: proposal_for_def shard_add_proposed_value_def chunk_state_change_def validate_state_change_def
      hm_get_insert Let_def)

text \<open>Whoever holds the proposal and the same key set can decide it.\<close>

lemma decide_proposal_ok:
  assumes fp: "proposal_for E H p S msgs h fp chunk"
    and q: "hm_get (spr_proposed_chunks q) \<lparr>sh_shard_index = shard_index h, sh_hash = sc_hash chunk\<rparr> = Some fp"
    and inv: "engine_inv E (spr_engine q) S"
    and msgs: "distinct (map msg_hash msgs)" "committed_ok (S \<union> msg_hash ` set msgs)"
  shows "\<exists>q'. shard_decide E C h \<lparr>sh_shard_index = shard_index h, sh_hash = sc_hash chunk\<rparr> q = (q', Ok ()) \<and>
    engine_inv E (spr_engine q') (S \<union> msg_hash ` set msgs) \<and> spr_chunks q' = spr_chunks q @ [chunk] \<and>
    db_view (se_db (spr_engine q')) (make_shard_key (block_number h)) = Some (cc_chunk_encode C chunk)"
proof -
  from fp obtain header tx where c: "fp_proposed_value fp = Some (Shard chunk)" "sc_header chunk = Some header"
    "sh_height header = Some h" "sh_shard_root header = merkle E 0 (S \<union> msg_hash ` set msgs)"
    "sc_transactions chunk = [tx]" "tx_user_messages tx = msgs" by (auto simp: proposal_for_def)
  then have n: "chunk_number_of chunk = Some (block_number h)" by (simp add: chunk_number_of_def)
  from commit_chunk_ok [OF inv c(2,5) n, of C] c(4,6) msgs(1) committed_ok_allowed [OF msgs(2)]
  obtain e' where "commit_shard_chunk E C chunk (spr_engine q) = (e', Ok ())"
    "engine_inv E e' (S \<union> msg_hash ` set msgs)"
    "db_view (se_db e') (make_shard_key (block_number h)) = Some (cc_chunk_encode C chunk)" by auto
  with q c(1) show ?thesis
    by (simp add: shard_decide_def full_proposal_shard_chunk_def Let_def)
qed

section \<open>Block proposals\<close>

text \<open>Pending chunks are filed under their own block number.\<close>

definition pending_ok :: "block_proposer \<Rightarrow> bool" where
  "pending_ok p \<longleftrightarrow> (\<forall>n cs. hm_get (bpr_pending_chunks p) n = Some cs \<longrightarrow>
     (\<forall>c \<in> set cs. chunk_number_of c = Some n))"

lemma pending_at_ok:
  "pending_ok p \<Longrightarrow> c \<in> set (pending_chunks_at n p) \<Longrightarrow> chunk_number_of c = Some n"
  by (cases "hm_get (bpr_pending_chunks p) n") (simp_all add: pending_ok_def pending_chunks_at_def)

lemma receive_decision_cases:
  assumes "receive_decision d p = Ok p'"
  shows "p' = p \<or> (\<exists>chunk n. chunk_number_of chunk = Some n \<and>
    p' = p\<lparr>bpr_pending_chunks := hm_insert n (pending_chunks_at n p @ [chunk]) (bpr_pending_chunks p)\<rparr>)"
  using assms
  by (auto simp: receive_decision_def chunk_number_of_def pending_chunks_at_def
      split: option.splits proposed_value.splits)

lemma receive_decision_pending:
  assumes "receive_decision d p = Ok p'" "pending_ok p"
  shows "pending_ok p'"
  using receive_decision_cases [OF assms(1)]
proof
  assume "\<exists>chunk n. chunk_number_of chunk = Some n \<and>
    p' = p\<lparr>bpr_pending_chunks := hm_insert n (pending_chunks_at n p @ [chunk]) (bpr_pending_chunks p)\<rparr>"
  then obtain chunk n where c: "chunk_number_of chunk = Some n"
    "p' = p\<lparr>bpr_pending_chunks := hm_insert n (pending_chunks_at n p @ [chunk]) (bpr_pending_chunks p)\<rparr>" by blast
  have "\<forall>c \<in> set (pending_chunks_at n p). chunk_number_of c = Some n"
    using pending_at_ok [OF assms(2)] by blast
  with c assms(2) show ?thesis by (auto simp: pending_ok_def hm_get_insert split: if_splits)
qed (use assms(2) in simp)

lemma poll_decision_pending: "poll_decision arrived p = Ok p' \<Longrightarrow> pending_ok p \<Longrightarrow> pending_ok p'"
  by (auto simp: poll_decision_def pending_ok_def split: list.splits
      dest!: receive_decision_pending)

lemma collect_loop_pending:
  "collect_loop n events p = (p', r) \<Longrightarrow> pending_ok p \<Longrightarrow> pending_ok p'"
  by (induction n events p rule: collect_loop.induct)
    (auto split: result.splits if_splits dest: poll_decision_pending)

lemma block_decide_pending: "pending_ok p \<Longrightarrow> block_decide C h v p = (p', r) \<Longrightarrow> pending_ok p'"
  by (auto simp: block_decide_def pending_ok_def Let_def publish_new_block_def hm_get_remove
      split: option.splits prod.splits result.splits if_splits)

text \<open>
  What the loop takes from the channel: one decision per tick, the oldest first, as long as there is
  one; and the chunks of a block number among the decisions taken.
\<close>

fun polled :: "full_proposal list \<Rightarrow> full_proposal list list \<Rightarrow> full_proposal list \<times> full_proposal list" where
  "polled queue [] = ([], queue)"
| "polled queue (arrived # ticks) =
     (case queue @ arrived of
        [] \<Rightarrow> polled [] ticks
      | d # rest \<Rightarrow> (case polled rest ticks of (ds, q) \<Rightarrow> (d # ds, q)))"

lemma polled_split: "polled queue ticks = (ds, q) \<Longrightarrow> ds @ q = queue @ concat ticks"
proof (induction queue ticks arbitrary: ds q rule: polled.induct)
  case (2 queue arrived ticks)
  then show ?case
  proof (cases "queue @ arrived")
    case (Cons d rest)
    with 2 have "ds = d # fst (polled rest ticks) \<and> q = snd (polled rest ticks)" by (auto split: prod.splits)
    with Cons 2(2) [OF Cons, of "fst (polled rest ticks)" "snd (polled rest ticks)"] show ?thesis
      by (metis append.assoc append_Cons concat.simps(2) prod.collapse)
  qed simp
qed simp

definition decision_chunks :: "u64 \<Rightarrow> full_proposal \<Rightarrow> shard_chunk list" where
  "decision_chunks n d =
     (case fp_proposed_value d of
        Some (Shard chunk) \<Rightarrow> (if chunk_number_of chunk = Some n then [chunk] else [])
      | _ \<Rightarrow> [])"

lemma receive_decision_at:
  assumes "receive_decision d p = Ok p'"
  shows "pending_chunks_at n p' = pending_chunks_at n p @ decision_chunks n d"
    "bpr_shard_decision_rx p' = bpr_shard_decision_rx p"
  using assms
  by (auto simp: receive_decision_def chunk_number_of_def pending_chunks_at_def decision_chunks_def hm_get_insert
      split: option.splits proposed_value.splits if_splits)

lemma poll_decision_at:
  assumes "poll_decision arrived p = Ok p1" "polled (bpr_shard_decision_rx p1) ticks = (ds, q)"
  shows "\<exists>d1. polled (bpr_shard_decision_rx p) (arrived # ticks) = (d1 @ ds, q) \<and>
    pending_chunks_at n p1 = pending_chunks_at n p @ concat (map (decision_chunks n) d1)"
proof (cases "bpr_shard_decision_rx p @ arrived")
  case Nil
  with assms show ?thesis by (intro exI [of _ "[]"]) (simp add: poll_decision_def)
next
  case (Cons d rest)
  with assms(1) have r: "receive_decision d (p\<lparr>bpr_shard_decision_rx := rest\<rparr>) = Ok p1"
    by (simp add: poll_decision_def)
  from receive_decision_at [OF r] Cons assms(2) show ?thesis
    by (intro exI [of _ "[d]"]) (simp add: pending_chunks_at_def)
qed

text \<open>
  The loop ends at the deadline or with as many chunks of the requested number as there are shards;
  until then it has only added the chunks of that number among the decisions it polled.
\<close>

lemma collect_loop_polled:
  "collect_loop n events p = (p', Some (Ok ())) \<Longrightarrow>
     \<exists>ticks rest ds. events = map Tick ticks @ rest \<and>
       polled (bpr_shard_decision_rx p) ticks = (ds, bpr_shard_decision_rx p') \<and>
       pending_chunks_at n p' = pending_chunks_at n p @ concat (map (decision_chunks n) ds) \<and>
       (rest \<noteq> [] \<and> hd rest = Deadline \<or> all_chunks_received n p')"
proof (induction n events p rule: collect_loop.induct)
  case (2 n events p)
  then show ?case by (intro exI [of _ "[]"] exI [of _ "Deadline # events"]) simp
next
  case (3 n arrived events p)
  from "3.prems" obtain p1 where p1: "poll_decision arrived p = Ok p1" by (auto split: result.splits)
  show ?case
  proof (cases "all_chunks_received n p1")
    case True
    with p1 "3.prems" have "p' = p1" by simp
    moreover from poll_decision_at [OF p1, of "[]" "[]" "bpr_shard_decision_rx p1" n] obtain d1 where
      "polled (bpr_shard_decision_rx p) [arrived] = (d1, bpr_shard_decision_rx p1)"
      "pending_chunks_at n p1 = pending_chunks_at n p @ concat (map (decision_chunks n) d1)" by auto
    ultimately show ?thesis using True
      by (intro exI [of _ "[arrived]"] exI [of _ events] exI [of _ d1]) simp
  next
    case False
    with p1 "3.prems" have "collect_loop n events p1 = (p', Some (Ok ()))" by simp
    from "3.IH" [OF p1 False this] obtain ticks rest ds where
      ih: "events = map Tick ticks @ rest" "polled (bpr_shard_decision_rx p1) ticks = (ds, bpr_shard_decision_rx p')"
        "pending_chunks_at n p' = pending_chunks_at n p1 @ concat (map (decision_chunks n) ds)"
        "rest \<noteq> [] \<and> hd rest = Deadline \<or> all_chunks_received n p'" by blast
    from poll_decision_at [OF p1 ih(2), of n] obtain d1 where
      "polled (bpr_shard_decision_rx p) (arrived # ticks) = (d1 @ ds, bpr_shard_decision_rx p')"
      "pending_chunks_at n p1 = pending_chunks_at n p @ concat (map (decision_chunks n) d1)" by blast
    with ih show ?thesis
      by (intro exI [of _ "arrived # ticks"] exI [of _ rest] exI [of _ "d1 @ ds"]) simp
  qed
qed simp

lemma all_chunks_received_at:
  "all_chunks_received n p \<Longrightarrow> length (pending_chunks_at n p) = unat (bpr_num_shards p)"
  by (auto simp: all_chunks_received_def pending_chunks_at_def split: option.splits)

lemma block_proposal_chunks:
  assumes "block_propose_value E H R now events h r p = (p', Some (Ok fp))"
  shows "\<exists>b header ticks rest ds. fp_proposed_value fp = Some (Block b) \<and>
    b_header b = Some header \<and> bh_height header = Some h \<and> bh_parent_hash header = block_parent_hash p \<and>
    events = map Tick ticks @ rest \<and> polled (bpr_shard_decision_rx p) ticks = (ds, bpr_shard_decision_rx p') \<and>
    b_shard_chunks b = pending_chunks_at (block_number h) p @ concat (map (decision_chunks (block_number h)) ds) \<and>
    pending_chunks_at (block_number h) p' = b_shard_chunks b \<and> (pending_ok p \<longrightarrow> pending_ok p') \<and>
    (rest \<noteq> [] \<and> hd rest = Deadline \<or> length (b_shard_chunks b) = unat (bpr_num_shards p))"
proof -
  obtain p1 res where c: "collect_loop (block_number h) events p = (p1, res)" by fastforce
  with assms have res: "res = Some (Ok ())"
    by (auto simp: block_propose_value_def collect_confirmed_shard_chunks_def bind_result_Ok_iff
        split: option.splits result.splits)
  have keep: "block_parent_hash p1 = block_parent_hash p" "bpr_num_shards p1 = bpr_num_shards p"
    using collect_loop_keeps [OF c] by (simp_all add: block_parent_hash_def)
  from assms c res obtain b header where
    b: "fp_proposed_value fp = Some (Block b)" "b_header b = Some header" "bh_height header = Some h"
      "bh_parent_hash header = block_parent_hash p" "b_shard_chunks b = pending_chunks_at (block_number h) p1"
      "bpr_shard_decision_rx p' = bpr_shard_decision_rx p1" "bpr_pending_chunks p' = bpr_pending_chunks p1"
    by (auto simp: block_propose_value_def collect_confirmed_shard_chunks_def Let_def keep split: result.splits)
  from b(7) have same: "pending_chunks_at n p' = pending_chunks_at n p1" "pending_ok p' = pending_ok p1" for n
    by (simp_all add: pending_chunks_at_def pending_ok_def)
  from collect_loop_polled [OF c [unfolded res]] obtain ticks rest ds where
    l: "events = map Tick ticks @ rest" "polled (bpr_shard_decision_rx p) ticks = (ds, bpr_shard_decision_rx p1)"
      "pending_chunks_at (block_number h) p1 =
         pending_chunks_at (block_number h) p @ concat (map (decision_chunks (block_number h)) ds)"
      "rest \<noteq> [] \<and> hd rest = Deadline \<or> all_chunks_received (block_number h) p1" by blast
  have "rest \<noteq> [] \<and> hd rest = Deadline \<or> length (b_shard_chunks b) = unat (bpr_num_shards p)"
    using l(4) all_chunks_received_at [of "block_number h" p1] keep(2) b(5) by auto
  moreover have "b_shard_chunks b = pending_chunks_at (block_number h) p @ concat (map (decision_chunks (block_number h)) ds)"
    using b(5) l(3) by simp
  moreover have "pending_ok p \<longrightarrow> pending_ok p'" using collect_loop_pending [OF c] same(2) by blast
  moreover have "pending_chunks_at (block_number h) p' = b_shard_chunks b" using b(5) same(1) by simp
  moreover have "polled (bpr_shard_decision_rx p) ticks = (ds, bpr_shard_decision_rx p')" using l(2) b(6) by simp
  ultimately show ?thesis using b(1-4) l(1) by blast
qed

lemma decision_chunks_number: "c \<in> set (decision_chunks n d) \<Longrightarrow> chunk_number_of c = Some n"
  by (auto simp: decision_chunks_def split: option.splits proposed_value.splits if_splits)

text \<open>The shard a chunk is for; as many chunks as shards, of different shards, are one of each.\<close>

definition chunk_shard_of :: "shard_chunk \<Rightarrow> nat" where
  "chunk_shard_of c =
     (case sc_header c of
        Some header \<Rightarrow> (case sh_height header of Some h \<Rightarrow> unat (shard_index h) | None \<Rightarrow> 0)
      | None \<Rightarrow> 0)"

lemma one_chunk_per_shard:
  assumes "length cs = n" "distinct (map chunk_shard_of cs)" "chunk_shard_of ` set cs \<subseteq> {1..n}"
  shows "chunk_shard_of ` set cs = {1..n}"
  using assms distinct_card [OF assms(2)] card_subset_eq [OF _ assms(3)] by simp

end
