(* ===== verification/Shard_Validator.thy ===== *)
theory Shard_Validator
  imports Proposers
begin

text \<open>
  \<open>consensus/validator.rs\<close>: one shard's validator, which owns the validator set and either the
  block proposer or a shard proposer and forwards the consensus callbacks to it.
\<close>

text \<open>
  What the environment supplies, by the number of the request: the clock, the schedule of the
  collecting loop, and the RPC client's answers.
\<close>

record 'r node_env =
  ne_trie :: trie_env
  ne_headers :: header_codec
  ne_chain :: chain_codec
  ne_rounds :: "'r round_ops"
  ne_vote_bytes :: "proto_vote \<Rightarrow> bytes"
  ne_proposal_bytes :: "proto_proposal \<Rightarrow> bytes"
  ne_verify :: "bytes \<Rightarrow> bytes \<Rightarrow> bytes \<Rightarrow> bool"
  ne_now :: "nat \<Rightarrow> u64"
  ne_schedule :: "nat \<Rightarrow> collect_event list"
  ne_connect :: "nat \<Rightarrow> string \<Rightarrow> (string, unit) result"
  ne_rpc_blocks :: "nat \<Rightarrow> string \<Rightarrow> blocks_request \<Rightarrow> (string, block list) result"

record 'r shard_validator =
  val_shard_id :: u32
  val_address :: address
  val_validator_set :: validator_set
  val_confirmed_height :: "height option"
  val_current_round :: 'r
  val_current_height :: "height option"
  val_current_proposer :: "address option"
  val_block_proposer :: "block_proposer option"
  val_shard_proposer :: "shard_proposer option"
  val_started :: bool

definition no_proposer :: string where
  "no_proposer = ''No proposer set''"

definition shard_validator_new ::
  "'r round_ops \<Rightarrow> address \<Rightarrow> u32 \<Rightarrow> block_proposer option \<Rightarrow> shard_proposer option \<Rightarrow> 'r shard_validator" where
  "shard_validator_new R a shard bp sp =
     \<lparr>val_shard_id = shard, val_address = a, val_validator_set = validator_set_new [],
      val_confirmed_height = None, val_current_round = rnd_new R 0, val_current_height = None,
      val_current_proposer = None, val_block_proposer = bp, val_shard_proposer = sp, val_started = False\<rparr>"

definition get_validator_set :: "'r shard_validator \<Rightarrow> validator_set" where
  "get_validator_set self = val_validator_set self"

definition validator_count :: "'r shard_validator \<Rightarrow> nat" where
  "validator_count self = validator_set_count (val_validator_set self)"

definition get_current_height :: "chain_codec \<Rightarrow> 'r shard_validator \<Rightarrow> ('e, u64) result" where
  "get_current_height C self =
     (case val_block_proposer self of
        Some p \<Rightarrow> bind_result (block_proposer_confirmed_height C p) (\<lambda>h. Ok (block_number h))
      | None \<Rightarrow>
          (case val_shard_proposer self of
             Some p \<Rightarrow> bind_result (shard_proposer_confirmed_height C p) (\<lambda>h. Ok (block_number h))
           | None \<Rightarrow> Panic ''No proposer set on validator''))"

definition add_validator :: "snapchain_validator \<Rightarrow> 'r shard_validator \<Rightarrow> 'r shard_validator \<times> bool" where
  "add_validator v self =
     (case validator_set_add (val_validator_set self) v of
        (vs, added) \<Rightarrow> (self\<lparr>val_validator_set := vs\<rparr>, added))"

definition validator_start :: "'r shard_validator \<Rightarrow> 'r shard_validator" where
  "validator_start self = self\<lparr>val_started := True\<rparr>"

definition sync_with_new_validator ::
  "'r node_env \<Rightarrow> nat \<Rightarrow> snapchain_validator \<Rightarrow> 'r shard_validator \<Rightarrow>
     'r shard_validator \<times> (block_proposer_error, unit) result" where
  "sync_with_new_validator N i v self =
     (case val_block_proposer self of
        None \<Rightarrow> (self, Ok ())
      | Some p \<Rightarrow>
          (case proposer_register_validator (ne_connect N i) (ne_rpc_blocks N i) v p of
             (p', Ok _) \<Rightarrow> (self\<lparr>val_block_proposer := Some p'\<rparr>, Ok ())
           | (p', Err _) \<Rightarrow> (self\<lparr>val_block_proposer := Some p'\<rparr>, Ok ())
           | (p', Panic m) \<Rightarrow> (self\<lparr>val_block_proposer := Some p'\<rparr>, Panic m)))"

definition start_round :: "height \<Rightarrow> 'r \<Rightarrow> address \<Rightarrow> 'r shard_validator \<Rightarrow> 'r shard_validator" where
  "start_round h r a self =
     self\<lparr>val_current_height := Some h, val_current_round := r, val_current_proposer := Some a\<rparr>"

definition validator_decide ::
  "'r node_env \<Rightarrow> height \<Rightarrow> shard_hash \<Rightarrow> 'r shard_validator \<Rightarrow> 'r shard_validator \<times> (hub_error, unit) result" where
  "validator_decide N h v self =
     (let (self1, r) =
        (case val_block_proposer self of
           Some p \<Rightarrow>
             (case block_decide (ne_chain N) h v p of (p', r) \<Rightarrow> (self\<lparr>val_block_proposer := Some p'\<rparr>, r))
         | None \<Rightarrow>
             (case val_shard_proposer self of
                Some p \<Rightarrow>
                  (case shard_decide (ne_trie N) (ne_chain N) h v p of
                     (p', r) \<Rightarrow> (self\<lparr>val_shard_proposer := Some p'\<rparr>, r))
              | None \<Rightarrow> (self, Panic no_proposer)))
      in case r of
           Ok _ \<Rightarrow> (self1\<lparr>val_confirmed_height := Some h, val_current_round := rnd_nil (ne_rounds N)\<rparr>, Ok ())
         | Err e \<Rightarrow> (self1, Err e)
         | Panic m \<Rightarrow> (self1, Panic m))"

text \<open>\<open>malachite_consensus::ProposedValue\<close>.\<close>

record 'r value_msg =
  pvm_height :: height
  pvm_round :: 'r
  pvm_validator_address :: address
  pvm_value :: shard_hash
  pvm_validity :: validity
  pvm_extension :: "bytes option"

definition validator_add_proposed_value ::
  "'r node_env \<Rightarrow> full_proposal \<Rightarrow> 'r shard_validator \<Rightarrow> 'r shard_validator \<times> (hub_error, 'r value_msg) result" where
  "validator_add_proposed_value N fp self =
     (case full_proposal_shard_hash fp of
        Err e \<Rightarrow> (self, Err e)
      | Panic m \<Rightarrow> (self, Panic m)
      | Ok v \<Rightarrow>
          (let (self1, r) =
             (case val_block_proposer self of
                Some p \<Rightarrow>
                  (case block_add_proposed_value fp p of (p', r) \<Rightarrow> (self\<lparr>val_block_proposer := Some p'\<rparr>, r))
              | None \<Rightarrow>
                  (case val_shard_proposer self of
                     Some p \<Rightarrow>
                       (case shard_add_proposed_value fp p of (p', r) \<Rightarrow> (self\<lparr>val_shard_proposer := Some p'\<rparr>, r))
                   | None \<Rightarrow> (self, Panic no_proposer)))
           in (self1,
               bind_result r (\<lambda>validity.
                 bind_result (full_proposal_height fp) (\<lambda>h.
                   bind_result (full_proposal_proposer_address fp) (\<lambda>a.
                     Ok \<lparr>pvm_height = h, pvm_round = full_proposal_round (ne_rounds N) fp,
                         pvm_validator_address = a, pvm_value = v, pvm_validity = validity,
                         pvm_extension = None\<rparr>))))))"

text \<open>\<^const>\<open>None\<close>: the block proposer is still collecting chunks.\<close>

definition validator_propose_value ::
  "'r node_env \<Rightarrow> nat \<Rightarrow> height \<Rightarrow> 'r \<Rightarrow> 'r shard_validator \<Rightarrow>
     'r shard_validator \<times> (hub_error, full_proposal) result option" where
  "validator_propose_value N i h r self =
     (case val_block_proposer self of
        Some p \<Rightarrow>
          (case block_propose_value (ne_trie N) (ne_headers N) (ne_rounds N) (ne_now N i) (ne_schedule N i) h r p of
             (p', res) \<Rightarrow> (self\<lparr>val_block_proposer := Some p'\<rparr>, res))
      | None \<Rightarrow>
          (case val_shard_proposer self of
             Some p \<Rightarrow>
               (case shard_propose_value (ne_trie N) (ne_headers N) (ne_rounds N) (ne_now N i) h r p of
                  (p', res) \<Rightarrow> (self\<lparr>val_shard_proposer := Some p'\<rparr>, Some res))
           | None \<Rightarrow> (self, Some (Panic no_proposer))))"

section \<open>The validator as a proposer\<close>

definition val_proposed :: "'r shard_validator \<Rightarrow> shard_hash \<Rightarrow> full_proposal option" where
  "val_proposed self v =
     (case val_block_proposer self of
        Some p \<Rightarrow> hm_get (bpr_proposed_blocks p) v
      | None \<Rightarrow> (case val_shard_proposer self of Some p \<Rightarrow> hm_get (spr_proposed_chunks p) v | None \<Rightarrow> None))"

definition val_history :: "'r shard_validator \<Rightarrow> proposed_value list" where
  "val_history self =
     (case val_block_proposer self of
        Some p \<Rightarrow> map Block (bpr_blocks p)
      | None \<Rightarrow> (case val_shard_proposer self of Some p \<Rightarrow> map Shard (spr_chunks p) | None \<Rightarrow> []))"

text \<open>
  A validator's proposal, once decided, is the next element of its history, whichever kind of
  proposer it has: the contract of the proposers lifts to the validator.
\<close>

lemma validator_propose_known:
  assumes "validator_propose_value N i h r self = (self1, Some (Ok fp))"
  shows "\<exists>v. full_proposal_shard_hash fp = (Ok v :: (hub_error, shard_hash) result) \<and> fp_height fp = Some h \<and>
    val_proposed self1 v = Some fp \<and> val_history self1 = val_history self"
proof (cases "val_block_proposer self")
  case (Some p)
  with assms obtain p' where p': "block_propose_value (ne_trie N) (ne_headers N) (ne_rounds N) (ne_now N i)
      (ne_schedule N i) h r p = (p', Some (Ok fp))" "self1 = self\<lparr>val_block_proposer := Some p'\<rparr>"
    by (auto simp: validator_propose_value_def split: prod.splits)
  from blocks.propose_known [OF p'(1)] p'(2) Some show ?thesis
    by (auto simp: val_proposed_def val_history_def fun_eq_iff)
next
  case None
  with assms obtain p p' where p': "shard_propose_value (ne_trie N) (ne_headers N) (ne_rounds N) (ne_now N i) h r p
      = (p', Ok fp)" "self1 = self\<lparr>val_shard_proposer := Some p'\<rparr>" "val_shard_proposer self = Some p"
    by (auto simp: validator_propose_value_def split: prod.splits option.splits)
  then have "(case shard_propose_value (ne_trie N) (ne_headers N) (ne_rounds N) (ne_now N i) h r p of
      (p', res) \<Rightarrow> (p', Some res)) = (p', Some (Ok fp))" by simp
  from shard.propose_known [OF this] p' None show ?thesis by (auto simp: val_proposed_def val_history_def fun_eq_iff)
qed

lemma validator_decide_known:
  assumes "validator_decide N h v self = (self1, Ok ())" "val_proposed self v = Some fp"
  shows "\<exists>x. fp_proposed_value fp = Some x \<and> val_history self1 = val_history self @ [x] \<and>
    val_proposed self1 = (val_proposed self)(v := None) \<and> val_confirmed_height self1 = Some h"
proof (cases "val_block_proposer self")
  case (Some p)
  with assms obtain p' where p': "block_decide (ne_chain N) h v p = (p', Ok ())"
    "self1 = self\<lparr>val_block_proposer := Some p', val_confirmed_height := Some h,
       val_current_round := rnd_nil (ne_rounds N)\<rparr>"
    by (auto simp: validator_decide_def split: prod.splits result.splits)
  from blocks.decide_known [OF p'(1)] assms(2) p'(2) Some show ?thesis
    by (auto simp: val_proposed_def val_history_def fun_eq_iff)
next
  case None
  with assms obtain p p' where p': "shard_decide (ne_trie N) (ne_chain N) h v p = (p', Ok ())"
    "self1 = self\<lparr>val_shard_proposer := Some p', val_confirmed_height := Some h,
       val_current_round := rnd_nil (ne_rounds N)\<rparr>" "val_shard_proposer self = Some p"
    by (auto simp: validator_decide_def split: prod.splits result.splits option.splits)
  from shard.decide_known [OF p'(1)] assms(2) p'(2,3) None show ?thesis
    by (auto simp: val_proposed_def val_history_def fun_eq_iff)
qed

text \<open>An undecided hash changes no proposer; the height is recorded as confirmed all the same.\<close>

lemma validator_decide_unknown:
  assumes "val_proposed self v = None" "val_block_proposer self \<noteq> None \<or> val_shard_proposer self \<noteq> None"
  shows "validator_decide N h v self =
    (self\<lparr>val_confirmed_height := Some h, val_current_round := rnd_nil (ne_rounds N)\<rparr>, Ok ())"
  using assms blocks.decide_unknown shard.decide_unknown
  by (auto simp: validator_decide_def val_proposed_def split: option.splits)

text \<open>
  What a validator announces: its decided blocks to the subscribers of blocks, the proposals of its
  decided chunks to the block proposer; a closed or absent channel drops them.
\<close>

definition val_announced :: "'r shard_validator \<Rightarrow> proposed_value option list" where
  "val_announced self =
     (case val_block_proposer self of
        Some p \<Rightarrow> map (\<lambda>b. Some (Block b)) (snd_sent (bpr_block_tx p))
      | None \<Rightarrow>
          (case val_shard_proposer self of
             Some p \<Rightarrow> (case spr_tx_decision p of Some tx \<Rightarrow> map fp_proposed_value (snd_sent tx) | None \<Rightarrow> [])
           | None \<Rightarrow> []))"

definition val_listened :: "'r shard_validator \<Rightarrow> bool" where
  "val_listened self =
     (case val_block_proposer self of
        Some p \<Rightarrow> snd_open (bpr_block_tx p)
      | None \<Rightarrow>
          (case val_shard_proposer self of
             Some p \<Rightarrow> (case spr_tx_decision p of Some tx \<Rightarrow> snd_open tx | None \<Rightarrow> False)
           | None \<Rightarrow> False))"

lemma full_proposal_Some:
  "full_proposal_block fp = Some b \<Longrightarrow> fp_proposed_value fp = Some (Block b)"
  "full_proposal_shard_chunk fp = Some c \<Longrightarrow> fp_proposed_value fp = Some (Shard c)"
  by (auto simp: full_proposal_block_def full_proposal_shard_chunk_def split: option.splits proposed_value.splits)

lemma validator_decide_announces:
  assumes "validator_decide N h v self = (self1, Ok ())" "val_proposed self v = Some fp"
  shows "val_announced self1 = val_announced self @ (if val_listened self then [fp_proposed_value fp] else [])"
proof (cases "val_block_proposer self")
  case (Some p)
  with assms show ?thesis
    by (auto simp: validator_decide_def block_decide_def val_proposed_def val_announced_def val_listened_def
        publish_new_block_def sender_send_def Let_def dest!: full_proposal_Some split: option.splits prod.splits result.splits)
next
  case None
  with assms show ?thesis
    by (auto simp: validator_decide_def shard_decide_def val_proposed_def val_announced_def val_listened_def
        sender_send_def Let_def dest!: full_proposal_Some split: option.splits prod.splits result.splits)
qed

text \<open>A validator with a block proposer stores the decided block, when its database works.\<close>

lemma validator_decide_stores:
  assumes "validator_decide N h v self = (self1, Ok ())" "val_block_proposer self = Some p"
    "hm_get (bpr_proposed_blocks p) v = Some fp" "fp_proposed_value fp = Some (Block b)"
    "block_height_of b = Some (s, n)" "db_healthy (be_db (bpr_engine p))"
  shows "\<exists>p'. val_block_proposer self1 = Some p' \<and>
    db_view (be_db (bpr_engine p')) (make_block_key s n) = Some (cc_block_encode (ne_chain N) b)"
proof -
  from put_block_ok [OF assms(6,5), of "ne_chain N"] obtain db' where
    db': "put_block (ne_chain N) (be_db (bpr_engine p)) b = (db', Ok ())"
      "db_view db' (make_block_key s n) = Some (cc_block_encode (ne_chain N) b)" by auto
  then have "commit_block (ne_chain N) b (bpr_engine p) = ((bpr_engine p)\<lparr>be_db := db'\<rparr>, Ok ())"
    by (simp add: commit_block_def)
  with assms(1-4) db'(2) show ?thesis
    by (auto simp: validator_decide_def block_decide_def full_proposal_block_def publish_new_block_def Let_def)
qed

end
