(* ===== verification/Timers.thy ===== *)
theory Timers
  imports Chain_Types
begin

text \<open>
  \<open>consensus/timers.rs\<close>: the timer scheduler of a consensus actor.  The tasks spawned by
  \<open>send_after\<close> and the actor's mailbox belong to the runtime; they are part of the state so that
  the interleavings the comments warn about (a message of a cancelled timer that was already
  enqueued) can be stated.
\<close>

text \<open>A \<open>Duration\<close> in nanoseconds.\<close>

type_synonym duration = nat

record 'k timeout_elapsed =
  te_key :: 'k
  te_generation :: u64

text \<open>A timer's \<open>task\<close> handle is named by the message the task will send.\<close>

record 'k timer =
  tm_key :: 'k
  tm_task :: "'k timeout_elapsed"
  tm_generation :: u64

text \<open>\<open>ts_tasks\<close> and \<open>ts_delays\<close> are the runtime's: the tasks still waiting, and every delay asked for.\<close>

record 'k timer_scheduler =
  ts_timers :: "('k \<times> 'k timer) list"
  ts_generations :: u64
  ts_tasks :: "'k timeout_elapsed list"
  ts_delays :: "('k timeout_elapsed \<times> duration) list"

definition timer_scheduler_new :: "'k timer_scheduler" where
  "timer_scheduler_new = \<lparr>ts_timers = [], ts_generations = 1, ts_tasks = [], ts_delays = []\<rparr>"

definition abort_task :: "'k timeout_elapsed \<Rightarrow> 'k timer_scheduler \<Rightarrow> 'k timer_scheduler" where
  "abort_task task self = self\<lparr>ts_tasks := filter (\<lambda>t. t \<noteq> task) (ts_tasks self)\<rparr>"

definition send_after :: "duration \<Rightarrow> 'k timeout_elapsed \<Rightarrow> 'k timer_scheduler \<Rightarrow> 'k timer_scheduler" where
  "send_after d task self = self\<lparr>ts_tasks := ts_tasks self @ [task], ts_delays := ts_delays self @ [(task, d)]\<rparr>"

definition cancel :: "'k \<Rightarrow> 'k timer_scheduler \<Rightarrow> 'k timer_scheduler" where
  "cancel key self =
     (case hm_get (ts_timers self) key of
        None \<Rightarrow> self
      | Some timer \<Rightarrow> abort_task (tm_task timer) (self\<lparr>ts_timers := hm_remove key (ts_timers self)\<rparr>))"

text \<open>\<open>RangeFrom::next\<close> computes the successor first, which overflows at the last \<open>u64\<close>.\<close>

definition next_generation :: "'k timer_scheduler \<Rightarrow> ('e, u64 \<times> 'k timer_scheduler) result" where
  "next_generation self =
     (if ts_generations self = - 1 then Panic add_overflow
      else Ok (ts_generations self, self\<lparr>ts_generations := ts_generations self + 1\<rparr>))"

definition start_timer :: "'k \<Rightarrow> duration \<Rightarrow> 'k timer_scheduler \<Rightarrow> ('e, 'k timer_scheduler) result" where
  "start_timer key timeout self =
     (case next_generation (cancel key self) of
        Err e \<Rightarrow> Err e
      | Panic m \<Rightarrow> Panic m
      | Ok (generation, self1) \<Rightarrow>
          (let task = \<lparr>te_key = key, te_generation = generation\<rparr>;
               self2 = send_after timeout task self1
           in Ok (self2\<lparr>ts_timers :=
                hm_insert key \<lparr>tm_key = key, tm_task = task, tm_generation = generation\<rparr> (ts_timers self2)\<rparr>)))"

definition is_timer_active :: "'k timer_scheduler \<Rightarrow> 'k \<Rightarrow> bool" where
  "is_timer_active self key = hm_contains (ts_timers self) key"

definition cancel_all :: "'k timer_scheduler \<Rightarrow> 'k timer_scheduler" where
  "cancel_all self =
     fold (\<lambda>(_, timer). abort_task (tm_task timer)) (ts_timers self) (self\<lparr>ts_timers := []\<rparr>)"

definition intercept_timer_msg ::
  "'k timeout_elapsed \<Rightarrow> 'k timer_scheduler \<Rightarrow> 'k timer_scheduler \<times> 'k option" where
  "intercept_timer_msg msg self =
     (case hm_get (ts_timers self) (te_key msg) of
        None \<Rightarrow> (self, None)
      | Some timer \<Rightarrow>
          if te_generation msg \<noteq> tm_generation timer then (self, None)
          else (self\<lparr>ts_timers := hm_remove (te_key msg) (ts_timers self)\<rparr>, Some (tm_key timer)))"

section \<open>The scheduler and the runtime around it\<close>

text \<open>
  The actor's side of the interface and the runtime's: a task fires by moving its message to the
  mailbox, and the actor takes messages from the mailbox in order.
\<close>

record 'k timer_world =
  tw_sched :: "'k timer_scheduler"
  tw_mailbox :: "'k timeout_elapsed list"

datatype 'k timer_label =
    Started 'k u64 | Cancelled "'k set" | Fired "'k timeout_elapsed" | Delivered "'k timeout_elapsed"
  | Discarded "'k timeout_elapsed"

inductive timer_step :: "'k timer_world \<Rightarrow> 'k timer_label \<Rightarrow> 'k timer_world \<Rightarrow> bool" where
  ts_start: "(start_timer k d (tw_sched w) :: (string, 'k timer_scheduler) result) = Ok s \<Longrightarrow>
    timer_step w (Started k (ts_generations (tw_sched w))) (w\<lparr>tw_sched := s\<rparr>)"
| ts_cancel: "timer_step w (Cancelled {k}) (w\<lparr>tw_sched := cancel k (tw_sched w)\<rparr>)"
| ts_cancel_all: "timer_step w (Cancelled UNIV) (w\<lparr>tw_sched := cancel_all (tw_sched w)\<rparr>)"
| ts_fire: "t \<in> set (ts_tasks (tw_sched w)) \<Longrightarrow>
    timer_step w (Fired t) (w\<lparr>tw_sched := abort_task t (tw_sched w), tw_mailbox := tw_mailbox w @ [t]\<rparr>)"
| ts_deliver: "tw_mailbox w = t # rest \<Longrightarrow> intercept_timer_msg t (tw_sched w) = (s, Some k) \<Longrightarrow>
    timer_step w (Delivered t) (w\<lparr>tw_sched := s, tw_mailbox := rest\<rparr>)"
| ts_discard: "tw_mailbox w = t # rest \<Longrightarrow> intercept_timer_msg t (tw_sched w) = (s, None) \<Longrightarrow>
    timer_step w (Discarded t) (w\<lparr>tw_sched := s, tw_mailbox := rest\<rparr>)"

inductive timer_run :: "'k timer_world \<Rightarrow> 'k timer_label list \<Rightarrow> 'k timer_world \<Rightarrow> bool" where
  tr_nil: "timer_run w [] w"
| tr_snoc: "timer_run w ls w1 \<Longrightarrow> timer_step w1 l w2 \<Longrightarrow> timer_run w (ls @ [l]) w2"

definition timer_world_new :: "'k timer_world" where
  "timer_world_new = \<lparr>tw_sched = timer_scheduler_new, tw_mailbox = []\<rparr>"

text \<open>The timer a label sequence leaves running under a key: the last one started and not yet
  cancelled or delivered.\<close>

fun running :: "'k timer_label list \<Rightarrow> 'k \<Rightarrow> u64 option" where
  "running [] k = None"
| "running (l # ls) k =
     (case l of
        Started k' g \<Rightarrow> if k' = k then Some g else running ls k
      | Cancelled ks \<Rightarrow> if k \<in> ks then None else running ls k
      | Delivered t \<Rightarrow> if te_key t = k then None else running ls k
      | _ \<Rightarrow> running ls k)"

definition started_gens :: "'k timer_label list \<Rightarrow> u64 list" where
  "started_gens ls = concat (map (\<lambda>l. case l of Started k g \<Rightarrow> [g] | _ \<Rightarrow> []) ls)"

definition delivered :: "'k timer_label list \<Rightarrow> 'k timeout_elapsed list" where
  "delivered ls = concat (map (\<lambda>l. case l of Delivered t \<Rightarrow> [t] | _ \<Rightarrow> []) ls)"

section \<open>Invariant\<close>

definition timer_msg :: "'k \<Rightarrow> u64 \<Rightarrow> 'k timeout_elapsed" where
  "timer_msg k g = \<lparr>te_key = k, te_generation = g\<rparr>"

text \<open>
  \<open>act\<close> maps each key to the generation of its running timer.  Every message in flight has a
  generation already handed out and no two have the same; a running timer's message is still in
  flight, and a task that has not fired belongs to a running timer.
\<close>

definition timer_inv :: "('k \<Rightarrow> u64 option) \<Rightarrow> 'k timer_world \<Rightarrow> bool" where
  "timer_inv act w \<longleftrightarrow>
     (\<forall>k. hm_get (ts_timers (tw_sched w)) k =
        map_option (\<lambda>g. \<lparr>tm_key = k, tm_task = timer_msg k g, tm_generation = g\<rparr>) (act k)) \<and>
     hm_wf (ts_timers (tw_sched w)) \<and>
     distinct (map te_generation (ts_tasks (tw_sched w) @ tw_mailbox w)) \<and>
     (\<forall>t \<in> set (ts_tasks (tw_sched w) @ tw_mailbox w). te_generation t < ts_generations (tw_sched w)) \<and>
     (\<forall>k g. act k = Some g \<longrightarrow> timer_msg k g \<in> set (ts_tasks (tw_sched w) @ tw_mailbox w)) \<and>
     (\<forall>t \<in> set (ts_tasks (tw_sched w)). act (te_key t) = Some (te_generation t))"

lemma timer_msg_simps [simp]:
  "te_key (timer_msg k g) = k" "te_generation (timer_msg k g) = g"
  "timer_msg k g = t \<longleftrightarrow> te_key t = k \<and> te_generation t = g"
  by (cases t, auto simp: timer_msg_def)+

lemma timer_msg_collapse [simp]: "timer_msg (te_key t) (te_generation t) = t"
  by (simp add: timer_msg_def)

lemma timer_msg_fold: "\<lparr>te_key = k, te_generation = g\<rparr> = timer_msg k g"
  by (simp add: timer_msg_def)

lemma timer_inv_new: "timer_inv (\<lambda>_. None) timer_world_new"
  by (simp add: timer_inv_def timer_world_new_def timer_scheduler_new_def)

lemma abort_task_simps [simp]:
  "ts_timers (abort_task t s) = ts_timers s" "ts_generations (abort_task t s) = ts_generations s"
  "ts_tasks (abort_task t s) = filter (\<lambda>u. u \<noteq> t) (ts_tasks s)"
  by (simp_all add: abort_task_def)

lemma abort_fold [simp]:
  "ts_timers (fold (\<lambda>(_, timer). abort_task (tm_task timer)) ts s) = ts_timers s"
  "ts_generations (fold (\<lambda>(_, timer). abort_task (tm_task timer)) ts s) = ts_generations s"
  "ts_tasks (fold (\<lambda>(_, timer). abort_task (tm_task timer)) ts s) =
     filter (\<lambda>u. u \<notin> (\<lambda>(_, timer). tm_task timer) ` set ts) (ts_tasks s)"
  by (induction ts arbitrary: s) (auto simp: image_iff intro: filter_cong)

text \<open>Cancelling, one key or all, removes exactly the running timers of those keys.\<close>

lemma timer_inv_stop:
  assumes inv: "timer_inv act w" and "\<forall>k. hm_get (ts_timers s) k = (if k \<in> ks then None else hm_get (ts_timers (tw_sched w)) k)"
    "hm_wf (ts_timers s)" "ts_generations s = ts_generations (tw_sched w)"
    "ts_tasks s = filter (\<lambda>t. te_key t \<notin> ks) (ts_tasks (tw_sched w))"
  shows "timer_inv (\<lambda>k. if k \<in> ks then None else act k) (w\<lparr>tw_sched := s\<rparr>)"
  using assms by (auto simp: timer_inv_def distinct_map_filter)

lemma cancel_inv:
  assumes inv: "timer_inv act w"
  shows "timer_inv (act(k := None)) (w\<lparr>tw_sched := cancel k (tw_sched w)\<rparr>)"
proof -
  let ?s = "cancel k (tw_sched w)"
  have "ts_tasks ?s = filter (\<lambda>t. te_key t \<notin> {k}) (ts_tasks (tw_sched w))"
  proof (cases "act k")
    case None
    with inv show ?thesis
      by (auto simp: cancel_def timer_inv_def intro!: filter_True [symmetric])
  next
    case (Some g)
    with inv have get: "hm_get (ts_timers (tw_sched w)) k = Some \<lparr>tm_key = k, tm_task = timer_msg k g, tm_generation = g\<rparr>"
      by (simp add: timer_inv_def)
    from inv have "\<forall>t \<in> set (ts_tasks (tw_sched w)). act (te_key t) = Some (te_generation t)"
      by (simp add: timer_inv_def)
    with Some have "t \<noteq> timer_msg k g \<longleftrightarrow> te_key t \<noteq> k" if "t \<in> set (ts_tasks (tw_sched w))" for t
      using that timer_msg_collapse [of t] by auto
    with get show ?thesis by (auto simp: cancel_def intro: filter_cong)
  qed
  moreover have "ts_generations ?s = ts_generations (tw_sched w)" "hm_wf (ts_timers ?s)"
    "\<forall>j. hm_get (ts_timers ?s) j = (if j \<in> {k} then None else hm_get (ts_timers (tw_sched w)) j)"
    using inv by (auto simp: cancel_def timer_inv_def hm_get_remove distinct_delete split: option.splits)
  ultimately have "timer_inv (\<lambda>j. if j \<in> {k} then None else act j) (w\<lparr>tw_sched := ?s\<rparr>)"
    by - (rule timer_inv_stop [OF inv])
  then show ?thesis by (simp add: fun_upd_def)
qed

lemma cancel_all_inv:
  assumes inv: "timer_inv act w"
  shows "timer_inv (\<lambda>_. None) (w\<lparr>tw_sched := cancel_all (tw_sched w)\<rparr>)"
proof -
  have "\<exists>timer. (te_key t, timer) \<in> set (ts_timers (tw_sched w)) \<and> tm_task timer = t"
    if "t \<in> set (ts_tasks (tw_sched w))" for t
  proof -
    from inv that have "hm_get (ts_timers (tw_sched w)) (te_key t) =
        Some \<lparr>tm_key = te_key t, tm_task = t, tm_generation = te_generation t\<rparr>"
      by (auto simp: timer_inv_def)
    then show ?thesis by (intro exI) (auto dest: map_of_SomeD)
  qed
  then have "filter (\<lambda>u. u \<notin> (\<lambda>(_, timer). tm_task timer) ` set (ts_timers (tw_sched w)))
      (ts_tasks (tw_sched w)) = []"
    by (force simp: filter_empty_conv image_iff)
  with timer_inv_stop [OF inv, of "cancel_all (tw_sched w)" UNIV] show ?thesis
    by (simp add: cancel_all_def)
qed

lemma cancel_generations [simp]: "ts_generations (cancel k s) = ts_generations s"
  by (simp add: cancel_def split: option.split)

lemma start_timer_cases:
  assumes "start_timer k d s = Ok s'"
  shows "ts_generations s \<noteq> - 1"
    "s' = (cancel k s)\<lparr>ts_generations := ts_generations s + 1,
            ts_tasks := ts_tasks (cancel k s) @ [timer_msg k (ts_generations s)],
            ts_delays := ts_delays (cancel k s) @ [(timer_msg k (ts_generations s), d)],
            ts_timers := hm_insert k \<lparr>tm_key = k, tm_task = timer_msg k (ts_generations s),
                                      tm_generation = ts_generations s\<rparr> (ts_timers (cancel k s))\<rparr>"
  using assms
  by (auto simp: start_timer_def next_generation_def send_after_def Let_def timer_msg_fold
      split: if_splits)

lemma u64_less_Suc:
  fixes x :: u64
  assumes "x \<noteq> - 1"
  shows "g < x + 1 \<longleftrightarrow> g \<le> x"
proof -
  from assms have "unat (1 + x) = Suc (unat x)"
    by (intro unatSuc) (metis add.commute add_eq_0_iff2)
  then show ?thesis
    by (simp add: word_less_nat_alt word_le_nat_alt add.commute [of x] less_Suc_eq_le)
qed

lemma start_inv:
  assumes inv: "timer_inv act w" and ok: "start_timer k d (tw_sched w) = Ok s"
  shows "timer_inv (act(k \<mapsto> ts_generations (tw_sched w))) (w\<lparr>tw_sched := s\<rparr>)"
proof -
  let ?g = "ts_generations (tw_sched w)"
  have lt: "g < ?g + 1 \<longleftrightarrow> g \<le> ?g" for g
    using u64_less_Suc [OF start_timer_cases(1) [OF ok]] .
  from cancel_inv [OF inv, of k] start_timer_cases(2) [OF ok] show ?thesis
    by (auto simp: timer_inv_def lt hm_get_insert distinct_update less_imp_le)
qed

lemma fire_inv:
  assumes inv: "timer_inv act w" and t: "t \<in> set (ts_tasks (tw_sched w))"
  shows "timer_inv act (w\<lparr>tw_sched := abort_task t (tw_sched w), tw_mailbox := tw_mailbox w @ [t]\<rparr>)"
proof -
  from inv have "distinct (map te_generation (ts_tasks (tw_sched w)))" by (simp add: timer_inv_def)
  with t have "\<forall>u \<in> set (ts_tasks (tw_sched w)). te_generation t = te_generation u \<longrightarrow> u = t"
    by (auto simp: distinct_map inj_on_def)
  with inv t show ?thesis by (auto simp: timer_inv_def distinct_map_filter)
qed

lemma intercept_cases:
  assumes inv: "timer_inv act w"
  shows "intercept_timer_msg t (tw_sched w) =
     (if act (te_key t) = Some (te_generation t)
      then ((tw_sched w)\<lparr>ts_timers := hm_remove (te_key t) (ts_timers (tw_sched w))\<rparr>, Some (te_key t))
      else (tw_sched w, None))"
  using inv by (cases "act (te_key t)") (auto simp: intercept_timer_msg_def timer_inv_def)

lemma deliver_inv:
  assumes inv: "timer_inv act w" and mb: "tw_mailbox w = t # rest" and act: "act (te_key t) = Some (te_generation t)"
  shows "timer_inv (act(te_key t := None))
    (w\<lparr>tw_sched := (tw_sched w)\<lparr>ts_timers := hm_remove (te_key t) (ts_timers (tw_sched w))\<rparr>, tw_mailbox := rest\<rparr>)"
proof -
  from inv mb act have "te_key u \<noteq> te_key t" if "u \<in> set (ts_tasks (tw_sched w))" for u
    using that by (fastforce simp: timer_inv_def image_iff)
  moreover from inv mb have "timer_msg k g \<in> set (ts_tasks (tw_sched w)) \<union> set rest"
    if "act k = Some g" "k \<noteq> te_key t" for k g
    using that by (auto simp: timer_inv_def)
  ultimately show ?thesis using inv mb
    by (simp add: timer_inv_def hm_get_remove distinct_delete)
qed

lemma discard_inv:
  assumes inv: "timer_inv act w" and mb: "tw_mailbox w = t # rest" and act: "act (te_key t) \<noteq> Some (te_generation t)"
  shows "timer_inv act (w\<lparr>tw_mailbox := rest\<rparr>)"
  using assms by (auto simp: timer_inv_def)

section \<open>Runs\<close>

lemma running_Cons [simp]:
  "running [] = (\<lambda>_. None)"
  "running (Started k g # ls) = (running ls)(k \<mapsto> g)"
  "running (Cancelled {k} # ls) = (running ls)(k := None)"
  "running (Cancelled UNIV # ls) = (\<lambda>_. None)"
  "running (Fired t # ls) = running ls"
  "running (Delivered t # ls) = (running ls)(te_key t := None)"
  "running (Discarded t # ls) = running ls"
  by (auto simp: fun_eq_iff)

declare running.simps(2) [simp del]

lemma timer_step_inv:
  assumes "timer_step w l w'" "timer_inv (running ls) w"
  shows "timer_inv (running (l # ls)) w'"
  using assms
proof (cases rule: timer_step.cases)
  case (ts_start k d s)
  with start_inv [OF assms(2) ts_start(3)] show ?thesis by simp
next
  case (ts_cancel k)
  with cancel_inv [OF assms(2), of k] show ?thesis by simp
next
  case ts_cancel_all
  with cancel_all_inv [OF assms(2)] show ?thesis by simp
next
  case (ts_fire t)
  with fire_inv [OF assms(2) ts_fire(3)] show ?thesis by simp
next
  case (ts_deliver t rest s k)
  with intercept_cases [OF assms(2), of t] deliver_inv [OF assms(2) ts_deliver(3)] show ?thesis
    by (auto split: if_splits)
next
  case (ts_discard t rest s)
  with intercept_cases [OF assms(2), of t] discard_inv [OF assms(2) ts_discard(3)] show ?thesis
    by (auto split: if_splits)
qed

text \<open>What a run has handed out: generations are fresh, and no message is delivered twice.\<close>

definition run_inv :: "'k timer_label list \<Rightarrow> 'k timer_world \<Rightarrow> bool" where
  "run_inv ls w \<longleftrightarrow> timer_inv (running ls) w \<and>
     distinct (map te_generation (delivered ls @ ts_tasks (tw_sched w) @ tw_mailbox w)) \<and>
     (\<forall>t \<in> set (delivered ls). te_generation t < ts_generations (tw_sched w)) \<and>
     (\<forall>t \<in> set (delivered ls @ ts_tasks (tw_sched w) @ tw_mailbox w). Started (te_key t) (te_generation t) \<in> set ls)"

lemma delivered_Cons [simp]:
  "delivered [] = []"
  "delivered (Started k g # ls) = delivered ls"
  "delivered (Cancelled ks # ls) = delivered ls"
  "delivered (Fired t # ls) = delivered ls"
  "delivered (Delivered t # ls) = t # delivered ls"
  "delivered (Discarded t # ls) = delivered ls"
  by (simp_all add: delivered_def)

lemma cancel_tasks: "set (ts_tasks (cancel k s)) \<subseteq> set (ts_tasks s)"
    "distinct (map te_generation (ts_tasks s)) \<Longrightarrow> distinct (map te_generation (ts_tasks (cancel k s)))"
  by (auto simp: cancel_def distinct_map_filter split: option.splits)

abbreviation in_flight :: "'k timer_world \<Rightarrow> 'k timeout_elapsed list" where
  "in_flight w \<equiv> ts_tasks (tw_sched w) @ tw_mailbox w"

lemma run_inv_flight:
  assumes "timer_inv (running ls) w" "distinct (map te_generation (delivered ls))"
    "te_generation ` set (delivered ls) \<inter> te_generation ` set (in_flight w) = {}"
    "\<forall>t \<in> set (delivered ls). te_generation t < ts_generations (tw_sched w)"
    "\<forall>t \<in> set (delivered ls) \<union> set (in_flight w). Started (te_key t) (te_generation t) \<in> set ls"
  shows "run_inv ls w"
  using assms by (simp add: run_inv_def timer_inv_def image_Un)

lemma run_inv_keep:
  assumes old: "run_inv ls w" and inv': "timer_inv (running (l # ls)) w'"
    and same: "delivered (l # ls) = delivered ls" "ts_generations (tw_sched w') = ts_generations (tw_sched w)"
    and sub: "set (in_flight w') \<subseteq> set (in_flight w)"
  shows "run_inv (l # ls) w'"
proof (rule run_inv_flight [OF inv'])
  from old have "te_generation ` set (delivered ls) \<inter> te_generation ` set (in_flight w) = {}"
    by (simp add: run_inv_def image_Un)
  with image_mono [OF sub, of te_generation] same(1)
  show "te_generation ` set (delivered (l # ls)) \<inter> te_generation ` set (in_flight w') = {}" by fastforce
  from old sub same(1)
  show "\<forall>t \<in> set (delivered (l # ls)) \<union> set (in_flight w'). Started (te_key t) (te_generation t) \<in> set (l # ls)"
    unfolding run_inv_def by (simp add: subset_iff) blast
qed (use old same in \<open>simp_all add: run_inv_def\<close>)

lemma run_inv_start:
  assumes old: "run_inv ls w" and ok: "start_timer k d (tw_sched w) = Ok s"
    and inv': "timer_inv (running (Started k (ts_generations (tw_sched w)) # ls)) (w\<lparr>tw_sched := s\<rparr>)"
  shows "run_inv (Started k (ts_generations (tw_sched w)) # ls) (w\<lparr>tw_sched := s\<rparr>)"
proof (rule run_inv_flight [OF inv'])
  note s = start_timer_cases [OF ok]
  let ?t = "timer_msg k (ts_generations (tw_sched w))"
  have sub: "set (in_flight (w\<lparr>tw_sched := s\<rparr>)) \<subseteq> insert ?t (set (in_flight w))"
    using cancel_tasks(1) [of k "tw_sched w"] by (auto simp: s(2))
  have lt: "\<forall>t \<in> set (delivered ls). te_generation t < ts_generations (tw_sched w)"
    using old by (simp add: run_inv_def)
  moreover have "te_generation ` set (delivered ls) \<inter> te_generation ` set (in_flight w) = {}"
    using old by (simp add: run_inv_def image_Un)
  ultimately have "te_generation ` set (delivered ls) \<inter> te_generation ` (insert ?t (set (in_flight w))) = {}"
    by auto
  with image_mono [OF sub, of te_generation]
  show "te_generation ` set (delivered (Started k (ts_generations (tw_sched w)) # ls)) \<inter>
      te_generation ` set (in_flight (w\<lparr>tw_sched := s\<rparr>)) = {}"
    unfolding delivered_Cons by blast
  show "\<forall>t \<in> set (delivered (Started k (ts_generations (tw_sched w)) # ls)).
      te_generation t < ts_generations (tw_sched (w\<lparr>tw_sched := s\<rparr>))"
    using lt by (simp add: s(2) u64_less_Suc [OF s(1)] less_imp_le)
  have "\<forall>t \<in> set (delivered ls) \<union> set (in_flight w). Started (te_key t) (te_generation t) \<in> set ls"
    using old by (simp add: run_inv_def ball_Un)
  with sub show "\<forall>t \<in> set (delivered (Started k (ts_generations (tw_sched w)) # ls)) \<union>
      set (in_flight (w\<lparr>tw_sched := s\<rparr>)). Started (te_key t) (te_generation t) \<in>
      set (Started k (ts_generations (tw_sched w)) # ls)"
    unfolding delivered_Cons by (auto simp del: set_append dest!: subsetD)
qed (use old in \<open>simp add: run_inv_def\<close>)

lemma run_inv_deliver:
  assumes old: "run_inv ls w" and mb: "tw_mailbox w = t # rest"
    and inv': "timer_inv (running (Delivered t # ls)) (w\<lparr>tw_sched := s, tw_mailbox := rest\<rparr>)"
    and s: "ts_tasks s = ts_tasks (tw_sched w)" "ts_generations s = ts_generations (tw_sched w)"
  shows "run_inv (Delivered t # ls) (w\<lparr>tw_sched := s, tw_mailbox := rest\<rparr>)"
proof (rule run_inv_flight [OF inv'])
  from old mb have "te_generation t < ts_generations (tw_sched w)" by (simp add: run_inv_def timer_inv_def)
  with old s show "\<forall>u \<in> set (delivered (Delivered t # ls)). te_generation u <
      ts_generations (tw_sched (w\<lparr>tw_sched := s, tw_mailbox := rest\<rparr>))"
    by (simp add: run_inv_def)
qed (use old mb s in \<open>auto simp: run_inv_def\<close>)

lemma run_inv_step:
  assumes "timer_step w l w'" "run_inv ls w"
  shows "run_inv (l # ls) w'"
proof -
  have inv: "timer_inv (running ls) w" using assms(2) by (simp add: run_inv_def)
  note inv' = timer_step_inv [OF assms(1) inv]
  show ?thesis using assms(1)
  proof (cases rule: timer_step.cases)
    case (ts_start k d s)
    with run_inv_start [OF assms(2) ts_start(3)] inv' show ?thesis by simp
  next
    case (ts_cancel k)
    with cancel_tasks(1) [of k "tw_sched w"] show ?thesis
      by (intro run_inv_keep [OF assms(2) inv']) auto
  next
    case ts_cancel_all
    then show ?thesis by (intro run_inv_keep [OF assms(2) inv']) (auto simp: cancel_all_def)
  next
    case (ts_fire t)
    then show ?thesis by (intro run_inv_keep [OF assms(2) inv']) auto
  next
    case (ts_deliver t rest s k)
    with intercept_cases [OF inv, of t] inv' show ?thesis
      by (auto intro!: run_inv_deliver [OF assms(2) ts_deliver(3)] split: if_splits)
  next
    case (ts_discard t rest s)
    with intercept_cases [OF inv, of t] show ?thesis
      by (intro run_inv_keep [OF assms(2) inv']) (auto split: if_splits)
  qed
qed

theorem timer_run_inv: "timer_run (timer_world_new :: 'a timer_world) ls w \<Longrightarrow> run_inv (rev ls) w"
proof (induction "timer_world_new :: 'a timer_world" ls w rule: timer_run.induct)
  case tr_nil
  then show ?case
    using timer_inv_new by (simp add: run_inv_def timer_world_new_def timer_scheduler_new_def)
next
  case (tr_snoc ls w1 l w2)
  then show ?case by (simp add: run_inv_step)
qed

text \<open>What the comments of \<open>intercept_timer_msg\<close> promise, for every interleaving.\<close>

lemma intercept_iff_running:
  assumes "timer_run timer_world_new ls w"
  shows "snd (intercept_timer_msg t (tw_sched w)) =
    (if running (rev ls) (te_key t) = Some (te_generation t) then Some (te_key t) else None)"
  using intercept_cases [of "running (rev ls)" w t] timer_run_inv [OF assms] by (simp add: run_inv_def)

lemma delivered_once:
  assumes "timer_run timer_world_new ls w"
  shows "distinct (map te_generation (delivered ls)) \<and>
    (\<forall>t \<in> set (delivered ls). Started (te_key t) (te_generation t) \<in> set ls)"
proof -
  have "delivered (rev ls) = rev (delivered ls)"
    by (induction ls) (auto simp: delivered_def rev_concat rev_map split: timer_label.splits)
  with timer_run_inv [OF assms] show ?thesis by (auto simp: run_inv_def rev_map [symmetric])
qed

lemma running_not_lost:
  assumes "timer_run timer_world_new ls w" "running (rev ls) k = Some g"
  shows "is_timer_active (tw_sched w) k \<and>
    (timer_msg k g \<in> set (ts_tasks (tw_sched w)) \<or> timer_msg k g \<in> set (tw_mailbox w))"
  using timer_run_inv [OF assms(1)] assms(2) by (auto simp: run_inv_def timer_inv_def is_timer_active_def)

end
