(* ===== verification/Consensus.thy ===== *)
theory Consensus
  imports Shard_Validator Timers
begin

text \<open>
  \<open>consensus/consensus.rs\<close>: the actor that drives \<open>malachite\<close>'s consensus core for one shard.  It
  turns messages into inputs of the core and carries out the effects the core asks for.  The core
  itself is a parameter: given its state and an input it is a program that yields effects, is
  resumed with their results, and ends with a new state and a result.
\<close>

section \<open>Configuration\<close>

text \<open>\<open>u32\<close> to and from decimal text, as \<open>to_string\<close> and \<open>parse\<close> of the standard library.\<close>

fun dec_digits :: "nat \<Rightarrow> string" where
  "dec_digits n =
     (if n < 10 then [char_of (48 + n)] else dec_digits (n div 10) @ [char_of (48 + n mod 10)])"

definition u32_to_string :: "u32 \<Rightarrow> string" where
  "u32_to_string w = dec_digits (unat w)"

definition digit_of :: "char \<Rightarrow> nat option" where
  "digit_of c = (let n = of_char c :: nat in if 48 \<le> n \<and> n < 58 then Some (n - 48) else None)"

fun parse_digits :: "nat \<Rightarrow> string \<Rightarrow> nat option" where
  "parse_digits acc [] = Some acc"
| "parse_digits acc (c # cs) =
     (case digit_of c of
        None \<Rightarrow> None
      | Some d \<Rightarrow> if acc * 10 + d < 2 ^ 32 then parse_digits (acc * 10 + d) cs else None)"

definition u32_parse :: "string \<Rightarrow> u32 option" where
  "u32_parse s =
     (let t = (if s \<noteq> [] \<and> hd s = CHR ''+'' then tl s else s) in
      if t = [] then None else map_option word_of_nat (parse_digits 0 t))"

text \<open>\<open>str::split\<close>: a string without the separator is one piece, the empty one too.\<close>

fun split_on :: "char \<Rightarrow> string \<Rightarrow> string list" where
  "split_on sep [] = [[]]"
| "split_on sep (c # cs) =
     (if c = sep then [] # split_on sep cs
      else (case split_on sep cs of [] \<Rightarrow> [[c]] | s # ss \<Rightarrow> (c # s) # ss))"

fun join :: "string \<Rightarrow> string list \<Rightarrow> string" where
  "join sep [] = []"
| "join sep [s] = s"
| "join sep (s # ss) = s @ sep @ join sep ss"

record config =
  cfg_private_key :: string
  cfg_shard_ids :: string
  cfg_propose_value_delay :: nat

fun parse_all :: "string list \<Rightarrow> ('e, u32 list) result" where
  "parse_all [] = Ok []"
| "parse_all (s # ss) =
     (case u32_parse s of
        None \<Rightarrow> Panic unwrap_err
      | Some i \<Rightarrow> bind_result (parse_all ss) (\<lambda>is. Ok (i # is)))"

definition config_shard_ids :: "config \<Rightarrow> ('e, u32 list) result" where
  "config_shard_ids self = parse_all (split_on (CHR '','') (cfg_shard_ids self))"

definition config_num_shards :: "config \<Rightarrow> ('e, u32) result" where
  "config_num_shards self = bind_result (config_shard_ids self) (\<lambda>is. Ok (word_of_nat (length is)))"

definition config_with_shard_ids :: "u32 list \<Rightarrow> config \<Rightarrow> config" where
  "config_with_shard_ids is self =
     \<lparr>cfg_private_key = cfg_private_key self, cfg_shard_ids = join '','' (map u32_to_string is),
      cfg_propose_value_delay = cfg_propose_value_delay self\<rparr>"

section \<open>Timeouts\<close>

text \<open>A \<open>Duration\<close> is below \<open>2 ^ 64\<close> seconds; \<open>+=\<close> panics beyond.\<close>

definition duration_add :: "duration \<Rightarrow> duration \<Rightarrow> ('e, duration) result" where
  "duration_add a b =
     (if a + b < 2 ^ 64 * 10 ^ 9 then Ok (a + b) else Panic ''overflow when adding durations'')"

datatype timeout_step = ProposeStep | PrevoteStep | PrecommitStep | CommitStep

record timeout_config =
  timeout_propose :: duration
  timeout_propose_delta :: duration
  timeout_prevote :: duration
  timeout_prevote_delta :: duration
  timeout_precommit :: duration
  timeout_precommit_delta :: duration
  timeout_commit :: duration

record timeouts =
  tos_config :: timeout_config

definition timeouts_new :: "timeout_config \<Rightarrow> timeouts" where
  "timeouts_new c = \<lparr>tos_config = c\<rparr>"

definition timeouts_reset :: "timeout_config \<Rightarrow> timeouts \<Rightarrow> timeouts" where
  "timeouts_reset c self = self\<lparr>tos_config := c\<rparr>"

definition duration_for :: "timeout_step \<Rightarrow> timeouts \<Rightarrow> duration" where
  "duration_for st self =
     (case st of
        ProposeStep \<Rightarrow> timeout_propose (tos_config self)
      | PrevoteStep \<Rightarrow> timeout_prevote (tos_config self)
      | PrecommitStep \<Rightarrow> timeout_precommit (tos_config self)
      | CommitStep \<Rightarrow> timeout_commit (tos_config self))"

definition increase_timeout :: "timeout_step \<Rightarrow> timeouts \<Rightarrow> ('e, timeouts) result" where
  "increase_timeout st self =
     (let c = tos_config self in
      case st of
        ProposeStep \<Rightarrow>
          bind_result (duration_add (timeout_propose c) (timeout_propose_delta c))
            (\<lambda>d. Ok (self\<lparr>tos_config := c\<lparr>timeout_propose := d\<rparr>\<rparr>))
      | PrevoteStep \<Rightarrow>
          bind_result (duration_add (timeout_prevote c) (timeout_prevote_delta c))
            (\<lambda>d. Ok (self\<lparr>tos_config := c\<lparr>timeout_prevote := d\<rparr>\<rparr>))
      | PrecommitStep \<Rightarrow>
          bind_result (duration_add (timeout_precommit c) (timeout_precommit_delta c))
            (\<lambda>d. Ok (self\<lparr>tos_config := c\<lparr>timeout_precommit := d\<rparr>\<rparr>))
      | CommitStep \<Rightarrow> Ok self)"

section \<open>Messages, inputs and effects\<close>

record 'r timeout =
  to_round :: 'r
  to_step :: timeout_step

record 'r single_part_proposal =
  spp_height :: height
  spp_proposal_round :: 'r
  spp_proposer :: address

datatype 'r proposal_part = FullProposalPart "'r single_part_proposal"

datatype 'r consensus_msg =
    StartHeight height
  | ProposeValue height 'r shard_hash "bytes option"
  | ReceivedProposedValue "'r value_msg"
  | ReceivedSignedVote "'r vote \<times> bytes"
  | ReceivedSignedProposal "'r proposal \<times> bytes"
  | ReceivedProposalPart "'r proposal_part \<times> bytes"
  | ReceivedFullProposal full_proposal
  | RegisterValidator snapchain_validator
  | TimeoutElapsed "'r timeout timeout_elapsed"

definition msg_shard_id :: "'r consensus_msg \<Rightarrow> ('e, u32) result" where
  "msg_shard_id msg =
     (case msg of
        StartHeight h \<Rightarrow> Ok (shard_index h)
      | ProposeValue h _ _ _ \<Rightarrow> Ok (shard_index h)
      | ReceivedProposedValue p \<Rightarrow> Ok (shard_index (pvm_height p))
      | ReceivedSignedVote v \<Rightarrow> Ok (shard_index (vo_height (fst v)))
      | ReceivedSignedProposal p \<Rightarrow> Ok (shard_index (pr_height (fst p)))
      | ReceivedFullProposal fp \<Rightarrow> bind_result (full_proposal_height fp) (\<lambda>h. Ok (shard_index h))
      | RegisterValidator v \<Rightarrow> Ok (sv_shard_index v)
      | _ \<Rightarrow> Panic ''Requested shard ID for unsupported message type'')"

text \<open>\<open>malachite_consensus\<close>: the inputs and effects the actor exchanges with the core.\<close>

datatype 'r input =
    InStartHeight height validator_set
  | InProposeValue height 'r shard_hash "bytes option"
  | InVote "'r vote \<times> bytes"
  | InProposal "'r proposal \<times> bytes"
  | InReceivedProposedValue "'r value_msg"
  | InTimeoutElapsed "'r timeout"

datatype 'r core_msg = CoreVote "'r vote" | CoreProposal "'r proposal"

datatype 'r signed_core_msg = SignedVote "'r vote \<times> bytes" | SignedProposal "'r proposal \<times> bytes"

datatype 'r effect =
    ResetTimeouts
  | CancelAllTimeouts
  | CancelTimeout "'r timeout"
  | ScheduleTimeout "'r timeout"
  | StartRound height 'r address
  | VerifySignature "'r core_msg" bytes bytes
  | Broadcast "'r signed_core_msg"
  | GetValue height 'r "'r timeout"
  | GetValidatorSet height
  | Decide height 'r shard_hash "('r vote \<times> bytes) list"

datatype resume = Continue | SignatureValidity bool | ResumeValidatorSet height "validator_set option"

datatype 'r gossip_event =
    BroadcastSignedVote "'r vote \<times> bytes"
  | BroadcastSignedProposal "'r proposal \<times> bytes"
  | BroadcastFullProposal full_proposal
  | GossipRegisterValidator register_validator

text \<open>
  A core program: finished, or an effect with the continuation that takes what the handler
  returned.
\<close>

datatype ('r, 'c) core_prog =
    CoreDone 'c "(string, unit) result"
  | CoreYield "'r effect" "(string, resume) result \<Rightarrow> ('r, 'c) core_prog"

record ('r, 'c) core =
  core_height :: "'c \<Rightarrow> height"
  core_process :: "'c \<Rightarrow> 'r input \<Rightarrow> ('r, 'c) core_prog"

section \<open>The actor\<close>

text \<open>
  \<open>cs_mailbox\<close> holds what the actor casts to itself and \<open>cs_delayed\<close> what it asked \<open>send_after\<close> to
  deliver later; \<open>cs_calls\<close> numbers the requests that depend on the clock or the network.  The
  deadline of \<open>GetValue\<close> is part of the request's schedule.  Metrics and the name used in logs are
  left out.
\<close>

record ('r, 'c) consensus_state =
  cs_timers :: "'r timeout timer_scheduler"
  cs_timeouts :: timeouts
  cs_consensus :: 'c
  cs_shard_validator :: "'r shard_validator"
  cs_gossip_tx :: "'r gossip_event sender"
  cs_mailbox :: "'r consensus_msg sender"
  cs_delayed :: "'r consensus_msg list"
  cs_calls :: nat

definition channel_closed :: string where
  "channel_closed = ''channel closed''"

definition gossip_send ::
  "'r gossip_event \<Rightarrow> ('r, 'c) consensus_state \<Rightarrow> ('r, 'c) consensus_state \<times> (string, resume) result option" where
  "gossip_send ev st =
     (if snd_open (cs_gossip_tx st)
      then (st\<lparr>cs_gossip_tx := sender_send ev (cs_gossip_tx st)\<rparr>, Some (Ok Continue))
      else (st, Some (Err channel_closed)))"

definition cast_msg :: "'r consensus_msg \<Rightarrow> ('r, 'c) consensus_state \<Rightarrow> ('r, 'c) consensus_state" where
  "cast_msg m st = st\<lparr>cs_mailbox := sender_send m (cs_mailbox st)\<rparr>"

definition handle_effect ::
  "'r node_env \<Rightarrow> timeout_config \<Rightarrow> ('r, 'c) consensus_state \<Rightarrow> 'r effect \<Rightarrow>
     ('r, 'c) consensus_state \<times> (string, resume) result option" where
  "handle_effect N config st eff =
     (case eff of
        ResetTimeouts \<Rightarrow> (st\<lparr>cs_timeouts := timeouts_reset config (cs_timeouts st)\<rparr>, Some (Ok Continue))
      | CancelAllTimeouts \<Rightarrow> (st\<lparr>cs_timers := cancel_all (cs_timers st)\<rparr>, Some (Ok Continue))
      | CancelTimeout t \<Rightarrow> (st\<lparr>cs_timers := cancel t (cs_timers st)\<rparr>, Some (Ok Continue))
      | ScheduleTimeout t \<Rightarrow>
          (case start_timer t (duration_for (to_step t) (cs_timeouts st)) (cs_timers st) of
             Ok timers \<Rightarrow> (st\<lparr>cs_timers := timers\<rparr>, Some (Ok Continue))
           | Err e \<Rightarrow> (st, Some (Err e))
           | Panic m \<Rightarrow> (st, Some (Panic m)))
      | StartRound h r a \<Rightarrow>
          (st\<lparr>cs_shard_validator := start_round h r a (cs_shard_validator st)\<rparr>, Some (Ok Continue))
      | VerifySignature msg signature pk \<Rightarrow>
          (st, Some (bind_result
             (case msg of
                CoreVote v \<Rightarrow> verify_signed_vote (ne_rounds N) (ne_vote_bytes N) (ne_verify N) v signature pk
              | CoreProposal p \<Rightarrow>
                  verify_signed_proposal (ne_rounds N) (ne_proposal_bytes N) (ne_verify N) p signature pk)
             (\<lambda>valid. Ok (SignatureValidity valid))))
      | Broadcast msg \<Rightarrow>
          (case msg of
             SignedProposal p \<Rightarrow> gossip_send (BroadcastSignedProposal p) st
           | SignedVote v \<Rightarrow> gossip_send (BroadcastSignedVote v) st)
      | GetValue h r t \<Rightarrow>
          (let st0 = st\<lparr>cs_calls := cs_calls st + 1\<rparr> in
           case validator_propose_value N (cs_calls st) h r (cs_shard_validator st0) of
             (sv, None) \<Rightarrow> (st0\<lparr>cs_shard_validator := sv\<rparr>, None)
           | (sv, Some res) \<Rightarrow>
               (let st1 = st0\<lparr>cs_shard_validator := sv\<rparr> in
                case bind_result res (\<lambda>fp. bind_result (full_proposal_shard_hash fp) (\<lambda>v. Ok (fp, v))) of
                  Err e \<Rightarrow> (st1, Some (Panic unwrap_err))
                | Panic m \<Rightarrow> (st1, Some (Panic m))
                | Ok (fp, v) \<Rightarrow> gossip_send (BroadcastFullProposal fp) (cast_msg (ProposeValue h r v None) st1)))
      | GetValidatorSet h \<Rightarrow>
          (st, Some (Ok (ResumeValidatorSet h (Some (get_validator_set (cs_shard_validator st))))))
      | Decide h r v commits \<Rightarrow>
          (case validator_decide N h v (cs_shard_validator st) of
             (sv, Err e) \<Rightarrow> (st\<lparr>cs_shard_validator := sv\<rparr>, Some (Panic unwrap_err))
           | (sv, Panic m) \<Rightarrow> (st\<lparr>cs_shard_validator := sv\<rparr>, Some (Panic m))
           | (sv, Ok _) \<Rightarrow>
               (case height_increment h of
                  Ok h' \<Rightarrow> (cast_msg (StartHeight h') (st\<lparr>cs_shard_validator := sv\<rparr>), Some (Ok Continue))
                | Err e \<Rightarrow> (st\<lparr>cs_shard_validator := sv\<rparr>, Some (Err e))
                | Panic m \<Rightarrow> (st\<lparr>cs_shard_validator := sv\<rparr>, Some (Panic m)))))"

text \<open>The loop of \<open>process!\<close>: run the program, handling its effects.\<close>

primrec process ::
  "('s \<Rightarrow> 'r effect \<Rightarrow> 's \<times> (string, resume) result option) \<Rightarrow> ('r, 'c) core_prog \<Rightarrow> 's \<Rightarrow>
     's \<times> (string, 'c \<times> (string, unit) result) result option" where
  "process handler (CoreDone c r) = (\<lambda>st. (st, Some (Ok (c, r))))"
| "process handler (CoreYield eff k) = (\<lambda>st.
     case handler st eff of
       (st', None) \<Rightarrow> (st', None)
     | (st', Some (Panic m)) \<Rightarrow> (st', Some (Panic m))
     | (st', Some (Ok x)) \<Rightarrow> process handler (k (Ok x)) st'
     | (st', Some (Err x)) \<Rightarrow> process handler (k (Err x)) st')"

definition process_input ::
  "'r node_env \<Rightarrow> ('r, 'c) core \<Rightarrow> timeout_config \<Rightarrow> 'r input \<Rightarrow> ('r, 'c) consensus_state \<Rightarrow>
     ('r, 'c) consensus_state \<times> (string, unit) result option" where
  "process_input N K config inp st =
     (case process (handle_effect N config) (core_process K (cs_consensus st) inp) st of
        (st', None) \<Rightarrow> (st', None)
      | (st', Some (Panic m)) \<Rightarrow> (st', Some (Panic m))
      | (st', Some (Err e)) \<Rightarrow> (st', Some (Err e))
      | (st', Some (Ok (c, r))) \<Rightarrow> (st'\<lparr>cs_consensus := c\<rparr>, Some r))"

text \<open>The callers log an error of \<open>process_input\<close> and return \<open>Ok\<close>.\<close>

definition logged :: "'s \<times> (string, unit) result option \<Rightarrow> 's \<times> (string, unit) result option" where
  "logged x = (case x of (st, Some (Err e)) \<Rightarrow> (st, Some (Ok ())) | _ \<Rightarrow> x)"

definition start_height ::
  "'r node_env \<Rightarrow> ('r, 'c) core \<Rightarrow> timeout_config \<Rightarrow> height \<Rightarrow> ('r, 'c) consensus_state \<Rightarrow>
     ('r, 'c) consensus_state \<times> (string, unit) result option" where
  "start_height N K config h st =
     (if val_started (cs_shard_validator st) \<and> height_ge (core_height K (cs_consensus st)) h
      then (st, Some (Ok ()))
      else
        (case process_input N K config (InStartHeight h (get_validator_set (cs_shard_validator st))) st of
           (st', None) \<Rightarrow> (st', None)
         | (st', Some (Panic m)) \<Rightarrow> (st', Some (Panic m))
         | (st', Some r) \<Rightarrow>
             (st'\<lparr>cs_shard_validator := validator_start (cs_shard_validator st')\<rparr>, Some (Ok ()))))"

text \<open>The start of \<open>ReceivedSignedVote\<close> and \<open>ReceivedSignedProposal\<close>.\<close>

definition start_then ::
  "'r node_env \<Rightarrow> ('r, 'c) core \<Rightarrow> timeout_config \<Rightarrow> height \<Rightarrow> 'r input \<Rightarrow> ('r, 'c) consensus_state \<Rightarrow>
     ('r, 'c) consensus_state \<times> (string, unit) result option" where
  "start_then N K config h inp st =
     (case (if val_started (cs_shard_validator st) then (st, Some (Ok ())) else start_height N K config h st) of
        (st', Some (Ok _)) \<Rightarrow> logged (process_input N K config inp st')
      | x \<Rightarrow> x)"

definition handle_msg ::
  "'r node_env \<Rightarrow> ('r, 'c) core \<Rightarrow> timeout_config \<Rightarrow> 'r consensus_msg \<Rightarrow> ('r, 'c) consensus_state \<Rightarrow>
     ('r, 'c) consensus_state \<times> (string, unit) result option" where
  "handle_msg N K config msg st =
     (case msg of
        StartHeight h \<Rightarrow> start_height N K config h st
      | ProposeValue h r v _ \<Rightarrow> logged (process_input N K config (InProposeValue h r v None) st)
      | ReceivedSignedVote vote \<Rightarrow> start_then N K config (vo_height (fst vote)) (InVote vote) st
      | ReceivedSignedProposal p \<Rightarrow> start_then N K config (pr_height (fst p)) (InProposal p) st
      | RegisterValidator v \<Rightarrow>
          (case add_validator v (cs_shard_validator st) of
             (sv, False) \<Rightarrow> (st\<lparr>cs_shard_validator := sv\<rparr>, Some (Ok ()))
           | (sv, True) \<Rightarrow>
               (let connected_peers = validator_count sv in
                case sync_with_new_validator N (cs_calls st) v sv of
                  (sv', r) \<Rightarrow>
                    (let st1 = st\<lparr>cs_shard_validator := sv', cs_calls := cs_calls st + 1\<rparr> in
                     case r of
                       Panic m \<Rightarrow> (st1, Some (Panic m))
                     | _ \<Rightarrow>
                         (if connected_peers = 3
                          then st1\<lparr>cs_delayed := cs_delayed st1 @ [StartHeight (core_height K (cs_consensus st1))]\<rparr>
                          else st1, Some (Ok ())))))
      | ReceivedProposalPart _ \<Rightarrow> (st, Some (Ok ()))
      | ReceivedFullProposal fp \<Rightarrow>
          (case fp_height fp of
             None \<Rightarrow> (st, Some (Panic unwrap_none))
           | Some h \<Rightarrow>
               (case validator_add_proposed_value N fp (cs_shard_validator st) of
                  (sv, Ok value) \<Rightarrow>
                    logged (process_input N K config (InReceivedProposedValue value)
                      (st\<lparr>cs_shard_validator := sv\<rparr>))
                | (sv, Err e) \<Rightarrow> (st\<lparr>cs_shard_validator := sv\<rparr>, Some (Panic unwrap_err))
                | (sv, Panic m) \<Rightarrow> (st\<lparr>cs_shard_validator := sv\<rparr>, Some (Panic m))))
      | TimeoutElapsed elapsed \<Rightarrow>
          (case intercept_timer_msg elapsed (cs_timers st) of
             (timers, None) \<Rightarrow> (st\<lparr>cs_timers := timers\<rparr>, Some (Ok ()))
           | (timers, Some t) \<Rightarrow>
               (let st1 = st\<lparr>cs_timers := timers\<rparr> in
                case increase_timeout (to_step t) (cs_timeouts st1) of
                  Err e \<Rightarrow> (st1, Some (Err e))
                | Panic m \<Rightarrow> (st1, Some (Panic m))
                | Ok tos \<Rightarrow> logged (process_input N K config (InTimeoutElapsed t) (st1\<lparr>cs_timeouts := tos\<rparr>))))
      | ReceivedProposedValue value \<Rightarrow>
          logged (process_input N K config (InReceivedProposedValue value) st))"

definition consensus_pre_start ::
  "timeout_config \<Rightarrow> 'c \<Rightarrow> 'r gossip_event sender \<Rightarrow> 'r shard_validator \<Rightarrow> ('r, 'c) consensus_state" where
  "consensus_pre_start config core0 gossip sv =
     \<lparr>cs_timers = timer_scheduler_new, cs_timeouts = timeouts_new config, cs_consensus = core0,
      cs_shard_validator = sv, cs_gossip_tx = gossip, cs_mailbox = \<lparr>snd_open = True, snd_sent = []\<rparr>,
      cs_delayed = [], cs_calls = 0\<rparr>"

definition consensus_post_start ::
  "'r node_env \<Rightarrow> u32 \<Rightarrow> bytes \<Rightarrow> ('r, 'c) consensus_state \<Rightarrow>
     ('r, 'c) consensus_state \<times> (string, unit) result" where
  "consensus_post_start N shard public_key st =
     (let st1 = st\<lparr>cs_timers := cancel_all (cs_timers st)\<rparr> in
      case get_current_height (ne_chain N) (cs_shard_validator st1) of
        Err e \<Rightarrow> (st1, Err e)
      | Panic m \<Rightarrow> (st1, Panic m)
      | Ok current \<Rightarrow>
          (st1\<lparr>cs_shard_validator :=
             fst (add_validator (snapchain_validator_new shard public_key None current)
                    (cs_shard_validator st1))\<rparr>, Ok ()))"

definition consensus_post_stop :: "('r, 'c) consensus_state \<Rightarrow> ('r, 'c) consensus_state" where
  "consensus_post_stop st = st\<lparr>cs_timers := cancel_all (cs_timers st)\<rparr>"

end
