(* ===== verification/Consensus_Facts.thy ===== *)
theory Consensus_Facts
  imports Consensus "HOL-Library.Sublist"
begin

text \<open>
  What the consensus actor guarantees for every core: the round trip of the configuration, the
  growth of the timeouts, the invariants of the actor (locales \<open>effect_invariant\<close> and
  \<open>actor_invariant\<close>, interpreted for the history, the validator set and the timers), and what each
  message and effect does.
\<close>

section \<open>Configuration\<close>

lemma split_on_no_sep: "sep \<notin> set s \<Longrightarrow> split_on sep s = [s]"
  by (induction s) auto

lemma split_on_append: "sep \<notin> set s \<Longrightarrow> split_on sep (s @ sep # t) = s # split_on sep t"
  by (induction s) auto

lemma split_join:
  "ss \<noteq> [] \<Longrightarrow> \<forall>s \<in> set ss. sep \<notin> set s \<Longrightarrow> split_on sep (join [sep] ss) = ss"
  by (induction "[sep]" ss rule: join.induct) (auto simp: split_on_no_sep split_on_append)

declare dec_digits.simps [simp del]

lemma digit_of_char: "d < 10 \<Longrightarrow> digit_of (char_of (48 + d)) = Some d"
  by (simp add: digit_of_def)

lemma dec_digits_set: "c \<in> set (dec_digits n) \<Longrightarrow> digit_of c \<noteq> None"
proof (induction n rule: dec_digits.induct)
  case (1 n)
  then show ?case
    by (cases "n < 10") (auto simp: dec_digits.simps [of n] digit_of_char)
qed

lemma dec_digits_nonempty [simp]: "dec_digits n \<noteq> []"
  by (subst dec_digits.simps) simp

lemma parse_digits_append:
  "parse_digits a (xs @ ys) = (case parse_digits a xs of None \<Rightarrow> None | Some b \<Rightarrow> parse_digits b ys)"
  by (induction a xs rule: parse_digits.induct) (auto split: option.splits)

lemma parse_dec_digits: "n < 2 ^ 32 \<Longrightarrow> parse_digits 0 (dec_digits n) = Some n"
proof (induction n rule: dec_digits.induct)
  case (1 n)
  show ?case
  proof (cases "n < 10")
    case True
    then show ?thesis by (subst dec_digits.simps) (simp add: digit_of_char)
  next
    case False
    with 1 have "parse_digits 0 (dec_digits (n div 10)) = Some (n div 10)" by simp
    with False 1(2) show ?thesis
      by (subst dec_digits.simps) (simp add: parse_digits_append digit_of_char)
  qed
qed

lemma u32_roundtrip: "u32_parse (u32_to_string w) = Some w"
proof -
  obtain c cs where c: "dec_digits (unat w) = c # cs" by (cases "dec_digits (unat w)") auto
  then have "digit_of c \<noteq> None" using dec_digits_set [of c "unat w"] by simp
  then have "c \<noteq> CHR ''+''" by (auto simp: digit_of_def)
  moreover have "unat w < 2 ^ 32" using unsigned_less [of w, where ?'a = nat] by simp
  ultimately show ?thesis
    using parse_dec_digits [of "unat w"] c by (simp add: u32_parse_def u32_to_string_def del: parse_digits.simps)
qed

lemma parse_all_map: "parse_all (map u32_to_string is) = Ok is"
  by (induction "is") (auto simp: u32_roundtrip)

lemma shard_ids_roundtrip:
  assumes "is \<noteq> []"
  shows "config_shard_ids (config_with_shard_ids is c) = Ok is"
proof -
  have "\<forall>s \<in> set (map u32_to_string is). CHR '','' \<notin> set s"
    using dec_digits_set by (fastforce simp: u32_to_string_def digit_of_def)
  with assms split_join [of "map u32_to_string is" "CHR '',''"] show ?thesis
    by (simp add: config_shard_ids_def config_with_shard_ids_def parse_all_map)
qed

text \<open>No shards at all print as the empty string, which does not parse.\<close>

lemma shard_ids_empty: "config_shard_ids (config_with_shard_ids [] c) = Panic unwrap_err"
  by (simp add: config_shard_ids_def config_with_shard_ids_def u32_parse_def)

section \<open>Timeouts\<close>

definition delta_for :: "timeout_step \<Rightarrow> timeout_config \<Rightarrow> duration" where
  "delta_for st c =
     (case st of ProposeStep \<Rightarrow> timeout_propose_delta c | PrevoteStep \<Rightarrow> timeout_prevote_delta c
      | PrecommitStep \<Rightarrow> timeout_precommit_delta c | CommitStep \<Rightarrow> 0)"

fun increase_times :: "timeout_step list \<Rightarrow> timeouts \<Rightarrow> ('e, timeouts) result" where
  "increase_times [] t = Ok t"
| "increase_times (st # sts) t = bind_result (increase_timeout st t) (increase_times sts)"

lemma increase_timeout_ok:
  assumes "increase_timeout st t = Ok t'"
  shows "duration_for s t' = duration_for s t + (if s = st then delta_for s (tos_config t) else 0)"
    "delta_for s (tos_config t') = delta_for s (tos_config t)"
  using assms
  by (auto simp: increase_timeout_def duration_for_def delta_for_def Let_def duration_add_def
      split: timeout_step.splits if_splits)

lemma increase_times_ok:
  "(increase_times sts t :: ('e, timeouts) result) = Ok t' \<Longrightarrow>
     duration_for s t' = duration_for s t + count_list sts s * delta_for s (tos_config t)"
proof (induction sts arbitrary: t)
  case (Cons st sts)
  then obtain t1 where t1: "(increase_timeout st t :: ('e, timeouts) result) = Ok t1"
    "(increase_times sts t1 :: ('e, timeouts) result) = Ok t'"
    by (auto simp: bind_result_Ok_iff)
  from Cons.IH [OF t1(2)] increase_timeout_ok [OF t1(1), of s] show ?case
    by simp
qed simp

lemma increase_timeout_total:
  "duration_for st t + delta_for st (tos_config t) < 2 ^ 64 * 10 ^ 9 \<Longrightarrow> \<exists>t'. increase_timeout st t = Ok t'"
  by (cases st) (auto simp: increase_timeout_def duration_for_def delta_for_def Let_def duration_add_def)

section \<open>Invariants of the actor\<close>

text \<open>
  The core is arbitrary, so what the actor guarantees is what each effect handler guarantees.
  \<open>effect_invariant\<close> lifts a property from the handler to a whole input, \<open>actor_invariant\<close> to a
  message.
\<close>

locale effect_invariant =
  fixes N :: "'r node_env" and K :: "('r, 'c) core" and config :: timeout_config
    and P :: "('r, 'c) consensus_state \<Rightarrow> bool"
  assumes effect: "P st \<Longrightarrow> handle_effect N config st eff = (st', r) \<Longrightarrow> P st'"
    and core_update: "P st \<Longrightarrow> P (st\<lparr>cs_consensus := c\<rparr>)"
begin

lemma process_inv: "P st \<Longrightarrow> process (handle_effect N config) prog st = (st', res) \<Longrightarrow> P st'"
proof (induction prog arbitrary: st)
  case (CoreDone c r)
  then show ?case by simp
next
  case (CoreYield eff k)
  obtain st1 r where h: "handle_effect N config st eff = (st1, r)" by fastforce
  with effect [OF CoreYield.prems(1) h] CoreYield show ?case
    by (auto split: option.splits result.splits)
qed

lemma process_input_inv: "P st \<Longrightarrow> process_input N K config inp st = (st', res) \<Longrightarrow> P st'"
  by (auto simp: process_input_def split: prod.splits option.splits result.splits
      dest: process_inv intro: core_update)

lemma logged_input_inv: "P st \<Longrightarrow> logged (process_input N K config inp st) = (st', res) \<Longrightarrow> P st'"
  by (auto simp: logged_def split: prod.splits option.splits result.splits dest: process_input_inv)

end

locale actor_invariant = effect_invariant +
  assumes started: "P st \<Longrightarrow> P (st\<lparr>cs_shard_validator := validator_start (cs_shard_validator st)\<rparr>)"
    and added: "P st \<Longrightarrow> P (st\<lparr>cs_shard_validator := fst (add_validator v (cs_shard_validator st))\<rparr>)"
    and synced: "P st \<Longrightarrow> P (st\<lparr>cs_shard_validator := fst (sync_with_new_validator N i v (cs_shard_validator st))\<rparr>)"
    and received: "P st \<Longrightarrow>
      P (st\<lparr>cs_shard_validator := fst (validator_add_proposed_value N fp (cs_shard_validator st))\<rparr>)"
    and bookkeeping: "P st \<Longrightarrow> P (st\<lparr>cs_calls := n, cs_delayed := ms\<rparr>)"
    and timed: "P st \<Longrightarrow> P (st\<lparr>cs_timers := ts, cs_timeouts := tos\<rparr>)"
begin

lemma start_height_inv: "P st \<Longrightarrow> start_height N K config h st = (st', res) \<Longrightarrow> P st'"
  by (auto simp: start_height_def split: if_splits prod.splits option.splits result.splits
      dest: process_input_inv intro: started)

lemma start_then_inv: "P st \<Longrightarrow> start_then N K config h inp st = (st', res) \<Longrightarrow> P st'"
  by (auto simp: start_then_def split: if_splits prod.splits option.splits result.splits
      dest: start_height_inv logged_input_inv)

lemma register_inv:
  assumes P: "P st" and ok: "handle_msg N K config (RegisterValidator v) st = (st', res)"
  shows "P st'"
proof -
  obtain sv added where sv: "add_validator v (cs_shard_validator st) = (sv, added)" by fastforce
  with added [OF P, of v] have P1: "P (st\<lparr>cs_shard_validator := sv\<rparr>)" by simp
  obtain sv' r where sv': "sync_with_new_validator N (cs_calls st) v sv = (sv', r)" by fastforce
  with synced [OF P1, of "cs_calls st" v] have "P (st\<lparr>cs_shard_validator := sv'\<rparr>)" by simp
  from bookkeeping [OF this, of "cs_delayed st" "cs_calls st + 1"]
    bookkeeping [OF this, of "cs_delayed st @ [StartHeight (core_height K (cs_consensus st))]" "cs_calls st + 1"]
    P1 sv sv' ok show ?thesis
    by (auto simp: handle_msg_def Let_def split: bool.splits result.splits if_splits)
qed

lemma full_proposal_inv:
  assumes P: "P st" and ok: "handle_msg N K config (ReceivedFullProposal fp) st = (st', res)"
  shows "P st'"
proof -
  obtain sv r where sv: "validator_add_proposed_value N fp (cs_shard_validator st) = (sv, r)" by fastforce
  with received [OF P, of fp] have "P (st\<lparr>cs_shard_validator := sv\<rparr>)" by simp
  with P sv ok show ?thesis
    by (auto simp: handle_msg_def split: option.splits result.splits dest: logged_input_inv)
qed

lemma timeout_inv:
  assumes P: "P st" and ok: "handle_msg N K config (TimeoutElapsed t) st = (st', res)"
  shows "P st'"
proof -
  have upd: "P (st\<lparr>cs_timers := ts\<rparr>)" "P (st\<lparr>cs_timers := ts, cs_timeouts := tos\<rparr>)" for ts tos
    using timed [OF P, of "cs_timeouts st" ts] timed [OF P, of tos ts] by simp_all
  then show ?thesis using ok
    by (auto simp: handle_msg_def Let_def split: prod.splits option.splits result.splits
        dest: logged_input_inv [OF upd(2)])
qed

theorem handle_msg_inv:
  assumes P: "P st" and ok: "handle_msg N K config msg st = (st', res)"
  shows "P st'"
proof (cases msg)
  case (StartHeight h)
  with ok start_height_inv [OF P] show ?thesis by (simp add: handle_msg_def)
next
  case (ProposeValue h r v x)
  with ok logged_input_inv [OF P] show ?thesis by (simp add: handle_msg_def)
next
  case (ReceivedProposedValue v)
  with ok logged_input_inv [OF P] show ?thesis by (simp add: handle_msg_def)
next
  case (ReceivedSignedVote v)
  with ok start_then_inv [OF P] show ?thesis by (simp add: handle_msg_def)
next
  case (ReceivedSignedProposal p)
  with ok start_then_inv [OF P] show ?thesis by (simp add: handle_msg_def)
next
  case (ReceivedProposalPart p)
  with ok P show ?thesis by (simp add: handle_msg_def)
next
  case (ReceivedFullProposal fp)
  with ok full_proposal_inv [OF P] show ?thesis by simp
next
  case (RegisterValidator v)
  with ok register_inv [OF P] show ?thesis by simp
next
  case (TimeoutElapsed t)
  with ok timeout_inv [OF P] show ?thesis by simp
qed

end

section \<open>What every core leaves intact\<close>

text \<open>A validator's history is only ever extended.\<close>

lemma shard_decide_history: "shard_decide E C h v p = (p', r) \<Longrightarrow> prefix (spr_chunks p) (spr_chunks p')"
  by (auto simp: shard_decide_def Let_def split: option.splits prod.splits result.splits)

lemma block_decide_history: "block_decide C h v p = (p', r) \<Longrightarrow> prefix (bpr_blocks p) (bpr_blocks p')"
  by (auto simp: block_decide_def Let_def publish_new_block_def split: option.splits prod.splits result.splits)

lemma shard_propose_history: "shard_propose_value E H R now h r p = (p', x) \<Longrightarrow> spr_chunks p' = spr_chunks p"
  by (auto simp: shard_propose_value_def Let_def split: prod.splits result.splits)

lemma block_propose_history: "block_propose_value E H R now events h r p = (p', x) \<Longrightarrow> bpr_blocks p' = bpr_blocks p"
  by (auto simp: block_propose_value_def collect_confirmed_shard_chunks_def Let_def
      split: prod.splits result.splits option.splits dest!: collect_loop_keeps)

lemma sync_blocks:
  "bpr_blocks (fold (\<lambda>b s. publish_new_block b (s\<lparr>bpr_blocks := bpr_blocks s @ [b]\<rparr>)) bs p) = bpr_blocks p @ bs"
  by (induction bs arbitrary: p) (simp_all add: publish_new_block_def)

lemma register_history:
  "proposer_register_validator c f v p = (p', r) \<Longrightarrow> prefix (bpr_blocks p) (bpr_blocks p')"
  by (auto simp: proposer_register_validator_def Let_def sync_blocks
      split: result.splits if_splits option.splits)

lemma add_value_history:
  "block_add_proposed_value fp p = (p', r) \<Longrightarrow> bpr_blocks p' = bpr_blocks p"
  "shard_add_proposed_value fp q = (q', s) \<Longrightarrow> spr_chunks q' = spr_chunks q"
  by (auto simp: block_add_proposed_value_def shard_add_proposed_value_def Let_def
      split: option.splits proposed_value.splits result.splits)

lemma validator_history_mono:
  "prefix (val_history sv) (val_history (fst (validator_decide N h v sv)))"
  "val_history (fst (validator_propose_value N i h r sv)) = val_history sv"
  "val_history (fst (validator_add_proposed_value N fp sv)) = val_history sv"
  "prefix (val_history sv) (val_history (fst (sync_with_new_validator N i x sv)))"
  by (auto simp: validator_decide_def validator_propose_value_def validator_add_proposed_value_def
      sync_with_new_validator_def val_history_def Let_def map_mono_prefix
      split: option.splits prod.splits result.splits
      dest: shard_decide_history block_decide_history shard_propose_history block_propose_history
        register_history add_value_history)

lemma validator_history_other [simp]:
  "val_history (start_round h r a sv) = val_history sv"
  "val_history (validator_start sv) = val_history sv"
  "val_history (fst (add_validator v sv)) = val_history sv"
  by (auto simp: val_history_def start_round_def validator_start_def add_validator_def
      split: prod.split option.split)

text \<open>The handler in terms of the validator's own operations.\<close>

lemma handle_effect_validator:
  assumes "handle_effect N config st eff = (st', r)"
  shows "cs_shard_validator st' = cs_shard_validator st \<or>
    (\<exists>h r a. cs_shard_validator st' = start_round h r a (cs_shard_validator st)) \<or>
    (\<exists>i h r. cs_shard_validator st' = fst (validator_propose_value N i h r (cs_shard_validator st))) \<or>
    (\<exists>h v. cs_shard_validator st' = fst (validator_decide N h v (cs_shard_validator st)))"
proof (cases eff)
  case (GetValue h ro t)
  obtain sv res where "validator_propose_value N (cs_calls st) h ro (cs_shard_validator st) = (sv, res)" by fastforce
  with assms GetValue have "cs_shard_validator st' = fst (validator_propose_value N (cs_calls st) h ro (cs_shard_validator st))"
    by (auto simp: handle_effect_def Let_def gossip_send_def cast_msg_def
        split: option.splits result.splits if_splits)
  then show ?thesis by blast
next
  case (Decide h ro v commits)
  obtain sv res where "validator_decide N h v (cs_shard_validator st) = (sv, res)" by fastforce
  with assms Decide have "cs_shard_validator st' = fst (validator_decide N h v (cs_shard_validator st))"
    by (auto simp: handle_effect_def cast_msg_def split: result.splits)
  then show ?thesis by blast
next
  case (StartRound h ro a)
  with assms have "cs_shard_validator st' = start_round h ro a (cs_shard_validator st)"
    by (auto simp: handle_effect_def)
  then show ?thesis by blast
qed (use assms in \<open>auto simp: handle_effect_def gossip_send_def split: result.splits signed_core_msg.splits if_splits\<close>)

lemma handle_effect_history:
  "handle_effect N config st eff = (st', r) \<Longrightarrow>
     prefix (val_history (cs_shard_validator st)) (val_history (cs_shard_validator st'))"
  by (auto dest!: handle_effect_validator simp: validator_history_mono)

interpretation history: actor_invariant N K config "\<lambda>st. prefix hs (val_history (cs_shard_validator st))"
  for N K config hs
proof unfold_locales
  fix st :: "('a, 'b) consensus_state" and eff st' r
  assume "prefix hs (val_history (cs_shard_validator st))" "handle_effect N config st eff = (st', r)"
  then show "prefix hs (val_history (cs_shard_validator st'))"
    by (blast dest: handle_effect_history intro: prefix_order.trans)
next
  fix st :: "('a, 'b) consensus_state" and i v
  assume "prefix hs (val_history (cs_shard_validator st))"
  from prefix_order.trans [OF this validator_history_mono(4)]
  show "prefix hs (val_history (cs_shard_validator
      (st\<lparr>cs_shard_validator := fst (sync_with_new_validator N i v (cs_shard_validator st))\<rparr>)))" by simp
qed (simp_all add: validator_history_mono(3))

text \<open>
  The effects a program asks for and the states they are handled in, and the values decided among
  them: what the proposer remembers under the decided hash.
\<close>

primrec effect_trace ::
  "('s \<Rightarrow> 'r effect \<Rightarrow> 's \<times> (string, resume) result option) \<Rightarrow> ('r, 'c) core_prog \<Rightarrow> 's \<Rightarrow>
     ('s \<times> 'r effect) list" where
  "effect_trace handler (CoreDone c r) = (\<lambda>st. [])"
| "effect_trace handler (CoreYield eff k) = (\<lambda>st. (st, eff) #
     (case handler st eff of
        (st', Some (Ok x)) \<Rightarrow> effect_trace handler (k (Ok x)) st'
      | (st', Some (Err x)) \<Rightarrow> effect_trace handler (k (Err x)) st'
      | _ \<Rightarrow> []))"

definition remembered_value :: "'r shard_validator \<Rightarrow> shard_hash \<Rightarrow> proposed_value list" where
  "remembered_value sv v =
     (case val_proposed sv v of
        Some fp \<Rightarrow> (case fp_proposed_value fp of Some y \<Rightarrow> [y] | None \<Rightarrow> [])
      | None \<Rightarrow> [])"

fun decided_value :: "('r, 'c) consensus_state \<times> 'r effect \<Rightarrow> proposed_value list" where
  "decided_value (st, Decide h r v commits) = remembered_value (cs_shard_validator st) v"
| "decided_value (st, _) = []"

lemma validator_decide_history:
  assumes "validator_decide N h v sv = (sv', Ok ())"
  shows "val_history sv' = val_history sv @ remembered_value sv v"
proof (cases "val_proposed sv v")
  case None
  from assms have "val_block_proposer sv \<noteq> None \<or> val_shard_proposer sv \<noteq> None"
    by (auto simp: validator_decide_def split: option.splits)
  from validator_decide_unknown [OF None this, of N h] assms None show ?thesis
    by (auto simp: remembered_value_def val_history_def split: option.split)
next
  case (Some fp)
  from validator_decide_known [OF assms Some] Some show ?thesis by (auto simp: remembered_value_def)
qed

lemma handle_effect_decides:
  assumes "handle_effect N config st eff = (st', Some r)" "\<nexists>m. r = Panic m"
  shows "val_history (cs_shard_validator st') = val_history (cs_shard_validator st) @ decided_value (st, eff)"
proof (cases eff)
  case (Decide h ro v commits)
  obtain sv res where sv: "validator_decide N h v (cs_shard_validator st) = (sv, res)" by fastforce
  with assms Decide have "res = Ok ()" "cs_shard_validator st' = sv"
    by (auto simp: handle_effect_def cast_msg_def split: result.splits)
  with sv validator_decide_history [of N h v "cs_shard_validator st" sv] Decide show ?thesis by simp
next
  case (GetValue h ro t)
  obtain sv res where sv: "validator_propose_value N (cs_calls st) h ro (cs_shard_validator st) = (sv, res)" by fastforce
  with assms GetValue have "cs_shard_validator st' = sv"
    by (auto simp: handle_effect_def Let_def gossip_send_def cast_msg_def
        split: option.splits result.splits if_splits)
  with sv GetValue validator_history_mono(2) [of N "cs_calls st" h ro "cs_shard_validator st"] show ?thesis by simp
qed (use assms in \<open>auto simp: handle_effect_def gossip_send_def
      split: result.splits signed_core_msg.splits if_splits\<close>)

lemma process_decides:
  assumes "process (handle_effect N config) prog st = (st', Some r)" "\<nexists>m. r = Panic m"
  shows "val_history (cs_shard_validator st') = val_history (cs_shard_validator st) @
    concat (map decided_value (effect_trace (handle_effect N config) prog st))"
  using assms
proof (induction prog arbitrary: st)
  case (CoreYield eff k)
  obtain st1 x where e: "handle_effect N config st eff = (st1, Some x)" "\<nexists>m. x = Panic m"
    using CoreYield.prems by (auto split: prod.splits option.splits result.splits)
  from handle_effect_decides [OF e] e CoreYield.prems CoreYield.IH [of "k x" st1] show ?case
    by (cases x) auto
qed simp

text \<open>The validator set stays sorted and free of duplicates, and no validator is dropped.\<close>

definition vals_ok :: "validator_set \<Rightarrow> ('r, 'c) consensus_state \<Rightarrow> bool" where
  "vals_ok vs st \<longleftrightarrow> validator_set_wf (val_validator_set (cs_shard_validator st)) \<and>
     set vs \<subseteq> set (val_validator_set (cs_shard_validator st))"

lemma validator_set_same [simp]:
  "val_validator_set (start_round h r a sv) = val_validator_set sv"
  "val_validator_set (validator_start sv) = val_validator_set sv"
  "val_validator_set (fst (validator_decide N h v sv)) = val_validator_set sv"
  "val_validator_set (fst (validator_propose_value N i h r sv)) = val_validator_set sv"
  "val_validator_set (fst (validator_add_proposed_value N fp sv)) = val_validator_set sv"
  "val_validator_set (fst (sync_with_new_validator N i x sv)) = val_validator_set sv"
  by (auto simp: start_round_def validator_start_def validator_decide_def validator_propose_value_def
      validator_add_proposed_value_def sync_with_new_validator_def Let_def
      split: option.splits prod.splits result.splits)

interpretation validators: actor_invariant N K config "vals_ok vs" for N K config vs
proof unfold_locales
  fix st :: "('a, 'b) consensus_state" and eff st' r
  assume "vals_ok vs st" "handle_effect N config st eff = (st', r)"
  then show "vals_ok vs st'" by (auto simp: vals_ok_def dest!: handle_effect_validator)
next
  fix st :: "('a, 'b) consensus_state" and v
  assume "vals_ok vs st"
  then show "vals_ok vs (st\<lparr>cs_shard_validator := fst (add_validator v (cs_shard_validator st))\<rparr>)"
    using validator_set_add_wf [of "val_validator_set (cs_shard_validator st)" v]
      validator_set_add_set [of "val_validator_set (cs_shard_validator st)" v]
    by (auto simp: vals_ok_def add_validator_def split: prod.splits)
qed (simp_all add: vals_ok_def)

text \<open>The actor uses the scheduler only through its interface, so its timers are those of a run.\<close>

definition timers_reach :: "'r timeout timeout_elapsed list \<Rightarrow> ('r, 'c) consensus_state \<Rightarrow> bool" where
  "timers_reach mb st \<longleftrightarrow>
     (\<exists>ls. timer_run timer_world_new ls \<lparr>tw_sched = cs_timers st, tw_mailbox = mb\<rparr>)"

lemma timers_reach_step:
  assumes "timers_reach mb st"
    "timer_step \<lparr>tw_sched = cs_timers st, tw_mailbox = mb\<rparr> l \<lparr>tw_sched = cs_timers st', tw_mailbox = mb'\<rparr>"
  shows "timers_reach mb' st'"
  using assms unfolding timers_reach_def by (blast intro: tr_snoc)

lemma handle_effect_timers:
  assumes "handle_effect N config st eff = (st', r)"
  shows "cs_timers st' = cs_timers st \<or> (\<exists>l. timer_step \<lparr>tw_sched = cs_timers st, tw_mailbox = mb\<rparr> l
    \<lparr>tw_sched = cs_timers st', tw_mailbox = mb\<rparr>)"
proof (cases eff)
  case CancelAllTimeouts
  with assms ts_cancel_all [of "\<lparr>tw_sched = cs_timers st, tw_mailbox = mb\<rparr>"] show ?thesis
    by (auto simp: handle_effect_def)
next
  case (CancelTimeout t)
  with assms ts_cancel [of "\<lparr>tw_sched = cs_timers st, tw_mailbox = mb\<rparr>" t] show ?thesis
    by (auto simp: handle_effect_def)
next
  case (ScheduleTimeout t)
  with assms show ?thesis
    using ts_start [of t "duration_for (to_step t) (cs_timeouts st)"
        "\<lparr>tw_sched = cs_timers st, tw_mailbox = mb\<rparr>" "cs_timers st'"]
    by (auto simp: handle_effect_def split: result.splits)
next
  case (GetValue h ro t)
  with assms show ?thesis
    by (auto simp: handle_effect_def Let_def gossip_send_def cast_msg_def
        split: prod.splits option.splits result.splits if_splits)
next
  case (Decide h ro v commits)
  with assms show ?thesis
    by (auto simp: handle_effect_def cast_msg_def split: prod.splits result.splits)
qed (use assms in \<open>auto simp: handle_effect_def gossip_send_def split: signed_core_msg.splits if_splits\<close>)

interpretation timers: effect_invariant N K config "timers_reach mb" for N K config mb
proof unfold_locales
  fix st :: "('a, 'b) consensus_state" and eff st' r
  assume "timers_reach mb st" "handle_effect N config st eff = (st', r)"
  then show "timers_reach mb st'"
    using handle_effect_timers [of N config st eff st' r mb] timers_reach_step [of mb st _ st' mb]
    by (auto simp: timers_reach_def)
qed (simp add: timers_reach_def)

section \<open>Messages\<close>

lemma increase_timeout_no_Err: "increase_timeout st t \<noteq> Err e"
  by (cases st) (auto simp: increase_timeout_def Let_def duration_add_def)

lemma logged_no_Err: "logged x \<noteq> (st, Some (Err e))"
  by (auto simp: logged_def split: prod.splits option.splits result.splits)

lemma start_height_no_Err: "start_height N K config h st \<noteq> (st', Some (Err e))"
  by (auto simp: start_height_def split: prod.splits option.splits result.splits)

lemma start_then_no_Err: "start_then N K config h inp st \<noteq> (st', Some (Err e))"
  using start_height_no_Err [of N K config h st]
  by (auto simp: start_then_def logged_no_Err split: prod.splits option.splits result.splits)

text \<open>An error of the core never stops the actor.\<close>

lemma handle_msg_no_Err: "handle_msg N K config msg st \<noteq> (st', Some (Err e))"
proof (cases msg)
  case (RegisterValidator v)
  then show ?thesis
    by (auto simp: handle_msg_def Let_def split: prod.splits bool.splits result.splits)
next
  case (ReceivedFullProposal fp)
  then show ?thesis
    by (auto simp: handle_msg_def logged_no_Err split: prod.splits option.splits result.splits)
next
  case (TimeoutElapsed t)
  then show ?thesis
    by (auto simp: handle_msg_def Let_def logged_no_Err increase_timeout_no_Err split: prod.splits option.splits result.splits)
qed (simp_all add: handle_msg_def start_height_no_Err start_then_no_Err logged_no_Err)

text \<open>A timeout message whose timer is no longer the running one changes nothing.\<close>

lemma stale_timeout_ignored:
  assumes "timer_run timer_world_new ls \<lparr>tw_sched = cs_timers st, tw_mailbox = mb\<rparr>"
    "running (rev ls) (te_key t) \<noteq> Some (te_generation t)"
  shows "handle_msg N K config (TimeoutElapsed t) st = (st, Some (Ok ()))"
proof -
  have "intercept_timer_msg t (cs_timers st) = (cs_timers st, None)"
    using intercept_cases [of "running (rev ls)" "\<lparr>tw_sched = cs_timers st, tw_mailbox = mb\<rparr>" t]
      timer_run_inv [OF assms(1)] assms(2) by (simp add: run_inv_def)
  then show ?thesis by (simp add: handle_msg_def)
qed

lemma register_known_ignored:
  assumes "validator_set_exists (val_validator_set (cs_shard_validator st)) (sv_address v)"
  shows "handle_msg N K config (RegisterValidator v) st = (st, Some (Ok ()))"
  using assms by (simp add: handle_msg_def add_validator_def validator_set_add_def)

text \<open>The third validator schedules the start of consensus, no other does.\<close>

lemma register_third_starts:
  assumes "handle_msg N K config (RegisterValidator v) st = (st', Some (Ok ()))"
  shows "cs_delayed st' = cs_delayed st @
    (if validator_count (cs_shard_validator st) = 2 \<and> validator_count (cs_shard_validator st') = 3
     then [StartHeight (core_height K (cs_consensus st))] else [])"
proof -
  obtain sv b where sv: "add_validator v (cs_shard_validator st) = (sv, b)" by fastforce
  obtain sv' r where sv': "sync_with_new_validator N (cs_calls st) v sv = (sv', r)" by fastforce
  from validator_set_same(6) [of N "cs_calls st" v sv] sv' have same: "validator_count sv' = validator_count sv"
    by (simp add: validator_count_def)
  from sv have count: "validator_count sv = validator_count (cs_shard_validator st) + (if b then 1 else 0)"
    by (auto simp: add_validator_def validator_set_add_def validator_count_def validator_set_count_def
        split: if_splits)
  from assms sv sv' same count show ?thesis
    by (auto simp: handle_msg_def Let_def split: bool.splits result.splits if_splits)
qed

section \<open>Effects\<close>

lemma decide_effect_ok:
  assumes "handle_effect N config st (Decide h r v commits) = (st', Some (Ok x))"
  shows "\<exists>sv h'. validator_decide N h v (cs_shard_validator st) = (sv, Ok ()) \<and>
    height_increment h = (Ok h' :: (string, height) result) \<and>
    st' = cast_msg (StartHeight h') (st\<lparr>cs_shard_validator := sv\<rparr>)"
  using assms by (auto simp: handle_effect_def split: prod.splits result.splits)

text \<open>Asked for a value, the actor gossips the proposal and offers its hash to the core.\<close>

lemma get_value_offers:
  assumes "handle_effect N config st (GetValue h r t) = (st', Some (Ok x))" "snd_open (cs_mailbox st)"
  shows "\<exists>fp v. full_proposal_shard_hash fp = (Ok v :: (hub_error, shard_hash) result) \<and> fp_height fp = Some h \<and>
    snd_sent (cs_mailbox st') = snd_sent (cs_mailbox st) @ [ProposeValue h r v None] \<and>
    snd_sent (cs_gossip_tx st') = snd_sent (cs_gossip_tx st) @ [BroadcastFullProposal fp] \<and>
    val_proposed (cs_shard_validator st') v = Some fp"
proof -
  obtain sv res where sv: "validator_propose_value N (cs_calls st) h r (cs_shard_validator st) = (sv, res)" by fastforce
  with assms(1) obtain fp v where fp: "res = Some (Ok fp)"
      "full_proposal_shard_hash fp = (Ok v :: (hub_error, shard_hash) result)"
    by (auto simp: handle_effect_def Let_def bind_result_Ok_iff split: option.splits result.splits prod.splits)
  from validator_propose_known [OF sv [unfolded fp(1)]] fp(2)
  have "val_proposed sv v = Some fp" "fp_height fp = Some h" by auto
  with assms sv fp show ?thesis
    by (auto simp: handle_effect_def Let_def gossip_send_def cast_msg_def sender_send_def split: if_splits)
qed

text \<open>The core hears of a valid signature only when the key verified it; otherwise the actor panics.\<close>

lemma verify_vote_effect:
  "handle_effect N config st (VerifySignature (CoreVote v) sig pk) =
     (st, Some (if ne_verify N pk (vote_to_sign_bytes (ne_rounds N) (ne_vote_bytes N) v) sig
                then Ok (SignatureValidity True) else Panic invalid_signature))"
  by (simp add: handle_effect_def verify_signed_vote_def)

lemma schedule_effect:
  assumes "handle_effect N config st (ScheduleTimeout t) = (st', Some (Ok x))"
  shows "is_timer_active (cs_timers st') t \<and>
    ts_delays (cs_timers st') = ts_delays (cs_timers st) @
      [(timer_msg t (ts_generations (cs_timers st)), duration_for (to_step t) (cs_timeouts st))]"
proof -
  from assms have "(start_timer t (duration_for (to_step t) (cs_timeouts st)) (cs_timers st) ::
      (string, _) result) = Ok (cs_timers st')"
    by (auto simp: handle_effect_def split: result.splits)
  from start_timer_cases(2) [OF this] have eq: "is_timer_active (cs_timers st') t"
    "ts_delays (cs_timers st') = ts_delays (cancel t (cs_timers st)) @
      [(timer_msg t (ts_generations (cs_timers st)), duration_for (to_step t) (cs_timeouts st))]"
    by (simp_all add: is_timer_active_def hm_get_insert)
  have "ts_delays (cancel t (cs_timers st)) = ts_delays (cs_timers st)"
    by (simp add: cancel_def abort_task_def split: option.split)
  with eq show ?thesis by simp
qed

end
