(* ===== verification/Snapchain_Node.thy ===== *)
theory Snapchain_Node
  imports Consensus_Facts
begin

text \<open>
  The node around the actors: \<open>network/gossip.rs\<close> (what a gossip message becomes and what an event
  is published as), \<open>node/snapchain_node.rs\<close> (one actor per shard plus the block actor, and the
  dispatch to them), \<open>network/server.rs\<close> and the task of \<open>main.rs\<close> that stores blocks.  The peer-to-peer
  swarm, its codec and the check of a public key are parameters.
\<close>

section \<open>Gossip\<close>

record gossip_env =
  ge_encode :: "gossip_message \<Rightarrow> bytes"
  ge_decode :: "bytes \<Rightarrow> (string, gossip_message) result"
  ge_public_key_ok :: "bytes \<Rightarrow> bool"

definition gossip_bootstrap_addrs :: "string \<Rightarrow> string list" where
  "gossip_bootstrap_addrs peers = split_on (CHR '','') peers"

text \<open>The events of the actors, as the messages built for them and the bytes given to \<open>publish\<close>.\<close>

definition gossip_message_of :: "'r round_ops \<Rightarrow> 'r gossip_event \<Rightarrow> gossip_message" where
  "gossip_message_of R ev =
     (case ev of
        BroadcastSignedVote vote \<Rightarrow>
          \<lparr>gm_message = Some (GmConsensus \<lparr>cm_message = Some (CmVote (vote_to_proto R (fst vote))),
                                            cm_signature = snd vote\<rparr>)\<rparr>
      | BroadcastSignedProposal p \<Rightarrow>
          \<lparr>gm_message = Some (GmConsensus \<lparr>cm_message = Some (CmProposal (proposal_to_proto R (fst p))),
                                            cm_signature = snd p\<rparr>)\<rparr>
      | BroadcastFullProposal fp \<Rightarrow> \<lparr>gm_message = Some (GmFullProposal fp)\<rparr>
      | GossipRegisterValidator rv \<Rightarrow> \<lparr>gm_message = Some (GmValidator rv)\<rparr>)"

definition gossip_out :: "'r round_ops \<Rightarrow> gossip_env \<Rightarrow> 'r gossip_event \<Rightarrow> bytes" where
  "gossip_out R G ev = ge_encode G (gossip_message_of R ev)"

text \<open>A message from a peer, as what is sent to the system channel, if anything.\<close>

definition gossip_in :: "'r round_ops \<Rightarrow> gossip_env \<Rightarrow> bytes \<Rightarrow> ('e, 'r consensus_msg option) result" where
  "gossip_in R G data =
     (case ge_decode G data of
        Err _ \<Rightarrow> Ok None
      | Panic m \<Rightarrow> Panic m
      | Ok gm \<Rightarrow>
          (case gm_message gm of
             None \<Rightarrow> Ok None
           | Some (GmFullProposal fp) \<Rightarrow>
               bind_result (full_proposal_height fp) (\<lambda>_. Ok (Some (ReceivedFullProposal fp)))
           | Some (GmValidator rv) \<Rightarrow>
               (case rv_validator rv of
                  None \<Rightarrow> Ok None
                | Some v \<Rightarrow>
                    if \<not> ge_public_key_ok G (pv_signer v) then Ok None
                    else Ok (Some (RegisterValidator
                           (snapchain_validator_new (pv_shard_index v) (pv_signer v) (Some (pv_rpc_address v))
                              (pv_current_height v)))))
           | Some (GmConsensus cm) \<Rightarrow>
               (case cm_message cm of
                  None \<Rightarrow> Ok None
                | Some (CmVote vote) \<Rightarrow>
                    bind_result (vote_from_proto R vote)
                      (\<lambda>v. Ok (Some (ReceivedSignedVote (v, cm_signature cm))))
                | Some (CmProposal p) \<Rightarrow>
                    bind_result (proposal_from_proto R p)
                      (\<lambda>q. Ok (Some (ReceivedSignedProposal (q, cm_signature cm)))))))"

section \<open>The node\<close>

definition MAX_SHARDS :: u32 where
  "MAX_SHARDS = 3"

text \<open>\<open>sn_stop_signals\<close> lists the actors whose signal port holds a stop signal.\<close>

record ('r, 'c) snapchain_node =
  sn_consensus_actors :: "(u32 \<times> ('r, 'c) consensus_state) list"
  sn_messages_tx_by_shard :: "u32 list"
  sn_address :: address
  sn_stop_signals :: "u32 list"

text \<open>
  What \<open>create\<close> gets from outside: the database files, the default timeouts, and the core's
  constructor.
\<close>

record ('r, 'c) spawn_env =
  sp_node :: "'r node_env"
  sp_open :: "string \<Rightarrow> (string, transaction_db) result"
  sp_timeouts :: timeout_config
  sp_core_new :: "height \<Rightarrow> validator_set \<Rightarrow> address \<Rightarrow> 'c"

definition stored_height :: "chain_codec \<Rightarrow> rocksdb \<Rightarrow> u32 \<Rightarrow> ('e, u64) result" where
  "stored_height C db shard =
     (case block_max_block_number C db shard of Ok n \<Rightarrow> Ok n | Err _ \<Rightarrow> Ok 0 | Panic m \<Rightarrow> Panic m)"

definition consensus_spawn ::
  "('r, 'c) spawn_env \<Rightarrow> bytes \<Rightarrow> string option \<Rightarrow> u64 \<Rightarrow> 'r gossip_event sender \<Rightarrow> u32 \<Rightarrow> 'r shard_validator \<Rightarrow>
     (string, ('r, 'c) consensus_state) result" where
  "consensus_spawn S public_key rpc current gossip shard sv =
     (let validators = validator_set_new [snapchain_validator_new shard public_key rpc current];
          core0 = sp_core_new S (height_new shard 1) validators (Address public_key)
      in case consensus_post_start (sp_node S) shard public_key
                (consensus_pre_start (sp_timeouts S) core0 gossip sv) of
           (st, Ok _) \<Rightarrow> Ok st
         | (st, Err e) \<Rightarrow> Err e
         | (st, Panic m) \<Rightarrow> Panic m)"

definition create_shard ::
  "('r, 'c) spawn_env \<Rightarrow> bytes \<Rightarrow> string option \<Rightarrow> 'r gossip_event sender \<Rightarrow> rocksdb \<Rightarrow> string \<Rightarrow> u32 \<Rightarrow>
     (string, ('r, 'c) consensus_state) result" where
  "create_shard S public_key rpc gossip block_store dir shard =
     (if shard = 0 then Panic ''Shard ID 0 is reserved for the block shard, created automaticaly''
      else if shard > MAX_SHARDS then Panic ''Shard ID must be between 1 and 3''
      else
        bind_result (stored_height (ne_chain (sp_node S)) block_store shard) (\<lambda>current.
          (case rocksdb_open (sp_open S) (rocksdb_new (dir @ ''/shard'' @ u32_to_string shard)) of
             (db, r) \<Rightarrow>
               bind_result (unwrap r) (\<lambda>_.
                 bind_result (unwrap (shard_engine_new (ne_trie (sp_node S)) (sp_open S) shard db)) (\<lambda>engine.
                   (let sp = shard_proposer_new (Address public_key) shard engine
                               (Some \<lparr>snd_open = True, snd_sent = []\<rparr>);
                        sv = shard_validator_new (ne_rounds (sp_node S)) (Address public_key) shard None (Some sp)
                    in unwrap (consensus_spawn S public_key rpc current gossip shard sv)))))))"

fun create_shards ::
  "(u32 \<Rightarrow> (string, 'a) result) \<Rightarrow> u32 list \<Rightarrow> (u32 \<times> 'a) list \<Rightarrow> (string, (u32 \<times> 'a) list) result" where
  "create_shards mk [] actors = Ok actors"
| "create_shards mk (i # is) actors =
     bind_result (mk i) (\<lambda>a. create_shards mk is (hm_insert i a actors))"

definition snapchain_node_create ::
  "('r, 'c) spawn_env \<Rightarrow> bytes \<Rightarrow> config \<Rightarrow> string option \<Rightarrow> 'r gossip_event sender \<Rightarrow> block sender \<Rightarrow> rocksdb \<Rightarrow>
     string \<Rightarrow> (string, ('r, 'c) snapchain_node) result" where
  "snapchain_node_create S public_key config rpc gossip block_tx block_store dir =
     bind_result (config_shard_ids config) (\<lambda>ids.
       bind_result (create_shards (create_shard S public_key rpc gossip block_store dir) ids []) (\<lambda>actors.
         bind_result (stored_height (ne_chain (sp_node S)) block_store 0) (\<lambda>current.
           bind_result (config_num_shards config) (\<lambda>n.
             (let bp = block_proposer_new (Address public_key) 0 [] n block_tx \<lparr>be_db = block_store\<rparr>;
                  sv = shard_validator_new (ne_rounds (sp_node S)) (Address public_key) 0 (Some bp) None
              in bind_result (unwrap (consensus_spawn S public_key rpc current gossip 0 sv)) (\<lambda>actor.
                   Ok \<lparr>sn_consensus_actors = hm_insert 0 actor actors,
                       sn_messages_tx_by_shard = remdups ids, sn_address = Address public_key,
                       sn_stop_signals = []\<rparr>))))))"

definition node_start_height :: "u64 \<Rightarrow> ('r, 'c) snapchain_node \<Rightarrow> ('r, 'c) snapchain_node" where
  "node_start_height n self =
     self\<lparr>sn_consensus_actors :=
       map (\<lambda>(shard, actor). (shard, cast_msg (StartHeight (height_new shard n)) actor)) (sn_consensus_actors self)\<rparr>"

definition node_dispatch ::
  "'r consensus_msg \<Rightarrow> ('r, 'c) snapchain_node \<Rightarrow> (string, ('r, 'c) snapchain_node) result" where
  "node_dispatch msg self =
     bind_result (msg_shard_id msg) (\<lambda>shard.
       (case hm_get (sn_consensus_actors self) shard of
          None \<Rightarrow> Ok self
        | Some actor \<Rightarrow>
            Ok (self\<lparr>sn_consensus_actors := hm_insert shard (cast_msg msg actor) (sn_consensus_actors self)\<rparr>)))"

text \<open>
  \<open>actor.stop(None)\<close> only puts the signal into the port of the actor; the task of the actor handles it
  later, by \<^const>\<open>consensus_post_stop\<close>.
\<close>

definition node_stop :: "('r, 'c) snapchain_node \<Rightarrow> ('r, 'c) snapchain_node" where
  "node_stop self =
     self\<lparr>sn_stop_signals := sn_stop_signals self @ map fst (sn_consensus_actors self)\<rparr>"

section \<open>The server and the block writer\<close>

definition server_get_blocks ::
  "nat \<Rightarrow> chain_codec \<Rightarrow> rocksdb \<Rightarrow> blocks_request \<Rightarrow> (block_storage_error, block list) result option" where
  "server_get_blocks fuel C db req =
     get_blocks fuel C db (br_start_block_number req) (br_stop_block_number req) (br_shard_id req)"

definition server_submit_message :: "message \<Rightarrow> message sender \<Rightarrow> message sender \<times> ('e, message) result" where
  "server_submit_message msg tx =
     (if snd_open tx then (sender_send msg tx, Ok msg) else (tx, Panic unwrap_err))"

text \<open>The task that stores the blocks the block proposer publishes.\<close>

fun write_blocks :: "chain_codec \<Rightarrow> rocksdb \<Rightarrow> block list \<Rightarrow> ('e, rocksdb) result" where
  "write_blocks C db [] = Ok db"
| "write_blocks C db (b # bs) =
     (case put_block C db b of (db', Panic m) \<Rightarrow> Panic m | (db', _) \<Rightarrow> write_blocks C db' bs)"

section \<open>Gossip reaches the right actor\<close>

text \<open>What a peer makes of an event, and when the event can be sent at all.\<close>

fun gossip_received :: "'r gossip_event \<Rightarrow> 'r consensus_msg option" where
  "gossip_received (BroadcastSignedVote (v, sig)) = Some (ReceivedSignedVote (v\<lparr>vo_extension := None\<rparr>, sig))"
| "gossip_received (BroadcastSignedProposal (p, sig)) = Some (ReceivedSignedProposal (p, sig))"
| "gossip_received (BroadcastFullProposal fp) = Some (ReceivedFullProposal fp)"
| "gossip_received (GossipRegisterValidator rv) =
     map_option (\<lambda>v. RegisterValidator (snapchain_validator_new (pv_shard_index v) (pv_signer v)
       (Some (pv_rpc_address v)) (pv_current_height v))) (rv_validator rv)"

fun gossip_event_wf :: "gossip_env \<Rightarrow> 'r gossip_event \<Rightarrow> bool" where
  "gossip_event_wf G (BroadcastSignedVote (v, sig)) \<longleftrightarrow> address_wf (vo_voter v)"
| "gossip_event_wf G (BroadcastSignedProposal (p, sig)) \<longleftrightarrow> address_wf (pr_proposer p)"
| "gossip_event_wf G (BroadcastFullProposal fp) \<longleftrightarrow> fp_height fp \<noteq> None"
| "gossip_event_wf G (GossipRegisterValidator rv) \<longleftrightarrow> (\<forall>v \<in> set_option (rv_validator rv). ge_public_key_ok G (pv_signer v))"

lemma gossip_in_out:
  assumes "ge_decode G (ge_encode G (gossip_message_of R ev)) = Ok (gossip_message_of R ev)" "round_ok R"
    "gossip_event_wf G ev"
  shows "gossip_in R G (gossip_out R G ev) = Ok (gossip_received ev)"
  using assms
  by (cases "(G, ev)" rule: gossip_event_wf.cases)
    (auto simp: gossip_in_def gossip_out_def gossip_message_of_def full_proposal_height_def vote_proto_roundtrip
      proposal_proto_roundtrip split: option.splits)

text \<open>A peer's vote with an unknown type, no height or a short voter stops the gossip task.\<close>

lemma gossip_bad_vote:
  assumes "ge_decode G data = Ok \<lparr>gm_message = Some (GmConsensus \<lparr>cm_message = Some (CmVote p), cm_signature = sig\<rparr>)\<rparr>"
    "\<not> ((pvo_type p = 0 \<or> pvo_type p = 1) \<and> pvo_height p \<noteq> None \<and> length (pvo_voter p) = 32)"
  shows "\<exists>m. gossip_in R G data = (Panic m :: (string, _) result)"
proof -
  have "vote_from_proto R p \<noteq> (Err e :: (string, _) result)" for e
    by (auto simp: vote_from_proto_def address_from_vec_def bind_result_def split: option.splits)
  moreover have "vote_from_proto R p \<noteq> (Ok v :: (string, _) result)" for v
    using assms(2) vote_from_proto_Ok [of R p, where ?'b = string] by blast
  ultimately obtain m where "vote_from_proto R p = (Panic m :: (string, _) result)"
    by (cases "vote_from_proto R p :: (string, _) result") auto
  with assms(1) show ?thesis
    by (auto simp: gossip_in_def)
qed

section \<open>Dispatch\<close>

lemma node_dispatch_ok:
  assumes "msg_shard_id msg = (Ok shard :: (string, u32) result)"
  shows "\<exists>node'. node_dispatch msg node = Ok node' \<and>
    (\<forall>i. hm_get (sn_consensus_actors node') i =
       (if i = shard then map_option (cast_msg msg) (hm_get (sn_consensus_actors node) i)
        else hm_get (sn_consensus_actors node) i))"
  using assms by (auto simp: node_dispatch_def hm_get_insert split: option.split)

lemma node_start_height_ok:
  "hm_get (sn_consensus_actors (node_start_height n node)) i =
     map_option (cast_msg (StartHeight (height_new i n))) (hm_get (sn_consensus_actors node) i)"
proof -
  have "hm_get (map (\<lambda>(shard, actor). (shard, cast_msg (StartHeight (height_new shard n)) actor)) xs) i =
      map_option (cast_msg (StartHeight (height_new i n))) (hm_get xs i)" for xs :: "(u32 \<times> ('a, 'b) consensus_state) list"
    by (induction xs) auto
  then show ?thesis by (simp add: node_start_height_def)
qed

section \<open>Creation\<close>

lemma create_shards_ok:
  "create_shards mk is actors = Ok actors' \<Longrightarrow>
     fst ` set actors' = fst ` set actors \<union> set is \<and> (\<forall>i \<in> set is. \<exists>a. mk i = Ok a) \<and>
     (\<forall>i a. hm_get actors' i = Some a \<longrightarrow> (i \<in> set is \<and> mk i = Ok a) \<or> (i \<notin> set is \<and> hm_get actors i = Some a))"
proof (induction mk "is" actors rule: create_shards.induct)
  case (2 mk i "is" actors)
  then obtain a where a: "mk i = Ok a" "create_shards mk is (hm_insert i a actors) = Ok actors'"
    by (auto simp: bind_result_Ok_iff)
  from "2.IH" [OF a(2)] a(1) show ?case
    by (auto simp: hm_get_insert dom_update split: if_splits)
qed simp

lemma create_shard_id: "create_shard S pk rpc g db dir i = Ok a \<Longrightarrow> i \<noteq> 0 \<and> i \<le> MAX_SHARDS"
  by (auto simp: create_shard_def split: if_splits)

text \<open>A spawned actor has only its own validator, is not started, and has no timers.\<close>

lemma consensus_spawn_ok:
  assumes "consensus_spawn S pk rpc current g shard sv = Ok st" "val_validator_set sv = []" "\<not> val_started sv"
  shows "(\<exists>n. val_validator_set (cs_shard_validator st) = [snapchain_validator_new shard pk None n]) \<and>
    \<not> val_started (cs_shard_validator st) \<and> ts_timers (cs_timers st) = []"
  using assms
  by (auto simp: consensus_spawn_def consensus_post_start_def consensus_pre_start_def Let_def add_validator_def
      validator_set_add_def validator_set_exists_def cancel_all_def split: result.splits)

definition fresh_actor :: "bytes \<Rightarrow> u32 \<Rightarrow> ('r, 'c) consensus_state \<Rightarrow> bool" where
  "fresh_actor pk shard st \<longleftrightarrow>
     (\<exists>n. val_validator_set (cs_shard_validator st) = [snapchain_validator_new shard pk None n]) \<and>
     \<not> val_started (cs_shard_validator st) \<and> ts_timers (cs_timers st) = []"

lemma unwrap_Ok_iff [simp]: "unwrap r = Ok a \<longleftrightarrow> r = Ok a"
  by (cases r) simp_all

lemma new_validator_empty [simp]:
  "val_validator_set (shard_validator_new R a shard bp sp) = []" "\<not> val_started (shard_validator_new R a shard bp sp)"
  by (simp_all add: shard_validator_new_def validator_set_new_def)

lemma create_shard_fresh:
  assumes "create_shard S pk rpc g db dir i = Ok a"
  shows "fresh_actor pk i a"
proof -
  obtain db' r where "rocksdb_open (sp_open S) (rocksdb_new (dir @ ''/shard'' @ u32_to_string i)) = (db', r)"
    by fastforce
  with assms obtain current sp where "consensus_spawn S pk rpc current g i
      (shard_validator_new (ne_rounds (sp_node S)) (Address pk) i None (Some sp)) = Ok a"
    by (auto simp: create_shard_def Let_def bind_result_Ok_iff split: if_splits prod.splits)
  from consensus_spawn_ok [OF this] show ?thesis by (simp add: fresh_actor_def)
qed

lemma node_create_ok:
  assumes "snapchain_node_create S pk config rpc g tx db dir = Ok node"
  shows "\<exists>ids. config_shard_ids config = (Ok ids :: (string, u32 list) result) \<and>
    (\<forall>i \<in> set ids. i \<noteq> 0 \<and> i \<le> MAX_SHARDS) \<and>
    fst ` set (sn_consensus_actors node) = insert 0 (set ids) \<and>
    (\<forall>i a. hm_get (sn_consensus_actors node) i = Some a \<longrightarrow> fresh_actor pk i a)"
proof -
  from assms obtain ids actors actor current bp where
    c: "config_shard_ids config = (Ok ids :: (string, u32 list) result)"
      "create_shards (create_shard S pk rpc g db dir) ids [] = Ok actors"
      "consensus_spawn S pk rpc current g 0
         (shard_validator_new (ne_rounds (sp_node S)) (Address pk) 0 (Some bp) None) = Ok actor"
      "sn_consensus_actors node = hm_insert 0 actor actors"
    by (auto simp: snapchain_node_create_def Let_def bind_result_Ok_iff)
  have "fresh_actor pk 0 actor" using consensus_spawn_ok [OF c(3)] by (simp add: fresh_actor_def)
  moreover have "fresh_actor pk i a" if "hm_get actors i = Some a" for i a
    using create_shards_ok [OF c(2)] that create_shard_fresh [of S pk rpc g db dir i a] by simp
  ultimately show ?thesis
    using c(1,4) create_shards_ok [OF c(2)]
    by (auto simp: hm_get_insert dom_update dest: create_shard_id split: if_splits)
qed

lemma node_create_senders:
  "snapchain_node_create S pk config rpc g tx db dir = Ok node \<Longrightarrow>
     config_shard_ids config = (Ok ids :: (string, u32 list) result) \<Longrightarrow> set (sn_messages_tx_by_shard node) = set ids"
  by (auto simp: snapchain_node_create_def Let_def bind_result_Ok_iff)

end
