(* ===== verification/Sample_Env.thy ===== *)
theory Sample_Env
  imports Snapchain_Node
begin

text \<open>
  A concrete environment in which the hypotheses of the development hold: an injective codec of
  trie nodes, a checksum in the place of BLAKE3, an empty healthy database, the rounds of
  \<open>malachite\<close> as \<open>i64\<close> values, and a few sample messages.  The examples that accompany the
  properties run on it.
\<close>

section \<open>A codec of trie nodes\<close>

definition frame :: "bytes \<Rightarrow> bytes" where
  "frame bs = replicate (length bs) 1 @ [0] @ bs"

definition unframe :: "bytes \<Rightarrow> bytes \<times> bytes" where
  "unframe xs = (let n = length (takeWhile (\<lambda>b. b = 1) xs); rest = drop (Suc n) xs in (take n rest, drop n rest))"

lemma takeWhile_replicate_0:
  "takeWhile (\<lambda>b. b = 1) (replicate n 1 @ (0 :: u8) # xs) = replicate n 1"
  by (induction n) auto

lemma unframe_frame [simp]: "unframe (frame bs @ ys) = (bs, ys)"
  by (simp add: unframe_def frame_def takeWhile_replicate_0)

fun u32_words :: "bytes \<Rightarrow> u32 list" where
  "u32_words (a # b # c # d # xs) = u32_from_be_bytes [a, b, c, d] # u32_words xs"
| "u32_words _ = []"

lemma u32_words_concat [simp]: "u32_words (concat (map u32_to_be_bytes ws)) = ws"
proof (induction ws)
  case (Cons w ws)
  have "length (u32_to_be_bytes w) = Suc (Suc (Suc (Suc 0)))" by simp
  then obtain a b c d where w: "u32_to_be_bytes w = [a, b, c, d]"
    by (auto simp only: length_Suc_conv length_0_conv)
  with u32_be_roundtrip [of w] Cons show ?case by simp
qed simp

definition sample_encode :: "db_trie_node \<Rightarrow> bytes" where
  "sample_encode d = frame (dtn_key d) @ frame (concat (map u32_to_be_bytes (dtn_child_chars d))) @
     frame (u32_to_be_bytes (dtn_items d)) @ dtn_hash d"

definition sample_decode :: "bytes \<Rightarrow> (string, db_trie_node) result" where
  "sample_decode xs =
     (let (key, xs1) = unframe xs; (chars, xs2) = unframe xs1; (items, hash) = unframe xs2
      in Ok \<lparr>dtn_key = key, dtn_child_chars = u32_words chars, dtn_items = u32_from_be_bytes items,
             dtn_hash = hash\<rparr>)"

lemma sample_codec: "sample_decode (sample_encode d) = Ok d"
  by (cases d) (simp add: sample_decode_def sample_encode_def)

definition checksum :: "bytes \<Rightarrow> bytes" where
  "checksum bs = replicate 31 0 @ [fold (\<lambda>b h. 31 * h + b) bs 7]"

definition sample_env :: trie_env where
  "sample_env = \<lparr>env_blake3 = checksum, env_encode = sample_encode, env_decode = sample_decode,
     env_hex = map (\<lambda>b. char_of (unat b)), env_order = (\<lambda>xs. xs)\<rparr>"

lemma sample_env_ok [simp]: "env_ok sample_env"
  by (simp add: env_ok_def sample_env_def sample_codec)

section \<open>A database and an engine\<close>

definition sample_tdb :: transaction_db where
  "sample_tdb = \<lparr>tdb_entries = [], tdb_read_error = (\<lambda>_. None), tdb_write_error = (\<lambda>_. None),
     tdb_commit_error = None\<rparr>"

definition sample_db :: rocksdb where
  "sample_db = \<lparr>rdb_db = Some sample_tdb, rdb_path = ''sample''\<rparr>"

definition sample_open :: "string \<Rightarrow> (string, transaction_db) result" where
  "sample_open _ = Ok sample_tdb"

lemma sample_db_healthy [simp]: "db_healthy sample_db"
  by (simp add: db_healthy_def sample_db_def sample_tdb_def kv_wf_def)

lemma sample_db_view [simp]: "db_view sample_db = Map.empty"
  by (simp add: db_view_def db_entries_def sample_db_def sample_tdb_def fun_eq_iff)

definition sample_hash :: bytes where
  "sample_hash = replicate 20 1"

definition sample_message :: message where
  "sample_message = \<lparr>msg_data = None, msg_hash = sample_hash, msg_hash_scheme = 1, msg_signature = [],
     msg_signature_scheme = 1, msg_signer = [], msg_data_bytes = None\<rparr>"

lemma sample_hash_ok: "valid_hash sample_hash"
  by (simp add: valid_hash_def sample_hash_def initial_key_def BLAKE3_HASH_LEN_def numeral_eq_Suc)

lemma sample_committed_ok: "committed_ok {initial_key, sample_hash}"
  using sample_hash_ok by (simp add: committed_ok_def card_insert_if)

lemma sample_allowed: "trie_allowed ({initial_key} \<union> set [sample_hash])"
  using committed_ok_allowed [OF sample_committed_ok] by (simp add: insert_commute)

lemma sample_fresh [simp]:
  "sample_hash \<noteq> initial_key" "initial_key \<noteq> sample_hash" "initial_key \<noteq> []" "sample_hash \<noteq> []"
  by (auto simp: sample_hash_def initial_key_def dest: arg_cong [where f = length])

lemma sample_new_ok:
  "\<exists>e. shard_engine_new sample_env sample_open 1 sample_db = Ok e \<and> engine_inv sample_env e {initial_key} \<and>
     se_messages e = []"
  using engine_new_ok [of sample_db sample_env "{}" sample_open 1] initial_key_allowed by auto

definition sample_engine :: shard_engine where
  "sample_engine = (case shard_engine_new sample_env sample_open 1 sample_db of Ok e \<Rightarrow> e)"

lemma sample_engine_ok:
  "shard_engine_new sample_env sample_open 1 sample_db = Ok sample_engine"
  "engine_inv sample_env sample_engine {initial_key}" "se_messages sample_engine = []"
  using sample_new_ok by (auto simp: sample_engine_def)

lemma sample_engine_submit: "\<exists>e. shard_engine_submit m sample_engine = Some e"
  by (simp add: shard_engine_submit_def sample_engine_ok(3) MESSAGE_CHANNEL_SIZE_def)

lemma sample_trie_ok:
  "trie_holds sample_env (se_db sample_engine) (se_trie sample_engine) {initial_key}"
  "trie_saved sample_env (se_db sample_engine) {initial_key}"
  using sample_engine_ok(2) by (simp_all add: engine_inv_def)

section \<open>Rounds, codecs and identities\<close>

definition sample_rounds :: "i64 round_ops" where
  "sample_rounds = \<lparr>rnd_new = (\<lambda>i. i), rnd_as_i64 = (\<lambda>r. r), rnd_nil = - 1\<rparr>"

lemma sample_rounds_ok [simp]: "round_ok sample_rounds"
  by (simp add: round_ok_def sample_rounds_def)

lemma sample_rounds_nonneg [simp]: "round_nonneg sample_rounds"
  by (auto simp: round_nonneg_def sample_rounds_def)

definition sample_headers :: header_codec where
  "sample_headers = \<lparr>hc_shard_header = sh_shard_root, hc_block_header = bh_parent_hash\<rparr>"

text \<open>Encoders of chunks and blocks that keep the hash; the decoders are not used by the examples.\<close>

definition sample_chain :: chain_codec where
  "sample_chain = \<lparr>cc_block_encode = b_hash, cc_block_decode = (\<lambda>_. Err ''block''),
     cc_chunk_encode = sc_hash, cc_chunk_decode = (\<lambda>_. Err ''chunk'')\<rparr>"

definition sample_address :: address where
  "sample_address = Address (replicate 32 7)"

lemma sample_address_wf [simp]: "address_wf sample_address"
  by (simp add: address_wf_def sample_address_def)

definition sample_proposer :: shard_proposer where
  "sample_proposer = shard_proposer_new sample_address 1 sample_engine None"

definition sample_height :: height where
  "sample_height = height_new 1 1"

definition sample_header :: "bytes \<Rightarrow> shard_header" where
  "sample_header root = \<lparr>sh_height = Some sample_height, sh_timestamp = 0, sh_parent_hash = [0, 32],
     sh_shard_root = root\<rparr>"

definition sample_tx :: transaction where
  "sample_tx = \<lparr>tx_fid = 1234, tx_user_messages = [sample_message], tx_system_messages = [], tx_account_root = []\<rparr>"

definition sample_chunk :: "bytes \<Rightarrow> shard_chunk" where
  "sample_chunk root = \<lparr>sc_header = Some (sample_header root), sc_hash = [1, 2, 3],
     sc_transactions = [sample_tx], sc_votes = None\<rparr>"

lemma sample_chunk_simps [simp]:
  "sc_header (sample_chunk root) = Some (sample_header root)" "sc_transactions (sample_chunk root) = [sample_tx]"
  "sh_shard_root (sample_header root) = root" "tx_user_messages sample_tx = [sample_message]"
  "msg_hash sample_message = sample_hash" "chunk_number_of (sample_chunk root) = Some 1"
  by (simp_all add: sample_chunk_def sample_header_def sample_tx_def sample_message_def chunk_number_of_def
      sample_height_def height_new_def)

section \<open>Blocks, validators and an actor\<close>

definition sample_block :: block where
  "sample_block = \<lparr>b_header = Some \<lparr>bh_height = Some sample_height, bh_timestamp = 0, bh_version = 1, bh_chain_id = 1,
     bh_validators_hash = [], bh_shard_headers_hash = [], bh_parent_hash = []\<rparr>, b_hash = [4], b_shard_chunks = [],
     b_validators = None, b_votes = None\<rparr>"

definition sample_block_at :: "u32 \<Rightarrow> u64 \<Rightarrow> block" where
  "sample_block_at s n = sample_block\<lparr>b_header := Some \<lparr>bh_height = Some (height_new s n), bh_timestamp = 0,
     bh_version = 1, bh_chain_id = 1, bh_validators_hash = [], bh_shard_headers_hash = [], bh_parent_hash = []\<rparr>\<rparr>"

lemma sample_block_at_height [simp]: "block_height_of (sample_block_at s n) = Some (s, n)"
  by (simp add: sample_block_at_def block_height_of_def height_new_def)

definition sample_blocks :: chain_codec where
  "sample_blocks = sample_chain\<lparr>cc_block_decode := (\<lambda>_. Ok sample_block)\<rparr>"

definition sample_block_db :: rocksdb where
  "sample_block_db = sample_db\<lparr>rdb_db := Some (sample_tdb\<lparr>tdb_entries := [(make_block_key 1 1, [4])]\<rparr>)\<rparr>"

lemma sample_block_db_ok:
  "db_healthy sample_block_db" "blocks_indexed sample_blocks sample_block_db"
  "kv_range (make_block_key 1 0) (replicate 32 255) (db_entries sample_block_db) = [(make_block_key 1 1, [4])]"
  using block_index.key_le [of "(1, 0)" "(1, 1)"] block_index.key_top [of "(1, 1)"]
  by (simp_all add: db_healthy_def sample_block_db_def sample_db_def sample_tdb_def kv_wf_def blocks_indexed_def
      db_entries_def kv_range_def sample_blocks_def sample_block_def block_height_of_def sample_height_def height_new_def)

definition sample_validator :: "nat \<Rightarrow> snapchain_validator" where
  "sample_validator i = snapchain_validator_new 1 (replicate 32 (word_of_nat i)) None 0"

definition sample_vote :: "i64 vote" where
  "sample_vote = vote_new_prevote sample_height 0 (Val \<lparr>sh_shard_index = 1, sh_hash = [5]\<rparr>) sample_address"

definition sample_node :: "i64 node_env" where
  "sample_node = \<lparr>ne_trie = sample_env, ne_headers = sample_headers, ne_chain = sample_chain, ne_rounds = sample_rounds,
     ne_vote_bytes = pvo_voter, ne_proposal_bytes = pp_proposer, ne_verify = (\<lambda>pk msg sig. sig = msg),
     ne_now = (\<lambda>_. 1700000000), ne_schedule = (\<lambda>_. [Deadline]), ne_connect = (\<lambda>_ _. Ok ()),
     ne_rpc_blocks = (\<lambda>_ _ _. Ok [])\<rparr>"

definition sample_timeouts :: timeout_config where
  "sample_timeouts = \<lparr>timeout_propose = 3000, timeout_propose_delta = 500, timeout_prevote = 1000,
     timeout_prevote_delta = 500, timeout_precommit = 1000, timeout_precommit_delta = 500, timeout_commit = 1000\<rparr>"

text \<open>A core that asks for the decision of a value as soon as a height starts.\<close>

definition sample_core :: "(i64, height) core" where
  "sample_core = \<lparr>core_height = (\<lambda>h. h), core_process = (\<lambda>c inp. case inp of
       InStartHeight h vs \<Rightarrow> CoreYield (Decide h 0 \<lparr>sh_shard_index = 0, sh_hash = [5]\<rparr> []) (\<lambda>_. CoreDone h (Ok ()))
     | _ \<Rightarrow> CoreDone c (Ok ()))\<rparr>"

definition sample_block_proposer :: block_proposer where
  "sample_block_proposer = block_proposer_new sample_address 0 [] 1 \<lparr>snd_open = True, snd_sent = []\<rparr> \<lparr>be_db = sample_db\<rparr>"

definition sample_state :: "(i64, height) consensus_state" where
  "sample_state = consensus_pre_start sample_timeouts (height_new 0 1) \<lparr>snd_open = True, snd_sent = []\<rparr>
     (fst (add_validator (sample_validator 1)
       (shard_validator_new sample_rounds sample_address 0 (Some sample_block_proposer) None)))"

lemmas sample_state_simps = sample_state_def sample_block_proposer_def shard_validator_new_def
  consensus_pre_start_def block_proposer_new_def add_validator_def validator_set_add_def validator_set_new_def
  validator_set_exists_def

definition sample_decision :: full_proposal where
  "sample_decision = \<lparr>fp_height = Some sample_height, fp_round = 0, fp_proposer = [],
     fp_proposed_value = Some (Shard (sample_chunk []))\<rparr>"

lemma sample_block_proposal:
  "\<exists>p fp. block_propose_value sample_env sample_headers sample_rounds 1700000000 [Tick [], Tick [sample_decision]]
     (height_new 0 1) 0 sample_block_proposer = (p, Some (Ok fp))"
  by (simp add: block_propose_value_def collect_confirmed_shard_chunks_def current_time_def FARCASTER_EPOCH_def Let_def
      poll_decision_def receive_decision_def all_chunks_received_def sample_decision_def sample_header_def
      sample_height_def height_new_def sample_block_proposer_def block_proposer_new_def)

text \<open>The same actor after it has taken over the proposal of a block.\<close>

definition sample_value :: shard_hash where
  "sample_value = \<lparr>sh_shard_index = 0, sh_hash = [5]\<rparr>"

definition sample_proposal :: full_proposal where
  "sample_proposal = \<lparr>fp_height = Some (height_new 0 1), fp_round = 0, fp_proposer = [],
     fp_proposed_value = Some (Block (sample_block_at 0 1))\<rparr>"

definition sample_known_proposer :: block_proposer where
  "sample_known_proposer = sample_block_proposer\<lparr>bpr_proposed_blocks := [(sample_value, sample_proposal)]\<rparr>"

definition sample_known_state :: "(i64, height) consensus_state" where
  "sample_known_state = sample_state\<lparr>cs_shard_validator :=
     (cs_shard_validator sample_state)\<lparr>val_block_proposer := Some sample_known_proposer\<rparr>\<rparr>"

lemma sample_commit_block:
  "\<exists>e. commit_block sample_chain (sample_block_at 0 1) \<lparr>be_db = sample_db\<rparr> = (e, Ok ())"
  using put_block_ok [OF sample_db_healthy, of "sample_block_at 0 1" 0 1 sample_chain]
  by (auto simp: commit_block_def)

lemma sample_known_simps:
  "val_block_proposer (cs_shard_validator sample_known_state) = Some sample_known_proposer"
  "val_proposed (cs_shard_validator sample_known_state) sample_value = Some sample_proposal"
  "fp_proposed_value sample_proposal = Some (Block (sample_block_at 0 1))"
  "val_history (cs_shard_validator sample_known_state) = []"
  "val_announced (cs_shard_validator sample_known_state) = []"
  "val_listened (cs_shard_validator sample_known_state)"
  "cs_mailbox sample_known_state = \<lparr>snd_open = True, snd_sent = []\<rparr>"
  "cs_consensus sample_known_state = height_new 0 1"
  by (simp_all add: sample_known_state_def sample_known_proposer_def val_proposed_def sample_proposal_def
      val_history_def val_announced_def val_listened_def sample_block_proposer_def block_proposer_new_def
      sample_state_def consensus_pre_start_def)

lemma sample_decide_effect:
  "\<exists>st. handle_effect sample_node sample_timeouts sample_known_state (Decide (height_new 0 1) 0 sample_value []) =
     (st, Some (Ok Continue))"
proof -
  obtain e where e: "commit_block sample_chain (sample_block_at 0 1) \<lparr>be_db = sample_db\<rparr> = (e, Ok ())"
    using sample_commit_block by blast
  have "\<exists>p. block_decide sample_chain (height_new 0 1) sample_value sample_known_proposer = (p, Ok ())"
    using e by (simp add: block_decide_def sample_known_proposer_def sample_block_proposer_def block_proposer_new_def
        full_proposal_block_def sample_proposal_def Let_def)
  then show ?thesis
    by (auto simp: handle_effect_def validator_decide_def sample_known_simps(1) sample_node_def
        height_increment_def height_increment_by_def height_new_def)
qed

definition sample_timers :: "nat timer_world" where
  "sample_timers = timer_world_new\<lparr>tw_sched :=
     (case (start_timer 7 1000 timer_scheduler_new :: (string, nat timer_scheduler) result) of Ok s \<Rightarrow> s)\<rparr>"

lemma sample_timer_run: "timer_run timer_world_new [Started 7 1] sample_timers"
  using tr_snoc [OF tr_nil ts_start [of 7 1000 timer_world_new]]
  by (simp add: sample_timers_def timer_world_new_def start_timer_def next_generation_def cancel_def
      timer_scheduler_new_def Let_def send_after_def)

end
