(* ===== verification/Sample_Account.thy ===== *)
theory Sample_Account
  imports Account_Stores Sample_Env
begin

text \<open>
  A concrete environment for the account stores: two casts, the removal of the first, two proofs of
  one name, two verifications of one address by different fids, two links and a compact state, a codec
  for these messages, and an event clock.
\<close>

section \<open>Messages\<close>

definition sample_signed :: "message_data \<Rightarrow> u8 \<Rightarrow> message" where
  "sample_signed d h =
     \<lparr>msg_data = Some d, msg_hash = replicate 20 h, msg_hash_scheme = 1, msg_signature = [],
      msg_signature_scheme = Ed25519, msg_signer = [], msg_data_bytes = None\<rparr>"

definition sample_cast :: message where
  "sample_cast = sample_signed \<lparr>md_type = 1, md_fid = 7, md_timestamp = 100, md_network = 0,
     md_body = Some (CastAddBody (default_cast_add_body\<lparr>ca_text := ''gm'', ca_mentions := [9]\<rparr>))\<rparr> 1"

definition sample_cast2 :: message where
  "sample_cast2 = sample_signed \<lparr>md_type = 1, md_fid = 7, md_timestamp = 200, md_network = 0,
     md_body = Some (CastAddBody (default_cast_add_body\<lparr>ca_text := ''gn''\<rparr>))\<rparr> 2"

definition sample_uncast :: message where
  "sample_uncast = sample_signed \<lparr>md_type = 2, md_fid = 7, md_timestamp = 50, md_network = 0,
     md_body = Some (CastRemoveBody \<lparr>cr_target_hash = replicate 20 1\<rparr>)\<rparr> 3"

definition sample_ens :: "u64 \<Rightarrow> user_name_proof" where
  "sample_ens fid = \<lparr>unp_timestamp = 1, unp_name = as_bytes ''a.eth'', unp_owner = [], unp_signature = [],
     unp_fid = fid, unp_type = 2\<rparr>"

definition sample_proof :: message where
  "sample_proof = sample_signed \<lparr>md_type = 12, md_fid = 7, md_timestamp = 100, md_network = 0,
     md_body = Some (UsernameProofBody (sample_ens 7))\<rparr> 4"

definition sample_proof2 :: message where
  "sample_proof2 = sample_signed \<lparr>md_type = 12, md_fid = 8, md_timestamp = 200, md_network = 0,
     md_body = Some (UsernameProofBody (sample_ens 8))\<rparr> 5"

definition sample_verified :: "u64 \<Rightarrow> u32 \<Rightarrow> u8 \<Rightarrow> message" where
  "sample_verified fid timestamp h = sample_signed \<lparr>md_type = 7, md_fid = fid, md_timestamp = timestamp, md_network = 0,
     md_body = Some (VerificationAddAddressBody \<lparr>va_address = [1, 2], va_claim_signature = [], va_block_hash = [],
       va_verification_type = 0, va_chain_id = 0, va_protocol = 0\<rparr>)\<rparr> h"

definition sample_verify :: message where "sample_verify = sample_verified 7 100 6"
definition sample_verify2 :: message where "sample_verify2 = sample_verified 8 200 7"

definition sample_link :: "u64 \<Rightarrow> u32 \<Rightarrow> u8 \<Rightarrow> message" where
  "sample_link target timestamp h = sample_signed \<lparr>md_type = 5, md_fid = 7, md_timestamp = timestamp, md_network = 0,
     md_body = Some (LinkBody \<lparr>li_type = ''follow'', li_display_timestamp = None, li_target = Some (TargetFid target)\<rparr>)\<rparr> h"

definition sample_follow :: message where "sample_follow = sample_link 9 100 8"
definition sample_follow2 :: message where "sample_follow2 = sample_link 10 150 9"

definition sample_compact :: message where
  "sample_compact = sample_signed \<lparr>md_type = 14, md_fid = 7, md_timestamp = 200, md_network = 0,
     md_body = Some (LinkCompactStateBody \<lparr>lc_type = ''follow'', lc_target_fids = [10]\<rparr>)\<rparr> 10"

lemmas sample_messages = sample_signed_def sample_cast_def sample_cast2_def sample_uncast_def sample_proof_def
  sample_proof2_def sample_ens_def sample_verified_def sample_verify_def sample_verify2_def
  sample_link_def sample_follow_def sample_follow2_def sample_compact_def

section \<open>The environment\<close>

definition sample_pool :: "message list" where
  "sample_pool = (let ms = [sample_cast, sample_cast2, sample_uncast, sample_proof, sample_proof2, sample_verify, sample_verify2,
       sample_follow, sample_follow2, sample_compact]
     in ms @ map (\<lambda>m. m\<lparr>msg_data := None\<rparr>) ms)"

definition sample_encode_message :: "message \<Rightarrow> bytes" where
  "sample_encode_message m = [of_nat (length (takeWhile (\<lambda>x. x \<noteq> m) sample_pool))]"

definition sample_decode_message :: "bytes \<Rightarrow> message option" where
  "sample_decode_message b = (case b of [c] \<Rightarrow> if unat c < 20 then Some (sample_pool ! unat c) else None | _ \<Rightarrow> None)"

definition sample_account_env :: account_env where
  "sample_account_env =
     \<lparr>ae_encode = sample_encode_message, ae_decode = sample_decode_message, ae_decode_data = (\<lambda>_. None),
      ae_proof_encode = (\<lambda>p. [ucast (unp_fid p)]), ae_proof_decode = (\<lambda>b. Some (sample_ens (ucast (hd b)))),
      ae_event_encode = (\<lambda>_. []),
      ae_items = (\<lambda>_ _ _. map (\<lambda>m. (m_pkey (cast_store_def 1) m, sample_encode_message m)) [sample_cast, sample_cast2])\<rparr>"

definition sample_generator :: hub_event_id_generator where
  "sample_generator = event_handler_new None None None"

definition sample_now :: "nat \<Rightarrow> u64" where
  "sample_now i = FARCASTER_EPOCH_MS + 1 + of_nat i"

text \<open>Two events in one millisecond, and in two.\<close>

lemma sample_available [simp]:
  "ids_available sample_generator [sample_now 0, sample_now 0]"
  "ids_available sample_generator [sample_now 0, sample_now (Suc 0)]"
  by (simp_all add: ids_available_def next_seq_def sample_generator_def event_handler_new_def generator_new_def
      sample_now_def FARCASTER_EPOCH_MS_def event_bits)

lemma sample_generate:
  "generate_id (sample_now 0) None sample_generator = (tick sample_generator (sample_now 0), Ok 4096)"
  by (simp add: tick_def generate_id_def sample_now_def sample_generator_def event_handler_new_def generator_new_def
      FARCASTER_EPOCH_MS_def make_event_id_def event_bits Let_def word_le_nat_alt)

lemma sample_ids:
  "generated_ids [FARCASTER_EPOCH_MS + 1, FARCASTER_EPOCH_MS + 1, FARCASTER_EPOCH_MS + 2] sample_generator =
     [4096, 4097, 8192]"
  by code_simp

lemma sample_codecs:
  assumes "m \<in> {sample_cast, sample_cast2, sample_uncast, sample_proof, sample_proof2, sample_verify, sample_verify2,
    sample_follow, sample_follow2, sample_compact}"
  shows "message_codec_ok sample_account_env m"
  using assms
  by (elim insertE emptyE)
    (simp_all add: message_codec_ok_def sample_account_env_def sample_encode_message_def sample_decode_message_def
      sample_pool_def sample_messages Let_def)

section \<open>Casts\<close>

definition sample_casts :: "message set" where
  "sample_casts = {sample_cast, sample_cast2, sample_uncast}"

lemma sample_casts_mem [simp]: "sample_cast \<in> sample_casts" "sample_cast2 \<in> sample_casts" "sample_uncast \<in> sample_casts"
  by (simp_all add: sample_casts_def)

lemma sample_cast_type [simp]: "is_type CastAdd sample_cast" "md_fid (m_data sample_cast) = 7"
  by (simp_all add: is_type_def m_data_def sample_messages)

lemma sample_event_encode [simp]: "ae_event_encode sample_account_env e = []"
  by (simp add: sample_account_env_def)

lemma sample_cast_valid:
  assumes "m \<in> sample_casts"
  shows "store_valid sample_account_env (cast_store_def n) m"
proof -
  have "message_codec_ok sample_account_env m" using assms by (intro sample_codecs) (auto simp: sample_casts_def)
  moreover have "length (msg_hash m) = 20 \<and> msg_data m \<noteq> None \<and> (is_type CastAdd m \<or> is_type CastRemove m) \<and>
    (\<exists>k. cast_make_add_key m = Ok k) \<and> (\<exists>k. cast_make_remove_key m = Ok k) \<and>
    (\<exists>txn. cast_build_secondary_indices [] (m_tsh m) m = Ok txn)"
    using assms unfolding sample_casts_def
    by (elim insertE emptyE)
      (simp_all add: is_type_def sample_messages cast_make_add_key_def cast_make_remove_key_def cast_hash_def
        message_data_of_def cast_build_secondary_indices_def if_let_some_def by_parent_secondary_index_key_def
        by_mention_secondary_index_key_def body_of_def default_cast_add_body_def)
  ultimately show ?thesis
    by (simp add: store_valid_def cast_store_def_def default_remove_type_supported_def message_type_u8_def)
qed

lemma sample_cast_universe: "universe sample_account_env (cast_store_def n) sample_casts"
  using sample_cast_valid
  by (auto simp: universe_def inj_on_def sample_casts_def m_pkey_eq m_tsh_def m_fid_def m_data_def sample_messages)

definition sample_cast_store :: account_store where
  "sample_cast_store = cast_store_new sample_db sample_generator 1"

lemma sample_cast_rep:
  "store_rep sample_account_env (cast_store_def 1) (\<lambda>_. {}) sample_casts (ast_db sample_cast_store) Map.empty"
  "ast_def sample_cast_store = cast_store_def 1" "ast_gen sample_cast_store = sample_generator"
  using sample_cast_universe
  by (simp_all add: store_rep_def view_rep_def live_add_def live_remove_def sample_cast_store_def cast_store_new_def
      new_with_store_def_def)

text \<open>The store after both casts, ready for more events.\<close>

definition sample_full_store :: account_store where
  "sample_full_store =
     (merge_all sample_account_env [(sample_now 0, sample_cast), (sample_now 0, sample_cast2)] sample_cast_store)
       \<lparr>ast_gen := sample_generator\<rparr>"

definition sample_full_slots :: "bytes \<Rightarrow> message option" where
  "sample_full_slots = [m_akey (cast_store_def 1) sample_cast \<mapsto> sample_cast,
     m_akey (cast_store_def 1) sample_cast2 \<mapsto> sample_cast2]"

lemma sample_cast_keys:
  "m_akey (cast_store_def n) sample_cast = make_cast_adds_key 7 (replicate 20 1)"
  "m_akey (cast_store_def n) sample_cast2 = make_cast_adds_key 7 (replicate 20 2)"
  "m_akey (cast_store_def n) sample_uncast = make_cast_adds_key 7 (replicate 20 1)"
  "make_cast_adds_key 7 (replicate 20 1) \<noteq> make_cast_adds_key 7 (replicate 20 2)"
  "make_cast_adds_key 7 (replicate 20 2) \<noteq> make_cast_adds_key 7 (replicate 20 1)"
  by (simp_all add: m_akey_def cast_store_def_def cast_make_add_key_def cast_hash_def message_data_of_def sample_messages
      make_cast_adds_key_def HASH_LENGTH_def)

lemma sample_full_rep:
  "store_rep sample_account_env (cast_store_def 1) (\<lambda>_. {}) sample_casts (ast_db sample_full_store) sample_full_slots"
  "ast_def sample_full_store = cast_store_def 1" "ast_gen sample_full_store = sample_generator"
proof -
  have l: "fold (lww (cast_store_def 1) cast_rank) [sample_cast, sample_cast2] Map.empty = sample_full_slots"
    by (simp add: lww_def sample_cast_keys sample_full_slots_def fun_upd_twist)
  have u: "set (map snd [(sample_now 0, sample_cast), (sample_now 0, sample_cast2)]) \<subseteq> sample_casts"
    by (simp add: sample_casts_def)
  have t: "ids_available (ast_gen sample_cast_store) (map fst [(sample_now 0, sample_cast), (sample_now 0, sample_cast2)])"
    by (simp add: sample_cast_rep(3))
  from cast.merge_all_rep [OF sample_cast_rep(1,2) u t]
  show "store_rep sample_account_env (cast_store_def 1) (\<lambda>_. {}) sample_casts (ast_db sample_full_store) sample_full_slots"
    "ast_def sample_full_store = cast_store_def 1"
    unfolding sample_full_store_def using l by simp_all
  show "ast_gen sample_full_store = sample_generator" by (simp add: sample_full_store_def)
qed

lemma sample_items:
  "ae_items sample_account_env db k opts = pruned_items sample_account_env (cast_store_def 1) [sample_cast, sample_cast2]"
  by (simp add: sample_account_env_def pruned_items_def message_encode_def sample_messages)

lemma sample_fids: "m_fid sample_cast = 7" "m_fid sample_cast2 = 7" "m_fid sample_uncast = 7"
  by (simp_all add: m_fid_def m_data_def sample_messages)

lemma sample_live: "live_of 7 sample_full_slots = {sample_cast, sample_cast2}" "sample_cast \<noteq> sample_cast2"
  "m_tsh sample_cast < m_tsh sample_cast2"
proof -
  show "live_of 7 sample_full_slots = {sample_cast, sample_cast2}"
    using sample_cast_keys(4,5) sample_fids
    by (auto simp: live_of_def sample_full_slots_def sample_cast_keys(1,2) ran_map_upd)
  show "sample_cast \<noteq> sample_cast2" "m_tsh sample_cast < m_tsh sample_cast2"
    by (simp_all add: sample_messages m_tsh_def m_data_def list_less_same_length)
qed

lemma cast_in_stores [simp]: "(cast_store_def n, cast_rank, \<lambda>_. {}) \<in> account_stores n"
  by (simp add: account_stores_def)

section \<open>Names\<close>

definition sample_name_store :: account_store where
  "sample_name_store = username_proof_store_new sample_db sample_generator 0"

lemma sample_proof_facts:
  "m_name sample_proof = as_bytes ''a.eth''" "m_name sample_proof2 = as_bytes ''a.eth''"
  "m_fid sample_proof = 7" "m_fid sample_proof2 = 8" "m_tsh sample_proof < m_tsh sample_proof2"
  "sample_proof \<noteq> sample_proof2"
  by (simp_all add: m_name_def proof_of_def m_fid_def m_data_def m_tsh_def sample_messages list_less_same_length)

lemma sample_proofs_valid:
  assumes "m \<in> {sample_proof, sample_proof2}"
  shows "proof_valid sample_account_env m"
proof -
  have "message_codec_ok sample_account_env m" using assms by (intro sample_codecs) auto
  moreover have "length (msg_hash m) = 20 \<and> is_type UsernameProof m \<and> proof_of m \<noteq> None \<and> m_name m \<noteq> [] \<and>
    md_fid (m_data m) \<noteq> 0 \<and> m_fid m \<noteq> 0"
    using assms
    by (elim insertE emptyE)
      (simp_all add: is_type_def proof_of_def m_name_def m_data_def m_fid_def sample_messages as_bytes_def)
  ultimately show ?thesis by (simp add: proof_valid_def)
qed

lemma sample_names_rep:
  "names_rep sample_account_env 0 {sample_proof, sample_proof2} (ast_db sample_name_store) Map.empty"
  "ast_def sample_name_store = username_proof_store_def 0" "ast_gen sample_name_store = sample_generator"
  using sample_proofs_valid sample_proof_facts(3,4)
  by (auto simp: names_rep_def sample_name_store_def username_proof_store_new_def new_with_store_def_def m_pkey_eq
      inj_on_def)

section \<open>Verifications\<close>

definition sample_verifications :: "message set" where
  "sample_verifications = {sample_verify, sample_verify2}"

lemma sample_verify_facts:
  "m_address sample_verify = [1, 2]" "m_address sample_verify2 = [1, 2]" "m_fid sample_verify = 7" "m_fid sample_verify2 = 8"
  "verification_is_add_type sample_verify" "verification_is_add_type sample_verify2"
  "m_tsh sample_verify < m_tsh sample_verify2" "sample_verify \<noteq> sample_verify2"
  by (simp_all add: m_address_def m_fid_def m_data_def m_tsh_def sample_messages list_less_same_length
      verification_is_add_type_def is_type_def Ethereum_def)

lemma sample_verify_valid:
  assumes "m \<in> sample_verifications"
  shows "store_valid sample_account_env (verification_slots n) m"
proof -
  have "message_codec_ok sample_account_env m" using assms by (intro sample_codecs) (auto simp: sample_verifications_def)
  moreover have "length (msg_hash m) = 20 \<and> msg_data m \<noteq> None \<and> verification_is_add_type m \<and>
    (\<exists>k. verification_make_add_key m = Ok k) \<and> (\<exists>k. verification_make_remove_key m = Ok k) \<and>
    (\<exists>txn. verification_build_secondary_indices [] (m_tsh m) m = Ok txn)"
    using assms sample_verify_facts(5,6) unfolding sample_verifications_def
    by (elim insertE emptyE)
      (simp_all add: sample_messages verification_make_add_key_def verification_make_remove_key_def verification_address_def
        message_data_of_def body_of_def verification_build_secondary_indices_def add_address_def)
  ultimately show ?thesis by (simp add: store_valid_def)
qed

definition sample_verification_store :: account_store where
  "sample_verification_store = verification_store_new sample_db sample_generator 5"

lemma sample_verification_rep:
  "verified_rep sample_account_env 5 sample_verifications (ast_db sample_verification_store) Map.empty"
  "ast_def sample_verification_store = verification_store_def 5" "ast_gen sample_verification_store = sample_generator"
proof -
  have "universe sample_account_env (verification_slots 5) sample_verifications"
    using sample_verify_valid
    by (auto simp: universe_def inj_on_def sample_verifications_def m_pkey_eq sample_verify_facts)
  moreover have "\<forall>m \<in> sample_verifications. m_fid m \<noteq> 0" by (simp add: sample_verifications_def sample_verify_facts)
  ultimately show "verified_rep sample_account_env 5 sample_verifications (ast_db sample_verification_store) Map.empty"
    by (simp add: verified_rep_def verified_view_def view_rep_def live_add_def live_remove_def owner_indexed_def add_at_def
        sample_verification_store_def verification_store_new_def new_with_store_def_def)
  show "ast_def sample_verification_store = verification_store_def 5" "ast_gen sample_verification_store = sample_generator"
    by (simp_all add: sample_verification_store_def verification_store_new_def new_with_store_def_def)
qed

text \<open>The store in which fid 7 holds the address, ready for more events.\<close>

definition sample_owned_store :: account_store where
  "sample_owned_store =
     (fst (merge sample_account_env (sample_now 0) sample_verify sample_verification_store))\<lparr>ast_gen := sample_generator\<rparr>"

definition sample_owned_slots :: "bytes \<Rightarrow> message option" where
  "sample_owned_slots = [make_verification_adds_key 7 [1, 2] \<mapsto> sample_verify]"

lemma sample_verify_key:
  "m_akey (verification_slots n) sample_verify = make_verification_adds_key 7 [1, 2]"
  "m_akey (verification_slots n) sample_verify2 = make_verification_adds_key 8 [1, 2]"
  using verification_keys(1) [OF sample_verify_valid] by (simp_all add: sample_verifications_def sample_verify_facts)

lemma sample_owned_rep:
  "verified_rep sample_account_env 5 sample_verifications (ast_db sample_owned_store) sample_owned_slots"
  "ast_def sample_owned_store = verification_store_def 5" "ast_gen sample_owned_store = sample_generator"
proof -
  have r: "rivals Map.empty sample_verify = {}" by (simp add: rivals_def add_at_def)
  then have t: "take_over 5 sample_verify Map.empty = sample_owned_slots"
    by (simp add: take_over_def verification_accepts_def sample_owned_slots_def sample_verify_key)
  have m: "sample_verify \<in> sample_verifications" by (simp add: sample_verifications_def)
  have id: "generate_id (sample_now 0) None (ast_gen sample_verification_store) = (tick sample_generator (sample_now 0), Ok 4096)"
    using sample_generate by (simp add: sample_verification_rep)
  from verified_merge [OF sample_verification_rep(1) m sample_verification_rep(2) id]
  show "verified_rep sample_account_env 5 sample_verifications (ast_db sample_owned_store) sample_owned_slots"
    "ast_def sample_owned_store = verification_store_def 5"
    using t sample_verification_rep(2) by (auto simp: sample_owned_store_def)
  show "ast_gen sample_owned_store = sample_generator" by (simp add: sample_owned_store_def)
qed

lemma sample_accepts: "verification_accepts 5 sample_owned_slots sample_verify2"
proof -
  have "m_tsh x < m_tsh sample_verify2" if "x \<in> rivals sample_owned_slots sample_verify2" for x
    using that by (auto simp: rivals_def add_at_def sample_owned_slots_def sample_verify_facts split: if_splits)
  then show ?thesis by (simp add: verification_accepts_def sample_owned_slots_def sample_verify_key)
qed

section \<open>Links\<close>

definition sample_link_env :: account_env where
  "sample_link_env = sample_account_env\<lparr>ae_items := (\<lambda>_ _ _.
     pruned_items sample_account_env (link_store_def 3) [sample_follow, sample_follow2])\<rparr>"

definition sample_links :: "message set" where
  "sample_links = {sample_follow, sample_follow2}"

lemma sample_link_codec:
  "message_codec_ok sample_link_env = message_codec_ok sample_account_env"
  "message_encode sample_link_env = message_encode sample_account_env"
  by (simp_all add: fun_eq_iff sample_link_env_def message_codec_ok_def message_encode_def cong: if_cong option.case_cong)

lemma sample_link_facts:
  "is_type LinkAdd sample_follow" "is_type LinkAdd sample_follow2" "is_type LinkCompactState sample_compact"
  "m_fid sample_follow = 7" "m_fid sample_follow2 = 7" "m_fid sample_compact = 7"
  "m_tsh sample_follow < m_tsh sample_follow2" "compacted sample_compact sample_follow" "\<not> compacted sample_compact sample_follow2"
  by (simp_all add: is_type_def m_fid_def m_data_def m_tsh_def sample_messages list_less_same_length compacted_def m_time_def
      left_out_def compact_targets_def link_target_fid_def)

lemma sample_link_keys:
  "m_akey (link_store_def n) sample_follow \<noteq> m_akey (link_store_def n) sample_follow2"
  "m_akey (link_store_def n) sample_follow2 \<noteq> m_akey (link_store_def n) sample_follow"
  by (simp_all add: m_akey_def make_add_key_padded_def link_body_of_def link_add_key_def link_key_def sample_messages
      LINK_TYPE_BYTE_SIZE_def make_fid_key_def fid_bytes_def)

lemma sample_link_valid:
  assumes "m \<in> sample_links"
  shows "store_valid sample_link_env (link_store_def n) m"
proof -
  have "message_codec_ok sample_link_env m"
    using assms sample_codecs by (auto simp: sample_link_codec sample_links_def)
  moreover have "length (msg_hash m) = 20 \<and> msg_data m \<noteq> None \<and> is_type LinkAdd m \<and>
    (\<exists>k. make_add_key_padded m True = Ok k) \<and> (\<exists>k. make_remove_key_padded m True = Ok k) \<and>
    (\<exists>txn. link_build_secondary_indices [] (m_tsh m) m = Ok txn)"
    using assms sample_link_facts(1,2) unfolding sample_links_def
    by (elim insertE emptyE)
      (simp_all add: sample_messages make_add_key_padded_def make_remove_key_padded_def link_body_of_def link_add_key_def
        link_remove_key_def link_key_def link_build_secondary_indices_def link_secondary_index_key_def links_by_target_key_def
        LINK_TYPE_BYTE_SIZE_def m_tsh_def)
  ultimately show ?thesis by (simp add: store_valid_def)
qed

definition sample_link_store :: account_store where
  "sample_link_store = link_store_new sample_db sample_generator 3"

lemma sample_links_rep:
  "compact_rep sample_link_env 3 sample_links {sample_compact} (ast_db sample_link_store) Map.empty Map.empty"
  "ast_def sample_link_store = link_store_def 3" "ast_gen sample_link_store = sample_generator"
proof -
  have "universe sample_link_env (link_plain 3) sample_links"
    using sample_link_valid sample_link_facts(7)
    by (auto simp: universe_def inj_on_def sample_links_def m_pkey_eq)
  moreover have "compact_valid sample_link_env sample_compact"
    using sample_codecs by (simp add: compact_valid_def sample_link_codec sample_link_facts) (simp add: sample_messages m_data_def)
  ultimately show "compact_rep sample_link_env 3 sample_links {sample_compact} (ast_db sample_link_store) Map.empty Map.empty"
    by (simp add: compact_rep_def store_rep_def view_rep_def live_add_def live_remove_def sample_link_store_def
        link_store_new_def new_with_store_def_def)
  show "ast_def sample_link_store = link_store_def 3" "ast_gen sample_link_store = sample_generator"
    by (simp_all add: sample_link_store_def link_store_new_def new_with_store_def_def)
qed

text \<open>The store with both links, ready for more events.\<close>

definition sample_linked :: "message \<Rightarrow> account_store \<Rightarrow> account_store" where
  "sample_linked m st = (fst (merge sample_link_env (sample_now 0) m st))\<lparr>ast_gen := sample_generator\<rparr>"

lemma sample_linked_rep:
  assumes "compact_rep sample_link_env 3 sample_links {sample_compact} (ast_db st) M Map.empty" "m \<in> sample_links"
    "ast_def st = link_store_def 3" "ast_gen st = sample_generator" "M (m_akey (link_store_def 3) m) = None"
  shows "compact_rep sample_link_env 3 sample_links {sample_compact} (ast_db (sample_linked m st))
      (M(m_akey (link_store_def 3) m \<mapsto> m)) Map.empty"
    "ast_def (sample_linked m st) = link_store_def 3" "ast_gen (sample_linked m st) = sample_generator"
proof -
  have "generate_id (sample_now 0) None (ast_gen st) = (tick sample_generator (sample_now 0), Ok 4096)"
    using sample_generate assms(4) by simp
  from compact_merge_link [OF assms(1,2,3) this] assms(5)
  show "compact_rep sample_link_env 3 sample_links {sample_compact} (ast_db (sample_linked m st))
      (M(m_akey (link_store_def 3) m \<mapsto> m)) Map.empty" "ast_def (sample_linked m st) = link_store_def 3"
    by (auto simp: sample_linked_def compact_refuses_def lww_def)
  show "ast_gen (sample_linked m st) = sample_generator" by (simp add: sample_linked_def)
qed

definition sample_follows :: account_store where
  "sample_follows = sample_linked sample_follow2 (sample_linked sample_follow sample_link_store)"

definition sample_link_slots :: "bytes \<Rightarrow> message option" where
  "sample_link_slots = [m_akey (link_store_def 3) sample_follow \<mapsto> sample_follow,
     m_akey (link_store_def 3) sample_follow2 \<mapsto> sample_follow2]"

lemma sample_follows_rep:
  "compact_rep sample_link_env 3 sample_links {sample_compact} (ast_db sample_follows) sample_link_slots Map.empty"
  "ast_def sample_follows = link_store_def 3" "ast_gen sample_follows = sample_generator"
proof -
  have m: "sample_follow \<in> sample_links" "sample_follow2 \<in> sample_links" by (simp_all add: sample_links_def)
  note one = sample_linked_rep [OF sample_links_rep(1) m(1) sample_links_rep(2,3) refl]
  have "(Map.empty(m_akey (link_store_def 3) sample_follow \<mapsto> sample_follow)) (m_akey (link_store_def 3) sample_follow2) = None"
    by (simp add: sample_link_keys)
  note two = sample_linked_rep [OF one(1) m(2) one(2,3) this]
  from two show "compact_rep sample_link_env 3 sample_links {sample_compact} (ast_db sample_follows) sample_link_slots Map.empty"
    "ast_def sample_follows = link_store_def 3" "ast_gen sample_follows = sample_generator"
    by (simp_all only: sample_follows_def sample_link_slots_def)
qed

lemma sample_links_listed:
  "lists_links sample_link_env 3 (ast_db sample_follows) (m_fid sample_compact) sample_link_slots [sample_follow, sample_follow2]"
proof -
  have "{w \<in> ran sample_link_slots. m_fid w = 7} = {sample_follow, sample_follow2}"
    using sample_link_keys sample_link_facts(4,5) by (auto simp: sample_link_slots_def ran_map_upd)
  then show ?thesis
    by (simp add: lists_links_def sample_link_facts pruned_items_def sample_link_codec) (simp add: sample_link_env_def pruned_items_def)
qed

lemma sample_no_tie: "\<not> compact_tie sample_compact sample_link_slots"
  using sample_link_keys [of 3]
  by (auto simp: compact_tie_def sample_link_slots_def ran_map_upd m_time_def m_data_def sample_messages)

lemma sample_compact_merge:
  "compact_merge 3 sample_compact sample_link_slots Map.empty =
     ([m_akey (link_store_def 3) sample_follow2 \<mapsto> sample_follow2], [link_ckey sample_compact \<mapsto> sample_compact])"
  using sample_link_keys [of 3] sample_link_facts
  by (auto simp: compact_merge_def compact_accepts_def compact_outdated_def compact_slots_def sample_link_slots_def fun_eq_iff)

end
