(* ===== verification/Client_Tools.thy ===== *)
theory Client_Tools
  imports Snapchain_Node
begin

text \<open>
  The client side: \<open>utils/cli.rs\<close> (composing and submitting a message, following the blocks of a
  node) and the programs \<open>bin/submit_message.rs\<close> and \<open>bin/follow_blocks.rs\<close> around it.  The key, the
  digest and the codec are parameters, and so is the remote node; following is then proved against
  the block store of this development.
\<close>

section \<open>Composing a message\<close>

record client_env =
  ce_blake3 :: "bytes \<Rightarrow> bytes"
  ce_encode_data :: "message_data \<Rightarrow> bytes"
  ce_sign :: "bytes \<Rightarrow> bytes"
  ce_verifying_key :: bytes

definition cli_timestamp :: "u64 \<Rightarrow> ('e, u32) result" where
  "cli_timestamp now =
     (if unat now < FARCASTER_EPOCH then Panic sub_overflow
      else Ok (ucast (now - word_of_nat FARCASTER_EPOCH)))"

definition cli_message :: "client_env \<Rightarrow> u32 \<Rightarrow> u64 \<Rightarrow> string \<Rightarrow> message" where
  "cli_message K timestamp fid text =
     (let cast_add = \<lparr>ca_embeds_deprecated = [], ca_mentions = [], ca_parent = None, ca_text = text,
                      ca_mentions_positions = [], ca_embeds = [], ca_type = 0\<rparr>;
          msg_data = \<lparr>md_type = 1, md_fid = fid, md_timestamp = timestamp, md_network = 1,
                      md_body = Some (CastAddBody cast_add)\<rparr>;
          msg_data_bytes = ce_encode_data K msg_data;
          hash = take 20 (ce_blake3 K msg_data_bytes)
      in \<lparr>msg_data = None, msg_hash = hash, msg_hash_scheme = 1, msg_signature = ce_sign K hash,
          msg_signature_scheme = 1, msg_signer = ce_verifying_key K, msg_data_bytes = Some msg_data_bytes\<rparr>)"

text \<open>\<open>submit\<close> is the call of the remote node.\<close>

definition compose_message ::
  "client_env \<Rightarrow> u64 \<Rightarrow> (message \<Rightarrow> string + message) \<Rightarrow> u64 \<Rightarrow> string \<Rightarrow> (string, message) result" where
  "compose_message K now submit fid text =
     bind_result (cli_timestamp now) (\<lambda>timestamp.
       (let msg = cli_message K timestamp fid text in
        case submit msg of Inl e \<Rightarrow> Err e | Inr response \<Rightarrow> Ok msg))"

definition submit_message_main ::
  "client_env \<Rightarrow> u64 \<Rightarrow> string + (message \<Rightarrow> string + message) \<Rightarrow> ('e, message) result" where
  "submit_message_main K now connect =
     (case connect of
        Inl e \<Rightarrow> Panic unwrap_err
      | Inr submit \<Rightarrow> unwrap (compose_message K now submit 6833 ''Welcome from Rust!''))"

section \<open>Following the blocks\<close>

definition FETCH_SIZE :: u64 where
  "FETCH_SIZE = 100"

type_synonym block_client = "nat \<Rightarrow> blocks_request \<Rightarrow> string + block list"

fun send_blocks :: "block list \<Rightarrow> u64 \<Rightarrow> block sender \<Rightarrow> (u64 \<times> block sender) \<times> (string, unit) result" where
  "send_blocks [] i tx = ((i, tx), Ok ())"
| "send_blocks (b # bs) i tx =
     (if \<not> snd_open tx then ((i, tx), Panic unwrap_err)
      else if i = - 1 then ((i, sender_send b tx), Panic add_overflow)
      else send_blocks bs (i + 1) (sender_send b tx))"

text \<open>The loop never returns by itself; \<open>rounds\<close> is how many of its requests are looked at.\<close>

primrec follow_loop ::
  "nat \<Rightarrow> block_client \<Rightarrow> nat \<Rightarrow> u64 \<Rightarrow> block sender \<Rightarrow> (u64 \<times> block sender) \<times> (string, unit) result" where
  "follow_loop 0 client n i tx = ((i, tx), Ok ())"
| "follow_loop (Suc rounds) client n i tx =
     (if unat i + unat FETCH_SIZE \<ge> 2 ^ 64 then ((i, tx), Panic add_overflow)
      else
        (case client n \<lparr>br_shard_id = 0, br_start_block_number = i, br_stop_block_number = Some (i + FETCH_SIZE)\<rparr> of
           Inl e \<Rightarrow> ((i, tx), Err e)
         | Inr blocks \<Rightarrow>
             if blocks = [] then follow_loop rounds client (Suc n) i tx
             else
               (case send_blocks blocks i tx of
                  ((i', tx'), Ok _) \<Rightarrow> follow_loop rounds client (Suc n) i' tx'
                | r \<Rightarrow> r)))"

definition follow_blocks ::
  "nat \<Rightarrow> string + block_client \<Rightarrow> block sender \<Rightarrow> (u64 \<times> block sender) \<times> (string, unit) result" where
  "follow_blocks rounds connect tx =
     (case connect of
        Inl e \<Rightarrow> ((1, tx), Err e)
      | Inr client \<Rightarrow> follow_loop rounds client 0 1 tx)"

text \<open>What \<open>follow_blocks\<close> prints for a block.\<close>

definition block_lines :: "(bytes \<Rightarrow> string) \<Rightarrow> block \<Rightarrow> ('e, string list) result" where
  "block_lines hex b =
     (case b_header b of
        None \<Rightarrow> Panic unwrap_err
      | Some header \<Rightarrow>
          (case bh_height header of
             None \<Rightarrow> Panic unwrap_none
           | Some h \<Rightarrow>
               Ok ((''Block '' @ dec_digits (unat (block_number h))) #
                   map (\<lambda>msg. '' - '' @ hex (msg_hash msg))
                     (concat (map tx_user_messages (concat (map sc_transactions (b_shard_chunks b))))))))"

section \<open>A composed message is acceptable\<close>

lemma compose_message_hash:
  assumes "compose_message K now submit fid text = Ok msg" "\<forall>x. length (ce_blake3 K x) = 32"
  shows "length (msg_hash msg) = 20 \<and>
    (\<exists>d. msg_data_bytes msg = Some d \<and> msg_hash msg = take 20 (ce_blake3 K d)) \<and> msg_signature msg = ce_sign K (msg_hash msg)"
proof -
  from assms(1) obtain timestamp where "cli_timestamp now = (Ok timestamp :: (string, u32) result)"
    "(case submit (cli_message K timestamp fid text) of Inl e \<Rightarrow> Err e
      | Inr response \<Rightarrow> Ok (cli_message K timestamp fid text)) = Ok msg"
    by (auto simp: compose_message_def Let_def bind_result_Ok_iff)
  then have "msg = cli_message K timestamp fid text" by (cases "submit (cli_message K timestamp fid text)") auto
  with assms(2) show ?thesis by (simp add: cli_message_def Let_def)
qed

section \<open>Every block arrives once, in order\<close>

text \<open>A store that holds the first \<open>N\<close> blocks of a chain, numbered from 1, in the block shard.\<close>

definition holds_chain :: "chain_codec \<Rightarrow> block list \<Rightarrow> rocksdb \<Rightarrow> nat \<Rightarrow> bool" where
  "holds_chain C chain db N \<longleftrightarrow> db_healthy db \<and> blocks_indexed C db \<and> N \<le> length chain \<and>
     (\<forall>n. db_view db (make_block_key 0 n) \<noteq> None \<longleftrightarrow> 1 \<le> unat n \<and> unat n \<le> N) \<and>
     (\<forall>n v. db_view db (make_block_key 0 n) = Some v \<longrightarrow> cc_block_decode C v = Ok (chain ! (unat n - 1)))"

definition node_client :: "chain_codec \<Rightarrow> (nat \<Rightarrow> rocksdb) \<Rightarrow> block_client" where
  "node_client C db n req =
     (case server_get_blocks 2 C (db n) req of
        Some (Ok blocks) \<Rightarrow> Inr blocks
      | _ \<Rightarrow> Inl ''status'')"

lemma word_of_nat_unat: "word_of_nat (unat w) = w"
  by simp

lemma unat_word_of_nat: "j < 2 ^ 64 \<Longrightarrow> unat (word_of_nat j :: u64) = j"
  by (simp add: unsigned_of_nat take_bit_nat_eq_self)

lemma decoded_all2: "list_all2 (\<lambda>e n. decode (snd e) = Ok (g n)) es ns \<Longrightarrow> decoded decode es = map g ns"
  by (induction rule: list_all2_induct) (simp_all add: decoded_Cons)

lemmas block_key_le = block_index.key_le [of "(s, m)" "(s', n)" for s m s' n, simplified prod.case]
lemmas block_key_less = block_index.key_less [of "(s, m)" "(s', n)" for s m s' n, simplified prod.case]

lemma holds_chain_keys:
  assumes chain: "holds_chain C chain db N" and i: "1 \<le> unat i" "unat i + 100 < 2 ^ 64"
  shows "k \<in> fst ` set (kv_range (make_block_key 0 i) (make_block_key 0 (i + 100)) (db_entries db)) \<longleftrightarrow>
    (\<exists>n. k = make_block_key 0 n \<and> unat i \<le> unat n \<and> unat n < unat i + 100 \<and> unat n \<le> N)"
    (is "k \<in> fst ` set (kv_range ?lo ?hi ?es) \<longleftrightarrow> _")
proof -
  have ix: "blocks_indexed C db" using chain by (simp add: holds_chain_def)
  have hi: "unat (i + 100) = unat i + 100" using i(2) by (simp add: unat_add_lem [THEN iffD1])
  have key: "(make_block_key 0 n \<in> fst ` set ?es) \<longleftrightarrow> 1 \<le> unat n \<and> unat n \<le> N" for n
    using chain by (simp add: holds_chain_def db_view_def map_of_eq_None_iff)
  show ?thesis
  proof
    assume "k \<in> fst ` set (kv_range ?lo ?hi ?es)"
    then have k: "k \<in> fst ` set ?es" "?lo \<le> k" "k < ?hi" by (auto simp: kv_range_def)
    then obtain s n where "k = make_block_key s n" using blocks_indexedD [OF ix] by fastforce
    moreover from this k(2,3) have "s = 0" "i \<le> n" "n < i + 100"
      by (auto simp: block_key_le block_key_less less_eq_prod_simp less_prod_simp)
    ultimately show "\<exists>n. k = make_block_key 0 n \<and> unat i \<le> unat n \<and> unat n < unat i + 100 \<and> unat n \<le> N"
      using key k(1) by (auto simp: word_le_nat_alt word_less_nat_alt hi)
  next
    assume "\<exists>n. k = make_block_key 0 n \<and> unat i \<le> unat n \<and> unat n < unat i + 100 \<and> unat n \<le> N"
    then obtain n where n: "k = make_block_key 0 n" "i \<le> n" "n < i + 100" "1 \<le> unat n \<and> unat n \<le> N"
      using i(1) by (auto simp: word_le_nat_alt word_less_nat_alt hi)
    then have "k \<in> fst ` set ?es" "?lo \<le> k" "k < ?hi"
      using key by (auto simp: block_key_le block_key_less less_eq_prod_simp less_prod_simp)
    then show "k \<in> fst ` set (kv_range ?lo ?hi ?es)" by (auto simp: kv_range_def image_iff)
  qed
qed

lemma holds_chain_range:
  assumes chain: "holds_chain C chain db N" and i: "1 \<le> unat i" "unat i + 100 < 2 ^ 64"
  shows "map fst (kv_range (make_block_key 0 i) (make_block_key 0 (i + 100)) (db_entries db)) =
    map (\<lambda>k. make_block_key 0 (word_of_nat k)) [unat i..<min (Suc N) (unat i + 100)]"
proof (rule strict_sorted_equal)
  let ?es = "db_entries db" and ?lo = "make_block_key 0 i" and ?hi = "make_block_key 0 (i + 100)"
  note range = holds_chain_keys [OF chain i]
  have healthy: "db_healthy db" using chain by (simp add: holds_chain_def)
  show "sorted_wrt (<) (map fst (kv_range ?lo ?hi ?es))"
    using kv_wf_db_entries [OF healthy] by (auto simp: kv_wf_def kv_range_def intro: sorted_wrt_map_filter)
  show "sorted_wrt (<) (map (\<lambda>k. make_block_key 0 (word_of_nat k)) [unat i..<min (Suc N) (unat i + 100)])"
    unfolding sorted_wrt_map
  proof (rule sorted_wrt_mono_rel [OF _ sorted_wrt_upt])
    fix j k
    assume "j \<in> set [unat i..<min (Suc N) (unat i + 100)]" "k \<in> set [unat i..<min (Suc N) (unat i + 100)]" "j < k"
    with i(2) show "make_block_key 0 (word_of_nat j) < make_block_key 0 (word_of_nat k)"
      by (simp add: block_key_less less_prod_simp word_less_nat_alt unat_word_of_nat)
  qed
  show "set (map fst (kv_range ?lo ?hi ?es)) =
      set (map (\<lambda>k. make_block_key 0 (word_of_nat k)) [unat i..<min (Suc N) (unat i + 100)])"
  proof (intro set_eqI iffI)
    fix k
    assume "k \<in> set (map fst (kv_range ?lo ?hi ?es))"
    then obtain n where "k = make_block_key 0 n" "unat i \<le> unat n" "unat n < unat i + 100" "unat n \<le> N"
      using range by auto
    then show "k \<in> set (map (\<lambda>k. make_block_key 0 (word_of_nat k)) [unat i..<min (Suc N) (unat i + 100)])"
      by (auto simp: image_iff intro!: bexI [of _ "unat n"])
  next
    fix k
    assume "k \<in> set (map (\<lambda>k. make_block_key 0 (word_of_nat k)) [unat i..<min (Suc N) (unat i + 100)])"
    then obtain j where "k = make_block_key 0 (word_of_nat j)" "unat i \<le> j" "j < unat i + 100" "j \<le> N" by auto
    with i(2) range [of k] show "k \<in> set (map fst (kv_range ?lo ?hi ?es))"
      by (auto simp: unat_word_of_nat intro!: exI [of _ "word_of_nat j"])
  qed
qed

lemma node_client_answer:
  assumes chain: "holds_chain C chain (db n) N" and i: "1 \<le> unat i" "unat i + 100 < 2 ^ 64"
  shows "node_client C db n \<lparr>br_shard_id = 0, br_start_block_number = i, br_stop_block_number = Some (i + FETCH_SIZE)\<rparr> =
    Inr (take 100 (drop (unat i - 1) (take N chain)))"
proof -
  let ?es = "kv_range (make_block_key 0 i) (make_block_key 0 (i + 100)) (db_entries (db n))"
  let ?ns = "[unat i..<min (Suc N) (unat i + 100)]"
  have h: "db_healthy (db n)" "blocks_indexed C (db n)" "N \<le> length chain" using chain by (simp_all add: holds_chain_def)
  have keys: "map fst ?es = map (\<lambda>k. make_block_key 0 (word_of_nat k)) ?ns" by (rule holds_chain_range [OF chain i])
  then have len: "length ?es = length ?ns" by (metis length_map)
  have "cc_block_decode C (snd (?es ! j)) = Ok (chain ! (?ns ! j - 1))" if j: "j < length ?es" for j
  proof -
    obtain k v where e: "?es ! j = (k, v)" by fastforce
    have "map fst ?es ! j = map (\<lambda>k. make_block_key 0 (word_of_nat k)) ?ns ! j" by (simp only: keys)
    with j len e have "k = make_block_key 0 (word_of_nat (?ns ! j))" by (simp add: nth_map del: nth_upt)
    moreover from nth_mem [OF j] e have "(k, v) \<in> set (db_entries (db n))" by (auto simp: kv_range_def)
    ultimately have "db_view (db n) (make_block_key 0 (word_of_nat (?ns ! j))) = Some (snd (?es ! j))"
      using db_view_entries [OF h(1)] e by (simp del: nth_upt)
    then have "cc_block_decode C (snd (?es ! j)) = Ok (chain ! (unat (word_of_nat (?ns ! j) :: u64) - 1))"
      using chain by (simp add: holds_chain_def)
    moreover have "?ns ! j \<in> set ?ns" using j len by (intro nth_mem) simp
    then have "?ns ! j < 2 ^ 64" using i(2) by simp
    ultimately show ?thesis by (simp only: unat_word_of_nat)
  qed
  then have "decoded (cc_block_decode C) ?es = map (\<lambda>k. chain ! (k - 1)) ?ns"
    using len by (intro decoded_all2) (simp add: list_all2_conv_all_nth)
  moreover have "map (\<lambda>k. chain ! (k - 1)) ?ns = take 100 (drop (unat i - 1) (take N chain))"
    using i(1) h(3) by (intro nth_equalityI) (auto simp: less_diff_conv add.commute nth_upt)
  moreover have "take PAGE_SIZE ?es = ?es" using len by (simp add: PAGE_SIZE_def)
  moreover have "server_get_blocks 2 C (db n)
      \<lparr>br_shard_id = 0, br_start_block_number = i, br_stop_block_number = Some (i + FETCH_SIZE)\<rparr> =
      Some (Ok (decoded (cc_block_decode C) (take PAGE_SIZE ?es)))"
    using get_blocks_ok [OF h(1,2), of ?es 0 i "Some (i + 100)" 0]
    by (simp add: server_get_blocks_def FETCH_SIZE_def numeral_2_eq_2)
  ultimately show ?thesis by (simp add: node_client_def)
qed

lemma send_blocks_ok:
  "snd_open tx \<Longrightarrow> unat i + length bs < 2 ^ 64 \<Longrightarrow>
     send_blocks bs i tx = ((i + word_of_nat (length bs), tx\<lparr>snd_sent := snd_sent tx @ bs\<rparr>), Ok ())"
proof (induction bs i tx rule: send_blocks.induct)
  case (2 b bs i tx)
  then have i: "unat (i + 1) = unat i + 1" by (simp add: unat_add_lem [THEN iffD1])
  then have "i \<noteq> - 1" by auto
  with 2 i show ?case by (simp add: sender_send_def add.commute add.left_commute)
qed simp

lemma follow_loop_ok:
  assumes held: "\<And>n. holds_chain C chain (db n) (len n)" and mono: "mono len" and fits: "length chain + 200 < 2 ^ 64"
    and "snd_open tx" "unat i = Suc p" "p \<le> len n" "snd_sent tx = pre @ take p chain"
  shows "\<exists>q. follow_loop r (node_client C db) n i tx =
      ((word_of_nat (Suc q), tx\<lparr>snd_sent := pre @ take q chain\<rparr>), Ok ()) \<and> q \<le> len (n + r) \<and>
    (\<forall>m \<le> r. min (len (n + m)) (p + 100 * (r - m)) \<le> q)"
  using assms(4-)
proof (induction r arbitrary: n i tx p)
  case 0
  then have "i = word_of_nat (Suc p)" by (metis word_of_nat_unat)
  with 0 show ?case by (intro exI [of _ p]) simp
next
  case (Suc r)
  have len: "len n \<le> length chain" using held [of n] by (simp add: holds_chain_def)
  let ?bs = "take 100 (drop p (take (len n) chain))" and ?p = "min (len n) (p + 100)"
  have i: "1 \<le> unat i" "unat i + 100 < 2 ^ 64" using Suc.prems len fits by simp_all
  have answer: "node_client C db n
      \<lparr>br_shard_id = 0, br_start_block_number = i, br_stop_block_number = Some (i + FETCH_SIZE)\<rparr> = Inr ?bs"
    using node_client_answer [OF held i] Suc.prems(2) by simp
  have bs: "length ?bs = ?p - p" using Suc.prems(3) len by simp
  have "take (p + 100) (take (len n) chain) = take p (take (len n) chain) @ ?bs" by (rule take_add)
  then have sent: "take p chain @ ?bs = take ?p chain" using Suc.prems(3) by (simp add: min.commute min_absorb1)
  let ?tx = "tx\<lparr>snd_sent := snd_sent tx @ ?bs\<rparr>" and ?i = "i + word_of_nat (length ?bs)"
  have fit: "unat i + length ?bs < 2 ^ 64" using i(2) bs by simp
  have "\<not> 2 ^ 64 \<le> unat i + unat FETCH_SIZE" using i(2) by (simp add: FETCH_SIZE_def)
  then have loop: "follow_loop (Suc r) (node_client C db) n i tx = follow_loop r (node_client C db) (Suc n) ?i ?tx"
    using answer send_blocks_ok [OF Suc.prems(1) fit] by (cases "?bs = []") simp_all
  have "unat (word_of_nat (length ?bs) :: u64) = length ?bs" using fit by (intro unat_word_of_nat) simp
  with fit have "unat ?i = unat i + length ?bs" by (simp add: unat_add_lem [THEN iffD1])
  then have i': "unat ?i = Suc ?p" using Suc.prems(2,3) bs by simp
  have p': "?p \<le> len (Suc n)" using monoD [OF mono, of n "Suc n"] by simp
  have "snd_open ?tx" "snd_sent ?tx = pre @ take ?p chain" using Suc.prems(1,4) sent by simp_all
  from Suc.IH [OF this(1) i' p' this(2)] obtain q where q: "follow_loop r (node_client C db) (Suc n) ?i ?tx =
      ((word_of_nat (Suc q), ?tx\<lparr>snd_sent := pre @ take q chain\<rparr>), Ok ())" "q \<le> len (Suc n + r)"
    "\<forall>m \<le> r. min (len (Suc n + m)) (?p + 100 * (r - m)) \<le> q" by blast
  have "min (len (n + m)) (p + 100 * (Suc r - m)) \<le> q" if m: "m \<le> Suc r" for m
  proof (cases m)
    case 0
    with q(3) [rule_format, of 0] monoD [OF mono, of n "Suc n"] show ?thesis by simp
  next
    case (Suc m')
    with q(3) [rule_format, of m'] m Suc.prems(3) show ?thesis by simp
  qed
  with q loop show ?case by (intro exI [of _ q]) simp
qed

end
