(* ===== verification/Collect_Stats.thy ===== *)
theory Collect_Stats
  imports Complex_Main Client_Tools "HOL-Library.Log_Nat"
begin

text \<open>
  \<open>bin/collect_stats.rs\<close>: the benchmark.  Tasks compose and submit numbered messages; the main loop
  counts what was submitted, follows the blocks, and prints a report at every tick of a timer, until
  it has printed one more than \<open>NUM_ITERATIONS\<close>.  What arrives on the channels and when the timer
  ticks is the schedule, an argument.  \<open>hex\<close>, the codec of the messages and the remote nodes are
  parameters.  Rates and averages are \<open>f64\<close> values: the rationals with 53 significant bits, to which every
  conversion and quotient is rounded; the numbers of the program (0, and quotients of integers below
  \<open>2 ^ 64\<close>) are far from the limits of the exponent.
\<close>

section \<open>Submitting messages\<close>

definition STATS_CALCULATION_INTERVAL :: nat where
  "STATS_CALCULATION_INTERVAL = 10"

definition NUM_ITERATIONS :: nat where
  "NUM_ITERATIONS = 5"

record scenario =
  sn_submit_message_rpc_addrs :: "string list"
  sn_follow_blocks_rpc_addr :: string
  sn_submit_message_interval :: "nat option"

text \<open>The interval is in microseconds.\<close>

definition bench_scenarios :: "scenario list" where
  "bench_scenarios =
     [\<lparr>sn_submit_message_rpc_addrs = [''http://127.0.0.1:3383'', ''http://127.0.0.1:3384'', ''http://127.0.0.1:3385''],
       sn_follow_blocks_rpc_addr = ''http://127.0.0.1:3383'', sn_submit_message_interval = Some 500\<rparr>]"

text \<open>A counter of type \<open>i32\<close>.\<close>

definition i32_succ :: "nat \<Rightarrow> ('e, nat) result" where
  "i32_succ n = (if n + 1 < 2 ^ 31 then Ok (n + 1) else Panic add_overflow)"

text \<open>The endless loop of a task, for a number of rounds; \<open>clock\<close> gives the time of each message.\<close>

primrec submit_loop ::
  "nat \<Rightarrow> client_env \<Rightarrow> (nat \<Rightarrow> u64) \<Rightarrow> (message \<Rightarrow> string + message) \<Rightarrow> nat \<Rightarrow> message sender \<Rightarrow>
     message sender \<times> (string, unit) result" where
  "submit_loop 0 K clock submit i tx = (tx, Ok ())"
| "submit_loop (Suc rounds) K clock submit i tx =
     (case compose_message K (clock i) submit 6833 (''For benchmarking '' @ dec_digits i) of
        Err e \<Rightarrow> (tx, Panic unwrap_err)
      | Panic p \<Rightarrow> (tx, Panic p)
      | Ok message \<Rightarrow>
          if \<not> snd_open tx then (tx, Panic unwrap_err)
          else
            (case i32_succ i of
               Ok i' \<Rightarrow> submit_loop rounds K clock submit i' (sender_send message tx)
             | Err e \<Rightarrow> (sender_send message tx, Err e)
             | Panic p \<Rightarrow> (sender_send message tx, Panic p)))"

text \<open>One task per address; a connection that fails panics its task only.\<close>

definition start_submit_messages ::
  "nat \<Rightarrow> client_env \<Rightarrow> (nat \<Rightarrow> u64) \<Rightarrow> (string \<Rightarrow> string + (message \<Rightarrow> string + message)) \<Rightarrow> scenario \<Rightarrow> message sender \<Rightarrow>
     (message sender \<times> (string, unit) result) list" where
  "start_submit_messages rounds K clock connect sc tx =
     map (\<lambda>rpc_addr.
            (case connect rpc_addr of
               Inl e \<Rightarrow> (tx, Panic unwrap_err)
             | Inr submit \<Rightarrow> submit_loop rounds K clock submit 1 tx))
       (sn_submit_message_rpc_addrs sc)"

section \<open>Statistics\<close>

record bench_stats =
  bs_block_count :: nat
  bs_num_messages_confirmed :: nat
  bs_num_messages_submitted :: nat
  bs_pending_messages :: "string set"
  bs_time_to_confirmation :: "u64 list"
  bs_block_times :: "u64 list"
  bs_last_block_time :: u64
  bs_iteration :: nat

definition bench_stats_new :: "u64 \<Rightarrow> bench_stats" where
  "bench_stats_new start_farcaster_time =
     \<lparr>bs_block_count = 0, bs_num_messages_confirmed = 0, bs_num_messages_submitted = 0, bs_pending_messages = {},
      bs_time_to_confirmation = [], bs_block_times = [], bs_last_block_time = start_farcaster_time, bs_iteration = 0\<rparr>"

text \<open>
  The \<open>f64\<close> nearest to a number that is not negative, ties to the even significand: \<open>f64_scale\<close> is the
  weight of the last bit, so that the scaled number has 53 bits before the point.
\<close>

definition f64_scale :: "rat \<Rightarrow> int" where
  "f64_scale q =
     (let a = nat (fst (quotient_of q)); b = nat (snd (quotient_of q));
          k = int (floorlog 2 a) - int (floorlog 2 b)
      in (if q < 2 powi k then k - 1 else k) - 52)"

definition round_half_even :: "rat \<Rightarrow> int" where
  "round_half_even x =
     (let n = \<lfloor>x\<rfloor>; r = x - of_int n in if r < 1 / 2 \<or> r = 1 / 2 \<and> even n then n else n + 1)"

definition f64_nearest :: "rat \<Rightarrow> rat" where
  "f64_nearest q = (if q \<le> 0 then 0 else of_int (round_half_even (q / 2 powi f64_scale q)) * 2 powi f64_scale q)"

definition f64_of_nat :: "nat \<Rightarrow> rat" where
  "f64_of_nat n = f64_nearest (of_nat n)"

definition f64_div :: "rat \<Rightarrow> rat \<Rightarrow> rat" where
  "f64_div x y = f64_nearest (x / y)"

record bench_report =
  br_time_elapsed :: nat
  br_block_count :: nat
  br_submitted_msgs_per_sec :: rat
  br_confirmed_msgs_per_sec :: rat
  br_avg_time_to_confirmation :: rat
  br_max_time_to_confirmation :: u64
  br_avg_block_time :: rat
  br_max_block_time :: u64

record bench_env =
  be_hex :: "bytes \<Rightarrow> string"
  be_decode_data :: "bytes \<Rightarrow> message_data option"

definition u64_sub :: "u64 \<Rightarrow> u64 \<Rightarrow> ('e, u64) result" where
  "u64_sub a b = (if b \<le> a then Ok (a - b) else Panic sub_overflow)"

definition u64_sum :: "u64 list \<Rightarrow> ('e, nat) result" where
  "u64_sum xs = (let s = sum_list (map unat xs) in if s < 2 ^ 64 then Ok s else Panic add_overflow)"

definition u64_avg :: "u64 list \<Rightarrow> ('e, rat) result" where
  "u64_avg xs = (if xs = [] then Ok 0 else bind_result (u64_sum xs) (\<lambda>s. Ok (f64_div (f64_of_nat s) (f64_of_nat (length xs)))))"

definition u64_max :: "u64 list \<Rightarrow> u64" where
  "u64_max xs = (if xs = [] then 0 else foldr max xs 0)"

definition on_bench_message :: "bench_env \<Rightarrow> message \<Rightarrow> bench_stats \<Rightarrow> (string, bench_stats) result" where
  "on_bench_message E m st =
     bind_result (i32_succ (bs_num_messages_submitted st)) (\<lambda>n.
       Ok (st\<lparr>bs_num_messages_submitted := n, bs_pending_messages := insert (be_hex E (msg_hash m)) (bs_pending_messages st)\<rparr>))"

definition confirm_message :: "bench_env \<Rightarrow> u64 \<Rightarrow> message \<Rightarrow> bench_stats \<Rightarrow> (string, bench_stats) result" where
  "confirm_message E block_timestamp m st =
     (case msg_data_bytes m of
        None \<Rightarrow> Panic unwrap_none
      | Some bytes \<Rightarrow>
          (case be_decode_data E bytes of
             None \<Rightarrow> Panic unwrap_err
           | Some d \<Rightarrow>
               bind_result (u64_sub block_timestamp (ucast (md_timestamp d))) (\<lambda>t.
               bind_result (i32_succ (bs_num_messages_confirmed st)) (\<lambda>n.
                 Ok (st\<lparr>bs_time_to_confirmation := bs_time_to_confirmation st @ [t], bs_num_messages_confirmed := n,
                        bs_pending_messages := bs_pending_messages st - {be_hex E (msg_hash m)}\<rparr>)))))"

fun confirm_messages :: "bench_env \<Rightarrow> u64 \<Rightarrow> message list \<Rightarrow> bench_stats \<Rightarrow> (string, bench_stats) result" where
  "confirm_messages E block_timestamp [] st = Ok st"
| "confirm_messages E block_timestamp (m # ms) st =
     bind_result (confirm_message E block_timestamp m st) (confirm_messages E block_timestamp ms)"

definition block_messages :: "block \<Rightarrow> message list" where
  "block_messages b = concat (map tx_user_messages (concat (map sc_transactions (b_shard_chunks b))))"

definition on_bench_block :: "bench_env \<Rightarrow> u64 \<Rightarrow> block \<Rightarrow> bench_stats \<Rightarrow> (string, bench_stats) result" where
  "on_bench_block E start b st =
     (case b_header b of
        None \<Rightarrow> Panic unwrap_none
      | Some header \<Rightarrow>
          (let block_timestamp = bh_timestamp header in
           if block_timestamp > start
           then
             bind_result (i32_succ (bs_block_count st)) (\<lambda>n.
             bind_result (u64_sub block_timestamp (bs_last_block_time st)) (\<lambda>t.
               confirm_messages E block_timestamp (block_messages b)
                 (st\<lparr>bs_block_count := n, bs_block_times := bs_block_times st @ [t], bs_last_block_time := block_timestamp\<rparr>)))
           else Ok st))"

text \<open>A tick: the report, the reset, and whether the loop ends.\<close>

definition bench_report_of :: "nat \<Rightarrow> bench_stats \<Rightarrow> (string, bench_report) result" where
  "bench_report_of elapsed st =
     bind_result (u64_avg (bs_time_to_confirmation st)) (\<lambda>avg_confirmation.
     bind_result (u64_avg (bs_block_times st)) (\<lambda>avg_block.
       Ok \<lparr>br_time_elapsed = elapsed, br_block_count = bs_block_count st,
           br_submitted_msgs_per_sec = f64_div (f64_of_nat (bs_num_messages_submitted st)) (f64_of_nat STATS_CALCULATION_INTERVAL),
           br_confirmed_msgs_per_sec = f64_div (f64_of_nat (bs_num_messages_confirmed st)) (f64_of_nat STATS_CALCULATION_INTERVAL),
           br_avg_time_to_confirmation = avg_confirmation, br_max_time_to_confirmation = u64_max (bs_time_to_confirmation st),
           br_avg_block_time = avg_block, br_max_block_time = u64_max (bs_block_times st)\<rparr>))"

definition bench_reset :: "bench_stats \<Rightarrow> bench_stats" where
  "bench_reset st =
     st\<lparr>bs_block_count := 0, bs_num_messages_confirmed := 0, bs_num_messages_submitted := 0,
        bs_time_to_confirmation := [], bs_block_times := [], bs_iteration := bs_iteration st + 1\<rparr>"

section \<open>The loop\<close>

datatype bench_event = MessageComposed message | BlockFollowed block | StatsTick nat

fun bench_loop ::
  "bench_env \<Rightarrow> u64 \<Rightarrow> bench_event list \<Rightarrow> bench_stats \<Rightarrow> bench_stats \<times> bench_report list \<times> (string, bool) result" where
  "bench_loop E start [] st = (st, [], Ok False)"
| "bench_loop E start (MessageComposed m # evs) st =
     (case on_bench_message E m st of
        Ok st' \<Rightarrow> bench_loop E start evs st'
      | Err e \<Rightarrow> (st, [], Err e)
      | Panic p \<Rightarrow> (st, [], Panic p))"
| "bench_loop E start (BlockFollowed b # evs) st =
     (case on_bench_block E start b st of
        Ok st' \<Rightarrow> bench_loop E start evs st'
      | Err e \<Rightarrow> (st, [], Err e)
      | Panic p \<Rightarrow> (st, [], Panic p))"
| "bench_loop E start (StatsTick elapsed # evs) st =
     (case bench_report_of elapsed st of
        Ok r \<Rightarrow>
          (let st' = bench_reset st in
           if bs_iteration st' > NUM_ITERATIONS then (st', [r], Ok True)
           else (case bench_loop E start evs st' of (st'', rs, res) \<Rightarrow> (st'', r # rs, res)))
      | Err e \<Rightarrow> (st, [], Err e)
      | Panic p \<Rightarrow> (st, [], Panic p))"

text \<open>\<open>main\<close> runs the scenarios one after the other, each over its own start time and schedule.\<close>

fun bench_main ::
  "bench_env \<Rightarrow> (scenario \<Rightarrow> u64 \<times> bench_event list) \<Rightarrow> scenario list \<Rightarrow> bench_report list \<times> (string, bool) result" where
  "bench_main E run [] = ([], Ok True)"
| "bench_main E run (sc # scs) =
     (case bench_loop E (fst (run sc)) (snd (run sc)) (bench_stats_new (fst (run sc))) of
        (st, rs, Ok True) \<Rightarrow> (case bench_main E run scs of (rs', res) \<Rightarrow> (rs @ rs', res))
      | (st, rs, res) \<Rightarrow> (rs, res))"

section \<open>Rounding\<close>

lemma f64_scale_bound:
  assumes "0 < q"
  shows "2 powi (f64_scale q + 52) \<le> q"
proof -
  obtain a b where ab: "quotient_of q = (a, b)" by fastforce
  have b: "0 < b" using quotient_of_denom_pos [OF ab] .
  have q: "q = of_int a / of_int b" by (rule quotient_of_div [OF ab])
  with assms b have a: "0 < a" by (simp add: zero_less_divide_iff)
  define k where "k = int (floorlog 2 (nat a)) - int (floorlog 2 (nat b))"
  have la: "2 ^ (floorlog 2 (nat a) - 1) \<le> nat a" "0 < floorlog 2 (nat a)"
    using floorlog_bounds [of "nat a" 2] a by (auto simp: floorlog_def)
  have lb: "nat b < 2 ^ floorlog 2 (nat b)" using floorlog_bounds [of "nat b" 2] b by auto
  have "(2 :: rat) powi (int (floorlog 2 (nat a)) - 1) = 2 ^ (floorlog 2 (nat a) - 1)"
    using la(2) by (simp add: power_int_def nat_diff_distrib)
  also have "\<dots> = of_nat (2 ^ (floorlog 2 (nat a) - 1))" by simp
  also have "\<dots> \<le> of_nat (nat a)" using la(1) by (simp only: of_nat_le_iff)
  also have "\<dots> = of_int a" using a by simp
  finally have 1: "(2 :: rat) powi (int (floorlog 2 (nat a)) - 1) \<le> of_int a" .
  have "(of_int b :: rat) = of_nat (nat b)" using b by simp
  also have "\<dots> \<le> of_nat (2 ^ floorlog 2 (nat b))" using lb by (simp only: of_nat_le_iff)
  also have "\<dots> = 2 powi int (floorlog 2 (nat b))" by simp
  finally have 2: "(of_int b :: rat) \<le> 2 powi int (floorlog 2 (nat b))" .
  have "2 powi (k - 1) = (2 :: rat) powi (int (floorlog 2 (nat a)) - 1) / 2 powi int (floorlog 2 (nat b))"
    by (simp add: k_def power_int_diff)
  also have "\<dots> \<le> of_int a / of_int b" using 1 2 a b by (intro frac_le) simp_all
  finally have "2 powi (k - 1) \<le> q" using q by simp
  then show ?thesis by (auto simp: f64_scale_def ab Let_def k_def [symmetric])
qed

lemma round_half_even_error: "\<bar>of_int (round_half_even x) - x\<bar> \<le> 1 / 2"
proof -
  have "of_int \<lfloor>x\<rfloor> \<le> x" "x < of_int \<lfloor>x\<rfloor> + 1" by linarith+
  then show ?thesis unfolding round_half_even_def Let_def abs_if by (simp split: if_splits, linarith)
qed

text \<open>The relative error of a rounding is at most half of the last bit.\<close>

lemma f64_nearest_error:
  assumes "0 \<le> q"
  shows "\<bar>f64_nearest q - q\<bar> \<le> q / 2 ^ 53"
proof (cases "q = 0")
  case True
  then show ?thesis by (simp add: f64_nearest_def)
next
  case False
  with assms have q: "0 < q" by simp
  let ?u = "2 powi f64_scale q :: rat"
  have "f64_nearest q - q = (of_int (round_half_even (q / ?u)) - q / ?u) * ?u"
    using q by (simp add: f64_nearest_def algebra_simps)
  then have "\<bar>f64_nearest q - q\<bar> \<le> 1 / 2 * ?u"
    using round_half_even_error [of "q / ?u"] by (simp add: abs_mult mult_right_mono)
  moreover have "?u * 2 ^ 52 \<le> q"
    using f64_scale_bound [OF q] by (simp add: power_int_add)
  ultimately show ?thesis by simp
qed

section \<open>The reports, interval by interval\<close>

text \<open>
  The schedule cut at its ticks: for every tick what came before the interval, what came in it, and
  the time of the tick.
\<close>

fun intervals ::
  "bench_event list \<Rightarrow> bench_event list \<Rightarrow> bench_event list \<Rightarrow> (bench_event list \<times> bench_event list \<times> nat) list" where
  "intervals before seen [] = []"
| "intervals before seen (StatsTick t # evs) = (before, seen, t) # intervals (before @ seen) [] evs"
| "intervals before seen (ev # evs) = intervals before (seen @ [ev]) evs"

definition composed :: "bench_event list \<Rightarrow> message list" where
  "composed evs = concat (map (\<lambda>ev. case ev of MessageComposed m \<Rightarrow> [m] | _ \<Rightarrow> []) evs)"

definition new_block :: "u64 \<Rightarrow> block \<Rightarrow> bool" where
  "new_block start b \<longleftrightarrow> (\<exists>h. b_header b = Some h \<and> bh_timestamp h > start)"

definition new_blocks :: "u64 \<Rightarrow> bench_event list \<Rightarrow> block list" where
  "new_blocks start evs =
     concat (map (\<lambda>ev. case ev of BlockFollowed b \<Rightarrow> if new_block start b then [b] else [] | _ \<Rightarrow> []) evs)"

definition block_time :: "block \<Rightarrow> u64" where
  "block_time b = (case b_header b of Some h \<Rightarrow> bh_timestamp h | None \<Rightarrow> 0)"

definition message_time :: "bench_env \<Rightarrow> message \<Rightarrow> u64" where
  "message_time E m =
     (case Option.bind (msg_data_bytes m) (be_decode_data E) of Some d \<Rightarrow> ucast (md_timestamp d) | None \<Rightarrow> 0)"

text \<open>
  For the blocks of an interval: the times since the block before (or the start), and the times from
  the message to its block.
\<close>

definition last_time :: "u64 \<Rightarrow> bench_event list \<Rightarrow> u64" where
  "last_time start evs = last (start # map block_time (new_blocks start evs))"

definition times_between :: "u64 \<Rightarrow> bench_event list \<Rightarrow> bench_event list \<Rightarrow> u64 list" where
  "times_between start before seen =
     (let ts = map block_time (new_blocks start seen) in map2 (-) ts (last_time start before # ts))"

definition confirmation_times :: "bench_env \<Rightarrow> u64 \<Rightarrow> bench_event list \<Rightarrow> u64 list" where
  "confirmation_times E start seen =
     concat (map (\<lambda>b. map (\<lambda>m. block_time b - message_time E m) (block_messages b)) (new_blocks start seen))"

definition f64_mean :: "u64 list \<Rightarrow> rat" where
  "f64_mean xs =
     (if xs = [] then 0 else f64_div (f64_of_nat (\<Sum>x\<leftarrow>xs. unat x)) (f64_of_nat (length xs)))"

definition interval_report :: "bench_env \<Rightarrow> u64 \<Rightarrow> bench_event list \<times> bench_event list \<times> nat \<Rightarrow> bench_report" where
  "interval_report E start i =
     (case i of (before, seen, elapsed) \<Rightarrow>
        \<lparr>br_time_elapsed = elapsed, br_block_count = length (new_blocks start seen),
         br_submitted_msgs_per_sec = f64_div (f64_of_nat (length (composed seen))) (f64_of_nat 10),
         br_confirmed_msgs_per_sec =
           f64_div (f64_of_nat (\<Sum>b\<leftarrow>new_blocks start seen. length (block_messages b))) (f64_of_nat 10),
         br_avg_time_to_confirmation = f64_mean (confirmation_times E start seen),
         br_max_time_to_confirmation = Max (insert 0 (set (confirmation_times E start seen))),
         br_avg_block_time = f64_mean (times_between start before seen),
         br_max_block_time = Max (insert 0 (set (times_between start before seen)))\<rparr>)"

text \<open>The state of the loop in the middle of an interval.\<close>

definition bench_state :: "bench_env \<Rightarrow> u64 \<Rightarrow> bench_event list \<Rightarrow> bench_event list \<Rightarrow> bench_stats \<Rightarrow> bool" where
  "bench_state E start before seen st \<longleftrightarrow>
     bs_block_count st = length (new_blocks start seen) \<and>
     bs_num_messages_submitted st = length (composed seen) \<and>
     bs_num_messages_confirmed st = (\<Sum>b\<leftarrow>new_blocks start seen. length (block_messages b)) \<and>
     bs_time_to_confirmation st = confirmation_times E start seen \<and>
     bs_block_times st = times_between start before seen \<and>
     bs_last_block_time st = last_time start (before @ seen)"

lemma event_snoc:
  "composed (evs @ [MessageComposed m]) = composed evs @ [m]" "composed (evs @ [BlockFollowed b]) = composed evs"
  "new_blocks start (evs @ [MessageComposed m]) = new_blocks start evs"
  "new_blocks start (evs @ [BlockFollowed b]) = new_blocks start evs @ (if new_block start b then [b] else [])"
  "new_blocks start (evs @ evs') = new_blocks start evs @ new_blocks start evs'"
  "new_blocks start [MessageComposed m] = []" "new_blocks start [BlockFollowed b] = (if new_block start b then [b] else [])"
  by (simp_all add: composed_def new_blocks_def)

lemma last_time_append: "last_time start (before @ seen) = last (last_time start before # map block_time (new_blocks start seen))"
  by (simp add: last_time_def event_snoc(5))

lemma zip_shift_snoc: "zip (ts @ [t]) (l # ts @ [t]) = zip ts (l # ts) @ [(t, last (l # ts))]"
proof (induction ts arbitrary: l)
  case (Cons a ts)
  from Cons [of a] show ?case by simp
qed simp

lemma times_between_snoc:
  assumes "new_block start b"
  shows "times_between start before (seen @ [BlockFollowed b]) =
    times_between start before seen @ [block_time b - last_time start (before @ seen)]"
  using assms zip_shift_snoc [of "map block_time (new_blocks start seen)" "block_time b" "last_time start before"]
  by (simp add: times_between_def Let_def event_snoc(4) last_time_append)

lemma i32_succ_Ok: "i32_succ n = Ok m \<longleftrightarrow> m = Suc n \<and> Suc n < 2 ^ 31"
  by (auto simp: i32_succ_def)

lemma u64_sub_Ok: "u64_sub a b = Ok c \<longleftrightarrow> b \<le> a \<and> c = a - b"
  by (auto simp: u64_sub_def)

lemma message_counted:
  assumes "on_bench_message E m st = Ok st'" "bench_state E start before seen st"
  shows "bench_state E start before (seen @ [MessageComposed m]) st'" "bs_iteration st' = bs_iteration st"
proof -
  have "last_time start (before @ seen @ [MessageComposed m]) = last_time start (before @ seen)"
    by (simp add: last_time_def event_snoc)
  with assms show "bench_state E start before (seen @ [MessageComposed m]) st'" "bs_iteration st' = bs_iteration st"
    by (auto simp: on_bench_message_def bind_result_Ok_iff i32_succ_Ok bench_state_def event_snoc
        confirmation_times_def times_between_def)
qed

lemma messages_confirmed:
  assumes "confirm_messages E t ms st = Ok st'"
  shows "st' = st\<lparr>bs_num_messages_confirmed := bs_num_messages_confirmed st + length ms,
    bs_pending_messages := bs_pending_messages st',
    bs_time_to_confirmation := bs_time_to_confirmation st @ map (\<lambda>m. t - message_time E m) ms\<rparr>"
  using assms
proof (induction ms arbitrary: st)
  case (Cons m ms)
  from Cons.prems obtain st1 where s: "confirm_message E t m st = Ok st1" "confirm_messages E t ms st1 = Ok st'"
    by (auto simp: bind_result_Ok_iff)
  then have "st1 = st\<lparr>bs_num_messages_confirmed := Suc (bs_num_messages_confirmed st),
      bs_pending_messages := bs_pending_messages st1,
      bs_time_to_confirmation := bs_time_to_confirmation st @ [t - message_time E m]\<rparr>"
    by (auto simp: confirm_message_def bind_result_Ok_iff i32_succ_Ok u64_sub_Ok message_time_def split: option.splits)
  with Cons.IH [OF s(2)] show ?case by (cases st, cases st1, cases st') simp
qed simp

lemma old_block_ignored:
  assumes "on_bench_block E start b st = Ok st'" "\<not> new_block start b"
  shows "st' = st"
  using assms by (cases "b_header b") (auto simp: on_bench_block_def new_block_def)

lemma new_block_counted:
  assumes "on_bench_block E start b st = Ok st'" "new_block start b" "bench_state E start before seen st"
  shows "bench_state E start before (seen @ [BlockFollowed b]) st'" "bs_iteration st' = bs_iteration st"
proof -
  from assms(2) obtain h where h: "b_header b = Some h" "bh_timestamp h > start" by (auto simp: new_block_def)
  then have t: "bh_timestamp h = block_time b" by (simp add: block_time_def)
  let ?st = "st\<lparr>bs_block_count := Suc (bs_block_count st),
    bs_block_times := bs_block_times st @ [block_time b - bs_last_block_time st], bs_last_block_time := block_time b\<rparr>"
  from h assms have c: "confirm_messages E (block_time b) (block_messages b) ?st = Ok st'"
    by (auto simp: on_bench_block_def Let_def bind_result_Ok_iff i32_succ_Ok u64_sub_Ok t)
  note st' = messages_confirmed [OF c]
  show "bs_iteration st' = bs_iteration st" by (subst st') simp
  have last: "last_time start (before @ seen @ [BlockFollowed b]) = block_time b"
    using assms(2) by (simp add: last_time_def event_snoc)
  from assms(3) show "bench_state E start before (seen @ [BlockFollowed b]) st'"
    by (subst st') (simp add: bench_state_def event_snoc assms(2) confirmation_times_def times_between_snoc last)
qed

lemma old_block_counted:
  assumes "\<not> new_block start b" "bench_state E start before seen st"
  shows "bench_state E start before (seen @ [BlockFollowed b]) st"
proof -
  have "last_time start (before @ seen @ [BlockFollowed b]) = last_time start (before @ seen)"
    using assms(1) by (simp add: last_time_def event_snoc)
  with assms show ?thesis
    by (simp add: bench_state_def event_snoc confirmation_times_def times_between_def)
qed

lemma bench_reset_state: "bench_state E start before seen st \<Longrightarrow> bench_state E start (before @ seen) [] (bench_reset st)"
  by (simp add: bench_state_def bench_reset_def new_blocks_def composed_def confirmation_times_def times_between_def)

lemma u64_avg_mean: "u64_avg xs = Ok a \<Longrightarrow> a = f64_mean xs"
  by (auto simp: u64_avg_def f64_mean_def u64_sum_def Let_def bind_result_Ok_iff split: if_splits)

lemma u64_max_Max: "u64_max xs = Max (insert 0 (set xs))"
proof (cases "xs = []")
  case False
  have "foldr max xs 0 = Max (insert 0 (set xs))"
    by (induction xs) (simp_all add: insert_commute [of 0])
  with False show ?thesis by (simp add: u64_max_def)
qed (simp add: u64_max_def)

lemma tick_reported:
  assumes "bench_report_of elapsed st = Ok r" "bench_state E start before seen st"
  shows "r = interval_report E start (before, seen, elapsed)"
  using assms
  by (auto simp: bench_report_of_def bind_result_Ok_iff STATS_CALCULATION_INTERVAL_def bench_state_def interval_report_def
      u64_max_Max dest: u64_avg_mean)

lemma bench_loop_reports:
  assumes "bench_loop E start evs st = (st', rs, Ok finished)" "bench_state E start before seen st"
    "bs_iteration st \<le> NUM_ITERATIONS"
  shows "rs = map (interval_report E start) (take (Suc (NUM_ITERATIONS - bs_iteration st)) (intervals before seen evs)) \<and>
    (finished \<longleftrightarrow> NUM_ITERATIONS - bs_iteration st < length (intervals before seen evs))"
  using assms
proof (induction E start evs st arbitrary: before seen st' rs finished rule: bench_loop.induct)
  case (2 E start m evs st)
  then obtain st1 where s: "on_bench_message E m st = Ok st1" by (auto split: result.splits)
  from "2.prems"(1) s have l: "bench_loop E start evs st1 = (st', rs, Ok finished)" by simp
  from "2.IH" [OF s l message_counted(1) [OF s "2.prems"(2)]] message_counted(2) [OF s "2.prems"(2)] "2.prems"(3)
  show ?case by simp
next
  case (3 E start b evs st)
  then obtain st1 where s: "on_bench_block E start b st = Ok st1" by (auto split: result.splits)
  have "bench_state E start before (seen @ [BlockFollowed b]) st1" "bs_iteration st1 = bs_iteration st"
    using new_block_counted [OF s _ "3.prems"(2)] old_block_ignored [OF s] old_block_counted [OF _ "3.prems"(2), of b]
    by (cases "new_block start b", simp_all)+
  moreover from "3.prems"(1) s have "bench_loop E start evs st1 = (st', rs, Ok finished)" by simp
  ultimately show ?case using "3.IH" [OF s] "3.prems"(3) by simp
next
  case (4 E start elapsed evs st)
  then obtain r where r: "bench_report_of elapsed st = Ok r" by (auto split: result.splits)
  note report = tick_reported [OF r "4.prems"(2)]
  show ?case
  proof (cases "bs_iteration st = NUM_ITERATIONS")
    case True
    with 4 r have "rs = [r]" finished by (auto simp: bench_reset_def)
    with True report show ?thesis by simp
  next
    case False
    with 4 r obtain rs1 where rs: "bench_loop E start evs (bench_reset st) = (st', rs1, Ok finished)" "rs = r # rs1"
      by (auto simp: bench_reset_def Let_def split: prod.splits if_splits)
    have it: "bs_iteration (bench_reset st) = Suc (bs_iteration st)" "bs_iteration st < NUM_ITERATIONS"
      using False "4.prems"(3) by (simp_all add: bench_reset_def)
    with "4.IH" [OF r refl _ rs(1) bench_reset_state [OF "4.prems"(2)]]
    have "rs1 = map (interval_report E start)
        (take (Suc (NUM_ITERATIONS - Suc (bs_iteration st))) (intervals (before @ seen) [] evs)) \<and>
      (finished \<longleftrightarrow> NUM_ITERATIONS - Suc (bs_iteration st) < length (intervals (before @ seen) [] evs))" by simp
    with rs(2) report it(2) show ?thesis by (auto simp: Suc_diff_Suc)
  qed
qed simp

lemma bench_state_new: "bench_state E start [] [] (bench_stats_new start)"
  by (simp add: bench_state_def bench_stats_new_def new_blocks_def composed_def confirmation_times_def times_between_def
      last_time_def)

end
