(* ===== verification/Gossip_Loop.thy ===== *)
theory Gossip_Loop
  imports Snapchain_Node
begin

text \<open>
  The gossip task of \<open>network/gossip.rs\<close>: its creation (dialling the bootstrap peers, subscribing,
  listening) and its loop, which publishes the events of the actors and hands the messages of peers
  to the system channel.  The swarm is a record of what was asked of it; whether it accepts a
  request is a parameter.  The answer to a publication may depend on the swarm and on the call, so it
  can be refused as a duplicate or for lack of peers.
\<close>

section \<open>Creation\<close>

record gossip_config =
  gc_address :: string
  gc_bootstrap_peers :: string

definition gossip_config_default :: gossip_config where
  "gossip_config_default = \<lparr>gc_address = ''/ip4/127.0.0.1/udp/3382/quic-v1'', gc_bootstrap_peers = ''''\<rparr>"

record swarm =
  sw_dialed :: "string list"
  sw_topics :: "string list"
  sw_listening :: "string list"
  sw_published :: "(string \<times> bytes) list"

record swarm_env =
  sw_build :: "string + unit"
  sw_parse_addr :: "string \<Rightarrow> string + unit"
  sw_dial :: "string \<Rightarrow> bool"
  sw_subscribe :: "string \<Rightarrow> string + unit"
  sw_listen_on :: "string \<Rightarrow> string + unit"
  sw_publish :: "nat \<Rightarrow> swarm \<Rightarrow> string \<Rightarrow> bytes \<Rightarrow> bool"

definition GOSSIP_TOPIC :: string where
  "GOSSIP_TOPIC = ''test-net''"

text \<open>The channel of events is the sender and the number of events received from it so far.\<close>

record 'r snapchain_gossip =
  sg_swarm :: swarm
  sg_tx :: "'r gossip_event sender"
  sg_received :: nat
  sg_system_tx :: "'r consensus_msg sender"

text \<open>An address that does not parse ends the start, a peer that cannot be dialled does not.\<close>

fun dial_peers :: "swarm_env \<Rightarrow> string list \<Rightarrow> swarm \<Rightarrow> (string, swarm) result" where
  "dial_peers W [] sw = Ok sw"
| "dial_peers W (addr # addrs) sw =
     (case sw_parse_addr W addr of
        Inl e \<Rightarrow> Err e
      | Inr _ \<Rightarrow> dial_peers W addrs (if sw_dial W addr then sw\<lparr>sw_dialed := sw_dialed sw @ [addr]\<rparr> else sw))"

definition gossip_create ::
  "swarm_env \<Rightarrow> gossip_config \<Rightarrow> 'r consensus_msg sender \<Rightarrow> (string, 'r snapchain_gossip) result" where
  "gossip_create W config system_tx =
     (case sw_build W of
        Inl e \<Rightarrow> Err e
      | Inr _ \<Rightarrow>
          bind_result (dial_peers W (gossip_bootstrap_addrs (gc_bootstrap_peers config))
              \<lparr>sw_dialed = [], sw_topics = [], sw_listening = [], sw_published = []\<rparr>) (\<lambda>sw.
            (case sw_subscribe W GOSSIP_TOPIC of
               Inl e \<Rightarrow> Err e
             | Inr _ \<Rightarrow>
                 (case sw_parse_addr W (gc_address config) of
                    Inl e \<Rightarrow> Err e
                  | Inr _ \<Rightarrow>
                      (case sw_listen_on W (gc_address config) of
                         Inl e \<Rightarrow> Err e
                       | Inr _ \<Rightarrow>
                           Ok \<lparr>sg_swarm = sw\<lparr>sw_topics := [GOSSIP_TOPIC], sw_listening := [gc_address config]\<rparr>,
                               sg_tx = \<lparr>snd_open = True, snd_sent = []\<rparr>, sg_received = 0,
                               sg_system_tx = system_tx\<rparr>)))))"

section \<open>The loop\<close>

datatype swarm_event =
    ConnectionEstablished
  | ConnectionClosed
  | PeerSubscribed
  | PeerUnsubscribed
  | NewListenAddr
  | PeerMessage bytes
  | OtherSwarmEvent

datatype gossip_turn = SwarmTurn swarm_event | EventTurn

definition gossip_publish :: "swarm_env \<Rightarrow> bytes \<Rightarrow> 'r snapchain_gossip \<Rightarrow> 'r snapchain_gossip" where
  "gossip_publish W message self =
     (if sw_publish W (sg_received self) (sg_swarm self) GOSSIP_TOPIC message
      then self\<lparr>sg_swarm := (sg_swarm self)\<lparr>sw_published := sw_published (sg_swarm self) @ [(GOSSIP_TOPIC, message)]\<rparr>\<rparr>
      else self)"

definition gossip_deliver :: "'r consensus_msg \<Rightarrow> 'r snapchain_gossip \<Rightarrow> 'r snapchain_gossip" where
  "gossip_deliver msg self =
     (if snd_open (sg_system_tx self) then self\<lparr>sg_system_tx := sender_send msg (sg_system_tx self)\<rparr> else self)"

text \<open>One turn of \<open>select!\<close>; a turn for an event is only taken when one is waiting.\<close>

definition gossip_step ::
  "'r round_ops \<Rightarrow> gossip_env \<Rightarrow> swarm_env \<Rightarrow> gossip_turn \<Rightarrow> 'r snapchain_gossip \<Rightarrow> ('e, 'r snapchain_gossip) result" where
  "gossip_step R G W turn self =
     (case turn of
        SwarmTurn (PeerMessage data) \<Rightarrow>
          bind_result (gossip_in R G data) (\<lambda>m. Ok (case m of None \<Rightarrow> self | Some msg \<Rightarrow> gossip_deliver msg self))
      | SwarmTurn _ \<Rightarrow> Ok self
      | EventTurn \<Rightarrow>
          if sg_received self < length (snd_sent (sg_tx self))
          then Ok (gossip_publish W (gossip_out R G (snd_sent (sg_tx self) ! sg_received self))
                     (self\<lparr>sg_received := Suc (sg_received self)\<rparr>))
          else Ok self)"

fun gossip_start ::
  "'r round_ops \<Rightarrow> gossip_env \<Rightarrow> swarm_env \<Rightarrow> gossip_turn list \<Rightarrow> 'r snapchain_gossip \<Rightarrow> ('e, 'r snapchain_gossip) result" where
  "gossip_start R G W [] self = Ok self"
| "gossip_start R G W (turn # turns) self =
     bind_result (gossip_step R G W turn self) (\<lambda>self1. gossip_start R G W turns self1)"

section \<open>What is broadcast is published, what is received is delivered\<close>

lemma gossip_create_ok:
  assumes "gossip_create W config tx = Ok self"
  shows "sw_topics (sg_swarm self) = [GOSSIP_TOPIC] \<and> sw_listening (sg_swarm self) = [gc_address config] \<and>
    snd_open (sg_tx self) \<and> sg_system_tx self = tx"
  using assms
  by (cases "sw_subscribe W GOSSIP_TOPIC"; cases "sw_parse_addr W (gc_address config)";
      cases "sw_listen_on W (gc_address config)"; cases "sw_build W")
    (auto simp: gossip_create_def bind_result_Ok_iff)

text \<open>The events the swarm accepts, given what it has published; a refused event is logged and dropped.\<close>

definition swarm_published :: "bytes \<Rightarrow> swarm \<Rightarrow> swarm" where
  "swarm_published message sw = sw\<lparr>sw_published := sw_published sw @ [(GOSSIP_TOPIC, message)]\<rparr>"

fun accepted_events ::
  "'r round_ops \<Rightarrow> gossip_env \<Rightarrow> swarm_env \<Rightarrow> nat \<Rightarrow> swarm \<Rightarrow> 'r gossip_event list \<Rightarrow> 'r gossip_event list" where
  "accepted_events R G W i sw [] = []"
| "accepted_events R G W i sw (ev # evs) =
     (if sw_publish W (Suc i) sw GOSSIP_TOPIC (gossip_out R G ev)
      then ev # accepted_events R G W (Suc i) (swarm_published (gossip_out R G ev) sw) evs
      else accepted_events R G W (Suc i) sw evs)"

lemma accepted_events_subset: "set (accepted_events R G W i sw evs) \<subseteq> set evs"
  by (induction evs arbitrary: i sw) auto

text \<open>The turns for events publish the accepted ones among the waiting events, in order.\<close>

lemma gossip_start_events:
  assumes "sg_received self + length evs = length (snd_sent (sg_tx self))"
    and "drop (sg_received self) (snd_sent (sg_tx self)) = evs"
  shows "\<exists>self'. (gossip_start R G W (replicate (length evs) EventTurn) self :: ('e, 'r snapchain_gossip) result) = Ok self' \<and>
    sg_received self' = length (snd_sent (sg_tx self)) \<and>
    sw_published (sg_swarm self') = sw_published (sg_swarm self) @ map (\<lambda>ev. (GOSSIP_TOPIC, gossip_out R G ev))
      (accepted_events R G W (sg_received self) (sg_swarm self) evs)"
  using assms
proof (induction evs arbitrary: self)
  case (Cons ev evs)
  then have lt: "sg_received self < length (snd_sent (sg_tx self))" by simp
  with Cons.prems(2) have ev: "snd_sent (sg_tx self) ! sg_received self = ev"
    "drop (Suc (sg_received self)) (snd_sent (sg_tx self)) = evs" by (simp_all add: Cons_nth_drop_Suc [symmetric])
  let ?self = "gossip_publish W (gossip_out R G ev) (self\<lparr>sg_received := Suc (sg_received self)\<rparr>)"
  have f: "sg_received ?self = Suc (sg_received self)" "sg_tx ?self = sg_tx self"
    "sg_swarm ?self = (if sw_publish W (Suc (sg_received self)) (sg_swarm self) GOSSIP_TOPIC (gossip_out R G ev)
       then swarm_published (gossip_out R G ev) (sg_swarm self) else sg_swarm self)"
    by (simp_all add: gossip_publish_def swarm_published_def)
  from Cons.IH [of ?self] Cons.prems ev f show ?case using lt
    by (auto simp: gossip_step_def swarm_published_def)
qed simp

lemma gossip_start_messages:
  assumes "snd_open (sg_system_tx self)" "\<And>b. b \<in> set data \<Longrightarrow> \<exists>m. gossip_in R G b = (Ok m :: ('e, 'r consensus_msg option) result)"
  shows "(gossip_start R G W (map (\<lambda>b. SwarmTurn (PeerMessage b)) data) self :: ('e, 'r snapchain_gossip) result) =
    Ok (self\<lparr>sg_system_tx := (sg_system_tx self)\<lparr>snd_sent := snd_sent (sg_system_tx self) @
      List.map_filter (\<lambda>b. case gossip_in R G b of (Ok m :: ('e, 'r consensus_msg option) result) \<Rightarrow> m | _ \<Rightarrow> None) data\<rparr>\<rparr>)"
  using assms
proof (induction data arbitrary: self)
  case Nil
  then show ?case by (simp add: List.map_filter_simps)
next
  case (Cons b data)
  from Cons.prems(2) [of b] obtain m where m: "gossip_in R G b = (Ok m :: ('e, 'r consensus_msg option) result)" by auto
  with Cons.IH [of "case m of None \<Rightarrow> self | Some msg \<Rightarrow> gossip_deliver msg self"] Cons.prems show ?case
    by (cases m) (auto simp: gossip_step_def gossip_deliver_def sender_send_def List.map_filter_simps)
qed

end
