(* ===== verification/Fname_Fetcher.thy ===== *)
theory Fname_Fetcher
  imports Consensus_Facts
begin

text \<open>
  \<open>connectors/fname/mod.rs\<close>: the client that reads the transfers of fnames from the name server.
  The server is a parameter: what it answers to the \<open>n\<close>-th request for a URL, an error or a page of
  transfers.  Reading one batch always ends, whatever the server answers, because every accepted
  page moves the position up; against a server that serves pages of a log in the order of its ids the
  client collects exactly the entries between its bounds.
\<close>

section \<open>The client\<close>

record fname_config =
  fc_start_from :: u64
  fc_stop_at :: u64
  fc_url :: string
  fc_disable :: bool

definition fname_config_default :: fname_config where
  "fname_config_default =
     \<lparr>fc_start_from = 0, fc_stop_at = 200, fc_url = ''https://fnames.farcaster.xyz/transfers'', fc_disable = False\<rparr>"

record transfer =
  tr_id :: u64
  tr_timestamp :: u64
  tr_username :: string
  tr_owner :: string
  tr_from :: u64
  tr_to :: u64
  tr_user_signature :: string
  tr_server_signature :: string

datatype fetch_error =
    NonSequentialIds (nsi_position: u64) (nsi_id: u64)
  | NoNewIDs
  | Stop
  | Reqwest string

record fetcher =
  fe_position :: u64
  fe_transfers :: "transfer list"
  fe_cfg :: fname_config

type_synonym name_server = "nat \<Rightarrow> string \<Rightarrow> string + transfer list"

definition fetcher_new :: "fname_config \<Rightarrow> fetcher" where
  "fetcher_new cfg = \<lparr>fe_position = fc_start_from cfg, fe_transfers = [], fe_cfg = cfg\<rparr>"

definition transfers_url :: "fname_config \<Rightarrow> u64 \<Rightarrow> string" where
  "transfers_url cfg position = fc_url cfg @ ''?from_id='' @ dec_digits (unat position)"

fun accept_transfers :: "transfer list \<Rightarrow> fetcher \<Rightarrow> fetcher \<times> (fetch_error, unit) result" where
  "accept_transfers [] self = (self, Ok ())"
| "accept_transfers (t # ts) self =
     (if tr_id t \<le> fe_position self then (self, Err (NonSequentialIds (fe_position self) (tr_id t)))
      else if tr_id t > fc_stop_at (fe_cfg self) then (self, Err Stop)
      else accept_transfers ts (self\<lparr>fe_position := tr_id t, fe_transfers := fe_transfers self @ [t]\<rparr>))"

lemma accept_transfers_position: "fe_position self \<le> fe_position (fst (accept_transfers ts self))"
proof (induction ts self rule: accept_transfers.induct)
  case (2 t ts self)
  show ?case
  proof (cases "tr_id t \<le> fe_position self \<or> fc_stop_at (fe_cfg self) < tr_id t")
    case True
    then show ?thesis by auto
  next
    case False
    with 2 have "tr_id t \<le> fe_position (fst (accept_transfers (t # ts) self))" by simp
    with False show ?thesis by auto
  qed
qed simp

lemma accept_transfers_progress:
  assumes "accept_transfers (t # ts) self = (self', Ok u)"
  shows "fe_position self < fe_position self'"
proof -
  from assms have t: "fe_position self < tr_id t"
    "accept_transfers ts (self\<lparr>fe_position := tr_id t, fe_transfers := fe_transfers self @ [t]\<rparr>) = (self', Ok u)"
    by (auto split: if_splits)
  from accept_transfers_position [of "self\<lparr>fe_position := tr_id t, fe_transfers := fe_transfers self @ [t]\<rparr>" ts] t
  show ?thesis by simp
qed

lemma accept_transfers_measure:
  assumes "(self', Ok u) = accept_transfers (t # ts) self"
  shows "2 ^ 64 - unat (fe_position self') < 2 ^ 64 - unat (fe_position self)"
  using accept_transfers_progress [OF assms [symmetric]] unsigned_less [of "fe_position self'", where ?'a = nat]
  by (simp add: word_less_nat_alt)

text \<open>\<open>n\<close> counts the requests made before; the count is returned for the next call.\<close>

function fetch :: "name_server \<Rightarrow> nat \<Rightarrow> fetcher \<Rightarrow> nat \<times> fetcher \<times> (fetch_error, unit) result" where
  "fetch http n self =
     (case http n (transfers_url (fe_cfg self) (fe_position self)) of
        Inl e \<Rightarrow> (Suc n, self, Err (Reqwest e))
      | Inr [] \<Rightarrow> (Suc n, self, Ok ())
      | Inr (t # ts) \<Rightarrow>
          (case accept_transfers (t # ts) self of
             (self', Ok _) \<Rightarrow> fetch http (Suc n) self'
           | (self', Err e) \<Rightarrow> (Suc n, self', Err e)
           | (self', Panic m) \<Rightarrow> (Suc n, self', Panic m)))"
  by pat_completeness auto

termination fetch
  by (relation "measure (\<lambda>(http, n, self). 2 ^ 64 - unat (fe_position self))")
    (simp_all del: accept_transfers.simps add: accept_transfers_measure [simplified])

declare fetch.simps [simp del]

text \<open>\<open>run\<close> returns only on \<open>Stop\<close>; otherwise it sleeps and starts the next of the rounds looked at.\<close>

primrec fetcher_run :: "nat \<Rightarrow> name_server \<Rightarrow> nat \<Rightarrow> fetcher \<Rightarrow> nat \<times> fetcher \<times> bool" where
  "fetcher_run 0 http n self = (n, self, False)"
| "fetcher_run (Suc rounds) http n self =
     (case fetch http n self of
        (n', self', Err Stop) \<Rightarrow> (n', self', True)
      | (n', self', _) \<Rightarrow> fetcher_run rounds http n' self')"

section \<open>Whatever the server answers\<close>

definition fetcher_ok :: "fname_config \<Rightarrow> fetcher \<Rightarrow> bool" where
  "fetcher_ok cfg self \<longleftrightarrow> fe_cfg self = cfg \<and> sorted_wrt (<) (map tr_id (fe_transfers self)) \<and>
     (\<forall>t \<in> set (fe_transfers self). fc_start_from cfg < tr_id t \<and> tr_id t \<le> fc_stop_at cfg \<and> tr_id t \<le> fe_position self) \<and>
     fe_position self = (if fe_transfers self = [] then fc_start_from cfg else tr_id (last (fe_transfers self)))"

lemma fetcher_ok_new: "fetcher_ok cfg (fetcher_new cfg)"
  by (simp add: fetcher_ok_def fetcher_new_def)

lemma fetcher_ok_start: "fetcher_ok cfg self \<Longrightarrow> fc_start_from cfg \<le> fe_position self"
  by (auto simp: fetcher_ok_def dest: last_in_set)

lemma accept_transfers_ok: "fetcher_ok cfg self \<Longrightarrow> fetcher_ok cfg (fst (accept_transfers ts self))"
proof (induction ts self rule: accept_transfers.induct)
  case (2 t ts self)
  show ?case
  proof (cases "tr_id t \<le> fe_position self \<or> fc_stop_at (fe_cfg self) < tr_id t")
    case True
    with "2.prems" show ?thesis by auto
  next
    case False
    have "fetcher_ok cfg (self\<lparr>fe_position := tr_id t, fe_transfers := fe_transfers self @ [t]\<rparr>)"
      using "2.prems" False fetcher_ok_start [OF "2.prems"]
      by (fastforce simp: fetcher_ok_def sorted_wrt_append)
    with "2.IH" False show ?thesis by simp
  qed
qed simp

lemma fetch_ok: "fetcher_ok cfg self \<Longrightarrow> fetch http n self = (n', self', r) \<Longrightarrow> fetcher_ok cfg self'"
proof (induction http n self rule: fetch.induct)
  case (1 http n self)
  show ?case
  proof (cases "http n (transfers_url (fe_cfg self) (fe_position self))")
    case (Inr ts)
    then show ?thesis using 1 accept_transfers_ok [OF "1.prems"(1), of ts]
      by (cases ts) (auto simp: fetch.simps [of http n] simp del: accept_transfers.simps
          split: prod.splits result.splits)
  qed (use 1 in \<open>auto simp: fetch.simps [of http n]\<close>)
qed

lemma fetcher_run_ok:
  "fetcher_ok cfg self \<Longrightarrow> fetcher_run rounds http n self = (n', self', stopped) \<Longrightarrow> fetcher_ok cfg self'"
proof (induction rounds arbitrary: n self)
  case (Suc rounds)
  obtain n1 self1 r where f: "fetch http n self = (n1, self1, r)" by (cases "fetch http n self") auto
  with Suc fetch_ok [OF Suc.prems(1) f] show ?case
    by (cases "r = Err Stop") (auto split: result.splits fetch_error.splits)
qed simp

section \<open>A server that serves a log\<close>

text \<open>A request fails or is answered by the next entries of the log, one at least if there is one.\<close>

definition serves :: "name_server \<Rightarrow> fname_config \<Rightarrow> transfer list \<Rightarrow> bool" where
  "serves http cfg log \<longleftrightarrow> sorted_wrt (<) (map tr_id log) \<and>
     (\<forall>n p ts. http n (transfers_url cfg p) = Inr ts \<longrightarrow> (\<exists>k. ts = take (Suc k) (filter (\<lambda>t. p < tr_id t) log)))"

text \<open>Requests for different positions have different URLs.\<close>

lemma dec_digits_value: "foldl (\<lambda>a c. a * 10 + (of_char c - 48)) 0 (dec_digits n) = n"
proof (induction n rule: dec_digits.induct)
  case (1 n)
  then show ?case by (cases "n < 10") (simp_all add: dec_digits.simps [of n])
qed

lemma dec_digits_inject [simp]: "dec_digits m = dec_digits n \<longleftrightarrow> m = n"
  by (metis dec_digits_value)

lemma transfers_url_inject [simp]: "transfers_url cfg p = transfers_url cfg q \<longleftrightarrow> p = q"
  by (simp add: transfers_url_def word_unat_eq_iff)

definition log_between :: "u64 \<Rightarrow> u64 \<Rightarrow> transfer list \<Rightarrow> transfer list" where
  "log_between a b log = filter (\<lambda>t. a < tr_id t \<and> tr_id t \<le> b) log"

lemma log_next:
  assumes "sorted_wrt (<) (map tr_id log)" "filter (\<lambda>t. p < tr_id t) log = t # ts" "a \<le> p"
  shows "filter (\<lambda>s. tr_id t < tr_id s) log = ts" "log_between a (tr_id t) log = log_between a p log @ [t]"
proof -
  from assms(2) obtain us vs where log: "log = us @ t # vs" "\<forall>u \<in> set us. \<not> p < tr_id u" "p < tr_id t"
    "ts = filter (\<lambda>t. p < tr_id t) vs" by (auto simp: filter_eq_Cons_iff)
  with assms(1) have s: "\<forall>u \<in> set us. tr_id u < tr_id t" "\<forall>v \<in> set vs. tr_id t < tr_id v"
    by (auto simp: sorted_wrt_append)
  with log(3) have later: "\<forall>v \<in> set vs. p < tr_id v" by (meson less_trans)
  from s have "filter (\<lambda>s. tr_id t < tr_id s) us = []" "filter (\<lambda>s. tr_id t < tr_id s) vs = vs"
    by (auto simp: filter_empty_conv)
  with log later show "filter (\<lambda>s. tr_id t < tr_id s) log = ts" by simp
  have "filter (\<lambda>s. a < tr_id s \<and> tr_id s \<le> tr_id t) us = filter (\<lambda>s. a < tr_id s \<and> tr_id s \<le> p) us"
    using log(2) s(1) by (auto intro!: filter_cong)
  moreover have "filter (\<lambda>s. a < tr_id s \<and> tr_id s \<le> tr_id t) vs = []"
    "filter (\<lambda>s. a < tr_id s \<and> tr_id s \<le> p) vs = []" using s(2) later by (auto simp: filter_empty_conv)
  ultimately show "log_between a (tr_id t) log = log_between a p log @ [t]"
    using log(1,3) assms(3) by (auto simp: log_between_def)
qed

definition synced :: "transfer list \<Rightarrow> fname_config \<Rightarrow> fetcher \<Rightarrow> bool" where
  "synced log cfg self \<longleftrightarrow> fe_cfg self = cfg \<and> fc_start_from cfg \<le> fe_position self \<and>
     (fe_position self \<le> fc_stop_at cfg \<or> fe_position self = fc_start_from cfg) \<and>
     fe_transfers self = log_between (fc_start_from cfg) (fe_position self) log"

definition log_ends :: "transfer list \<Rightarrow> fetcher \<Rightarrow> bool" where
  "log_ends log self \<longleftrightarrow> (\<exists>t ts. filter (\<lambda>t. fe_position self < tr_id t) log = t # ts \<and> fc_stop_at (fe_cfg self) < tr_id t)"

lemma accept_transfers_log:
  assumes "sorted_wrt (<) (map tr_id log)" "synced log cfg self"
    "filter (\<lambda>t. fe_position self < tr_id t) log = ts @ rest"
    "accept_transfers ts self = (self', r)"
  shows "synced log cfg self' \<and>
    (r = Ok () \<and> filter (\<lambda>t. fe_position self' < tr_id t) log = rest \<or> r = Err Stop \<and> log_ends log self')"
  using assms(2-)
proof (induction ts self rule: accept_transfers.induct)
  case (2 t ts self)
  let ?self1 = "self\<lparr>fe_position := tr_id t, fe_transfers := fe_transfers self @ [t]\<rparr>"
  from "2.prems"(2) have t: "fe_position self < tr_id t" "\<not> tr_id t \<le> fe_position self"
    by (auto simp: filter_eq_Cons_iff)
  show ?case
  proof (cases "fc_stop_at (fe_cfg self) < tr_id t")
    case True
    with 2 t show ?thesis by (auto simp: log_ends_def)
  next
    case False
    note next1 = log_next [OF assms(1) "2.prems"(2) [simplified], of "fc_start_from cfg"]
    from "2.prems"(1) t False next1 have "synced log cfg ?self1" by (auto simp: synced_def)
    with 2 t False next1 show ?thesis by (auto simp: synced_def)
  qed
qed simp

lemma fetch_log:
  assumes "serves http cfg log" "synced log cfg self" "fetch http n self = (n', self', r)"
  shows "synced log cfg self' \<and>
    (r = Ok () \<and> filter (\<lambda>t. fe_position self' < tr_id t) log = [] \<or> r = Err Stop \<and> log_ends log self' \<or>
     (\<exists>e m p. http m (transfers_url cfg p) = Inl e \<and> r = Err (Reqwest e)))"
  using assms
proof (induction http n self rule: fetch.induct)
  case (1 http n self)
  then have cfg: "fe_cfg self = cfg" and sorted: "sorted_wrt (<) (map tr_id log)"
    by (simp_all add: synced_def serves_def)
  show ?case
  proof (cases "http n (transfers_url cfg (fe_position self))")
    case (Inl e)
    with 1 cfg show ?thesis by (auto simp: fetch.simps [of http n])
  next
    case (Inr ts)
    with "1.prems"(1) obtain k where k: "ts = take (Suc k) (filter (\<lambda>t. fe_position self < tr_id t) log)"
      unfolding serves_def by blast
    show ?thesis
    proof (cases ts)
      case Nil
      with 1 cfg Inr k show ?thesis by (auto simp: fetch.simps [of http n])
    next
      case (Cons t ts')
      obtain self1 r1 where a: "accept_transfers (t # ts') self = (self1, r1)" by fastforce
      from k Cons have "filter (\<lambda>t. fe_position self < tr_id t) log =
          (t # ts') @ drop (Suc k) (filter (\<lambda>t. fe_position self < tr_id t) log)" by (metis append_take_drop_id)
      note acc = accept_transfers_log [OF sorted "1.prems"(2) this a]
      from Inr Cons cfg a have f: "fetch http n self =
          (case r1 of Ok _ \<Rightarrow> fetch http (Suc n) self1 | Err e \<Rightarrow> (Suc n, self1, Err e) | Panic m \<Rightarrow> (Suc n, self1, Panic m))"
        by (simp add: fetch.simps [of http n] del: accept_transfers.simps)
      show ?thesis
      proof (cases r1)
        case (Ok u)
        with "1.IH" [OF _ _ a [symmetric]] Inr Cons cfg acc "1.prems"(1,3) f
        show ?thesis by simp
      qed (use acc f "1.prems"(3) in auto)
    qed
  qed
qed

text \<open>Once the log is read to the end, or to the first entry beyond the limit, all entries up to it are there.\<close>

lemma log_done:
  assumes "synced log cfg self" "filter (\<lambda>t. fe_position self < tr_id t) log = []"
  shows "fe_transfers self = log_between (fc_start_from cfg) (fc_stop_at cfg) log \<and>
    \<not> (\<exists>t \<in> set log. fc_start_from cfg < tr_id t \<and> fc_stop_at cfg < tr_id t)"
  using assms
  by (auto simp: synced_def log_between_def filter_empty_conv not_less intro!: filter_cong dest: order_trans)

lemma log_stopped:
  assumes "sorted_wrt (<) (map tr_id log)" "synced log cfg self" "log_ends log self"
  shows "fe_transfers self = log_between (fc_start_from cfg) (fc_stop_at cfg) log \<and>
    (\<exists>t \<in> set log. fc_start_from cfg < tr_id t \<and> fc_stop_at cfg < tr_id t)"
proof -
  from assms(2,3) obtain t ts where t: "filter (\<lambda>t. fe_position self < tr_id t) log = t # ts" "fc_stop_at cfg < tr_id t"
    by (auto simp: log_ends_def synced_def)
  then obtain us vs where log: "log = us @ t # vs" "\<forall>u \<in> set us. \<not> fe_position self < tr_id u" "fe_position self < tr_id t"
    by (auto simp: filter_eq_Cons_iff)
  with assms(1) have s: "\<forall>v \<in> set vs. tr_id t < tr_id v" by (auto simp: sorted_wrt_append)
  have vs: "\<forall>v \<in> set vs. fe_position self < tr_id v \<and> fc_stop_at cfg < tr_id v"
    using s t(2) log(3) by (meson less_trans)
  have le: "fe_position self \<le> fc_stop_at cfg \<or> fe_position self = fc_start_from cfg"
    "fc_start_from cfg \<le> fe_position self"
    using assms(2) by (auto simp: synced_def)
  have "filter (\<lambda>t. fc_start_from cfg < tr_id t \<and> tr_id t \<le> fe_position self) us =
    filter (\<lambda>t. fc_start_from cfg < tr_id t \<and> tr_id t \<le> fc_stop_at cfg) us"
    using le log(2) by (intro filter_cong) (auto simp: not_less dest: order_trans)
  then have "log_between (fc_start_from cfg) (fe_position self) log = log_between (fc_start_from cfg) (fc_stop_at cfg) log"
    using vs log t(2) by (auto simp: log_between_def filter_empty_conv not_le)
  with assms(2) log t(2) le show ?thesis by (auto simp: synced_def)
qed

lemma fetcher_run_log:
  assumes "serves http cfg log" "synced log cfg self" "fetcher_run rounds http n self = (n', self', stopped)"
  shows "synced log cfg self' \<and> (stopped \<longrightarrow> log_ends log self') \<and>
    ((\<forall>m p. \<exists>ts. http m (transfers_url cfg p) = Inr ts) \<longrightarrow> 0 < rounds \<longrightarrow> \<not> stopped \<longrightarrow>
       filter (\<lambda>t. fe_position self' < tr_id t) log = [])"
  using assms(2-)
proof (induction rounds arbitrary: n self)
  case (Suc rounds)
  obtain n1 self1 r where f: "fetch http n self = (n1, self1, r)" by (cases "fetch http n self") auto
  note l = fetch_log [OF assms(1) Suc.prems(1) f]
  show ?case
  proof (cases "r = Err Stop")
    case True
    with l f Suc.prems(2) show ?thesis by auto
  next
    case False
    with Suc.prems(2) f have run: "fetcher_run rounds http n1 self1 = (n', self', stopped)"
      by (auto split: result.splits fetch_error.splits)
    with Suc.IH [of self1 n1] l have "synced log cfg self' \<and> (stopped \<longrightarrow> log_ends log self') \<and>
      ((\<forall>m p. \<exists>ts. http m (transfers_url cfg p) = Inr ts) \<longrightarrow> 0 < rounds \<longrightarrow> \<not> stopped \<longrightarrow>
         filter (\<lambda>t. fe_position self' < tr_id t) log = [])" by blast
    moreover have "filter (\<lambda>t. fe_position self1 < tr_id t) log = []"
      if "\<forall>m p. \<exists>ts. http m (transfers_url cfg p) = Inr ts" using l False that by (metis Inl_Inr_False)
    ultimately show ?thesis using run by (cases rounds) auto
  qed
qed simp

lemma synced_new: "synced log cfg (fetcher_new cfg)"
  by (simp add: synced_def fetcher_new_def log_between_def filter_empty_conv not_le)

end
