(* ===== verification/Onchain_Events.thy ===== *)
theory Onchain_Events
  imports Snap_Prelude
begin

text \<open>
  \<open>connectors/onchain_events/mod.rs\<close>: the subscriber to the logs of the three registries.  The
  provider and what the \<open>sol!\<close> macro generates from the ABI files, the signature hashes and the
  decoders of the events, are parameters.  A \<open>uint256\<close> is a 256-bit word, and its conversion to
  64 bits panics when it does not fit.
\<close>

section \<open>Events\<close>

type_synonym uint256 = "256 word"

definition CHAIN_ID :: u64 where
  "CHAIN_ID = 10"

definition RENT_EXPIRY_IN_SECONDS :: u64 where
  "RENT_EXPIRY_IN_SECONDS = 365 * 24 * 60 * 60"

definition STORAGE_REGISTRY :: bytes where
  "STORAGE_REGISTRY = [0x00, 0x00, 0x00, 0x00, 0xfc, 0xce, 0x7f, 0x93, 0x8e, 0x7a, 0xe6, 0xd3, 0xc3, 0x35, 0xbd, 0x6a,
     0x1a, 0x7c, 0x59, 0x3d]"

definition KEY_REGISTRY :: bytes where
  "KEY_REGISTRY = [0x00, 0x00, 0x00, 0x00, 0xfc, 0x12, 0x37, 0x82, 0x4f, 0xb7, 0x47, 0xab, 0xde, 0x0f, 0xf1, 0x89,
     0x90, 0xe5, 0x9b, 0x7e]"

definition ID_REGISTRY :: bytes where
  "ID_REGISTRY = [0x00, 0x00, 0x00, 0x00, 0xfc, 0x6c, 0x5f, 0x01, 0xfc, 0x30, 0x15, 0x19, 0x99, 0x38, 0x7b, 0xb9,
     0x9a, 0x9f, 0x48, 0x9b]"

record onchain_config =
  oc_rpc_url :: string

definition onchain_config_default :: onchain_config where
  "onchain_config_default = \<lparr>oc_rpc_url = ''''\<rparr>"

datatype subscribe_error =
    UnableToSubscribe string
  | UnableToParseUrl string
  | UnableToParseLog string
  | EmptyRpcUrl
  | LogMissingBlockHash
  | LogMissingLogIndex
  | LogMissingBlockNumber
  | LogMissingTxIndex
  | UnableToFindBlockByHash

datatype signer_event =
    SignerAdd (se_key: bytes) (se_key_type: u32) (se_metadata: bytes) (se_metadata_type: u8)
  | SignerRemove bytes
  | AdminReset bytes

datatype id_register_event =
    Register (ir_to: bytes) (ir_recovery_address: bytes)
  | Transfer (it_from: bytes) (it_to: bytes)
  | ChangeRecovery bytes

record storage_rent_event =
  sre_payer :: bytes
  sre_units :: u64
  sre_expiry :: u64

datatype event_type =
    Signer signer_event
  | SignerMigrated u64
  | IdRegister id_register_event
  | StorageRent storage_rent_event

record onchain_event =
  oev_chain_id :: u64
  oev_block_number :: u64
  oev_block_hash :: bytes
  oev_block_timestamp :: u64
  oev_log_index :: u64
  oev_fid :: u64
  oev_tx_index :: u64
  oev_version :: u64
  oev_event_type :: event_type

text \<open>A log as the provider delivers it; \<open>lg_data\<close> stands for the topics and data the decoders read.\<close>

record chain_log =
  lg_block_hash :: "bytes option"
  lg_log_index :: "u64 option"
  lg_block_number :: "u64 option"
  lg_transaction_index :: "u64 option"
  lg_topic0 :: "bytes option"
  lg_data :: bytes

record onchain_env =
  oe_parse_url :: "string \<Rightarrow> string + unit"
  oe_get_block_by_hash :: "nat \<Rightarrow> bytes \<Rightarrow> string + u64 option"
  oe_rent_hash :: bytes
  oe_register_hash :: bytes
  oe_transfer_hash :: bytes
  oe_change_recovery_hash :: bytes
  oe_add_hash :: bytes
  oe_remove_hash :: bytes
  oe_admin_reset_hash :: bytes
  oe_migrated_hash :: bytes
  oe_rent :: "chain_log \<Rightarrow> string + bytes \<times> uint256 \<times> uint256"
  oe_register :: "chain_log \<Rightarrow> string + bytes \<times> uint256 \<times> bytes"
  oe_transfer :: "chain_log \<Rightarrow> string + bytes \<times> bytes \<times> uint256"
  oe_change_recovery :: "chain_log \<Rightarrow> string + uint256 \<times> bytes"
  oe_add :: "chain_log \<Rightarrow> string + uint256 \<times> u32 \<times> bytes \<times> u8 \<times> bytes"
  oe_remove :: "chain_log \<Rightarrow> string + uint256 \<times> bytes"
  oe_admin_reset :: "chain_log \<Rightarrow> string + uint256 \<times> bytes"
  oe_migrated :: "chain_log \<Rightarrow> string + uint256"

record subscriber =
  su_onchain_events_by_block :: "(u64 \<times> onchain_event list) list"

section \<open>The subscriber\<close>

definition subscriber_new :: "onchain_env \<Rightarrow> onchain_config \<Rightarrow> (subscribe_error, subscriber) result" where
  "subscriber_new E config =
     (if oc_rpc_url config = [] then Err EmptyRpcUrl
      else
        (case oe_parse_url E (oc_rpc_url config) of
           Inl e \<Rightarrow> Err (UnableToParseUrl e)
         | Inr _ \<Rightarrow> Ok \<lparr>su_onchain_events_by_block = []\<rparr>))"

definition add_onchain_event ::
  "u64 \<Rightarrow> u64 \<Rightarrow> bytes \<Rightarrow> u64 \<Rightarrow> u64 \<Rightarrow> u64 \<Rightarrow> event_type \<Rightarrow> subscriber \<Rightarrow> subscriber" where
  "add_onchain_event fid block_number block_hash block_timestamp log_index tx_index ty self =
     (let event = \<lparr>oev_chain_id = CHAIN_ID, oev_block_number = block_number, oev_block_hash = block_hash,
                   oev_block_timestamp = block_timestamp, oev_log_index = log_index, oev_fid = fid,
                   oev_tx_index = tx_index, oev_version = 0, oev_event_type = ty\<rparr>;
          m = su_onchain_events_by_block self
      in case hm_get m block_number of
           None \<Rightarrow> self\<lparr>su_onchain_events_by_block := hm_insert block_number [event] m\<rparr>
         | Some events \<Rightarrow> self\<lparr>su_onchain_events_by_block := hm_insert block_number (events @ [event]) m\<rparr>)"

definition get_block_timestamp :: "onchain_env \<Rightarrow> nat \<Rightarrow> bytes \<Rightarrow> (subscribe_error, u64) result" where
  "get_block_timestamp E n block_hash =
     (case oe_get_block_by_hash E n block_hash of
        Inl e \<Rightarrow> Err (UnableToSubscribe e)
      | Inr None \<Rightarrow> Err UnableToFindBlockByHash
      | Inr (Some timestamp) \<Rightarrow> Ok timestamp)"

definition uint_to_u64 :: "uint256 \<Rightarrow> (subscribe_error, u64) result" where
  "uint_to_u64 w = (if w < 2 ^ 64 then Ok (ucast w) else Panic ''Uint conversion error'')"

definition ok_or :: "'e \<Rightarrow> 'a option \<Rightarrow> ('e, 'a) result" where
  "ok_or e x = (case x of None \<Rightarrow> Err e | Some a \<Rightarrow> Ok a)"

definition log_decode :: "string + 'a \<Rightarrow> (subscribe_error, 'a) result" where
  "log_decode r = (case r of Inl e \<Rightarrow> Err (UnableToParseLog e) | Inr a \<Rightarrow> Ok a)"

text \<open>The \<open>match\<close> on the first topic: the fid and the event of a known log.\<close>

definition decode_event ::
  "onchain_env \<Rightarrow> u64 \<Rightarrow> chain_log \<Rightarrow> (subscribe_error, (u64 \<times> event_type) option) result" where
  "decode_event E block_timestamp log =
     (let topic = lg_topic0 log in
      if topic = Some (oe_rent_hash E) then
        bind_result (log_decode (oe_rent E log)) (\<lambda>(payer, fid, units).
        bind_result (uint_to_u64 fid) (\<lambda>fid.
        bind_result (uint_to_u64 units) (\<lambda>units.
          if unat block_timestamp + unat RENT_EXPIRY_IN_SECONDS \<ge> 2 ^ 64 then Panic add_overflow
          else Ok (Some (fid, StorageRent \<lparr>sre_payer = payer, sre_units = units,
                                            sre_expiry = block_timestamp + RENT_EXPIRY_IN_SECONDS\<rparr>)))))
      else if topic = Some (oe_register_hash E) then
        bind_result (log_decode (oe_register E log)) (\<lambda>(to, id, recovery).
        bind_result (uint_to_u64 id) (\<lambda>fid. Ok (Some (fid, IdRegister (Register to recovery)))))
      else if topic = Some (oe_transfer_hash E) then
        bind_result (log_decode (oe_transfer E log)) (\<lambda>(from_addr, to, id).
        bind_result (uint_to_u64 id) (\<lambda>fid. Ok (Some (fid, IdRegister (Transfer from_addr to)))))
      else if topic = Some (oe_change_recovery_hash E) then
        bind_result (log_decode (oe_change_recovery E log)) (\<lambda>(id, recovery).
        bind_result (uint_to_u64 id) (\<lambda>fid. Ok (Some (fid, IdRegister (ChangeRecovery recovery)))))
      else if topic = Some (oe_add_hash E) then
        bind_result (log_decode (oe_add E log)) (\<lambda>(fid, keytype, key_bytes, metadatatype, metadata).
        bind_result (uint_to_u64 fid) (\<lambda>fid. Ok (Some (fid, Signer (SignerAdd key_bytes keytype metadata metadatatype)))))
      else if topic = Some (oe_remove_hash E) then
        bind_result (log_decode (oe_remove E log)) (\<lambda>(fid, key_bytes).
        bind_result (uint_to_u64 fid) (\<lambda>fid. Ok (Some (fid, Signer (SignerRemove key_bytes)))))
      else if topic = Some (oe_admin_reset_hash E) then
        bind_result (log_decode (oe_admin_reset E log)) (\<lambda>(fid, key_bytes).
        bind_result (uint_to_u64 fid) (\<lambda>fid. Ok (Some (fid, Signer (AdminReset key_bytes)))))
      else if topic = Some (oe_migrated_hash E) then
        bind_result (log_decode (oe_migrated E log)) (\<lambda>at.
        bind_result (uint_to_u64 at) (\<lambda>migrated_at. Ok (Some (0, SignerMigrated migrated_at))))
      else Ok None)"

text \<open>\<open>n\<close> numbers the requests to the provider, one per log.\<close>

definition process_log ::
  "onchain_env \<Rightarrow> nat \<Rightarrow> chain_log \<Rightarrow> subscriber \<Rightarrow> subscriber \<times> (subscribe_error, unit) result" where
  "process_log E n event self =
     (case bind_result (ok_or LogMissingBlockHash (lg_block_hash event)) (\<lambda>block_hash.
           bind_result (ok_or LogMissingLogIndex (lg_log_index event)) (\<lambda>log_index.
           bind_result (ok_or LogMissingBlockNumber (lg_block_number event)) (\<lambda>block_number.
           bind_result (ok_or LogMissingTxIndex (lg_transaction_index event)) (\<lambda>tx_index.
           bind_result (get_block_timestamp E n block_hash) (\<lambda>block_timestamp.
           bind_result (decode_event E block_timestamp event) (\<lambda>d.
             Ok (case d of
                   None \<Rightarrow> self
                 | Some (fid, ty) \<Rightarrow>
                     add_onchain_event fid block_number block_hash block_timestamp log_index tx_index ty self))))))) of
        Ok self' \<Rightarrow> (self', Ok ())
      | Err e \<Rightarrow> (self, Err e)
      | Panic m \<Rightarrow> (self, Panic m))"

fun process_logs :: "onchain_env \<Rightarrow> nat \<Rightarrow> chain_log list \<Rightarrow> subscriber \<Rightarrow> subscriber \<times> (subscribe_error, unit) result" where
  "process_logs E n [] self = (self, Ok ())"
| "process_logs E n (event # events) self =
     (case process_log E n event self of
        (self', Panic m) \<Rightarrow> (self', Panic m)
      | (self', _) \<Rightarrow> process_logs E (Suc n) events self')"

text \<open>
  \<open>watch\<close> is what the provider answers to a subscription to the logs of some addresses: an error or
  the batches of the stream.
\<close>

definition subscriber_run ::
  "onchain_env \<Rightarrow> (bytes list \<Rightarrow> string + chain_log list list) \<Rightarrow> subscriber \<Rightarrow> subscriber \<times> (subscribe_error, unit) result" where
  "subscriber_run E watch self =
     (case watch [STORAGE_REGISTRY, KEY_REGISTRY, ID_REGISTRY] of
        Inl e \<Rightarrow> (self, Err (UnableToSubscribe e))
      | Inr stream \<Rightarrow> process_logs E 0 (concat stream) self)"

section \<open>Events by block\<close>

text \<open>
  What a log announces, as a table from the hash of the signature to the fid and the event, with the
  fields of the log written out; a log that does not decode announces nothing.  Integers are taken
  modulo \<open>2 ^ 64\<close> here: the subscriber panics when one does not fit.
\<close>

definition announced :: "string + 'a \<Rightarrow> ('a \<Rightarrow> uint256 \<times> event_type) \<Rightarrow> (u64 \<times> event_type) option" where
  "announced decoded f = (case decoded of Inl e \<Rightarrow> None | Inr a \<Rightarrow> Some (ucast (fst (f a)), snd (f a)))"

definition event_table :: "onchain_env \<Rightarrow> u64 \<Rightarrow> chain_log \<Rightarrow> (bytes \<times> (u64 \<times> event_type) option) list" where
  "event_table E timestamp log =
     [(oe_rent_hash E, announced (oe_rent E log) (\<lambda>(payer, fid, units).
         (fid, StorageRent \<lparr>sre_payer = payer, sre_units = ucast units, sre_expiry = timestamp + 31536000\<rparr>))),
      (oe_register_hash E, announced (oe_register E log) (\<lambda>(to, fid, recovery).
         (fid, IdRegister (Register to recovery)))),
      (oe_transfer_hash E, announced (oe_transfer E log) (\<lambda>(sender, to, fid).
         (fid, IdRegister (Transfer sender to)))),
      (oe_change_recovery_hash E, announced (oe_change_recovery E log) (\<lambda>(fid, recovery).
         (fid, IdRegister (ChangeRecovery recovery)))),
      (oe_add_hash E, announced (oe_add E log) (\<lambda>(fid, key_type, key, metadata_type, metadata).
         (fid, Signer (SignerAdd key key_type metadata metadata_type)))),
      (oe_remove_hash E, announced (oe_remove E log) (\<lambda>(fid, key). (fid, Signer (SignerRemove key)))),
      (oe_admin_reset_hash E, announced (oe_admin_reset E log) (\<lambda>(fid, key). (fid, Signer (AdminReset key)))),
      (oe_migrated_hash E, announced (oe_migrated E log) (\<lambda>at. (0, SignerMigrated (ucast at))))]"

definition known_event :: "onchain_env \<Rightarrow> u64 \<Rightarrow> chain_log \<Rightarrow> (u64 \<times> event_type) option" where
  "known_event E timestamp log =
     Option.bind (lg_topic0 log) (\<lambda>topic. Option.bind (map_of (event_table E timestamp log) topic) (\<lambda>ev. ev))"

text \<open>A branch of the \<open>match\<close> against an entry of the table.\<close>

definition agrees :: "(subscribe_error, 'a option) result \<Rightarrow> 'a option \<Rightarrow> bool" where
  "agrees r x \<longleftrightarrow> (case r of Ok d \<Rightarrow> x = d | Err e \<Rightarrow> x = None | Panic m \<Rightarrow> True)"

lemma agrees_if: "(c \<Longrightarrow> agrees r x) \<Longrightarrow> (\<not> c \<Longrightarrow> agrees r' x') \<Longrightarrow> agrees (if c then r else r') (if c then x else x')"
  by simp

lemma agrees_branch:
  assumes "\<And>a. r = Inr a \<Longrightarrow> agrees (k a) (Some (ucast (fst (f a)), snd (f a)))"
  shows "agrees (bind_result (log_decode r) k) (announced r f)"
  using assms by (cases r) (auto simp: agrees_def log_decode_def announced_def)

lemma agrees_fid:
  "agrees (bind_result (uint_to_u64 w) (\<lambda>fid. Ok (Some (fid, t)))) (Some (ucast w, t))"
  by (simp add: agrees_def uint_to_u64_def)

lemma agrees_rent:
  "agrees (bind_result (uint_to_u64 w) (\<lambda>fid. bind_result (uint_to_u64 u) (\<lambda>units.
       if overflow then Panic add_overflow
       else Ok (Some (fid, StorageRent \<lparr>sre_payer = payer, sre_units = units,
                                         sre_expiry = timestamp + RENT_EXPIRY_IN_SECONDS\<rparr>)))))
     (Some (ucast w, StorageRent \<lparr>sre_payer = payer, sre_units = ucast u, sre_expiry = timestamp + 31536000\<rparr>))"
  by (simp add: agrees_def uint_to_u64_def RENT_EXPIRY_IN_SECONDS_def)

lemma agrees_migrated:
  "agrees (bind_result (uint_to_u64 w) (\<lambda>migrated_at. Ok (Some (0, SignerMigrated migrated_at))))
     (Some (0, SignerMigrated (ucast w)))"
  by (simp add: agrees_def uint_to_u64_def)

lemma known_event_if:
  "known_event E timestamp log =
     (let entry = (\<lambda>i. snd (event_table E timestamp log ! i)); topic = lg_topic0 log in
      if topic = Some (oe_rent_hash E) then entry 0
      else if topic = Some (oe_register_hash E) then entry 1
      else if topic = Some (oe_transfer_hash E) then entry 2
      else if topic = Some (oe_change_recovery_hash E) then entry 3
      else if topic = Some (oe_add_hash E) then entry 4
      else if topic = Some (oe_remove_hash E) then entry 5
      else if topic = Some (oe_admin_reset_hash E) then entry 6
      else if topic = Some (oe_migrated_hash E) then entry 7
      else None)"
  by (cases "lg_topic0 log") (simp_all add: known_event_def event_table_def Let_def)

lemma decode_event_agrees: "agrees (decode_event E timestamp log) (known_event E timestamp log)"
  unfolding decode_event_def known_event_if Let_def
  by (intro agrees_if)
    (auto simp: event_table_def agrees_def [of "Ok None"] intro!: agrees_branch agrees_fid agrees_rent agrees_migrated)

lemma decode_event_known: "decode_event E timestamp log = Ok d \<Longrightarrow> known_event E timestamp log = d"
  using decode_event_agrees [of E timestamp log] by (simp add: agrees_def)

lemma decode_event_unknown: "decode_event E timestamp log = Err e \<Longrightarrow> known_event E timestamp log = None"
  using decode_event_agrees [of E timestamp log] by (simp add: agrees_def)

text \<open>The event of a log that is complete, whose block the provider finds, and that announces one.\<close>

definition event_of_log :: "onchain_env \<Rightarrow> nat \<Rightarrow> chain_log \<Rightarrow> onchain_event option" where
  "event_of_log E n log =
     (case (lg_block_hash log, lg_log_index log, lg_block_number log, lg_transaction_index log) of
        (Some hash, Some index, Some number, Some tx) \<Rightarrow>
          (case oe_get_block_by_hash E n hash of
             Inr (Some timestamp) \<Rightarrow>
               map_option (\<lambda>(fid, ty).
                   \<lparr>oev_chain_id = 10, oev_block_number = number, oev_block_hash = hash,
                    oev_block_timestamp = timestamp, oev_log_index = index, oev_fid = fid,
                    oev_tx_index = tx, oev_version = 0, oev_event_type = ty\<rparr>)
                 (known_event E timestamp log)
           | _ \<Rightarrow> None)
      | _ \<Rightarrow> None)"

fun events_of_logs :: "onchain_env \<Rightarrow> nat \<Rightarrow> chain_log list \<Rightarrow> onchain_event list" where
  "events_of_logs E n [] = []"
| "events_of_logs E n (log # logs) =
     (case event_of_log E n log of None \<Rightarrow> [] | Some e \<Rightarrow> [e]) @ events_of_logs E (Suc n) logs"

definition by_block :: "onchain_event list \<Rightarrow> u64 \<Rightarrow> onchain_event list option" where
  "by_block es b =
     (let here = filter (\<lambda>e. oev_block_number e = b) es in if here = [] then None else Some here)"

definition groups_by_block :: "onchain_event list \<Rightarrow> subscriber \<Rightarrow> bool" where
  "groups_by_block es self \<longleftrightarrow> hm_wf (su_onchain_events_by_block self) \<and>
     (\<forall>b. hm_get (su_onchain_events_by_block self) b = by_block es b)"

lemma groups_by_block_add:
  assumes "groups_by_block es self"
  shows "groups_by_block (es @ [\<lparr>oev_chain_id = CHAIN_ID, oev_block_number = number, oev_block_hash = hash,
      oev_block_timestamp = timestamp, oev_log_index = index, oev_fid = fid, oev_tx_index = tx, oev_version = 0,
      oev_event_type = ty\<rparr>]) (add_onchain_event fid number hash timestamp index tx ty self)"
  using assms
  by (auto simp: groups_by_block_def add_onchain_event_def by_block_def Let_def hm_get_insert hm_wf_insert
      split: option.splits if_splits)

lemma process_log_event:
  assumes "process_log E n log self = (self', r)" "\<nexists>m. r = Panic m"
  shows "self' = (case event_of_log E n log of
      None \<Rightarrow> self
    | Some e \<Rightarrow> add_onchain_event (oev_fid e) (oev_block_number e) (oev_block_hash e) (oev_block_timestamp e)
                   (oev_log_index e) (oev_tx_index e) (oev_event_type e) self)"
  using assms
  by (auto simp: process_log_def event_of_log_def ok_or_def bind_result_def get_block_timestamp_def
      dest: decode_event_known decode_event_unknown
      split: option.splits result.splits sum.splits)

lemma event_of_log_const: "event_of_log E n log = Some e \<Longrightarrow> oev_chain_id e = CHAIN_ID \<and> oev_version e = 0"
  by (auto simp: event_of_log_def CHAIN_ID_def split: option.splits sum.splits)

lemma process_log_groups:
  assumes "groups_by_block es self" "process_log E n log self = (self', r)" "\<nexists>m. r = Panic m"
  shows "groups_by_block (es @ (case event_of_log E n log of None \<Rightarrow> [] | Some e \<Rightarrow> [e])) self'"
proof (cases "event_of_log E n log")
  case None
  with process_log_event [OF assms(2,3)] assms(1) show ?thesis by simp
next
  case (Some e)
  with event_of_log_const [OF Some] have e: "e = \<lparr>oev_chain_id = CHAIN_ID, oev_block_number = oev_block_number e,
      oev_block_hash = oev_block_hash e, oev_block_timestamp = oev_block_timestamp e, oev_log_index = oev_log_index e,
      oev_fid = oev_fid e, oev_tx_index = oev_tx_index e, oev_version = 0, oev_event_type = oev_event_type e\<rparr>" by simp
  have "self' = add_onchain_event (oev_fid e) (oev_block_number e) (oev_block_hash e) (oev_block_timestamp e)
      (oev_log_index e) (oev_tx_index e) (oev_event_type e) self"
    using process_log_event [OF assms(2,3)] Some by simp
  with groups_by_block_add [OF assms(1)] Some e show ?thesis by (metis option.simps(5))
qed

lemma process_logs_groups:
  assumes "groups_by_block es self" "process_logs E n logs self = (self', Ok ())"
  shows "groups_by_block (es @ events_of_logs E n logs) self'"
  using assms
proof (induction E n logs self arbitrary: es rule: process_logs.induct)
  case (2 E n log logs self)
  obtain self1 r where p: "process_log E n log self = (self1, r)" by fastforce
  have g: "groups_by_block (es @ (case event_of_log E n log of None \<Rightarrow> [] | Some e \<Rightarrow> [e])) self1"
    using process_log_groups [OF "2.prems"(1) p] "2.prems"(2) p by (auto split: result.splits)
  show ?case
  proof (cases r)
    case (Ok u)
    with "2.IH"(1) [OF p [symmetric] Ok g] "2.prems"(2) p show ?thesis by simp
  next
    case (Err e)
    with "2.IH"(2) [OF p [symmetric] Err g] "2.prems"(2) p show ?thesis by simp
  qed (use "2.prems"(2) p in simp)
qed simp

lemma process_logs_no_error: "snd (process_logs E n logs self) \<noteq> Err e"
  by (induction E n logs self rule: process_logs.induct) (auto split: prod.splits result.splits)

end
