(* ===== verification/Node_Config.thy ===== *)
theory Node_Config
  imports Gossip_Loop Fname_Fetcher Onchain_Events
begin

text \<open>
  The program around the node: \<open>cfg.rs\<close> (the layers of the configuration), \<open>bin/setup.rs\<close> (the
  configuration files of a local network of four nodes) and \<open>main.rs\<close> (start-up and the main loop).
  The file system, the argument parser, the \<open>figment\<close> library that merges the layers, the sockets
  and the swarm are parameters.
\<close>

section \<open>Configuration\<close>

text \<open>The default private key is freshly generated: an argument here.\<close>

definition consensus_config_default :: "string \<Rightarrow> config" where
  "consensus_config_default key =
     \<lparr>cfg_private_key = key, cfg_shard_ids = ''1'', cfg_propose_value_delay = 250 * 10 ^ 6\<rparr>"

record app_config =
  ac_id :: u32
  ac_log_format :: string
  ac_fnames :: fname_config
  ac_onchain_events :: onchain_config
  ac_consensus :: config
  ac_gossip :: gossip_config
  ac_rpc_address :: string
  ac_rocksdb_dir :: string
  ac_clear_db :: bool

definition app_config_default :: "string \<Rightarrow> app_config" where
  "app_config_default key =
     \<lparr>ac_id = 0, ac_log_format = ''text'', ac_fnames = fname_config_default,
      ac_onchain_events = onchain_config_default, ac_consensus = consensus_config_default key,
      ac_gossip = gossip_config_default, ac_rpc_address = ''0.0.0.0:3383'', ac_rocksdb_dir = ''.rocks'',
      ac_clear_db = False\<rparr>"

record cli_args =
  cli_id :: "u32 option"
  cli_log_format :: "string option"
  cli_config_path :: "string option"
  cli_clear_db :: bool

text \<open>The providers handed to \<open>figment\<close>, each merged over the ones before it.\<close>

datatype config_layer = Defaults app_config | TomlFile string | EnvPrefixed string string

record config_env =
  cv_exists :: "string \<Rightarrow> bool"
  cv_extract :: "config_layer list \<Rightarrow> string + app_config"

definition config_path :: "cli_args \<Rightarrow> string" where
  "config_path args =
     (case (cli_id args, cli_config_path args) of
        (Some i, None) \<Rightarrow> ''nodes/'' @ u32_to_string i @ ''/snapchain.toml''
      | (_, Some path) \<Rightarrow> path
      | (None, None) \<Rightarrow> ''snapchain.toml'')"

definition load_and_merge_config :: "config_env \<Rightarrow> string \<Rightarrow> cli_args \<Rightarrow> (string, app_config) result" where
  "load_and_merge_config F key args =
     (let path = config_path args in
      if \<not> cv_exists F path \<and> cli_config_path args \<noteq> None then Err (''config file not found: '' @ path)
      else
        (let layers = [Defaults (app_config_default key)] @ (if cv_exists F path then [TomlFile path] else []) @
                      [EnvPrefixed ''SNAPCHAIN_'' ''__''] in
         case cv_extract F layers of
           Inl e \<Rightarrow> Err e
         | Inr c \<Rightarrow>
             (let c1 = (case cli_id args of None \<Rightarrow> c | Some i \<Rightarrow> c\<lparr>ac_id := i\<rparr>);
                  c2 = (case cli_log_format args of None \<Rightarrow> c1 | Some f \<Rightarrow> c1\<lparr>ac_log_format := f\<rparr>)
              in Ok (c2\<lparr>ac_clear_db := cli_clear_db args\<rparr>))))"

section \<open>Setting up a local network\<close>

definition setup_nodes :: nat where
  "setup_nodes = 4"

definition setup_rpc_address :: "nat \<Rightarrow> string" where
  "setup_rpc_address i = ''127.0.0.1:'' @ dec_digits (3382 + i)"

definition setup_gossip_address :: "nat \<Rightarrow> string" where
  "setup_gossip_address i = ''/ip4/127.0.0.1/udp/'' @ dec_digits (50050 + i) @ ''/quic-v1''"

definition setup_peers :: "nat \<Rightarrow> string" where
  "setup_peers i = join '','' (map setup_gossip_address (filter (\<lambda>x. x \<noteq> i) [1..<Suc setup_nodes]))"

definition setup_db_dir :: "nat \<Rightarrow> string" where
  "setup_db_dir i = ''nodes/'' @ dec_digits i @ ''/.rocks''"

definition quoted :: "string \<Rightarrow> string" where
  "quoted s = CHR 0x22 # s @ [CHR 0x22]"

text \<open>The lines of the file, after the surrounding white space is trimmed.\<close>

definition setup_config_file :: "nat \<Rightarrow> string \<Rightarrow> string \<Rightarrow> string" where
  "setup_config_file i secret_key delay =
     concat (map (\<lambda>l. l @ [CHR 0x0A])
       [''id = '' @ dec_digits i,
        ''rpc_address='' @ quoted (setup_rpc_address i),
        ''rocksdb_dir='' @ quoted (setup_db_dir i),
        '''',
        ''[gossip]'',
        ''address='' @ quoted (setup_gossip_address i),
        ''bootstrap_peers = '' @ quoted (setup_peers i),
        '''',
        ''[consensus]'',
        ''private_key = '' @ quoted secret_key,
        ''propose_value_delay = '' @ quoted delay])"

text \<open>Every node dials the gossip addresses of all the others, and only these.\<close>

lemma setup_gossip_no_comma: "CHR '','' \<notin> set (setup_gossip_address i)"
  using dec_digits_set [of "CHR '',''" "50050 + i"] by (auto simp: setup_gossip_address_def digit_of_def)

lemma setup_peers_dialled:
  "gossip_bootstrap_addrs (setup_peers i) = map setup_gossip_address (filter (\<lambda>x. x \<noteq> i) [1..<Suc setup_nodes])"
proof -
  have "(if i = 1 then 2 else 1) \<in> set (filter (\<lambda>x. x \<noteq> i) [1..<Suc setup_nodes])" by (simp add: setup_nodes_def)
  then have "map setup_gossip_address (filter (\<lambda>x. x \<noteq> i) [1..<Suc setup_nodes]) \<noteq> []"
    by (metis empty_iff list.map_disc_iff list.set(1))
  then show ?thesis
    unfolding gossip_bootstrap_addrs_def setup_peers_def
    by (intro split_join) (auto simp: setup_gossip_no_comma)
qed

section \<open>Start-up\<close>

text \<open>
  What \<open>main\<close> gets from outside.  \<open>mv_keypair\<close> gives the public key of a private one.
\<close>

record ('r, 'c) main_env =
  mv_remove_dir_all :: "string \<Rightarrow> bool"
  mv_create_dir_all :: "string \<Rightarrow> bool"
  mv_socket_addr :: "string \<Rightarrow> string + unit"
  mv_keypair :: "string \<Rightarrow> bytes option"
  mv_swarm :: swarm_env
  mv_onchain :: onchain_env
  mv_spawn :: "('r, 'c) spawn_env"

record ('r, 'c) main_state =
  ms_node :: "('r, 'c) snapchain_node"
  ms_block_store :: rocksdb
  ms_public_key :: bytes
  ms_config :: app_config
  ms_gossip_tx :: "'r gossip_event sender"
  ms_fetcher :: "fetcher option"
  ms_subscriber :: "subscriber option"
  ms_tick_count :: nat

text \<open>What follows the creation of the gossip task: the connectors and the node.\<close>

definition main_tasks ::
  "('r, 'c) main_env \<Rightarrow> app_config \<Rightarrow> rocksdb \<Rightarrow> bytes \<Rightarrow> 'r gossip_event sender \<Rightarrow> (string, ('r, 'c) main_state) result" where
  "main_tasks V c db public_key gossip_tx =
     (let fetcher = (if fc_disable (ac_fnames c) then None else Some (fetcher_new (ac_fnames c)))
      in bind_result
           (if oc_rpc_url (ac_onchain_events c) = [] then Ok None
            else (case subscriber_new (mv_onchain V) (ac_onchain_events c) of
                    Ok s \<Rightarrow> Ok (Some s)
                  | Err e \<Rightarrow> Err ''SubscribeError''
                  | Panic m \<Rightarrow> Panic m)) (\<lambda>subscriber.
         bind_result
           (snapchain_node_create (mv_spawn V) public_key (ac_consensus c) (Some (ac_rpc_address c)) gossip_tx
              \<lparr>snd_open = True, snd_sent = []\<rparr> db (ac_rocksdb_dir c)) (\<lambda>node.
           if 1 \<notin> set (sn_messages_tx_by_shard node) then Panic unwrap_none
           else Ok \<lparr>ms_node = node, ms_block_store = db, ms_public_key = public_key, ms_config = c,
                    ms_gossip_tx = gossip_tx, ms_fetcher = fetcher, ms_subscriber = subscriber, ms_tick_count = 0\<rparr>)))"

definition main_start :: "('r, 'c) main_env \<Rightarrow> app_config \<Rightarrow> (string, ('r, 'c) main_state option) result" where
  "main_start V c =
     (if ac_log_format c \<noteq> ''text'' \<and> ac_log_format c \<noteq> ''json''
      then Err (''Invalid log format: '' @ ac_log_format c)
      else if ac_id c = 0 then Err ''node id must be specified greater than 0''
      else if ac_clear_db c \<and> \<not> (mv_remove_dir_all V (ac_rocksdb_dir c) \<and> mv_create_dir_all V (ac_rocksdb_dir c))
      then Panic unwrap_err
      else
        (case mv_socket_addr V (ac_rpc_address c) of
           Inl e \<Rightarrow> Err e
         | Inr _ \<Rightarrow>
             (case rocksdb_open (sp_open (mv_spawn V)) (rocksdb_new (ac_rocksdb_dir c @ ''/farcaster'')) of
                (db, r) \<Rightarrow>
                  bind_result (unwrap r) (\<lambda>_.
                    (case mv_keypair V (cfg_private_key (ac_consensus c)) of
                       None \<Rightarrow> Panic unwrap_err
                     | Some public_key \<Rightarrow>
                         (case gossip_create (mv_swarm V) (ac_gossip c) \<lparr>snd_open = True, snd_sent = []\<rparr> of
                            Err _ \<Rightarrow> Ok None
                          | Panic m \<Rightarrow> Panic m
                          | Ok gossip \<Rightarrow>
                              bind_result (main_tasks V c db public_key (sg_tx gossip)) (\<lambda>st. Ok (Some st))))))))"

section \<open>The main loop\<close>

datatype 'r main_event =
    CtrlC
  | ShutdownSignal
  | BlockTick
  | SystemConsensus "'r consensus_msg"

text \<open>A step keeps the loop running or makes \<open>main\<close> return.\<close>

datatype 's main_result =
    Running 's
  | Returned 's "(string, unit) result"

definition main_stop :: "('r, 'c) main_state \<Rightarrow> ('r, 'c) main_state main_result" where
  "main_stop st = Returned (st\<lparr>ms_node := node_stop (ms_node st)\<rparr>) (Ok ())"

text \<open>Every fifth tick registers the node for the shards \<open>0..=num_shards\<close>.\<close>

fun register_shards ::
  "chain_codec \<Rightarrow> rocksdb \<Rightarrow> bytes \<Rightarrow> string \<Rightarrow> u64 \<Rightarrow> nat list \<Rightarrow> 'r gossip_event sender \<Rightarrow>
     'r gossip_event sender \<times> (string, unit) result" where
  "register_shards C db public_key rpc nonce [] tx = (tx, Ok ())"
| "register_shards C db public_key rpc nonce (i # is) tx =
     (case stored_height C db (word_of_nat i) of
        Err e \<Rightarrow> (tx, Err e)
      | Panic m \<Rightarrow> (tx, Panic m)
      | Ok current \<Rightarrow>
          if \<not> snd_open tx then (tx, Err channel_closed)
          else register_shards C db public_key rpc nonce is
                 (sender_send (GossipRegisterValidator
                    \<lparr>rv_validator = Some \<lparr>pv_fid = 0, pv_signer = public_key, pv_rpc_address = rpc,
                                          pv_shard_index = word_of_nat i, pv_current_height = current\<rparr>,
                     rv_nonce = nonce\<rparr>) tx))"

definition register_tick ::
  "chain_codec \<Rightarrow> ('r, 'c) main_state \<Rightarrow> ('r, 'c) main_state main_result" where
  "register_tick C st =
     (if ms_tick_count st + 1 \<ge> 2 ^ 31 then Returned st (Panic add_overflow)
      else
        (let tick = ms_tick_count st + 1;
             st1 = st\<lparr>ms_tick_count := tick\<rparr>;
             c = ms_config st
         in if tick mod 5 \<noteq> 0 then Running st1
            else
              (case config_num_shards (ac_consensus c) of
                 Err e \<Rightarrow> Returned st1 (Err e)
               | Panic m \<Rightarrow> Returned st1 (Panic m)
               | Ok n \<Rightarrow>
                   (case register_shards C (ms_block_store st) (ms_public_key st) (ac_rpc_address c)
                           (word_of_nat tick) [0..<Suc (unat n)] (ms_gossip_tx st1) of
                      (tx, Ok _) \<Rightarrow> Running (st1\<lparr>ms_gossip_tx := tx\<rparr>)
                    | (tx, r) \<Rightarrow> Returned (st1\<lparr>ms_gossip_tx := tx\<rparr>) r))))"

definition main_step ::
  "chain_codec \<Rightarrow> ('r, 'c) main_state \<Rightarrow> 'r main_event \<Rightarrow> ('r, 'c) main_state main_result" where
  "main_step C st ev =
     (case ev of
        CtrlC \<Rightarrow> main_stop st
      | ShutdownSignal \<Rightarrow> main_stop st
      | BlockTick \<Rightarrow> register_tick C st
      | SystemConsensus msg \<Rightarrow>
          (case node_dispatch msg (ms_node st) of
             Ok node \<Rightarrow> Running (st\<lparr>ms_node := node\<rparr>)
           | Err e \<Rightarrow> Returned st (Err e)
           | Panic m \<Rightarrow> Returned st (Panic m)))"

fun main_loop ::
  "chain_codec \<Rightarrow> ('r, 'c) main_state \<Rightarrow> 'r main_event list \<Rightarrow> ('r, 'c) main_state main_result" where
  "main_loop C st [] = Running st"
| "main_loop C st (ev # evs) =
     (case main_step C st ev of Running st' \<Rightarrow> main_loop C st' evs | r \<Rightarrow> r)"

text \<open>A registration round announces the node for each of the shards, in their order.\<close>

lemma register_shards_ok:
  assumes "register_shards C db pk rpc nonce is tx = (tx', Ok ())"
  shows "\<exists>rvs. snd_sent tx' = snd_sent tx @ map GossipRegisterValidator rvs \<and>
    map (\<lambda>rv. map_option pv_shard_index (rv_validator rv)) rvs = map (\<lambda>i. Some (word_of_nat i)) is"
  using assms
proof (induction C db pk rpc nonce "is" tx rule: register_shards.induct)
  case (2 C db pk rpc nonce i "is" tx)
  from "2.prems" obtain current where c: "stored_height C db (word_of_nat i) = (Ok current :: (string, u64) result)"
    "snd_open tx" by (auto split: result.splits if_splits)
  let ?rv = "\<lparr>rv_validator = Some \<lparr>pv_fid = 0, pv_signer = pk, pv_rpc_address = rpc,
      pv_shard_index = word_of_nat i, pv_current_height = current\<rparr>, rv_nonce = nonce\<rparr>"
  from 2 c obtain rvs where "snd_sent tx' = snd_sent (sender_send (GossipRegisterValidator ?rv) tx) @ map GossipRegisterValidator rvs"
    "map (\<lambda>rv. map_option pv_shard_index (rv_validator rv)) rvs = map (\<lambda>i. Some (word_of_nat i)) is" by auto
  with c(2) show ?case by (intro exI [of _ "?rv # rvs"]) (simp add: sender_send_def)
qed simp

section \<open>The loop hands every message to its actor\<close>

definition messages_for :: "u32 \<Rightarrow> 'r main_event list \<Rightarrow> 'r consensus_msg list" where
  "messages_for i evs =
     List.map_filter (\<lambda>ev. case ev of
         SystemConsensus msg \<Rightarrow> if msg_shard_id msg = (Ok i :: (string, u32) result) then Some msg else None
       | _ \<Rightarrow> None) evs"

lemma messages_for_simps [simp]:
  "messages_for i [] = []"
  "messages_for i (BlockTick # evs) = messages_for i evs"
  "messages_for i (SystemConsensus msg # evs) =
     (if msg_shard_id msg = (Ok i :: (string, u32) result) then msg # messages_for i evs else messages_for i evs)"
  by (simp_all add: messages_for_def List.map_filter_simps)

lemma register_tick_node: "register_tick C st = Running st' \<Longrightarrow> ms_node st' = ms_node st"
  by (auto simp: register_tick_def Let_def split: if_splits result.splits prod.splits)

lemma main_loop_forwards:
  assumes "main_loop C st evs = Running st'"
  shows "hm_get (sn_consensus_actors (ms_node st')) i =
    map_option (fold cast_msg (messages_for i evs)) (hm_get (sn_consensus_actors (ms_node st)) i)"
  using assms
proof (induction C st evs rule: main_loop.induct)
  case (1 C st)
  then show ?case by (simp add: option.map_ident)
next
  case (2 C st ev evs)
  then obtain st1 where s: "main_step C st ev = Running st1" "main_loop C st1 evs = Running st'"
    by (auto split: main_result.splits)
  note IH = "2.IH" [OF s]
  show ?case
  proof (cases ev)
    case (SystemConsensus msg)
    with s(1) obtain node where n: "node_dispatch msg (ms_node st) = Ok node" "st1 = st\<lparr>ms_node := node\<rparr>"
      by (auto simp: main_step_def split: result.splits)
    then obtain shard where shard: "msg_shard_id msg = (Ok shard :: (string, u32) result)"
      by (auto simp: node_dispatch_def bind_result_Ok_iff)
    from node_dispatch_ok [OF shard, of "ms_node st"] n(1) have "hm_get (sn_consensus_actors node) i =
        (if i = shard then map_option (cast_msg msg) (hm_get (sn_consensus_actors (ms_node st)) i)
         else hm_get (sn_consensus_actors (ms_node st)) i)" by auto
    with IH n(2) SystemConsensus shard show ?thesis by (auto simp: option.map_comp comp_def)
  next
    case BlockTick
    with s(1) register_tick_node [of C st st1] IH show ?thesis by (simp add: main_step_def)
  qed (use s(1) in \<open>simp_all add: main_step_def main_stop_def\<close>)
qed

lemma main_loop_append:
  "main_loop C st (evs @ evs') =
     (case main_loop C st evs of Running st' \<Rightarrow> main_loop C st' evs' | r \<Rightarrow> r)"
  by (induction C st evs rule: main_loop.induct) (auto split: main_result.splits)

text \<open>An actor that handles the signal to stop cancels its timers.\<close>

lemma post_stop_timers: "ts_timers (cs_timers (consensus_post_stop a)) = []"
  by (simp add: consensus_post_stop_def cancel_all_def abort_fold)

text \<open>A node that starts has an actor for the block shard and for every configured shard, shard 1 among them.\<close>

lemma main_tasks_ok:
  assumes "main_tasks V c db pk tx = Ok st"
  shows "\<exists>ids. config_shard_ids (ac_consensus c) = (Ok ids :: (string, u32 list) result) \<and> 1 \<in> set ids \<and>
    fst ` set (sn_consensus_actors (ms_node st)) = insert 0 (set ids) \<and> ms_gossip_tx st = tx"
proof -
  from assms have n: "snapchain_node_create (mv_spawn V) pk (ac_consensus c) (Some (ac_rpc_address c)) tx
        \<lparr>snd_open = True, snd_sent = []\<rparr> db (ac_rocksdb_dir c) = Ok (ms_node st)"
      "1 \<in> set (sn_messages_tx_by_shard (ms_node st))" "ms_gossip_tx st = tx"
    by (auto simp: main_tasks_def Let_def bind_result_Ok_iff split: if_splits)
  from node_create_ok [OF n(1)] node_create_senders [OF n(1)] n(2,3) show ?thesis by auto
qed

lemma main_start_ok:
  assumes "main_start V c = Ok (Some st)"
  shows "\<exists>ids. config_shard_ids (ac_consensus c) = (Ok ids :: (string, u32 list) result) \<and> 1 \<in> set ids \<and>
    fst ` set (sn_consensus_actors (ms_node st)) = insert 0 (set ids) \<and> snd_open (ms_gossip_tx st) \<and> ac_id c \<noteq> 0"
proof -
  from assms obtain db pk gossip where m: "main_tasks V c db pk (sg_tx gossip) = Ok st" "ac_id c \<noteq> 0"
    "gossip_create (mv_swarm V) (ac_gossip c) \<lparr>snd_open = True, snd_sent = []\<rparr> = Ok gossip"
    by (auto simp: main_start_def bind_result_Ok_iff split: if_splits sum.splits option.splits result.splits prod.splits)
  from main_tasks_ok [OF m(1)] gossip_create_ok [OF m(3)] m(2) show ?thesis by auto
qed

text \<open>Messages whose shard is known are all handed on.\<close>

lemma main_loop_system:
  assumes "\<And>msg. msg \<in> set msgs \<Longrightarrow> \<exists>i. msg_shard_id msg = (Ok i :: (string, u32) result)"
  shows "\<exists>st'. main_loop C st (map SystemConsensus msgs) = Running st'"
  using assms
proof (induction msgs arbitrary: st)
  case (Cons msg msgs)
  from Cons.prems [of msg] obtain i where "msg_shard_id msg = (Ok i :: (string, u32) result)" by auto
  then obtain node where "node_dispatch msg (ms_node st) = (Ok node :: (string, _) result)"
    by (cases "hm_get (sn_consensus_actors (ms_node st)) i") (auto simp: node_dispatch_def)
  with Cons show ?case by (simp add: main_step_def)
qed simp

lemma messages_for_system:
  "messages_for i (map SystemConsensus msgs) = filter (\<lambda>msg. msg_shard_id msg = (Ok i :: (string, u32) result)) msgs"
  by (induction msgs) simp_all

lemma gossip_received_shard:
  assumes "gossip_event_wf G ev" "gossip_received ev = Some msg"
  shows "\<exists>i. msg_shard_id msg = (Ok i :: ('e, u32) result)"
  using assms
  by (cases "(G, ev)" rule: gossip_event_wf.cases) (auto simp: msg_shard_id_def full_proposal_height_def)

section \<open>From a broadcast to the actors of a peer\<close>

text \<open>The messages an actor of the shard gets from a list of broadcasts.\<close>

definition broadcast_for :: "u32 \<Rightarrow> 'r gossip_event list \<Rightarrow> 'r consensus_msg list" where
  "broadcast_for i evs =
     filter (\<lambda>msg. msg_shard_id msg = (Ok i :: (string, u32) result)) (List.map_filter gossip_received evs)"

lemma broadcast_delivered:
  assumes "round_ok R" "\<And>ev. ev \<in> set evs \<Longrightarrow> gossip_event_wf G ev"
    and "\<And>ev. ev \<in> set evs \<Longrightarrow> ge_decode G (ge_encode G (gossip_message_of R ev)) = Ok (gossip_message_of R ev)"
    and "sg_system_tx b = \<lparr>snd_open = True, snd_sent = []\<rparr>"
  shows "\<exists>b' st'. (gossip_start R G W (map (\<lambda>d. SwarmTurn (PeerMessage d)) (map (gossip_out R G) evs)) b ::
        (string, 'r snapchain_gossip) result) = Ok b' \<and>
    main_loop C st (map SystemConsensus (snd_sent (sg_system_tx b'))) = Running st' \<and>
    (\<forall>i. hm_get (sn_consensus_actors (ms_node st')) i =
       map_option (fold cast_msg (broadcast_for i evs)) (hm_get (sn_consensus_actors (ms_node st)) i))"
proof -
  have gi: "gossip_in R G (gossip_out R G ev) = (Ok (gossip_received ev) :: (string, _) result)" if "ev \<in> set evs" for ev
    using that assms(1-3) by (intro gossip_in_out) auto
  then have "List.map_filter (\<lambda>d. case gossip_in R G d of (Ok m :: (string, 'r consensus_msg option) result) \<Rightarrow> m | _ \<Rightarrow> None)
      (map (gossip_out R G) evs) = List.map_filter gossip_received evs"
    by (auto simp: List.map_filter_def filter_map comp_def intro!: map_cong filter_cong)
  moreover have "\<exists>m. gossip_in R G d = (Ok m :: (string, 'r consensus_msg option) result)"
    if "d \<in> set (map (gossip_out R G) evs)" for d
    using that gi by auto
  ultimately obtain b' where b': "(gossip_start R G W (map (\<lambda>d. SwarmTurn (PeerMessage d)) (map (gossip_out R G) evs)) b ::
        (string, 'r snapchain_gossip) result) = Ok b'" "snd_sent (sg_system_tx b') = List.map_filter gossip_received evs"
    using gossip_start_messages [of b "map (gossip_out R G) evs" R G W, where 'e = string] assms(4) by auto
  have "\<exists>i. msg_shard_id msg = (Ok i :: (string, u32) result)" if "msg \<in> set (List.map_filter gossip_received evs)" for msg
    using that assms(2) gossip_received_shard by (fastforce simp: List.map_filter_def)
  with main_loop_system [of "snd_sent (sg_system_tx b')" C st] b'(2) obtain st' where
    m: "main_loop C st (map SystemConsensus (snd_sent (sg_system_tx b'))) = Running st'" by auto
  from b' m main_loop_forwards [OF m] show ?thesis by (auto simp: messages_for_system broadcast_for_def)
qed

end
