(* ===== verification/Sample_Client.thy ===== *)
theory Sample_Client
  imports Sample_Account Client_Tools Collect_Stats Node_Config
begin

text \<open>
  Concrete inputs for the properties of the connectors, the clients and the main loop: a name server
  with a log of three transfers, a provider that knows one kind of log, a store of one block of the
  block shard, a node of two actors, and a run of the benchmark.
\<close>

definition sample_transfer :: "u64 \<Rightarrow> transfer" where
  "sample_transfer i = \<lparr>tr_id = i, tr_timestamp = 0, tr_username = ''alice'', tr_owner = '''', tr_from = 0, tr_to = i,
     tr_user_signature = '''', tr_server_signature = ''''\<rparr>"

definition sample_log :: "transfer list" where
  "sample_log = map sample_transfer [1, 3, 9]"

definition sample_fnames :: fname_config where
  "sample_fnames = fname_config_default\<lparr>fc_stop_at := 5\<rparr>"

text \<open>The server answers with the next two transfers after the position that the URL names.\<close>

definition sample_server :: name_server where
  "sample_server n url =
     Inr (take 2 (filter (\<lambda>t. \<exists>p \<in> set (map word_of_nat [0..<unat (tr_id t)]). url = transfers_url sample_fnames p) sample_log))"

lemma sample_server_answer:
  "sample_server n (transfers_url sample_fnames p) = Inr (take (Suc 1) (filter (\<lambda>t. p < tr_id t) sample_log))"
proof -
  have "p \<in> word_of_nat ` {0..<unat i} \<longleftrightarrow> p < i" for i :: u64
  proof
    assume "p < i"
    then have "p = word_of_nat (unat p)" "unat p \<in> {0..<unat i}" by (simp_all add: word_less_nat_alt)
    then show "p \<in> word_of_nat ` {0..<unat i}" by blast
  next
    assume "p \<in> word_of_nat ` {0..<unat i}"
    then obtain j where "p = word_of_nat j" "j < unat i" by auto
    moreover from this have "j < 2 ^ 64" using unsigned_less [of i, where ?'a = nat] by simp
    ultimately show "p < i" by (simp add: word_less_nat_alt unat_word_of_nat)
  qed
  then show ?thesis by (simp add: sample_server_def numeral_2_eq_2)
qed

lemma sample_serves: "serves sample_server sample_fnames sample_log"
proof -
  have "sorted_wrt (<) (map tr_id sample_log)" by (simp add: sample_log_def sample_transfer_def)
  then show ?thesis using sample_server_answer unfolding serves_def by (metis sum.inject(2))
qed

lemma sample_log_facts:
  "log_between (fc_start_from sample_fnames) (fc_stop_at sample_fnames) sample_log = [sample_transfer 1, sample_transfer 3]"
  "\<exists>t \<in> set sample_log. fc_start_from sample_fnames < tr_id t \<and> fc_stop_at sample_fnames < tr_id t"
  by (simp_all add: log_between_def sample_log_def sample_transfer_def sample_fnames_def fname_config_default_def)

section \<open>A provider of logs\<close>

definition sample_onchain :: onchain_env where
  "sample_onchain = \<lparr>oe_parse_url = (\<lambda>_. Inr ()), oe_get_block_by_hash = (\<lambda>_ _. Inr (Some 1000)),
     oe_rent_hash = [1], oe_register_hash = [2], oe_transfer_hash = [3], oe_change_recovery_hash = [4],
     oe_add_hash = [5], oe_remove_hash = [6], oe_admin_reset_hash = [7], oe_migrated_hash = [8],
     oe_rent = (\<lambda>_. Inl ''rent''), oe_register = (\<lambda>l. Inr (lg_data l, 42, [])),
     oe_transfer = (\<lambda>_. Inl ''transfer''), oe_change_recovery = (\<lambda>_. Inl ''recovery''), oe_add = (\<lambda>_. Inl ''add''),
     oe_remove = (\<lambda>_. Inl ''remove''), oe_admin_reset = (\<lambda>_. Inl ''reset''), oe_migrated = (\<lambda>_. Inl ''migrated'')\<rparr>"

definition sample_chain_log :: "u64 \<Rightarrow> u8 \<Rightarrow> chain_log" where
  "sample_chain_log number topic = \<lparr>lg_block_hash = Some [9], lg_log_index = Some 0, lg_block_number = Some number,
     lg_transaction_index = Some 0, lg_topic0 = Some [topic], lg_data = [topic]\<rparr>"

definition sample_event :: "u64 \<Rightarrow> onchain_event" where
  "sample_event number = \<lparr>oev_chain_id = CHAIN_ID, oev_block_number = number, oev_block_hash = [9],
     oev_block_timestamp = 1000, oev_log_index = 0, oev_fid = 42, oev_tx_index = 0, oev_version = 0,
     oev_event_type = IdRegister (Register [2] [])\<rparr>"

lemma sample_log_events:
  "event_of_log sample_onchain n (sample_chain_log number 2) = Some (sample_event number)"
  "event_of_log sample_onchain n (sample_chain_log number 1) = None"
  by (simp_all add: event_of_log_def sample_chain_log_def sample_onchain_def sample_event_def known_event_def
      event_table_def announced_def CHAIN_ID_def)

section \<open>A chain of one block\<close>

definition sample_first_block :: block where
  "sample_first_block = sample_block\<lparr>b_header := Some \<lparr>bh_height = Some (height_new 0 1), bh_timestamp = 0, bh_version = 1,
     bh_chain_id = 1, bh_validators_hash = [], bh_shard_headers_hash = [], bh_parent_hash = []\<rparr>\<rparr>"

definition sample_first_codec :: chain_codec where
  "sample_first_codec = sample_chain\<lparr>cc_block_decode := (\<lambda>_. Ok sample_first_block)\<rparr>"

definition sample_first_db :: rocksdb where
  "sample_first_db = sample_db\<lparr>rdb_db := Some (sample_tdb\<lparr>tdb_entries := [(make_block_key 0 1, [4])]\<rparr>)\<rparr>"

lemma sample_holds_chain: "holds_chain sample_first_codec [sample_first_block] sample_first_db 1"
proof -
  have "db_healthy sample_first_db" "blocks_indexed sample_first_codec sample_first_db"
    by (simp_all add: db_healthy_def sample_first_db_def sample_db_def sample_tdb_def kv_wf_def blocks_indexed_def
        db_entries_def sample_first_codec_def sample_first_block_def block_height_of_def height_new_def)
  moreover have "1 \<le> unat n \<and> unat n \<le> 1 \<longleftrightarrow> n = 1" for n :: u64
    by (auto simp: word_unat_eq_iff)
  moreover have "make_block_key 0 n = make_block_key 0 1 \<longleftrightarrow> n = 1" for n
    using block_index.key_inj by (auto dest: injD [of _ "(0, n)" "(0, 1)"])
  ultimately show ?thesis
    by (simp add: holds_chain_def db_view_def db_entries_def sample_first_db_def sample_first_codec_def)
qed

section \<open>A running node\<close>

definition sample_main :: "(i64, height) main_state" where
  "sample_main = \<lparr>ms_node = \<lparr>sn_consensus_actors = [(0, sample_state), (1, sample_state)], sn_messages_tx_by_shard = [1],
       sn_address = sample_address, sn_stop_signals = []\<rparr>, ms_block_store = sample_db, ms_public_key = replicate 32 7,
     ms_config = app_config_default [], ms_gossip_tx = \<lparr>snd_open = True, snd_sent = []\<rparr>, ms_fetcher = None,
     ms_subscriber = None, ms_tick_count = 0\<rparr>"

lemma sample_main_step:
  "main_loop sample_chain sample_main [BlockTick, SystemConsensus (StartHeight sample_height)] =
     Running (sample_main\<lparr>ms_tick_count := 1, ms_node :=
       \<lparr>sn_consensus_actors = [(0, sample_state), (1, cast_msg (StartHeight sample_height) sample_state)],
        sn_messages_tx_by_shard = [1], sn_address = sample_address, sn_stop_signals = []\<rparr>\<rparr>)"
  by (simp add: main_step_def register_tick_def sample_main_def Let_def node_dispatch_def msg_shard_id_def
      sample_height_def height_new_def)

text \<open>A swarm that refuses to publish the same message twice.\<close>

definition sample_swarm :: swarm_env where
  "sample_swarm = \<lparr>sw_build = Inr (), sw_parse_addr = (\<lambda>_. Inr ()), sw_dial = (\<lambda>_. True), sw_subscribe = (\<lambda>_. Inr ()),
     sw_listen_on = (\<lambda>_. Inr ()), sw_publish = (\<lambda>i sw topic m. (topic, m) \<notin> set (sw_published sw))\<rparr>"

definition sample_broadcast :: "i64 gossip_event" where
  "sample_broadcast = BroadcastSignedVote (sample_vote, [8])"

text \<open>A codec that knows the message of the broadcast.\<close>

definition sample_gossip_env :: gossip_env where
  "sample_gossip_env = \<lparr>ge_encode = (\<lambda>_. [1]),
     ge_decode = (\<lambda>_. Ok (gossip_message_of sample_rounds sample_broadcast)), ge_public_key_ok = (\<lambda>_. True)\<rparr>"

definition sample_gossip :: "i64 gossip_event list \<Rightarrow> i64 snapchain_gossip" where
  "sample_gossip evs = \<lparr>sg_swarm = \<lparr>sw_dialed = [], sw_topics = [GOSSIP_TOPIC], sw_listening = [], sw_published = []\<rparr>,
     sg_tx = \<lparr>snd_open = True, snd_sent = evs\<rparr>, sg_received = 0, sg_system_tx = \<lparr>snd_open = True, snd_sent = []\<rparr>\<rparr>"

section \<open>A benchmark\<close>

definition sample_bench :: bench_env where
  "sample_bench = \<lparr>be_hex = map (\<lambda>b. char_of (unat b)), be_decode_data = (\<lambda>_. msg_data sample_cast)\<rparr>"

definition sample_bench_block :: block where
  "sample_bench_block =
     \<lparr>b_header = Some \<lparr>bh_height = Some (height_new 0 1), bh_timestamp = 110, bh_version = 1, bh_chain_id = 1,
        bh_validators_hash = [], bh_shard_headers_hash = [], bh_parent_hash = []\<rparr>, b_hash = [4],
      b_shard_chunks = [\<lparr>sc_header = None, sc_hash = [], sc_transactions =
        [\<lparr>tx_fid = 7, tx_user_messages = [sample_cast\<lparr>msg_data_bytes := Some [0]\<rparr>], tx_system_messages = [],
          tx_account_root = []\<rparr>], sc_votes = None\<rparr>], b_validators = None, b_votes = None\<rparr>"

lemma sample_bench_new: "new_block 100 sample_bench_block" "length (block_messages sample_bench_block) = Suc 0"
  by (simp_all add: new_block_def sample_bench_block_def block_messages_def)

lemma sample_bench_runs:
  "\<exists>st rs. bench_loop sample_bench 100 [MessageComposed sample_cast, StatsTick 0, BlockFollowed sample_bench_block, StatsTick 10]
     (bench_stats_new 100) = (st, rs, Ok False)"
  by (simp add: on_bench_message_def on_bench_block_def bench_stats_new_def i32_succ_def u64_sub_def sample_bench_block_def
      block_messages_def confirm_message_def sample_bench_def bench_report_of_def u64_avg_def u64_sum_def bench_reset_def
      NUM_ITERATIONS_def sample_messages Let_def)

end
