(* ===== verification/Js_Bindings.thy ===== *)
theory Js_Bindings
  imports Complex_Main "HOL-Library.Log_Nat" Account_Stores Name_Registry Merkle_Trie Consensus
begin

text \<open>
  The JavaScript interface of the account stores (the \<open>neon\<close> bindings): conversion of values
  (\<open>storage/store/account/utils.rs\<close>), the event handler (\<open>store_event_handler.rs\<close>) and the operations
  of \<open>Store\<close> (\<open>store.rs\<close>).  Boxed objects are references into a heap, so that stores that share a
  database or an event handler share it here.  A binding runs on the JavaScript thread and returns a
  value, throws, panics, or returns a promise together with the task that will settle it: a closure
  for the JavaScript thread, or a job for the thread pool.  A job is one step: the reads and the
  commit of a merge are not interleaved with those of another.
\<close>

section \<open>Values\<close>

text \<open>A finite double is a rational number.\<close>

datatype js_number = JsFinite rat | JsInfinity | JsNegInfinity | JsNaN

datatype js_value =
    JsUndefined
  | JsNull
  | JsBoolean bool
  | JsNumber js_number
  | JsString string
  | JsBuffer bytes
  | JsArray "js_value list"
  | JsObject "(string \<times> js_value) list"
  | JsFunction
  | JsBoxDb nat
  | JsBoxHandler nat
  | JsBoxStore nat
  | JsBoxTrie nat

datatype js_error = JsTypeError string | JsError string

fun as_boolean :: "js_value \<Rightarrow> bool option" where
  "as_boolean (JsBoolean b) = Some b"
| "as_boolean _ = None"

fun as_number :: "js_value \<Rightarrow> js_number option" where
  "as_number (JsNumber n) = Some n"
| "as_number _ = None"

fun as_string :: "js_value \<Rightarrow> string option" where
  "as_string (JsString s) = Some s"
| "as_string _ = None"

fun as_buffer :: "js_value \<Rightarrow> bytes option" where
  "as_buffer (JsBuffer b) = Some b"
| "as_buffer _ = None"

fun as_array :: "js_value \<Rightarrow> js_value list option" where
  "as_array (JsArray vs) = Some vs"
| "as_array _ = None"

fun as_box_db :: "js_value \<Rightarrow> nat option" where
  "as_box_db (JsBoxDb i) = Some i"
| "as_box_db _ = None"

fun as_box_handler :: "js_value \<Rightarrow> nat option" where
  "as_box_handler (JsBoxHandler i) = Some i"
| "as_box_handler _ = None"

fun as_box_store :: "js_value \<Rightarrow> nat option" where
  "as_box_store (JsBoxStore i) = Some i"
| "as_box_store _ = None"

fun as_box_trie :: "js_value \<Rightarrow> nat option" where
  "as_box_trie (JsBoxTrie i) = Some i"
| "as_box_trie _ = None"

text \<open>An object with its properties; arrays and buffers are objects too, and inherit \<open>reverse\<close>.\<close>

fun as_object :: "js_value \<Rightarrow> (string \<times> js_value) list option" where
  "as_object (JsObject ps) = Some ps"
| "as_object (JsArray _) = Some [(''reverse'', JsFunction)]"
| "as_object (JsBuffer _) = Some [(''reverse'', JsFunction)]"
| "as_object JsFunction = Some []"
| "as_object _ = None"

text \<open>\<open>as u32\<close> and the like on a double: towards zero, saturating, zero for a NaN.\<close>

definition js_trunc :: "rat \<Rightarrow> int" where
  "js_trunc x = (if x < 0 then \<lceil>x\<rceil> else \<lfloor>x\<rfloor>)"

definition js_saturate :: "int \<Rightarrow> int \<Rightarrow> js_number \<Rightarrow> int" where
  "js_saturate lo hi n =
     (case n of
        JsFinite x \<Rightarrow> max lo (min hi (js_trunc x))
      | JsInfinity \<Rightarrow> hi
      | JsNegInfinity \<Rightarrow> lo
      | JsNaN \<Rightarrow> 0)"

definition js_as_u8 :: "js_number \<Rightarrow> u8" where
  "js_as_u8 n = word_of_int (js_saturate 0 (2 ^ 8 - 1) n)"

definition js_as_u32 :: "js_number \<Rightarrow> u32" where
  "js_as_u32 n = word_of_int (js_saturate 0 (2 ^ 32 - 1) n)"

definition js_as_i32 :: "js_number \<Rightarrow> i32" where
  "js_as_i32 n = word_of_int (js_saturate (- (2 ^ 31)) (2 ^ 31 - 1) n)"

definition js_as_u64 :: "js_number \<Rightarrow> u64" where
  "js_as_u64 n = word_of_int (js_saturate 0 (2 ^ 64 - 1) n)"

definition js_as_usize :: "js_number \<Rightarrow> nat" where
  "js_as_usize n = nat (js_saturate 0 (2 ^ 64 - 1) n)"

text \<open>\<open>as f64\<close> of an unsigned integer: to 53 significant bits, nearest, ties to even.\<close>

definition f64_round :: "nat \<Rightarrow> nat" where
  "f64_round n =
     (let e = floorlog 2 n - 53; q = n div 2 ^ e; r = n mod 2 ^ e
      in if 2 * r < 2 ^ e \<or> 2 * r = 2 ^ e \<and> even q then q * 2 ^ e else (q + 1) * 2 ^ e)"

definition js_number_of_nat :: "nat \<Rightarrow> js_value" where
  "js_number_of_nat n = JsNumber (JsFinite (of_nat (f64_round n)))"

section \<open>The context of a call\<close>

record js_cx =
  cx_this :: js_value
  cx_args :: "js_value list"

definition downcast_or_throw :: "(js_value \<Rightarrow> 'a option) \<Rightarrow> js_value \<Rightarrow> (js_error, 'a) result" where
  "downcast_or_throw as_type v =
     (case as_type v of Some a \<Rightarrow> Ok a | None \<Rightarrow> Err (JsTypeError ''failed to downcast''))"

definition argument_opt :: "js_cx \<Rightarrow> nat \<Rightarrow> js_value option" where
  "argument_opt cx i = (if i < length (cx_args cx) then Some (cx_args cx ! i) else None)"

definition argument :: "(js_value \<Rightarrow> 'a option) \<Rightarrow> js_cx \<Rightarrow> nat \<Rightarrow> (js_error, 'a) result" where
  "argument as_type cx i =
     (case argument_opt cx i of
        None \<Rightarrow> Err (JsTypeError ''not enough arguments'')
      | Some v \<Rightarrow> downcast_or_throw as_type v)"

text \<open>The reading of an optional number that several bindings spell out.\<close>

definition number_opt :: "js_cx \<Rightarrow> nat \<Rightarrow> js_number option" where
  "number_opt cx i = (case argument_opt cx i of None \<Rightarrow> None | Some v \<Rightarrow> as_number v)"

definition get_opt ::
  "(js_value \<Rightarrow> 'a option) \<Rightarrow> (string \<times> js_value) list \<Rightarrow> string \<Rightarrow> (js_error, 'a option) result" where
  "get_opt as_type ps name =
     (case map_of ps name of
        None \<Rightarrow> Ok None
      | Some JsUndefined \<Rightarrow> Ok None
      | Some v \<Rightarrow> bind_result (downcast_or_throw as_type v) (\<lambda>a. Ok (Some a)))"

definition get_property ::
  "(js_value \<Rightarrow> 'a option) \<Rightarrow> (string \<times> js_value) list \<Rightarrow> string \<Rightarrow> (js_error, 'a) result" where
  "get_property as_type ps name =
     downcast_or_throw as_type (case map_of ps name of None \<Rightarrow> JsUndefined | Some v \<Rightarrow> v)"

section \<open>utils.rs\<close>

definition hub_error_to_js_throw :: "hub_error \<Rightarrow> (js_error, 'a) result" where
  "hub_error_to_js_throw e = Err (JsError (he_code e @ ''/'' @ he_message e))"

definition encode_messages_to_js_object :: "messages_page \<Rightarrow> js_value" where
  "encode_messages_to_js_object p =
     JsObject [(''messageBytes'', JsArray (map JsBuffer (mp_messages_bytes p))),
       (''nextPageToken'', (case mp_next_page_token p of Some t \<Rightarrow> JsBuffer t | None \<Rightarrow> JsUndefined))]"

fun encode_node_metadata_to_js_object :: "node_metadata \<Rightarrow> js_value" where
  "encode_node_metadata_to_js_object (NodeMetadata pfx num hash children) =
     JsObject [(''prefix'', JsBuffer pfx), (''numMessages'', js_number_of_nat num), (''hash'', JsString hash),
       (''childrenKeys'', JsArray (map (\<lambda>c. js_number_of_nat (unat (fst c))) children)),
       (''childrenValues'', JsArray (map (\<lambda>c. encode_node_metadata_to_js_object (snd c)) children))]"

definition get_page_options :: "js_cx \<Rightarrow> nat \<Rightarrow> (js_error, page_options) result" where
  "get_page_options cx i =
     bind_result (argument as_object cx i) (\<lambda>ps.
     bind_result (get_opt as_number ps ''pageSize'') (\<lambda>size.
     bind_result (get_opt as_buffer ps ''pageToken'') (\<lambda>token.
     bind_result (get_opt as_boolean ps ''reverse'') (\<lambda>rev.
       Ok \<lparr>page_size = map_option js_as_usize size,
           page_token = (case token of None \<Rightarrow> None | Some t \<Rightarrow> if t = [] then None else Some t),
           page_reverse = (case rev of None \<Rightarrow> False | Some b \<Rightarrow> b)\<rparr>))))"

record js_iterator_options =
  jio_reverse :: bool
  jio_gte :: "bytes option"
  jio_gt :: "bytes option"
  jio_lt :: bytes

definition js_get_iterator_options :: "js_cx \<Rightarrow> nat \<Rightarrow> (js_error, js_iterator_options) result" where
  "js_get_iterator_options cx i =
     bind_result (argument as_object cx i) (\<lambda>ps.
     bind_result (get_opt as_boolean ps ''reverse'') (\<lambda>rev.
     bind_result (get_opt as_buffer ps ''gte'') (\<lambda>gte.
     bind_result (get_opt as_buffer ps ''gt'') (\<lambda>gt.
     bind_result (get_property as_buffer ps ''lt'') (\<lambda>lt.
       Ok \<lparr>jio_reverse = (case rev of None \<Rightarrow> False | Some b \<Rightarrow> b), jio_gte = gte, jio_gt = gt, jio_lt = lt\<rparr>)))))"

definition get_store :: "js_cx \<Rightarrow> (js_error, nat) result" where
  "get_store cx = downcast_or_throw as_box_store (cx_this cx)"

definition get_db :: "js_cx \<Rightarrow> (js_error, nat) result" where
  "get_db cx = downcast_or_throw as_box_db (cx_this cx)"

definition get_merkle_trie :: "js_cx \<Rightarrow> (js_error, nat) result" where
  "get_merkle_trie cx = downcast_or_throw as_box_trie (cx_this cx)"

section \<open>Boxed objects and tasks\<close>

record js_store =
  jst_def :: store_def
  jst_db :: nat
  jst_handler :: nat

record js_heap =
  jh_dbs :: "nat \<Rightarrow> rocksdb"
  jh_handlers :: "nat \<Rightarrow> hub_event_id_generator"
  jh_stores :: "nat \<Rightarrow> js_store"
  jh_next :: nat

definition load_store :: "js_heap \<Rightarrow> nat \<Rightarrow> account_store" where
  "load_store h i =
     (let s = jh_stores h i
      in \<lparr>ast_def = jst_def s, ast_gen = jh_handlers h (jst_handler s), ast_db = jh_dbs h (jst_db s)\<rparr>)"

definition save_store :: "nat \<Rightarrow> account_store \<Rightarrow> js_heap \<Rightarrow> js_heap" where
  "save_store i st h =
     (let s = jh_stores h i
      in h\<lparr>jh_dbs := (jh_dbs h)(jst_db s := ast_db st), jh_handlers := (jh_handlers h)(jst_handler s := ast_gen st)\<rparr>)"

text \<open>
  The closure given to \<open>settle_with\<close> runs later on the JavaScript thread and sees the heap of that
  time.  \<open>now\<close> gives the clock readings of the events a call or a job creates.  A job of the pool runs
  in steps, between which the other workers and the JavaScript thread may run.
\<close>

type_synonym js_settle = "js_heap \<Rightarrow> (js_error, js_value) result"

datatype js_job =
    JobDone "(js_error, js_settle) result"
  | JobStep "(nat \<Rightarrow> u64) \<Rightarrow> js_heap \<Rightarrow> js_heap \<times> js_job"

datatype js_task =
    SettleWith js_settle
  | PoolJob js_job

definition job_once :: "((nat \<Rightarrow> u64) \<Rightarrow> js_heap \<Rightarrow> js_heap \<times> (js_error, js_settle) result) \<Rightarrow> js_job" where
  "job_once f = JobStep (\<lambda>now h. case f now h of (h', r) \<Rightarrow> (h', JobDone r))"

type_synonym js_binding = "(nat \<Rightarrow> u64) \<Rightarrow> js_cx \<Rightarrow> js_heap \<Rightarrow> js_heap \<times> (js_error, js_task) result"

definition js_try :: "(js_error, 'a) result \<Rightarrow> ('a \<Rightarrow> js_heap \<times> (js_error, 'b) result) \<Rightarrow> js_heap \<Rightarrow>
    js_heap \<times> (js_error, 'b) result" where
  "js_try r f h = (case r of Ok a \<Rightarrow> f a | Err e \<Rightarrow> (h, Err e) | Panic m \<Rightarrow> (h, Panic m))"

text \<open>The outcome of a store operation: an error rejects the promise, a panic unwinds the call.\<close>

definition settle_result :: "('a \<Rightarrow> js_value) \<Rightarrow> (hub_error, 'a) result \<Rightarrow> (js_error, js_settle) result" where
  "settle_result f r =
     (case r of
        Ok a \<Rightarrow> Ok (\<lambda>_. Ok (f a))
      | Err e \<Rightarrow> Ok (\<lambda>_. hub_error_to_js_throw e)
      | Panic m \<Rightarrow> Panic m)"

definition promise_result :: "('a \<Rightarrow> js_value) \<Rightarrow> (hub_error, 'a) result \<Rightarrow> (js_error, js_task) result" where
  "promise_result f r = bind_result (settle_result f r) (\<lambda>s. Ok (SettleWith s))"

definition deferred_settle_messages :: "(hub_error, messages_page) result \<Rightarrow> (js_error, js_settle) result" where
  "deferred_settle_messages r = settle_result encode_messages_to_js_object r"

text \<open>A job that only reads, and a binding that only reads.\<close>

definition pool_read :: "(js_heap \<Rightarrow> (js_error, js_settle) result) \<Rightarrow> js_task" where
  "pool_read f = PoolJob (job_once (\<lambda>now h. (h, f h)))"

definition reading :: "(js_cx \<Rightarrow> js_heap \<Rightarrow> (js_error, js_task) result) \<Rightarrow> js_binding" where
  "reading f now cx h = (h, f cx h)"

text \<open>
  A lookup made during the call: an absent message and an error of the store throw at once, and the
  promise is settled with what was found.
\<close>

definition found_or_throw :: "('a \<Rightarrow> bytes) \<Rightarrow> string \<Rightarrow> (hub_error, 'a option) result \<Rightarrow> (js_error, js_task) result" where
  "found_or_throw enc missing r =
     (case r of
        Ok (Some a) \<Rightarrow> Ok (SettleWith (\<lambda>_. Ok (JsBuffer (enc a))))
      | Ok None \<Rightarrow> Err (JsError missing)
      | Err e \<Rightarrow> hub_error_to_js_throw e
      | Panic m \<Rightarrow> Panic m)"

definition page_or_throw :: "(hub_error, messages_page) result \<Rightarrow> (js_error, js_task) result" where
  "page_or_throw r =
     (case r of
        Ok p \<Rightarrow> Ok (SettleWith (\<lambda>_. Ok (encode_messages_to_js_object p)))
      | Err e \<Rightarrow> hub_error_to_js_throw e
      | Panic m \<Rightarrow> Panic m)"

definition not_found_for :: "string \<Rightarrow> string \<Rightarrow> string" where
  "not_found_for what whom = ''not_found/'' @ what @ '' for '' @ whom"

section \<open>The event handler\<close>

definition js_create_store_event_handler :: "js_cx \<Rightarrow> js_heap \<Rightarrow> js_heap \<times> (js_error, js_value) result" where
  "js_create_store_event_handler cx h =
     (let ep = map_option js_as_u64 (number_opt cx 0);
          last_timestamp = map_option js_as_u64 (number_opt cx 1);
          last_seq = map_option js_as_u64 (number_opt cx 2);
          i = jh_next h
      in (h\<lparr>jh_handlers := (jh_handlers h)(i := event_handler_new ep last_timestamp last_seq), jh_next := Suc i\<rparr>,
          Ok (JsBoxHandler i)))"

definition js_get_next_event_id :: "u64 \<Rightarrow> js_cx \<Rightarrow> js_heap \<Rightarrow> js_heap \<times> (js_error, js_value) result" where
  "js_get_next_event_id now cx h =
     js_try (downcast_or_throw as_box_handler (cx_this cx)) (\<lambda>i.
       (case generate_id now (map_option js_as_u64 (number_opt cx 0)) (jh_handlers h i) of
          (gen, r) \<Rightarrow>
            (h\<lparr>jh_handlers := (jh_handlers h)(i := gen)\<rparr>,
             (case r of
                Ok event_id \<Rightarrow> Ok (js_number_of_nat (unat event_id))
              | Err e \<Rightarrow> hub_error_to_js_throw e
              | Panic m \<Rightarrow> Panic m)))) h"

section \<open>The bindings of Store\<close>

text \<open>The decoder with the text of its errors.\<close>

record js_env =
  je_account :: account_env
  je_decode_error :: "bytes \<Rightarrow> string"
  je_decode_cast_id :: "bytes \<Rightarrow> string + cast_id"
  je_utf8_lossy :: "bytes \<Rightarrow> string"

definition js_decode :: "js_env \<Rightarrow> bytes \<Rightarrow> (hub_error, message) result" where
  "js_decode J b =
     (case ae_decode (je_account J) b of
        Some m \<Rightarrow> Ok m
      | None \<Rightarrow> Err (hub_err ''bad_request.validation_failure'' (je_decode_error J b)))"

text \<open>A store operation on a decoded message; a message that does not decode is not passed on.\<close>

definition on_store ::
  "(message \<Rightarrow> account_store \<Rightarrow> account_store \<times> (hub_error, bytes) result) \<Rightarrow> nat \<Rightarrow> (hub_error, message) result \<Rightarrow>
     js_heap \<Rightarrow> js_heap \<times> (hub_error, bytes) result" where
  "on_store f i r h =
     (case r of
        Ok m \<Rightarrow> (case f m (load_store h i) of (st, r') \<Rightarrow> (save_store i st h, r'))
      | Err e \<Rightarrow> (h, Err e)
      | Panic p \<Rightarrow> (h, Panic p))"

definition js_merge :: "js_env \<Rightarrow> js_binding" where
  "js_merge J now cx h =
     js_try (bind_result (get_store cx) (\<lambda>i.
               bind_result (unwrap (argument as_buffer cx 0)) (\<lambda>b. Ok (i, b)))) (\<lambda>(i, b).
       (case on_store (merge (je_account J) (now 0)) i (js_decode J b) h of
          (h', r) \<Rightarrow> (h', promise_result JsBuffer r))) h"

fun js_decode_many :: "js_env \<Rightarrow> js_value list \<Rightarrow> (js_error, (hub_error, message) result list) result" where
  "js_decode_many J [] = Ok []"
| "js_decode_many J (v # vs) =
     (case as_buffer v of
        None \<Rightarrow> Panic unwrap_err
      | Some b \<Rightarrow> bind_result (js_decode_many J vs) (\<lambda>ms. Ok (js_decode J b # ms)))"

fun merge_entry :: "(hub_error, bytes) result \<Rightarrow> js_value" where
  "merge_entry (Ok b) = JsBuffer b"
| "merge_entry (Err e) = JsString (he_code e @ ''/'' @ he_message e)"
| "merge_entry (Panic m) = JsUndefined"

text \<open>The closure of \<open>js_merge_many\<close>: one message after the other; \<open>results\<close> are those it has collected.\<close>

fun merge_many_job ::
  "account_env \<Rightarrow> nat \<Rightarrow> (hub_error, message) result list \<Rightarrow> (hub_error, bytes) result list \<Rightarrow> js_job" where
  "merge_many_job A i [] results = JobDone (Ok (\<lambda>_. Ok (JsArray (map merge_entry results))))"
| "merge_many_job A i (r # rs) results =
     JobStep (\<lambda>now h.
       case on_store (merge A (now 0)) i r h of
         (h1, Panic m) \<Rightarrow> (h1, JobDone (Panic m))
       | (h1, r1) \<Rightarrow> (h1, merge_many_job A i rs (results @ [r1])))"

definition js_merge_many :: "js_env \<Rightarrow> js_binding" where
  "js_merge_many J now cx h =
     js_try (bind_result (get_store cx) (\<lambda>i.
               bind_result (unwrap (argument as_array cx 0)) (\<lambda>vs.
                 bind_result (js_decode_many J vs) (\<lambda>ms. Ok (i, ms))))) (\<lambda>(i, ms).
       (h, Ok (PoolJob (merge_many_job (je_account J) i ms [])))) h"

definition js_revoke :: "js_env \<Rightarrow> js_binding" where
  "js_revoke J now cx h =
     js_try (bind_result (get_store cx) (\<lambda>i.
               bind_result (unwrap (argument as_buffer cx 0)) (\<lambda>b. Ok (i, b)))) (\<lambda>(i, b).
       (case on_store (revoke (je_account J) (now 0)) i (js_decode J b) h of
          (h', r) \<Rightarrow> (h', promise_result JsBuffer r))) h"

definition js_prune_messages :: "js_env \<Rightarrow> js_binding" where
  "js_prune_messages J now cx h =
     js_try (bind_result (get_store cx) (\<lambda>i.
             bind_result (unwrap (argument as_number cx 0)) (\<lambda>fid.
             bind_result (unwrap (argument as_number cx 1)) (\<lambda>cached_count.
             bind_result (unwrap (argument as_number cx 2)) (\<lambda>units.
               Ok (i, js_as_u32 fid, js_as_u64 cached_count, js_as_u64 units)))))) (\<lambda>(i, fid, cached_count, units).
       (h, Ok (PoolJob (job_once (\<lambda>now' h'.
          (case prune_messages (je_account J) now' fid cached_count units (load_store h' i) of
             (st, r) \<Rightarrow>
               (save_store i st h',
                settle_result (\<lambda>events. JsArray (map (\<lambda>e. JsBuffer (ae_event_encode (je_account J) e)) events)) r))))))) h"

definition js_get_message :: "js_env \<Rightarrow> js_cx \<Rightarrow> js_heap \<Rightarrow> (js_error, js_task) result" where
  "js_get_message J cx h =
     bind_result (get_store cx) (\<lambda>i.
     bind_result (unwrap (argument as_number cx 0)) (\<lambda>fid.
     bind_result (unwrap (argument as_number cx 1)) (\<lambda>pf.
     bind_result (argument as_buffer cx 2) (\<lambda>b.
       (case vec_to_u8_24 (Some b) of
          Err e \<Rightarrow> hub_error_to_js_throw e
        | Panic m \<Rightarrow> Panic m
        | Ok ts_hash \<Rightarrow>
            Ok (SettleWith (\<lambda>h'.
              (case get_message (je_account J) (ast_db (load_store h' i)) (js_as_u32 fid) (js_as_u8 pf) ts_hash of
                 Ok (Some m) \<Rightarrow> Ok (JsBuffer (ae_encode (je_account J) m))
               | Ok None \<Rightarrow> Err (JsError ''not_found/message not found'')
               | Err e \<Rightarrow> hub_error_to_js_throw e
               | Panic m \<Rightarrow> Panic m)))))))) "

definition js_get_all_messages_by_fid :: "js_env \<Rightarrow> js_cx \<Rightarrow> js_heap \<Rightarrow> (js_error, js_task) result" where
  "js_get_all_messages_by_fid J cx h =
     bind_result (get_store cx) (\<lambda>i.
     bind_result (unwrap (argument as_number cx 0)) (\<lambda>fid.
     bind_result (get_page_options cx 1) (\<lambda>opts.
       (let start_time = map_option js_as_u32 (number_opt cx 2);
            stop_time = map_option js_as_u32 (number_opt cx 3)
        in Ok (SettleWith (\<lambda>h'.
             (case get_all_messages_by_fid (je_account J) (load_store h' i) (js_as_u32 fid) start_time stop_time opts of
                Ok p \<Rightarrow> Ok (encode_messages_to_js_object p)
              | Err e \<Rightarrow> hub_error_to_js_throw e
              | Panic m \<Rightarrow> Panic m)))))))"

end
