(* ===== verification/Js_Stores.thy ===== *)
theory Js_Stores
  imports Js_Bindings
begin

text \<open>
  The JavaScript bindings of the six stores: creation, lookups and pages of \<open>cast_store.rs\<close>,
  \<open>reaction_store.rs\<close>, \<open>link_store.rs\<close>, \<open>user_data_store.rs\<close>, \<open>verification_store.rs\<close> and
  \<open>username_proof_store.rs\<close>.  Some of them look up during the call and throw, others leave the work to
  the thread pool, as in the source.
\<close>

section \<open>Shared parts\<close>

text \<open>The constructors read the database, the event handler and the limit, and box the new store.\<close>

definition create_store :: "(u32 \<Rightarrow> store_def) \<Rightarrow> js_cx \<Rightarrow> js_heap \<Rightarrow> js_heap \<times> (js_error, js_value) result" where
  "create_store new_def cx h =
     js_try (bind_result (argument as_box_db cx 0) (\<lambda>db.
             bind_result (argument as_box_handler cx 1) (\<lambda>handler.
             bind_result (argument as_number cx 2) (\<lambda>n. Ok (db, handler, js_as_u32 n))))) (\<lambda>(db, handler, limit).
       (let i = jh_next h
        in (h\<lparr>jh_stores := (jh_stores h)(i := \<lparr>jst_def = new_def limit, jst_db = db, jst_handler = handler\<rparr>),
             jh_next := Suc i\<rparr>,
            Ok (JsBoxStore i)))) h"

text \<open>A target given as an encoded cast id or, when that is empty, as a URL.\<close>

definition cast_id_or_url :: "js_env \<Rightarrow> js_cx \<Rightarrow> nat \<Rightarrow> string \<Rightarrow> (js_error, cast_id + string) result" where
  "cast_id_or_url J cx i missing =
     bind_result (argument as_buffer cx i) (\<lambda>b.
     bind_result (if length b > 0
                  then (case je_decode_cast_id J b of Inr c \<Rightarrow> Ok (Some c) | Inl e \<Rightarrow> Err (JsError e))
                  else Ok None) (\<lambda>cast_id.
     bind_result (argument as_string cx (Suc i)) (\<lambda>url.
       (case cast_id of
          Some c \<Rightarrow> Ok (Inl c)
        | None \<Rightarrow> if url = [] then Err (JsError missing) else Ok (Inr url)))))"

definition encode_found :: "js_env \<Rightarrow> message \<Rightarrow> bytes" where
  "encode_found J m = ae_encode (je_account J) m"

section \<open>Casts\<close>

definition js_create_cast_store :: "js_cx \<Rightarrow> js_heap \<Rightarrow> js_heap \<times> (js_error, js_value) result" where
  "js_create_cast_store cx h = create_store cast_store_def cx h"

definition js_get_cast_add :: "js_env \<Rightarrow> js_cx \<Rightarrow> js_heap \<Rightarrow> (js_error, js_task) result" where
  "js_get_cast_add J cx h =
     bind_result (get_store cx) (\<lambda>i.
     bind_result (unwrap (argument as_number cx 0)) (\<lambda>fid.
     bind_result (argument as_buffer cx 1) (\<lambda>hash.
       found_or_throw (encode_found J) (not_found_for ''castAddMessage not found'' (u32_to_string (js_as_u32 fid)))
         (get_cast_add (je_account J) (load_store h i) (js_as_u32 fid) hash))))"

definition js_get_cast_remove :: "js_env \<Rightarrow> js_cx \<Rightarrow> js_heap \<Rightarrow> (js_error, js_task) result" where
  "js_get_cast_remove J cx h =
     bind_result (get_store cx) (\<lambda>i.
     bind_result (unwrap (argument as_number cx 0)) (\<lambda>fid.
     bind_result (argument as_buffer cx 1) (\<lambda>hash.
       found_or_throw (encode_found J) (not_found_for ''CastRemoveMessage not found'' (u32_to_string (js_as_u32 fid)))
         (get_cast_remove (je_account J) (load_store h i) (js_as_u32 fid) hash))))"

definition js_get_cast_adds_by_fid :: "js_env \<Rightarrow> js_cx \<Rightarrow> js_heap \<Rightarrow> (js_error, js_task) result" where
  "js_get_cast_adds_by_fid J cx h =
     bind_result (get_store cx) (\<lambda>i.
     bind_result (unwrap (argument as_number cx 0)) (\<lambda>fid.
     bind_result (get_page_options cx 1) (\<lambda>opts.
       Ok (pool_read (\<lambda>h'. deferred_settle_messages (get_cast_adds_by_fid (je_account J) (load_store h' i) (js_as_u32 fid) opts))))))"

definition js_get_cast_removes_by_fid :: "js_env \<Rightarrow> js_cx \<Rightarrow> js_heap \<Rightarrow> (js_error, js_task) result" where
  "js_get_cast_removes_by_fid J cx h =
     bind_result (get_store cx) (\<lambda>i.
     bind_result (unwrap (argument as_number cx 0)) (\<lambda>fid.
     bind_result (get_page_options cx 1) (\<lambda>opts.
       Ok (pool_read (\<lambda>h'. deferred_settle_messages (get_cast_removes_by_fid (je_account J) (load_store h' i) (js_as_u32 fid) opts))))))"

definition js_get_casts_by_parent :: "js_env \<Rightarrow> js_cx \<Rightarrow> js_heap \<Rightarrow> (js_error, js_task) result" where
  "js_get_casts_by_parent J cx h =
     bind_result (get_store cx) (\<lambda>i.
     bind_result (cast_id_or_url J cx 0 ''parent_cast_id or parent_url is required'') (\<lambda>target.
     bind_result (get_page_options cx 2) (\<lambda>opts.
       page_or_throw (get_casts_by_parent (je_account J) (load_store h i)
         (case target of Inl c \<Rightarrow> ParentCastId c | Inr url \<Rightarrow> ParentUrl url) opts))))"

definition js_get_casts_by_mention :: "js_env \<Rightarrow> js_cx \<Rightarrow> js_heap \<Rightarrow> (js_error, js_task) result" where
  "js_get_casts_by_mention J cx h =
     bind_result (get_store cx) (\<lambda>i.
     bind_result (argument as_number cx 0) (\<lambda>mention.
     bind_result (get_page_options cx 1) (\<lambda>opts.
       Ok (pool_read (\<lambda>h'. deferred_settle_messages (get_casts_by_mention (je_account J) (load_store h' i) (js_as_u32 mention) opts))))))"

section \<open>Reactions\<close>

definition create_reaction_store :: "js_cx \<Rightarrow> js_heap \<Rightarrow> js_heap \<times> (js_error, js_value) result" where
  "create_reaction_store cx h = create_store reaction_store_def cx h"

definition js_get_reaction_add :: "js_env \<Rightarrow> js_cx \<Rightarrow> js_heap \<Rightarrow> (js_error, js_task) result" where
  "js_get_reaction_add J cx h =
     bind_result (get_store cx) (\<lambda>i.
     bind_result (unwrap (argument as_number cx 0)) (\<lambda>fid.
     bind_result (unwrap (argument as_number cx 1)) (\<lambda>rtype.
     bind_result (cast_id_or_url J cx 2 ''target_cast_id or target_url is required'') (\<lambda>target.
       found_or_throw (encode_found J) (not_found_for ''reactionAddMessage not found'' (u32_to_string (js_as_u32 fid)))
         (get_reaction_add (je_account J) (load_store h i) (js_as_u32 fid) (js_as_i32 rtype)
           (Some (case target of Inl c \<Rightarrow> TargetCastId c | Inr url \<Rightarrow> TargetUrl url)))))))"

definition js_get_reaction_remove :: "js_env \<Rightarrow> js_cx \<Rightarrow> js_heap \<Rightarrow> (js_error, js_task) result" where
  "js_get_reaction_remove J cx h =
     bind_result (get_store cx) (\<lambda>i.
     bind_result (unwrap (argument as_number cx 0)) (\<lambda>fid.
     bind_result (unwrap (argument as_number cx 1)) (\<lambda>rtype.
     bind_result (cast_id_or_url J cx 2 ''target_cast_id or target_url is required'') (\<lambda>target.
       found_or_throw (encode_found J) (not_found_for ''reactionRemoveMessage not found'' (u32_to_string (js_as_u32 fid)))
         (get_reaction_remove (je_account J) (load_store h i) (js_as_u32 fid) (js_as_i32 rtype)
           (Some (case target of Inl c \<Rightarrow> TargetCastId c | Inr url \<Rightarrow> TargetUrl url)))))))"

definition js_get_reaction_adds_by_fid :: "js_env \<Rightarrow> js_cx \<Rightarrow> js_heap \<Rightarrow> (js_error, js_task) result" where
  "js_get_reaction_adds_by_fid J cx h =
     bind_result (get_store cx) (\<lambda>i.
     bind_result (unwrap (argument as_number cx 0)) (\<lambda>fid.
     bind_result (unwrap (argument as_number cx 1)) (\<lambda>rtype.
     bind_result (get_page_options cx 2) (\<lambda>opts.
       Ok (pool_read (\<lambda>h'. deferred_settle_messages (get_reaction_adds_by_fid (je_account J) (load_store h' i) (js_as_u32 fid)
         (js_as_i32 rtype) opts)))))))"

definition js_get_reaction_removes_by_fid :: "js_env \<Rightarrow> js_cx \<Rightarrow> js_heap \<Rightarrow> (js_error, js_task) result" where
  "js_get_reaction_removes_by_fid J cx h =
     bind_result (get_store cx) (\<lambda>i.
     bind_result (unwrap (argument as_number cx 0)) (\<lambda>fid.
     bind_result (unwrap (argument as_number cx 1)) (\<lambda>rtype.
     bind_result (get_page_options cx 2) (\<lambda>opts.
       Ok (pool_read (\<lambda>h'. deferred_settle_messages (get_reaction_removes_by_fid (je_account J) (load_store h' i) (js_as_u32 fid)
         (js_as_i32 rtype) opts)))))))"

definition js_get_reactions_by_target :: "js_env \<Rightarrow> js_cx \<Rightarrow> js_heap \<Rightarrow> (js_error, js_task) result" where
  "js_get_reactions_by_target J cx h =
     bind_result (get_store cx) (\<lambda>i.
     bind_result (cast_id_or_url J cx 0 ''target_cast_id or target_url is required'') (\<lambda>target.
     bind_result (argument as_number cx 2) (\<lambda>rtype.
     bind_result (get_page_options cx 3) (\<lambda>opts.
       Ok (pool_read (\<lambda>h'. deferred_settle_messages (get_reactions_by_target (je_account J) (load_store h' i)
         (case target of Inl c \<Rightarrow> TargetCastId c | Inr url \<Rightarrow> TargetUrl url) (js_as_i32 rtype) opts)))))))"

section \<open>Links\<close>

definition create_link_store :: "js_cx \<Rightarrow> js_heap \<Rightarrow> js_heap \<times> (js_error, js_value) result" where
  "create_link_store cx h = create_store link_store_def cx h"

definition js_get_link_adds_by_fid :: "js_env \<Rightarrow> js_cx \<Rightarrow> js_heap \<Rightarrow> (js_error, js_task) result" where
  "js_get_link_adds_by_fid J cx h =
     bind_result (get_store cx) (\<lambda>i.
     bind_result (argument as_number cx 0) (\<lambda>fid.
     bind_result (argument as_string cx 1) (\<lambda>ltype.
     bind_result (get_page_options cx 2) (\<lambda>opts.
       Ok (pool_read (\<lambda>h'. deferred_settle_messages (get_link_adds_by_fid (je_account J) (load_store h' i) (js_as_u32 fid) ltype opts)))))))"

definition js_get_link_removes_by_fid :: "js_env \<Rightarrow> js_cx \<Rightarrow> js_heap \<Rightarrow> (js_error, js_task) result" where
  "js_get_link_removes_by_fid J cx h =
     bind_result (get_store cx) (\<lambda>i.
     bind_result (argument as_number cx 0) (\<lambda>fid.
     bind_result (argument as_string cx 1) (\<lambda>ltype.
     bind_result (get_page_options cx 2) (\<lambda>opts.
       Ok (pool_read (\<lambda>h'. deferred_settle_messages (get_link_removes_by_fid (je_account J) (load_store h' i) (js_as_u32 fid) ltype opts)))))))"

definition js_get_link_add :: "js_env \<Rightarrow> js_cx \<Rightarrow> js_heap \<Rightarrow> (js_error, js_task) result" where
  "js_get_link_add J cx h =
     bind_result (get_store cx) (\<lambda>i.
     bind_result (unwrap (argument as_number cx 0)) (\<lambda>fid.
     bind_result (argument as_string cx 1) (\<lambda>ltype.
     bind_result (unwrap (argument as_number cx 2)) (\<lambda>target_fid.
       if js_as_u32 target_fid = 0 then Err (JsError ''target fid is required'')
       else found_or_throw (encode_found J) (not_found_for ''Link Add Message not found'' (u32_to_string (js_as_u32 fid)))
         (get_link_add (je_account J) (load_store h i) (js_as_u32 fid) ltype
           (Some (TargetFid (ucast (js_as_u32 target_fid)))))))))"

definition js_get_link_remove :: "js_env \<Rightarrow> js_cx \<Rightarrow> js_heap \<Rightarrow> (js_error, js_task) result" where
  "js_get_link_remove J cx h =
     bind_result (get_store cx) (\<lambda>i.
     bind_result (unwrap (argument as_number cx 0)) (\<lambda>fid.
     bind_result (argument as_string cx 1) (\<lambda>ltype.
     bind_result (unwrap (argument as_number cx 2)) (\<lambda>target_fid.
       if js_as_u32 target_fid = 0 then Err (JsError ''target_fid is required'')
       else found_or_throw (encode_found J) (not_found_for ''Link Remove Message not found'' (u32_to_string (js_as_u32 fid)))
         (get_link_remove (je_account J) (load_store h i) (js_as_u32 fid) ltype
           (Some (TargetFid (ucast (js_as_u32 target_fid)))))))))"

definition js_get_links_by_target :: "js_env \<Rightarrow> js_cx \<Rightarrow> js_heap \<Rightarrow> (js_error, js_task) result" where
  "js_get_links_by_target J cx h =
     bind_result (get_store cx) (\<lambda>i.
     bind_result (unwrap (argument as_number cx 0)) (\<lambda>target_fid.
     bind_result (argument as_string cx 1) (\<lambda>ltype.
     bind_result (get_page_options cx 2) (\<lambda>opts.
       if js_as_u32 target_fid = 0 then Err (JsError ''target_fid is required'')
       else Ok (pool_read (\<lambda>h'. deferred_settle_messages (get_links_by_target (je_account J) (load_store h' i)
         (TargetFid (ucast (js_as_u32 target_fid))) ltype opts)))))))"

definition js_get_link_compact_state_message_by_fid :: "js_env \<Rightarrow> js_cx \<Rightarrow> js_heap \<Rightarrow> (js_error, js_task) result" where
  "js_get_link_compact_state_message_by_fid J cx h =
     bind_result (get_store cx) (\<lambda>i.
     bind_result (unwrap (argument as_number cx 0)) (\<lambda>fid.
     bind_result (get_page_options cx 1) (\<lambda>opts.
       if js_as_u32 fid = 0 then Err (JsError ''fid is required'')
       else Ok (pool_read (\<lambda>h'. deferred_settle_messages (get_link_compact_state_message_by_fid
         (je_account J) (load_store h' i) (js_as_u32 fid) opts))))))"

section \<open>User data\<close>

definition create_userdata_store :: "js_cx \<Rightarrow> js_heap \<Rightarrow> js_heap \<times> (js_error, js_value) result" where
  "create_userdata_store cx h = create_store user_data_store_def cx h"

definition user_data_missing :: string where
  "user_data_missing = ''not_found/NotFound: UserDataAdd message not found''"

definition js_get_userdata_add :: "js_env \<Rightarrow> js_cx \<Rightarrow> js_heap \<Rightarrow> (js_error, js_task) result" where
  "js_get_userdata_add J cx h =
     bind_result (get_store cx) (\<lambda>i.
     bind_result (argument as_number cx 0) (\<lambda>fid.
     bind_result (argument as_number cx 1) (\<lambda>dtype.
       found_or_throw (encode_found J) (user_data_missing)
         (get_user_data_add (je_account J) (load_store h i) (js_as_u32 fid) (js_as_i32 dtype)))))"

definition js_get_user_data_adds_by_fid :: "js_env \<Rightarrow> js_cx \<Rightarrow> js_heap \<Rightarrow> (js_error, js_task) result" where
  "js_get_user_data_adds_by_fid J cx h =
     bind_result (get_store cx) (\<lambda>i.
     bind_result (argument as_number cx 0) (\<lambda>fid.
     bind_result (get_page_options cx 1) (\<lambda>opts.
       page_or_throw (get_user_data_adds_by_fid (je_account J) (load_store h i) (js_as_u32 fid) opts
         (map_option js_as_u32 (number_opt cx 2)) (map_option js_as_u32 (number_opt cx 3))))))"

text \<open>A proof of the fid 0 counts as absent.\<close>

definition js_user_data_get_username_proof :: "js_env \<Rightarrow> js_cx \<Rightarrow> js_heap \<Rightarrow> (js_error, js_task) result" where
  "js_user_data_get_username_proof J cx h =
     bind_result (get_store cx) (\<lambda>i.
     bind_result (argument as_buffer cx 0) (\<lambda>name.
       (case user_data_get_username_proof (je_account J) (load_store h i) name of
          Ok (Some p) \<Rightarrow>
            if unp_fid p = 0 then Err (JsError user_data_missing)
            else Ok (SettleWith (\<lambda>_. Ok (JsBuffer (ae_proof_encode (je_account J) p))))
        | Ok None \<Rightarrow> Err (JsError user_data_missing)
        | Err e \<Rightarrow> hub_error_to_js_throw e
        | Panic m \<Rightarrow> Panic m)))"

definition js_get_username_proof_by_fid :: "js_env \<Rightarrow> js_cx \<Rightarrow> js_heap \<Rightarrow> (js_error, js_task) result" where
  "js_get_username_proof_by_fid J cx h =
     bind_result (get_store cx) (\<lambda>i.
     bind_result (argument as_number cx 0) (\<lambda>fid.
       found_or_throw (ae_proof_encode (je_account J)) user_data_missing
         (user_data_get_username_proof_by_fid (je_account J) (load_store h i) (js_as_u32 fid))))"

definition js_decode_proof :: "js_env \<Rightarrow> bytes \<Rightarrow> (hub_error, user_name_proof) result" where
  "js_decode_proof J b =
     (case ae_proof_decode (je_account J) b of
        Some p \<Rightarrow> Ok p
      | None \<Rightarrow> Err (hub_err ''bad_request.validation_failure'' (je_decode_error J b)))"

definition js_merge_username_proof :: "js_env \<Rightarrow> js_binding" where
  "js_merge_username_proof J now cx h =
     js_try (bind_result (get_store cx) (\<lambda>i.
               bind_result (argument as_buffer cx 0) (\<lambda>b. Ok (i, b)))) (\<lambda>(i, b).
       (case js_decode_proof J b of
          Ok p \<Rightarrow>
            (case merge_username_proof (je_account J) (now 0) p (load_store h i) of
               (st, r) \<Rightarrow> (save_store i st h, promise_result JsBuffer r))
        | Err e \<Rightarrow> (h, Ok (SettleWith (\<lambda>_. hub_error_to_js_throw e)))
        | Panic m \<Rightarrow> (h, Panic m))) h"

section \<open>Verifications\<close>

definition create_verification_store :: "js_cx \<Rightarrow> js_heap \<Rightarrow> js_heap \<times> (js_error, js_value) result" where
  "create_verification_store cx h = create_store verification_store_def cx h"

definition js_get_verification_add :: "js_env \<Rightarrow> js_cx \<Rightarrow> js_heap \<Rightarrow> (js_error, js_task) result" where
  "js_get_verification_add J cx h =
     bind_result (get_store cx) (\<lambda>i.
     bind_result (unwrap (argument as_number cx 0)) (\<lambda>fid.
     bind_result (argument as_buffer cx 1) (\<lambda>address.
       found_or_throw (encode_found J) (not_found_for ''NotFound: verificationAddMessage not found'' (u32_to_string (js_as_u32 fid)))
         (get_verification_add (je_account J) (load_store h i) (js_as_u32 fid) address))))"

definition js_get_verification_remove :: "js_env \<Rightarrow> js_cx \<Rightarrow> js_heap \<Rightarrow> (js_error, js_task) result" where
  "js_get_verification_remove J cx h =
     bind_result (get_store cx) (\<lambda>i.
     bind_result (unwrap (argument as_number cx 0)) (\<lambda>fid.
     bind_result (argument as_buffer cx 1) (\<lambda>address.
       found_or_throw (encode_found J) (not_found_for ''verificationRemoveMessage not found'' (u32_to_string (js_as_u32 fid)))
         (get_verification_remove (je_account J) (load_store h i) (js_as_u32 fid) address))))"

definition js_get_verification_adds_by_fid :: "js_env \<Rightarrow> js_cx \<Rightarrow> js_heap \<Rightarrow> (js_error, js_task) result" where
  "js_get_verification_adds_by_fid J cx h =
     bind_result (get_store cx) (\<lambda>i.
     bind_result (unwrap (argument as_number cx 0)) (\<lambda>fid.
     bind_result (get_page_options cx 1) (\<lambda>opts.
       page_or_throw (get_verification_adds_by_fid (je_account J) (load_store h i) (js_as_u32 fid) opts))))"

definition js_get_verification_removes_by_fid :: "js_env \<Rightarrow> js_cx \<Rightarrow> js_heap \<Rightarrow> (js_error, js_task) result" where
  "js_get_verification_removes_by_fid J cx h =
     bind_result (get_store cx) (\<lambda>i.
     bind_result (unwrap (argument as_number cx 0)) (\<lambda>fid.
     bind_result (get_page_options cx 1) (\<lambda>opts.
       page_or_throw (get_verification_removes_by_fid (je_account J) (load_store h i) (js_as_u32 fid) opts))))"

definition js_migrate_verifications :: "js_env \<Rightarrow> js_binding" where
  "js_migrate_verifications J now cx h =
     js_try (get_store cx) (\<lambda>i.
       (case migrate_verifications (je_account J) (load_store h i) of
          (st, r) \<Rightarrow>
            (save_store i st h,
             (case r of
                Ok (verifications_count, duplicates_count) \<Rightarrow>
                  Ok (SettleWith (\<lambda>_. Ok (JsObject
                    [(''total'', js_number_of_nat (unat verifications_count)),
                     (''duplicates'', js_number_of_nat (unat duplicates_count))])))
              | Err e \<Rightarrow> hub_error_to_js_throw e
              | Panic m \<Rightarrow> Panic m)))) h"

section \<open>Username proofs\<close>

definition create_username_proof_store :: "js_cx \<Rightarrow> js_heap \<Rightarrow> js_heap \<times> (js_error, js_value) result" where
  "create_username_proof_store cx h = create_store username_proof_store_def cx h"

definition js_get_username_proof :: "js_env \<Rightarrow> js_cx \<Rightarrow> js_heap \<Rightarrow> (js_error, js_task) result" where
  "js_get_username_proof J cx h =
     bind_result (get_store cx) (\<lambda>i.
     bind_result (argument as_buffer cx 0) (\<lambda>name.
     bind_result (argument as_number cx 1) (\<lambda>name_type.
       found_or_throw (encode_found J) (not_found_for ''NotFound: usernameproof not found for {}'' (je_utf8_lossy J name))
         (get_proof_by_name (je_account J) (load_store h i) name (js_as_u8 name_type)))))"

definition js_get_username_proofs_by_fid :: "js_env \<Rightarrow> js_cx \<Rightarrow> js_heap \<Rightarrow> (js_error, js_task) result" where
  "js_get_username_proofs_by_fid J cx h =
     bind_result (get_store cx) (\<lambda>i.
     bind_result (argument as_number cx 0) (\<lambda>fid.
     bind_result (get_page_options cx 1) (\<lambda>opts.
       page_or_throw (get_username_proofs_by_fid (je_account J) (load_store h i) (js_as_u32 fid) opts))))"

definition js_get_username_proof_by_fid_and_name :: "js_env \<Rightarrow> js_cx \<Rightarrow> js_heap \<Rightarrow> (js_error, js_task) result" where
  "js_get_username_proof_by_fid_and_name J cx h =
     bind_result (get_store cx) (\<lambda>i.
     bind_result (argument as_number cx 0) (\<lambda>fid.
     bind_result (argument as_buffer cx 1) (\<lambda>name.
       found_or_throw (encode_found J) (not_found_for ''NotFound: username proof not found for {}'' (je_utf8_lossy J name))
         (get_username_proof_by_fid_and_name (je_account J) (load_store h i) name (js_as_u32 fid)))))"

end
