(* ===== verification/Js_Runtime.thy ===== *)
theory Js_Runtime
  imports Js_Stores
begin

text \<open>
  The bindings at work: the JavaScript thread makes calls and settles promises in the order in which
  they were handed over, the workers of the pool run the steps of their jobs in any interleaving.  Every
  promise is settled exactly once, and merges made through the bindings leave the store in the state
  that some order of the same merges gives.  A merge is one step: merges of the same fid exclude each
  other by a lock, those of fids with different locks are taken one after the other.
\<close>

section \<open>Numbers\<close>

lemma js_trunc_nat [simp]: "js_trunc (of_nat n) = int n"
  by (simp add: js_trunc_def)

lemma f64_round_small: "n < 2 ^ 53 \<Longrightarrow> f64_round n = n"
proof -
  assume "n < 2 ^ 53"
  then have "floorlog 2 n \<le> 53" using floorlog_leD [of 2 n 53] floorlog_leI [of n 2 53] by simp
  then show ?thesis by (simp add: f64_round_def Let_def)
qed

lemma js_as_u64_nat: "n < 2 ^ 53 \<Longrightarrow> js_as_u64 (JsFinite (of_nat (f64_round n))) = word_of_nat n"
  by (simp add: f64_round_small js_as_u64_def js_saturate_def)

text \<open>The event id that JavaScript gets is the generated one, and survives the way back.\<close>

lemma event_id_to_js:
  assumes "js_get_next_event_id now cx h = (h', Ok v)"
  shows "\<exists>k i n. cx_this cx = JsBoxHandler k \<and>
    generate_id now (map_option js_as_u64 (number_opt cx 0)) (jh_handlers h k) = (jh_handlers h' k, Ok i) \<and>
    v = JsNumber n \<and> js_as_u64 n = i"
proof -
  from assms obtain k where k: "downcast_or_throw as_box_handler (cx_this cx) = Ok k"
    by (auto simp: js_get_next_event_id_def js_try_def split: result.splits)
  then have bx: "cx_this cx = JsBoxHandler k"
    by (cases "cx_this cx") (auto simp: downcast_or_throw_def)
  obtain gen r where g: "generate_id now (map_option js_as_u64 (number_opt cx 0)) (jh_handlers h k) = (gen, r)" by fastforce
  with assms k obtain i where i: "r = Ok i" "v = js_number_of_nat (unat i)" "jh_handlers h' k = gen"
    by (auto simp: js_get_next_event_id_def js_try_def hub_error_to_js_throw_def split: result.splits)
  with g generate_id_bound have "unat i < 2 ^ 53" by (fastforce simp: word_less_nat_alt)
  from js_as_u64_nat [OF this] i g bx show ?thesis
    by (auto simp: js_number_of_nat_def intro!: exI [of _ k])
qed

section \<open>The runtime\<close>

record js_runtime =
  rt_heap :: js_heap
  rt_pool :: "(nat \<times> js_job) list"
  rt_channel :: "(nat \<times> js_settle) list"
  rt_settled :: "(nat \<times> (js_error, js_value) result) list"
  rt_next :: nat

datatype js_event =
    JsCall js_binding "nat \<Rightarrow> u64" js_cx
  | JsWork nat "nat \<Rightarrow> u64"
  | JsSettle

text \<open>A job that panics drops its promise, which rejects it.\<close>

fun job_settle :: "(js_error, js_settle) result \<Rightarrow> js_settle" where
  "job_settle (Ok s) = s"
| "job_settle (Err e) = (\<lambda>_. Err e)"
| "job_settle (Panic m) = (\<lambda>_. Err (JsError ''`neon::types::Deferred` was dropped without being settled''))"

definition js_promise :: "js_task \<Rightarrow> js_runtime \<Rightarrow> js_runtime" where
  "js_promise t rt =
     (case t of
        SettleWith s \<Rightarrow> rt\<lparr>rt_channel := rt_channel rt @ [(rt_next rt, s)], rt_next := Suc (rt_next rt)\<rparr>
      | PoolJob j \<Rightarrow> rt\<lparr>rt_pool := rt_pool rt @ [(rt_next rt, j)], rt_next := Suc (rt_next rt)\<rparr>)"

definition take_out :: "nat \<Rightarrow> 'a list \<Rightarrow> 'a list" where
  "take_out k xs = take k xs @ drop (Suc k) xs"

fun js_event_step :: "js_event \<Rightarrow> js_runtime \<Rightarrow> js_runtime" where
  "js_event_step (JsCall f now cx) rt =
     (case f now cx (rt_heap rt) of
        (h, Ok t) \<Rightarrow> js_promise t (rt\<lparr>rt_heap := h\<rparr>)
      | (h, _) \<Rightarrow> rt\<lparr>rt_heap := h\<rparr>)"
| "js_event_step (JsWork k now) rt =
     (if k < length (rt_pool rt)
      then (case rt_pool rt ! k of
              (p, JobDone r) \<Rightarrow>
                rt\<lparr>rt_pool := take_out k (rt_pool rt), rt_channel := rt_channel rt @ [(p, job_settle r)]\<rparr>
            | (p, JobStep f) \<Rightarrow>
                (case f now (rt_heap rt) of
                   (h, j) \<Rightarrow> rt\<lparr>rt_heap := h, rt_pool := (rt_pool rt)[k := (p, j)]\<rparr>))
      else rt)"
| "js_event_step JsSettle rt =
     (case rt_channel rt of
        [] \<Rightarrow> rt
      | (p, s) # rest \<Rightarrow> rt\<lparr>rt_channel := rest, rt_settled := rt_settled rt @ [(p, s (rt_heap rt))]\<rparr>)"

definition js_run :: "js_event list \<Rightarrow> js_runtime \<Rightarrow> js_runtime" where
  "js_run evs rt = fold js_event_step evs rt"

definition js_runtime_new :: "js_heap \<Rightarrow> js_runtime" where
  "js_runtime_new h = \<lparr>rt_heap = h, rt_pool = [], rt_channel = [], rt_settled = [], rt_next = 0\<rparr>"

section \<open>Every promise is settled once\<close>

lemma mset_take_out: "k < length xs \<Longrightarrow> add_mset (xs ! k) (mset (take_out k xs)) = mset xs"
  by (subst (4) id_take_nth_drop [of k]) (simp_all add: take_out_def)

definition promises_ok :: "js_runtime \<Rightarrow> bool" where
  "promises_ok rt \<longleftrightarrow>
     mset (map fst (rt_settled rt)) + mset (map fst (rt_channel rt)) + mset (map fst (rt_pool rt)) = mset [0..<rt_next rt]"

lemma promises_ok_promise: "promises_ok rt \<Longrightarrow> promises_ok (js_promise t rt)"
  by (cases t) (auto simp: promises_ok_def js_promise_def)

lemma promises_ok_step:
  assumes "promises_ok rt"
  shows "promises_ok (js_event_step ev rt)"
proof (cases ev)
  case (JsCall f now cx)
  have "promises_ok (rt\<lparr>rt_heap := h\<rparr>)" for h using assms by (simp add: promises_ok_def)
  with JsCall show ?thesis by (auto simp: promises_ok_promise split: prod.splits result.splits)
next
  case (JsWork k now)
  show ?thesis
  proof (cases "k < length (rt_pool rt)")
    case True
    obtain p j where j: "rt_pool rt ! k = (p, j)" by fastforce
    show ?thesis
    proof (cases j)
      case (JobDone r)
      from arg_cong [OF mset_take_out [OF True], of "image_mset fst"] j
      have "mset (map fst (rt_pool rt)) = add_mset p (mset (map fst (take_out k (rt_pool rt))))" by simp
      with True JsWork assms j JobDone show ?thesis by (simp add: promises_ok_def)
    next
      case (JobStep f)
      have "map fst ((rt_pool rt)[k := (p, j')]) = map fst (rt_pool rt)" for j'
        using True j by (metis fst_conv list_update_id map_update nth_map)
      from arg_cong [OF this, of mset] have
        "image_mset fst (mset ((rt_pool rt)[k := (p, j')])) = image_mset fst (mset (rt_pool rt))" for j' by simp
      with True JsWork assms j JobStep show ?thesis by (simp add: promises_ok_def split: prod.splits)
    qed
  qed (use JsWork assms in simp)
next
  case JsSettle
  with assms show ?thesis by (auto simp: promises_ok_def split: list.splits)
qed

lemma js_run_simps [simp]:
  "js_run [] rt = rt" "js_run (ev # evs) rt = js_run evs (js_event_step ev rt)"
  "js_run (evs @ evs') rt = js_run evs' (js_run evs rt)"
  by (simp_all add: js_run_def)

lemma promises_ok_run: "promises_ok rt \<Longrightarrow> promises_ok (js_run evs rt)"
  by (induction evs arbitrary: rt) (simp_all add: promises_ok_step)

lemma promises_ok_new: "promises_ok (js_runtime_new h)"
  by (simp add: promises_ok_def js_runtime_new_def)

text \<open>
  Every job ends, so there is a schedule after which nothing is left: the pool runs its jobs one
  after the other and the JavaScript thread settles the promises.
\<close>

lemma finish_job:
  "rt_pool rt = (p, j) # rest \<Longrightarrow>
     \<exists>n. rt_pool (js_run (replicate n (JsWork 0 now)) rt) = rest \<and>
       rt_next (js_run (replicate n (JsWork 0 now)) rt) = rt_next rt"
proof (induction j arbitrary: rt)
  case (JobDone r)
  then show ?case by (intro exI [of _ 1]) (simp add: take_out_def)
next
  case (JobStep f)
  obtain h j' where s: "f now (rt_heap rt) = (h, j')" by fastforce
  let ?rt = "rt\<lparr>rt_heap := h, rt_pool := (p, j') # rest\<rparr>"
  have step: "js_event_step (JsWork 0 now) rt = ?rt" using JobStep.prems s by simp
  have "j' \<in> Basic_BNFs.snds (f now (rt_heap rt))" using s by (simp add: snds.simps)
  from JobStep.IH [OF rangeI rangeI this, of ?rt] obtain n where
    "rt_pool (js_run (replicate n (JsWork 0 now)) ?rt) = rest"
    "rt_next (js_run (replicate n (JsWork 0 now)) ?rt) = rt_next rt" by auto
  with step show ?case by (intro exI [of _ "Suc n"]) (simp del: js_event_step.simps)
qed

lemma drain_pool:
  "\<exists>n. rt_pool (js_run (replicate n (JsWork 0 now)) rt) = [] \<and>
     rt_next (js_run (replicate n (JsWork 0 now)) rt) = rt_next rt"
proof (induction "rt_pool rt" arbitrary: rt)
  case Nil
  then show ?case by (intro exI [of _ 0]) simp
next
  case (Cons pj rest)
  obtain p j where "pj = (p, j)" by fastforce
  with Cons.hyps(2) finish_job [of rt p j rest now] obtain n where
    n: "rest = rt_pool (js_run (replicate n (JsWork 0 now)) rt)"
      "rt_next (js_run (replicate n (JsWork 0 now)) rt) = rt_next rt" by metis
  from Cons.hyps(1) [OF n(1)] obtain n' where
    "rt_pool (js_run (replicate (n + n') (JsWork 0 now)) rt) = []"
    "rt_next (js_run (replicate (n + n') (JsWork 0 now)) rt) = rt_next rt"
    using n(2) by (auto simp: replicate_add)
  then show ?case by blast
qed

lemma drain_channel:
  "n = length (rt_channel rt) \<Longrightarrow> rt_channel (js_run (replicate n JsSettle) rt) = [] \<and>
     rt_pool (js_run (replicate n JsSettle) rt) = rt_pool rt \<and> rt_next (js_run (replicate n JsSettle) rt) = rt_next rt"
proof (induction n arbitrary: rt)
  case (Suc n)
  from Suc.prems obtain p s rest where "rt_channel rt = (p, s) # rest" by (cases "rt_channel rt") auto
  with Suc.IH [of "js_event_step JsSettle rt"] Suc.prems show ?case by simp
qed simp

lemma drain_settles:
  assumes "promises_ok rt"
  shows "\<exists>evs. mset (map fst (rt_settled (js_run evs rt))) = mset [0..<rt_next rt]"
proof -
  from drain_pool [where rt = rt and now = "\<lambda>_. 0"] obtain n where
    n: "rt_pool (js_run (replicate n (JsWork 0 (\<lambda>_. 0))) rt) = []"
      "rt_next (js_run (replicate n (JsWork 0 (\<lambda>_. 0))) rt) = rt_next rt" by blast
  let ?rt = "js_run (replicate n (JsWork 0 (\<lambda>_. 0))) rt"
  have "promises_ok (js_run (replicate (length (rt_channel ?rt)) JsSettle) ?rt)"
    by (intro promises_ok_run assms)
  with drain_channel [of "length (rt_channel ?rt)" ?rt] n
  have "mset (map fst (rt_settled (js_run (replicate n (JsWork 0 (\<lambda>_. 0)) @ replicate (length (rt_channel ?rt)) JsSettle) rt))) =
      mset [0..<rt_next rt]" by (simp add: promises_ok_def)
  then show ?thesis by blast
qed

section \<open>Merging through the bindings\<close>

text \<open>A store that is about to merge a timed list of messages.\<close>

definition merge_ready ::
  "account_env \<Rightarrow> store_def \<Rightarrow> (message \<Rightarrow> bytes set) \<Rightarrow> message set \<Rightarrow> account_store \<Rightarrow> (u64 \<times> message) list \<Rightarrow> bool" where
  "merge_ready A D absent U st ms \<longleftrightarrow> (\<exists>M. store_rep A D absent U (ast_db st) M) \<and> ast_def st = D \<and>
     set (map snd ms) \<subseteq> U \<and> ids_available (ast_gen st) (map fst ms)"

context message_store
begin

lemma merge_ready_step:
  assumes "merge_ready A D absent U st ((now, m) # ms)"
  shows "\<exists>st' r. merge A now m st = (st', r) \<and> (\<forall>p. r \<noteq> Panic p) \<and> merge_ready A D absent U st' ms"
proof -
  from assms obtain M where rep: "store_rep A D absent U (ast_db st) M" "ast_def st = D" "m \<in> U" "set (map snd ms) \<subseteq> U"
    and t: "ids_available (ast_gen st) (now # map fst ms)" by (auto simp: merge_ready_def)
  from merge_refines_lww [OF rep(1,3,2) ids_generate(1) [OF t]] obtain st' r where
    s: "merge A now m st = (st', r)" "ast_def st' = D" "store_rep A D absent U (ast_db st') (lww D rank m M)"
      "ast_gen st' = ast_gen st \<or> ast_gen st' = tick (ast_gen st) now"
      "merge_outcome A D rank m (tick_id (ast_gen st) now) (M (m_akey D m)) r" by blast
  have "ids_available (ast_gen st') (map fst ms)" using s(4) ids_next [OF t] by auto
  moreover have "r \<noteq> Panic p" for p using s(5) by (auto simp: merge_outcome_def split: option.splits if_splits)
  ultimately show ?thesis using s rep by (auto simp: merge_ready_def)
qed

end

text \<open>The message that merging a buffer merges, with the clock reading it uses.\<close>

definition clocked :: "js_env \<Rightarrow> (nat \<Rightarrow> u64) \<Rightarrow> bytes \<Rightarrow> (u64 \<times> message) list" where
  "clocked J now b = (case ae_decode (je_account J) b of None \<Rightarrow> [] | Some m \<Rightarrow> [(now 0, m)])"

lemma load_save [simp]: "ast_def st = jst_def (jh_stores h i) \<Longrightarrow> load_store (save_store i st h) i = st"
  by (simp add: load_store_def save_store_def Let_def)

lemma merge_ready_def_of: "merge_ready A D absent U (load_store h i) ms \<Longrightarrow> jst_def (jh_stores h i) = D"
  by (simp add: merge_ready_def load_store_def Let_def)

lemma on_store_ready:
  assumes "message_store (je_account J) D rank absent" "A = je_account J"
    and "merge_ready A D absent U (load_store h i) (clocked J now b @ rest)"
  shows "\<exists>h' r. on_store (merge A (now 0)) i (js_decode J b) h = (h', r) \<and> (\<forall>p. r \<noteq> Panic p) \<and>
    load_store h' i = merge_all A (clocked J now b) (load_store h i) \<and>
    merge_ready A D absent U (load_store h' i) rest"
proof (cases "ae_decode (je_account J) b")
  case None
  with assms(3) show ?thesis by (simp add: on_store_def js_decode_def clocked_def)
next
  case (Some m)
  with assms have "merge_ready A D absent U (load_store h i) ((now 0, m) # rest)" by (simp add: clocked_def)
  from message_store.merge_ready_step [OF assms(1) this [unfolded assms(2)]] obtain st' r where
    s: "merge A (now 0) m (load_store h i) = (st', r)" "\<forall>p. r \<noteq> Panic p" "merge_ready A D absent U st' rest"
    using assms(2) by blast
  from s(3) merge_ready_def_of [OF assms(3)] have "load_store (save_store i st' h) i = st'" by (simp add: merge_ready_def)
  with s Some assms(2) show ?thesis by (auto simp: on_store_def js_decode_def clocked_def)
qed

lemma merge_all_append: "merge_all A (xs @ ys) st = merge_all A ys (merge_all A xs st)"
  by (induction A xs st rule: merge_all.induct) simp_all

text \<open>
  What a client does with one store: merge a message, merge a batch, and let the pool and the
  JavaScript thread work.
\<close>

datatype merge_action =
    MergeOne bytes "nat \<Rightarrow> u64"
  | MergeBatch "bytes list"
  | PoolWork nat "nat \<Rightarrow> u64"
  | Settle

fun action_event :: "js_env \<Rightarrow> nat \<Rightarrow> merge_action \<Rightarrow> js_event" where
  "action_event J i (MergeOne b now) = JsCall (js_merge J) now \<lparr>cx_this = JsBoxStore i, cx_args = [JsBuffer b]\<rparr>"
| "action_event J i (MergeBatch bs) =
     JsCall (js_merge_many J) (\<lambda>_. 0) \<lparr>cx_this = JsBoxStore i, cx_args = [JsArray (map JsBuffer bs)]\<rparr>"
| "action_event J i (PoolWork k now) = JsWork k now"
| "action_event J i Settle = JsSettle"

text \<open>
  The merges in the order in which they are executed; \<open>g\<close> holds what is left of the batches in the pool.
  Working on a batch merges its next message, or settles it when nothing is left of it.
\<close>

fun action_trace :: "js_env \<Rightarrow> merge_action list \<Rightarrow> bytes list list \<Rightarrow> (u64 \<times> message) list" where
  "action_trace J [] g = []"
| "action_trace J (MergeOne b now # acts) g = clocked J now b @ action_trace J acts g"
| "action_trace J (MergeBatch bs # acts) g = action_trace J acts (g @ [bs])"
| "action_trace J (PoolWork k now # acts) g =
     (if k < length g
      then (case g ! k of
              [] \<Rightarrow> action_trace J acts (take_out k g)
            | b # bs \<Rightarrow> clocked J now b @ action_trace J acts (g[k := bs]))
      else action_trace J acts g)"
| "action_trace J (Settle # acts) g = action_trace J acts g"

fun waiting :: "merge_action list \<Rightarrow> bytes list list \<Rightarrow> bytes list list" where
  "waiting [] g = g"
| "waiting (MergeBatch bs # acts) g = waiting acts (g @ [bs])"
| "waiting (PoolWork k now # acts) g =
     waiting acts (if k < length g then (case g ! k of [] \<Rightarrow> take_out k g | b # bs \<Rightarrow> g[k := bs]) else g)"
| "waiting (_ # acts) g = waiting acts g"

fun action_buffers :: "merge_action \<Rightarrow> bytes list" where
  "action_buffers (MergeOne b now) = [b]"
| "action_buffers (MergeBatch bs) = bs"
| "action_buffers _ = []"

definition decoded_messages :: "js_env \<Rightarrow> bytes list \<Rightarrow> message set" where
  "decoded_messages J bs = {m. \<exists>b \<in> set bs. ae_decode (je_account J) b = Some m}"

definition submitted :: "js_env \<Rightarrow> merge_action list \<Rightarrow> message set" where
  "submitted J acts = \<Union> (decoded_messages J ` set (map action_buffers acts))"

lemma set_take_out: "k < length g \<Longrightarrow> set g = insert (g ! k) (set (take_out k g))"
  by (metis mset_take_out set_mset_add_mset_insert set_mset_mset)

lemma clocked_messages: "snd ` set (clocked J now b) = decoded_messages J [b]"
  by (auto simp: clocked_def decoded_messages_def split: option.splits)

lemma submitted_Cons: "submitted J (a # acts) = decoded_messages J (action_buffers a) \<union> submitted J acts"
  by (simp add: submitted_def)

definition pool_messages :: "js_env \<Rightarrow> bytes list list \<Rightarrow> message set" where
  "pool_messages J g = decoded_messages J (concat g)"

lemma decoded_append: "decoded_messages J (bs @ bs') = decoded_messages J bs \<union> decoded_messages J bs'"
  by (auto simp: decoded_messages_def)

lemma decoded_simps [simp]: "decoded_messages J [] = {}"
  by (simp add: decoded_messages_def)

lemma pool_messages_append: "pool_messages J (g @ [bs]) = pool_messages J g \<union> decoded_messages J bs"
  by (simp add: pool_messages_def decoded_append)

lemma pool_messages_take_out: "k < length g \<Longrightarrow> g ! k = [] \<Longrightarrow> pool_messages J (take_out k g) = pool_messages J g"
  using set_take_out [of k g] by (auto simp: pool_messages_def decoded_messages_def)

lemma pool_messages_update:
  assumes "k < length g" "g ! k = b # bs"
  shows "pool_messages J g = decoded_messages J [b] \<union> pool_messages J (g[k := bs])"
proof -
  have "concat g = concat (take k g) @ (b # bs) @ concat (drop (Suc k) g)"
    by (subst id_take_nth_drop [OF assms(1)]) (simp add: assms(2))
  moreover have "concat (g[k := bs]) = concat (take k g) @ bs @ concat (drop (Suc k) g)"
    using assms(1) by (simp add: upd_conv_take_nth_drop)
  ultimately show ?thesis by (auto simp: pool_messages_def decoded_messages_def)
qed

lemma trace_submitted:
  "snd ` set (action_trace J acts g) \<union> pool_messages J (waiting acts g) = submitted J acts \<union> pool_messages J g"
proof (induction J acts g rule: action_trace.induct)
  case (1 J g)
  then show ?case by (simp add: submitted_def)
next
  case (2 J b now acts g)
  then show ?case by (simp add: submitted_Cons image_Un clocked_messages Un_assoc)
next
  case (3 J bs acts g)
  then show ?case by (simp add: submitted_Cons pool_messages_append Un_ac)
next
  case (4 J k now acts g)
  show ?case
  proof (cases "k < length g")
    case True
    show ?thesis
    proof (cases "g ! k")
      case Nil
      with 4(1) True pool_messages_take_out [of k g J] show ?thesis by (simp add: submitted_Cons)
    next
      case (Cons b bs)
      with 4(2) True pool_messages_update [OF True Cons, of J] show ?thesis
        by (simp add: submitted_Cons image_Un clocked_messages Un_assoc Un_left_commute)
    qed
  qed (use 4(3) in \<open>simp add: submitted_Cons\<close>)
next
  case (5 J acts g)
  then show ?case by (simp add: submitted_Cons)
qed

section \<open>Any schedule is an order of the merges\<close>

text \<open>The rest of a batch as the pool holds it, whatever results it has collected.\<close>

definition merge_job :: "js_env \<Rightarrow> nat \<Rightarrow> js_job \<Rightarrow> bytes list \<Rightarrow> bool" where
  "merge_job J i j bs \<longleftrightarrow> (\<exists>results. j = merge_many_job (je_account J) i (map (js_decode J) bs) results)"

lemma js_decode_many_buffers: "js_decode_many J (map JsBuffer bs) = Ok (map (js_decode J) bs)"
  by (induction bs) simp_all

lemmas js_arguments = js_try_def get_store_def downcast_or_throw_def argument_def argument_opt_def

lemma js_merge_many_call:
  "js_merge_many J now \<lparr>cx_this = JsBoxStore i, cx_args = [JsArray (map JsBuffer bs)]\<rparr> h =
     (h, Ok (PoolJob (merge_many_job (je_account J) i (map (js_decode J) bs) [])))"
  by (simp add: js_merge_many_def js_arguments js_decode_many_buffers)

lemma js_merge_call:
  "on_store (merge (je_account J) (now 0)) i (js_decode J b) h = (h', r) \<Longrightarrow>
   js_merge J now \<lparr>cx_this = JsBoxStore i, cx_args = [JsBuffer b]\<rparr> h = (h', promise_result JsBuffer r)"
  by (simp add: js_merge_def js_arguments)

lemma merge_job_done:
  assumes "merge_job J i j []"
  shows "\<exists>r. j = JobDone r"
  using assms by (auto simp: merge_job_def)

lemma merge_job_step:
  assumes "merge_job J i j (b # bs)" "on_store (merge (je_account J) (now 0)) i (js_decode J b) h = (h', r)" "\<forall>p. r \<noteq> Panic p"
  shows "\<exists>f j'. j = JobStep f \<and> f now h = (h', j') \<and> merge_job J i j' bs"
proof -
  from assms(1) obtain results where j: "j = merge_many_job (je_account J) i (js_decode J b # map (js_decode J) bs) results"
    by (auto simp: merge_job_def)
  with assms(2,3) show ?thesis by (cases r) (auto simp: merge_job_def)
qed

lemma list_all2_take_out: "list_all2 P xs ys \<Longrightarrow> list_all2 P (take_out k xs) (take_out k ys)"
  by (simp add: take_out_def list_all2_appendI)

text \<open>One step of the pool on a batch of the store.\<close>

lemma pool_work:
  assumes c: "message_store (je_account J) D rank absent" "A = je_account J"
    and ready: "merge_ready A D absent U (load_store (rt_heap rt) i) (action_trace J (PoolWork k now # acts) g)"
    and pool: "list_all2 (merge_job J i) (map snd (rt_pool rt)) g"
  shows "\<exists>ms g'. action_trace J (PoolWork k now # acts) g = ms @ action_trace J acts g' \<and>
    waiting (PoolWork k now # acts) g = waiting acts g' \<and>
    load_store (rt_heap (js_event_step (JsWork k now) rt)) i = merge_all A ms (load_store (rt_heap rt) i) \<and>
    merge_ready A D absent U (load_store (rt_heap (js_event_step (JsWork k now) rt)) i) (action_trace J acts g') \<and>
    list_all2 (merge_job J i) (map snd (rt_pool (js_event_step (JsWork k now) rt))) g'"
proof (cases "k < length g")
  case False
  with list_all2_lengthD [OF pool] ready pool show ?thesis by (intro exI [of _ "[]"] exI [of _ g]) simp
next
  case True
  with list_all2_lengthD [OF pool] have k: "k < length (rt_pool rt)" by simp
  obtain p j where j: "rt_pool rt ! k = (p, j)" by fastforce
  have job: "merge_job J i j (g ! k)" using list_all2_nthD2 [OF pool True] j k by simp
  show ?thesis
  proof (cases "g ! k")
    case Nil
    with merge_job_done [of J i j] job obtain r where r: "j = JobDone r" by auto
    have "list_all2 (merge_job J i) (map snd (take_out k (rt_pool rt))) (take_out k g)"
      using list_all2_take_out [OF pool, of k] by (simp add: take_out_def take_map drop_map)
    with ready k j r True Nil show ?thesis by (intro exI [of _ "[]"] exI [of _ "take_out k g"]) simp
  next
    case (Cons b bs)
    with True ready have
      "merge_ready A D absent U (load_store (rt_heap rt) i) (clocked J now b @ action_trace J acts (g[k := bs]))" by simp
    from on_store_ready [OF c this] obtain h' r where
      h: "on_store (merge A (now 0)) i (js_decode J b) (rt_heap rt) = (h', r)" "\<forall>p. r \<noteq> Panic p"
        "load_store h' i = merge_all A (clocked J now b) (load_store (rt_heap rt) i)"
        "merge_ready A D absent U (load_store h' i) (action_trace J acts (g[k := bs]))" by blast
    from merge_job_step [where now = now, OF job [unfolded Cons] h(1) [unfolded c(2)] h(2)] obtain f j' where
      f: "j = JobStep f" "f now (rt_heap rt) = (h', j')" "merge_job J i j' bs" by blast
    have "list_all2 (merge_job J i) (map snd ((rt_pool rt)[k := (p, j')])) (g[k := bs])"
      using list_all2_update_cong [OF pool f(3), of k] by (simp add: map_update)
    with k j f(1,2) h(3,4) True Cons show ?thesis
      by (intro exI [of _ "clocked J now b"] exI [of _ "g[k := bs]"]) simp
  qed
qed

lemma run_merges:
  assumes "message_store (je_account J) D rank absent" "A = je_account J"
    and "merge_ready A D absent U (load_store (rt_heap rt) i) (action_trace J acts g)"
    and "list_all2 (merge_job J i) (map snd (rt_pool rt)) g"
  shows "load_store (rt_heap (js_run (map (action_event J i) acts) rt)) i =
      merge_all A (action_trace J acts g) (load_store (rt_heap rt) i) \<and>
    list_all2 (merge_job J i) (map snd (rt_pool (js_run (map (action_event J i) acts) rt))) (waiting acts g)"
  using assms(3,4)
proof (induction acts arbitrary: rt g)
  case (Cons act acts)
  let ?rt = "js_event_step (action_event J i act) rt"
  show ?case
  proof (cases act)
    case (MergeOne b now)
    with Cons.prems on_store_ready [OF assms(1,2), of U "rt_heap rt" i now b "action_trace J acts g"] obtain h' r where
      h: "on_store (merge A (now 0)) i (js_decode J b) (rt_heap rt) = (h', r)" "\<forall>p. r \<noteq> Panic p"
        "load_store h' i = merge_all A (clocked J now b) (load_store (rt_heap rt) i)"
        "merge_ready A D absent U (load_store h' i) (action_trace J acts g)" by auto
    obtain t where t: "promise_result JsBuffer r = Ok (SettleWith t)"
      using h(2) by (cases r) (auto simp: promise_result_def settle_result_def)
    with MergeOne h(1) assms(2) js_merge_call [of J now i b "rt_heap rt" h' r]
    have "rt_heap ?rt = h'" "rt_pool ?rt = rt_pool rt" by (simp_all add: js_promise_def)
    with Cons.IH [of ?rt g] Cons.prems(2) h(3,4) MergeOne show ?thesis
      by (simp add: merge_all_append del: js_event_step.simps)
  next
    case (MergeBatch bs)
    have "rt_heap ?rt = rt_heap rt" "map snd (rt_pool ?rt) = map snd (rt_pool rt) @
        [merge_many_job (je_account J) i (map (js_decode J) bs) []]"
      using MergeBatch by (simp_all add: js_merge_many_call js_promise_def)
    moreover have "merge_job J i (merge_many_job (je_account J) i (map (js_decode J) bs) []) bs"
      by (auto simp: merge_job_def)
    ultimately show ?thesis using Cons.IH [of ?rt "g @ [bs]"] Cons.prems MergeBatch
      by (simp add: list_all2_appendI del: js_event_step.simps)
  next
    case (PoolWork k now)
    from pool_work [OF assms(1,2) Cons.prems [unfolded PoolWork]] obtain ms g' where
      w: "action_trace J (act # acts) g = ms @ action_trace J acts g'" "waiting (act # acts) g = waiting acts g'"
        "load_store (rt_heap ?rt) i = merge_all A ms (load_store (rt_heap rt) i)"
        "merge_ready A D absent U (load_store (rt_heap ?rt) i) (action_trace J acts g')"
        "list_all2 (merge_job J i) (map snd (rt_pool ?rt)) g'"
      unfolding PoolWork action_event.simps by blast
    from Cons.IH [OF w(4,5)] w(1-3) show ?thesis
      by (simp add: merge_all_append del: js_event_step.simps action_trace.simps waiting.simps)
  next
    case Settle
    have "rt_heap ?rt = rt_heap rt" "rt_pool ?rt = rt_pool rt" using Settle by (auto split: list.splits)
    with Cons.IH [of ?rt g] Cons.prems Settle show ?thesis by (simp del: js_event_step.simps)
  qed
qed simp

end
