(* ===== verification/Sample_Js.thy ===== *)
theory Sample_Js
  imports Js_Runtime Sample_Account
begin

text \<open>A heap with one cast store, for the JavaScript bindings.\<close>

definition sample_js :: js_env where
  "sample_js = \<lparr>je_account = sample_account_env, je_decode_error = (\<lambda>_. ''invalid wire type''),
     je_decode_cast_id = (\<lambda>_. Inl ''invalid wire type''), je_utf8_lossy = map (\<lambda>b. char_of (unat b))\<rparr>"

definition sample_heap :: js_heap where
  "sample_heap = \<lparr>jh_dbs = (\<lambda>_. sample_db), jh_handlers = (\<lambda>_. sample_generator),
     jh_stores = (\<lambda>_. \<lparr>jst_def = cast_store_def 1, jst_db = 0, jst_handler = 0\<rparr>), jh_next = 1\<rparr>"

lemma sample_js_simps [simp]: "je_account sample_js = sample_account_env" "load_store sample_heap 0 = sample_cast_store"
  by (simp_all add: sample_js_def sample_heap_def load_store_def sample_cast_store_def cast_store_new_def
      new_with_store_def_def)

lemma sample_decodes [simp]:
  "ae_decode sample_account_env [0] = Some sample_cast" "ae_decode sample_account_env [2] = Some sample_uncast"
  "ae_decode sample_account_env [77] = None"
  by (simp_all add: sample_account_env_def sample_decode_message_def sample_pool_def Let_def)

end
