(* ===== verification/File_System.thy ===== *)
theory File_System
  imports Consensus_Facts
begin

text \<open>
  Directories and files, as far as the program uses them, and the operations of the database wrapper
  that go to the file system: \<open>location\<close>, \<open>destroy\<close> and \<open>approximate_size\<close> of \<open>storage/db/rocksdb.rs\<close>.

  A path is the list of its components.  The operating system may refuse to change a path; which ones
  it refuses is part of the state.  \<open>rocksdb::DB::destroy\<close> is the crate's, an argument.
\<close>

section \<open>Paths and files\<close>

type_synonym path = "string list"

definition path_of :: "string \<Rightarrow> path" where
  "path_of s = (case split_on (CHR ''/'') s of
     [] \<Rightarrow> []
   | c # cs \<Rightarrow> (if c = [] \<and> cs \<noteq> [] then [[]] else []) @ filter (\<lambda>x. x \<noteq> [] \<and> x \<noteq> ''.'') (c # cs))"

record file_system =
  fs_dirs :: "path list"
  fs_files :: "(path \<times> bytes) list"
  fs_refused :: "path \<Rightarrow> string option"

definition path_exists :: "file_system \<Rightarrow> path \<Rightarrow> bool" where
  "path_exists fs p \<longleftrightarrow> p \<in> set (fs_dirs fs) \<or> p \<in> fst ` set (fs_files fs)"

text \<open>A relative path of one component has the working directory, the empty path, as its parent.\<close>

definition has_parent :: "file_system \<Rightarrow> path \<Rightarrow> bool" where
  "has_parent fs p \<longleftrightarrow> butlast p = [] \<or> butlast p \<in> set (fs_dirs fs)"

definition fs_create_dir :: "path \<Rightarrow> file_system \<Rightarrow> file_system \<times> (string, unit) result" where
  "fs_create_dir p fs =
     (case fs_refused fs p of
        Some e \<Rightarrow> (fs, Err e)
      | None \<Rightarrow>
          if path_exists fs p then (fs, Err ''File exists'')
          else if \<not> has_parent fs p then (fs, Err ''No such file or directory'')
          else (fs\<lparr>fs_dirs := p # fs_dirs fs\<rparr>, Ok ()))"

definition fs_write :: "path \<Rightarrow> bytes \<Rightarrow> file_system \<Rightarrow> file_system \<times> (string, unit) result" where
  "fs_write p content fs =
     (case fs_refused fs p of
        Some e \<Rightarrow> (fs, Err e)
      | None \<Rightarrow>
          if p \<in> set (fs_dirs fs) then (fs, Err ''Is a directory'')
          else if \<not> has_parent fs p then (fs, Err ''No such file or directory'')
          else (fs\<lparr>fs_files := hm_insert p content (fs_files fs)\<rparr>, Ok ()))"

text \<open>A directory goes with everything below it.\<close>

definition fs_remove_tree :: "path \<Rightarrow> file_system \<Rightarrow> file_system" where
  "fs_remove_tree p fs =
     fs\<lparr>fs_dirs := filter (\<lambda>q. \<not> prefix p q) (fs_dirs fs), fs_files := filter (\<lambda>e. \<not> prefix p (fst e)) (fs_files fs)\<rparr>"

definition fs_remove_dir_all :: "path \<Rightarrow> file_system \<Rightarrow> file_system \<times> (string, unit) result" where
  "fs_remove_dir_all p fs =
     (case fs_refused fs p of
        Some e \<Rightarrow> (fs, Err e)
      | None \<Rightarrow>
          if p \<in> set (fs_dirs fs) then (fs_remove_tree p fs, Ok ())
          else if path_exists fs p then (fs, Err ''Not a directory'')
          else (fs, Err ''No such file or directory''))"

section \<open>The files of a database\<close>

definition rocksdb_location :: "rocksdb \<Rightarrow> string" where
  "rocksdb_location self = rdb_path self"

text \<open>The result of removing the directory is ignored; that of the crate is returned.\<close>

definition rocksdb_destroy ::
  "(path \<Rightarrow> file_system \<Rightarrow> file_system \<times> (string, unit) result) \<Rightarrow> rocksdb \<Rightarrow> file_system \<Rightarrow>
     rocksdb \<times> file_system \<times> (rocksdb_error, unit) result" where
  "rocksdb_destroy destroy_fn self fs =
     (let self1 = rocksdb_close self;
          p = path_of (rdb_path self1)
      in case destroy_fn p fs of
           (fs1, r) \<Rightarrow> (self1, fst (fs_remove_dir_all p fs1), map_err InternalError r))"

text \<open>The sizes of the files below the location.\<close>

definition rocksdb_approximate_size :: "rocksdb \<Rightarrow> file_system \<Rightarrow> (string, u64) result" where
  "rocksdb_approximate_size self fs =
     (let n = sum_list (map (\<lambda>e. length (snd e)) (filter (\<lambda>e. prefix (path_of (rocksdb_location self)) (fst e)) (fs_files fs)))
      in if n < 2 ^ 64 then Ok (of_nat n) else Panic add_overflow)"

section \<open>Facts\<close>

text \<open>Below a path: what a removal of the path takes away.\<close>

definition below :: "path \<Rightarrow> file_system \<Rightarrow> path set" where
  "below p fs = {q. prefix p q \<and> path_exists fs q}"

definition fs_wf :: "file_system \<Rightarrow> bool" where
  "fs_wf fs \<longleftrightarrow> (\<forall>q. path_exists fs q \<longrightarrow> has_parent fs q) \<and> (\<forall>q \<in> set (fs_dirs fs). q \<notin> fst ` set (fs_files fs))"

lemma remove_tree_exists: "path_exists (fs_remove_tree p fs) q \<longleftrightarrow> path_exists fs q \<and> \<not> prefix p q"
  by (auto simp: path_exists_def fs_remove_tree_def)

lemma remove_tree_file:
  "map_of (fs_files (fs_remove_tree p fs)) q = (if prefix p q then None else map_of (fs_files fs) q)"
proof -
  have "map_of (filter (\<lambda>e. \<not> prefix p (fst e)) es) q = (if prefix p q then None else map_of es q)" for es :: "(path \<times> bytes) list"
    by (induction es) auto
  then show ?thesis by (simp add: fs_remove_tree_def)
qed

lemma remove_tree_below: "below p (fs_remove_tree p fs) = {}"
  by (simp add: below_def remove_tree_exists)

lemma create_dir_ok:
  assumes "fs_refused fs p = None" "\<not> path_exists fs p" "has_parent fs p"
  shows "fs_create_dir p fs = (fs\<lparr>fs_dirs := p # fs_dirs fs\<rparr>, Ok ())"
  using assms by (simp add: fs_create_dir_def)

lemma write_ok:
  assumes "fs_refused fs p = None" "p \<notin> set (fs_dirs fs)" "has_parent fs p"
  shows "fs_write p content fs = (fs\<lparr>fs_files := hm_insert p content (fs_files fs)\<rparr>, Ok ())"
  using assms by (simp add: fs_write_def)

lemma file_exists: "p \<in> fst ` set (fs_files fs) \<longleftrightarrow> map_of (fs_files fs) p \<noteq> None"
  by (simp add: map_of_eq_None_iff)

text \<open>Well-formedness is kept.\<close>

lemma wf_create_dir:
  assumes "fs_wf fs" "\<not> path_exists fs p" "has_parent fs p"
  shows "fs_wf (fs\<lparr>fs_dirs := p # fs_dirs fs\<rparr>)"
  using assms by (auto simp: fs_wf_def path_exists_def has_parent_def)

lemma wf_write:
  assumes "fs_wf fs" "p \<notin> set (fs_dirs fs)" "has_parent fs p"
  shows "fs_wf (fs\<lparr>fs_files := hm_insert p content (fs_files fs)\<rparr>)"
  using assms by (auto simp: fs_wf_def path_exists_def has_parent_def hm_keys_insert)

lemma wf_remove_tree:
  assumes "fs_wf fs"
  shows "fs_wf (fs_remove_tree p fs)"
proof -
  have "\<not> prefix p (butlast q)" if "\<not> prefix p q" for q :: path
    using that prefix_order.trans [of p "butlast q" q] by (metis append_butlast_last_id butlast.simps(1) prefixI prefix_order.refl)
  with assms show ?thesis
    by (auto simp: fs_wf_def remove_tree_exists has_parent_def) (auto simp: fs_remove_tree_def)
qed

lemma wf_below:
  assumes "fs_wf fs" "\<not> path_exists fs p" "p \<noteq> []"
  shows "below p fs = {}"
proof -
  have "\<not> path_exists fs (p @ r)" for r
  proof (induction r rule: rev_induct)
    case (snoc x r)
    then have "p @ r \<notin> set (fs_dirs fs)" by (simp add: path_exists_def)
    moreover have "butlast (p @ r @ [x]) = p @ r" by (simp add: butlast_append)
    ultimately have "\<not> has_parent fs (p @ r @ [x])" using assms(3) by (simp add: has_parent_def)
    with assms(1) show ?case by (auto simp: fs_wf_def)
  qed (use assms in simp)
  then show ?thesis by (auto simp: below_def prefix_def)
qed

text \<open>Destroying a database leaves nothing of it, whatever the crate removed, unless it is refused or the location is no directory.\<close>

lemma destroy_removes:
  assumes d: "destroy_fn (path_of (rdb_path self)) fs = (fs1, r)" and p: "path_of (rdb_path self) \<in> set (fs_dirs fs1)"
    and ok: "fs_refused fs1 (path_of (rdb_path self)) = None"
  shows "\<exists>fs'. rocksdb_destroy destroy_fn self fs = (rocksdb_close self, fs', map_err InternalError r) \<and>
    below (path_of (rdb_path self)) fs' = {} \<and> rocksdb_approximate_size self fs' = Ok 0"
proof -
  have "filter (\<lambda>e. prefix q (fst e)) (fs_files (fs_remove_tree q fs1)) = []" for q
    by (simp add: fs_remove_tree_def filter_empty_conv)
  with assms remove_tree_below show ?thesis
    by (simp add: rocksdb_destroy_def rocksdb_close_def fs_remove_dir_all_def rocksdb_approximate_size_def rocksdb_location_def)
qed

end
