(* ===== verification/Node_Setup.thy ===== *)
theory Node_Setup
  imports Node_Config File_System Account_Message
begin

text \<open>
  The run of \<open>bin/setup.rs\<close>: directories and configuration files for the nodes of a local network,
  written into the file system.  The key that is generated for a node and the printed form of the
  delay are arguments.
\<close>

definition node_dir :: "nat \<Rightarrow> string" where
  "node_dir i = ''nodes/'' @ dec_digits i"

definition node_config_path :: "nat \<Rightarrow> string" where
  "node_config_path i = ''nodes/'' @ dec_digits i @ ''/snapchain.toml''"

definition expect_io :: "string \<Rightarrow> file_system \<times> (string, unit) result \<Rightarrow> (file_system \<Rightarrow> file_system \<times> (string, unit) result) \<Rightarrow>
    file_system \<times> (string, unit) result" where
  "expect_io msg a f = (case a of (fs, Ok u) \<Rightarrow> f fs | (fs, Err e) \<Rightarrow> (fs, Panic (msg @ '': '' @ e)) | (fs, Panic p) \<Rightarrow> (fs, Panic p))"

definition setup_node_dir :: "nat \<Rightarrow> file_system \<Rightarrow> file_system \<times> (string, unit) result" where
  "setup_node_dir i fs =
     (if \<not> path_exists fs (path_of (node_dir i))
      then expect_io ''Failed to create node directory'' (fs_create_dir (path_of (node_dir i)) fs) (\<lambda>fs1. (fs1, Ok ()))
      else if path_exists fs (path_of (setup_db_dir i))
      then expect_io ''Failed to remove .rocks directory'' (fs_remove_dir_all (path_of (setup_db_dir i)) fs) (\<lambda>fs1. (fs1, Ok ()))
      else (fs, Ok ()))"

definition setup_node :: "(nat \<Rightarrow> string) \<Rightarrow> string \<Rightarrow> nat \<Rightarrow> file_system \<Rightarrow> file_system \<times> (string, unit) result" where
  "setup_node key delay i fs =
     (case setup_node_dir i fs of
        (fs1, Ok u) \<Rightarrow>
          expect_io ''Failed to write config file''
            (fs_write (path_of (node_config_path i)) (as_bytes (setup_config_file i (key i) delay)) fs1) (\<lambda>fs2. (fs2, Ok ()))
      | (fs1, r) \<Rightarrow> (fs1, r))"

fun setup_loop :: "(nat \<Rightarrow> string) \<Rightarrow> string \<Rightarrow> nat list \<Rightarrow> file_system \<Rightarrow> file_system \<times> (string, unit) result" where
  "setup_loop key delay [] fs = (fs, Ok ())"
| "setup_loop key delay (i # is') fs =
     (case setup_node key delay i fs of
        (fs1, Ok u) \<Rightarrow> setup_loop key delay is' fs1
      | (fs1, r) \<Rightarrow> (fs1, r))"

definition setup_main :: "(nat \<Rightarrow> string) \<Rightarrow> string \<Rightarrow> file_system \<Rightarrow> file_system \<times> (string, unit) result" where
  "setup_main key delay fs =
     (if \<not> path_exists fs (path_of ''nodes'')
      then expect_io ''Failed to create nodes directory'' (fs_create_dir (path_of ''nodes'') fs)
             (setup_loop key delay [1..<Suc setup_nodes])
      else setup_loop key delay [1..<Suc setup_nodes] fs)"

section \<open>The nodes are ready\<close>

lemma dec_digits_chars: "CHR ''/'' \<notin> set (dec_digits i)" "dec_digits i \<noteq> ''.''"
  using dec_digits_set [of "CHR ''/''" i] dec_digits_set [of "CHR ''.''" i] by (auto simp: digit_of_def)

lemma setup_paths:
  "path_of ''nodes'' = [''nodes'']" "path_of (node_dir i) = [''nodes'', dec_digits i]"
  "path_of (setup_db_dir i) = [''nodes'', dec_digits i, ''.rocks'']"
  "path_of (node_config_path i) = [''nodes'', dec_digits i, ''snapchain.toml'']"
proof -
  have s: "split_on (CHR ''/'') (''nodes/'' @ t) = ''nodes'' # split_on (CHR ''/'') t" for t by simp
  note d = dec_digits_chars split_on_no_sep [OF dec_digits_chars(1)] split_on_append [OF dec_digits_chars(1)]
  show "path_of ''nodes'' = [''nodes'']" by (simp add: path_of_def)
  show "path_of (node_dir i) = [''nodes'', dec_digits i]"
    unfolding path_of_def node_dir_def s using d by simp
  show "path_of (setup_db_dir i) = [''nodes'', dec_digits i, ''.rocks'']"
    unfolding path_of_def setup_db_dir_def s using d(2,4) by simp
  show "path_of (node_config_path i) = [''nodes'', dec_digits i, ''snapchain.toml'']"
    unfolding path_of_def node_config_path_def s using d(2,4) by simp
qed

text \<open>
  What the run expects of the place it finds: no refusals, and what it needs as directories are no
  files and the other way round.
\<close>

definition setup_ready :: "file_system \<Rightarrow> bool" where
  "setup_ready fs \<longleftrightarrow> fs_wf fs \<and> (\<forall>p. fs_refused fs p = None) \<and> [''nodes''] \<notin> fst ` set (fs_files fs) \<and>
     (\<forall>i. [''nodes'', dec_digits i] \<notin> fst ` set (fs_files fs) \<and>
          [''nodes'', dec_digits i, ''.rocks''] \<notin> fst ` set (fs_files fs) \<and>
          [''nodes'', dec_digits i, ''snapchain.toml''] \<notin> set (fs_dirs fs))"

definition node_ready :: "(nat \<Rightarrow> string) \<Rightarrow> string \<Rightarrow> nat \<Rightarrow> file_system \<Rightarrow> bool" where
  "node_ready key delay i fs \<longleftrightarrow>
     map_of (fs_files fs) (path_of (node_config_path i)) = Some (as_bytes (setup_config_file i (key i) delay)) \<and>
     below (path_of (setup_db_dir i)) fs = {}"

text \<open>Outside the directories of the nodes nothing changes.\<close>

definition fs_same_outside :: "nat set \<Rightarrow> file_system \<Rightarrow> file_system \<Rightarrow> bool" where
  "fs_same_outside I fs fs' \<longleftrightarrow>
     (\<forall>p. (\<forall>i \<in> I. \<not> prefix [''nodes'', dec_digits i] p) \<longrightarrow>
       map_of (fs_files fs') p = map_of (fs_files fs) p \<and> (p \<in> set (fs_dirs fs') \<longleftrightarrow> p \<in> set (fs_dirs fs)))"

lemma setup_readyD:
  assumes "setup_ready fs"
  shows "fs_wf fs" "fs_refused fs p = None" "[''nodes''] \<notin> fst ` set (fs_files fs)"
    "[''nodes'', dec_digits i] \<notin> fst ` set (fs_files fs)" "[''nodes'', dec_digits i, ''.rocks''] \<notin> fst ` set (fs_files fs)"
    "[''nodes'', dec_digits i, ''snapchain.toml''] \<notin> set (fs_dirs fs)"
  using assms by (simp_all add: setup_ready_def)

lemma setup_node_dir_ok:
  assumes r: "setup_ready fs" and n: "[''nodes''] \<in> set (fs_dirs fs)"
  obtains fs' where "setup_node_dir i fs = (fs', Ok ())" "setup_ready fs'" "[''nodes''] \<in> set (fs_dirs fs')"
    "[''nodes'', dec_digits i] \<in> set (fs_dirs fs')" "below [''nodes'', dec_digits i, ''.rocks''] fs' = {}" "fs_same_outside {i} fs fs'"
proof -
  let ?d = "[''nodes'', dec_digits i]" and ?r = "[''nodes'', dec_digits i, ''.rocks'']"
  note rd = setup_readyD [OF r]
  consider (fresh) "\<not> path_exists fs ?d" | (old) "?d \<in> set (fs_dirs fs)" "?r \<in> set (fs_dirs fs)"
    | (clean) "?d \<in> set (fs_dirs fs)" "\<not> path_exists fs ?r"
    using rd(4,5) [of i] by (auto simp: path_exists_def)
  then show thesis
  proof cases
    case fresh
    let ?fs = "fs\<lparr>fs_dirs := ?d # fs_dirs fs\<rparr>"
    have p: "has_parent fs ?d" using n by (simp add: has_parent_def)
    have "setup_node_dir i fs = (?fs, Ok ())"
      using fresh create_dir_ok [OF rd(2) fresh p] by (simp add: setup_node_dir_def setup_paths expect_io_def)
    moreover have w: "fs_wf ?fs" using wf_create_dir [OF rd(1) fresh p] .
    moreover have "\<not> path_exists fs ?r"
      using wf_below [OF rd(1) fresh] by (auto simp: below_def)
    then have "below ?r ?fs = {}" using wf_below [OF w, of ?r] by (simp add: path_exists_def)
    ultimately show thesis using r n by (intro that [of ?fs]) (auto simp: setup_ready_def fs_same_outside_def)
  next
    case old
    let ?fs = "fs_remove_tree ?r fs"
    have "setup_node_dir i fs = (?fs, Ok ())"
      using old rd(2) by (simp add: setup_node_dir_def setup_paths expect_io_def fs_remove_dir_all_def path_exists_def)
    moreover have "setup_ready ?fs"
      using r wf_remove_tree [OF rd(1)] by (auto simp: setup_ready_def fs_remove_tree_def)
    moreover have "fs_same_outside {i} fs ?fs"
    proof -
      have "\<not> prefix ?r q" if "\<not> prefix ?d q" for q using that by (auto simp: prefix_def)
      then show ?thesis by (auto simp: fs_same_outside_def remove_tree_file) (auto simp: fs_remove_tree_def)
    qed
    ultimately show thesis using old(1) n remove_tree_below
      by (intro that [of ?fs]) (auto simp: fs_remove_tree_def)
  next
    case clean
    then have "setup_node_dir i fs = (fs, Ok ())" by (simp add: setup_node_dir_def setup_paths path_exists_def)
    with clean r n wf_below [OF rd(1) clean(2)] show thesis by (intro that [of fs]) (auto simp: fs_same_outside_def)
  qed
qed

lemma setup_node_ok:
  assumes r: "setup_ready fs" and n: "[''nodes''] \<in> set (fs_dirs fs)"
  obtains fs' where "setup_node key delay i fs = (fs', Ok ())" "setup_ready fs'" "[''nodes''] \<in> set (fs_dirs fs')"
    "node_ready key delay i fs'" "fs_same_outside {i} fs fs'"
proof -
  obtain fs1 where s: "setup_node_dir i fs = (fs1, Ok ())" "setup_ready fs1" "[''nodes''] \<in> set (fs_dirs fs1)"
    "[''nodes'', dec_digits i] \<in> set (fs_dirs fs1)" "below [''nodes'', dec_digits i, ''.rocks''] fs1 = {}" "fs_same_outside {i} fs fs1"
    using r n by (rule setup_node_dir_ok)
  let ?c = "[''nodes'', dec_digits i, ''snapchain.toml'']" and ?b = "as_bytes (setup_config_file i (key i) delay)"
  let ?fs = "fs1\<lparr>fs_files := hm_insert ?c ?b (fs_files fs1)\<rparr>"
  note rd = setup_readyD [OF s(2)]
  have p: "has_parent fs1 ?c" using s(4) by (simp add: has_parent_def)
  have "setup_node key delay i fs = (?fs, Ok ())"
    using write_ok [OF rd(2) rd(6) p] by (simp add: setup_node_def s(1) setup_paths expect_io_def)
  moreover have "setup_ready ?fs"
    using s(2) wf_write [OF rd(1) rd(6) p] by (auto simp: setup_ready_def hm_keys_insert)
  moreover have "node_ready key delay i ?fs"
    using s(5) by (auto simp: node_ready_def setup_paths hm_get_insert below_def path_exists_def hm_keys_insert)
  moreover have "fs_same_outside {i} fs ?fs" using s(6) by (auto simp: fs_same_outside_def hm_get_insert)
  ultimately show thesis using s(3) by (intro that [of ?fs]) simp_all
qed

text \<open>A node that is ready stays so while the others are set up.\<close>

lemma node_ready_same:
  assumes "node_ready key delay j fs" "fs_same_outside {i} fs fs'" "dec_digits i \<noteq> dec_digits j"
  shows "node_ready key delay j fs'"
proof -
  have o: "map_of (fs_files fs') p = map_of (fs_files fs) p \<and> (p \<in> set (fs_dirs fs') \<longleftrightarrow> p \<in> set (fs_dirs fs))"
    if "prefix [''nodes'', dec_digits j] p" for p
  proof -
    have "\<not> prefix [''nodes'', dec_digits i] p" using that assms(3) by (auto simp: prefix_def)
    with assms(2) show ?thesis by (simp add: fs_same_outside_def)
  qed
  have "path_exists fs' q \<longleftrightarrow> path_exists fs q" if "prefix [''nodes'', dec_digits j, ''.rocks''] q" for q
  proof -
    from that have "prefix [''nodes'', dec_digits j] q" by (auto simp: prefix_def)
    from o [OF this] show ?thesis by (simp add: path_exists_def file_exists)
  qed
  with assms(1) o [of "[''nodes'', dec_digits j, ''snapchain.toml'']"] show ?thesis
    by (auto simp: node_ready_def setup_paths below_def)
qed

lemma setup_loop_ok:
  assumes "setup_ready fs" "[''nodes''] \<in> set (fs_dirs fs)" "distinct (map dec_digits ns)"
  obtains fs' where "setup_loop key delay ns fs = (fs', Ok ())" "\<forall>i \<in> set ns. node_ready key delay i fs'"
    "fs_same_outside (set ns) fs fs'" "setup_ready fs'" "\<forall>j. dec_digits j \<notin> dec_digits ` set ns \<longrightarrow> node_ready key delay j fs \<longrightarrow> node_ready key delay j fs'"
  using assms
proof (induction ns arbitrary: fs thesis)
  case Nil
  show ?case by (rule Nil.prems(1) [of fs]) (use Nil.prems in \<open>simp_all add: fs_same_outside_def\<close>)
next
  case (Cons i ns)
  obtain fs1 where s: "setup_node key delay i fs = (fs1, Ok ())" "setup_ready fs1" "[''nodes''] \<in> set (fs_dirs fs1)"
    "node_ready key delay i fs1" "fs_same_outside {i} fs fs1"
    using Cons.prems(2,3) by (rule setup_node_ok)
  have d: "distinct (map dec_digits ns)" "dec_digits i \<notin> dec_digits ` set ns" using Cons.prems(4) by simp_all
  obtain fs2 where t: "setup_loop key delay ns fs1 = (fs2, Ok ())" "\<forall>i \<in> set ns. node_ready key delay i fs2"
    "fs_same_outside (set ns) fs1 fs2" "setup_ready fs2"
    "\<forall>j. dec_digits j \<notin> dec_digits ` set ns \<longrightarrow> node_ready key delay j fs1 \<longrightarrow> node_ready key delay j fs2"
    using Cons.IH [OF _ s(2,3) d(1)] by blast
  show ?case
  proof (rule Cons.prems(1) [of fs2])
    show "setup_loop key delay (i # ns) fs = (fs2, Ok ())" using s(1) t(1) by simp
    show "\<forall>j \<in> set (i # ns). node_ready key delay j fs2" using t(2,5) s(4) d(2) by simp
    show "fs_same_outside (set (i # ns)) fs fs2" using t(3) s(5) by (simp add: fs_same_outside_def)
    show "\<forall>j. dec_digits j \<notin> dec_digits ` set (i # ns) \<longrightarrow> node_ready key delay j fs \<longrightarrow> node_ready key delay j fs2"
      using t(5) node_ready_same [OF _ s(5)] by (metis image_insert insertCI list.simps(15))
  qed (rule t(4))
qed

lemma setup_digits: "distinct (map dec_digits [1..<Suc setup_nodes])"
proof -
  have "inj_on dec_digits {1..<Suc setup_nodes}"
    using parse_dec_digits by (auto simp: inj_on_def setup_nodes_def dest!: arg_cong [where f = "parse_digits 0"])
  then show ?thesis by (simp add: distinct_map del: upt_Suc)
qed

theorem setup_prepares_nodes:
  assumes "setup_ready fs"
  shows "\<exists>fs'. setup_main key delay fs = (fs', Ok ()) \<and> (\<forall>i \<in> {1..setup_nodes}. node_ready key delay i fs') \<and>
    (\<forall>p. \<not> prefix [''nodes''] p \<longrightarrow> map_of (fs_files fs') p = map_of (fs_files fs) p)"
proof -
  let ?n = "[''nodes'']"
  obtain fs1 where s: "setup_main key delay fs = setup_loop key delay [1..<Suc setup_nodes] fs1" "setup_ready fs1"
    "?n \<in> set (fs_dirs fs1)" "fs_files fs1 = fs_files fs"
  proof (cases "path_exists fs ?n")
    case False
    have p: "has_parent fs ?n" by (simp add: has_parent_def)
    have "setup_ready (fs\<lparr>fs_dirs := ?n # fs_dirs fs\<rparr>)"
      using assms wf_create_dir [OF setup_readyD(1) [OF assms] False p] by (simp add: setup_ready_def)
    with False create_dir_ok [OF setup_readyD(2) [OF assms] False p] show thesis
      by (intro that [of "fs\<lparr>fs_dirs := ?n # fs_dirs fs\<rparr>"]) (simp_all add: setup_main_def setup_paths expect_io_def)
  next
    case True
    with setup_readyD(3) [OF assms] assms show thesis
      by (intro that [of fs]) (simp_all add: setup_main_def setup_paths path_exists_def)
  qed
  obtain fs2 where t: "setup_loop key delay [1..<Suc setup_nodes] fs1 = (fs2, Ok ())"
    "\<forall>i \<in> set [1..<Suc setup_nodes]. node_ready key delay i fs2" "fs_same_outside (set [1..<Suc setup_nodes]) fs1 fs2"
    using s(2,3) setup_digits by (rule setup_loop_ok)
  have "map_of (fs_files fs2) p = map_of (fs_files fs) p" if "\<not> prefix ?n p" for p
  proof -
    have "\<not> prefix [''nodes'', dec_digits i] p" for i using that by (auto simp: prefix_def)
    with t(3) s(4) show ?thesis by (simp add: fs_same_outside_def)
  qed
  with s(1) t(1,2) show ?thesis by auto
qed

end
