(* ===== verification/Malachite_Context.thy ===== *)
theory Malachite_Context
  imports Consensus_Facts
begin

text \<open>
  How \<open>core/types.rs\<close> presents its types to the consensus library: the implementations of the traits
  of \<open>malachite_common\<close>, most of them accessors, the parts that are not implemented (\<open>todo!\<close>, which
  panics), and the printed forms.  What the library relies on is the locale \<open>consensus_context\<close>; the
  types of the program are an instance of it.  The Ed25519 keys are a parameter.
\<close>

section \<open>Shards, hashes and signatures\<close>

datatype snapchain_shard = SnapchainShard u32

definition snapchain_shard_new :: "u32 \<Rightarrow> snapchain_shard" where
  "snapchain_shard_new i = SnapchainShard i"

fun snapchain_shard_id :: "snapchain_shard \<Rightarrow> u32" where
  "snapchain_shard_id (SnapchainShard i) = i"

datatype hash20 = Hash20 bytes

type_synonym signature = bytes

definition not_implemented :: string where
  "not_implemented = ''not yet implemented''"

definition decode_signature :: "bytes \<Rightarrow> ('e, signature) result" where
  "decode_signature b = Panic not_implemented"

definition encode_signature :: "signature \<Rightarrow> ('e, bytes) result" where
  "encode_signature s = Panic not_implemented"

section \<open>Printed forms\<close>

definition address_display :: "(bytes \<Rightarrow> string) \<Rightarrow> address \<Rightarrow> string" where
  "address_display hex_encode a = address_to_hex hex_encode a"

definition address_debug :: "(bytes \<Rightarrow> string) \<Rightarrow> address \<Rightarrow> string" where
  "address_debug hex_encode a = ''Address('' @ address_display hex_encode a @ '')''"

definition invalid_signature_display :: string where
  "invalid_signature_display = ''Invalid signature''"

fun hash_display :: "(bytes \<Rightarrow> string) \<Rightarrow> hash20 \<Rightarrow> string" where
  "hash_display hex_encode (Hash20 b) = ''Hash('' @ hex_encode b @ '')''"

definition height_display :: "height \<Rightarrow> string" where
  "height_display h = ''['' @ dec_digits (unat (shard_index h)) @ ''] '' @ dec_digits (unat (block_number h))"

text \<open>The hash is printed as a quoted string.\<close>

definition shard_hash_display :: "(bytes \<Rightarrow> string) \<Rightarrow> shard_hash \<Rightarrow> string" where
  "shard_hash_display hex_encode h =
     ''['' @ dec_digits (unat (sh_shard_index h)) @ ''] '' @ CHR 0x22 # hex_encode (sh_hash h) @ [CHR 0x22]"

section \<open>Traits of heights, values, votes, proposals and validators\<close>

definition trait_height_increment :: "height \<Rightarrow> ('e, height) result" where
  "trait_height_increment h = height_increment h"

definition trait_height_as_u64 :: "height \<Rightarrow> u64" where
  "trait_height_as_u64 h = block_number h"

definition value_id :: "shard_hash \<Rightarrow> shard_hash" where
  "value_id v = v"

definition part_is_first :: "'r proposal_part \<Rightarrow> bool" where
  "part_is_first p = True"

definition part_is_last :: "'r proposal_part \<Rightarrow> bool" where
  "part_is_last p = True"

definition proposal_height :: "'r proposal \<Rightarrow> height" where
  "proposal_height p = pr_height p"

definition proposal_round :: "'r proposal \<Rightarrow> 'r" where
  "proposal_round p = pr_round p"

definition proposal_value :: "'r proposal \<Rightarrow> shard_hash" where
  "proposal_value p = pr_shard_hash p"

definition proposal_take_value :: "'r proposal \<Rightarrow> shard_hash" where
  "proposal_take_value p = pr_shard_hash p"

definition proposal_pol_round :: "'r proposal \<Rightarrow> 'r" where
  "proposal_pol_round p = pr_pol_round p"

definition proposal_validator_address :: "'r proposal \<Rightarrow> address" where
  "proposal_validator_address p = pr_proposer p"

definition vote_height :: "'r vote \<Rightarrow> height" where
  "vote_height v = vo_height v"

definition vote_round :: "'r vote \<Rightarrow> 'r" where
  "vote_round v = vo_round v"

definition vote_value :: "'r vote \<Rightarrow> shard_hash nil_or_val" where
  "vote_value v = vo_shard_hash v"

definition vote_take_value :: "'r vote \<Rightarrow> shard_hash nil_or_val" where
  "vote_take_value v = vo_shard_hash v"

definition vote_vote_type :: "'r vote \<Rightarrow> vote_type" where
  "vote_vote_type v = vo_type v"

definition vote_validator_address :: "'r vote \<Rightarrow> address" where
  "vote_validator_address v = vo_voter v"

text \<open>The stored extension is not returned.\<close>

definition vote_extension :: "'r vote \<Rightarrow> bytes option" where
  "vote_extension v = None"

definition validator_address :: "snapchain_validator \<Rightarrow> address" where
  "validator_address v = sv_address v"

definition validator_public_key :: "snapchain_validator \<Rightarrow> bytes" where
  "validator_public_key v = sv_public_key v"

lemmas trait_defs = trait_height_increment_def trait_height_as_u64_def value_id_def part_is_first_def part_is_last_def
  proposal_height_def proposal_round_def proposal_value_def proposal_take_value_def proposal_pol_round_def
  proposal_validator_address_def vote_height_def vote_round_def vote_value_def vote_take_value_def vote_vote_type_def
  vote_validator_address_def vote_extension_def validator_address_def validator_public_key_def

section \<open>The context\<close>

record keypair =
  kp_public :: bytes
  kp_sign :: "bytes \<Rightarrow> bytes"

record validator_context =
  vc_keypair :: keypair

definition validator_context_new :: "keypair \<Rightarrow> validator_context" where
  "validator_context_new k = \<lparr>vc_keypair = k\<rparr>"

definition context_public_key :: "validator_context \<Rightarrow> bytes" where
  "context_public_key ctx = kp_public (vc_keypair ctx)"

definition sign_proposal_part :: "'r proposal_part \<Rightarrow> 'r proposal_part \<times> signature" where
  "sign_proposal_part p = (p, [])"

definition verify_signed_proposal_part :: "'r proposal_part \<Rightarrow> signature \<Rightarrow> bytes \<Rightarrow> ('e, bool) result" where
  "verify_signed_proposal_part p s pk = Panic not_implemented"

definition context_new_prevote :: "height \<Rightarrow> 'r \<Rightarrow> shard_hash nil_or_val \<Rightarrow> address \<Rightarrow> 'r vote" where
  "context_new_prevote h r v a = vote_new_prevote h r v a"

definition context_new_precommit :: "height \<Rightarrow> 'r \<Rightarrow> shard_hash nil_or_val \<Rightarrow> address \<Rightarrow> 'r vote" where
  "context_new_precommit h r v a = vote_new_precommit h r v a"

text \<open>Signing with the keys of a context.\<close>

definition context_sign_vote :: "'r round_ops \<Rightarrow> (proto_vote \<Rightarrow> bytes) \<Rightarrow> validator_context \<Rightarrow> 'r vote \<Rightarrow> 'r vote \<times> bytes" where
  "context_sign_vote R encode ctx v = sign_vote R encode (kp_sign (vc_keypair ctx)) v"

definition context_sign_proposal ::
  "'r round_ops \<Rightarrow> (proto_proposal \<Rightarrow> bytes) \<Rightarrow> validator_context \<Rightarrow> 'r proposal \<Rightarrow> 'r proposal \<times> bytes" where
  "context_sign_proposal R encode ctx p = sign_proposal R encode (kp_sign (vc_keypair ctx)) p"

section \<open>What the consensus library relies on\<close>

locale consensus_context =
  fixes new_vote :: "vote_type \<Rightarrow> 'h \<Rightarrow> 'r \<Rightarrow> 'v nil_or_val \<Rightarrow> 'a \<Rightarrow> 'vote"
    and v_type :: "'vote \<Rightarrow> vote_type" and v_height :: "'vote \<Rightarrow> 'h" and v_round :: "'vote \<Rightarrow> 'r"
    and v_value :: "'vote \<Rightarrow> 'v nil_or_val" and v_address :: "'vote \<Rightarrow> 'a"
    and new_proposal :: "'h \<Rightarrow> 'r \<Rightarrow> 'v \<Rightarrow> 'r \<Rightarrow> 'a \<Rightarrow> 'prop"
    and p_height :: "'prop \<Rightarrow> 'h" and p_round :: "'prop \<Rightarrow> 'r" and p_value :: "'prop \<Rightarrow> 'v"
    and p_pol_round :: "'prop \<Rightarrow> 'r" and p_address :: "'prop \<Rightarrow> 'a"
    and sign_v :: "(bytes \<Rightarrow> bytes) \<Rightarrow> 'vote \<Rightarrow> 'vote \<times> bytes" and sign_p :: "(bytes \<Rightarrow> bytes) \<Rightarrow> 'prop \<Rightarrow> 'prop \<times> bytes"
    and verify_v :: "(bytes \<Rightarrow> bytes \<Rightarrow> bytes \<Rightarrow> bool) \<Rightarrow> 'vote \<Rightarrow> bytes \<Rightarrow> bytes \<Rightarrow> (string, bool) result"
    and verify_p :: "(bytes \<Rightarrow> bytes \<Rightarrow> bytes \<Rightarrow> bool) \<Rightarrow> 'prop \<Rightarrow> bytes \<Rightarrow> bytes \<Rightarrow> (string, bool) result"
  assumes vote_fields: "v_type (new_vote t h r v a) = t" "v_height (new_vote t h r v a) = h" "v_round (new_vote t h r v a) = r"
      "v_value (new_vote t h r v a) = v" "v_address (new_vote t h r v a) = a"
    and proposal_fields: "p_height (new_proposal h r x pol a) = h" "p_round (new_proposal h r x pol a) = r"
      "p_value (new_proposal h r x pol a) = x" "p_pol_round (new_proposal h r x pol a) = pol" "p_address (new_proposal h r x pol a) = a"
    and signed_kept: "fst (sign_v s w) = w" "fst (sign_p s p) = p"
    and signed_verifies: "(\<And>m. check pk m (s m)) \<Longrightarrow> verify_v check w (snd (sign_v s w)) pk = Ok True"
      "(\<And>m. check pk m (s m)) \<Longrightarrow> verify_p check p (snd (sign_p s p)) pk = Ok True"
    and only_true: "verify_v check w sg pk \<noteq> Ok False" "verify_p check p sg pk \<noteq> Ok False"
begin

text \<open>What a validator signs reaches the others as it was meant and verifies under its key.\<close>

lemma own_vote:
  assumes "\<And>m. check pk m (s m)" "sign_v s (new_vote t h r v a) = (w, sg)"
  shows "v_type w = t \<and> v_height w = h \<and> v_round w = r \<and> v_value w = v \<and> v_address w = a \<and> verify_v check w sg pk = Ok True"
  using assms vote_fields signed_kept(1) [of s "new_vote t h r v a"] signed_verifies(1) [of check pk s "new_vote t h r v a"] by auto

lemma own_proposal:
  assumes "\<And>m. check pk m (s m)" "sign_p s (new_proposal h r x pol a) = (p, sg)"
  shows "p_height p = h \<and> p_round p = r \<and> p_value p = x \<and> p_pol_round p = pol \<and> p_address p = a \<and>
    verify_p check p sg pk = Ok True"
  using assms proposal_fields signed_kept(2) [of s "new_proposal h r x pol a"]
    signed_verifies(2) [of check pk s "new_proposal h r x pol a"] by auto

end

definition context_new_vote :: "vote_type \<Rightarrow> height \<Rightarrow> 'r \<Rightarrow> shard_hash nil_or_val \<Rightarrow> address \<Rightarrow> 'r vote" where
  "context_new_vote t = (case t of Prevote \<Rightarrow> context_new_prevote | Precommit \<Rightarrow> context_new_precommit)"

interpretation snapchain_context: consensus_context context_new_vote vote_vote_type vote_height vote_round vote_value
  vote_validator_address context_new_proposal proposal_height proposal_round proposal_value proposal_pol_round
  proposal_validator_address "sign_vote R encode_vote" "sign_proposal R encode_proposal"
  "verify_signed_vote R encode_vote" "verify_signed_proposal R encode_proposal"
  for R :: "'r round_ops" and encode_vote encode_proposal
  by unfold_locales
    (auto simp: context_new_vote_def context_new_prevote_def context_new_precommit_def vote_new_prevote_def vote_new_precommit_def
      context_new_proposal_def trait_defs sign_vote_def sign_proposal_def verify_signed_vote_def verify_signed_proposal_def
      split: vote_type.splits)

text \<open>The votes of a context verify under its public key, when the keys are a pair.\<close>

lemma context_votes_verify:
  assumes "\<And>m. check (kp_public (vc_keypair ctx)) m (kp_sign (vc_keypair ctx) m)"
    and "context_sign_vote R encode ctx (context_new_prevote h r v a) = (w, sg)"
  shows "verify_signed_vote R encode check w sg (context_public_key ctx) = (Ok True :: (string, bool) result) \<and>
    vote_height w = h \<and> vote_round w = r \<and> vote_value w = v \<and> vote_validator_address w = a"
  using snapchain_context.own_vote [where check = check and pk = "kp_public (vc_keypair ctx)" and s = "kp_sign (vc_keypair ctx)"
      and R = R and encode_vote = encode and t = Prevote and h = h and r = r and v = v and a = a] assms
  by (simp add: context_sign_vote_def context_public_key_def context_new_vote_def)

text \<open>An extension that a vote carries is lost on every path out of it.\<close>

lemma extension_lost: "vote_extension (vote_extend e v) = None" "vote_to_proto R (vote_extend e v) = vote_to_proto R v"
  by (simp_all add: vote_extension_def vote_extend_def vote_to_proto_def)

end
