(* ===== verification/Account_Utils.thy ===== *)
theory Account_Utils
  imports Account_Store
begin

text \<open>
  Functions that \<open>storage/store/account/\<close> has in its own copies: the byte-string functions of \<open>utils.rs\<close>
  and the error type of \<open>store.rs\<close>, and the accessors of a store.  The copies agree with the
  functions of \<open>Byte_Keys\<close> and \<open>Hub_Error\<close> that the rest of the development uses, written there in
  the form in which their proofs go through.
\<close>

section \<open>Byte strings\<close>

text \<open>The loop runs from the last byte to the first and carries a flag.\<close>

definition account_increment_byte :: "u8 \<Rightarrow> bytes \<times> bool \<Rightarrow> bytes \<times> bool" where
  "account_increment_byte b acc =
     (case acc of (rest, carry) \<Rightarrow>
        if carry then if b = 255 then (0 # rest, True) else ((b + 1) # rest, False)
        else (b # rest, False))"

definition account_increment_vec_u8 :: "bytes \<Rightarrow> bytes" where
  "account_increment_vec_u8 vec =
     (case foldr account_increment_byte vec ([], True) of (r, carry) \<Rightarrow> if carry then 1 # r else r)"

text \<open>The loop of the comparison, by index.\<close>

function account_compare_from :: "nat \<Rightarrow> bytes \<Rightarrow> bytes \<Rightarrow> int option" where
  "account_compare_from i a b =
     (if i \<ge> min (length a) (length b) then None
      else if a ! i < b ! i then Some (- 1)
      else if a ! i > b ! i then Some 1
      else account_compare_from (i + 1) a b)"
  by pat_completeness auto
termination by (relation "measure (\<lambda>(i, a, b). min (length a) (length b) - i)") auto

declare account_compare_from.simps [simp del]

definition account_bytes_compare :: "bytes \<Rightarrow> bytes \<Rightarrow> int" where
  "account_bytes_compare a b =
     (case account_compare_from 0 a b of
        Some r \<Rightarrow> r
      | None \<Rightarrow> if length a < length b then - 1 else if length a > length b then 1 else 0)"

definition ACCOUNT_BLAKE3_HASH_LEN :: nat where
  "ACCOUNT_BLAKE3_HASH_LEN = 20"

text \<open>The hasher is fed once and finished; slicing panics when the digest is too short.\<close>

definition account_blake3_20 :: "(bytes \<Rightarrow> bytes) \<Rightarrow> bytes \<Rightarrow> ('e, bytes) result" where
  "account_blake3_20 blake3 input =
     (if length (blake3 input) < ACCOUNT_BLAKE3_HASH_LEN then Panic ''range end index 20 out of range for slice''
      else Ok (take ACCOUNT_BLAKE3_HASH_LEN (blake3 input)))"

section \<open>Errors\<close>

definition account_validation_failure :: "string \<Rightarrow> hub_error" where
  "account_validation_failure m = \<lparr>he_code = ''bad_request.validation_failure'', he_message = m\<rparr>"

definition account_invalid_parameter :: "string \<Rightarrow> hub_error" where
  "account_invalid_parameter m = \<lparr>he_code = ''bad_request.invalid_param'', he_message = m\<rparr>"

definition account_internal_db_error :: "string \<Rightarrow> hub_error" where
  "account_internal_db_error m = \<lparr>he_code = ''db.internal_error'', he_message = m\<rparr>"

definition account_not_found :: "string \<Rightarrow> hub_error" where
  "account_not_found m = \<lparr>he_code = ''not_found'', he_message = m\<rparr>"

definition account_error_display :: "hub_error \<Rightarrow> string" where
  "account_error_display e = he_code e @ ''/'' @ he_message e"

text \<open>Conversions; the argument is the printed error.\<close>

definition account_error_from_rocksdb :: "string \<Rightarrow> hub_error" where
  "account_error_from_rocksdb e = \<lparr>he_code = ''db.internal_error'', he_message = e\<rparr>"

definition account_error_from_throw :: "string \<Rightarrow> hub_error" where
  "account_error_from_throw e = \<lparr>he_code = ''bad_request.validation_failure'', he_message = e\<rparr>"

definition account_error_from_io :: "string \<Rightarrow> hub_error" where
  "account_error_from_io e = \<lparr>he_code = ''bad_request.io_error'', he_message = e\<rparr>"

text \<open>Two conversions of \<open>hub_error.rs\<close> itself.\<close>

definition hub_error_from_engine :: "string \<Rightarrow> hub_error" where
  "hub_error_from_engine e = hub_err ''db.internal_error'' e"

definition hub_error_from_io :: "string \<Rightarrow> hub_error" where
  "hub_error_from_io e = hub_err ''bad_request.io_error'' e"

section \<open>Accessors of a store\<close>

definition store_store_def :: "account_store \<Rightarrow> store_def" where
  "store_store_def st = ast_def st"

definition store_db :: "account_store \<Rightarrow> rocksdb" where
  "store_db st = ast_db st"

definition store_event_handler :: "account_store \<Rightarrow> hub_event_id_generator" where
  "store_event_handler st = ast_gen st"

definition store_postfix :: "account_store \<Rightarrow> u8" where
  "store_postfix st = sd_postfix (ast_def st)"

section \<open>The copies agree\<close>

lemma account_increment_fold:
  "foldr account_increment_byte vec ([], True) = (rev (fst (increment_loop (rev vec))), snd (increment_loop (rev vec)))"
proof -
  have kept: "foldr account_increment_byte us (r, False) = (us @ r, False)" for us r
    by (induction us) (simp_all add: account_increment_byte_def)
  have "foldr account_increment_byte (rev us) (r, True) =
      (rev (fst (increment_loop us)) @ r, snd (increment_loop us))" for us r
    by (induction us arbitrary: r) (auto simp: account_increment_byte_def kept split: prod.splits)
  from this [of "rev vec" "[]"] show ?thesis by simp
qed

lemma account_increment: "account_increment_vec_u8 vec = increment_vec_u8 vec"
  by (simp add: account_increment_vec_u8_def increment_vec_u8_def account_increment_fold split: prod.splits)

lemma account_compare_loop: "account_compare_from i a b = bytes_compare_loop (drop i (zip a b))"
proof (induction i a b rule: account_compare_from.induct)
  case (1 i a b)
  show ?case
  proof (cases "i \<ge> min (length a) (length b)")
    case False
    then have "drop i (zip a b) = (a ! i, b ! i) # drop (i + 1) (zip a b)"
      using Cons_nth_drop_Suc [of i "zip a b"] by (auto simp: not_le)
    with False 1 show ?thesis by (subst account_compare_from.simps) simp
  qed (subst account_compare_from.simps, simp)
qed

lemma account_compare: "account_bytes_compare a b = bytes_compare a b"
  by (simp add: account_bytes_compare_def bytes_compare_def account_compare_loop)

lemma account_blake3:
  "length (blake3 input) = 32 \<Longrightarrow> account_blake3_20 blake3 input = Ok (blake3_20 blake3 input)"
  by (simp add: account_blake3_20_def blake3_20_def ACCOUNT_BLAKE3_HASH_LEN_def BLAKE3_HASH_LEN_def)

lemma account_errors:
  "account_validation_failure = validation_failure" "account_invalid_parameter = invalid_parameter"
  "account_internal_db_error = internal_db_error" "account_not_found = not_found"
  "account_error_display = hub_error_to_string" "account_error_from_rocksdb = hub_error_from_engine"
  "account_error_from_throw = account_validation_failure" "account_error_from_io = hub_error_from_io"
  by (simp_all add: fun_eq_iff account_validation_failure_def validation_failure_def account_invalid_parameter_def
      invalid_parameter_def account_internal_db_error_def internal_db_error_def account_not_found_def not_found_def
      account_error_display_def hub_error_to_string_def account_error_from_rocksdb_def hub_error_from_engine_def
      account_error_from_throw_def account_error_from_io_def hub_error_from_io_def hub_err_def)

end
