(* ===== verification/Unit_Tests.thy ===== *)
theory Unit_Tests
  imports Account_Utils Timers File_System
begin

text \<open>
  The unit tests of the repository for the timers (\<open>consensus/timers.rs\<close>), the database wrapper
  (\<open>storage/db/rocksdb.rs\<close>) and the account utilities (\<open>storage/store/account/utils.rs\<close>), carried out on
  the model: every test is the conjunction of its assertions, and every test passes.
\<close>

section \<open>Timers\<close>

text \<open>\<open>start_timer\<close> with its result unwrapped; sleeping lets the tasks fire that are due.\<close>

definition started :: "string \<Rightarrow> duration \<Rightarrow> string timer_scheduler \<Rightarrow> string timer_scheduler" where
  "started key timeout self =
     (case (start_timer key timeout self :: (string, string timer_scheduler) result) of Ok self' \<Rightarrow> self' | _ \<Rightarrow> self)"

definition slept :: "duration \<Rightarrow> string timer_scheduler \<Rightarrow> string timer_scheduler" where
  "slept d self = self\<lparr>ts_tasks := filter (\<lambda>t. \<forall>e \<in> set (ts_delays self). fst e = t \<longrightarrow> d < snd e) (ts_tasks self)\<rparr>"

definition test_spawn :: "string timer_scheduler" where
  "test_spawn = timer_scheduler_new"

definition test_start_timer :: bool where
  "test_start_timer =
     (let scheduler = started ''timer1'' 100 test_spawn;
          (scheduler', elapsed_key) = intercept_timer_msg \<lparr>te_key = ''timer1'', te_generation = 1\<rparr> (slept 150 scheduler)
      in is_timer_active scheduler ''timer1'' \<and> elapsed_key = Some ''timer1'' \<and> \<not> is_timer_active scheduler' ''timer1'')"

definition test_cancel_timer :: bool where
  "test_cancel_timer = (\<not> is_timer_active (cancel ''timer1'' (started ''timer1'' 100 test_spawn)) ''timer1'')"

definition test_cancel_all_timers :: bool where
  "test_cancel_all_timers =
     (let scheduler = cancel_all (started ''timer2'' 200 (started ''timer1'' 100 test_spawn))
      in \<not> is_timer_active scheduler ''timer1'' \<and> \<not> is_timer_active scheduler ''timer2'')"

definition test_intercept_timer_msg_valid :: bool where
  "test_intercept_timer_msg_valid =
     (snd (intercept_timer_msg \<lparr>te_key = ''timer1'', te_generation = 1\<rparr> (slept 150 (started ''timer1'' 100 test_spawn))) =
        Some ''timer1'')"

definition test_intercept_timer_msg_invalid_generation :: bool where
  "test_intercept_timer_msg_invalid_generation =
     (snd (intercept_timer_msg \<lparr>te_key = ''timer1'', te_generation = 1\<rparr>
        (started ''timer1'' 200 (started ''timer1'' 100 test_spawn))) = None)"

definition test_intercept_timer_msg_cancelled :: bool where
  "test_intercept_timer_msg_cancelled =
     (snd (intercept_timer_msg \<lparr>te_key = ''timer1'', te_generation = 1\<rparr>
        (cancel ''timer1'' (started ''timer1'' 100 test_spawn))) = None)"

text \<open>Dropping a scheduler cancels its timers.\<close>

definition timer_scheduler_drop :: "'k timer_scheduler \<Rightarrow> 'k timer_scheduler" where
  "timer_scheduler_drop self = cancel_all self"

lemmas timer_tests = started_def slept_def test_spawn_def start_timer_def next_generation_def send_after_def cancel_def
  abort_task_def intercept_timer_msg_def is_timer_active_def cancel_all_def timer_scheduler_new_def Let_def

lemma timer_tests_pass:
  "test_start_timer" "test_cancel_timer" "test_cancel_all_timers" "test_intercept_timer_msg_valid"
  "test_intercept_timer_msg_invalid_generation" "test_intercept_timer_msg_cancelled"
  by (simp_all add: test_start_timer_def test_cancel_timer_def test_cancel_all_timers_def test_intercept_timer_msg_valid_def
      test_intercept_timer_msg_invalid_generation_def test_intercept_timer_msg_cancelled_def timer_tests)

section \<open>The database wrapper\<close>

definition test_txn2 :: txn_batch where
  "test_txn2 = txn_delete (txn_put (txn_put txn_new (as_bytes ''key1'') (as_bytes ''value1'')) (as_bytes ''key2'') (as_bytes ''value2''))
     (as_bytes ''key3'')"

definition test_txn3 :: txn_batch where
  "test_txn3 = txn_put (txn_put txn_new (as_bytes ''key4'') (as_bytes ''value4'')) (as_bytes ''key5'') (as_bytes ''value5'')"

definition test_txn4 :: txn_batch where
  "test_txn4 = txn_delete (txn_put (txn_put txn_new (as_bytes ''key1'') (as_bytes ''value1_new'')) (as_bytes ''key4'') (as_bytes ''value4_new''))
     (as_bytes ''key5'')"

definition test_merge_rocksdb_transaction :: bool where
  "test_merge_rocksdb_transaction =
     (let a = txn_merge txn_new test_txn2; b = txn_merge a test_txn3; c = txn_merge b test_txn4 in
      txn_len a = 3 \<and> hm_get a (as_bytes ''key1'') = Some (Some (as_bytes ''value1'')) \<and>
      hm_get a (as_bytes ''key2'') = Some (Some (as_bytes ''value2'')) \<and> hm_get a (as_bytes ''key3'') = Some None \<and>
      txn_len b = 5 \<and> hm_get b (as_bytes ''key1'') = Some (Some (as_bytes ''value1'')) \<and>
      hm_get b (as_bytes ''key4'') = Some (Some (as_bytes ''value4'')) \<and>
      txn_len c = 5 \<and> hm_get c (as_bytes ''key1'') = Some (Some (as_bytes ''value1_new'')) \<and>
      hm_get c (as_bytes ''key2'') = Some (Some (as_bytes ''value2'')) \<and>
      hm_get c (as_bytes ''key4'') = Some (Some (as_bytes ''value4_new'')) \<and> hm_get c (as_bytes ''key5'') = Some None)"

text \<open>A database without faults in a fresh directory.\<close>

definition test_opened :: rocksdb where
  "test_opened = fst (rocksdb_open (\<lambda>_. Ok \<lparr>tdb_entries = [], tdb_read_error = (\<lambda>_. None), tdb_write_error = (\<lambda>_. None),
     tdb_commit_error = None\<rparr>) (rocksdb_new ''tmp''))"

definition test_filled :: rocksdb where
  "test_filled = fold (\<lambda>(k, v) db. fst (rocksdb_put db (as_bytes k) (as_bytes v)))
     [(''key100'', ''value1''), (''key101'', ''value3''), (''key104'', ''value4''), (''key200'', ''value2'')] test_opened"

definition test_keys_exist_in_db :: bool where
  "test_keys_exist_in_db =
     (rocksdb_keys_exist test_filled (map as_bytes [''key100'', ''key101'']) = Ok [True, True] \<and>
      rocksdb_keys_exist test_filled (map as_bytes [''key100'', ''key101'', ''key102'']) = Ok [True, True, False] \<and>
      rocksdb_keys_exist test_filled (map as_bytes [''key100'', ''key101'', ''key102'', ''key200'']) = Ok [True, True, False, True] \<and>
      rocksdb_keys_exist test_filled [] = Ok [] \<and>
      (let (db, fs, r) = rocksdb_destroy (\<lambda>p fs. (fs, Ok ())) test_filled
             \<lparr>fs_dirs = [[''tmp'']], fs_files = [([''tmp'', ''CURRENT''], [1])], fs_refused = (\<lambda>_. None)\<rparr>
       in r = Ok () \<and> fs_files fs = []))"

lemma test_merge_passes: "test_merge_rocksdb_transaction"
  by (simp add: test_merge_rocksdb_transaction_def test_txn2_def test_txn3_def test_txn4_def txn_merge_def txn_put_def
      txn_delete_def txn_new_def txn_len_def as_bytes_def Let_def)

lemma test_keys_exist_passes: "test_keys_exist_in_db"
  by (simp add: test_keys_exist_in_db_def test_filled_def test_opened_def rocksdb_open_def rocksdb_new_def rocksdb_put_def
      rocksdb_keys_exist_def as_bytes_def rocksdb_destroy_def rocksdb_close_def fs_remove_dir_all_def fs_remove_tree_def
      path_of_def Let_def)

section \<open>Account utilities\<close>

definition test_increment_vec_u8 :: bool where
  "test_increment_vec_u8 =
     (account_increment_vec_u8 [0, 0, 0] = [0, 0, 1] \<and> account_increment_vec_u8 [0, 0, 255] = [0, 1, 0] \<and>
      account_increment_vec_u8 [0, 255, 255] = [1, 0, 0] \<and> account_increment_vec_u8 [255, 255, 255] = [1, 0, 0, 0])"

definition test_decrement_vec_u8 :: bool where
  "test_decrement_vec_u8 =
     (decrement_vec_u8 [0, 0, 1] = [0, 0, 0] \<and> decrement_vec_u8 [0, 1, 0] = [0, 0, 255] \<and>
      decrement_vec_u8 [1, 0, 0] = [0, 255, 255] \<and> decrement_vec_u8 [1, 0, 0, 0] = [0, 255, 255, 255])"

definition test_bytes_compare :: bool where
  "test_bytes_compare =
     (account_bytes_compare [0, 0, 0] [0, 0, 0] = 0 \<and> account_bytes_compare [0, 0, 0] [0, 0, 1] = - 1 \<and>
      account_bytes_compare [0, 0, 1] [0, 0, 0] = 1)"

text \<open>The clock of the test is an argument.\<close>

definition test_get_farcaster_time :: "u64 \<Rightarrow> bool" where
  "test_get_farcaster_time now = (case get_farcaster_time (Ok now) of Ok time \<Rightarrow> time \<le> now | _ \<Rightarrow> False)"

fun is_err :: "('e, 'a) result \<Rightarrow> bool" where
  "is_err (Err e) = True"
| "is_err r = False"

definition to_farcaster_time_test :: bool where
  "to_farcaster_time_test =
     (is_err (to_farcaster_time 0) \<and> is_err (to_farcaster_time (FARCASTER_EPOCH_MS - 1)) \<and>
      to_farcaster_time FARCASTER_EPOCH_MS = Ok 0 \<and> to_farcaster_time (FARCASTER_EPOCH_MS + 1000) = Ok 1)"

lemma utils_tests_pass: "test_increment_vec_u8" "test_decrement_vec_u8" "test_bytes_compare" "to_farcaster_time_test"
proof -
  show "test_increment_vec_u8"
    by (simp add: test_increment_vec_u8_def account_increment_vec_u8_def account_increment_byte_def)
  show "test_decrement_vec_u8"
    by (simp add: test_decrement_vec_u8_def decrement_vec_u8_def)
  show "test_bytes_compare"
    by (simp add: test_bytes_compare_def account_compare bytes_compare_def)
  show "to_farcaster_time_test"
    by (simp add: to_farcaster_time_test_def to_farcaster_time_def FARCASTER_EPOCH_MS_def Let_def)
qed

text \<open>The test with the clock passes between the Farcaster epoch and the last time that fits.\<close>

lemma test_get_farcaster_time_passes:
  assumes "FARCASTER_EPOCH_MS \<le> now" "(now - FARCASTER_EPOCH_MS) div 1000 \<le> 4294967295"
  shows "test_get_farcaster_time now"
proof -
  have "(now - FARCASTER_EPOCH_MS) div 1000 \<le> now"
    using assms(1) by (simp add: word_le_nat_alt unat_div unat_sub)
  with assms show ?thesis
    by (simp add: test_get_farcaster_time_def get_farcaster_time_def to_farcaster_time_def Let_def not_less)
qed

end
