(* ===== verification/Spec2Isabelle.thy ===== *)
theory Spec2Isabelle
  imports Sample_Client Sample_Js Node_Setup Malachite_Context Unit_Tests
begin

text \<open>
  Snapchain is a replicated store of social messages.  Messages are grouped into chunks per shard,
  chunks into blocks; a Tendermint-style consensus (the \<open>malachite\<close> crates) decides both, and every
  shard authenticates the set of message hashes it has applied by the root hash of a Merkle trie
  kept in RocksDB.  This development models the node's own code, \<open>src/src\<close> of the repository, as
  HOL functions on explicit state, and proves what makes its parts correct.

  \<^bold>\<open>Parts and theories\<close>, in the order of their imports.

  \<^item> \<open>Snap_Prelude\<close>: the types of machine integers and byte strings, \<open>result\<close> with an extra value for
    a Rust panic, hash maps as association lists with distinct keys, and the lemmas on them.
  \<^item> \<open>Byte_Keys\<close> (\<open>storage/util.rs\<close>, \<open>storage/store/utils.rs\<close>): comparison, increment and decrement of
    byte strings, key prefixes, big-endian integers; they agree with the lexicographic order.
  \<^item> \<open>Rocks_Db\<close> (\<open>storage/db/rocksdb.rs\<close>): the database as a sorted list of entries with the errors its
    engine may report, batches, commits, bounded and paged iteration, \<open>clear\<close>.
  \<^item> \<open>Hub_Error\<close> (\<open>storage/hub_error.rs\<close>): the error type and its constructors.
  \<^item> \<open>Trie_Node\<close> (\<open>storage/trie/trie_node.rs\<close>): nodes, loading, insertion, deletion, lookup, hashes,
    snapshots and enumeration.  \<open>Trie_Rep\<close> defines the set a node represents and the reference Merkle
    hash of a set; \<open>Trie_Insert\<close> and \<open>Trie_Delete\<close> prove that the operations refine those of sets.
  \<^item> \<open>Merkle_Trie\<close> (\<open>storage/trie/merkle_trie.rs\<close>): the trie with its pending batch; commit, reload and
    the locale \<open>authenticated_set\<close>, the contract the shard engine relies on.
  \<^item> \<open>Proto_Types\<close>, \<open>Chain_Types\<close> (\<open>proto/*.proto\<close>, \<open>core/types.rs\<close>): messages, heights, votes, proposals,
    validators and validator sets, the choice of the proposer.
  \<^item> \<open>Chain_Store\<close> (\<open>storage/store/block.rs\<close>, \<open>shard.rs\<close>): blocks and chunks under their numbers; the
    locale \<open>height_index\<close> gives the height lookups.
  \<^item> \<open>Shard_Engine\<close> (\<open>storage/store/engine.rs\<close>): proposing, validating and committing a chunk; the
    relation \<open>engine_run\<close> of the runs of its operations and their invariant.
  \<^item> \<open>Proposers\<close>, \<open>Shard_Validator\<close> (\<open>consensus/proposer.rs\<close>, \<open>validator.rs\<close>): the shard and the block
    proposer, both interpretations of the locale \<open>proposer\<close>, and the validator on top of them.
  \<^item> \<open>Timers\<close> (\<open>consensus/timers.rs\<close>): the scheduler with the runtime that fires its tasks, as the step
    relation \<open>timer_step\<close>.
  \<^item> \<open>Consensus\<close>, \<open>Consensus_Facts\<close> (\<open>consensus/consensus.rs\<close>): the actor's messages and effects.  The
    consensus core is a parameter, any program that yields effects; the locales \<open>effect_invariant\<close> and
    \<open>actor_invariant\<close> lift an invariant of the effects to every message.
  \<^item> \<open>Snapchain_Node\<close> (\<open>node/snapchain_node.rs\<close>, \<open>network/gossip.rs\<close>, \<open>network/server.rs\<close>): creation of
    the actors, dispatch, gossip, the two RPC handlers and the task that stores blocks.
  \<^item> \<open>Gossip_Loop\<close> (\<open>network/gossip.rs\<close>): creation of the gossip task and its loop.
  \<^item> \<open>Fname_Fetcher\<close>, \<open>Onchain_Events\<close> (\<open>connectors/fname\<close>, \<open>connectors/onchain_events\<close>): the client of
    the fname server, whose fetch loop is a total function, and the subscriber to the logs of the
    three registries, which groups the decoded events by block.
  \<^item> \<open>Client_Tools\<close> (\<open>utils/cli.rs\<close>, \<open>bin/follow_blocks.rs\<close>, \<open>bin/submit_message.rs\<close>): composing and sending
    a message, following the chain of a node through its RPC server.
  \<^item> \<open>Collect_Stats\<close> (\<open>bin/collect_stats.rs\<close>): the benchmark, its tasks and its loop over a schedule of
    messages, blocks and ticks; \<open>f64\<close> values are rationals of 53 bits, rounded to nearest.
  \<^item> \<open>Node_Config\<close> (\<open>cfg.rs\<close>, \<open>bin/setup.rs\<close>, \<open>main.rs\<close>): the layers of the configuration, the files of a
    local network, start-up and the main loop.
  \<^item> \<open>File_System\<close>, \<open>Node_Setup\<close> (\<open>storage/db/rocksdb.rs\<close>, \<open>bin/setup.rs\<close>): directories and files, the
    size and the removal of a database, and the run of the setup tool, which leaves every node with its
    configuration and without an old database (\<open>setup_prepares_nodes\<close>).
  \<^item> \<open>Malachite_Context\<close> (\<open>core/types.rs\<close>): the implementations of the traits of the consensus library; what
    it relies on is the locale \<open>consensus_context\<close>.
  \<^item> \<open>Unit_Tests\<close>: the unit tests of the timers, the database wrapper and the account utilities, which
    pass on the model.
  \<^item> \<open>Account_Message\<close>, \<open>Event_Handler\<close> (\<open>storage/store/account/message.rs\<close>, \<open>utils.rs\<close>,
    \<open>store_event_handler.rs\<close>): keys, ts hashes, encoding, pages and Farcaster time; event ids and the
    commit of a transaction together with its event.
  \<^item> \<open>Account_Store\<close> (\<open>storage/store/account/store.rs\<close>): the trait \<open>StoreDef\<close> as the record \<open>store_def\<close> of
    its methods, and the operations of \<open>Store\<close> over it: lookups, merge of adds, removes and compact
    states, revoke, prune.  \<open>Store_Contract\<close> and \<open>Store_Prune\<close> state what a store promises, per slot
    the message of the highest rank: the locale \<open>store_keys\<close> holds the laws of its keys and indices,
    \<open>message_store\<close> adds those of its conflicts and proves that merging is a last-writer-wins update.
    \<open>Store_Common\<close> derives both from the simpler contracts \<open>slotted_store\<close> and
    \<open>default_message_store\<close>.
  \<^item> \<open>Cast_Store\<close>, \<open>Reaction_Store\<close>, \<open>User_Data_Store\<close>, \<open>Link_Store\<close> interpret these contracts;
    \<open>Verification_Store\<close>, \<open>Username_Proof_Store\<close> and \<open>Name_Registry\<close> have conflicts across fids and
    representations of their own (the files of the same names under \<open>storage/store/account\<close>, the
    registry in \<open>name_registry_events.rs\<close>).  \<open>Verification_Owner\<close> interprets the contract of the slots
    for verifications and adds that the index by address names the one fid whose add is live; an
    address that is taken over leaves no trace of the older add, so these stores are not among those
    that converge.  \<open>Link_Compact\<close> adds the compact states to the links: \<open>Link_Store\<close> alone
    describes the store as long as no compact state is merged.  \<open>Account_Stores\<close> collects them, \<open>Account_Utils\<close> holds
    the copies of shared functions in this directory.
  \<^item> \<open>Js_Bindings\<close>, \<open>Js_Stores\<close> (the functions \<open>js_*\<close> and \<open>create_*\<close> of \<open>storage/store/account\<close>): the
    JavaScript interface over a heap of boxed objects, with promises as tasks for the JavaScript
    thread or jobs of the thread pool that run in steps.  \<open>Js_Runtime\<close> runs the steps in any
    interleaving and shows that every promise is settled once and that every schedule of merges is some order of the same merges.
  \<^item> \<open>Sample_Env\<close>, \<open>Sample_Account\<close>, \<open>Sample_Client\<close>, \<open>Sample_Js\<close>: concrete codecs, databases, actors, stores and
    servers on which the properties are exercised.

  \<^bold>\<open>Correspondence.\<close>  Methods keep their names, prefixed where two components share one
  (\<open>merkle_trie_insert\<close>, \<open>shard_decide\<close>); a method with \<open>&mut self\<close> returns the changed record first.
  \<open>Err\<close> is the Rust error, \<open>Panic\<close> a panic (\<open>unwrap\<close>, index, arithmetic overflow in debug builds).
  Where a call may wait forever or a loop needs a bound, the result is an \<open>option\<close>: \<open>None\<close> stands for
  a block proposer still collecting chunks at the end of the schedule, or for exhausted fuel in
  \<open>get_blocks\<close> and \<open>get_all_values\<close>; two rounds are enough for the first and the length of the longest
  key for the second, as the properties state.  The endless loops of the clients (\<open>follow_loop\<close>,
  \<open>fetcher_run\<close>) take the number of rounds as an argument and are described for every number; the
  loop \<open>fetch\<close> inside a round has a termination proof.

  \<^bold>\<open>What is shown.\<close>  The trie refines a set of keys and its root is a function of that set (C6 to
  C11); from this, replicas agree and a commit is accepted exactly with the right root (C1 to C5).
  Storage: atomic batches, successors of keys, the height of the block engine, pages (C12 to C15).  Validators, proposer rotation
  and malformed votes (C16 to C18), timers (C19, C20), the actor: its history is the
  sequence of its decisions, what a decision does, what a block proposal holds (C21 to C25), from a
  published broadcast to the actors of a peer and the main loop (C26, C27).  Clients: a follower receives the
  chain, the fname client receives every transfer and its rounds end, on-chain events are kept by
  block, every report of the benchmark is about its own interval (C28 to C31).  Account stores: replicas converge, also through the JavaScript bindings,
  merging is last-writer-wins, pruning keeps the newest messages, names and verified
  addresses have one owner, compact states of links are respected, event ids increase, the registry keeps
  the latest proof (C32 to C40).  For
  the stores the messages come from a set \<open>U\<close> that satisfies \<open>universe\<close>: they decode to what was encoded, have the keys their kind needs (a link or reaction has a target) and no two of
  them collide on timestamp and hash.

  \<^bold>\<open>Parameters.\<close>  BLAKE3, the protobuf codecs, \<open>hex\<close>, Ed25519 verification, RocksDB's engine, the
  order in which a \<open>HashMap\<close> yields its keys, the clock, the network and the \<open>malachite\<close> core are
  arguments; what is used of them is a hypothesis of the lemma (for instance \<open>env_ok\<close>: the node codec
  decodes what it encoded).

  \<^bold>\<open>Not modelled.\<close>  The inside of the libp2p swarm, of the
  \<open>neon\<close> runtime and of the thread pool (the jobs of the pool are interleaved message by message, but the
  merge of one message is a step: the locks of \<open>store.rs\<close> exclude only merges of fids that are equal modulo
  4, and the reads and the commit of other merges are not interleaved here), the actor framework (a signal
  to stop is recorded, its handling is the function \<open>consensus_post_stop\<close>), the parsing of arguments and of
  configuration files (\<open>clap\<close>, \<open>figment\<close>), the serving of gRPC, metrics and logs.  \<open>storage/store/account\<close> is not compiled
  into the crate: the iteration \<open>for_each_iterator_by_prefix\<close>, whose three-argument form that code
  expects is not in \<open>rocksdb.rs\<close>, is the parameter \<open>ae_items\<close>, the entries it yields, in order.
\<close>

section \<open>Replicas and the shard engine\<close>

text \<open>
  C1. Replica agreement.  Two shard proposers whose engines hold the same key set \<open>S\<close> agree: when one
  proposes a chunk from its buffered messages and both decide it, both commits succeed, both engines
  hold \<open>S\<close> with the proposed hashes added and report one root, both databases hold the encoded chunk
  under its block number and both histories end with it.  The buffered messages have distinct hashes,
  and with \<open>S\<close> they satisfy \<open>committed_ok\<close>: hashes of 20 bytes that do not extend the initial key, fewer
  than \<open>2 ^ 32\<close> of them.  (A hash that occurs twice in a batch is counted twice, \<open>trie_node.rs:184\<close>.)
  The second proposer takes the proposal over without examining it: \<open>validate_state_change\<close> is a stub that
  always succeeds, what protects a replica is the comparison of the roots in the commit (C3).
\<close>

theorem replica_agreement:
  assumes a: "engine_inv E (spr_engine a) S" "se_messages (spr_engine a) = msgs"
    and b: "engine_inv E (spr_engine b) S"
    and msgs: "distinct (map msg_hash msgs)" "committed_ok (S \<union> msg_hash ` set msgs)"
    and time: "FARCASTER_EPOCH \<le> unat now"
  shows "\<exists>a1 fp chunk v a2 b1 b2. shard_propose_value E H R now h r a = (a1, Ok fp) \<and>
    fp_proposed_value fp = Some (Shard chunk) \<and> v = \<lparr>sh_shard_index = shard_index h, sh_hash = sc_hash chunk\<rparr> \<and>
    shard_add_proposed_value fp b = (b1, Ok Valid) \<and>
    shard_decide E C h v a1 = (a2, Ok ()) \<and> shard_decide E C h v b1 = (b2, Ok ()) \<and>
    engine_inv E (spr_engine a2) (S \<union> msg_hash ` set msgs) \<and>
    engine_inv E (spr_engine b2) (S \<union> msg_hash ` set msgs) \<and>
    merkle_trie_root_hash (se_trie (spr_engine a2)) = merkle_trie_root_hash (se_trie (spr_engine b2)) \<and>
    db_view (se_db (spr_engine a2)) (make_shard_key (block_number h)) = Some (cc_chunk_encode C chunk) \<and>
    db_view (se_db (spr_engine b2)) (make_shard_key (block_number h)) = Some (cc_chunk_encode C chunk) \<and>
    spr_chunks a2 = spr_chunks a @ [chunk] \<and> spr_chunks b2 = spr_chunks b @ [chunk]"
proof -
  from shard_propose_ok [OF a msgs time, of H R h r] obtain a1 fp chunk where
    p: "shard_propose_value E H R now h r a = (a1, Ok fp)" "proposal_for E H a S msgs h fp chunk"
      "engine_inv E (spr_engine a1) S" "spr_chunks a1 = spr_chunks a"
      "hm_get (spr_proposed_chunks a1) \<lparr>sh_shard_index = shard_index h, sh_hash = sc_hash chunk\<rparr> = Some fp"
    by blast
  from add_proposal_ok [OF p(2), of b] obtain b1 where
    q: "shard_add_proposed_value fp b = (b1, Ok Valid)" "spr_engine b1 = spr_engine b" "spr_chunks b1 = spr_chunks b"
      "hm_get (spr_proposed_chunks b1) \<lparr>sh_shard_index = shard_index h, sh_hash = sc_hash chunk\<rparr> = Some fp"
    by blast
  from decide_proposal_ok [OF p(2,5,3) msgs, of C] obtain a2 where a2:
    "shard_decide E C h \<lparr>sh_shard_index = shard_index h, sh_hash = sc_hash chunk\<rparr> a1 = (a2, Ok ())"
    "engine_inv E (spr_engine a2) (S \<union> msg_hash ` set msgs)" "spr_chunks a2 = spr_chunks a @ [chunk]"
    "db_view (se_db (spr_engine a2)) (make_shard_key (block_number h)) = Some (cc_chunk_encode C chunk)"
    using p(4) by auto
  from decide_proposal_ok [OF p(2) q(4) _ msgs, of C] b q(2,3) obtain b2 where b2:
    "shard_decide E C h \<lparr>sh_shard_index = shard_index h, sh_hash = sc_hash chunk\<rparr> b1 = (b2, Ok ())"
    "engine_inv E (spr_engine b2) (S \<union> msg_hash ` set msgs)" "spr_chunks b2 = spr_chunks b @ [chunk]"
    "db_view (se_db (spr_engine b2)) (make_shard_key (block_number h)) = Some (cc_chunk_encode C chunk)" by auto
  from engine_inv_root [OF a2(2)] engine_inv_root [OF b2(2)] p(1,2) q(1) a2 b2 show ?thesis
    by (auto simp: proposal_for_def)
qed

theorem replica_agreement_witness:
  "\<exists>p fp chunk v q. shard_propose_value sample_env sample_headers sample_rounds 1700000000 sample_height 0
      (sample_proposer\<lparr>spr_engine := sample_engine\<lparr>se_messages := [sample_message]\<rparr>\<rparr>) = (p, Ok fp) \<and>
    fp_proposed_value fp = Some (Shard chunk) \<and> v = \<lparr>sh_shard_index = shard_index sample_height, sh_hash = sc_hash chunk\<rparr> \<and>
    shard_decide sample_env sample_chain sample_height v
      (fst (shard_add_proposed_value fp sample_proposer)) = (q, Ok ()) \<and>
    db_view (se_db (spr_engine q)) (make_shard_key (block_number sample_height)) = Some (cc_chunk_encode sample_chain chunk) \<and>
    spr_chunks q = [chunk] \<and> engine_inv sample_env (spr_engine q) {initial_key, sample_hash}"
proof -
  let ?a = "sample_proposer\<lparr>spr_engine := sample_engine\<lparr>se_messages := [sample_message]\<rparr>\<rparr>"
  have a: "engine_inv sample_env (spr_engine ?a) {initial_key}" "se_messages (spr_engine ?a) = [sample_message]"
    "engine_inv sample_env (spr_engine sample_proposer) {initial_key}"
    using sample_engine_ok(2) by (simp_all add: engine_inv_def sample_proposer_def shard_proposer_new_def)
  have m: "distinct (map msg_hash [sample_message])" "committed_ok ({initial_key} \<union> msg_hash ` set [sample_message])"
    "FARCASTER_EPOCH \<le> unat (1700000000 :: u64)"
    using sample_committed_ok by (simp_all add: sample_message_def insert_commute FARCASTER_EPOCH_def)
  have c: "spr_chunks sample_proposer = []" by (simp add: sample_proposer_def shard_proposer_new_def)
  from replica_agreement [OF a(1,2,3) m, of sample_headers sample_rounds sample_height 0 sample_chain] c
  show ?thesis by (fastforce simp: sample_message_def insert_commute)
qed

text \<open>
  C2. The root is a function of the committed set.  Along any run of an engine opened on a database
  without a trie, that is any sequence of submits, proposals and commits that return, the root hash is
  the reference Merkle hash of the initial key and the hashes of the committed chunks, the item count
  is their number, and the trie on disk is that of the same set: a reload finds it again.  Conditions:
  no committed chunk repeats a hash within itself (the engine does not check this, and with a repeated
  hash the count and the root differ, see the finding on \<open>trie_node.rs:184\<close>), and the committed hashes
  have 20 bytes, do not extend the initial key and are fewer than \<open>2 ^ 32\<close> (\<open>committed_ok\<close>).
\<close>

theorem engine_root_of_committed_set:
  assumes new: "env_ok E" "db_healthy db" "db_view db (make_primary_key [] None) = None"
      "shard_engine_new E open_fn shard db = Ok e0"
    and run: "engine_run E C e0 acts e"
    and hashes: "\<forall>chunk. Commit chunk \<in> set acts \<longrightarrow> distinct (chunk_hashes chunk)"
      "committed_ok (committed_keys acts)"
  shows "merkle_trie_root_hash (se_trie e) = Ok (merkle E 0 (committed_keys acts)) \<and>
    merkle_trie_items (se_trie e) = Ok (card (committed_keys acts)) \<and>
    (\<exists>t. merkle_trie_reload E (se_db e) (se_trie e) = (t, Ok ()) \<and>
       merkle_trie_root_hash t = Ok (merkle E 0 (committed_keys acts)))"
proof -
  have "distinct (action_hashes a)" if "a \<in> set acts" for a using hashes(1) that by (cases a) auto
  with engine_run_inv [OF run engine_new_fresh [OF new(2,1,3,4)] _ hashes(2)]
  have inv: "engine_inv E e (committed_keys acts)" by blast
  then have ok: "trie_holds E (se_db e) (se_trie e) (committed_keys acts)"
    "trie_saved E (se_db e) (committed_keys acts)" "committed_keys acts \<noteq> {}"
    by (simp_all add: engine_inv_def)
  from trie_set.revert_ok [OF ok(2), of "se_trie e"] trie_set.root_ok [OF _ ok(3)]
    engine_inv_root [OF inv] trie_holds_items [OF ok(1)] show ?thesis by blast
qed

theorem engine_root_of_committed_set_witness:
  "\<exists>e1 e. shard_engine_submit sample_message sample_engine = Some e1 \<and>
     commit_shard_chunk sample_env sample_chain
       (sample_chunk (merkle sample_env 0 {initial_key, sample_hash})) e1 = (e, Ok ()) \<and>
     merkle_trie_root_hash (se_trie e) = Ok (merkle sample_env 0 {initial_key, sample_hash}) \<and>
     merkle_trie_items (se_trie e) = Ok 2"
proof -
  let ?root = "merkle sample_env 0 {initial_key, sample_hash}"
  let ?chunk = "sample_chunk ?root"
  obtain e1 where e1: "shard_engine_submit sample_message sample_engine = Some e1"
    using sample_engine_submit by blast
  have inv: "engine_inv sample_env e1 {initial_key}" using submit_inv [OF sample_engine_ok(2) e1] .
  have "trie_allowed ({initial_key} \<union> msg_hash ` set (tx_user_messages sample_tx))"
    using committed_ok_allowed [OF sample_committed_ok] by (simp add: insert_commute)
  from commit_chunk_ok [OF inv, of ?chunk "sample_header ?root" sample_tx "[]" 1 sample_chain] this
  obtain e where e: "commit_shard_chunk sample_env sample_chain ?chunk e1 = (e, Ok ())"
    by (auto simp: insert_commute)
  have run: "engine_run sample_env sample_chain sample_engine ([] @ [Submit sample_message] @ [Commit ?chunk]) e"
    unfolding append_assoc [symmetric]
    by (rule engine_run.step [OF engine_run.step [OF engine_run.start engine_step.submit [OF e1]] engine_step.commit [OF e]])
  have keys: "committed_keys ([] @ [Submit sample_message] @ [Commit ?chunk]) = {initial_key, sample_hash}"
    by (auto simp: committed_keys_def chunk_hashes_def)
  have fresh: "card {initial_key, sample_hash} = 2"
    by (simp add: card_insert_if)
  have "committed_ok (committed_keys ([] @ [Submit sample_message] @ [Commit ?chunk]))"
    using sample_committed_ok keys by (simp add: insert_commute)
  from engine_root_of_committed_set [OF _ sample_db_healthy _ sample_engine_ok(1) run _ this] keys fresh e1 e
  show ?thesis by (auto simp: chunk_hashes_def)
qed

text \<open>
  C3. A decided chunk is applied exactly when its header carries the root the engine computes.
  With any other root the commit panics, and the database keeps its contents.
\<close>

theorem commit_accepts_only_matching_root:
  assumes "engine_inv E e S" "sc_header chunk = Some header" "sc_transactions chunk = tx # txs"
    "chunk_number_of chunk = Some n" "distinct (map msg_hash (tx_user_messages tx))"
    "committed_ok (S \<union> msg_hash ` set (tx_user_messages tx))"
  shows "\<exists>e' r. commit_shard_chunk E C chunk e = (e', r) \<and>
    (if sh_shard_root header = merkle E 0 (S \<union> msg_hash ` set (tx_user_messages tx))
     then r = Ok () \<and> engine_inv E e' (S \<union> msg_hash ` set (tx_user_messages tx)) \<and>
          db_view (se_db e') (make_shard_key n) = Some (cc_chunk_encode C chunk)
     else r = Panic hashes_mismatch \<and> se_db e' = se_db e)"
proof (cases "sh_shard_root header = merkle E 0 (S \<union> msg_hash ` set (tx_user_messages tx))")
  case True
  with commit_chunk_ok [OF assms(1-5) committed_ok_allowed [OF assms(6)] True, of C] show ?thesis by auto
next
  case False
  with commit_chunk_mismatch [OF assms(1-3,5) committed_ok_allowed [OF assms(6)] False, of C] show ?thesis by auto
qed

theorem commit_accepts_only_matching_root_witness:
  "\<exists>e. commit_shard_chunk sample_env sample_chain
     (sample_chunk (merkle sample_env 0 {initial_key, sample_hash})) sample_engine = (e, Ok ()) \<and>
     engine_inv sample_env e {initial_key, sample_hash}"
proof -
  let ?root = "merkle sample_env 0 {initial_key, sample_hash}"
  have "committed_ok ({initial_key} \<union> msg_hash ` set (tx_user_messages sample_tx))"
    using sample_committed_ok by (simp add: insert_commute)
  with commit_accepts_only_matching_root [OF sample_engine_ok(2), of "sample_chunk ?root" "sample_header ?root"
      sample_tx "[]" 1 sample_chain]
  show ?thesis by (auto simp: insert_commute)
qed

text \<open>
  C4. Proposing rolls back.  With buffered messages of distinct, valid hashes (\<open>committed_ok\<close>), a proposal
  announces the root of the set after the buffered messages, empties the buffer, and leaves the trie
  and the database as they were.
\<close>

theorem propose_rolls_back:
  assumes "engine_inv E e S" "se_messages e = msgs" "distinct (map msg_hash msgs)"
    "committed_ok (S \<union> msg_hash ` set msgs)"
  shows "\<exists>e' change. propose_state_change E shard e = (e', Ok change) \<and>
    ssc_new_state_root change = merkle E 0 (S \<union> msg_hash ` set msgs) \<and>
    map tx_user_messages (ssc_transactions change) = [msgs] \<and>
    engine_inv E e' S \<and> se_messages e' = [] \<and> se_db e' = se_db e"
  using propose_ok [OF assms(1-3) committed_ok_allowed [OF assms(4)], of shard] by auto

theorem propose_rolls_back_witness:
  "\<exists>e change. propose_state_change sample_env 1 (sample_engine\<lparr>se_messages := [sample_message]\<rparr>) = (e, Ok change) \<and>
     ssc_new_state_root change = merkle sample_env 0 {initial_key, sample_hash} \<and>
     engine_inv sample_env e {initial_key}"
proof -
  let ?e = "sample_engine\<lparr>se_messages := [sample_message]\<rparr>"
  have "engine_inv sample_env ?e {initial_key}" using sample_engine_ok(2) by (simp add: engine_inv_def)
  moreover have "committed_ok ({initial_key} \<union> msg_hash ` set [sample_message])"
    using sample_committed_ok by (simp add: sample_message_def insert_commute)
  ultimately show ?thesis
    using propose_rolls_back [of sample_env ?e "{initial_key}" "[sample_message]" 1]
    by (auto simp: sample_message_def insert_commute)
qed

text \<open>
  C5. A restarted engine recovers its keys.  Opening the engine on a database that holds the trie
  of \<open>S\<close>, or on an empty one, gives an engine with \<open>S\<close> and the initial key.
\<close>

theorem engine_restart:
  assumes "db_healthy db" "env_ok E" "trie_allowed (insert initial_key S)"
    "trie_saved E db S \<or> S = {} \<and> db_view db (make_primary_key [] None) = None"
  shows "\<exists>e. shard_engine_new E open_fn shard db = Ok e \<and> engine_inv E e (insert initial_key S) \<and>
    se_messages e = [] \<and> se_shard_id e = shard"
  using engine_new_ok [of db E S open_fn shard] assms by (auto simp: trie_saved_def)

theorem engine_restart_witness:
  "\<exists>e. shard_engine_new sample_env sample_open 2 (se_db sample_engine) = Ok e \<and>
     engine_inv sample_env e {initial_key}"
proof -
  have "db_healthy (se_db sample_engine)" using sample_trie_ok(2) by (simp add: trie_saved_def)
  moreover have "trie_allowed (insert initial_key {initial_key})" using initial_key_allowed by simp
  ultimately show ?thesis
    using engine_restart [of "se_db sample_engine" sample_env "{initial_key}" sample_open 2] sample_trie_ok(2)
    by auto
qed

section \<open>The Merkle trie\<close>

text \<open>
  C6. Insertion refines set union.  Inserting a batch of keys into a trie that holds \<open>S\<close> reports
  which of them were new and gives a trie that holds the union, counts its keys and hashes to its
  Merkle root.
\<close>

theorem trie_insert_refines:
  assumes "trie_holds E db t S" "distinct keys" "keys \<noteq> []" "trie_allowed (S \<union> set keys)"
  shows "\<exists>t'. merkle_trie_insert E db keys t = (t', Ok (map (\<lambda>k. k \<notin> S) keys)) \<and>
    trie_holds E db t' (S \<union> set keys) \<and> merkle_trie_items t' = Ok (card (S \<union> set keys)) \<and>
    merkle_trie_root_hash t' = Ok (merkle E 0 (S \<union> set keys))"
proof -
  from trie_set.add_ok [OF assms(1,2,4)] obtain t' where t':
    "merkle_trie_insert E db keys t = (t', Ok (map (\<lambda>k. k \<notin> S) keys))" "trie_holds E db t' (S \<union> set keys)" by blast
  moreover have "S \<union> set keys \<noteq> {}" using assms(3) by simp
  ultimately show ?thesis using trie_set.root_ok trie_holds_items by blast
qed

theorem trie_insert_refines_witness:
  "\<exists>t. merkle_trie_insert sample_env (se_db sample_engine) [sample_hash] (se_trie sample_engine) = (t, Ok [True]) \<and>
     merkle_trie_items t = Ok 2"
  using trie_insert_refines [OF sample_trie_ok(1) _ _ sample_allowed] by (auto simp: card_insert_if)

text \<open>
  C7. Deletion refines set difference.  Deleting a batch of keys reports which of them were present;
  the node that is left represents the difference and hashes to its Merkle root.
\<close>

theorem trie_delete_refines:
  assumes "trie_holds E db t S" "S \<noteq> {}" "distinct keys" "keys \<noteq> []" "trie_allowed (S \<union> set keys)"
  shows "\<exists>t' root. merkle_trie_delete E db keys t = (t', Ok (map (\<lambda>k. k \<in> S) keys)) \<and>
    mt_root t' = Some root \<and> rep0 E (db_view db) [] root (S - set keys) \<and>
    merkle_trie_root_hash t' = Ok (merkle E 0 (S - set keys))"
proof -
  from assms(1) obtain root where "mt_root t = Some root" "rep0 E (db_view db) [] root S" "db_healthy db" "env_ok E"
    by (auto simp: trie_holds_def mt_holds_def)
  with delete_ok [of db E t root S keys] assms(2-5) show ?thesis
    by (fastforce simp: trie_allowed_def merkle_trie_root_hash_def)
qed

theorem trie_delete_refines_witness:
  "\<exists>t. merkle_trie_delete sample_env (se_db sample_engine) [sample_hash, initial_key] (se_trie sample_engine) =
     (t, Ok [False, True]) \<and> merkle_trie_root_hash t = Ok (merkle sample_env 0 {})"
  using trie_delete_refines [OF sample_trie_ok(1), of "[sample_hash, initial_key]"] sample_allowed by auto

text \<open>
  C8. Membership.  For a key that is not empty, \<open>exists\<close> answers whether it is in the set the trie holds, loading nodes from
  the database as it goes, and changes no answer.
\<close>

theorem trie_exists_correct:
  assumes "trie_holds E db t S" "key \<noteq> []"
  shows "\<exists>t'. merkle_trie_exists E db key t = (t', Ok (key \<in> S)) \<and> trie_holds E db t' S"
  using assms exists_ok [of db E t S key] by (auto simp: trie_holds_def)

theorem trie_exists_correct_witness:
  "\<exists>t. merkle_trie_exists sample_env (se_db sample_engine) initial_key (se_trie sample_engine) = (t, Ok True)"
  using trie_exists_correct [OF sample_trie_ok(1), of initial_key] by auto

text \<open>
  C9. The root does not depend on the order of insertion: two tries that hold one set and insert
  the same new keys in any two orders report the same root hash.
\<close>

theorem trie_order_independent:
  assumes "trie_holds E db t S" "trie_holds E db' t' S" "distinct keys" "distinct keys'" "set keys = set keys'"
    "keys \<noteq> []" "trie_allowed (S \<union> set keys)"
  shows "\<exists>t1 t1' h. merkle_trie_insert E db keys t = (t1, Ok (map (\<lambda>k. k \<notin> S) keys)) \<and>
    merkle_trie_insert E db' keys' t' = (t1', Ok (map (\<lambda>k. k \<notin> S) keys')) \<and>
    merkle_trie_root_hash t1 = Ok h \<and> merkle_trie_root_hash t1' = Ok h"
  by (rule trie_set.add_agree [OF assms])

theorem trie_order_independent_witness:
  "\<exists>t1 t2 h. merkle_trie_insert sample_env (se_db sample_engine) [sample_hash, initial_key] (se_trie sample_engine) =
      (t1, Ok [True, False]) \<and>
    merkle_trie_insert sample_env (se_db sample_engine) [initial_key, sample_hash] (se_trie sample_engine) =
      (t2, Ok [False, True]) \<and> merkle_trie_root_hash t1 = Ok h \<and> merkle_trie_root_hash t2 = Ok h"
  using trie_order_independent [OF sample_trie_ok(1) sample_trie_ok(1),
      of "[sample_hash, initial_key]" "[initial_key, sample_hash]"] sample_allowed
  by (simp add: insert_commute)

text \<open>
  C10. A commit survives a reload: the trie read back from the database after a commit holds the
  same set, with the same root and number of items.
\<close>

theorem trie_commit_reload:
  assumes "trie_holds E db t S" "S \<noteq> {}"
  shows "\<exists>db' t1 t2. merkle_trie_commit db t = ((db', t1), Ok ()) \<and>
    merkle_trie_reload E db' t1 = (t2, Ok ()) \<and> trie_holds E db' t2 S \<and>
    merkle_trie_root_hash t2 = merkle_trie_root_hash t \<and> merkle_trie_items t2 = merkle_trie_items t"
proof -
  from trie_set.flush_revert [OF assms(1)] obtain db' t1 t2 where r: "merkle_trie_commit db t = ((db', t1), Ok ())"
    "merkle_trie_reload E db' t1 = (t2, Ok ())" "trie_holds E db' t2 S" by blast
  with trie_set.root_ok [OF r(3) assms(2)] trie_set.root_ok [OF assms] trie_holds_items [OF r(3)]
    trie_holds_items [OF assms(1)] show ?thesis by auto
qed

theorem trie_commit_reload_witness:
  "\<exists>db t1 t2. merkle_trie_commit (se_db sample_engine) (se_trie sample_engine) = ((db, t1), Ok ()) \<and>
     merkle_trie_reload sample_env db t1 = (t2, Ok ()) \<and> trie_holds sample_env db t2 {initial_key}"
  using trie_commit_reload [OF sample_trie_ok(1)] by blast

text \<open>
  C11. Enumeration.  From the root, \<open>get_all_values\<close> returns the keys of the trie in lexicographic
  order, each once, for any trie of at most \<open>MAX_VALUES_RETURNED_PER_CALL\<close> keys; fuel above the
  length of the longest key suffices.
\<close>

theorem trie_values_sorted:
  assumes "trie_holds E db t S" "S \<noteq> {}" "card S \<le> MAX_VALUES_RETURNED_PER_CALL" "\<forall>k \<in> S. length k < fuel"
  shows "\<exists>t'. merkle_trie_get_all_values fuel E db [] t = (t', Some (Ok (sorted_list_of_set S)))"
proof -
  from assms(1,2) obtain root where root: "mt_root t = Some root" "trie_rep E (db_view db) [] root S" "db_healthy db"
    by (auto simp: trie_holds_def mt_holds_def rep0_def)
  with get_all_values_ok [OF root(3,2) assms(3), of fuel] assms(4) obtain root' where
    "get_all_values fuel E db [] root = (root', Some (Ok (sorted_list_of_set S)))" by auto
  with root(1) show ?thesis
    by (auto simp: merkle_trie_get_all_values_def with_node_from_trie.simps)
qed

theorem trie_values_sorted_witness:
  "\<exists>t. merkle_trie_get_all_values 21 sample_env (se_db sample_engine) [] (se_trie sample_engine) =
     (t, Some (Ok [initial_key]))"
  using trie_values_sorted [OF sample_trie_ok(1), of 21]
  by (simp add: MAX_VALUES_RETURNED_PER_CALL_def initial_key_def)

section \<open>The database and the chain stores\<close>

text \<open>
  C12. A batch commits all or nothing.  Whatever the storage engine answers, a commit that succeeds
  leaves the database with exactly the batch laid over it, and one that fails leaves it as it was.
\<close>

theorem commit_all_or_nothing:
  assumes "rocksdb_commit db batch = (db', r)" "hm_wf batch" "kv_wf (db_entries db)"
  shows "case r of Ok _ \<Rightarrow> db_view db' = overlay (db_view db) batch \<and> kv_wf (db_entries db') | _ \<Rightarrow> db' = db"
proof (cases r)
  case (Ok u)
  with assms(1) obtain tdb pending where "rdb_db db = Some tdb" "commit_loop tdb batch (tdb_entries tdb) = Ok pending"
    "db' = db\<lparr>rdb_db := Some (tdb\<lparr>tdb_entries := pending\<rparr>)\<rparr>"
    by (auto simp: rocksdb_commit_def split: option.splits result.splits)
  moreover from this(2) have "pending = fold kv_store.kv_write batch (tdb_entries tdb)" by (rule commit_loop_Ok)
  ultimately show ?thesis using assms(2,3) Ok
    by (simp add: db_view_def db_entries_def overlay_def kv_store.get_writes kv_store.wf_writes fun_eq_iff)
next
  case (Err e)
  with assms(1) show ?thesis by (auto simp: rocksdb_commit_atomic)
next
  case (Panic m)
  with assms(1) show ?thesis by (auto simp: rocksdb_commit_def split: option.splits result.splits)
qed

theorem commit_all_or_nothing_witness:
  "\<exists>db. rocksdb_commit sample_db [([1], Some [2]), ([3], None)] = (db, Ok ()) \<and>
     db_view db = Map.empty([1] \<mapsto> [2])"
proof -
  let ?batch = "[([1], Some [2]), ([3], None)] :: txn_batch"
  have "overlay Map.empty ?batch = Map.empty([1] \<mapsto> [2])" by (auto simp: overlay_def fun_eq_iff)
  then show ?thesis
    using rocksdb_commit_healthy [OF sample_db_healthy, of ?batch]
      commit_all_or_nothing [of sample_db ?batch] kv_wf_db_entries [OF sample_db_healthy] by auto
qed

text \<open>
  C13. \<open>increment_vec_u8\<close> is the successor among keys of one length, and \<open>decrement_vec_u8\<close> undoes
  it, for every key that is not all \<open>0xff\<close>.
\<close>

theorem increment_is_successor:
  assumes "\<exists>b \<in> set v. b \<noteq> 255"
  shows "length (increment_vec_u8 v) = length v \<and> v < increment_vec_u8 v \<and>
    \<not> (\<exists>k. length k = length v \<and> v < k \<and> k < increment_vec_u8 v) \<and>
    decrement_vec_u8 (increment_vec_u8 v) = v"
  using increment_next [OF assms] decrement_increment [OF assms] length_increment [of v] assms by fastforce

theorem increment_is_successor_witness:
  "increment_vec_u8 [1, 255] = [2, 0] \<and> decrement_vec_u8 [2, 0] = [1, 255] \<and>
     \<not> (\<exists>k. length k = 2 \<and> [1, 255] < k \<and> k < ([2, 0] :: bytes))"
proof -
  have "increment_vec_u8 [1, 255] = [2, 0]" by (simp add: increment_vec_u8_def)
  then show ?thesis using increment_is_successor [of "[1, 255]"] by simp
qed

text \<open>
  C14. The confirmed height follows the blocks.  The database of a block engine holds blocks only, all
  of shard 0 and each under its height (\<open>main.rs:56\<close> opens it for nothing else).  Committing a block of
  shard 0 with number \<open>n\<close> succeeds, keeps this, and the height reported next is the maximum of \<open>n\<close> and
  the numbers already there, so a block that arrives late does not lower it.  (The shard engine's
  counterpart reads its height from a database shared with the trie, see the finding on \<open>shard.rs:75\<close>.)
\<close>

theorem block_height_follows:
  assumes "db_healthy (be_db e)" "blocks_indexed C (be_db e)" "\<forall>(s, m) \<in> block_heights (be_db e). s = 0"
    "block_height_of b = Some (0, n)" "cc_block_decode C (cc_block_encode C b) = Ok b"
  shows "\<exists>e'. commit_block C b e = (e', Ok ()) \<and> db_healthy (be_db e') \<and> blocks_indexed C (be_db e') \<and>
    block_heights (be_db e') = insert (0, n) (block_heights (be_db e)) \<and>
    block_engine_confirmed_height C e' = (Ok (height_new 0 (Max (insert n {m. (0, m) \<in> block_heights (be_db e)})))
      :: (string, height) result)"
proof -
  from put_block_ok [OF assms(1,4), of C] obtain db' where put: "put_block C (be_db e) b = (db', Ok ())" by blast
  note ix = put_block_indexed [OF assms(1,2,5,4) put]
  have "{m. (0, m) \<in> block_heights db'} = insert n {m. (0, m) \<in> block_heights (be_db e)}" by (auto simp: ix(3))
  with block_max_last_shard [OF ix(1,2), of 0] assms(3) have
    "block_max_block_number C db' 0 = Ok (Max (insert n {m. (0, m) \<in> block_heights (be_db e)}))"
    by (auto simp: ix(3))
  with put ix show ?thesis by (simp add: commit_block_def block_engine_confirmed_height_def)
qed

theorem block_height_follows_witness:
  "\<exists>e'. commit_block (sample_chain\<lparr>cc_block_decode := (\<lambda>_. Ok (sample_block_at 0 4))\<rparr>) (sample_block_at 0 4)
      \<lparr>be_db = sample_db\<rparr> = (e', Ok ()) \<and>
     block_engine_confirmed_height (sample_chain\<lparr>cc_block_decode := (\<lambda>_. Ok (sample_block_at 0 4))\<rparr>) e' =
       (Ok (height_new 0 4) :: (string, height) result)"
proof -
  let ?C = "sample_chain\<lparr>cc_block_decode := (\<lambda>_. Ok (sample_block_at 0 4))\<rparr>"
  have "blocks_indexed ?C (be_db \<lparr>be_db = sample_db\<rparr>)"
    by (simp add: blocks_indexed_def db_entries_def sample_db_def sample_tdb_def)
  moreover have "block_heights (be_db \<lparr>be_db = sample_db\<rparr>) = {}" by (simp add: block_heights_def)
  ultimately show ?thesis
    using block_height_follows [of "\<lparr>be_db = sample_db\<rparr>" ?C "sample_block_at 0 4" 4] by auto
qed

text \<open>
  C15. Reading blocks back.  \<open>get_blocks\<close> returns the blocks of the range in order, cut to the first
  page of \<open>PAGE_SIZE\<close>: the second page it asks for is always empty.
\<close>

theorem get_blocks_first_page:
  assumes "db_healthy db" "blocks_indexed C db"
    "es = kv_range (make_block_key s a)
      (case stop of None \<Rightarrow> replicate 32 255 | Some z \<Rightarrow> make_block_key s z) (db_entries db)"
  shows "get_blocks (Suc (Suc fuel)) C db a stop s = Some (Ok (decoded (cc_block_decode C) (take PAGE_SIZE es)))"
  by (rule get_blocks_ok [OF assms])

theorem get_blocks_first_page_witness:
  "get_blocks 2 sample_blocks sample_block_db 0 None 1 = Some (Ok [sample_block])"
  using get_blocks_first_page [OF sample_block_db_ok(1,2) refl, of 0 0 None 1]
  by (simp add: sample_block_db_ok(3) decoded_def PAGE_SIZE_def numeral_2_eq_2 sample_blocks_def ok_opt_def List.map_filter_def)

section \<open>Validators, votes and gossip\<close>

text \<open>
  C16. Validator sets are canonical.  Whatever the order in which the validators of a shard are
  given, \<open>SnapchainValidatorSet::new\<close> builds the same list, sorted, one entry per address, with all
  of them in it.
\<close>

theorem validator_set_canonical:
  assumes "distinct (map sv_address vs)" "\<forall>v \<in> set vs. sv_shard_index v = s" "mset ws = mset vs"
  shows "validator_set_new ws = validator_set_new vs \<and> set (validator_set_new vs) = set vs \<and>
    validator_set_wf (validator_set_new vs)"
  using validator_set_new_order [OF assms] validator_set_new_set [OF assms(1,2)] validator_set_new_wf by blast

theorem validator_set_canonical_witness:
  "validator_set_new [sample_validator 2, sample_validator 1] = validator_set_new [sample_validator 1, sample_validator 2]"
  using validator_set_canonical [of "[sample_validator 1, sample_validator 2]" 1 "[sample_validator 2, sample_validator 1]"]
  by (simp add: sample_validator_def snapchain_validator_new_def numeral_eq_Suc)

text \<open>
  C17. Every validator gets its turn.  At a positive height, each validator of the set is the
  proposer of one of the first \<open>n\<close> rounds, \<open>n\<close> the number of validators, as long as the sum of
  height and round stays in \<open>u64\<close>.
\<close>

theorem proposer_rotation_fair:
  assumes "round_nonneg R" "length vs < 2 ^ 63" "v \<in> set vs" "0 < block_number h"
    "unat (block_number h) - 1 + length vs < 2 ^ 64"
  shows "\<exists>i < length vs. select_proposer R vs h (rnd_new R (word_of_nat i)) = Ok v"
  by (rule select_proposer_fair [OF assms])

theorem proposer_rotation_fair_witness:
  "\<exists>i < length [sample_validator 1, sample_validator 2]. select_proposer sample_rounds [sample_validator 1, sample_validator 2] sample_height
     (rnd_new sample_rounds (word_of_nat i)) = Ok (sample_validator 2)"
  using proposer_rotation_fair [OF sample_rounds_nonneg, of "[sample_validator 1, sample_validator 2]" "sample_validator 2"
      sample_height] by (simp add: sample_height_def height_new_def)

text \<open>
  C18. A malformed vote of a peer (unknown type, no height, or a voter that is not 32 bytes) makes
  the gossip handler panic, whatever its signature.
\<close>

theorem gossip_malformed_vote_panics:
  assumes "ge_decode G data = Ok \<lparr>gm_message = Some (GmConsensus \<lparr>cm_message = Some (CmVote p), cm_signature = sig\<rparr>)\<rparr>"
    "\<not> ((pvo_type p = 0 \<or> pvo_type p = 1) \<and> pvo_height p \<noteq> None \<and> length (pvo_voter p) = 32)"
  shows "\<exists>m. gossip_in R G data = (Panic m :: (string, _) result)"
  by (rule gossip_bad_vote [OF assms])

theorem gossip_malformed_vote_panics_witness:
  "\<exists>G m. gossip_in sample_rounds G [1] = (Panic m :: (string, _) result)"
proof -
  let ?p = "(vote_to_proto sample_rounds sample_vote)\<lparr>pvo_height := None\<rparr>"
  let ?G = "\<lparr>ge_encode = (\<lambda>_. [1]), ge_decode = (\<lambda>_. Ok \<lparr>gm_message = Some (GmConsensus
    \<lparr>cm_message = Some (CmVote ?p), cm_signature = []\<rparr>)\<rparr>), ge_public_key_ok = (\<lambda>_. True)\<rparr>"
  from gossip_malformed_vote_panics [of ?G "[1]" ?p "[]" sample_rounds] show ?thesis by auto
qed

section \<open>Timers\<close>

text \<open>
  C19. A timer message counts exactly when its timer runs.  Along every run of the scheduler, the
  messages and the mailbox, \<open>intercept_timer_msg\<close> answers the key of a message when the last event of
  that key is the start of the message's generation, and drops messages of cancelled, restarted or
  elapsed timers.
\<close>

theorem timer_message_current:
  assumes "timer_run timer_world_new ls w"
  shows "snd (intercept_timer_msg t (tw_sched w)) =
    (if running (rev ls) (te_key t) = Some (te_generation t) then Some (te_key t) else None)"
  by (rule intercept_iff_running [OF assms])

theorem timer_message_current_witness:
  "snd (intercept_timer_msg \<lparr>te_key = 7, te_generation = 1\<rparr> (tw_sched sample_timers)) = Some 7 \<and>
   snd (intercept_timer_msg \<lparr>te_key = 7, te_generation = 2\<rparr> (tw_sched sample_timers)) = None"
  by (simp add: timer_message_current [OF sample_timer_run])

text \<open>
  C20. No timeout is delivered twice and none is lost.  Every delivered message carries a
  generation that was started, no generation is delivered twice, and a running timer is active
  with its message either waiting in its task or in the mailbox.
\<close>

theorem timer_once_and_not_lost:
  assumes "timer_run timer_world_new ls w"
  shows "distinct (map te_generation (delivered ls)) \<and>
    (\<forall>t \<in> set (delivered ls). Started (te_key t) (te_generation t) \<in> set ls) \<and>
    (\<forall>k g. running (rev ls) k = Some g \<longrightarrow> is_timer_active (tw_sched w) k \<and>
       (timer_msg k g \<in> set (ts_tasks (tw_sched w)) \<or> timer_msg k g \<in> set (tw_mailbox w)))"
  using delivered_once [OF assms] running_not_lost [OF assms] by blast

theorem timer_once_and_not_lost_witness:
  "is_timer_active (tw_sched sample_timers) 7 \<and>
   (timer_msg 7 1 \<in> set (ts_tasks (tw_sched sample_timers)) \<or> timer_msg 7 1 \<in> set (tw_mailbox sample_timers))"
proof -
  have "running (rev [Started (7 :: nat) 1]) 7 = Some 1" by simp
  with timer_once_and_not_lost [OF sample_timer_run] show ?thesis by blast
qed

section \<open>The consensus actor\<close>

text \<open>
  C21. The history of an actor is the sequence of its decisions.  When the core processes an input and
  the handling returns, the blocks (or chunks) the actor has decided are those it had before, followed
  by the values its proposer remembered under the hashes of the core's \<open>Decide\<close> effects, in the order of
  those effects: nothing else is appended, nothing decided is left out, and a hash no proposal is known
  for appends nothing.  No other effect changes the history.
\<close>

theorem history_is_decisions:
  assumes "process_input N K config inp st = (st', Some r)" "\<nexists>m. r = Panic m"
  shows "val_history (cs_shard_validator st') = val_history (cs_shard_validator st) @
    concat (map decided_value (effect_trace (handle_effect N config) (core_process K (cs_consensus st) inp) st))"
proof -
  obtain st1 x where p: "process (handle_effect N config) (core_process K (cs_consensus st) inp) st = (st1, Some x)"
    "\<nexists>m. x = Panic m" "cs_shard_validator st' = cs_shard_validator st1"
    using assms by (auto simp: process_input_def split: prod.splits option.splits result.splits)
  from process_decides [OF p(1,2)] p(3) show ?thesis by simp
qed

theorem history_is_decisions_witness:
  "\<exists>st. process_input sample_node (sample_core :: (i64, height) core) sample_timeouts (InStartHeight (height_new 0 1) [])
      sample_known_state = (st, Some (Ok ())) \<and>
    val_history (cs_shard_validator st) = [Block (sample_block_at 0 1)]"
proof -
  obtain st where st: "handle_effect sample_node sample_timeouts sample_known_state
      (Decide (height_new 0 1) 0 sample_value []) = (st, Some (Ok Continue))" using sample_decide_effect by blast
  have prog: "core_process sample_core (cs_consensus sample_known_state) (InStartHeight (height_new 0 1) []) =
      CoreYield (Decide (height_new 0 1) 0 sample_value []) (\<lambda>_. CoreDone (height_new 0 1) (Ok ()))"
    by (simp add: sample_core_def sample_value_def)
  with st have p: "process_input sample_node sample_core sample_timeouts (InStartHeight (height_new 0 1) [])
      sample_known_state = (st\<lparr>cs_consensus := height_new 0 1\<rparr>, Some (Ok ()))"
    by (simp add: process_input_def)
  from history_is_decisions [OF p] show ?thesis unfolding prog
    by (simp add: p st remembered_value_def sample_known_simps)
qed

text \<open>
  C22. The validator set of an actor stays well formed (sorted, one entry per address, one shard)
  and never loses a validator, over every message and every effect of the core.
\<close>

theorem actor_validators_kept:
  assumes "validator_set_wf (val_validator_set (cs_shard_validator st))" "handle_msg N K config msg st = (st', r)"
  shows "validator_set_wf (val_validator_set (cs_shard_validator st')) \<and>
    set (val_validator_set (cs_shard_validator st)) \<subseteq> set (val_validator_set (cs_shard_validator st'))"
  using validators.handle_msg_inv [of "val_validator_set (cs_shard_validator st)" st, OF _ assms(2)] assms(1)
  by (simp add: vals_ok_def)

theorem actor_validators_kept_witness:
  "sample_validator 1 \<in> set (val_validator_set (cs_shard_validator
     (fst (handle_msg sample_node sample_core sample_timeouts (RegisterValidator (sample_validator 2)) sample_state))))"
proof -
  have v: "val_validator_set (cs_shard_validator sample_state) = [sample_validator 1]"
    by (simp add: sample_state_simps)
  then have "validator_set_wf (val_validator_set (cs_shard_validator sample_state))"
    by (simp add: validator_set_wf_def validator_set_shard_id_def)
  from actor_validators_kept [OF this surjective_pairing, of sample_node sample_core sample_timeouts
      "RegisterValidator (sample_validator 2)"] v show ?thesis by simp
qed

text \<open>
  C23. A decision on a known proposal is recorded once, announced, stored, and starts the next height.
  When the effect \<open>Decide\<close> is handled for a hash whose proposal the proposer remembers, the proposed
  block or chunk becomes the last of the history, the proposal is forgotten (and no other), the decided
  height becomes the confirmed one, the value is sent to whoever listens (the subscribers of blocks, or
  the block proposer), and the actor sends itself the start of the next height.  A block that carries a
  height is then in the block database under that height, provided the database works.
\<close>

theorem decision_starts_next_height:
  assumes "handle_effect N config st (Decide h r v commits) = (st', Some (Ok x))" "snd_open (cs_mailbox st)"
    "val_proposed (cs_shard_validator st) v = Some fp"
  shows "\<exists>h' y. height_increment h = (Ok h' :: (string, height) result) \<and> fp_proposed_value fp = Some y \<and>
    val_history (cs_shard_validator st') = val_history (cs_shard_validator st) @ [y] \<and>
    val_proposed (cs_shard_validator st') = (val_proposed (cs_shard_validator st))(v := None) \<and>
    val_confirmed_height (cs_shard_validator st') = Some h \<and>
    val_announced (cs_shard_validator st') = val_announced (cs_shard_validator st) @
      (if val_listened (cs_shard_validator st) then [Some y] else []) \<and>
    snd_sent (cs_mailbox st') = snd_sent (cs_mailbox st) @ [StartHeight h'] \<and>
    (\<forall>p b s n. val_block_proposer (cs_shard_validator st) = Some p \<and> y = Block b \<and>
       block_height_of b = Some (s, n) \<and> db_healthy (be_db (bpr_engine p)) \<longrightarrow>
       (\<exists>p'. val_block_proposer (cs_shard_validator st') = Some p' \<and>
          db_view (be_db (bpr_engine p')) (make_block_key s n) = Some (cc_block_encode (ne_chain N) b)))"
proof -
  from decide_effect_ok [OF assms(1)] obtain sv h' where
    d: "validator_decide N h v (cs_shard_validator st) = (sv, Ok ())"
      "height_increment h = (Ok h' :: (string, height) result)"
      "st' = cast_msg (StartHeight h') (st\<lparr>cs_shard_validator := sv\<rparr>)" by blast
  from validator_decide_known [OF d(1) assms(3)] obtain y where y: "fp_proposed_value fp = Some y"
    "val_history sv = val_history (cs_shard_validator st) @ [y]"
    "val_proposed sv = (val_proposed (cs_shard_validator st))(v := None)" "val_confirmed_height sv = Some h" by blast
  have st': "cs_shard_validator st' = sv" "snd_sent (cs_mailbox st') = snd_sent (cs_mailbox st) @ [StartHeight h']"
    using d(3) assms(2) by (simp_all add: cast_msg_def sender_send_def)
  have "\<exists>p'. val_block_proposer sv = Some p' \<and>
      db_view (be_db (bpr_engine p')) (make_block_key s n) = Some (cc_block_encode (ne_chain N) b)"
    if "val_block_proposer (cs_shard_validator st) = Some p" "y = Block b" "block_height_of b = Some (s, n)"
      "db_healthy (be_db (bpr_engine p))" for p b s n
  proof (rule validator_decide_stores [OF d(1) that(1) _ _ that(3,4)])
    show "hm_get (bpr_proposed_blocks p) v = Some fp" using assms(3) that(1) by (simp add: val_proposed_def)
    show "fp_proposed_value fp = Some (Block b)" using y(1) that(2) by simp
  qed
  with validator_decide_announces [OF d(1) assms(3)] d(2) y st' show ?thesis by auto
qed

theorem decision_starts_next_height_witness:
  "\<exists>st. handle_effect sample_node sample_timeouts sample_known_state
       (Decide (height_new 0 1) 0 sample_value []) = (st, Some (Ok Continue)) \<and>
     val_history (cs_shard_validator st) = [Block (sample_block_at 0 1)] \<and>
     val_announced (cs_shard_validator st) = [Some (Block (sample_block_at 0 1))] \<and>
     snd_sent (cs_mailbox st) = [StartHeight (height_new 0 2)] \<and>
     (\<exists>p. val_block_proposer (cs_shard_validator st) = Some p \<and>
        db_view (be_db (bpr_engine p)) (make_block_key 0 1) = Some [4])"
proof -
  obtain st where st: "handle_effect sample_node sample_timeouts sample_known_state
      (Decide (height_new 0 1) 0 sample_value []) = (st, Some (Ok Continue))" using sample_decide_effect by blast
  have db: "db_healthy (be_db (bpr_engine sample_known_proposer))"
    by (simp add: sample_known_proposer_def sample_block_proposer_def block_proposer_new_def)
  have enc: "cc_block_encode (ne_chain sample_node) (sample_block_at 0 1) = [4]"
    by (simp add: sample_node_def sample_chain_def sample_block_at_def sample_block_def)
  have inc: "height_increment (height_new 0 1) = (Ok (height_new 0 2) :: (string, height) result)"
    by (simp add: height_increment_def height_increment_by_def height_new_def)
  from decision_starts_next_height [OF st _ sample_known_simps(2)] st db enc inc show ?thesis
    by (simp add: sample_known_simps)
qed

text \<open>
  C24. A value asked for is offered and remembered: after \<open>GetValue\<close> the actor proposes the hash of a
  full proposal for that height, broadcasts the proposal to the peers, and keeps it under the hash
  for the decision.
\<close>

theorem value_offered_and_kept:
  assumes "handle_effect N config st (GetValue h r t) = (st', Some (Ok x))" "snd_open (cs_mailbox st)"
  shows "\<exists>fp v. full_proposal_shard_hash fp = (Ok v :: (hub_error, shard_hash) result) \<and> fp_height fp = Some h \<and>
    snd_sent (cs_mailbox st') = snd_sent (cs_mailbox st) @ [ProposeValue h r v None] \<and>
    snd_sent (cs_gossip_tx st') = snd_sent (cs_gossip_tx st) @ [BroadcastFullProposal fp] \<and>
    val_proposed (cs_shard_validator st') v = Some fp"
  by (rule get_value_offers [OF assms])

theorem value_offered_and_kept_witness:
  "\<exists>st fp v. handle_effect sample_node sample_timeouts sample_state
       (GetValue (height_new 0 1) 0 \<lparr>to_round = 0, to_step = ProposeStep\<rparr>) = (st, Some (Ok Continue)) \<and>
     snd_sent (cs_mailbox st) = [ProposeValue (height_new 0 1) 0 v None] \<and>
     snd_sent (cs_gossip_tx st) = [BroadcastFullProposal fp]"
proof -
  obtain st where st: "handle_effect sample_node sample_timeouts sample_state
      (GetValue (height_new 0 1) 0 \<lparr>to_round = 0, to_step = ProposeStep\<rparr>) = (st, Some (Ok Continue))"
    by (simp add: handle_effect_def validator_propose_value_def block_propose_value_def sample_state_simps
        collect_confirmed_shard_chunks_def pending_chunks_at_def current_time_def FARCASTER_EPOCH_def sample_node_def
        full_proposal_shard_hash_def full_proposal_height_def height_new_def gossip_send_def cast_msg_def Let_def)
  have "snd_open (cs_mailbox sample_state)" "snd_sent (cs_mailbox sample_state) = []"
    "snd_sent (cs_gossip_tx sample_state) = []" by (simp_all add: sample_state_simps)
  with value_offered_and_kept [OF st] st show ?thesis by auto
qed

text \<open>
  C25. What a block proposal holds.  Waiting for the chunks of its height, the block proposer takes one
  decision per poll from its channel, the oldest first, until the deadline or until it has as many chunks
  of that height as there are shards.  The block holds exactly the chunks of its height that were pending,
  followed by those among the decisions taken, in that order; its header carries the height and the hash
  of the last decided block.  When the pending chunks are filed under their own numbers (\<open>pending_ok\<close>, which
  is kept), all chunks of the block have its number.  When the loop did not end at the deadline there are
  as many chunks as shards, so one of each shard provided the chunks come from different shards (the
  proposer only counts them).
\<close>

theorem block_proposal_well_formed:
  assumes "block_propose_value E H R now events h r p = (p', Some (Ok fp))" "pending_ok p"
  shows "\<exists>b header ticks rest ds. fp_proposed_value fp = Some (Block b) \<and>
    b_header b = Some header \<and> bh_height header = Some h \<and> bh_parent_hash header = block_parent_hash p \<and>
    events = map Tick ticks @ rest \<and> polled (bpr_shard_decision_rx p) ticks = (ds, bpr_shard_decision_rx p') \<and>
    b_shard_chunks b = pending_chunks_at (block_number h) p @ concat (map (decision_chunks (block_number h)) ds) \<and>
    (\<forall>c \<in> set (b_shard_chunks b). chunk_number_of c = Some (block_number h)) \<and> pending_ok p' \<and>
    (rest \<noteq> [] \<and> hd rest = Deadline \<or> length (b_shard_chunks b) = unat (bpr_num_shards p) \<and>
       (distinct (map chunk_shard_of (b_shard_chunks b)) \<and>
        chunk_shard_of ` set (b_shard_chunks b) \<subseteq> {1..unat (bpr_num_shards p)} \<longrightarrow>
        chunk_shard_of ` set (b_shard_chunks b) = {1..unat (bpr_num_shards p)}))"
proof -
  from block_proposal_chunks [OF assms(1)] obtain b header ticks rest ds where
    b: "fp_proposed_value fp = Some (Block b)" "b_header b = Some header" "bh_height header = Some h"
      "bh_parent_hash header = block_parent_hash p" "events = map Tick ticks @ rest"
      "polled (bpr_shard_decision_rx p) ticks = (ds, bpr_shard_decision_rx p')"
      "b_shard_chunks b = pending_chunks_at (block_number h) p @ concat (map (decision_chunks (block_number h)) ds)"
      "pending_ok p \<longrightarrow> pending_ok p'"
      "rest \<noteq> [] \<and> hd rest = Deadline \<or> length (b_shard_chunks b) = unat (bpr_num_shards p)" by blast
  have "\<forall>c \<in> set (b_shard_chunks b). chunk_number_of c = Some (block_number h)"
    unfolding b(7) using pending_at_ok [OF assms(2)] decision_chunks_number by fastforce
  moreover have "rest \<noteq> [] \<and> hd rest = Deadline \<or> length (b_shard_chunks b) = unat (bpr_num_shards p) \<and>
       (distinct (map chunk_shard_of (b_shard_chunks b)) \<and>
        chunk_shard_of ` set (b_shard_chunks b) \<subseteq> {1..unat (bpr_num_shards p)} \<longrightarrow>
        chunk_shard_of ` set (b_shard_chunks b) = {1..unat (bpr_num_shards p)})"
    using b(9) one_chunk_per_shard [of "b_shard_chunks b" "unat (bpr_num_shards p)"] by argo
  moreover have "pending_ok p'" using b(8) assms(2) by simp
  ultimately show ?thesis using b(1-7)
    by (intro exI [of _ b] exI [of _ header] exI [of _ ticks] exI [of _ rest] exI [of _ ds]) (intro conjI; assumption)
qed

theorem block_proposal_well_formed_witness:
  "\<exists>p fp b. block_propose_value sample_env sample_headers sample_rounds 1700000000 [Tick [], Tick [sample_decision]]
      (height_new 0 1) 0 sample_block_proposer = (p, Some (Ok fp)) \<and> fp_proposed_value fp = Some (Block b) \<and>
     b_shard_chunks b = [sample_chunk []] \<and> bpr_shard_decision_rx p = []"
proof -
  obtain p fp where p: "block_propose_value sample_env sample_headers sample_rounds 1700000000
      [Tick [], Tick [sample_decision]] (height_new 0 1) 0 sample_block_proposer = (p, Some (Ok fp))"
    using sample_block_proposal by blast
  have start: "pending_ok sample_block_proposer" "pending_chunks_at 1 sample_block_proposer = []"
    "bpr_shard_decision_rx sample_block_proposer = []" "unat (bpr_num_shards sample_block_proposer) = 1"
    by (simp_all add: pending_ok_def pending_chunks_at_def sample_state_simps)
  have n: "block_number (height_new 0 1) = 1" by (simp add: height_new_def)
  from block_proposal_well_formed [OF p start(1)] obtain b ticks rest ds where
    b: "fp_proposed_value fp = Some (Block b)" "[Tick [], Tick [sample_decision]] = map Tick ticks @ rest"
      "polled [] ticks = (ds, bpr_shard_decision_rx p)" "b_shard_chunks b = [] @ concat (map (decision_chunks 1) ds)"
      "rest \<noteq> [] \<and> hd rest = Deadline \<or> length (b_shard_chunks b) = 1"
    unfolding start n by blast
  have "ticks = [[], [sample_decision]]"
    using b(2-5) by (auto simp: Cons_eq_append_conv Cons_eq_map_conv map_eq_Cons_conv)
  with b(3) have "ds = [sample_decision]" "bpr_shard_decision_rx p = []" by simp_all
  with p b(1,4) show ?thesis by (auto simp: decision_chunks_def sample_decision_def)
qed


section \<open>The node\<close>

text \<open>
  C26. A published broadcast reaches the actors of a peer.  The gossip task of a node takes every waiting
  event of its actors, in order, and publishes those its swarm accepts (which may depend on what was
  published before: gossipsub refuses duplicates, or to publish without peers; a refused event is dropped).
  When a peer receives the published messages, its gossip task hands them to the main loop, and the main
  loop hands each to the actor of its shard, in the same order and once, and to no other actor.  The events
  are well formed (\<open>gossip_event_wf\<close>) and the codec decodes what it encoded.
\<close>

theorem broadcast_reaches_actors:
  assumes "round_ok R" "\<forall>ev \<in> set evs. gossip_event_wf G ev \<and>
      ge_decode G (ge_encode G (gossip_message_of R ev)) = Ok (gossip_message_of R ev)"
    and "drop (sg_received a) (snd_sent (sg_tx a)) = evs" "sg_received a \<le> length (snd_sent (sg_tx a))"
    and "sw_published (sg_swarm a) = []"
    and "sg_system_tx b = \<lparr>snd_open = True, snd_sent = []\<rparr>"
  shows "\<exists>a' b' st' acc. acc = accepted_events R G W (sg_received a) (sg_swarm a) evs \<and>
    (gossip_start R G W (replicate (length evs) EventTurn) a :: (string, _) result) = Ok a' \<and>
    sg_received a' = length (snd_sent (sg_tx a)) \<and>
    sw_published (sg_swarm a') = map (\<lambda>ev. (GOSSIP_TOPIC, gossip_out R G ev)) acc \<and>
    (gossip_start R G W' (map (\<lambda>(topic, d). SwarmTurn (PeerMessage d)) (sw_published (sg_swarm a'))) b :: (string, _) result) = Ok b' \<and>
    main_loop C st (map SystemConsensus (snd_sent (sg_system_tx b'))) = Running st' \<and>
    (\<forall>i. hm_get (sn_consensus_actors (ms_node st')) i =
       map_option (fold cast_msg (broadcast_for i acc)) (hm_get (sn_consensus_actors (ms_node st)) i))"
proof -
  let ?acc = "accepted_events R G W (sg_received a) (sg_swarm a) evs"
  have "sg_received a + length evs = length (snd_sent (sg_tx a))" using assms(3,4) by auto
  from gossip_start_events [OF this assms(3), of R G W] assms(5) obtain a' where
    a': "(gossip_start R G W (replicate (length evs) EventTurn) a :: (string, _) result) = Ok a'"
      "sg_received a' = length (snd_sent (sg_tx a))"
      "sw_published (sg_swarm a') = map (\<lambda>ev. (GOSSIP_TOPIC, gossip_out R G ev)) ?acc" by auto
  have turns: "map (\<lambda>(topic, d). SwarmTurn (PeerMessage d)) (sw_published (sg_swarm a')) =
      map (\<lambda>d. SwarmTurn (PeerMessage d)) (map (gossip_out R G) ?acc)" by (simp add: a'(3))
  from assms(2) accepted_events_subset [of R G W "sg_received a" "sg_swarm a" evs]
  have wf: "gossip_event_wf G ev" "ge_decode G (ge_encode G (gossip_message_of R ev)) = Ok (gossip_message_of R ev)"
    if "ev \<in> set ?acc" for ev using that by blast+
  from broadcast_delivered [where evs = ?acc and G = G and W = W' and C = C and st = st, OF assms(1) wf assms(6)]
  show ?thesis using turns a' by metis
qed

theorem broadcast_reaches_actors_witness:
  "\<exists>a' b' st'.
     (gossip_start sample_rounds sample_gossip_env sample_swarm [EventTurn, EventTurn]
        (sample_gossip [sample_broadcast, sample_broadcast]) :: (string, _) result) = Ok a' \<and>
     sw_published (sg_swarm a') = [(GOSSIP_TOPIC, [1])] \<and>
     (gossip_start sample_rounds sample_gossip_env sample_swarm
        (map (\<lambda>(topic, d). SwarmTurn (PeerMessage d)) (sw_published (sg_swarm a'))) (sample_gossip []) :: (string, _) result) = Ok b' \<and>
     main_loop sample_chain sample_main (map SystemConsensus (snd_sent (sg_system_tx b'))) = Running st' \<and>
     hm_get (sn_consensus_actors (ms_node st')) 1 = Some (cast_msg (ReceivedSignedVote (sample_vote, [8])) sample_state)"
proof -
  let ?evs = "[sample_broadcast, sample_broadcast]"
  have out: "gossip_out sample_rounds sample_gossip_env sample_broadcast = [1]"
    by (simp add: gossip_out_def sample_gossip_env_def)
  have acc: "accepted_events sample_rounds sample_gossip_env sample_swarm 0 (sg_swarm (sample_gossip ?evs)) ?evs =
      [sample_broadcast]" by (simp add: out sample_swarm_def sample_gossip_def swarm_published_def)
  have "sample_vote\<lparr>vo_extension := None\<rparr> = sample_vote" "shard_index (vo_height sample_vote) = 1" "address_wf (vo_voter sample_vote)"
    by (simp_all add: sample_vote_def vote_new_prevote_def sample_height_def height_new_def)
  then have wf: "broadcast_for 1 [sample_broadcast] = [ReceivedSignedVote (sample_vote, [8])]" "gossip_event_wf sample_gossip_env sample_broadcast"
    by (simp_all add: broadcast_for_def List.map_filter_simps sample_broadcast_def msg_shard_id_def)
  have dec: "ge_decode sample_gossip_env (ge_encode sample_gossip_env (gossip_message_of sample_rounds sample_broadcast)) =
      Ok (gossip_message_of sample_rounds sample_broadcast)" by (simp add: sample_gossip_env_def)
  have start: "sg_received (sample_gossip evs) = 0" "snd_sent (sg_tx (sample_gossip evs)) = evs"
    "sw_published (sg_swarm (sample_gossip evs)) = []"
    "sg_system_tx (sample_gossip evs) = \<lparr>snd_open = True, snd_sent = []\<rparr>" for evs
    by (simp_all add: sample_gossip_def)
  have actor: "hm_get (sn_consensus_actors (ms_node sample_main)) 1 = Some sample_state" by (simp add: sample_main_def)
  have two: "replicate (length ?evs) EventTurn = [EventTurn, EventTurn]" by (simp add: numeral_2_eq_2)
  from broadcast_reaches_actors [of sample_rounds ?evs sample_gossip_env "sample_gossip ?evs" "sample_gossip []"
      sample_swarm sample_swarm sample_chain sample_main] wf dec start acc
  obtain a' b' st' where
    "(gossip_start sample_rounds sample_gossip_env sample_swarm [EventTurn, EventTurn] (sample_gossip ?evs) :: (string, _) result) = Ok a'"
    "sw_published (sg_swarm a') = map (\<lambda>ev. (GOSSIP_TOPIC, gossip_out sample_rounds sample_gossip_env ev)) [sample_broadcast]"
    "(gossip_start sample_rounds sample_gossip_env sample_swarm
        (map (\<lambda>(topic, d). SwarmTurn (PeerMessage d)) (sw_published (sg_swarm a'))) (sample_gossip []) :: (string, _) result) = Ok b'"
    "main_loop sample_chain sample_main (map SystemConsensus (snd_sent (sg_system_tx b'))) = Running st'"
    "\<forall>i. hm_get (sn_consensus_actors (ms_node st')) i =
       map_option (fold cast_msg (broadcast_for i [sample_broadcast])) (hm_get (sn_consensus_actors (ms_node sample_main)) i)"
    unfolding two by auto
  then show ?thesis using out wf(1) actor by auto
qed

text \<open>
  C27. The main loop hands every consensus message to the actor of its shard, in order and once, and
  to no other actor, whatever ticks come between.  Interrupted, or told to shut down, it sends every actor
  the signal to stop and returns at once, with the actors as they are; an actor that handles the signal
  cancels all its timers.
\<close>

theorem main_forwards_messages:
  assumes "main_loop C st evs = Running st'" "ev = CtrlC \<or> ev = ShutdownSignal"
  shows "(\<forall>i. hm_get (sn_consensus_actors (ms_node st')) i =
      map_option (fold cast_msg (messages_for i evs)) (hm_get (sn_consensus_actors (ms_node st)) i)) \<and>
    (\<exists>st''. main_loop C st (evs @ ev # rest) = Returned st'' (Ok ()) \<and>
       sn_consensus_actors (ms_node st'') = sn_consensus_actors (ms_node st') \<and>
       fst ` set (sn_consensus_actors (ms_node st')) \<subseteq> set (sn_stop_signals (ms_node st'')) \<and>
       (\<forall>(shard, a) \<in> set (sn_consensus_actors (ms_node st'')). ts_timers (cs_timers (consensus_post_stop a)) = []))"
  using main_loop_forwards [OF assms(1)] post_stop_timers assms
  by (auto simp: main_loop_append main_step_def main_stop_def node_stop_def)

theorem main_forwards_messages_witness:
  "\<exists>st' st''. main_loop sample_chain sample_main [BlockTick, SystemConsensus (StartHeight sample_height)] = Running st' \<and>
     hm_get (sn_consensus_actors (ms_node st')) 1 = Some (cast_msg (StartHeight sample_height) sample_state) \<and>
     hm_get (sn_consensus_actors (ms_node st')) 0 = Some sample_state \<and>
     main_loop sample_chain sample_main [BlockTick, SystemConsensus (StartHeight sample_height), CtrlC] = Returned st'' (Ok ()) \<and>
     {0, 1} \<subseteq> set (sn_stop_signals (ms_node st''))"
proof -
  note m = main_forwards_messages [OF sample_main_step disjI1 [OF refl], of "[]"]
  from conjunct2 [OF m] obtain st'' where
    "main_loop sample_chain sample_main [BlockTick, SystemConsensus (StartHeight sample_height), CtrlC] = Returned st'' (Ok ())"
    "{0, 1} \<subseteq> set (sn_stop_signals (ms_node st''))" by auto
  with conjunct1 [OF m] sample_main_step show ?thesis
    by (simp add: sample_main_def msg_shard_id_def sample_height_def height_new_def)
qed

section \<open>Clients and connectors\<close>

text \<open>
  C28. Following the blocks of a node delivers the chain: against a store that grows along a chain,
  the client has sent a prefix of the chain after any number of requests, each block once and in
  order, never beyond what is stored, and at least what was stored at an earlier request unless more
  than a hundred blocks per request since then would be needed.
\<close>

theorem follow_blocks_complete:
  assumes "\<And>n. holds_chain C chain (db n) (len n)" "mono len" "length chain + 200 < 2 ^ 64" "snd_open tx"
  shows "\<exists>k. follow_blocks rounds (Inr (node_client C db)) tx =
      ((word_of_nat (Suc k), tx\<lparr>snd_sent := snd_sent tx @ take k chain\<rparr>), Ok ()) \<and> k \<le> len rounds \<and>
    (\<forall>m \<le> rounds. min (len m) (100 * (rounds - m)) \<le> k)"
  using follow_loop_ok [OF assms, of 1 0 0 "snd_sent tx" rounds] by (simp add: follow_blocks_def)

theorem follow_blocks_complete_witness:
  "snd_sent (snd (fst (follow_blocks 1 (Inr (node_client sample_first_codec (\<lambda>_. sample_first_db)))
     \<lparr>snd_open = True, snd_sent = []\<rparr>))) = [sample_first_block]"
proof -
  have "mono (\<lambda>_ :: nat. 1 :: nat)" by (simp add: mono_def)
  from follow_blocks_complete [OF sample_holds_chain this, of "\<lparr>snd_open = True, snd_sent = []\<rparr>" 1] obtain k where
    "follow_blocks 1 (Inr (node_client sample_first_codec (\<lambda>_. sample_first_db))) \<lparr>snd_open = True, snd_sent = []\<rparr> =
      ((word_of_nat (Suc k), \<lparr>snd_open = True, snd_sent = take k [sample_first_block]\<rparr>), Ok ())"
    "k \<le> 1" "\<forall>m \<le> 1. min 1 (100 * (1 - m)) \<le> k" by auto
  moreover from this(3) have "1 \<le> k" by (auto dest: spec [of _ 0])
  ultimately show ?thesis by simp
qed

text \<open>
  C29. The fname client is complete: against a server that answers with pages of a log in the order of
  its ids, or fails, it holds after any number of rounds exactly the transfers from its start to its
  position, in order and once; when it has stopped, or when no request failed, these are all transfers
  up to the limit, and it stops exactly when the log goes beyond the limit.  Every round ends,
  whatever the server answers.
\<close>

theorem fname_fetch_complete:
  assumes "serves http cfg served" "fetcher_run rounds http n (fetcher_new cfg) = (n', self, stopped)"
  shows "fe_transfers self = log_between (fc_start_from cfg) (fe_position self) served \<and>
    (stopped \<longrightarrow> fe_transfers self = log_between (fc_start_from cfg) (fc_stop_at cfg) served) \<and>
    ((\<forall>m p. \<exists>ts. http m (transfers_url cfg p) = Inr ts) \<and> 0 < rounds \<longrightarrow>
       fe_transfers self = log_between (fc_start_from cfg) (fc_stop_at cfg) served \<and>
       (stopped \<longleftrightarrow> (\<exists>t \<in> set served. fc_start_from cfg < tr_id t \<and> fc_stop_at cfg < tr_id t)))"
proof -
  note r = fetcher_run_log [OF assms(1) synced_new assms(2)]
  have "sorted_wrt (<) (map tr_id served)" using assms(1) by (simp add: serves_def)
  from log_stopped [OF this] r have
    "stopped \<longrightarrow> fe_transfers self = log_between (fc_start_from cfg) (fc_stop_at cfg) served \<and>
       (\<exists>t \<in> set served. fc_start_from cfg < tr_id t \<and> fc_stop_at cfg < tr_id t)" by blast
  moreover have "fe_transfers self = log_between (fc_start_from cfg) (fe_position self) served"
    using r by (simp add: synced_def)
  moreover have "(\<forall>m p. \<exists>ts. http m (transfers_url cfg p) = Inr ts) \<and> 0 < rounds \<and> \<not> stopped \<longrightarrow>
      fe_transfers self = log_between (fc_start_from cfg) (fc_stop_at cfg) served \<and>
      \<not> (\<exists>t \<in> set served. fc_start_from cfg < tr_id t \<and> fc_stop_at cfg < tr_id t)"
    using r log_done [of served cfg self] by blast
  ultimately show ?thesis by blast
qed

theorem fname_fetch_complete_witness:
  "\<exists>n self. fetcher_run 2 sample_server 0 (fetcher_new sample_fnames) = (n, self, True) \<and>
     fe_transfers self = [sample_transfer 1, sample_transfer 3]"
proof -
  obtain n self stopped where r: "fetcher_run 2 sample_server 0 (fetcher_new sample_fnames) = (n, self, stopped)"
    by (cases "fetcher_run 2 sample_server 0 (fetcher_new sample_fnames)") auto
  have "\<forall>m p. \<exists>ts. sample_server m (transfers_url sample_fnames p) = Inr ts" using sample_server_answer by blast
  with fname_fetch_complete [OF sample_serves r] sample_log_facts(2) have
    "fe_transfers self = log_between (fc_start_from sample_fnames) (fc_stop_at sample_fnames) sample_log \<and> stopped"
    using zero_less_numeral by blast
  with r sample_log_facts(1) show ?thesis by auto
qed

text \<open>
  C30. On-chain events are kept by block: after the subscriber has processed a stream of logs without
  a panic, the entry of a block holds the events of the logs of that block that carry a block hash, a
  block number, a log index and a transaction index, whose block the provider finds when it is asked for
  the timestamp, and whose first topic and data decode to one of the eight known events (\<open>event_table\<close>
  writes out the fields), in the order in which they arrived; blocks without such a log have no entry.
  A log whose timestamp lookup fails is lost, see the finding on \<open>mod.rs:349\<close>.
\<close>

theorem onchain_events_by_block:
  assumes "subscriber_new E config = Ok self0" "watch [STORAGE_REGISTRY, KEY_REGISTRY, ID_REGISTRY] = Inr stream"
    and "subscriber_run E watch self0 = (self, r)" "\<forall>m. r \<noteq> Panic m"
  shows "r = Ok () \<and> (\<forall>b. hm_get (su_onchain_events_by_block self) b = by_block (events_of_logs E 0 (concat stream)) b)"
proof -
  from assms(1) have "su_onchain_events_by_block self0 = []" by (auto simp: subscriber_new_def split: if_splits sum.splits)
  then have g: "groups_by_block [] self0" by (simp add: groups_by_block_def by_block_def)
  from assms(2,3) have p: "process_logs E 0 (concat stream) self0 = (self, r)" by (simp add: subscriber_run_def)
  with assms(4) process_logs_no_error [of E 0 "concat stream" self0] have r: "r = Ok ()"
    by (cases r) (auto simp: p)
  with process_logs_groups [OF g] p have "groups_by_block (events_of_logs E 0 (concat stream)) self" by fastforce
  with r show ?thesis by (simp add: groups_by_block_def)
qed

theorem onchain_events_by_block_witness:
  "\<exists>self. subscriber_run sample_onchain (\<lambda>_. Inr [[sample_chain_log 5 2, sample_chain_log 5 1], [sample_chain_log 6 2]])
       \<lparr>su_onchain_events_by_block = []\<rparr> = (self, Ok ()) \<and>
     hm_get (su_onchain_events_by_block self) 5 = Some [sample_event 5] \<and>
     hm_get (su_onchain_events_by_block self) 7 = None"
proof -
  let ?w = "\<lambda>_ :: bytes list. Inr [[sample_chain_log 5 2, sample_chain_log 5 1], [sample_chain_log 6 2]]"
  obtain self r where s: "subscriber_run sample_onchain ?w \<lparr>su_onchain_events_by_block = []\<rparr> = (self, r)" by fastforce
  have "\<forall>m. r \<noteq> Panic m"
    using s by (auto simp: subscriber_run_def process_log_def sample_chain_log_def sample_onchain_def ok_or_def
        get_block_timestamp_def decode_event_def log_decode_def uint_to_u64_def Let_def split: prod.splits)
  from onchain_events_by_block [OF _ _ s this, of "\<lparr>oc_rpc_url = ''x''\<rparr>" "[[sample_chain_log 5 2, sample_chain_log 5 1], [sample_chain_log 6 2]]"]
  show ?thesis using s
    by (auto simp: subscriber_new_def sample_onchain_def [THEN arg_cong, of oe_parse_url] sample_log_events by_block_def
        sample_event_def)
qed

text \<open>
  C31. Every report of the benchmark is about its own interval.  Over a run that does not panic there is
  one report per tick of the timer, up to the one that ends the run, which comes at the tick after
  \<open>NUM_ITERATIONS\<close>.  A report holds the number of blocks followed since the tick before, the messages
  submitted and confirmed in that time divided by ten seconds, and the average and the maximum of the
  times between consecutive blocks and of the times from a message to its block; blocks that are not later
  than the start do not count, and the first time of an interval is taken from the last block of the
  intervals before, or from the start.  Rates and averages are quotients rounded to \<open>f64\<close> (\<open>f64_nearest_error\<close>
  bounds the relative error of a rounding by \<open>2 ^ - 53\<close>).
\<close>

theorem benchmark_reports_per_interval:
  assumes "bench_loop E start evs (bench_stats_new start) = (st, rs, Ok finished)"
  shows "rs = map (interval_report E start) (take (Suc NUM_ITERATIONS) (intervals [] [] evs)) \<and>
    (finished \<longleftrightarrow> NUM_ITERATIONS < length (intervals [] [] evs))"
  using bench_loop_reports [OF assms bench_state_new] by (simp add: bench_stats_new_def)

theorem benchmark_reports_per_interval_witness:
  "\<exists>st rs. bench_loop sample_bench 100 [MessageComposed sample_cast, StatsTick 0, BlockFollowed sample_bench_block, StatsTick 10]
       (bench_stats_new 100) = (st, rs, Ok False) \<and>
     map br_block_count rs = [0, 1] \<and> map br_max_block_time rs = [0, 10] \<and>
     map br_submitted_msgs_per_sec rs = [f64_div (f64_of_nat 1) (f64_of_nat 10), f64_div (f64_of_nat 0) (f64_of_nat 10)] \<and>
     map br_avg_block_time rs = [0, f64_div (f64_of_nat 10) (f64_of_nat 1)]"
proof -
  obtain st rs where s: "bench_loop sample_bench 100 [MessageComposed sample_cast, StatsTick 0, BlockFollowed sample_bench_block,
      StatsTick 10] (bench_stats_new 100) = (st, rs, Ok False)" using sample_bench_runs by blast
  have t: "block_time sample_bench_block = 110" by (simp add: block_time_def sample_bench_block_def)
  from benchmark_reports_per_interval [OF s] s show ?thesis
    by (simp add: NUM_ITERATIONS_def interval_report_def new_blocks_def composed_def times_between_def last_time_def
        f64_mean_def sample_bench_new t)
qed

section \<open>Account stores\<close>







text \<open>
  C35. Pruning keeps the newest messages: with an accurate count, and the messages of the fid read
  in the order of their keys, pruning one of these stores reports a prune event for each of the
  oldest messages beyond the limit, in order, and the live messages of the fid are then the newest
  ones, as many as the limit allows.  The clock is read once for each message that is pruned; the readings
  may fall in the same millisecond as long as event ids are available, at most 4096 of them.
\<close>

theorem prune_keeps_newest:
  assumes store: "(D, rank, absent) \<in> account_stores n" and rep: "store_rep A D absent U (ast_db st) M"
    and D: "ast_def st = D"
    and items: "ae_items A (ast_db st) (make_message_primary_key fid (sd_postfix D) None) default_page = pruned_items A D ws"
    and ws: "set ws = live_of fid M" "sorted_wrt (\<lambda>v w. m_tsh v < m_tsh w) ws"
    and count: "unat cnt = length ws"
    and t: "ids_available (ast_gen st) (map now [0..<length ws - unat (prune_limit D max_count)])"
  shows "\<exists>st' es M'. prune_messages A now fid cnt max_count st = (st', Ok es) \<and>
    store_rep A D absent U (ast_db st') M' \<and>
    prune_events_of D (take (length ws - unat (prune_limit D max_count)) ws) es \<and>
    live_of fid M' = set (drop (length ws - unat (prune_limit D max_count)) ws) \<and>
    card (live_of fid M') = min (length ws) (unat (prune_limit D max_count))"
proof -
  let ?k = "prune_excess cnt (prune_limit D max_count)"
  have k: "?k = length ws - unat (prune_limit D max_count)" by (simp add: prune_excess_def count)
  have d: "distinct ws" using ws(2) by (induction ws) auto
  have slots: "M s = Some w \<Longrightarrow> m_akey D w = s" for s w using rep_live [OF rep] by blast
  then have live: "\<forall>w \<in> set ws. M (m_akey D w) = Some w" using ws(1) by (auto simp: live_of_def ran_def)
  have "length (take ?k ws) = length ws - unat (prune_limit D max_count)" by (simp add: k)
  with t have "ids_available (ast_gen st) (map now [0..<length (take ?k ws)])" by simp
  from store_keys.prune_oldest [OF account_store_keys [OF store] rep D items live d this] obtain st' es where
    "prune_messages A now fid cnt max_count st = (st', Ok es)" "prune_events_of D (take ?k ws) es"
    "store_rep A D absent U (ast_db st') (drop_slots D (take ?k ws) M)" by blast
  moreover have "live_of fid (drop_slots D (take ?k ws) M) = set (drop ?k ws)"
    using slots ws(1) d by (rule live_of_drop)
  moreover from d have "card (set (drop ?k ws)) = min (length ws) (unat (prune_limit D max_count))"
    by (simp add: distinct_card k min_def)
  ultimately show ?thesis using k by auto
qed

theorem prune_keeps_newest_witness:
  "\<exists>st' es M'. prune_messages sample_account_env (\<lambda>_. sample_now 0) 7 2 0 sample_full_store = (st', Ok es) \<and>
     length es = 1 \<and> live_of 7 M' = {sample_cast2} \<and>
     store_rep sample_account_env (cast_store_def 1) (\<lambda>_. {}) sample_casts (ast_db st') M'"
proof -
  have "prune_limit (cast_store_def 1) 0 = 1" by (simp add: prune_limit_def cast_store_def_def)
  moreover have "ids_available sample_generator [sample_now 0]" using ids_next(1) [OF sample_available(1)] .
  ultimately obtain st' es M' where "prune_messages sample_account_env (\<lambda>_. sample_now 0) 7 2 0 sample_full_store = (st', Ok es)"
    "prune_events_of (cast_store_def 1) [sample_cast] es" "live_of 7 M' = {sample_cast2}"
    "store_rep sample_account_env (cast_store_def 1) (\<lambda>_. {}) sample_casts (ast_db st') M'"
    using prune_keeps_newest [of "cast_store_def 1" cast_rank "\<lambda>_. {}" 1 sample_account_env sample_casts
        sample_full_store sample_full_slots 7 "[sample_cast, sample_cast2]" 2 "\<lambda>_. sample_now 0" 0]
      sample_full_rep sample_items sample_live
    by auto
  moreover from this have "length es = 1" by (auto simp: prune_events_of_def dest: list_all2_lengthD)
  ultimately show ?thesis by blast
qed

text \<open>
  C36. A name has one owner: merging the proof of an ENS name makes its fid the owner when the name
  is free or the proof is later than the current one, whichever fid holds it; index, adds and
  messages then agree on the new owner, and a lookup by name returns its proof.
\<close>

theorem username_proof_one_owner:
  assumes "names_rep A n U (ast_db st) M" "m \<in> U" "ast_def st = username_proof_store_def n"
    and "generate_id now None (ast_gen st) = (gen, Ok i)"
  shows "\<exists>st' r. merge A now m st = (st', r) \<and> names_rep A n U (ast_db st') (latest_proof m M) \<and>
    ((\<exists>b. r = Ok b) \<longleftrightarrow> (\<forall>w. M (m_name m) = Some w \<longrightarrow> m_tsh w < m_tsh m)) \<and>
    get_proof_by_name A st' (m_name m) UsernameTypeEnsL1 = Ok (latest_proof m M (m_name m))"
proof -
  from proof_merge_latest [OF assms] obtain st' r where r: "merge A now m st = (st', r)"
    "ast_def st' = username_proof_store_def n" "names_rep A n U (ast_db st') (latest_proof m M)"
    "(\<exists>b. r = Ok b) \<longleftrightarrow> (\<forall>w. M (m_name m) = Some w \<longrightarrow> m_tsh w < m_tsh m)" by blast
  have "\<exists>w. latest_proof m M (m_name m) = Some w" by (cases "M (m_name m)") (simp_all add: latest_proof_def)
  then obtain w where w: "latest_proof m M (m_name m) = Some w" by blast
  from get_proof_by_name_ok [OF r(3) assms(2) r(2) w] r w show ?thesis by auto
qed

theorem username_proof_one_owner_witness:
  "\<exists>st' b. merge sample_account_env (sample_now 0) sample_proof sample_name_store = (st', Ok b) \<and>
     get_proof_by_name sample_account_env st' (as_bytes ''a.eth'') UsernameTypeEnsL1 = Ok (Some sample_proof)"
  using username_proof_one_owner [of sample_account_env 0 "{sample_proof, sample_proof2}" sample_name_store Map.empty
      sample_proof "sample_now 0" _ 4096] sample_generate
  by (auto simp: sample_names_rep sample_proof_facts latest_proof_def)

text \<open>
  C37. An address has one owner: a verification is accepted exactly when it outranks the message of
  its fid for the address and, being an add, is younger than the add by which another fid holds the
  address.  An accepted add takes the address over: the add of the other fid is gone, index and adds
  name the new fid only, and \<open>get_verification_add\<close> answers accordingly for every fid.
\<close>

theorem verification_one_owner:
  assumes rep: "verified_rep A n U (ast_db st) M" and m: "m \<in> U" and D: "ast_def st = verification_store_def n"
    and id: "generate_id now None (ast_gen st) = (gen, Ok i)"
  shows "\<exists>st' r. merge A now m st = (st', r) \<and> verified_rep A n U (ast_db st') (take_over n m M) \<and>
    ((\<exists>b. r = Ok b) \<longleftrightarrow> verification_accepts n M m) \<and>
    (\<forall>x \<in> U. get_verification_add A st' (m_fid x) (m_address x) =
       Ok (add_at (take_over n m M) (m_fid x) (m_address x))) \<and>
    (verification_is_add_type m \<and> verification_accepts n M m \<longrightarrow>
       (\<forall>f. add_at (take_over n m M) f (m_address m) = (if f = m_fid m then Some m else None)))"
proof -
  from verified_merge [OF assms] obtain st' r where s: "merge A now m st = (st', r)" "ast_def st' = verification_store_def n"
    "verified_rep A n U (ast_db st') (take_over n m M)" "(\<exists>b. r = Ok b) \<longleftrightarrow> verification_accepts n M m"
    using D by (auto split: if_splits)
  with verified_get_add [OF s(3) _ s(2)] taken_over [OF s(3) m] show ?thesis by auto
qed

theorem verification_one_owner_witness:
  "\<exists>st' b. merge sample_account_env (sample_now 0) sample_verify2 sample_owned_store = (st', Ok b) \<and>
     get_verification_add sample_account_env st' 7 [1, 2] = Ok None \<and>
     get_verification_add sample_account_env st' 8 [1, 2] = Ok (Some sample_verify2)"
proof -
  from verification_one_owner [of sample_account_env 5 sample_verifications sample_owned_store sample_owned_slots
      sample_verify2 "sample_now 0" _ 4096, OF sample_owned_rep(1) _ sample_owned_rep(2)] sample_generate sample_accepts
  obtain st' b where "merge sample_account_env (sample_now 0) sample_verify2 sample_owned_store = (st', Ok b)"
    "\<forall>x \<in> sample_verifications. get_verification_add sample_account_env st' (m_fid x) (m_address x) =
       Ok (add_at (take_over 5 sample_verify2 sample_owned_slots) (m_fid x) (m_address x))"
    "\<forall>f. add_at (take_over 5 sample_verify2 sample_owned_slots) f (m_address sample_verify2) =
       (if f = m_fid sample_verify2 then Some sample_verify2 else None)"
    by (auto simp: sample_owned_rep(3) sample_verifications_def sample_verify_facts(6))
  then show ?thesis by (simp add: sample_verifications_def sample_verify_facts)
qed

text \<open>
  C38. Compact states of links are respected.  A link is accepted exactly when it outranks the link of
  its slot and the compact state of its fid and type, if it is later, does not leave it out, that is, the
  link is an add with a listed target; it then takes its slot.  A compact state is accepted exactly when it
  is later than the one it replaces; it then removes, among the older links of its fid, of whatever type,
  every remove and the adds whose target it does not list, and nothing else.  A message that is not accepted
  changes nothing.  No link that a compact state refuses is ever live, and lookups answer accordingly.
  Condition: no live link of the fid has exactly the timestamp of the compact state (the code removes such a
  link when the compact state comes second, and accepts it when it comes first, see the finding on
  \<open>store.rs:785\<close>); the event id is available and the iteration yields the links in the order of their keys.
\<close>

theorem link_compact_states_respected:
  assumes "compact_rep A n U C (ast_db st) M K" "compact_closed M K" "m \<in> U \<union> C"
    and "ast_def st = link_store_def n" "generate_id now None (ast_gen st) = (gen, Ok i)"
    and "lists_links A n (ast_db st) (m_fid m) M ws" "is_type LinkCompactState m \<longrightarrow> \<not> compact_tie m M"
  shows "\<exists>st' r M' K'. merge A now m st = (st', r) \<and> ((\<exists>b. r = Ok b) \<longleftrightarrow> compact_accepts n m M K) \<and>
    compact_rep A n U C (ast_db st') M' K' \<and> compact_closed M' K' \<and>
    (if \<not> compact_accepts n m M K then M' = M \<and> K' = K
     else if is_type LinkCompactState m then M' = compact_older m M \<and> K' = K(link_ckey m \<mapsto> m)
     else M' = M(m_akey (link_store_def n) m \<mapsto> m) \<and> K' = K) \<and>
    (\<forall>l \<in> U. get_add A st' l = Ok (live_add_of (link_store_def n) (M' (m_akey (link_store_def n) l))))"
proof -
  obtain M' K' where c: "compact_merge n m M K = (M', K')" by fastforce
  with merge_compact_message [OF assms(1-6)] obtain st' r where r: "merge A now m st = (st', r)" "ast_def st' = link_store_def n"
    "(\<exists>b. r = Ok b) \<longleftrightarrow> compact_accepts n m M K" "compact_rep A n U C (ast_db st') M' K'" "compact_closed M' K'" by auto
  from c assms(7) compact_slots_older [of m M] have
    "if \<not> compact_accepts n m M K then M' = M \<and> K' = K
     else if is_type LinkCompactState m then M' = compact_older m M \<and> K' = K(link_ckey m \<mapsto> m)
     else M' = M(m_akey (link_store_def n) m \<mapsto> m) \<and> K' = K" by (auto simp: compact_merge_def)
  with r link_get_add [OF r(4) _ r(2)] show ?thesis by blast
qed

theorem link_compact_states_respected_witness:
  "\<exists>st' b. merge sample_link_env (sample_now 0) sample_compact sample_follows = (st', Ok b) \<and>
     get_add sample_link_env st' sample_follow = Ok None \<and> get_add sample_link_env st' sample_follow2 = Ok (Some sample_follow2)"
proof -
  have "compact_closed sample_link_slots Map.empty" by (simp add: compact_closed_def compact_refuses_def)
  moreover have acc: "compact_accepts 3 sample_compact sample_link_slots Map.empty"
    by (simp add: compact_accepts_def compact_outdated_def sample_link_facts)
  ultimately obtain st' r where r: "merge sample_link_env (sample_now 0) sample_compact sample_follows = (st', r)"
    "\<exists>b. r = Ok b" "\<forall>l \<in> sample_links. get_add sample_link_env st' l = Ok (live_add_of (link_store_def 3)
       (compact_older sample_compact sample_link_slots (m_akey (link_store_def 3) l)))"
    using link_compact_states_respected [OF sample_follows_rep(1) _ _ sample_follows_rep(2) _ sample_links_listed,
      of "sample_now 0" _ 4096] sample_generate sample_no_tie sample_link_facts(3) by (auto simp: sample_follows_rep(3))
  then show ?thesis unfolding compact_slots_older [OF sample_no_tie, symmetric]
    using sample_compact_merge acc
    by (auto simp: compact_merge_def sample_link_facts sample_links_def sample_link_keys live_add_of_def)
qed

text \<open>
  C39. Event ids order the events: the ids that the generator hands out over readings of a clock that
  never goes back are strictly increasing, and each fits 53 bits.
\<close>

theorem event_ids_increase:
  assumes "sorted nows" "\<forall>now \<in> set nows. gen_epoch g \<le> now \<and> gen_last_timestamp g \<le> now - gen_epoch g"
  shows "sorted_wrt (<) (generated_ids nows g) \<and> (\<forall>i \<in> set (generated_ids nows g). i < 2 ^ 53)"
  using generated_ids_after [OF assms] generated_ids_bound by blast

theorem event_ids_increase_witness:
  "generated_ids [FARCASTER_EPOCH_MS + 1, FARCASTER_EPOCH_MS + 1, FARCASTER_EPOCH_MS + 2] sample_generator =
     [4096, 4097, 8192] \<and>
   sorted_wrt (<) (generated_ids [FARCASTER_EPOCH_MS + 1, FARCASTER_EPOCH_MS + 1, FARCASTER_EPOCH_MS + 2] sample_generator)"
  using event_ids_increase [of "[FARCASTER_EPOCH_MS + 1, FARCASTER_EPOCH_MS + 1, FARCASTER_EPOCH_MS + 2]" sample_generator]
    sample_ids
  by (simp add: sample_generator_def event_handler_new_def generator_new_def FARCASTER_EPOCH_MS_def)

text \<open>
  C40. The registry of fnames keeps the latest proof: merging a proof replaces the proof of its name
  exactly when it is later, by time and then by signature, or when the name is new and given to a
  fid; otherwise it is refused and nothing changes.  A lookup by name returns the latest proof, and so
  does a lookup by the fid to which an accepted proof gives the name.
\<close>

theorem fname_registry_latest:
  assumes rep: "registry_rep A (ast_db st) R" and p: "ae_proof_decode A (ae_proof_encode A p) = Some p"
    and id: "generate_id now None (ast_gen st) = (gen, Ok i)"
  shows "\<exists>st' r. merge_username_proof A now p st = (st', r) \<and>
    registry_rep A (ast_db st') (if later_proof p (R (unp_name p)) then R(unp_name p \<mapsto> p) else R) \<and>
    ((\<exists>b. r = Ok b) \<longleftrightarrow> later_proof p (R (unp_name p))) \<and>
    get_username_proof A (ast_db st') (unp_name p) =
      Ok (if later_proof p (R (unp_name p)) then Some p else R (unp_name p)) \<and>
    (later_proof p (R (unp_name p)) \<and> unp_fid p \<noteq> 0 \<longrightarrow>
       get_fname_proof_by_fid A (ast_db st') (ucast (unp_fid p)) = Ok (Some p))"
proof (cases "later_proof p (R (unp_name p))")
  case True
  then have "check_username_proof (R (unp_name p)) p = Ok ()" by (simp add: check_later)
  from merge_username_proof_ok [OF rep this p id] obtain st' b where s: "merge_username_proof A now p st = (st', Ok b)"
    "registry_rep A (ast_db st') (R(unp_name p \<mapsto> p))"
    "\<forall>f. db_view (ast_db st') (make_fname_username_proof_by_fid_key f) =
       (if unp_fid p \<noteq> 0 \<and> f = ucast (unp_fid p) then Some (make_fname_username_proof_key (unp_name p))
        else if unp_fid p = 0 \<and> (\<exists>e. R (unp_name p) = Some e \<and> f = ucast (unp_fid e)) then None
        else db_view (ast_db st) (make_fname_username_proof_by_fid_key f))" by blast
  with True registry_get [OF s(2)] registry_by_fid [OF s(2)] show ?thesis by simp
next
  case False
  then obtain e where "check_username_proof (R (unp_name p)) p = Err e" using check_later by blast
  from merge_username_proof_refused [OF rep this, of now] False rep registry_get [OF rep] show ?thesis by simp
qed

theorem fname_registry_latest_witness:
  "\<exists>st' b. merge_username_proof sample_account_env (sample_now 0) (sample_ens 7) sample_cast_store = (st', Ok b) \<and>
     get_username_proof sample_account_env (ast_db st') (as_bytes ''a.eth'') = Ok (Some (sample_ens 7)) \<and>
     get_fname_proof_by_fid sample_account_env (ast_db st') 7 = Ok (Some (sample_ens 7))"
  using fname_registry_latest [of sample_account_env sample_cast_store Map.empty "sample_ens 7" "sample_now 0" _ 4096]
    sample_generate
  by (auto simp: registry_rep_def later_proof_def sample_account_env_def sample_ens_def sample_cast_store_def
      cast_store_new_def new_with_store_def_def)

end
